(* ===== verification/Prelude.thy ===== *)
theory Prelude
  imports "HOL-Library.Word"
begin

text \<open>
  Shared vocabulary of the development: the machine integers of the 32-bit MIPS target, the flat
  byte memory the C code runs on (\<open>CRunTime.memory\<close> in java/CRunTime.java, a big-endian array of
  32-bit words), byte blocks and NUL-terminated strings in it, and the word loads and stores the
  compiled code uses.  Addresses are 32-bit words and pointer arithmetic wraps.

  The collections \<open>mem_simps\<close> (reading after writing) and \<open>word_facts\<close> (unsigned
  arithmetic) carry the proofs of the component theories.
\<close>

unbundle bit_operations_syntax

named_theorems mem_simps \<open>reading bytes, words and strings back from an updated memory\<close>
named_theorems word_facts \<open>unsigned readings of word arithmetic\<close>

subsection \<open>Lists\<close>

lemma length_takeWhile_less: "x \<in> set xs \<Longrightarrow> \<not> P x \<Longrightarrow> length (takeWhile P xs) < length xs"
  by (induction xs) auto

lemma takeWhile_split:
  "set pre \<subseteq> {x. P x} \<Longrightarrow> post = [] \<or> \<not> P (hd post) \<Longrightarrow> takeWhile P (pre @ post) = pre"
  by (induction pre) (cases post, auto)

subsection \<open>Machine integers\<close>

type_synonym u8 = "8 word"
type_synonym u32 = "32 word"
type_synonym u64 = "64 word"
type_synonym mem = "u32 \<Rightarrow> u8"

text \<open>The target's \<open>char\<close> is signed; a byte read as an \<open>int\<close> is sign-extended.\<close>

definition sx8 :: "u8 \<Rightarrow> u32" where
  "sx8 b = signed_take_bit 7 (ucast b)"

text \<open>The low byte of an \<open>int\<close>, as stored by \<open>*p = c\<close>.\<close>

definition lo8 :: "u32 \<Rightarrow> u8" where
  "lo8 c = ucast c"

text \<open>C's signed division and remainder truncate towards zero.\<close>

definition c_div :: "int \<Rightarrow> int \<Rightarrow> int" where
  "c_div a b = sgn a * sgn b * (\<bar>a\<bar> div \<bar>b\<bar>)"

definition c_mod :: "int \<Rightarrow> int \<Rightarrow> int" where
  "c_mod a b = a - b * c_div a b"

lemma c_div_nonneg: "0 \<le> a \<Longrightarrow> 0 < b \<Longrightarrow> c_div a b = a div b"
  by (cases "a = 0") (simp_all add: c_div_def)

lemma c_mod_nonneg: "0 \<le> a \<Longrightarrow> 0 < b \<Longrightarrow> c_mod a b = a mod b"
  by (simp add: c_mod_def c_div_nonneg minus_mult_div_eq_mod)

lemma c_div_neg: "a < 0 \<Longrightarrow> 0 < b \<Longrightarrow> c_div a b = - ((- a) div b)"
  by (simp add: c_div_def)

lemma unat_dec1 [word_facts]: "n \<noteq> 0 \<Longrightarrow> unat (n - 1) < unat (n :: 'a::len word)"
  by (rule measure_unat)

lemma unat_dec4 [word_facts]: "4 \<le> n \<Longrightarrow> unat (n - 4) < unat (n :: u32)"
  by unat_arith

lemma unat_step1 [word_facts]: "0 < n \<Longrightarrow> unat (n :: u32) = 1 + unat (n - 1)"
  by unat_arith

lemma unat_step4 [word_facts]: "4 \<le> n \<Longrightarrow> unat (n :: u32) = 4 + unat (n - 4)"
  by unat_arith

lemma unat_bound32 [simp]: "unat (a :: u32) < 4294967296"
  using unsigned_less [where 'b = 32 and 'a = nat, of a] by simp

lemma unat_le32 [simp]: "unat (a :: u32) \<le> 4294967296"
  by (simp add: less_imp_le)

text \<open>The signed reading of a word, by its unsigned one.\<close>

lemma sint32:
  "sint (x :: u32) = (if unat x < 2 ^ 31 then int (unat x) else int (unat x) - 2 ^ 32)"
proof -
  define u where "u = unat x"
  have u: "u < 4294967296" by (simp add: u_def)
  have "sint x = (int u + 2147483648) mod 4294967296 - 2147483648"
    using int_word_sint [of "int u", where 'a = 32] by (simp add: u_def)
  also have "\<dots> = (if u < 2147483648 then int u else int u - 4294967296)"
  proof (cases "u < 2147483648")
    case False
    then have "(int u + 2147483648) mod 4294967296 = (int u - 2147483648) mod 4294967296"
      using mod_add_self2 [of "int u - 2147483648" "4294967296"] by (simp add: add.commute)
    with False u show ?thesis by simp
  qed simp
  finally show ?thesis by (simp add: u_def)
qed

lemma sint32_pos: "unat (x :: u32) < 2 ^ 31 \<Longrightarrow> sint x = int (unat x)"
  by (simp add: sint32)

lemma sint_eq_0_iff: "sint (x :: 'a::len word) = 0 \<longleftrightarrow> x = 0"
  by (rule signed_eq_0_iff)

lemma sint32_less: "unat (a :: u32) < 2 ^ 31 \<Longrightarrow> unat (b :: u32) < 2 ^ 31 \<Longrightarrow> sint a < sint b \<longleftrightarrow> unat a < unat b"
  by (simp only: sint32_pos of_nat_less_iff)

lemma sint32_le: "unat (a :: u32) < 2 ^ 31 \<Longrightarrow> unat (b :: u32) < 2 ^ 31 \<Longrightarrow> sint a \<le> sint b \<longleftrightarrow> unat a \<le> unat b"
  by (simp only: sint32_pos of_nat_le_iff)

lemma unat_inc: "unat (a :: u32) < unat (b :: u32) \<Longrightarrow> unat (a + 1) = Suc (unat a)"
  by unat_arith

lemma sint_of_int32: "- (2 ^ 31) \<le> k \<Longrightarrow> k < 2 ^ 31 \<Longrightarrow> sint (of_int k :: u32) = k"
  using int_word_sint [of k, where 'a = 32] by simp

text \<open>Wrapping an integer to a C \<open>int\<close>.\<close>

definition wrap32 :: "int \<Rightarrow> int" where
  "wrap32 k = sint (of_int k :: u32)"

lemma wrap32_id: "- (2 ^ 31) \<le> k \<Longrightarrow> k < 2 ^ 31 \<Longrightarrow> wrap32 k = k"
  unfolding wrap32_def by (rule sint_of_int32)

lemma unat_diff_step:
  fixes a p :: u32
  assumes "a \<noteq> p"
  shows "unat (a - p) = Suc (unat (a - (p + 1)))"
proof -
  have "a - p \<noteq> 0" using assms by simp
  then have "unat (a - p - 1) = unat (a - p) - 1" "0 < unat (a - p)"
    by (simp_all add: unat_minus_one unat_gt_0)
  then show ?thesis by (simp add: diff_diff_eq)
qed

lemma of_nat_unat_diff: "p + of_nat (unat (a - p)) = (a :: u32)"
  by simp

subsection \<open>Byte blocks\<close>

text \<open>
  \<open>peek m p n\<close> is the list of the \<open>n\<close> bytes from address \<open>p\<close> on,
  \<open>poke m p xs\<close> is the memory with the bytes \<open>xs\<close> written from \<open>p\<close> on, and
  \<open>in_block p n a\<close> says that \<open>a\<close> is one of the \<open>n\<close> addresses from \<open>p\<close> on.
\<close>

fun peek :: "mem \<Rightarrow> u32 \<Rightarrow> nat \<Rightarrow> u8 list" where
  "peek m p 0 = []"
| "peek m p (Suc n) = m p # peek m (p + 1) n"

fun poke :: "mem \<Rightarrow> u32 \<Rightarrow> u8 list \<Rightarrow> mem" where
  "poke m p [] = m"
| "poke m p (x # xs) = poke (m(p := x)) (p + 1) xs"

definition in_block :: "u32 \<Rightarrow> nat \<Rightarrow> u32 \<Rightarrow> bool" where
  "in_block p n a \<longleftrightarrow> unat (a - p) < n"

lemma length_peek [simp]: "length (peek m p n) = n"
  by (induction n arbitrary: p) auto

lemma nth_peek: "i < n \<Longrightarrow> peek m p n ! i = m (p + of_nat i)"
proof (induction n arbitrary: p i)
  case 0
  then show ?case by simp
next
  case (Suc n)
  then show ?case by (cases i) (simp_all add: add.assoc)
qed

lemma peek_conv_map: "peek m p n = map (\<lambda>i. m (p + of_nat i)) [0..<n]"
  by (rule nth_equalityI) (simp_all add: nth_peek)

lemma peek_append: "peek m p (i + j) = peek m p i @ peek m (p + of_nat i) j"
  by (induction i arbitrary: p) (simp_all add: add.assoc)

lemma poke_append: "poke m p (xs @ ys) = poke (poke m p xs) (p + of_nat (length xs)) ys"
  by (induction xs arbitrary: m p) (simp_all add: add.assoc)

lemma poke_apply:
  assumes "length xs \<le> 2 ^ 32"
  shows "poke m p xs a = (if unat (a - p) < length xs then xs ! unat (a - p) else m a)"
  using assms
proof (induction xs arbitrary: m p)
  case Nil
  then show ?case by simp
next
  case (Cons x xs)
  have IH: "poke (m(p := x)) (p + 1) xs a =
      (if unat (a - (p + 1)) < length xs then xs ! unat (a - (p + 1)) else (m(p := x)) a)"
    using Cons by simp
  show ?case
  proof (cases "a = p")
    case True
    have "unat (p - (p + 1)) = 2 ^ 32 - 1" by (simp add: unsigned_minus_1_eq_mask mask_eq_exp_minus_1)
    with True IH Cons.prems show ?thesis by simp
  next
    case False
    then show ?thesis using IH by (simp add: unat_diff_step)
  qed
qed

lemma poke_outside [mem_simps]:
  "length xs \<le> 2 ^ 32 \<Longrightarrow> \<not> in_block p (length xs) a \<Longrightarrow> poke m p xs a = m a"
  by (simp add: poke_apply in_block_def)

lemma poke_inside:
  "length xs \<le> 2 ^ 32 \<Longrightarrow> i < length xs \<Longrightarrow> poke m p xs (p + of_nat i) = xs ! i"
  by (simp add: poke_apply unat_of_nat)

lemma peek_poke_same [mem_simps]: "length xs \<le> 2 ^ 32 \<Longrightarrow> peek (poke m p xs) p (length xs) = xs"
  by (rule nth_equalityI) (simp_all add: nth_peek poke_inside)

lemma peek_cong: "(\<And>a. in_block p n a \<Longrightarrow> m a = m' a) \<Longrightarrow> n \<le> 2 ^ 32 \<Longrightarrow> peek m p n = peek m' p n"
  by (rule nth_equalityI) (simp_all add: nth_peek in_block_def unat_of_nat)

lemma peek_poke_disjoint [mem_simps]:
  assumes "length xs \<le> 2 ^ 32" "n \<le> 2 ^ 32"
    and "\<And>a. in_block q n a \<Longrightarrow> \<not> in_block p (length xs) a"
  shows "peek (poke m p xs) q n = peek m q n"
  using assms by (intro peek_cong) (auto simp: poke_outside)

lemma peek_upd_outside [mem_simps]: "\<not> in_block q n a \<Longrightarrow> n \<le> 2 ^ 32 \<Longrightarrow> peek (m(a := x)) q n = peek m q n"
  by (rule peek_cong) auto

lemma poke_upd_commute:
  assumes "length xs \<le> 2 ^ 32" "\<not> in_block p (length xs) a"
  shows "poke (m(a := x)) p xs = (poke m p xs)(a := x)"
  using assms by (intro ext) (auto simp: poke_apply in_block_def)

lemma in_block_0 [simp]: "\<not> in_block p 0 a"
  by (simp add: in_block_def)

lemma in_block_Suc: "in_block p (Suc n) a \<longleftrightarrow> a = p \<or> in_block (p + 1) n a \<and> a \<noteq> p"
  by (cases "a = p") (simp_all add: in_block_def unat_diff_step)

subsection \<open>Word access\<close>

text \<open>
  The machine is big-endian: \<open>memoryReadWord\<close> and \<open>memoryWriteWord\<close> on the four bytes of
  a word.  Compiled code accesses words at word-aligned addresses only.
\<close>

definition load32 :: "mem \<Rightarrow> u32 \<Rightarrow> u32" where
  "load32 m a = push_bit 24 (ucast (m a)) OR push_bit 16 (ucast (m (a + 1)))
     OR push_bit 8 (ucast (m (a + 2))) OR ucast (m (a + 3))"

definition bytes32 :: "u32 \<Rightarrow> u8 list" where
  "bytes32 v = [ucast (drop_bit 24 v), ucast (drop_bit 16 v), ucast (drop_bit 8 v), ucast v]"

definition store32 :: "mem \<Rightarrow> u32 \<Rightarrow> u32 \<Rightarrow> mem" where
  "store32 m a v = poke m a (bytes32 v)"

definition aligned4 :: "u32 \<Rightarrow> bool" where
  "aligned4 a \<longleftrightarrow> a AND 3 = 0"

lemma length_bytes32 [simp]: "length (bytes32 v) = 4"
  by (simp add: bytes32_def)

lemma word32_of_bytes:
  "push_bit 24 (ucast (ucast (drop_bit 24 v) :: u8)) OR push_bit 16 (ucast (ucast (drop_bit 16 v) :: u8))
     OR push_bit 8 (ucast (ucast (drop_bit 8 v) :: u8)) OR ucast (ucast v :: u8) = (v :: u32)"
  (is "?lhs = v")
proof (rule bit_word_eqI)
  fix n assume "n < LENGTH(32)"
  then consider "n < 8" | "8 \<le> n" "n < 16" | "16 \<le> n" "n < 24" | "24 \<le> n" "n < 32"
    by fastforce
  then show "bit ?lhs n = bit v n"
    by cases (auto simp: bit_simps)
qed

lemma load32_store32_same [mem_simps]: "load32 (store32 m a v) a = v"
proof -
  have "store32 m a v (a + of_nat i) = bytes32 v ! i" if "i < 4" for i
    unfolding store32_def using that by (intro poke_inside) simp_all
  from this [of 0] this [of 1] this [of 2] this [of 3] show ?thesis
    by (simp add: load32_def bytes32_def word32_of_bytes)
qed

lemma aligned4_mask: "aligned4 a \<longleftrightarrow> a AND mask 2 = 0"
  by (simp add: aligned4_def mask_eq_exp_minus_1)

lemma aligned4_unat: "aligned4 a \<longleftrightarrow> 4 dvd unat a"
  using and_mask_dvd_nat [of 2 a] by (simp add: aligned4_mask)

lemma aligned4_0 [simp]: "aligned4 0"
  by (simp add: aligned4_def)

lemma aligned4_add [intro]: "aligned4 a \<Longrightarrow> aligned4 b \<Longrightarrow> aligned4 (a + b)"
  by (simp add: aligned4_unat unat_word_ariths dvd_mod_iff)

lemma aligned4_diff [intro]: "aligned4 a \<Longrightarrow> aligned4 b \<Longrightarrow> aligned4 (a - b)"
  by (auto simp: aligned4_unat unat_sub_if' intro!: dvd_diff_nat)

lemma aligned4_disjoint:
  assumes "aligned4 a" "aligned4 b" "a \<noteq> b" "in_block b 4 c"
  shows "\<not> in_block a 4 c"
proof
  assume c: "in_block a 4 c"
  let ?d = "a - b"
  have "4 dvd unat ?d" using assms(1,2) aligned4_diff aligned4_unat by blast
  moreover have "unat ?d \<noteq> 0" using assms(3) by (simp add: unsigned_eq_0_iff)
  ultimately obtain k where k: "unat ?d = 4 * k" "1 \<le> k" by (auto simp: dvd_def)
  have "c - b = (c - a) + ?d" by simp
  moreover have "unat (c - a) + unat ?d < 2 ^ 32"
    using c k unat_bound32 [of ?d] by (simp add: in_block_def)
  ultimately have "unat (c - b) = unat (c - a) + unat ?d"
    using unat_add_lem [of "c - a" ?d] by simp
  with assms(4) k show False by (simp add: in_block_def)
qed

lemma load32_cong: "(\<And>c. in_block a 4 c \<Longrightarrow> m c = m' c) \<Longrightarrow> load32 m a = load32 m' a"
  by (simp add: load32_def in_block_def)

lemma store32_outside [mem_simps]: "\<not> in_block a 4 c \<Longrightarrow> store32 m a v c = m c"
  by (simp add: store32_def poke_outside)

lemma load32_store32_other [mem_simps]:
  assumes "aligned4 a" "aligned4 b" "a \<noteq> b"
  shows "load32 (store32 m a v) b = load32 m b"
  by (intro load32_cong store32_outside) (rule aligned4_disjoint [OF assms])

text \<open>In terms of plain numbers, for a block that does not wrap around the address space.\<close>

lemma in_block_unat:
  assumes "unat p + n \<le> 2 ^ 32"
  shows "in_block p n a \<longleftrightarrow> unat p \<le> unat a \<and> unat a < unat p + n"
  using assms unat_bound32 [of a] unat_bound32 [of p]
  unfolding in_block_def unat_sub_if' by auto

lemma bit_u8_high: "8 \<le> n \<Longrightarrow> \<not> bit (b :: u8) n"
  by (auto dest: bit_imp_le_length)

lemma peek_4: "peek m a 4 = [m a, m (a + 1), m (a + 2), m (a + 3)]"
  by (simp add: numeral_eq_Suc add.assoc add.commute [of a])

lemma aligned4_4 [simp]: "aligned4 4"
  by (simp add: aligned4_def)

lemma bytes32_load32: "bytes32 (load32 m a) = peek m a 4"
proof -
  have "ucast (drop_bit 24 (load32 m a)) = m a" "ucast (drop_bit 16 (load32 m a)) = m (a + 1)"
    "ucast (drop_bit 8 (load32 m a)) = m (a + 2)" "ucast (load32 m a) = m (a + 3)"
    by (rule bit_word_eqI, auto simp: load32_def bit_simps bit_u8_high)+
  then show ?thesis
    by (simp add: bytes32_def peek_4)
qed

lemma aligned4_or: "(a OR b OR c) AND 3 = 0 \<longleftrightarrow> aligned4 a \<and> aligned4 b \<and> aligned4 c"
  by (simp add: aligned4_def bit.conj_disj_distrib2 bit.conj_disj_distrib or_eq_0_iff)

subsection \<open>NUL-terminated strings\<close>

text \<open>
  \<open>cstr m p xs\<close>: the memory holds the C string with the characters \<open>xs\<close> (none of them
  zero) at \<open>p\<close>, followed by its terminating zero.
\<close>

fun cstr :: "mem \<Rightarrow> u32 \<Rightarrow> u8 list \<Rightarrow> bool" where
  "cstr m p [] \<longleftrightarrow> m p = 0"
| "cstr m p (x # xs) \<longleftrightarrow> m p = x \<and> x \<noteq> 0 \<and> cstr m (p + 1) xs"

lemma cstr_append: "cstr m p (xs @ ys) \<longleftrightarrow> peek m p (length xs) = xs \<and> 0 \<notin> set xs \<and> cstr m (p + of_nat (length xs)) ys"
  by (induction xs arbitrary: p) (auto simp: add.assoc)

lemma cstr_peek: "cstr m p xs \<longleftrightarrow> peek m p (Suc (length xs)) = xs @ [0] \<and> 0 \<notin> set xs"
  by (induction xs arbitrary: p) auto

lemma cstr_nth: "cstr m p xs \<Longrightarrow> i < length xs \<Longrightarrow> m (p + of_nat i) = xs ! i \<and> xs ! i \<noteq> 0"
proof (induction xs arbitrary: p i)
  case Nil
  then show ?case by simp
next
  case (Cons x xs)
  then show ?case by (cases i) (auto simp: add.assoc [symmetric])
qed

lemma cstr_end: "cstr m p xs \<Longrightarrow> m (p + of_nat (length xs)) = 0"
  by (induction xs arbitrary: p) (auto simp: add.assoc [symmetric])

lemma cstr_drop: "cstr m p xs \<Longrightarrow> i \<le> length xs \<Longrightarrow> cstr m (p + of_nat i) (drop i xs)"
  using cstr_append [of m p "take i xs" "drop i xs"] by (simp add: min_absorb2)

lemma cstr_unique: "cstr m p xs \<Longrightarrow> cstr m p ys \<Longrightarrow> xs = ys"
proof (induction xs arbitrary: p ys)
  case Nil
  then show ?case by (cases ys) auto
next
  case (Cons x xs)
  then show ?case by (cases ys) auto
qed

text \<open>A string cannot be longer than the address space: it would meet its own terminator.\<close>

lemma cstr_length:
  assumes "cstr m p xs"
  shows "length xs < 2 ^ 32"
proof (rule ccontr)
  assume "\<not> length xs < 2 ^ 32"
  then have long: "2 ^ 32 \<le> length xs" by simp
  let ?e = "length xs mod 2 ^ 32"
  have "?e < length xs"
    by (rule less_le_trans [OF mod_less_divisor long]) simp
  moreover have "(of_nat ?e :: u32) = of_nat (length xs)"
    by (rule word_unat_eq_iff [THEN iffD2]) (simp add: unat_of_nat)
  ultimately show False
    using cstr_nth [OF assms, of ?e] cstr_end [OF assms] by simp
qed

lemma cstr_unat [simp]: "cstr m p xs \<Longrightarrow> unat (of_nat (length xs) :: u32) = length xs"
  using cstr_length [of m p xs] by (simp add: unat_of_nat)

lemma cstr_cong:
  assumes "cstr m p xs" "\<And>a. in_block p (Suc (length xs)) a \<Longrightarrow> m' a = m a"
  shows "cstr m' p xs"
proof -
  have "peek m' p (Suc (length xs)) = peek m p (Suc (length xs))"
    using assms(2) cstr_length [OF assms(1)] by (intro peek_cong) auto
  with assms(1) show ?thesis unfolding cstr_peek by simp
qed

lemma cstr_poke_other:
  assumes "cstr m p xs" "length ys \<le> 2 ^ 32"
    "\<And>a. in_block p (Suc (length xs)) a \<Longrightarrow> \<not> in_block q (length ys) a"
  shows "cstr (poke m q ys) p xs"
  by (rule cstr_cong [OF assms(1)]) (use assms(2,3) in \<open>auto simp: poke_outside\<close>)

end
