(* ===== verification/CString.thy ===== *)
theory CString
  imports Prelude
begin

text \<open>
  The string and block functions of libs/src/libc/string.c on the byte memory.  A function that
  writes takes the memory and returns the new one; a loop bounded by a count is a total function
  (the count is its measure), a loop that looks for a terminator is a
  \<open>partial_function (option)\<close>, whose \<open>None\<close> is "does not return".
\<close>

unbundle bit_operations_syntax

subsection \<open>memset\<close>

text \<open>The three loops of \<open>memset\<close>: up to a word boundary, word by word, the remaining bytes.\<close>

function memset_head :: "mem \<Rightarrow> u32 \<Rightarrow> u32 \<Rightarrow> u32 \<Rightarrow> mem \<times> u32 \<times> u32" where
  "memset_head m p c n =
     (if p AND 3 \<noteq> 0 \<and> 0 < n then memset_head (m(p := lo8 c)) (p + 1) c (n - 1) else (m, p, n))"
  by pat_completeness auto
termination
  by (relation "measure (\<lambda>(m, p, c, n). unat n)") (auto intro: unat_dec1)

function memset_words :: "mem \<Rightarrow> u32 \<Rightarrow> u32 \<Rightarrow> u32 \<Rightarrow> mem \<times> u32 \<times> u32" where
  "memset_words m p i_c n =
     (if 4 < n then memset_words (store32 m p i_c) (p + 4) i_c (n - 4) else (m, p, n))"
  by pat_completeness auto
termination
  by (relation "measure (\<lambda>(m, p, i_c, n). unat n)") (auto intro: unat_dec4)

function memset_tail :: "mem \<Rightarrow> u32 \<Rightarrow> u32 \<Rightarrow> u32 \<Rightarrow> mem" where
  "memset_tail m p c n = (if 0 < n then memset_tail (m(p := lo8 c)) (p + 1) c (n - 1) else m)"
  by pat_completeness auto
termination
  by (relation "measure (\<lambda>(m, p, c, n). unat n)") (auto intro: unat_dec1)

declare memset_head.simps [simp del] memset_words.simps [simp del] memset_tail.simps [simp del]

text \<open>The word the middle loop stores: \<open>(c << 24) | (c << 16) | (c << 8) | c\<close>.\<close>

definition memset_word :: "u32 \<Rightarrow> u32" where
  "memset_word c = push_bit 24 c OR push_bit 16 c OR push_bit 8 c OR c"

definition memset :: "mem \<Rightarrow> u32 \<Rightarrow> u32 \<Rightarrow> u32 \<Rightarrow> mem \<times> u32" where
  "memset m s c n =
     (let (m1, p1, n1) =
        (if 4 < n then
           (let (m0, p0, n0) = memset_head m s c n in memset_words m0 p0 (memset_word c) n0)
         else (m, s, n))
      in (memset_tail m1 p1 c n1, s))"

subsection \<open>memcpy and memmove\<close>

text \<open>
  The word loop counts down by four and stops at zero only: from a count that is no multiple of
  four it would run for ever.  The guard of \<open>memcpy\<close> excludes that.
\<close>

partial_function (option) memcpy_words :: "mem \<Rightarrow> u32 \<Rightarrow> u32 \<Rightarrow> u32 \<Rightarrow> mem option" where
  "memcpy_words m d s n =
     (if 0 < n then memcpy_words (store32 m d (load32 m s)) (d + 4) (s + 4) (n - 4) else Some m)"

function memcpy_bytes :: "mem \<Rightarrow> u32 \<Rightarrow> u32 \<Rightarrow> u32 \<Rightarrow> mem" where
  "memcpy_bytes m d s n =
     (if 0 < n then memcpy_bytes (m(d := m s)) (d + 1) (s + 1) (n - 1) else m)"
  by pat_completeness auto
termination
  by (relation "measure (\<lambda>(m, d, s, n). unat n)") (auto intro: unat_dec1)

definition memcpy :: "mem \<Rightarrow> u32 \<Rightarrow> u32 \<Rightarrow> u32 \<Rightarrow> (mem \<times> u32) option" where
  "memcpy m dest src n =
     (if (src OR dest OR n) AND 3 = 0
      then map_option (\<lambda>m'. (m', dest)) (memcpy_words m dest src n)
      else Some (memcpy_bytes m dest src n, dest))"

text \<open>The two loops of \<open>memmove\<close>: upwards, and downwards by index.\<close>

function memmove_up :: "mem \<Rightarrow> u32 \<Rightarrow> u32 \<Rightarrow> u32 \<Rightarrow> mem" where
  "memmove_up m s p n = (if n \<noteq> 0 then memmove_up (m(s := m p)) (s + 1) (p + 1) (n - 1) else m)"
  by pat_completeness auto
termination
  by (relation "measure (\<lambda>(m, s, p, n). unat n)") (auto intro: unat_dec1)

function memmove_down :: "mem \<Rightarrow> u32 \<Rightarrow> u32 \<Rightarrow> u32 \<Rightarrow> mem" where
  "memmove_down m s p n =
     (if n \<noteq> 0 then (let n' = n - 1 in memmove_down (m(s + n' := m (p + n'))) s p n') else m)"
  by pat_completeness auto
termination
  by (relation "measure (\<lambda>(m, s, p, n). unat n)") (auto intro: unat_dec1)

declare memcpy_bytes.simps [simp del] memmove_up.simps [simp del] memmove_down.simps [simp del]

definition memmove :: "mem \<Rightarrow> u32 \<Rightarrow> u32 \<Rightarrow> u32 \<Rightarrow> mem \<times> u32" where
  "memmove m s1 s2 n =
     (if s1 \<le> s2 then (memmove_up m s1 s2 n, s1) else (memmove_down m s1 s2 n, s1))"

subsection \<open>Searching strings\<close>

partial_function (option) strlen_loop :: "mem \<Rightarrow> u32 \<Rightarrow> u32 option" where
  "strlen_loop m p = (if m p \<noteq> 0 then strlen_loop m (p + 1) else Some p)"

definition strlen :: "mem \<Rightarrow> u32 \<Rightarrow> u32 option" where
  "strlen m s = map_option (\<lambda>p. p - s) (strlen_loop m s)"

text \<open>\<open>in_set\<close> is the inner loop over \<open>s2\<close> that \<open>strpbrk\<close> and \<open>strcspn\<close> share.\<close>

partial_function (option) in_set :: "mem \<Rightarrow> u32 \<Rightarrow> u8 \<Rightarrow> bool option" where
  "in_set m p c =
     (if m p \<noteq> 0 then (if m p = c then Some True else in_set m (p + 1) c) else Some False)"

partial_function (option) strpbrk :: "mem \<Rightarrow> u32 \<Rightarrow> u32 \<Rightarrow> u32 option" where
  "strpbrk m s s2 =
     (if m s \<noteq> 0
      then Option.bind (in_set m s2 (m s)) (\<lambda>hit. if hit then Some s else strpbrk m (s + 1) s2)
      else Some 0)"

partial_function (option) strspn_loop :: "mem \<Rightarrow> u32 \<Rightarrow> u32 \<Rightarrow> u32 \<Rightarrow> u32 option" where
  "strspn_loop m s2 s p =
     (if m p \<noteq> 0
      then (if m p = m s then strspn_loop m s2 (s + 1) s2 else strspn_loop m s2 s (p + 1))
      else Some s)"

definition strspn :: "mem \<Rightarrow> u32 \<Rightarrow> u32 \<Rightarrow> u32 option" where
  "strspn m s1 s2 = map_option (\<lambda>s. s - s1) (strspn_loop m s2 s1 s2)"

partial_function (option) strcspn_loop :: "mem \<Rightarrow> u32 \<Rightarrow> u32 \<Rightarrow> u32 option" where
  "strcspn_loop m s s2 =
     (if m s \<noteq> 0
      then Option.bind (in_set m s2 (m s)) (\<lambda>hit. if hit then Some s else strcspn_loop m (s + 1) s2)
      else Some s)"

definition strcspn :: "mem \<Rightarrow> u32 \<Rightarrow> u32 \<Rightarrow> u32 option" where
  "strcspn m s1 s2 = map_option (\<lambda>s. s - s1) (strcspn_loop m s1 s2)"

partial_function (option) strchr :: "mem \<Rightarrow> u32 \<Rightarrow> u32 \<Rightarrow> u32 option" where
  "strchr m s c =
     (if m s = lo8 c then Some s else if m s \<noteq> 0 then strchr m (s + 1) c else Some 0)"

partial_function (option) strrchr_loop :: "mem \<Rightarrow> u32 \<Rightarrow> u32 \<Rightarrow> u32 \<Rightarrow> u32 option" where
  "strrchr_loop m s c p =
     (let p' = (if m s = lo8 c then s else p)
      in if m s \<noteq> 0 then strrchr_loop m (s + 1) c p' else Some p')"

definition strrchr :: "mem \<Rightarrow> u32 \<Rightarrow> u32 \<Rightarrow> u32 option" where
  "strrchr m s c = strrchr_loop m s c 0"

subsection \<open>Copying and splitting strings\<close>

partial_function (option) strcpy_loop :: "mem \<Rightarrow> u32 \<Rightarrow> u32 \<Rightarrow> mem option" where
  "strcpy_loop m s s2 =
     (let c = m s2; m' = m(s := c)
      in if c \<noteq> 0 then strcpy_loop m' (s + 1) (s2 + 1) else Some m')"

definition strcpy :: "mem \<Rightarrow> u32 \<Rightarrow> u32 \<Rightarrow> (mem \<times> u32) option" where
  "strcpy m s1 s2 = map_option (\<lambda>m'. (m', s1)) (strcpy_loop m s1 s2)"

text \<open>
  \<open>strtok_r\<close> returns the memory, the token (NULL for none) and the new value of \<open>*next_start\<close>;
  \<open>strtok\<close> keeps that value in its static variable, here the last argument and result.
\<close>

definition strtok_r :: "mem \<Rightarrow> u32 \<Rightarrow> u32 \<Rightarrow> u32 \<Rightarrow> (mem \<times> u32 \<times> u32) option" where
  "strtok_r m s1 s2 next_start =
     (let s = (if s1 \<noteq> 0 then s1 else next_start)
      in if s = 0 then Some (m, s, next_start)
         else Option.bind (strspn m s s2) (\<lambda>k.
           let s = s + k
           in if m s \<noteq> 0
              then Option.bind (strpbrk m s s2) (\<lambda>p.
                if p \<noteq> 0 then Some (m(p := 0), s, p + 1) else Some (m, s, p))
              else Some (m, 0, 0)))"

definition strtok :: "mem \<Rightarrow> u32 \<Rightarrow> u32 \<Rightarrow> u32 \<Rightarrow> (mem \<times> u32 \<times> u32) option" where
  "strtok m s1 s2 next_start = strtok_r m s1 s2 next_start"

subsection \<open>Blocks: what the loops write\<close>

text \<open>\<open>filled b m p n r\<close>: the loop state \<open>r\<close> is reached by writing \<open>b\<close> over a prefix of the block.\<close>

definition filled :: "u8 \<Rightarrow> mem \<Rightarrow> u32 \<Rightarrow> u32 \<Rightarrow> mem \<times> u32 \<times> u32 \<Rightarrow> bool" where
  "filled b m p n r \<longleftrightarrow> (case r of (m', p', n') \<Rightarrow>
     \<exists>k. m' = poke m p (replicate k b) \<and> p' = p + of_nat k \<and> unat n = k + unat n')"

lemma filled_refl: "filled b m p n (m, p, n)"
  by (auto simp: filled_def intro: exI [of _ 0])

lemma filled_step:
  assumes "filled b (poke m p (replicate j b)) (p + of_nat j) n' r" "unat n = j + unat n'"
  shows "filled b m p n r"
proof -
  obtain m' p'' n'' k where r: "r = (m', p'', n'')"
    and k: "m' = poke (poke m p (replicate j b)) (p + of_nat j) (replicate k b)"
      "p'' = p + of_nat j + of_nat k" "unat n' = k + unat n''"
    using assms(1) by (cases r) (auto simp: filled_def)
  have "m' = poke m p (replicate (j + k) b)"
    by (simp add: k(1) replicate_add poke_append)
  moreover have "unat n = (j + k) + unat n''" using assms(2) k(3) by simp
  ultimately show ?thesis by (auto simp: filled_def r k(2) add.assoc intro!: exI [of _ "j + k"])
qed

lemma memset_head_filled: "filled (lo8 c) m p n (memset_head m p c n)"
proof (induction m p c n rule: memset_head.induct)
  case (1 m p c n)
  show ?case
  proof (cases "p AND 3 \<noteq> 0 \<and> 0 < n")
    case True
    then have "filled (lo8 c) (poke m p (replicate 1 (lo8 c))) (p + of_nat 1) (n - 1) (memset_head m p c n)"
      using 1 by (simp add: memset_head.simps [of m p c n] fun_upd_def)
    then show ?thesis by (rule filled_step) (use True in \<open>simp add: unat_step1\<close>)
  qed (subst memset_head.simps, auto simp: filled_refl)
qed

lemma memset_words_filled:
  assumes "bytes32 w = replicate 4 b"
  shows "filled b m p n (memset_words m p w n)"
  using assms
proof (induction m p w n rule: memset_words.induct)
  case (1 m p w n)
  show ?case
  proof (cases "4 < n")
    case True
    then have "filled b (poke m p (replicate 4 b)) (p + of_nat 4) (n - 4) (memset_words m p w n)"
      using 1 by (simp add: memset_words.simps [of m p w n] store32_def)
    then show ?thesis by (rule filled_step) (use True in \<open>simp add: unat_step4\<close>)
  qed (subst memset_words.simps, auto simp: filled_refl)
qed

lemma memset_tail_poke: "memset_tail m p c n = poke m p (replicate (unat n) (lo8 c))"
proof (induction m p c n rule: memset_tail.induct)
  case (1 m p c n)
  then show ?case
    by (subst memset_tail.simps) (auto simp: unat_step1 fun_upd_def word_gt_0)
qed

lemma memset_word_bytes:
  assumes "c \<le> 255"
  shows "bytes32 (memset_word c) = replicate 4 (lo8 c)"
proof -
  have hi: "\<not> bit c n" if "8 \<le> n" for n
  proof -
    have "c < 2 ^ 8" using assms by unat_arith
    then have "c AND mask 8 = c" by (rule less_mask_eq)
    then have "bit c n = bit (c AND mask 8) n" by simp
    with that show ?thesis by (simp add: bit_simps)
  qed
  have "ucast (drop_bit k (memset_word c)) = lo8 c" if "k \<in> {0, 8, 16, 24}" for k
    using that by (intro bit_word_eqI) (auto simp: memset_word_def lo8_def bit_simps hi)
  from this [of 0] this [of 8] this [of 16] this [of 24] show ?thesis
    by (simp add: bytes32_def numeral_eq_Suc)
qed

lemma memset_poke:
  assumes "c \<le> 255"
  shows "memset m s c n = (poke m s (replicate (unat n) (lo8 c)), s)"
proof -
  have fill: "filled (lo8 c) m s n (if 4 < n then (let (m0, p0, n0) = memset_head m s c n
        in memset_words m0 p0 (memset_word c) n0) else (m, s, n))" (is "filled _ _ _ _ ?r")
  proof (cases "4 < n")
    case True
    obtain m0 p0 n0 where h: "memset_head m s c n = (m0, p0, n0)" by (metis prod_cases3)
    then obtain k where k: "m0 = poke m s (replicate k (lo8 c))" "p0 = s + of_nat k" "unat n = k + unat n0"
      using memset_head_filled [of c m s n] by (auto simp: filled_def)
    have "filled (lo8 c) m0 p0 n0 (memset_words m0 p0 (memset_word c) n0)"
      by (rule memset_words_filled [OF memset_word_bytes [OF assms]])
    then show ?thesis using k True h by (auto intro: filled_step)
  qed (simp add: filled_refl)
  obtain m1 p1 n1 where r: "?r = (m1, p1, n1)" by (metis prod_cases3)
  with fill obtain k where k: "m1 = poke m s (replicate k (lo8 c))" "p1 = s + of_nat k" "unat n = k + unat n1"
    by (auto simp: filled_def)
  show ?thesis
    unfolding memset_def r by (simp add: memset_tail_poke k replicate_add poke_append)
qed

subsection \<open>Copying with overlap\<close>

lemma copy_ahead:
  assumes "d = s \<or> Suc n \<le> unat (d - s)"
  shows "peek (m(d := m s)) (s + 1) n = peek m (s + 1) n"
    and "d + 1 = s + 1 \<or> n \<le> unat ((d + 1) - (s + 1))"
proof -
  show "peek (m(d := m s)) (s + 1) n = peek m (s + 1) n"
  proof (cases "d = s")
    case False
    with assms have n: "Suc n \<le> unat (d - s)" by simp
    then have "\<not> in_block (s + 1) n d"
      using unat_diff_step [OF False] by (simp add: in_block_def)
    moreover have "n \<le> 2 ^ 32" by (rule le_trans [OF Suc_leD [OF n]]) (simp add: less_imp_le)
    ultimately show ?thesis by (rule peek_upd_outside)
  qed simp
  show "d + 1 = s + 1 \<or> n \<le> unat ((d + 1) - (s + 1))"
    using assms by auto
qed

lemma memcpy_bytes_poke:
  "d = s \<or> unat n \<le> unat (d - s) \<Longrightarrow> memcpy_bytes m d s n = poke m d (peek m s (unat n))"
proof (induction m d s n rule: memcpy_bytes.induct)
  case (1 m d s n)
  show ?case
  proof (cases "0 < n")
    case True
    then have n: "unat n = Suc (unat (n - 1))" by (simp add: unat_step1)
    with 1 True copy_ahead [of d s "unat (n - 1)"] show ?thesis
      by (subst memcpy_bytes.simps) (simp add: fun_upd_def)
  qed (subst memcpy_bytes.simps, auto simp: word_gt_0)
qed

lemma memmove_up_eq: "memmove_up m d s n = memcpy_bytes m d s n"
proof (induction m d s n rule: memmove_up.induct)
  case (1 m d s n)
  then show ?case
    by (subst memmove_up.simps, subst memcpy_bytes.simps) (auto simp: word_gt_0 fun_upd_def)
qed

lemma memmove_down_poke:
  assumes "d = s \<or> unat n \<le> unat (s - d)"
  shows "memmove_down m d s n = poke m d (peek m s (unat n))"
  using assms
proof (induction m d s n rule: memmove_down.induct)
  case (1 m d s n)
  show ?case
  proof (cases "n = 0")
    case True
    then show ?thesis by (subst memmove_down.simps) simp
  next
    case False
    let ?k = "n - 1" and ?x = "m (s + (n - 1))"
    let ?m = "m(d + ?k := ?x)"
    have n: "unat n = Suc (unat ?k)" using False by (simp add: unat_step1 word_gt_0)
    have pre: "d = s \<or> unat ?k \<le> unat (s - d)" using 1(2) n by auto
    have "memmove_down m d s n = memmove_down ?m d s ?k"
      using False by (subst memmove_down.simps) (simp add: Let_def)
    also have "\<dots> = poke ?m d (peek ?m s (unat ?k))"
      using 1(1) [OF False refl pre] by (simp add: fun_upd_def)
    also have "peek ?m s (unat ?k) = peek m s (unat ?k)"
    proof (rule peek_upd_outside)
      have "unat ?k \<le> unat (?k - (s - d))" if "d \<noteq> s"
        using 1(2) that n unat_bound32 [of "s - d"] unat_bound32 [of ?k] unfolding unat_sub_if' by auto
      moreover have "d + ?k - s = ?k - (s - d)" by simp
      ultimately show "\<not> in_block s (unat ?k) (d + ?k)"
        by (cases "d = s") (simp_all only: in_block_def not_less, simp_all)
    qed (simp add: less_imp_le)
    also have "poke ?m d (peek m s (unat ?k)) = (poke m d (peek m s (unat ?k)))(d + ?k := ?x)"
      by (rule poke_upd_commute) (simp_all add: in_block_def less_imp_le)
    also have "\<dots> = poke m d (peek m s (unat n))"
      unfolding n using peek_append [of m s "unat ?k" 1] poke_append [of m d "peek m s (unat ?k)" "[?x]"]
      by simp
    finally show ?thesis .
  qed
qed

lemma copy_ahead4:
  assumes al: "aligned4 d" "aligned4 s" and sep: "d = s \<or> 4 + n \<le> unat (d - s)"
  shows "peek (store32 m d (load32 m s)) (s + 4) n = peek m (s + 4) n"
proof (cases "d = s")
  case True
  have "store32 m s (load32 m s) = m"
    by (rule ext) (auto simp: store32_def bytes32_load32 poke_apply nth_peek of_nat_unat_diff)
  with True show ?thesis by simp
next
  case False
  with sep have n: "4 + n \<le> unat (d - s)" by simp
  obtain k where k: "unat (d - s) = 4 * k" using aligned4_diff [OF al] by (auto simp: aligned4_unat dvd_def)
  then have top: "unat (d - s) + 4 \<le> 2 ^ 32" using unat_bound32 [of "d - s"] by simp
  show ?thesis
  proof (rule peek_cong)
    fix c assume c: "in_block (s + 4) n c"
    have "\<not> in_block d 4 c"
    proof
      assume "in_block d 4 c"
      then have i: "unat (c - d) < 4" by (simp add: in_block_def)
      have "unat ((c - d) + (d - s)) = unat (c - d) + unat (d - s)"
        using unat_add_lem [of "c - d" "d - s"] i top by simp
      then have "unat (c - s) \<ge> 4 + n" using n by simp
      moreover from this have "unat (c - (s + 4)) = unat (c - s) - 4"
        using unat_sub_if' [of "c - s" 4] by (simp add: diff_diff_eq)
      ultimately show False using c by (simp add: in_block_def)
    qed
    then show "store32 m d (load32 m s) c = m c" by (rule store32_outside)
  qed (use n top in simp)
qed

lemma memcpy_words_poke:
  assumes "aligned4 d" "aligned4 s" "aligned4 n" "d = s \<or> unat n \<le> unat (d - s)"
  shows "memcpy_words m d s n = Some (poke m d (peek m s (unat n)))"
  using assms
proof (induction "unat n div 4" arbitrary: m d s n)
  case 0
  then have "n = 0" by (auto simp: aligned4_unat dvd_def unsigned_eq_0_iff)
  then show ?case by (simp add: memcpy_words.simps)
next
  case (Suc k)
  have n: "unat n = 4 + unat (n - 4)" "4 \<le> n" "0 < n"
    using Suc.hyps(2) by - (unat_arith, unat_arith, unat_arith)
  have a: "aligned4 (d + 4)" "aligned4 (s + 4)" "aligned4 (n - 4)"
    using Suc.prems by auto
  let ?m = "store32 m d (load32 m s)"
  have "peek ?m (s + 4) (unat (n - 4)) = peek m (s + 4) (unat (n - 4))"
    by (rule copy_ahead4) (use Suc.prems n in auto)
  moreover have "memcpy_words ?m (d + 4) (s + 4) (n - 4) = Some (poke ?m (d + 4) (peek ?m (s + 4) (unat (n - 4))))"
    using Suc n a by (intro Suc.hyps) auto
  ultimately have "memcpy_words m d s n = Some (poke ?m (d + 4) (peek m (s + 4) (unat (n - 4))))"
    using n by (simp add: memcpy_words.simps)
  also have "?m = poke m d (peek m s 4)" by (simp add: store32_def bytes32_load32)
  finally show ?case using n poke_append [of m d "peek m s 4" "peek m (s + 4) (unat (n - 4))"] peek_append [of m s 4 "unat (n - 4)"]
    by simp
qed


lemma memcpy_poke:
  assumes "dest = src \<or> unat n \<le> unat (dest - src)"
  shows "memcpy m dest src n = Some (poke m dest (peek m src (unat n)), dest)"
proof (cases "(src OR dest OR n) AND 3 = 0")
  case True
  then have "aligned4 src" "aligned4 dest" "aligned4 n" by (simp_all add: aligned4_or)
  with assms True show ?thesis by (simp add: memcpy_def memcpy_words_poke)
next
  case False
  with assms show ?thesis by (simp add: memcpy_def memcpy_bytes_poke)
qed

text \<open>C32: \<open>memmove\<close> copies the \<open>n\<close> bytes that were at \<open>s2\<close> to \<open>s1\<close>, whichever way the two regions overlap,
  and changes nothing else.\<close>

theorem memmove_correct:
  assumes "unat s1 + unat n \<le> 2 ^ 32" "unat s2 + unat n \<le> 2 ^ 32"
  shows "memmove m s1 s2 n = (poke m s1 (peek m s2 (unat n)), s1)"
proof (cases "s1 \<le> s2")
  case True
  then have "s1 = s2 \<or> unat n \<le> unat (s1 - s2)"
    using assms(2) by (auto simp: unat_sub_if' word_le_nat_alt word_unat_eq_iff)
  with True show ?thesis by (simp add: memmove_def memmove_up_eq memcpy_bytes_poke)
next
  case False
  then have "s1 = s2 \<or> unat n \<le> unat (s2 - s1)"
    using assms(1) by (auto simp: unat_sub_if' word_le_nat_alt word_unat_eq_iff)
  with False show ?thesis by (simp add: memmove_def memmove_down_poke)
qed

subsection \<open>What the searches return\<close>

lemma strlen_loop_cstr: "cstr m p xs \<Longrightarrow> strlen_loop m p = Some (p + of_nat (length xs))"
  by (induction xs arbitrary: p) (auto simp: strlen_loop.simps add.assoc)

lemma strlen_correct: "cstr m s xs \<Longrightarrow> strlen m s = Some (of_nat (length xs))"
  by (simp add: strlen_def strlen_loop_cstr)

lemma in_set_cstr: "cstr m p ys \<Longrightarrow> in_set m p c = Some (c \<in> set ys)"
  by (induction ys arbitrary: p) (auto simp: in_set.simps)

lemma strpbrk_cstr:
  assumes "cstr m s2 ys" 
  shows "cstr m s xs \<Longrightarrow> strpbrk m s s2 =
    Some (if set xs \<inter> set ys = {} then 0 else s + of_nat (length (takeWhile (\<lambda>c. c \<notin> set ys) xs)))"
  by (induction xs arbitrary: s) (auto simp: strpbrk.simps in_set_cstr [OF assms] add.assoc)

lemma strcspn_loop_cstr:
  assumes "cstr m s2 ys" 
  shows "cstr m s xs \<Longrightarrow> strcspn_loop m s s2 = Some (s + of_nat (length (takeWhile (\<lambda>c. c \<notin> set ys) xs)))"
  by (induction xs arbitrary: s) (auto simp: strcspn_loop.simps in_set_cstr [OF assms] add.assoc)

lemma strcspn_correct:
  "cstr m s xs \<Longrightarrow> cstr m s2 ys \<Longrightarrow> strcspn m s s2 = Some (of_nat (length (takeWhile (\<lambda>c. c \<notin> set ys) xs)))"
  by (simp add: strcspn_def strcspn_loop_cstr)

lemma strspn_loop_inner:
  assumes "cstr m s2 ys" 
  shows "cstr m p zs \<Longrightarrow> strspn_loop m s2 s p =
    (if m s \<in> set zs then strspn_loop m s2 (s + 1) s2 else Some s)"
  by (induction zs arbitrary: p) (auto simp: strspn_loop.simps [of m s2 s])

lemma strspn_loop_cstr:
  assumes "cstr m s2 ys" 
  shows "cstr m s xs \<Longrightarrow> strspn_loop m s2 s s2 = Some (s + of_nat (length (takeWhile (\<lambda>c. c \<in> set ys) xs)))"
proof (induction xs arbitrary: s)
  case Nil
  moreover have "0 \<notin> set ys" using assms by (simp add: cstr_peek)
  ultimately show ?case by (simp add: strspn_loop_inner [OF assms assms])
next
  case (Cons x xs)
  then show ?case by (auto simp: strspn_loop_inner [OF assms assms] add.assoc)
qed

lemma strspn_correct:
  "cstr m s xs \<Longrightarrow> cstr m s2 ys \<Longrightarrow> strspn m s s2 = Some (of_nat (length (takeWhile (\<lambda>c. c \<in> set ys) xs)))"
  by (simp add: strspn_def strspn_loop_cstr)

lemma strchr_correct:
  assumes "cstr m s xs"
  shows "strchr m s c = Some (if lo8 c \<in> set (xs @ [0])
    then s + of_nat (length (takeWhile (\<lambda>x. x \<noteq> lo8 c) (xs @ [0]))) else 0)"
  using assms by (induction xs arbitrary: s) (auto simp: strchr.simps add.assoc)

lemma strrchr_loop_cstr:
  "cstr m s xs \<Longrightarrow> strrchr_loop m s c p = Some (if lo8 c \<in> set (xs @ [0])
    then s + of_nat (length xs - length (takeWhile (\<lambda>x. x \<noteq> lo8 c) (rev (xs @ [0])))) else p)"
proof (induction xs arbitrary: s p)
  case Nil
  then show ?case by (auto simp: strrchr_loop.simps)
next
  case (Cons x xs)
  show ?case
  proof (cases "lo8 c \<in> set (xs @ [0])")
    case True
    have "length (takeWhile (\<lambda>x. x \<noteq> lo8 c) (rev (xs @ [0]))) \<le> length xs" 
      using length_takeWhile_less [of "lo8 c" "rev (xs @ [0])" "\<lambda>x. x \<noteq> lo8 c"] True by auto
    then show ?thesis using Cons True by (auto simp: strrchr_loop.simps [of m s] Suc_diff_le add.assoc takeWhile_append)
  next
    case False
    then have "takeWhile (\<lambda>x. x \<noteq> lo8 c) (rev (xs @ [0])) = rev (xs @ [0])" by (auto simp: takeWhile_eq_all_conv)
    then show ?thesis using Cons False by (auto simp: strrchr_loop.simps [of m s] takeWhile_append)
  qed
qed


text \<open>\<open>strrchr\<close> returns the last occurrence of the character in the string, its terminator
  included, and NULL when there is none.\<close>

theorem strrchr_correct:
  assumes "cstr m s xs"
  shows "strrchr m s c = Some (if lo8 c \<in> set (xs @ [0])
    then s + of_nat (length xs - length (takeWhile (\<lambda>x. x \<noteq> lo8 c) (rev (xs @ [0])))) else 0)"
  using strrchr_loop_cstr [OF assms, of c 0] by (simp add: strrchr_def)

subsection \<open>What strcpy writes\<close>

lemma strcpy_loop_poke:
  assumes "cstr m s2 xs" "s = s2 \<or> Suc (length xs) \<le> unat (s - s2)"
  shows "strcpy_loop m s s2 = Some (poke m s (xs @ [0]))"
  using assms
proof (induction xs arbitrary: m s s2)
  case Nil
  then show ?case by (simp add: strcpy_loop.simps fun_upd_def)
next
  case (Cons x xs)
  let ?m = "m(s := x)"
  have x: "m s2 = x" using Cons.prems(1) by simp
  have "peek ?m (s2 + 1) (Suc (length xs)) = peek m (s2 + 1) (Suc (length xs))"
    using copy_ahead(1) [of s s2 "Suc (length xs)" m] Cons.prems(2) x by simp
  with Cons.prems have "cstr ?m (s2 + 1) xs" by (simp only: cstr_peek) simp
  with Cons.IH [of ?m "s2 + 1" "s + 1"] copy_ahead(2) [of s s2 "Suc (length xs)"] Cons.prems show ?case
    by (simp add: strcpy_loop.simps [of m] Let_def x fun_upd_def)
qed

lemma strcpy_correct:
  assumes "cstr m s2 xs" "s1 = s2 \<or> Suc (length xs) \<le> unat (s1 - s2)"
  shows "strcpy m s1 s2 = Some (poke m s1 (xs @ [0]), s1)"
  using strcpy_loop_poke [OF assms] by (simp add: strcpy_def)

subsection \<open>Splitting into tokens\<close>

lemma strtok_r_step:
  assumes str: "cstr m s (pre @ t @ post)" and dlm: "cstr m d ds"
    and sets: "set pre \<subseteq> set ds" "set t \<inter> set ds = {}" "post = [] \<or> hd post \<in> set ds" "t = [] \<longrightarrow> post = []"
    and s: "s \<noteq> 0" "unat s + length (pre @ t @ post) < 2 ^ 32" "s1 = s \<or> s1 = 0 \<and> nx = s"
  shows "strtok_r m s1 d nx =
    (if t = [] then Some (m, 0, 0)
     else if post = [] then Some (m, s + of_nat (length pre), 0)
     else Some (m(s + of_nat (length pre + length t) := 0), s + of_nat (length pre),
                s + of_nat (length pre + length t) + 1))"
proof -
  let ?p = "s + of_nat (length pre)"
  have rest: "cstr m ?p (t @ post)" using str by (simp add: cstr_append)
  have "takeWhile (\<lambda>c. c \<in> set ds) (pre @ t @ post) = pre"
    by (rule takeWhile_split) (use sets in \<open>auto simp: hd_append disjoint_iff\<close>)
  then have spn: "strspn m s d = Some (of_nat (length pre))"
    using strspn_correct [OF str dlm] by simp
  have brk: "strpbrk m ?p d = Some (if post = [] then 0 else ?p + of_nat (length t))"
  proof -
    have "takeWhile (\<lambda>c. c \<notin> set ds) (t @ post) = t"
      by (rule takeWhile_split) (use sets in auto)
    moreover have "set (t @ post) \<inter> set ds = {} \<longleftrightarrow> post = []"
      using sets by (cases post) auto
    ultimately show ?thesis using strpbrk_cstr [OF dlm rest] by simp
  qed
  have nz: "?p + of_nat (length t) \<noteq> 0"
  proof -
    have "unat (s + of_nat (length pre + length t)) = unat s + (length pre + length t)"
      using s(2) by (simp add: unat_word_ariths unat_of_nat)
    moreover have "0 < unat s" using s(1) by (simp add: unat_gt_0)
    ultimately show ?thesis by (auto simp: add.assoc)
  qed
  have "m ?p \<noteq> 0 \<longleftrightarrow> t \<noteq> []" using rest sets(4) by (cases t) auto
  then show ?thesis
    using s(1,3) spn brk nz by (auto simp: strtok_r_def Let_def add.assoc)
qed

text \<open>The maximal runs of non-delimiters of a text: what a caller of \<open>strtok\<close> is promised.\<close>

function tokens :: "u8 set \<Rightarrow> u8 list \<Rightarrow> u8 list list" where
  "tokens D xs =
     (let ys = dropWhile (\<lambda>c. c \<in> D) xs
      in if ys = [] then []
         else takeWhile (\<lambda>c. c \<notin> D) ys # tokens D (dropWhile (\<lambda>c. c \<notin> D) ys))"
  by pat_completeness auto
termination
proof (relation "measure (\<lambda>(D, xs). length xs)")
  fix D :: "u8 set" and xs ys
  assume ys: "ys = dropWhile (\<lambda>c. c \<in> D) xs" "ys \<noteq> []"
  then have "hd ys \<notin> D" using hd_dropWhile [of "\<lambda>c. c \<in> D" xs] by simp
  with ys(2) have "length (dropWhile (\<lambda>c. c \<notin> D) ys) < length ys"
    by (cases ys) (auto simp: length_dropWhile_le less_Suc_eq_le)
  also have "length ys \<le> length xs" by (simp add: ys(1) length_dropWhile_le)
  finally show "((D, dropWhile (\<lambda>c. c \<notin> D) ys), D, xs) \<in> measure (\<lambda>(D, xs). length xs)" by simp
qed simp

declare tokens.simps [simp del]

lemma tokens_Cons: "c \<in> D \<Longrightarrow> tokens D (c # xs) = tokens D xs"
  by (subst (1 2) tokens.simps) simp

text \<open>The loop of a client: \<open>strtok(s, d)\<close>, then \<open>strtok(NULL, d)\<close> until NULL.\<close>

fun strtok_run :: "nat \<Rightarrow> mem \<Rightarrow> u32 \<Rightarrow> u32 \<Rightarrow> u32 \<Rightarrow> (mem \<times> u32 list) option" where
  "strtok_run 0 m s1 d nx = None"
| "strtok_run (Suc k) m s1 d nx =
     Option.bind (strtok m s1 d nx) (\<lambda>(m', t, nx').
       if t = 0 then Some (m', [])
       else map_option (\<lambda>(m'', ts). (m'', t # ts)) (strtok_run k m' 0 d nx'))"

lemma strtok_run_tokens:
  assumes "cstr m s xs" "cstr m d ds" "s \<noteq> 0" "unat s + length xs < 2 ^ 32"
    "\<And>a. in_block d (Suc (length ds)) a \<Longrightarrow> \<not> in_block s (length xs) a"
    "s1 = s \<or> s1 = 0 \<and> nx = s" "length xs < k"
  shows "\<exists>m' ps. strtok_run k m s1 d nx = Some (m', ps) \<and> list_all2 (cstr m') ps (tokens (set ds) xs)
    \<and> (\<forall>a. \<not> in_block s (length xs) a \<longrightarrow> m' a = m a)"
  using assms
proof (induction "length xs" arbitrary: m s xs s1 nx k rule: less_induct)
  case less
  define D where "D = set ds"
  define pre where "pre = takeWhile (\<lambda>c. c \<in> D) xs"
  define ys where "ys = dropWhile (\<lambda>c. c \<in> D) xs"
  define t where "t = takeWhile (\<lambda>c. c \<notin> D) ys"
  define post where "post = dropWhile (\<lambda>c. c \<notin> D) ys"
  have xs: "xs = pre @ t @ post" by (simp add: pre_def t_def post_def ys_def)
  have t_iff: "t = [] \<longleftrightarrow> ys = []"
    using hd_dropWhile [of "\<lambda>c. c \<in> D" xs] by (cases ys) (auto simp: t_def ys_def [symmetric])
  have post_hd: "post = [] \<or> hd post \<in> D"
    using hd_dropWhile [of "\<lambda>c. c \<notin> D" ys] by (auto simp: post_def)
  have step: "strtok m s1 d nx =
    (if t = [] then Some (m, 0, 0)
     else if post = [] then Some (m, s + of_nat (length pre), 0)
     else Some (m(s + of_nat (length pre + length t) := 0), s + of_nat (length pre),
                s + of_nat (length pre + length t) + 1))"
    unfolding strtok_def
  proof (rule strtok_r_step)
    show "t = [] \<longrightarrow> post = []" using t_iff by (simp add: post_def)
    show "post = [] \<or> hd post \<in> set ds" using post_hd by (simp add: D_def)
    show "set pre \<subseteq> set ds" "set t \<inter> set ds = {}"
      by (auto simp: pre_def t_def D_def dest: set_takeWhileD)
  qed (use less.prems xs in auto)
  have toks: "tokens D xs = (if t = [] then [] else t # tokens D post)"
    by (subst tokens.simps) (simp add: Let_def ys_def [symmetric] t_def [symmetric] post_def [symmetric] t_iff)
  obtain k' where k: "k = Suc k'" "length xs \<le> k'" using less.prems(7) by (cases k) auto
  have at: "unat (s + of_nat i) = unat s + i" if "i \<le> length xs" for i
    using that less.prems(4) by (simp add: unat_word_ariths unat_of_nat)
  have spos: "0 < unat s" using less.prems(3) by (simp add: unat_gt_0)
  have tok_nz: "s + of_nat (length pre) \<noteq> 0"
    using at [of "length pre"] spos xs by auto
  show ?case
  proof (cases "t = []")
    case True
    then show ?thesis using step toks by (auto simp: k D_def [symmetric])
  next
    case t: False
    show ?thesis
    proof (cases post)
      case Nil
      have "strtok m 0 d 0 = Some (m, 0, 0)" by (simp add: strtok_def strtok_r_def)
      moreover obtain k'' where "k' = Suc k''" using k(2) t xs by (cases k') auto
      moreover have "cstr m (s + of_nat (length pre)) t"
        using less.prems(1) Nil by (simp add: xs cstr_append)
      moreover have "tokens D [] = []" by (simp add: tokens.simps)
      ultimately show ?thesis using step toks t tok_nz Nil by (auto simp: k D_def [symmetric])
    next
      case (Cons c rest)
      let ?q = "s + of_nat (length pre + length t)"
      let ?m = "m(?q := 0)"
      have len: "length xs = length pre + length t + Suc (length rest)" by (simp add: xs Cons)
      have q: "unat ?q = unat s + length pre + length t" "unat (?q + 1) = unat s + length pre + length t + 1"
        using at [of "length pre + length t"] at [of "Suc (length pre + length t)"] len
        by (simp_all add: add_ac)
      have q_in: "in_block s (length xs) ?q"
        using q(1) len less.prems(4) by (simp add: in_block_unat)
      have dlm: "cstr ?m d ds"
        by (rule cstr_cong [OF less.prems(2)]) (use less.prems(5) q_in in auto)
      have rest: "cstr ?m (?q + 1) rest"
      proof (rule cstr_cong)
        show "cstr m (?q + 1) rest"
          using less.prems(1) by (simp add: xs Cons cstr_append add_ac)
        fix a assume "in_block (?q + 1) (Suc (length rest)) a"
        then have "unat (?q + 1) \<le> unat a"
          using less.prems(4) len q by (subst (asm) in_block_unat) simp_all
        then show "?m a = m a" using q by auto
      qed
      have pre_blk: "in_block (?q + 1) (length rest) a \<Longrightarrow> in_block s (length xs) a" for a
        using less.prems(4) len q by (subst (asm) in_block_unat, simp) (subst in_block_unat, simp_all)
      have "\<exists>m' ps. strtok_run k' ?m 0 d (?q + 1) = Some (m', ps) \<and> list_all2 (cstr m') ps (tokens (set ds) rest)
          \<and> (\<forall>a. \<not> in_block (?q + 1) (length rest) a \<longrightarrow> m' a = ?m a)"
      proof (rule less.hyps [OF _ rest dlm])
        show "?q + 1 \<noteq> 0" using q(2) by auto
        show "unat (?q + 1) + length rest < 2 ^ 32" using q less.prems(4) len by simp
        show "\<And>a. in_block d (Suc (length ds)) a \<Longrightarrow> \<not> in_block (?q + 1) (length rest) a"
          using less.prems(5) pre_blk by blast
      qed (use len k in auto)
      then obtain m' ps where run: "strtok_run k' ?m 0 d (?q + 1) = Some (m', ps)"
        and ps: "list_all2 (cstr m') ps (tokens D rest)"
        and fr: "\<And>a. \<not> in_block (?q + 1) (length rest) a \<Longrightarrow> m' a = ?m a"
        unfolding D_def by blast
      have tok: "cstr m' (s + of_nat (length pre)) t"
      proof (rule cstr_cong)
        let ?p = "s + of_nat (length pre)"
        have p: "unat ?p = unat s + length pre" using at [of "length pre"] len by simp
        have "cstr m ?p (t @ post)" using less.prems(1) by (simp add: xs cstr_append)
        moreover have "peek ?m ?p (length t) = peek m ?p (length t)"
          using p q len less.prems(4) by (intro peek_upd_outside) (simp_all add: in_block_unat)
        ultimately show "cstr ?m ?p t"
          using cstr_append [of ?m ?p t "[]"] by (simp add: cstr_append add.assoc)
        fix a assume "in_block ?p (Suc (length t)) a"
        then show "m' a = ?m a"
          using p q len less.prems(4) by (intro fr) (simp add: in_block_unat)
      qed
      have "tokens D post = tokens D rest"
        using post_hd Cons by (simp add: tokens_Cons)
      moreover have "m' a = m a" if "\<not> in_block s (length xs) a" for a
        using fr [of a] pre_blk [of a] q_in that by (cases "a = ?q") auto
      ultimately show ?thesis
        using step toks t tok_nz Cons run ps tok by (simp add: k D_def [symmetric])
    qed
  qed
qed

subsection \<open>memcpy of overlapping regions\<close>

text \<open>
  Whatever the overlap, \<open>memcpy\<close> writes only its destination, and the first \<open>k\<close> bytes arrive when
  the destination does not lie among the first \<open>k\<close> source bytes: what \<open>realloc\<close> needs, which
  copies more than the old block holds.
\<close>

lemma memcpy_bytes_prefix:
  assumes "k \<le> unat n" "k \<le> unat (d - s)"
  shows "(\<forall>i<k. memcpy_bytes m d s n (d + of_nat i) = m (s + of_nat i)) \<and>
    (\<forall>a. \<not> in_block d (unat n) a \<longrightarrow> memcpy_bytes m d s n a = m a)"
  using assms
proof (induction m d s n arbitrary: k rule: memcpy_bytes.induct)
  case (1 m d s n)
  show ?case
  proof (cases "0 < n")
    case False
    then show ?thesis using 1(2) by (subst (1 2) memcpy_bytes.simps) (simp add: word_gt_0)
  next
    case True
    then have n: "unat n = Suc (unat (n - 1))" by (simp add: unat_step1)
    let ?m = "m(d := m s)"
    have eq: "memcpy_bytes m d s n = memcpy_bytes ?m (d + 1) (s + 1) (n - 1)"
      using True by (subst memcpy_bytes.simps) simp
    have c: "k - 1 \<le> unat (n - 1)" "k - 1 \<le> unat (d + 1 - (s + 1))" using 1(2,3) n by simp_all
    have IH: "(\<forall>i<k - 1. memcpy_bytes m d s n (d + 1 + of_nat i) = ?m (s + 1 + of_nat i)) \<and>
      (\<forall>a. \<not> in_block (d + 1) (unat (n - 1)) a \<longrightarrow> memcpy_bytes m d s n a = ?m a)"
      unfolding eq fun_upd_def by (rule 1(1) [OF True c, unfolded fun_upd_def])
    have out: "\<not> in_block (d + 1) (unat (n - 1)) d"
      using n unat_bound32 [of n] by (simp add: in_block_def unsigned_minus_1_eq_mask mask_eq_exp_minus_1)
    have "memcpy_bytes m d s n (d + of_nat i) = m (s + of_nat i)" if i: "i < k" for i
    proof (cases i)
      case 0
      then show ?thesis using IH out by simp
    next
      case (Suc j)
      have "s + of_nat i \<noteq> d"
      proof
        assume "s + of_nat i = d"
        then have "d - s = of_nat i" by auto
        then have "unat (d - s) = i mod 2 ^ 32" by (simp add: unat_of_nat)
        then show False using i 1(3) mod_less_eq_dividend [of i "2 ^ 32"] by linarith
      qed
      then show ?thesis using IH i Suc by (simp add: add.assoc)
    qed
    moreover have "memcpy_bytes m d s n a = m a" if "\<not> in_block d (unat n) a" for a
      using IH that by (auto simp: n in_block_Suc)
    ultimately show ?thesis by simp
  qed
qed

lemma store32_at:
  assumes "i < 4"
  shows "store32 m d (load32 m s) (d + of_nat i) = m (s + of_nat i)"
proof -
  have "peek (store32 m d (load32 m s)) d 4 = peek m s 4"
    unfolding store32_def bytes32_load32 using peek_poke_same [of "peek m s 4" m d] by simp
  then show ?thesis using assms by (metis nth_peek)
qed

lemma memcpy_words_prefix:
  assumes "4 dvd unat n" "4 dvd k" "k \<le> unat n" "k \<le> unat (d - s)"
  shows "\<exists>m'. memcpy_words m d s n = Some m' \<and> (\<forall>i<k. m' (d + of_nat i) = m (s + of_nat i)) \<and>
    (\<forall>a. \<not> in_block d (unat n) a \<longrightarrow> m' a = m a)"
  using assms
proof (induction "unat n div 4" arbitrary: m d s n k)
  case 0
  then have "n = 0" by (auto simp: dvd_def unsigned_eq_0_iff)
  then show ?case using 0 by (simp add: memcpy_words.simps)
next
  case (Suc l)
  have n: "unat n = 4 + unat (n - 4)" "0 < n"
    using Suc.hyps(2) by - (unat_arith, unat_arith)
  let ?m = "store32 m d (load32 m s)"
  have "4 dvd unat (n - 4)" "4 dvd k - 4" using Suc.prems n(1) by (auto simp: dvd_def) presburger+
  then have "\<exists>m'. memcpy_words ?m (d + 4) (s + 4) (n - 4) = Some m' \<and>
      (\<forall>i<k - 4. m' (d + 4 + of_nat i) = ?m (s + 4 + of_nat i)) \<and>
      (\<forall>a. \<not> in_block (d + 4) (unat (n - 4)) a \<longrightarrow> m' a = ?m a)"
    using Suc.hyps(2) Suc.prems n(1) by (intro Suc.hyps(1)) auto
  then obtain m' where m': "memcpy_words ?m (d + 4) (s + 4) (n - 4) = Some m'"
    "\<And>i. i < k - 4 \<Longrightarrow> m' (d + 4 + of_nat i) = ?m (s + 4 + of_nat i)"
    "\<And>a. \<not> in_block (d + 4) (unat (n - 4)) a \<Longrightarrow> m' a = ?m a"
    by blast
  have "m' (d + of_nat i) = m (s + of_nat i)" if i: "i < k" for i
  proof (cases "i < 4")
    case True
    have "unat (d + of_nat i - (d + 4)) = 2 ^ 32 - 4 + i"
      using True by (simp add: unat_sub_if' unat_of_nat)
    then have "\<not> in_block (d + 4) (unat (n - 4)) (d + of_nat i)"
      using n(1) unat_bound32 [of n] True by (simp add: in_block_def)
    then show ?thesis using m'(3) store32_at [OF True] by simp
  next
    case False
    have "\<not> in_block d 4 (s + of_nat i)"
    proof
      assume b: "in_block d 4 (s + of_nat i)"
      have lt: "i < 4294967296" using less_le_trans [OF i Suc.prems(3)] unat_bound32 [of n] by linarith
      have eq: "s + of_nat i - d = of_nat i - (d - s)" by simp
      have u: "unat (of_nat i :: u32) = i" using lt by (simp add: unat_of_nat)
      have "unat (s + of_nat i - d) = (if unat (d - s) \<le> i then i - unat (d - s) else i + 2 ^ 32 - unat (d - s))"
        using unat_sub_if' [of "of_nat i :: u32" "d - s"] unfolding eq u by simp
      moreover have "4 \<le> i + 4294967296 - unat (d - s)" using unat_bound32 [of "d - s"] False by linarith
      ultimately show False using b i Suc.prems(4) by (simp add: in_block_def split: if_splits)
    qed
    then have "?m (s + of_nat i) = m (s + of_nat i)" by (rule store32_outside)
    then show ?thesis using m'(2) [of "i - 4"] i False by (simp add: of_nat_diff)
  qed
  moreover have "m' a = m a" if a: "\<not> in_block d (unat n) a" for a
  proof -
    have "\<not> in_block d 4 a" using a n(1) by (simp add: in_block_def)
    moreover have "\<not> in_block (d + 4) (unat (n - 4)) a"
    proof
      assume "in_block (d + 4) (unat (n - 4)) a"
      then have "unat (a - d - 4) < unat (n - 4)" by (simp add: in_block_def diff_diff_eq)
      then have "unat (a - d) < unat n \<or> unat (a - d) < 4"
        using n(1) by (auto simp: unat_sub_if' [of "a - d" 4] split: if_splits)
      then show False using a n(1) by (auto simp: in_block_def)
    qed
    ultimately show ?thesis using m'(3) by (simp add: store32_outside)
  qed
  ultimately show ?case using m'(1) n(2) by (subst memcpy_words.simps) simp
qed

lemma memcpy_prefix:
  assumes "4 dvd k" "k \<le> unat n" "k \<le> unat (dest - src)"
  shows "\<exists>m'. memcpy m dest src n = Some (m', dest) \<and> (\<forall>i<k. m' (dest + of_nat i) = m (src + of_nat i)) \<and>
    (\<forall>a. \<not> in_block dest (unat n) a \<longrightarrow> m' a = m a)"
proof (cases "(src OR dest OR n) AND 3 = 0")
  case True
  then have "4 dvd unat n" by (simp add: aligned4_or aligned4_unat)
  with True memcpy_words_prefix [OF _ assms, of m] show ?thesis by (auto simp: memcpy_def)
next
  case False
  with memcpy_bytes_prefix [OF assms(2,3), of m] show ?thesis by (simp add: memcpy_def)
qed

subsection \<open>Properties\<close>

theorem memmove_correct_witness:
  "memmove (\<lambda>a. ucast a) 5 3 4 = (poke (\<lambda>a. ucast a) 5 (peek (\<lambda>a. ucast a) 3 4), 5)"
  using memmove_correct [of 5 4 3 "\<lambda>a. ucast a"] by simp

theorem strrchr_correct_witness: "strrchr (poke (\<lambda>_. 0) 100 [97, 98, 97, 99]) 100 97 = Some 102"
  using strrchr_correct [of "poke (\<lambda>_. 0) 100 [97, 98, 97, 99]" 100 "[97, 98, 97, 99]" 97] by (simp add: lo8_def)

text \<open>
  \<open>memset\<close> with a byte value fills exactly \<open>n\<close> bytes and returns its argument, whatever the
  alignment and whichever of its three loops write them.
\<close>

theorem memset_correct:
  assumes "c \<le> 255"
  shows "memset m s c n = (poke m s (replicate (unat n) (lo8 c)), s)"
  by (rule memset_poke [OF assms])

theorem memset_correct_witness: "memset (\<lambda>_. 7) 13 255 9 = (poke (\<lambda>_. 7) 13 (replicate 9 255), 13)"
  using memset_correct [of 255 "\<lambda>_. 7" 13 9] by (simp add: lo8_def)

text \<open>
  The word loop and the byte loop of \<open>memcpy\<close> agree with a simple block copy when the
  destination is the source or does not start inside it.
\<close>

theorem memcpy_correct:
  assumes "dest = src \<or> unat n \<le> unat (dest - src)"
  shows "memcpy m dest src n = Some (poke m dest (peek m src (unat n)), dest)"
  by (rule memcpy_poke [OF assms])

theorem memcpy_correct_witness:
  "memcpy (\<lambda>a. ucast a) 64 32 8 = Some (poke (\<lambda>a. ucast a) 64 (peek (\<lambda>a. ucast a) 32 8), 64)"
  using memcpy_correct [of 64 32 8 "\<lambda>a. ucast a"] by simp

text \<open>
  C29: calling \<open>strtok\<close> on a string and then on NULL until it returns NULL yields exactly the tokens
  of the string, each a NUL-terminated string of the final memory, in order; it terminates after
  at most one call more than the string has characters and writes only inside the string.
\<close>

theorem strtok_tokens:
  assumes "cstr m s xs" "cstr m d ds" "s \<noteq> 0" "unat s + length xs < 2 ^ 32"
    "\<And>a. in_block d (Suc (length ds)) a \<Longrightarrow> \<not> in_block s (length xs) a" "length xs < k"
  shows "\<exists>m' ps. strtok_run k m s d nx = Some (m', ps) \<and> list_all2 (cstr m') ps (tokens (set ds) xs)
    \<and> (\<forall>a. \<not> in_block s (length xs) a \<longrightarrow> m' a = m a)"
  using strtok_run_tokens [OF assms(1-5) _ assms(6), of s nx] by blast

theorem strtok_tokens_witness:
  "\<exists>m' ps. strtok_run 8 (poke (poke (\<lambda>_. 0) 100 [44, 97, 44, 98]) 200 [44]) 100 200 0 = Some (m', ps) \<and>
     list_all2 (cstr m') ps (tokens {44} [44, 97, 44, 98])"
proof -
  let ?m = "poke (poke (\<lambda>_. 0) 100 [44, 97, 44, 98]) 200 [44]"
  have D: "\<not> in_block 100 (length [44, 97, 44, 98 :: u8]) a" if "in_block 200 (Suc (length [44 :: u8])) a" for a
    using that by (simp add: in_block_unat)
  have C: "cstr ?m 100 [44, 97, 44, 98]" "cstr ?m 200 [44]" by simp_all
  have "\<exists>m' ps. strtok_run 8 ?m 100 200 0 = Some (m', ps) \<and> list_all2 (cstr m') ps (tokens (set [44]) [44, 97, 44, 98])
    \<and> (\<forall>a. \<not> in_block 100 (length [44, 97, 44, 98 :: u8]) a \<longrightarrow> m' a = ?m a)"
    by (rule strtok_tokens [OF C _ _ D]) simp_all
  then show ?thesis by auto
qed

end
