(* ===== verification/CStdlib.thy ===== *)
theory CStdlib
  imports CString
begin

text \<open>
  Character classes (syscalls/ansi/include/ctype.h), the case mappings and searches of
  libs/src/libc/ansi.c, the Java built-ins the string functions call (syscalls/ansi/init,
  syscalls/ansi/implementation/), and the number parsing of libs/src/libc/stdlib.c.
  A C \<open>int\<close> that only holds a character is an \<open>int\<close> here; a signed \<open>char\<close> in memory
  is read with \<open>sint\<close>.
\<close>

unbundle bit_operations_syntax

subsection \<open>Outcomes\<close>

text \<open>A failed \<open>assert\<close> ends the program with \<open>exit(1)\<close>; a Java exception unwinds the C code.\<close>

datatype c_error = Exit int | Thrown string

subsection \<open>ctype.h\<close>

definition isascii :: "int \<Rightarrow> bool" where
  "isascii c \<longleftrightarrow> c AND (NOT 127) = 0"

definition isupper :: "int \<Rightarrow> bool" where
  "isupper c \<longleftrightarrow> 65 \<le> c \<and> c \<le> 90"

definition islower :: "int \<Rightarrow> bool" where
  "islower c \<longleftrightarrow> 97 \<le> c \<and> c \<le> 122"

definition isalpha :: "int \<Rightarrow> bool" where
  "isalpha c \<longleftrightarrow> isupper c \<or> islower c"

definition isspace :: "int \<Rightarrow> bool" where
  "isspace c \<longleftrightarrow> c = 32 \<or> c = 12 \<or> c = 10 \<or> c = 13 \<or> c = 9 \<or> c = 11"

definition isdigit :: "int \<Rightarrow> bool" where
  "isdigit c \<longleftrightarrow> 48 \<le> c \<and> c \<le> 57"

definition isalnum :: "int \<Rightarrow> bool" where
  "isalnum c \<longleftrightarrow> isalpha c \<or> isdigit c"

definition isprint :: "int \<Rightarrow> bool" where
  "isprint c \<longleftrightarrow> (let c = c AND 127 in 32 \<le> c \<and> c < 127)"

definition isgraph :: "int \<Rightarrow> bool" where
  "isgraph c \<longleftrightarrow> isprint c \<and> c \<noteq> 32"

definition iscntrl :: "int \<Rightarrow> bool" where
  "iscntrl c \<longleftrightarrow> c \<le> 31 \<or> c = 127"

definition isxdigit :: "int \<Rightarrow> bool" where
  "isxdigit c \<longleftrightarrow> isdigit c \<or> (65 \<le> c \<and> c \<le> 70) \<or> (97 \<le> c \<and> c \<le> 102)"

definition ispunct :: "int \<Rightarrow> bool" where
  "ispunct c \<longleftrightarrow> isprint c \<and> \<not> isspace c \<and> \<not> isalnum c"

lemmas ctype_defs = isascii_def isupper_def islower_def isalpha_def isspace_def isdigit_def
  isalnum_def isprint_def isgraph_def iscntrl_def isxdigit_def ispunct_def

subsection \<open>Case mappings and case-insensitive comparison (ansi.c)\<close>

definition tolower :: "int \<Rightarrow> int" where
  "tolower c = (if 65 \<le> c \<and> c \<le> 90 then c + 97 - 65 else c)"

definition toupper :: "int \<Rightarrow> int" where
  "toupper c = (if 97 \<le> c \<and> c \<le> 122 then c - 97 - 65 else c)"

partial_function (option) strncasecmp_loop ::
    "mem \<Rightarrow> u32 \<Rightarrow> u32 \<Rightarrow> u32 \<Rightarrow> u32 \<Rightarrow> int \<Rightarrow> int \<Rightarrow> (int \<times> int) option" where
  "strncasecmp_loop m s1 n s d a b =
     (if s - s1 = n then Some (a, b)
      else let a = tolower (sint (m s)); b = tolower (sint (m d))
        in if a = b \<and> b \<noteq> 0 \<and> a \<noteq> 0 then strncasecmp_loop m s1 n (s + 1) (d + 1) a b
           else Some (a, b))"

text \<open>The three-way result of the comparison routines.\<close>

definition order_result :: "int \<times> int \<Rightarrow> int" where
  "order_result ab = (case ab of (a, b) \<Rightarrow> if a < b then -1 else if a > b then 1 else 0)"

definition strncasecmp :: "mem \<Rightarrow> u32 \<Rightarrow> u32 \<Rightarrow> u32 \<Rightarrow> int option" where
  "strncasecmp m s1 s2 n = map_option order_result (strncasecmp_loop m s1 n s1 s2 0 0)"

definition strcasecmp :: "mem \<Rightarrow> u32 \<Rightarrow> u32 \<Rightarrow> int option" where
  "strcasecmp m s1 s2 = strncasecmp m s1 s2 2147483647"

subsection \<open>The Java built-ins\<close>

partial_function (option) j_strncmp_loop ::
    "mem \<Rightarrow> u32 \<Rightarrow> u32 \<Rightarrow> u32 \<Rightarrow> u32 \<Rightarrow> int \<Rightarrow> int \<Rightarrow> (int \<times> int) option" where
  "j_strncmp_loop m s1 n s d a b =
     (if sint n \<le> sint (s - s1) then Some (a, b)
      else let a = sint (m s); b = sint (m d)
        in if a = b \<and> b \<noteq> 0 \<and> a \<noteq> 0 then j_strncmp_loop m s1 n (s + 1) (d + 1) a b
           else Some (a, b))"

definition j_strncmp :: "mem \<Rightarrow> u32 \<Rightarrow> u32 \<Rightarrow> u32 \<Rightarrow> int option" where
  "j_strncmp m s1 s2 n = map_option order_result (j_strncmp_loop m s1 n s1 s2 0 0)"

definition j_strcmp :: "mem \<Rightarrow> u32 \<Rightarrow> u32 \<Rightarrow> int option" where
  "j_strcmp m s1 s2 = j_strncmp m s1 s2 2147483647"

partial_function (option) j_memcmp_loop ::
    "mem \<Rightarrow> u32 \<Rightarrow> u32 \<Rightarrow> u32 \<Rightarrow> u32 \<Rightarrow> int \<Rightarrow> int \<Rightarrow> (int \<times> int) option" where
  "j_memcmp_loop m s1 n s d a b =
     (if sint n \<le> sint (s - s1) then Some (a, b)
      else let a = sint (m s); b = sint (m d)
        in if a = b then j_memcmp_loop m s1 n (s + 1) (d + 1) a b else Some (a, b))"

definition j_memcmp :: "mem \<Rightarrow> u32 \<Rightarrow> u32 \<Rightarrow> u32 \<Rightarrow> int option" where
  "j_memcmp m s1 s2 n = map_option order_result (j_memcmp_loop m s1 n s1 s2 0 0)"

text \<open>string.c forwards to the built-ins.\<close>

definition strncmp :: "mem \<Rightarrow> u32 \<Rightarrow> u32 \<Rightarrow> u32 \<Rightarrow> int option" where
  "strncmp m s1 s2 n = j_strncmp m s1 s2 n"

definition strcmp :: "mem \<Rightarrow> u32 \<Rightarrow> u32 \<Rightarrow> int option" where
  "strcmp m s1 s2 = j_strcmp m s1 s2"

definition memcmp :: "mem \<Rightarrow> u32 \<Rightarrow> u32 \<Rightarrow> u32 \<Rightarrow> int option" where
  "memcmp m s1 s2 n = j_memcmp m s1 s2 n"

text \<open>\<open>strstr\<close>: the counters \<open>i\<close>, \<open>h_len\<close>, \<open>n_len\<close> are C ints.\<close>

partial_function (option) strstr_loop :: "mem \<Rightarrow> u32 \<Rightarrow> u32 \<Rightarrow> u32 \<Rightarrow> u32 \<Rightarrow> u32 \<Rightarrow> u32 option" where
  "strstr_loop m haystack needle h_len n_len i =
     (if sint i < sint (h_len - n_len + 1)
      then Option.bind (j_strncmp m (haystack + i) needle n_len) (\<lambda>r.
        if r = 0 then Some (haystack + i)
        else strstr_loop m haystack needle h_len n_len (i + 1))
      else Some 0)"

definition strstr :: "mem \<Rightarrow> u32 \<Rightarrow> u32 \<Rightarrow> u32 option" where
  "strstr m haystack needle =
     (if haystack = 0 \<or> needle = 0 then Some 0
      else Option.bind (strlen m haystack) (\<lambda>h_len.
        Option.bind (strlen m needle) (\<lambda>n_len. strstr_loop m haystack needle h_len n_len 0)))"

subsection \<open>Number parsing (stdlib.c)\<close>

text \<open>
  \<open>strtoll_digits\<close> is the conversion loop: it accumulates in a 64-bit \<open>num\<close> and returns
  \<open>num\<close>, the first unread address and \<open>is_converted\<close>.  The digit tests compare with
  \<open>'a' + (base - 10)\<close> as the code does.
\<close>

definition digit_value :: "int \<Rightarrow> int \<Rightarrow> int" where
  "digit_value base c =
     (if 97 \<le> c \<and> c < 97 + (base - 10) then c - 97 + 10
      else if 65 \<le> c \<and> c < 65 + (base - 10) then c - 65 + 10
      else c - 48)"

partial_function (option) strtoll_digits ::
    "mem \<Rightarrow> int \<Rightarrow> u64 \<Rightarrow> u32 \<Rightarrow> bool \<Rightarrow> (u64 \<times> u32 \<times> bool) option" where
  "strtoll_digits m base num p is_converted =
     (let c = sint (m p)
      in if isxdigit c \<and> \<not> (base = 10 \<and> \<not> isdigit c)
         then strtoll_digits m base (num * of_int base + of_int (digit_value base c)) (p + 1) True
         else Some (num, p, is_converted))"

partial_function (option) skip_spaces :: "mem \<Rightarrow> u32 \<Rightarrow> u32 option" where
  "skip_spaces m p = (if isspace (sint (m p)) then skip_spaces m (p + 1) else Some p)"

text \<open>
  \<open>strtoll\<close> returns the value and the address for \<open>*endptr\<close>.  Note that \<open>base\<close> 0 without
  a \<open>0x\<close> prefix stays 0 in the digit loop.
\<close>

definition strtoll :: "mem \<Rightarrow> u32 \<Rightarrow> int \<Rightarrow> (c_error + u64 \<times> u32) option" where
  "strtoll m nptr base =
     (if \<not> (base = 10 \<or> base = 16 \<or> base = 0) then Some (Inl (Exit 1))
      else Option.bind (skip_spaces m nptr) (\<lambda>p0.
        let negative = (m p0 = 45);
            p1 = (if m p0 = 45 \<or> m p0 = 43 then p0 + 1 else p0);
            hex = ((base = 0 \<or> base = 16) \<and> m p1 = 48 \<and> m (p1 + 1) = 120);
            base' = (if hex then 16 else base);
            p2 = (if hex then p1 + 2 else p1)
        in map_option (\<lambda>(num, p, is_converted).
             let endp = (if is_converted then p else nptr)
             in Inr (if negative then - num else num, endp))
           (strtoll_digits m base' 0 p2 False)))"

definition strtol :: "mem \<Rightarrow> u32 \<Rightarrow> int \<Rightarrow> (c_error + u32 \<times> u32) option" where
  "strtol m nptr base = map_option (map_sum id (\<lambda>(v, e). (ucast v, e))) (strtoll m nptr base)"

definition strtoull :: "mem \<Rightarrow> u32 \<Rightarrow> int \<Rightarrow> (c_error + u64 \<times> u32) option" where
  "strtoull m nptr base = strtoll m nptr base"

definition strtoul :: "mem \<Rightarrow> u32 \<Rightarrow> int \<Rightarrow> (c_error + u32 \<times> u32) option" where
  "strtoul m nptr base = map_option (map_sum id (\<lambda>(v, e). (ucast v, e))) (strtoll m nptr base)"

definition atoi :: "mem \<Rightarrow> u32 \<Rightarrow> (c_error + u32) option" where
  "atoi m nptr = map_option (map_sum id fst) (strtol m nptr 10)"

subsection \<open>What the comparisons return\<close>

text \<open>
  \<open>cmp_from f k xs ys\<close>: the pair of mapped characters at the first difference, or at the end
  of the strings or of the first \<open>k\<close> characters.
\<close>

fun cmp_from :: "(int \<Rightarrow> int) \<Rightarrow> nat \<Rightarrow> u8 list \<Rightarrow> u8 list \<Rightarrow> int" where
  "cmp_from f 0 xs ys = 0"
| "cmp_from f (Suc k) [] [] = 0"
| "cmp_from f (Suc k) (x # xs) [] = order_result (f (sint x), f 0)"
| "cmp_from f (Suc k) [] (y # ys) = order_result (f 0, f (sint y))"
| "cmp_from f (Suc k) (x # xs) (y # ys) =
     (if f (sint x) = f (sint y) then cmp_from f k xs ys else order_result (f (sint x), f (sint y)))"

lemma j_strncmp_loop_cmp:
  assumes "cstr m s xs" "cstr m d ys" "a = b" "unat (s - s1) + k = unat n" "unat n < 2 ^ 31"
  shows "map_option order_result (j_strncmp_loop m s1 n s d a b) = Some (cmp_from id k xs ys)"
  using assms
proof (induction k arbitrary: s d xs ys a b)
  case 0
  then have "s - s1 = n" by (simp add: word_unat_eq_iff)
  with 0 show ?case by (simp add: j_strncmp_loop.simps order_result_def)
next
  case (Suc k)
  have lt: "unat (s - s1) < unat n" using Suc.prems(4) by simp
  then have "sint (s - s1) < sint n" using Suc.prems(5) by (simp add: sint32_less)
  moreover have "unat (s + 1 - s1) = Suc (unat (s - s1))"
  proof -
    have "s + 1 - s1 = (s - s1) + 1" by simp
    then show ?thesis using lt Suc.prems(5) unat_add_lem [of "s - s1" 1] by (simp only:) simp
  qed
  ultimately show ?case using Suc
    by (cases xs; cases ys) (auto simp: j_strncmp_loop.simps [of m s1 n s d] Let_def sint_eq_0_iff order_result_def)
qed

lemma j_strncmp_cmp:
  assumes "cstr m s1 xs" "cstr m s2 ys" "unat n < 2 ^ 31"
  shows "j_strncmp m s1 s2 n = Some (cmp_from id (unat n) xs ys)"
  using j_strncmp_loop_cmp [OF assms(1,2) refl, of s1 "unat n" n 0] assms(3) by (simp add: j_strncmp_def)

lemma strncasecmp_loop_cmp:
  assumes "cstr m s xs" "cstr m d ys" "a = b" "unat (s - s1) + k = unat n"
  shows "map_option order_result (strncasecmp_loop m s1 n s d a b) = Some (cmp_from tolower k xs ys)"
  using assms
proof (induction k arbitrary: s d xs ys a b)
  case 0
  then have "s - s1 = n" by (simp add: word_unat_eq_iff)
  with 0 show ?case by (simp add: strncasecmp_loop.simps order_result_def)
next
  case (Suc k)
  have lt: "unat (s - s1) < unat n" using Suc.prems(4) by simp
  then have "s - s1 \<noteq> n" by auto
  moreover have "unat (s + 1 - s1) = Suc (unat (s - s1))"
    using unat_inc [OF lt] by (simp only: diff_add_eq)
  moreover have "tolower c = 0 \<longleftrightarrow> c = 0" for c by (auto simp: tolower_def)
  ultimately show ?case using Suc
    by (cases xs; cases ys) (auto simp: strncasecmp_loop.simps [of m s1 n s d] Let_def sint_eq_0_iff order_result_def)
qed

lemma order_result_0: "order_result (a, b) = 0 \<longleftrightarrow> a = b"
  by (simp add: order_result_def)

lemma cmp_from_0_iff:
  assumes "\<And>x. f x = f 0 \<longleftrightarrow> x = 0" "\<And>x. f 0 = f x \<longleftrightarrow> x = 0" "0 \<notin> set xs" "0 \<notin> set ys"
  shows "cmp_from f k xs ys = 0 \<longleftrightarrow> map (f \<circ> sint) (take k xs) = map (f \<circ> sint) (take k ys)"
  using assms
  by (induction f k xs ys rule: cmp_from.induct)
     (auto simp: order_result_0 sint_eq_0_iff)

text \<open>\<open>strcmp\<close> tells equal strings from different ones.\<close>

text \<open>\<open>strcmp\<close> returns 0 exactly when the two strings are equal.\<close>

theorem strcmp_eq:
  assumes "cstr m s1 xs" "cstr m s2 ys" "length xs < 2 ^ 31 - 1" "length ys < 2 ^ 31 - 1"
  shows "\<exists>r. strcmp m s1 s2 = Some r \<and> (r = 0 \<longleftrightarrow> xs = ys)"
proof -
  have "0 \<notin> set xs" "0 \<notin> set ys" using assms(1,2) by (simp_all add: cstr_peek)
  then have "cmp_from id 2147483647 xs ys = 0 \<longleftrightarrow> map sint xs = map sint ys"
    using cmp_from_0_iff [of id xs ys 2147483647] assms(3,4) by (simp add: o_def)
  also have "\<dots> \<longleftrightarrow> xs = ys" 
    using inj_map_eq_map [of sint] signed_word_eqI by (metis injI)
  finally show ?thesis using j_strncmp_cmp [OF assms(1,2), of 2147483647]
    by (simp add: strcmp_def j_strcmp_def)
qed

lemma strncasecmp_eq:
  assumes "cstr m s1 xs" "cstr m s2 ys"
  shows "\<exists>r. strncasecmp m s1 s2 n = Some r \<and>
    (r = 0 \<longleftrightarrow> map (tolower \<circ> sint) (take (unat n) xs) = map (tolower \<circ> sint) (take (unat n) ys))"
proof -
  have "0 \<notin> set xs" "0 \<notin> set ys" using assms(1,2) by (simp_all add: cstr_peek)
  then have "cmp_from tolower (unat n) xs ys = 0 \<longleftrightarrow>
      map (tolower \<circ> sint) (take (unat n) xs) = map (tolower \<circ> sint) (take (unat n) ys)"
    by (intro cmp_from_0_iff) (auto simp: tolower_def split: if_splits)
  then show ?thesis
    using strncasecmp_loop_cmp [OF assms refl, of s1 "unat n" n 0] 
    by (intro exI [of _ "cmp_from tolower (unat n) xs ys"]) (simp add: strncasecmp_def)
qed

text \<open>Prefix.\<close>
lemma cmp_from_prefix:
  assumes "0 \<notin> set xs" "0 \<notin> set ys"
  shows "cmp_from id (length ys) xs ys = 0 \<longleftrightarrow> take (length ys) xs = ys"
  using cmp_from_0_iff [of id xs ys "length ys"] assms inj_map_eq_map [of "sint :: u8 \<Rightarrow> int"] signed_word_eqI
  by (simp add: o_def)

text \<open>\<open>occurs_at xs ys i\<close>: \<open>ys\<close> occurs in \<open>xs\<close> at index \<open>i\<close>.\<close>

definition occurs_at :: "'a list \<Rightarrow> 'a list \<Rightarrow> nat \<Rightarrow> bool" where
  "occurs_at xs ys i \<longleftrightarrow> i + length ys \<le> length xs \<and> take (length ys) (drop i xs) = ys"

lemma occurs_at_strncmp:
  assumes h: "cstr m h xs" and n: "cstr m nd ys" and len: "length ys < 2 ^ 31 - 1" and i: "i \<le> length xs"
  shows "\<exists>r. j_strncmp m (h + of_nat i) nd (of_nat (length ys)) = Some r \<and> (r = 0 \<longleftrightarrow> occurs_at xs ys i)"
proof -
  have "cstr m (h + of_nat i) (drop i xs)" by (rule cstr_drop [OF h i])
  moreover have "0 \<notin> set (drop i xs)" "0 \<notin> set ys"
    using h n by (auto simp: cstr_peek dest: in_set_dropD)
  moreover have "occurs_at xs ys i \<longleftrightarrow> take (length ys) (drop i xs) = ys"
  proof -
    have "length (take (length ys) (drop i xs)) = length ys \<Longrightarrow> i + length ys \<le> length xs"
      using i by simp
    then show ?thesis by (metis occurs_at_def)
  qed
  ultimately show ?thesis
    using j_strncmp_cmp [OF _ n, of "h + of_nat i" "drop i xs" "of_nat (length ys)"] cmp_from_prefix n len
    by simp
qed

lemma strstr_guard:
  assumes "l < 2 ^ 31 - 1" "n < 2 ^ 31 - 1" "i \<le> Suc l"
  shows "sint (of_nat i :: u32) < sint (of_nat l - of_nat n + 1 :: u32) \<longleftrightarrow> i + n \<le> l"
proof -
  have "sint (of_int (int i) :: u32) = int i" "sint (of_int (int l - int n + 1) :: u32) = int l - int n + 1"
    by (rule sint_of_int32; use assms in simp)+
  then show ?thesis by simp linarith
qed

lemma strstr_loop_correct:
  assumes h: "cstr m h xs" and n: "cstr m nd ys" and len: "length xs < 2 ^ 31 - 1" "length ys < 2 ^ 31 - 1"
    and none: "\<And>j. j < i \<Longrightarrow> \<not> occurs_at xs ys j" and i: "i \<le> Suc (length xs)"
  shows "\<exists>r. strstr_loop m h nd (of_nat (length xs)) (of_nat (length ys)) (of_nat i) = Some r \<and>
    ((\<exists>j. occurs_at xs ys j \<and> (\<forall>k<j. \<not> occurs_at xs ys k) \<and> r = h + of_nat j) \<or>
     (\<forall>j. \<not> occurs_at xs ys j) \<and> r = 0)"
  using none i
proof (induction "Suc (length xs) - i" arbitrary: i)
  case 0
  then have "i = Suc (length xs)" by simp
  moreover have "\<not> occurs_at xs ys j" for j
    using 0 by (cases "j < i") (auto simp: occurs_at_def)
  ultimately show ?case
    using strstr_guard [OF len, of i] by (simp add: strstr_loop.simps)
next
  case (Suc k)
  then have i: "i \<le> length xs" by simp
  show ?case
  proof (cases "i + length ys \<le> length xs")
    case False
    then have "\<not> occurs_at xs ys j" for j
      using Suc.prems by (cases "j < i") (auto simp: occurs_at_def)
    then show ?thesis
      using False i strstr_guard [OF len, of i] by (simp add: strstr_loop.simps)
  next
    case True
    obtain r where r: "j_strncmp m (h + of_nat i) nd (of_nat (length ys)) = Some r"
      "r = 0 \<longleftrightarrow> occurs_at xs ys i"
      using occurs_at_strncmp [OF h n len(2) i] by blast
    show ?thesis
    proof (cases "occurs_at xs ys i")
      case occ: True
      then show ?thesis
        using True i r Suc.prems(1) strstr_guard [OF len, of i] by (auto simp: strstr_loop.simps)
    next
      case False
      have "\<exists>r. strstr_loop m h nd (of_nat (length xs)) (of_nat (length ys)) (of_nat (Suc i)) = Some r \<and>
        ((\<exists>j. occurs_at xs ys j \<and> (\<forall>k<j. \<not> occurs_at xs ys k) \<and> r = h + of_nat j) \<or>
         (\<forall>j. \<not> occurs_at xs ys j) \<and> r = 0)"
        using Suc i False by (intro Suc.hyps) (auto simp: less_Suc_eq)
      then show ?thesis
        using True i r False strstr_guard [OF len, of i]
        by (simp add: strstr_loop.simps [of _ _ _ _ _ "of_nat i"] add.commute)
    qed
  qed
qed

text \<open>\<open>strstr\<close> returns the first occurrence of the needle, and NULL when there is none.\<close>

theorem strstr_correct:
  assumes "cstr m h xs" "cstr m nd ys" "length xs < 2 ^ 31 - 1" "length ys < 2 ^ 31 - 1" "h \<noteq> 0" "nd \<noteq> 0"
  shows "\<exists>r. strstr m h nd = Some r \<and>
    ((\<exists>j. occurs_at xs ys j \<and> (\<forall>k<j. \<not> occurs_at xs ys k) \<and> r = h + of_nat j) \<or>
     (\<forall>j. \<not> occurs_at xs ys j) \<and> r = 0)"
  using strstr_loop_correct [OF assms(1-4), of 0] assms strlen_correct [of m]
  by (simp add: strstr_def)

subsection \<open>What strtoll returns\<close>

definition digit_ok :: "int \<Rightarrow> u8 \<Rightarrow> bool" where
  "digit_ok base d \<longleftrightarrow> isxdigit (sint d) \<and> \<not> (base = 10 \<and> \<not> isdigit (sint d))"

text \<open>The number a digit sequence denotes.\<close>

definition num_of :: "int \<Rightarrow> u8 list \<Rightarrow> int" where
  "num_of base ds = foldl (\<lambda>a d. a * base + digit_value base (sint d)) 0 ds"

lemma strtoll_digits_step:
  "strtoll_digits m base num p conv =
     (if digit_ok base (m p)
      then strtoll_digits m base (num * of_int base + of_int (digit_value base (sint (m p)))) (p + 1) True
      else Some (num, p, conv))"
  by (subst strtoll_digits.simps) (simp add: digit_ok_def Let_def)

lemma strtoll_digits_run:
  assumes "peek m p (length ds) = ds" "\<forall>d\<in>set ds. digit_ok base d" "\<not> digit_ok base (m (p + of_nat (length ds)))"
  shows "strtoll_digits m base (of_int a) p conv =
    Some (of_int (foldl (\<lambda>a d. a * base + digit_value base (sint d)) a ds), p + of_nat (length ds), conv \<or> ds \<noteq> [])"
  using assms
proof (induction ds arbitrary: a p conv)
  case Nil
  then show ?case by (simp add: strtoll_digits_step)
next
  case (Cons d ds)
  then have "m p = d" "digit_ok base d" "peek m (p + 1) (length ds) = ds"
    "\<not> digit_ok base (m (p + 1 + of_nat (length ds)))" by (simp_all add: add.assoc)
  moreover note Cons.IH [of "p + 1" "a * base + digit_value base (sint d)" True]
  ultimately show ?case
    using Cons.prems by (simp add: strtoll_digits_step [of m base "of_int a"] add.assoc)
qed

lemma skip_spaces_run:
  assumes "peek m p (length sp) = sp" "\<forall>c\<in>set sp. isspace (sint c)" "\<not> isspace (sint (m (p + of_nat (length sp))))"
  shows "skip_spaces m p = Some (p + of_nat (length sp))"
  using assms
  by (induction sp arbitrary: p) (auto simp: skip_spaces.simps add.assoc)

lemma digit_ok_10: "digit_ok 10 d \<longleftrightarrow> isdigit (sint d)"
  by (auto simp: digit_ok_def isxdigit_def)

lemma strtoll_number:
  assumes str: "cstr m s (sp @ sg @ ds @ rest)"
    and sp: "\<forall>c\<in>set sp. isspace (sint c)" and sg: "sg \<in> {[], [43], [45]}"
    and ds: "\<forall>d\<in>set ds. isdigit (sint d)" "ds \<noteq> []"
    and rest: "rest = [] \<or> \<not> isdigit (sint (hd rest))"
  shows "strtoll m s 10 = Some (Inr (of_int (if sg = [45] then - num_of 10 ds else num_of 10 ds),
           s + of_nat (length (sp @ sg @ ds))))"
proof -
  let ?p0 = "s + of_nat (length sp)" and ?p1 = "s + of_nat (length (sp @ sg))"
  have pk: "peek m s (length sp) = sp" "cstr m ?p0 (sg @ ds @ rest)"
    using str by (simp_all add: cstr_append)
  have p0: "m ?p0 = hd (sg @ ds)" using pk(2) sg ds(2) by (cases ds) auto
  have digit_first: "isdigit (sint (hd ds))" using ds by simp
  have "\<not> isspace (sint (m ?p0))"
    using p0 sg digit_first by (auto simp: isspace_def isdigit_def)
  then have skip: "skip_spaces m s = Some ?p0" using pk(1) sp by (intro skip_spaces_run)
  have p1: "(if m ?p0 = 45 \<or> m ?p0 = 43 then ?p0 + 1 else ?p0) = ?p1" "m ?p0 = 45 \<longleftrightarrow> sg = [45]"
    using p0 sg digit_first by (auto simp: isdigit_def hd_append)
  have "cstr m ?p1 (ds @ rest)" using str cstr_append [of m s "sp @ sg" "ds @ rest"] by simp
  then have "peek m ?p1 (length ds) = ds" "cstr m (?p1 + of_nat (length ds)) rest"
    by (simp_all only: cstr_append)
  moreover have "\<not> digit_ok 10 (m (?p1 + of_nat (length ds)))"
    using calculation(2) rest by (cases rest) (auto simp: digit_ok_10 isdigit_def)
  ultimately have "strtoll_digits m 10 0 ?p1 False = Some (of_int (num_of 10 ds), ?p1 + of_nat (length ds), True)"
    using strtoll_digits_run [of m ?p1 ds 10 0 False] ds by (simp add: digit_ok_10 num_of_def)
  then show ?thesis
    using skip p1 by (simp add: strtoll_def Let_def add.assoc)
qed

text \<open>The number that decimal digits denote, each digit the distance from the character 0 times its power of ten.\<close>

primrec decimal_value :: "u8 list \<Rightarrow> int" where
  "decimal_value [] = 0"
| "decimal_value (d # ds) = (uint d - 48) * 10 ^ length ds + decimal_value ds"

lemma sint8: "sint (d :: u8) = (if uint d < 128 then uint d else uint d - 256)"
proof -
  have b: "0 \<le> uint d" "uint d < 256" using uint_bounded [of d] by simp_all
  have "sint d = (uint d + 128) mod 256 - 128"
    using int_word_sint [of "uint d", where 'a = 8] by simp
  also have "\<dots> = (if uint d < 128 then uint d else uint d - 256)"
  proof (cases "uint d < 128")
    case False
    then have "(uint d + 128) mod 256 = (uint d - 128) mod 256"
      using mod_add_self2 [of "uint d - 128" 256] by (simp add: add.commute)
    with False b show ?thesis by simp
  qed (use b in simp)
  finally show ?thesis .
qed

lemma decimal_digit: "isdigit (sint (d :: u8)) \<longleftrightarrow> d \<in> {48..57}"
  using uint_bounded [of d] by (auto simp: isdigit_def sint8 word_le_def)

lemma num_of_decimal: "set ds \<subseteq> {48..57} \<Longrightarrow> num_of 10 ds = decimal_value ds"
proof -
  have "foldl (\<lambda>a d. a * 10 + digit_value 10 (sint d)) a ds = a * 10 ^ length ds + decimal_value ds" if "set ds \<subseteq> {48..57}" for a
    using that
  proof (induction ds arbitrary: a)
    case (Cons d ds)
    then have v: "digit_value 10 (sint d) = uint d - 48"
      by (auto simp: digit_value_def sint8 word_le_def)
    have "foldl (\<lambda>a d. a * 10 + digit_value 10 (sint d)) b ds = b * 10 ^ length ds + decimal_value ds" for b
      using Cons by simp
    then show ?case by (simp add: v) (simp add: algebra_simps)
  qed simp
  then show "set ds \<subseteq> {48..57} \<Longrightarrow> num_of 10 ds = decimal_value ds" by (simp add: num_of_def)
qed

text \<open>C33: \<open>strtoll\<close> in base 10 reads the number that the decimal digits denote after white space and a sign,
  wrapping at 64 bits, and sets \<open>endptr\<close> after the last digit.\<close>

theorem strtoll_decimal:
  assumes str: "cstr m s (sp @ sg @ ds @ rest)"
    and sp: "set sp \<subseteq> {32, 9, 10, 11, 12, 13}" and sg: "sg \<in> {[], [43], [45]}"
    and ds: "set ds \<subseteq> {48..57}" "ds \<noteq> []"
    and rest: "rest = [] \<or> hd rest \<notin> {48..57}"
  shows "strtoll m s 10 = Some (Inr (of_int (if sg = [45] then - decimal_value ds else decimal_value ds),
           s + of_nat (length (sp @ sg @ ds))))"
proof -
  have "\<forall>c\<in>set sp. isspace (sint c)" using sp by (auto simp: isspace_def)
  moreover have "\<forall>d\<in>set ds. isdigit (sint d)" "rest = [] \<or> \<not> isdigit (sint (hd rest))"
    using ds(1) rest by (auto simp: decimal_digit)
  ultimately show ?thesis using strtoll_number [OF str _ sg _ ds(2)] num_of_decimal [OF ds(1)] by simp
qed

text \<open>No conversion.\<close>

lemma strtoll_no_digits:
  assumes str: "cstr m s (sp @ rest)" "\<forall>c\<in>set sp. isspace (sint c)"
    and rest: "rest = [] \<or> \<not> isspace (sint (hd rest)) \<and> \<not> isxdigit (sint (hd rest)) \<and> hd rest \<noteq> 43 \<and> hd rest \<noteq> 45"
    and base: "base \<in> {0, 10, 16}"
  shows "strtoll m s base = Some (Inr (0, s))"
proof -
  let ?p0 = "s + of_nat (length sp)"
  have pk: "peek m s (length sp) = sp" "cstr m ?p0 rest" using str by (simp_all add: cstr_append)
  then have c: "\<not> isspace (sint (m ?p0))" "\<not> isxdigit (sint (m ?p0))" "m ?p0 \<noteq> 43" "m ?p0 \<noteq> 45"
    using rest by (cases rest; auto simp: ctype_defs)+
  then have "m ?p0 \<noteq> 48" by (auto simp: ctype_defs)
  moreover have "skip_spaces m s = Some ?p0" using pk(1) str(2) c(1) by (intro skip_spaces_run)
  moreover have "strtoll_digits m base 0 ?p0 False = Some (0, ?p0, False)"
    using c by (simp add: strtoll_digits_step digit_ok_def)
  ultimately show ?thesis using base c by (auto simp: strtoll_def Let_def)
qed

text \<open>base 0.\<close>
text \<open>\<open>strtoll\<close> with base 0 leaves the base 0 for a number without prefix, so that each digit
  overwrites the last: the result is the last digit alone.\<close>

theorem strtoll_base_0_last_digit:
  assumes str: "cstr m s (ds @ [d])" and ds: "\<forall>d\<in>set (ds @ [d]). isdigit (sint d)" 
  shows "strtoll m s 0 = Some (Inr (of_int (sint d - 48), s + of_nat (Suc (length ds))))"
proof -
  have pk: "peek m s (length (ds @ [d])) = ds @ [d]" "m (s + of_nat (length (ds @ [d]))) = 0"
    using str cstr_append [of m s "ds @ [d]" "[]"] by simp_all
  have first: "isdigit (sint (m s))" using pk(1) ds by (cases ds) auto
  then have "skip_spaces m s = Some s"
    by (intro skip_spaces_run [of m s "[]", simplified]) (auto simp: ctype_defs)
  moreover have "m s \<noteq> 45" "m s \<noteq> 43" using first by (auto simp: isdigit_def)
  moreover have "m (s + 1) \<noteq> 120"
  proof (cases ds)
    case Nil
    then show ?thesis using pk by simp
  next
    case (Cons x xs)
    then show ?thesis using pk(1) ds by (cases xs) (auto simp: isdigit_def)
  qed
  moreover have "strtoll_digits m 0 0 s False =
      Some (of_int (sint d - 48), s + of_nat (Suc (length ds)), True)"
  proof -
    have ok: "digit_ok 0 x" if "isdigit (sint x)" for x
      using that by (simp add: digit_ok_def isxdigit_def)
    have "\<not> digit_ok 0 (m (s + of_nat (length (ds @ [d]))))"
      using pk(2) by (simp add: digit_ok_def ctype_defs)
    moreover have "digit_value 0 (sint d) = sint d - 48"
      using ds by (auto simp: digit_value_def isdigit_def)
    ultimately show ?thesis
      using strtoll_digits_run [of m s "ds @ [d]" 0 0 False] pk(1) ds ok by simp
  qed
  ultimately show ?thesis by (simp add: strtoll_def Let_def)
qed

text \<open>\<open>toupper\<close> subtracts \<open>A\<close> instead of adding it, so no lower-case letter becomes an
  upper-case one.\<close>

theorem toupper_wrong: "islower c \<Longrightarrow> toupper c = c - 162 \<and> \<not> isupper (toupper c)"
  by (auto simp: toupper_def ctype_defs)

lemma tolower_correct: "isupper c \<Longrightarrow> islower (tolower c) \<and> tolower c - 97 = c - 65"
  by (auto simp: tolower_def ctype_defs)

subsection \<open>Witnesses\<close>

theorem strcmp_eq_witness:
  "\<exists>r. strcmp (poke (poke (\<lambda>_. 0) 100 [97, 98]) 200 [97, 98]) 100 200 = Some r \<and> r = 0"
  using strcmp_eq [of "poke (poke (\<lambda>_. 0) 100 [97, 98]) 200 [97, 98]" 100 "[97, 98]" 200 "[97, 98]"] by simp

theorem strstr_correct_witness:
  "let xs = [97, 98, 99 :: u8]; ys = [98, 99] in
   \<exists>r. strstr (poke (poke (\<lambda>_. 0) 100 xs) 200 ys) 100 200 = Some r \<and>
    ((\<exists>j. occurs_at xs ys j \<and> (\<forall>k<j. \<not> occurs_at xs ys k) \<and> r = 100 + of_nat j) \<or>
     (\<forall>j. \<not> occurs_at xs ys j) \<and> r = 0)"
  unfolding Let_def by (rule strstr_correct) simp_all

theorem strtoll_decimal_witness:
  "strtoll (poke (\<lambda>_. 0) 100 [32, 45, 52, 50, 120]) 100 10 = Some (Inr (- 42, 104))"
  using strtoll_decimal [of "poke (\<lambda>_. 0) 100 [32, 45, 52, 50, 120]" 100 "[32]" "[45]" "[52, 50]" "[120]"]
  by simp

theorem strtoll_base_0_last_digit_witness:
  "strtoll (poke (\<lambda>_. 0) 100 [52, 50]) 100 0 = Some (Inr (2, 102))"
  using strtoll_base_0_last_digit [of "poke (\<lambda>_. 0) 100 [52, 50]" 100 "[52]" 50] by (simp add: ctype_defs)

theorem toupper_wrong_witness: "toupper 97 = - 65"
  using toupper_wrong [of 97] by (simp add: ctype_defs)

end
