(* ===== verification/Smalloc.thy ===== *)
theory Smalloc
  imports CStdlib
begin

text \<open>
  The allocator libs/src/libc/smalloc.c.  Its nodes live in the byte memory, in front of the
  blocks they describe (\<open>union _node\<close>: \<open>rsize\<close>, \<open>usize\<close>, \<open>next\<close>, three words), and its
  static variables are the other fields of the state.  Both lists are kept in descending order of
  address; the list walks are \<open>partial_function (option)\<close>, since a damaged list could be cyclic.
  \<open>EMIT\<close> prints only when \<open>do_printout\<close> is set, which no code does, and is left out, as is
  \<open>debug\<close>, which does nothing.
\<close>

unbundle bit_operations_syntax

subsection \<open>State and node fields\<close>

record smalloc =
  smem :: mem
  available :: u32
  allocated :: u32
  total_mem :: u32
  alloc_len :: u32
  avail_len :: u32

datatype list_id = AVAILABLE | ALLOCATED

definition rsize :: "mem \<Rightarrow> u32 \<Rightarrow> u32" where
  "rsize m n = load32 m n"

definition usize :: "mem \<Rightarrow> u32 \<Rightarrow> u32" where
  "usize m n = load32 m (n + 4)"

definition nxt :: "mem \<Rightarrow> u32 \<Rightarrow> u32" where
  "nxt m n = load32 m (n + 8)"

definition set_rsize :: "u32 \<Rightarrow> u32 \<Rightarrow> smalloc \<Rightarrow> smalloc" where
  "set_rsize n v st = st\<lparr>smem := store32 (smem st) n v\<rparr>"

definition set_usize :: "u32 \<Rightarrow> u32 \<Rightarrow> smalloc \<Rightarrow> smalloc" where
  "set_usize n v st = st\<lparr>smem := store32 (smem st) (n + 4) v\<rparr>"

definition set_next :: "u32 \<Rightarrow> u32 \<Rightarrow> smalloc \<Rightarrow> smalloc" where
  "set_next n v st = st\<lparr>smem := store32 (smem st) (n + 8) v\<rparr>"

text \<open>The macros (the argument \<open>size\<close> of the code is \<open>sz\<close> here): \<open>OVERHEAD\<close> is \<open>sizeof(node)\<close>, \<open>MINNODE\<close> is \<open>64 * sizeof(align_t)\<close>.\<close>

abbreviation OVERHEAD :: u32 where "OVERHEAD \<equiv> 12"
abbreviation MINNODE :: u32 where "MINNODE \<equiv> 256"

definition ALIGN :: "u32 \<Rightarrow> u32" where
  "ALIGN p = (p + 3) AND NOT 3"

definition ADDR :: "u32 \<Rightarrow> u32" where
  "ADDR n = n + 12"

definition AFTER :: "mem \<Rightarrow> u32 \<Rightarrow> u32" where
  "AFTER m n = ADDR n + rsize m n"

definition ADJACENT :: "mem \<Rightarrow> u32 \<Rightarrow> u32 \<Rightarrow> bool" where
  "ADJACENT m n1 n2 \<longleftrightarrow> n1 + OVERHEAD + rsize m n1 = n2"

definition head_of :: "list_id \<Rightarrow> smalloc \<Rightarrow> u32" where
  "head_of l st = (case l of ALLOCATED \<Rightarrow> allocated st | AVAILABLE \<Rightarrow> available st)"

definition set_head :: "list_id \<Rightarrow> u32 \<Rightarrow> smalloc \<Rightarrow> smalloc" where
  "set_head l v st = (case l of ALLOCATED \<Rightarrow> st\<lparr>allocated := v\<rparr> | AVAILABLE \<Rightarrow> st\<lparr>available := v\<rparr>)"

subsection \<open>List operations\<close>

text \<open>
  The loop \<open>while ((c != NULL) && (ADDR(c) > addr)) { p = c; c = c->x.next; }\<close> that \<open>delete\<close>,
  \<open>insert\<close> and \<open>find\<close> share; the addresses are compared as ints.
\<close>

partial_function (option) walk :: "mem \<Rightarrow> u32 \<Rightarrow> u32 \<Rightarrow> u32 \<Rightarrow> (u32 \<times> u32) option" where
  "walk m addr c p =
     (if c \<noteq> 0 \<and> sint (ADDR c) > sint addr then walk m addr (nxt m c) c else Some (c, p))"

definition delete :: "list_id \<Rightarrow> u32 \<Rightarrow> smalloc \<Rightarrow> smalloc option" where
  "delete l n st =
     map_option (\<lambda>(c, p).
       let st = (if l = ALLOCATED then st\<lparr>alloc_len := alloc_len st - 1\<rparr>
                 else st\<lparr>avail_len := avail_len st - 1\<rparr>)
       in if c = p then set_head l (nxt (smem st) c) st
          else set_next p (nxt (smem st) c) st)
     (walk (smem st) (ADDR n) (head_of l st) (head_of l st))"

definition insert_node :: "list_id \<Rightarrow> u32 \<Rightarrow> smalloc \<Rightarrow> smalloc option" where
  "insert_node l n st =
     Option.bind (walk (smem st) (ADDR n) (head_of l st) (head_of l st)) (\<lambda>(c, p).
       if l = AVAILABLE \<and> head_of l st \<noteq> 0 \<and> c \<noteq> 0 \<and> ADJACENT (smem st) c n then
         (let st = set_rsize c (rsize (smem st) c + (OVERHEAD + rsize (smem st) n)) st
          in if ADJACENT (smem st) c p
             then map_option (\<lambda>st.
                    set_rsize c (rsize (smem st) c + (OVERHEAD + rsize (smem st) p)) st)
                  (delete AVAILABLE p st)
             else Some st)
       else
         (let st = (if l = ALLOCATED then st\<lparr>alloc_len := alloc_len st + 1\<rparr>
                    else st\<lparr>avail_len := avail_len st + 1\<rparr>);
              st = set_next n c st
          in if c = p then Some (set_head l n st)
             else
               (let st = set_next p n st
                in if l = AVAILABLE \<and> head_of l st \<noteq> 0 \<and> ADJACENT (smem st) n p
                   then map_option (\<lambda>st.
                          set_rsize n (rsize (smem st) n + (OVERHEAD + rsize (smem st) p)) st)
                        (delete AVAILABLE p st)
                   else Some st)))"

definition find_node :: "smalloc \<Rightarrow> u32 \<Rightarrow> u32 \<Rightarrow> u32 option" where
  "find_node st head ptr =
     map_option (\<lambda>(c, p). if c = 0 \<or> ADDR c \<noteq> ptr then 0 else c) (walk (smem st) ptr head head)"

subsection \<open>Choosing and carving a block\<close>

text \<open>The search loops of \<open>bestfit\<close> and \<open>firstfit\<close>; sizes are unsigned in the former, ints in the latter.\<close>

partial_function (option) bestfit_loop :: "smalloc \<Rightarrow> u32 \<Rightarrow> u32 \<Rightarrow> u32 \<Rightarrow> u32 \<Rightarrow> u32 option" where
  "bestfit_loop st sz c best b =
     (if c \<noteq> 0 then
        (let r = rsize (smem st) c; over = r - sz
         in if sz \<le> r \<and> (over < best \<or> c = available st)
            then bestfit_loop st sz (nxt (smem st) c) over c
            else bestfit_loop st sz (nxt (smem st) c) best b)
      else Some b)"

partial_function (option) firstfit_loop :: "smalloc \<Rightarrow> u32 \<Rightarrow> u32 \<Rightarrow> u32 option" where
  "firstfit_loop st aligned c =
     (if c \<noteq> 0 \<and> sint (rsize (smem st) c) < sint aligned
      then firstfit_loop st aligned (nxt (smem st) c) else Some c)"

text \<open>The common tail: split off the rest when it is worth a node, then enter the block as allocated.\<close>

definition carve :: "u32 \<Rightarrow> u32 \<Rightarrow> u32 \<Rightarrow> smalloc \<Rightarrow> smalloc option" where
  "carve sz aligned b st =
     (let leftover = rsize (smem st) b - aligned - OVERHEAD;
          st = set_rsize b aligned st;
          n = AFTER (smem st) b;
          st = set_rsize n leftover st
      in insert_node AVAILABLE n st)"

definition bestfit :: "u32 \<Rightarrow> smalloc \<Rightarrow> (smalloc \<times> u32) option" where
  "bestfit sz st =
     (let aligned = ALIGN sz
      in Option.bind (bestfit_loop st sz (available st) 2147483647 0) (\<lambda>b.
        if b = 0 then Some (st, 0)
        else Option.bind (delete AVAILABLE b st) (\<lambda>st.
          Option.bind
            (if rsize (smem st) b \<ge> aligned + OVERHEAD + MINNODE
             then carve sz aligned b st else Some st) (\<lambda>st.
            map_option (\<lambda>st. (st, b)) (insert_node ALLOCATED b (set_usize b sz st))))))"

definition firstfit :: "u32 \<Rightarrow> smalloc \<Rightarrow> (smalloc \<times> u32) option" where
  "firstfit sz st =
     (let aligned = ALIGN sz
      in Option.bind (firstfit_loop st aligned (available st)) (\<lambda>c.
        if c = 0 then Some (st, 0)
        else Option.bind (delete AVAILABLE c st) (\<lambda>st.
          Option.bind
            (if sint (rsize (smem st) c) \<ge> sint (aligned + OVERHEAD + MINNODE)
             then carve sz aligned c st else Some st) (\<lambda>st.
            map_option (\<lambda>st. (st, c)) (insert_node ALLOCATED c (set_usize c sz st))))))"

subsection \<open>User interface\<close>

definition malloc :: "u32 \<Rightarrow> smalloc \<Rightarrow> (smalloc \<times> u32) option" where
  "malloc sz st =
     map_option (\<lambda>(st, store).
       if store = 0 then (st, 0) else (st\<lparr>total_mem := total_mem st + sz\<rparr>, ADDR store))
     (bestfit sz st)"

definition free :: "u32 \<Rightarrow> smalloc \<Rightarrow> smalloc option" where
  "free ptr st =
     (if ptr = 0 then Some st
      else Option.bind (find_node st (allocated st) ptr) (\<lambda>t.
        if t = 0 then Some st
        else Option.bind (delete ALLOCATED t st) (\<lambda>st.
          map_option (\<lambda>st. st\<lparr>total_mem := total_mem st - usize (smem st) t\<rparr>)
            (insert_node AVAILABLE t st))))"

definition realloc :: "u32 \<Rightarrow> u32 \<Rightarrow> smalloc \<Rightarrow> (smalloc \<times> u32) option" where
  "realloc ptr sz st =
     Option.bind (malloc sz st) (\<lambda>(st, out).
       if out = 0 then Some (st, 0)
       else if ptr = 0 then Some (st, out)
       else Option.bind (memcpy (smem st) out ptr sz) (\<lambda>(m, _).
         map_option (\<lambda>st. (st, out)) (free ptr (st\<lparr>smem := m\<rparr>))))"

definition smalloc_set_memory_pool :: "u32 \<Rightarrow> u32 \<Rightarrow> smalloc \<Rightarrow> smalloc" where
  "smalloc_set_memory_pool memory_start memory_end st =
     (let n = memory_start;
          sz = ADDR memory_end - ADDR memory_start;
          st = set_rsize n (sz - OVERHEAD) st;
          st = set_next n 0 st
      in st\<lparr>allocated := 0, available := n, total_mem := 0, alloc_len := 0, avail_len := 1\<rparr>)"

text \<open>\<open>calloc\<close> of stdlib.h and \<open>strdup\<close> of string.c, the library's own clients.\<close>

definition calloc :: "u32 \<Rightarrow> u32 \<Rightarrow> smalloc \<Rightarrow> (smalloc \<times> u32) option" where
  "calloc nmemb sz st =
     map_option (\<lambda>(st, out). (st\<lparr>smem := fst (memset (smem st) out 0 (nmemb * sz))\<rparr>, out))
       (malloc (nmemb * sz) st)"

definition strdup :: "u32 \<Rightarrow> smalloc \<Rightarrow> (smalloc \<times> u32) option" where
  "strdup s st =
     Option.bind (strlen (smem st) s) (\<lambda>len.
       Option.bind (malloc (len + 1) st) (\<lambda>(st, str).
         if str = 0 then Some (st, 0)
         else map_option (\<lambda>(m, _). (st\<lparr>smem := m\<rparr>, str)) (strcpy (smem st) str s)))"

end
