(* ===== verification/CPrintf.thy ===== *)
theory CPrintf
  imports CStdlib
begin

text \<open>
  libs/src/libc/vsnprintf.c (built without \<open>FLOAT_SUPPORT\<close>) and the functions of printf.c that print
  to memory.  The output goes to memory character by character, and \<open>goto Done\<close> is a \<open>Inl\<close>.  The
  argument list is a pointer to words, as \<open>va_arg\<close> takes it on the target, where \<open>int\<close>,
  \<open>long\<close> and pointers have 32 bits.
\<close>

unbundle bit_operations_syntax

subsection \<open>The output\<close>

record vs =
  v_mem :: mem
  v_p :: u32
  v_size :: u32
  v_fmt :: u32
  v_ap :: u32
  v_numpr :: int

type_synonym vs_result = "vs + vs"

definition putch :: "u8 \<Rightarrow> vs \<Rightarrow> vs_result" where
  "putch ch st =
     (let size = v_size st; st = st\<lparr>v_size := size - 1\<rparr>
      in if size = 0 then Inl st
         else Inr (st\<lparr>v_mem := (v_mem st)(v_p st := ch), v_p := v_p st + 1\<rparr>))"

text \<open>\<open>PUTSTR\<close> of a literal, and loops of \<open>PUTCH\<close>.\<close>

primrec put_all :: "u8 list \<Rightarrow> vs \<Rightarrow> vs_result" where
  "put_all [] st = Inr st"
| "put_all (ch # chs) st = (case putch ch st of Inl st \<Rightarrow> Inl st | Inr st \<Rightarrow> put_all chs st)"

definition pad :: "int \<Rightarrow> u8 \<Rightarrow> vs \<Rightarrow> vs_result" where
  "pad cnt ch = put_all (replicate (nat cnt) ch)"

primrec steps :: "(vs \<Rightarrow> vs_result) list \<Rightarrow> vs \<Rightarrow> vs_result" where
  "steps [] st = Inr st"
| "steps (f # fs) st = (case f st of Inl st \<Rightarrow> Inl st | Inr st \<Rightarrow> steps fs st)"

lemma putch_size: "putch ch st = Inr st' \<Longrightarrow> unat (v_size st') < unat (v_size st)"
  by (auto simp: putch_def Let_def unat_dec1 split: if_splits)

text \<open>The characters up to the next \<open>%\<close>.\<close>

function copy_text :: "vs \<Rightarrow> vs_result" where
  "copy_text st =
     (let c = v_mem st (v_fmt st); size = v_size st; st = st\<lparr>v_fmt := v_fmt st + 1\<rparr>
      in if c = 37 then Inr st
         else if size = 0 \<or> c = 0 then Inl (st\<lparr>v_size := size - 1\<rparr>)
         else copy_text (st\<lparr>v_size := size - 1, v_mem := (v_mem st)(v_p st := c), v_p := v_p st + 1\<rparr>))"
  by pat_completeness auto
termination
  by (relation "measure (\<lambda>st. unat (v_size st))") (auto simp: unat_dec1)

declare copy_text.simps [simp del]

text \<open>The loops of \<open>%s\<close>, with a precision and without.\<close>

primrec put_string_n :: "nat \<Rightarrow> u32 \<Rightarrow> vs \<Rightarrow> vs_result" where
  "put_string_n 0 s st = Inr st"
| "put_string_n (Suc n) s st =
     (let c = v_mem st s
      in if c = 0 then Inr st else (case putch c st of Inl st \<Rightarrow> Inl st | Inr st \<Rightarrow> put_string_n n (s + 1) st))"

function put_string :: "u32 \<Rightarrow> vs \<Rightarrow> vs_result" where
  "put_string s st =
     (let c = v_mem st s
      in if c = 0 then Inr st else (case putch c st of Inl st \<Rightarrow> Inl st | Inr st \<Rightarrow> put_string (s + 1) st))"
  by pat_completeness auto
termination
  by (relation "measure (\<lambda>(s, st). unat (v_size st))") (auto dest: putch_size)

declare put_string.simps [simp del]

subsection \<open>A conversion specification\<close>

record flags =
  f_left :: bool
  f_sign :: bool
  f_space :: bool
  f_zero :: bool
  f_alternate :: bool

definition no_flags :: flags where
  "no_flags = \<lparr>f_left = False, f_sign = False, f_space = False, f_zero = False, f_alternate = False\<rparr>"

partial_function (option) parse_flags :: "mem \<Rightarrow> u32 \<Rightarrow> flags \<Rightarrow> (flags \<times> u32) option" where
  "parse_flags m fmt f =
     (if m fmt = 45 then parse_flags m (fmt + 1) (f\<lparr>f_left := True\<rparr>)
      else if m fmt = 43 then parse_flags m (fmt + 1) (f\<lparr>f_sign := True\<rparr>)
      else if m fmt = 32 then parse_flags m (fmt + 1) (f\<lparr>f_space := True\<rparr>)
      else if m fmt = 48 then parse_flags m (fmt + 1) (f\<lparr>f_zero := True\<rparr>)
      else if m fmt = 35 then parse_flags m (fmt + 1) (f\<lparr>f_alternate := True\<rparr>)
      else Some (f, fmt))"

partial_function (option) parse_number :: "mem \<Rightarrow> u32 \<Rightarrow> int \<Rightarrow> (int \<times> u32) option" where
  "parse_number m fmt n =
     (let c = sint (m fmt)
      in if isdigit c then parse_number m (fmt + 1) (wrap32 (wrap32 (n * 10) + (c - 48))) else Some (n, fmt))"

definition va_arg :: "vs \<Rightarrow> u32 \<times> vs" where
  "va_arg st = (load32 (v_mem st) (v_ap st), st\<lparr>v_ap := v_ap st + 4\<rparr>)"

text \<open>A width, or a precision behind its dot: \<open>*\<close>, a number or nothing.\<close>

definition parse_amount :: "vs \<Rightarrow> (int \<times> vs) option" where
  "parse_amount st =
     (let c = v_mem st (v_fmt st)
      in if c = 42 then (let (w, st) = va_arg st in Some (sint w, st\<lparr>v_fmt := v_fmt st + 1\<rparr>))
         else if isdigit (sint c)
         then map_option (\<lambda>(n, fmt). (n, st\<lparr>v_fmt := fmt\<rparr>)) (parse_number (v_mem st) (v_fmt st) 0)
         else Some (- 1, st))"

definition parse_precision :: "vs \<Rightarrow> (int \<times> vs) option" where
  "parse_precision st =
     (if v_mem st (v_fmt st) = 46 then parse_amount (st\<lparr>v_fmt := v_fmt st + 1\<rparr>) else Some (- 1, st))"

definition parse_modifier :: "vs \<Rightarrow> vs" where
  "parse_modifier st = (if v_mem st (v_fmt st) \<in> {104, 108, 76} then st\<lparr>v_fmt := v_fmt st + 1\<rparr> else st)"

subsection \<open>Numbers\<close>

text \<open>The digits, the last one first.\<close>

partial_function (option) reversed_digits :: "u8 list \<Rightarrow> u32 \<Rightarrow> u32 \<Rightarrow> u8 list option" where
  "reversed_digits ds base uval =
     (let d = ds ! unat (uval mod base); uval = uval div base
      in if uval > 0 then Option.bind (reversed_digits ds base uval) (\<lambda>r. Some (d # r)) else Some [d])"

definition sign_char :: "flags \<Rightarrow> u32 \<Rightarrow> u8" where
  "sign_char f uval =
     (if f_sign f \<and> 0 \<le> sint uval then 43 else if f_space f \<and> 0 \<le> sint uval then 32 else if sint uval < 0 then 45 else 0)"

definition print_number :: "flags \<Rightarrow> int \<Rightarrow> int \<Rightarrow> bool \<Rightarrow> u32 \<Rightarrow> u8 list \<Rightarrow> u32 \<Rightarrow> vs \<Rightarrow> vs_result option" where
  "print_number f width precision sign base ds uval st =
     (let signch = (if sign then sign_char f uval else 0);
          uval2 = uval;
          uval = (if signch = 45 then - uval else uval);
          prefixed = (f_alternate f \<and> uval2 \<noteq> 0)
      in map_option (\<lambda>convert.
        let numdigits = int (length convert);
            numpr = (if numdigits > precision then numdigits else precision);
            numpr = (if signch \<noteq> 0 then wrap32 (numpr + 1) else numpr);
            numpr = (if prefixed then if base = 8 then wrap32 (numpr + 1)
              else if base = 16 \<or> base = 2 then wrap32 (numpr + 2) else numpr else numpr);
            wide = (\<not> f_left f \<and> width > numpr);
            blanks = (if wide \<and> \<not> f_zero f then width - numpr else 0);
            numpr = (if wide \<and> f_zero f then width else numpr);
            numpr = (if signch \<noteq> 0 then wrap32 (numpr - 1) else numpr);
            numpr = (if prefixed then if base = 8 \<or> base = 2 then wrap32 (numpr - 1)
              else if base = 16 then wrap32 (numpr - 2) else numpr else numpr);
            right = wrap32 (wrap32 (width - numpr) - (if signch \<noteq> 0 then 1 else 0))
        in steps [
             pad blanks 32,
             if signch \<noteq> 0 then putch signch else Inr,
             if prefixed then if base = 2 then putch 37 else if base = 8 then putch 48
               else if base = 16 then put_all [48, 120] else Inr else Inr,
             pad (wrap32 (numpr - numdigits)) 48,
             put_all (rev convert),
             if f_left f then pad right 32 else Inr] (st\<lparr>v_numpr := numpr\<rparr>))
        (reversed_digits ds base uval))"

subsection \<open>The conversions\<close>

text \<open>\<open>%s\<close>; \<open>numpr\<close> keeps its old value when there is no width.\<close>

definition left_pad :: "flags \<Rightarrow> int \<Rightarrow> vs \<Rightarrow> vs_result" where
  "left_pad f num = (if \<not> f_left f \<and> num > 0 then pad num (if f_zero f then 48 else 32) else Inr)"

definition right_pad :: "flags \<Rightarrow> int \<Rightarrow> vs \<Rightarrow> vs_result" where
  "right_pad f num = (if f_left f \<and> num > 0 then pad num 32 else Inr)"

definition print_string :: "flags \<Rightarrow> int \<Rightarrow> int \<Rightarrow> u32 \<Rightarrow> vs \<Rightarrow> vs_result option" where
  "print_string f width precision s st =
     (if s = 0 then Some (put_all [40, 110, 117, 108, 108, 41] st)
      else Option.bind (if width > 0 then Option.bind (strlen (v_mem st) s) (\<lambda>len.
               let numpr = sint len;
                   numpr = (if 0 \<le> precision \<and> precision < numpr then precision else numpr)
               in Some (left_pad f (wrap32 (width - numpr)) (st\<lparr>v_numpr := numpr\<rparr>)))
             else Some (Inr st))
        (\<lambda>r. Some (case r of Inl st \<Rightarrow> Inl st
          | Inr st \<Rightarrow> steps [if 0 \<le> precision then put_string_n (nat precision) s else put_string s,
              right_pad f (wrap32 (width - v_numpr st))] st)))"

definition lower_digits :: "u8 list" where
  "lower_digits = [48, 49, 50, 51, 52, 53, 54, 55, 56, 57, 97, 98, 99, 100, 101, 102]"

definition upper_digits :: "u8 list" where
  "upper_digits = [48, 49, 50, 51, 52, 53, 54, 55, 56, 57, 65, 66, 67, 68, 69, 70]"

text \<open>The \<open>switch\<close> on the conversion character \<open>c\<close>, behind which \<open>fmt\<close> stands.\<close>

definition convert :: "u32 \<Rightarrow> u8 \<Rightarrow> flags \<Rightarrow> int \<Rightarrow> int \<Rightarrow> vs \<Rightarrow> vs_result option" where
  "convert str c f width precision st =
     (let (arg, st1) = va_arg st
      in if c = 98 then print_number f width precision False 2 (take 2 lower_digits) arg st1
         else if c = 111 then print_number f width precision False 8 (take 9 lower_digits) arg st1
         else if c = 112 then print_number (f\<lparr>f_alternate := True\<rparr>) 8 8 False 16 lower_digits arg st1
         else if c = 120 then print_number f width precision False 16 lower_digits arg st1
         else if c = 88 then print_number f width precision False 16 upper_digits arg st1
         else if c = 100 \<or> c = 105 then print_number f width precision True 10 (take 10 lower_digits) arg st1
         else if c = 117 then print_number f width precision False 10 (take 10 lower_digits) arg st1
         else if c = 115 then print_string f width precision arg st1
         else if c = 99 then Some (putch (lo8 arg) st1)
         else if c = 37 then Some (putch 37 st)
         else if c = 110 then Some (Inr (st\<lparr>v_mem := store32 (v_mem st) arg (v_p st - str)\<rparr>))
         else Some (put_all [37, c] st))"

definition conversion :: "u32 \<Rightarrow> vs \<Rightarrow> vs_result option" where
  "conversion str st =
     Option.bind (parse_flags (v_mem st) (v_fmt st) no_flags) (\<lambda>(f, fmt).
     Option.bind (parse_amount (st\<lparr>v_fmt := fmt\<rparr>)) (\<lambda>(width, st).
     Option.bind (parse_precision st) (\<lambda>(precision, st).
       let st = parse_modifier st; c = v_mem st (v_fmt st)
       in convert str c f width precision (st\<lparr>v_fmt := v_fmt st + 1\<rparr>))))"

partial_function (option) vsnprintf_loop :: "u32 \<Rightarrow> vs \<Rightarrow> vs option" where
  "vsnprintf_loop str st =
     (if v_size st > 0
      then (case copy_text st of Inl st \<Rightarrow> Some st
        | Inr st \<Rightarrow> Option.bind (conversion str st) (\<lambda>r. case r of Inl st \<Rightarrow> Some st | Inr st \<Rightarrow> vsnprintf_loop str st))
      else Some st)"

definition vsnprintf :: "mem \<Rightarrow> u32 \<Rightarrow> u32 \<Rightarrow> u32 \<Rightarrow> u32 \<Rightarrow> (mem \<times> u32) option" where
  "vsnprintf m str sz fmt ap =
     (let st = \<lparr>v_mem = m, v_p = str, v_size = sz - 1, v_fmt = fmt, v_ap = ap, v_numpr = 0\<rparr>
      in map_option (\<lambda>st. ((v_mem st)(v_p st := 0), v_p st - str))
        (if fmt = 0
         then Some (case put_all [40, 110, 117, 108, 108, 32, 102, 109, 116, 32, 115, 116, 114, 105, 110, 103, 41] st of Inl st \<Rightarrow> st | Inr st \<Rightarrow> st)
         else vsnprintf_loop str st))"

text \<open>printf.c; the variable arguments stand at \<open>ap\<close>.\<close>

definition snprintf :: "mem \<Rightarrow> u32 \<Rightarrow> u32 \<Rightarrow> u32 \<Rightarrow> u32 \<Rightarrow> (mem \<times> u32) option" where
  "snprintf m buf n fmt ap = (if fmt = 0 then Some (m, 0) else vsnprintf m buf n fmt ap)"

definition sprintf :: "mem \<Rightarrow> u32 \<Rightarrow> u32 \<Rightarrow> u32 \<Rightarrow> (mem \<times> u32) option" where
  "sprintf m buf fmt ap = (if fmt = 0 then Some (m, 0) else vsnprintf m buf 0xffffffff fmt ap)"

end
