(* ===== verification/FileOps.thy ===== *)
theory FileOps
  imports Smalloc CPrintf
begin

text \<open>
  The file layer of the C library: libs/src/libcrt0/fileops.c, the types of include/cibyl-fileops.h and
  syscalls/ansi/include/stdio.h, and the functions of libc/printf.c that print to files.  A file system
  is a table of function pointers, \<open>cibyl_fops_t\<close>; the parameter \<open>fo\<close> gives the table that stands at an
  address.  An operation takes the state to its result and the next state, or throws a Java exception.
  \<open>None\<close> is an operation that does not return.  The structures \<open>FILE\<close> and \<open>DIR\<close> are found by their
  addresses; file data and all other objects are bytes of the heap's memory.  Addresses of automatic
  variables are parameters (\<open>loc\<close>).
\<close>

unbundle bit_operations_syntax

subsection \<open>Effects\<close>

type_synonym ('w, 'a) io = "'w \<Rightarrow> (string + 'a \<times> 'w) option"

definition ret :: "'a \<Rightarrow> ('w, 'a) io" where
  "ret x w = Some (Inr (x, w))"

definition throw :: "string \<Rightarrow> ('w, 'a) io" where
  "throw e w = Some (Inl e)"

definition io_bind :: "('w, 'a) io \<Rightarrow> ('a \<Rightarrow> ('w, 'b) io) \<Rightarrow> ('w, 'b) io" where
  "io_bind m k w = Option.bind (m w) (\<lambda>r. case r of Inl e \<Rightarrow> Some (Inl e) | Inr (x, w') \<Rightarrow> k x w')"

definition ask :: "('w \<Rightarrow> 'a) \<Rightarrow> ('w, 'a) io" where
  "ask f w = Some (Inr (f w, w))"

definition update :: "('w \<Rightarrow> 'w) \<Rightarrow> ('w, unit) io" where
  "update f w = Some (Inr ((), f w))"

lemma io_bind_mono [partial_function_mono]:
  fixes m :: "_ \<Rightarrow> ('c, 'b) io"
  assumes "mono_option (\<lambda>f. m f w)" "\<And>x w'. mono_option (\<lambda>f. k f x w')"
  shows "mono_option (\<lambda>f. io_bind (m f) (k f) w)"
  unfolding io_bind_def
proof (rule Partial_Function.bind_mono [OF assms(1)])
  fix y :: "string + 'b \<times> 'c"
  show "mono_option (\<lambda>f. case y of Inl e \<Rightarrow> Some (Inl e) | Inr (x, w') \<Rightarrow> k f x w')"
    using assms(2) by (cases y) (auto intro: partial_function_mono)
qed

lemma io_bind_step: "m w = Some (Inr (x, w')) \<Longrightarrow> io_bind m k w = k x w'"
  by (simp add: io_bind_def)

lemma io_bind_simps [simp]:
  "io_bind (ret x) k w = k x w" "io_bind (ask f) k w = k (f w) w" "io_bind (update g) l w = l () (g w)"
  "io_bind (throw e) k w = Some (Inl e)" "io_bind (io_bind m h) k w = io_bind m (\<lambda>x. io_bind (h x) k) w"
  by (auto simp: io_bind_def ret_def ask_def update_def throw_def split: sum.split intro!: Option.bind_cong)

subsection \<open>State\<close>

record FILE =
  f_ops :: u32
  f_eof :: "16 word"
  f_error :: "16 word"
  f_fptr :: u32
  f_vfptr :: u32
  f_file_size :: u32
  f_priv :: u32

record DIR =
  d_ops :: u32
  d_priv :: u32

record memory_file =
  mf_data :: u32
  mf_allocated_size :: u32
  mf_allocate :: u32
  mf_writeback_path :: u32
  mf_mode :: u32

text \<open>\<open>all_fops_t\<close> and \<open>all_dops_t\<close>; the two tables are arrays of pointers in memory.\<close>

record all_ops =
  ao_table :: u32
  ao_uris :: u32
  ao_fallback :: u32
  ao_n_ops :: u32

record world =
  w_heap :: smalloc
  w_fops :: all_ops
  w_dops :: all_ops
  w_files :: "u32 \<Rightarrow> FILE"
  w_memory_files :: "u32 \<Rightarrow> memory_file"
  w_dirs :: "u32 \<Rightarrow> DIR"
  w_atexit_list :: u32
  w_atexit_n :: u32

abbreviation w_mem :: "'a world_scheme \<Rightarrow> mem" where
  "w_mem w \<equiv> smem (w_heap w)"

definition on_heap :: "(smalloc \<Rightarrow> (smalloc \<times> 'b) option) \<Rightarrow> ('a world_scheme, 'b) io" where
  "on_heap f w = map_option (\<lambda>(h, x). Inr (x, w\<lparr>w_heap := h\<rparr>)) (f (w_heap w))"

definition ask_mem :: "(mem \<Rightarrow> 'b option) \<Rightarrow> ('a world_scheme, 'b) io" where
  "ask_mem f w = map_option (\<lambda>x. Inr (x, w)) (f (w_mem w))"

definition set_mem :: "mem \<Rightarrow> 'a world_scheme \<Rightarrow> 'a world_scheme" where
  "set_mem m w = w\<lparr>w_heap := (w_heap w)\<lparr>smem := m\<rparr>\<rparr>"

definition write_mem :: "(mem \<Rightarrow> mem) \<Rightarrow> ('a world_scheme, unit) io" where
  "write_mem f = update (\<lambda>w. set_mem (f (w_mem w)) w)"

definition update_file :: "u32 \<Rightarrow> (FILE \<Rightarrow> FILE) \<Rightarrow> ('a world_scheme, unit) io" where
  "update_file fp g = update (\<lambda>w. w\<lparr>w_files := (w_files w)(fp := g (w_files w fp))\<rparr>)"

definition file_at :: "u32 \<Rightarrow> ('a world_scheme, FILE) io" where
  "file_at fp = ask (\<lambda>w. w_files w fp)"

definition mem_free :: "u32 \<Rightarrow> ('a world_scheme, unit) io" where
  "mem_free p = on_heap (\<lambda>h. map_option (\<lambda>h. (h, ())) (free p h))"

lemma io_bind_state [simp]:
  "io_bind (write_mem f) k w = k () (set_mem (f (w_mem w)) w)"
  "io_bind (update_file fp g) k w = k () (w\<lparr>w_files := (w_files w)(fp := g (w_files w fp))\<rparr>)"
  "io_bind (file_at fp) h w = h (w_files w fp) w"
  by (simp_all add: write_mem_def update_file_def file_at_def)

lemma io_bind_ask_mem: "f (w_mem w) = Some x \<Longrightarrow> io_bind (ask_mem f) k w = k x w"
  by (simp add: io_bind_step ask_mem_def)

lemma io_bind_on_heap: "f (w_heap w) = Some (h, x) \<Longrightarrow> io_bind (on_heap f) k w = k x (w\<lparr>w_heap := h\<rparr>)"
  by (simp add: io_bind_step on_heap_def)

lemma set_mem_simps [simp]:
  "w_mem (set_mem m w) = m" "w_files (set_mem m w) = w_files w" "w_memory_files (set_mem m w) = w_memory_files w"
  "w_heap (set_mem m w) = (w_heap w)\<lparr>smem := m\<rparr>"
  by (simp_all add: set_mem_def)

subsection \<open>File systems\<close>

datatype open_mode = READ | READ_WRITE | WRITE | APPEND | READ_APPEND | READ_TRUNCATE

text \<open>Function pointers that may be NULL are options.\<close>

record 'w fops =
  priv_data_size :: u32
  keep_uri :: bool
  priority :: int
  op_open :: "(u32 \<Rightarrow> open_mode \<Rightarrow> ('w, u32) io) option"
  op_close :: "u32 \<Rightarrow> ('w, u32) io"
  op_read :: "u32 \<Rightarrow> u32 \<Rightarrow> u32 \<Rightarrow> ('w, u32) io"
  op_write :: "u32 \<Rightarrow> u32 \<Rightarrow> u32 \<Rightarrow> ('w, u32) io"
  op_seek :: "u32 \<Rightarrow> u32 \<Rightarrow> ('w, unit) io"
  op_flush :: "(u32 \<Rightarrow> ('w, u32) io) option"

record 'w dops =
  dir_priv_data_size :: u32
  dir_keep_uri :: bool
  dir_priority :: int
  op_opendir :: "u32 \<Rightarrow> ('w, u32) io"
  op_mkdir :: "(u32 \<Rightarrow> ('w, u32) io) option"
  op_remove :: "(u32 \<Rightarrow> ('w, u32) io) option"
  op_readdir :: "u32 \<Rightarrow> u32 \<Rightarrow> ('w, u32) io"
  op_closedir :: "u32 \<Rightarrow> ('w, u32) io"

definition null_call :: "('w, 'b) io" where
  "null_call = throw ''null pointer called''"

partial_function (option) same_op :: "(u32 \<Rightarrow> int) \<Rightarrow> mem \<Rightarrow> all_ops \<Rightarrow> u32 \<Rightarrow> u32 \<Rightarrow> u32 \<Rightarrow> u32 option" where
  "same_op prio m f uri fop i =
     (if sint i < sint (ao_n_ops f)
      then Option.bind (strcmp m uri (load32 m (ao_uris f + 4 * i))) (\<lambda>r.
        if r = 0 \<and> prio fop > prio (load32 m (ao_table f + 4 * i)) then Some i
        else same_op prio m f uri fop (i + 1))
      else Some (- 1))"

definition register_op :: "(u32 \<Rightarrow> int) \<Rightarrow> all_ops \<Rightarrow> u32 \<Rightarrow> u32 \<Rightarrow> bool \<Rightarrow> ('a world_scheme, all_ops) io" where
  "register_op prio f uri fop is_default =
     io_bind (ask_mem (\<lambda>m. same_op prio m f uri fop 0)) (\<lambda>idx.
     io_bind (if idx = - 1
         then let n = ao_n_ops f + 1
           in io_bind (on_heap (realloc (ao_table f) (4 * n))) (\<lambda>t.
             io_bind (on_heap (realloc (ao_uris f) (4 * n))) (\<lambda>u.
             ret (ao_n_ops f, f\<lparr>ao_n_ops := n, ao_table := t, ao_uris := u\<rparr>)))
         else ret (idx, f)) (\<lambda>(idx, f).
       if ao_table f = 0 \<or> ao_uris f = 0 then throw ''Memory allocation of fops failed''
       else io_bind (write_mem (\<lambda>m. store32 (store32 m (ao_table f + 4 * idx) fop) (ao_uris f + 4 * idx) uri)) (\<lambda>_.
         ret (if is_default then f\<lparr>ao_fallback := fop\<rparr> else f))))"

definition cibyl_fops_register :: "(u32 \<Rightarrow> 'a world_scheme fops) \<Rightarrow> u32 \<Rightarrow> u32 \<Rightarrow> bool \<Rightarrow> ('a world_scheme, unit) io" where
  "cibyl_fops_register fo uri fop is_default =
     io_bind (ask w_fops) (\<lambda>f.
     io_bind (register_op (\<lambda>p. priority (fo p)) f uri fop is_default) (\<lambda>f. update (\<lambda>w. w\<lparr>w_fops := f\<rparr>)))"

definition cibyl_dops_register :: "(u32 \<Rightarrow> 'a world_scheme dops) \<Rightarrow> u32 \<Rightarrow> u32 \<Rightarrow> bool \<Rightarrow> ('a world_scheme, unit) io" where
  "cibyl_dops_register dp uri dop is_default =
     io_bind (ask w_dops) (\<lambda>f.
     io_bind (register_op (\<lambda>p. dir_priority (dp p)) f uri dop is_default) (\<lambda>f. update (\<lambda>w. w\<lparr>w_dops := f\<rparr>)))"

subsection \<open>Allocation\<close>

text \<open>\<open>sizeof(FILE)\<close> is 24 and \<open>sizeof(DIR)\<close> is 8.\<close>

definition zero_memory_file :: memory_file where
  "zero_memory_file = \<lparr>mf_data = 0, mf_allocated_size = 0, mf_allocate = 0, mf_writeback_path = 0, mf_mode = 0\<rparr>"

definition cibyl_file_alloc :: "(u32 \<Rightarrow> 'a world_scheme fops) \<Rightarrow> u32 \<Rightarrow> ('a world_scheme, u32) io" where
  "cibyl_file_alloc fo fop =
     (let sz = 24 + priv_data_size (fo fop)
      in io_bind (on_heap (malloc sz)) (\<lambda>out.
        if out = 0 then ret 0
        else io_bind (write_mem (\<lambda>m. fst (memset m out 0 sz))) (\<lambda>_.
          io_bind (update (\<lambda>w. w\<lparr>w_files := (w_files w)(out := \<lparr>f_ops = fop, f_eof = 0, f_error = 0, f_fptr = 0, f_vfptr = 0,
              f_file_size = 0, f_priv = out + 24\<rparr>),
            w_memory_files := (w_memory_files w)(out + 24 := zero_memory_file)\<rparr>)) (\<lambda>_. ret out))))"

definition cibyl_file_free :: "u32 \<Rightarrow> ('a world_scheme, unit) io" where
  "cibyl_file_free fp = mem_free fp"

definition cibyl_dir_alloc :: "(u32 \<Rightarrow> 'a world_scheme dops) \<Rightarrow> u32 \<Rightarrow> ('a world_scheme, u32) io" where
  "cibyl_dir_alloc dp dop =
     (let sz = 8 + dir_priv_data_size (dp dop)
      in io_bind (on_heap (malloc sz)) (\<lambda>out.
        if out = 0 then ret 0
        else io_bind (write_mem (\<lambda>m. fst (memset m out 0 sz))) (\<lambda>_.
          io_bind (update (\<lambda>w. w\<lparr>w_dirs := (w_dirs w)(out := \<lparr>d_ops = dop, d_priv = out + 8\<rparr>)\<rparr>)) (\<lambda>_. ret out))))"

definition cibyl_dir_free :: "u32 \<Rightarrow> ('a world_scheme, unit) io" where
  "cibyl_dir_free dir = mem_free dir"

subsection \<open>Opening and closing\<close>

text \<open>The mode strings; the last entry has a NULL string.\<close>

definition mode_mapping :: "(u8 list option \<times> open_mode) list" where
  "mode_mapping =
    [(Some [114], READ), (Some [114, 98], READ), (Some [114, 119], READ_WRITE), (Some [114, 43], READ_WRITE),
     (Some [119], WRITE), (Some [119, 98], WRITE), (Some [97], APPEND), (Some [97, 43], READ_APPEND),
     (Some [119, 43], READ_TRUNCATE), (None, READ)]"

text \<open>\<open>strcmp(in_mode, str) == 0\<close>, with a string literal or with NULL.\<close>

definition mode_matches :: "mem \<Rightarrow> u32 \<Rightarrow> u8 list option \<Rightarrow> bool option" where
  "mode_matches m in_mode str =
     (case str of Some xs \<Rightarrow> Some (cstr m in_mode xs) | None \<Rightarrow> map_option (\<lambda>r. r = 0) (strcmp m in_mode 0))"

primrec last_mode :: "mem \<Rightarrow> u32 \<Rightarrow> (u8 list option \<times> open_mode) list \<Rightarrow> open_mode option \<Rightarrow> open_mode option option" where
  "last_mode m in_mode [] found = Some found"
| "last_mode m in_mode (e # es) found =
     Option.bind (mode_matches m in_mode (fst e)) (\<lambda>hit. last_mode m in_mode es (if hit then Some (snd e) else found))"

definition cibyl_file_get_mode :: "u32 \<Rightarrow> ('a world_scheme, open_mode) io" where
  "cibyl_file_get_mode in_mode =
     io_bind (ask_mem (\<lambda>m. last_mode m in_mode mode_mapping None)) (\<lambda>mode.
       case mode of None \<Rightarrow> throw ''Unsupported mode for fopen'' | Some mode \<Rightarrow> ret mode)"

partial_function (option) fops_loop :: "mem \<Rightarrow> all_ops \<Rightarrow> u32 \<Rightarrow> u32 \<Rightarrow> (u32 \<times> u32) option" where
  "fops_loop m f path i =
     (if sint i < sint (ao_n_ops f)
      then (let cur = load32 m (ao_table f + 4 * i); uri = load32 m (ao_uris f + 4 * i)
        in if uri = 0 then fops_loop m f path (i + 1)
           else Option.bind (strlen m uri) (\<lambda>len. Option.bind (strncmp m uri path len) (\<lambda>r.
             if r = 0 then Some (cur, uri) else fops_loop m f path (i + 1))))
      else Some (0, 0))"

definition get_fops_from_uri :: "all_ops \<Rightarrow> u32 \<Rightarrow> ('a world_scheme, u32 \<times> u32) io" where
  "get_fops_from_uri f path = ask_mem (\<lambda>m. fops_loop m f path 0)"

text \<open>The loop that \<open>get_dops_from_uri\<close> and \<open>opendir\<close> share; it also gives \<open>len\<close>.\<close>

partial_function (option) dops_loop :: "(u32 \<Rightarrow> bool) \<Rightarrow> mem \<Rightarrow> all_ops \<Rightarrow> u32 \<Rightarrow> u32 \<Rightarrow> (u32 \<times> u32 \<times> u32) option option" where
  "dops_loop keep m f path i =
     (if sint i < sint (ao_n_ops f)
      then (let cur = load32 m (ao_table f + 4 * i); uri = load32 m (ao_uris f + 4 * i)
        in Option.bind (strlen m uri) (\<lambda>len.
             let len = (if keep cur then 0 else len)
             in Option.bind (strncmp m uri path len) (\<lambda>r.
               if r = 0 then Some (Some (cur, uri, len)) else dops_loop keep m f path (i + 1))))
      else Some None)"

definition get_dops_from_uri :: "(u32 \<Rightarrow> 'a world_scheme dops) \<Rightarrow> all_ops \<Rightarrow> u32 \<Rightarrow> ('a world_scheme, u32 \<times> u32) io" where
  "get_dops_from_uri dp f path =
     io_bind (ask_mem (\<lambda>m. dops_loop (\<lambda>p. dir_keep_uri (dp p)) m f path 0)) (\<lambda>r.
       ret (case r of Some (cur, uri, len) \<Rightarrow> (cur, uri) | None \<Rightarrow> (ao_fallback f, 0)))"

definition fopen :: "(u32 \<Rightarrow> 'a world_scheme fops) \<Rightarrow> u32 \<Rightarrow> u32 \<Rightarrow> ('a world_scheme, u32) io" where
  "fopen fo path in_mode =
     io_bind (cibyl_file_get_mode in_mode) (\<lambda>mode.
     io_bind (ask w_fops) (\<lambda>ops.
     io_bind (get_fops_from_uri ops path) (\<lambda>(f, uri).
     io_bind (if f \<noteq> 0 \<and> \<not> keep_uri (fo f) \<and> uri \<noteq> 0 then ask_mem (\<lambda>m. strlen m uri) else ret 0) (\<lambda>len.
       let f = (if f = 0 then ao_fallback ops else f)
       in if f = 0 then ret 0
          else (case op_open (fo f) of None \<Rightarrow> null_call | Some open_f \<Rightarrow> open_f (path + len) mode)))))"

definition fclose :: "(u32 \<Rightarrow> 'a world_scheme fops) \<Rightarrow> u32 \<Rightarrow> ('a world_scheme, u32) io" where
  "fclose fo fp =
     io_bind (file_at fp) (\<lambda>F.
     io_bind (op_close (fo (f_ops F)) fp) (\<lambda>out.
     io_bind (cibyl_file_free fp) (\<lambda>_. ret out)))"

subsection \<open>Reading, writing, seeking\<close>

definition fread :: "(u32 \<Rightarrow> 'a world_scheme fops) \<Rightarrow> u32 \<Rightarrow> u32 \<Rightarrow> u32 \<Rightarrow> u32 \<Rightarrow> ('a world_scheme, u32) io" where
  "fread fo ptr in_size nmemb fp =
     (let sz = in_size * nmemb
      in if sz = 0 then ret 0
         else io_bind (file_at fp) (\<lambda>F.
           io_bind (if f_fptr F \<noteq> f_vfptr F
               then io_bind (op_seek (fo (f_ops F)) fp (f_vfptr F - f_fptr F)) (\<lambda>_.
                 update_file fp (\<lambda>F. F\<lparr>f_fptr := f_vfptr F\<rparr>))
               else ret ()) (\<lambda>_.
           io_bind (op_read (fo (f_ops F)) fp ptr sz) (\<lambda>r.
           io_bind (update_file fp (\<lambda>F. F\<lparr>f_fptr := f_fptr F + r, f_vfptr := f_fptr F + r\<rparr>)) (\<lambda>_.
             ret (r div in_size))))))"

definition fwrite :: "(u32 \<Rightarrow> 'a world_scheme fops) \<Rightarrow> u32 \<Rightarrow> u32 \<Rightarrow> u32 \<Rightarrow> u32 \<Rightarrow> ('a world_scheme, u32) io" where
  "fwrite fo ptr in_size nmemb fp =
     (let sz = in_size * nmemb
      in if sz = 0 then ret 0
         else io_bind (file_at fp) (\<lambda>F.
           io_bind (op_write (fo (f_ops F)) fp ptr sz) (\<lambda>r.
             let r = r div in_size
             in io_bind (update_file fp (\<lambda>F. F\<lparr>f_fptr := f_fptr F + r, f_vfptr := f_fptr F + r\<rparr>)) (\<lambda>_. ret r))))"

text \<open>\<open>SEEK_SET\<close>, \<open>SEEK_CUR\<close> and \<open>SEEK_END\<close> are 0, 1 and 2.\<close>

definition fseek :: "u32 \<Rightarrow> u32 \<Rightarrow> u32 \<Rightarrow> ('a world_scheme, u32) io" where
  "fseek fp offset whence =
     io_bind (file_at fp) (\<lambda>F.
       if whence = 0 then io_bind (update_file fp (\<lambda>F. F\<lparr>f_vfptr := offset\<rparr>)) (\<lambda>_. ret 0)
       else if whence = 2 then io_bind (update_file fp (\<lambda>F. F\<lparr>f_vfptr := f_file_size F + offset\<rparr>)) (\<lambda>_. ret 0)
       else if whence = 1 then io_bind (update_file fp (\<lambda>F. F\<lparr>f_vfptr := f_vfptr F + offset\<rparr>)) (\<lambda>_. ret 0)
       else throw ''Invalid seek mode'')"

definition ftell :: "u32 \<Rightarrow> ('a world_scheme, u32) io" where
  "ftell fp = ask (\<lambda>w. f_vfptr (w_files w fp))"

definition rewind :: "u32 \<Rightarrow> ('a world_scheme, unit) io" where
  "rewind fp = io_bind (fseek fp 0 0) (\<lambda>_. ret ())"

definition clearerr :: "u32 \<Rightarrow> ('a world_scheme, unit) io" where
  "clearerr fp = update_file fp (\<lambda>F. F\<lparr>f_error := 0, f_eof := 0\<rparr>)"

definition ferror :: "u32 \<Rightarrow> ('a world_scheme, u32) io" where
  "ferror fp = ask (\<lambda>w. scast (f_error (w_files w fp)))"

definition feof :: "u32 \<Rightarrow> ('a world_scheme, u32) io" where
  "feof fp = ask (\<lambda>w. scast (f_eof (w_files w fp)))"

definition fflush :: "(u32 \<Rightarrow> 'a world_scheme fops) \<Rightarrow> u32 \<Rightarrow> ('a world_scheme, u32) io" where
  "fflush fo fp =
     io_bind (file_at fp) (\<lambda>F. case op_flush (fo (f_ops F)) of None \<Rightarrow> ret 0 | Some g \<Rightarrow> g fp)"

subsection \<open>Characters and strings\<close>

text \<open>\<open>loc\<close> is the address of the variable \<open>out\<close> of \<open>fgetc\<close>, and of the argument \<open>c\<close> of \<open>fputc\<close>.\<close>

definition fgetc :: "(u32 \<Rightarrow> 'a world_scheme fops) \<Rightarrow> u32 \<Rightarrow> u32 \<Rightarrow> ('a world_scheme, u32) io" where
  "fgetc fo loc fp = io_bind (fread fo loc 1 1 fp) (\<lambda>_. ask (\<lambda>w. sx8 (w_mem w loc)))"

partial_function (option) fgets_loop ::
    "(u32 \<Rightarrow> 'a world_scheme fops) \<Rightarrow> u32 \<Rightarrow> u32 \<Rightarrow> u32 \<Rightarrow> u32 \<Rightarrow> u32 \<Rightarrow> 'a world_scheme \<Rightarrow> (string + u32 \<times> 'a world_scheme) option" where
  "fgets_loop fo loc s itr sz fp w =
     io_bind (fgetc fo loc fp) (\<lambda>c. io_bind (feof fp) (\<lambda>e w.
       if e \<noteq> 0 \<and> itr = s then ret 0 w
       else (let c = (if e \<noteq> 0 then 0 else c)
         in io_bind (write_mem (\<lambda>m. m(itr := lo8 c))) (\<lambda>_ w.
           if c \<noteq> 0 \<and> c \<noteq> 10 \<and> sz - 1 \<noteq> 0 then fgets_loop fo loc s (itr + 1) (sz - 1) fp w
           else io_bind (write_mem (\<lambda>m. m(itr + 1 := 0))) (\<lambda>_. ret s) w) w))) w"

definition fgets :: "(u32 \<Rightarrow> 'a world_scheme fops) \<Rightarrow> u32 \<Rightarrow> u32 \<Rightarrow> u32 \<Rightarrow> u32 \<Rightarrow> ('a world_scheme, u32) io" where
  "fgets fo loc s sz fp = fgets_loop fo loc s s sz fp"

definition fputc :: "(u32 \<Rightarrow> 'a world_scheme fops) \<Rightarrow> u32 \<Rightarrow> u32 \<Rightarrow> u32 \<Rightarrow> ('a world_scheme, u32) io" where
  "fputc fo loc c fp =
     io_bind (write_mem (\<lambda>m. store32 m loc c)) (\<lambda>_.
     io_bind (fwrite fo loc 1 1 fp) (\<lambda>_. ask (\<lambda>w. load32 (w_mem w) loc)))"

text \<open>The result of \<open>fwrite\<close> is unsigned, so that the test for a negative one fails.\<close>

partial_function (option) fputs_loop ::
    "(u32 \<Rightarrow> 'a world_scheme fops) \<Rightarrow> u32 \<Rightarrow> u32 \<Rightarrow> u32 \<Rightarrow> 'a world_scheme \<Rightarrow> (string + u32 \<times> 'a world_scheme) option" where
  "fputs_loop fo p n fp w =
     (if w_mem w p \<noteq> 0 then io_bind (fwrite fo p 1 1 fp) (\<lambda>_ w. fputs_loop fo (p + 1) (n + 1) fp w) w else ret n w)"

definition fputs :: "(u32 \<Rightarrow> 'a world_scheme fops) \<Rightarrow> u32 \<Rightarrow> u32 \<Rightarrow> ('a world_scheme, u32) io" where
  "fputs fo ptr fp = fputs_loop fo ptr 0 fp"

subsection \<open>Directories\<close>

definition opendir :: "(u32 \<Rightarrow> 'a world_scheme dops) \<Rightarrow> u32 \<Rightarrow> ('a world_scheme, u32) io" where
  "opendir dp dirname =
     io_bind (ask w_dops) (\<lambda>f.
     io_bind (ask_mem (\<lambda>m. dops_loop (\<lambda>p. dir_keep_uri (dp p)) m f dirname 0)) (\<lambda>r.
       case r of Some (cur, uri, len) \<Rightarrow> op_opendir (dp cur) (dirname + len)
       | None \<Rightarrow> if ao_fallback f \<noteq> 0 then op_opendir (dp (ao_fallback f)) dirname else ret 0))"

definition closedir :: "(u32 \<Rightarrow> 'a world_scheme dops) \<Rightarrow> u32 \<Rightarrow> ('a world_scheme, u32) io" where
  "closedir dp dir = io_bind (ask (\<lambda>w. w_dirs w dir)) (\<lambda>D. op_closedir (dp (d_ops D)) dir)"

definition readdir_r :: "(u32 \<Rightarrow> 'a world_scheme dops) \<Rightarrow> u32 \<Rightarrow> u32 \<Rightarrow> u32 \<Rightarrow> ('a world_scheme, u32) io" where
  "readdir_r dp dir entry result =
     io_bind (write_mem (\<lambda>m. store32 m result entry)) (\<lambda>_.
     io_bind (ask (\<lambda>w. w_dirs w dir)) (\<lambda>D.
     io_bind (op_readdir (dp (d_ops D)) dir entry) (\<lambda>out.
     io_bind (if out \<noteq> 0 then write_mem (\<lambda>m. store32 m result 0) else ret ()) (\<lambda>_. ret out))))"

text \<open>\<open>loc\<close> is the address of the variable \<open>out\<close>.\<close>

definition readdir :: "(u32 \<Rightarrow> 'a world_scheme dops) \<Rightarrow> u32 \<Rightarrow> u32 \<Rightarrow> u32 \<Rightarrow> ('a world_scheme, u32) io" where
  "readdir dp loc global_dirent dir =
     io_bind (readdir_r dp dir global_dirent loc) (\<lambda>r. ret (if r \<noteq> 0 then 0 else global_dirent))"

definition remove_path :: "(u32 \<Rightarrow> 'a world_scheme dops) \<Rightarrow> u32 \<Rightarrow> ('a world_scheme, u32) io" where
  "remove_path dp pathname =
     io_bind (ask w_dops) (\<lambda>f. io_bind (get_dops_from_uri dp f pathname) (\<lambda>(ops, uri).
       if ops = 0 then ret (- 1)
       else (case op_remove (dp ops) of None \<Rightarrow> null_call | Some g \<Rightarrow> g pathname)))"

definition mkdir :: "(u32 \<Rightarrow> 'a world_scheme dops) \<Rightarrow> u32 \<Rightarrow> ('a world_scheme, u32) io" where
  "mkdir dp pathname =
     io_bind (ask w_dops) (\<lambda>f. io_bind (get_dops_from_uri dp f pathname) (\<lambda>(ops, uri).
       if ops = 0 then ret (- 1)
       else (case op_mkdir (dp ops) of None \<Rightarrow> null_call | Some g \<Rightarrow> g pathname)))"

definition rmdir :: "(u32 \<Rightarrow> 'a world_scheme dops) \<Rightarrow> u32 \<Rightarrow> ('a world_scheme, u32) io" where
  "rmdir dp pathname = remove_path dp pathname"

subsection \<open>Formatted output to files\<close>

text \<open>\<open>loc\<close> is the address of the 256 bytes \<open>outbuf\<close>; the variable arguments stand at \<open>ap\<close>.\<close>

definition vfprintf :: "(u32 \<Rightarrow> 'a world_scheme fops) \<Rightarrow> u32 \<Rightarrow> u32 \<Rightarrow> u32 \<Rightarrow> u32 \<Rightarrow> ('a world_scheme, u32) io" where
  "vfprintf fo loc fp fmt ap =
     (if fmt = 0 then ret 0
      else io_bind (\<lambda>w. map_option (\<lambda>(m, r). Inr (r, set_mem m w)) (vsnprintf (w_mem w) loc 256 fmt ap)) (\<lambda>r.
        io_bind (if sint r > 0 then fputs fo loc fp else ret 0) (\<lambda>_. ret r)))"

definition fprintf :: "(u32 \<Rightarrow> 'a world_scheme fops) \<Rightarrow> u32 \<Rightarrow> u32 \<Rightarrow> u32 \<Rightarrow> u32 \<Rightarrow> ('a world_scheme, u32) io" where
  "fprintf fo loc fp fmt ap = vfprintf fo loc fp fmt ap"

definition vprintf :: "(u32 \<Rightarrow> 'a world_scheme fops) \<Rightarrow> u32 \<Rightarrow> u32 \<Rightarrow> u32 \<Rightarrow> u32 \<Rightarrow> ('a world_scheme, u32) io" where
  "vprintf fo loc stdout fmt ap =
     (if fmt = 0 then ret 0
      else io_bind (vfprintf fo loc stdout fmt ap) (\<lambda>r. io_bind (fflush fo stdout) (\<lambda>_. ret r)))"

definition printf :: "(u32 \<Rightarrow> 'a world_scheme fops) \<Rightarrow> u32 \<Rightarrow> u32 \<Rightarrow> u32 \<Rightarrow> u32 \<Rightarrow> ('a world_scheme, u32) io" where
  "printf fo loc stdout fmt ap = vprintf fo loc stdout fmt ap"

end
