(* ===== verification/Scanf.thy ===== *)
theory Scanf
  imports FileOps
begin

text \<open>
  Scanning of strings, libs/src/libc/scanf_ska.c.  The record \<open>scanf_struct\<close> has the fields of
  \<open>scanf_struct_t\<close>; the array \<open>args\<close> at its end stands in the memory block that is allocated for it, at
  \<open>s_args\<close>.  \<open>complain\<close> is the \<open>fprintf\<close> of a message to \<open>stderr\<close>, and a failed \<open>assert\<close>, which exits,
  throws.  \<open>FLOAT_SUPPORT\<close> is off.
\<close>

record scanf_struct =
  s_self :: u32
  s_fmt :: u32
  s_str :: u32
  s_slen :: u32
  s_cur_arg :: u32
  s_n_args :: u32

definition s_args :: "scanf_struct \<Rightarrow> u32" where
  "s_args sp = s_self sp + 20"

definition is_modifier :: "u8 \<Rightarrow> bool" where
  "is_modifier c \<longleftrightarrow> c = 108 \<or> c = 76"

definition is_format :: "u8 \<Rightarrow> bool" where
  "is_format c \<longleftrightarrow> c \<in> {37, 100, 105, 117, 120, 88, 111, 112, 115, 99, 102, 101, 103, 69, 97}"

definition exits :: "(mem \<Rightarrow> (c_error + 'b) option) \<Rightarrow> ('a world_scheme, 'b) io" where
  "exits f = io_bind (ask_mem f) (\<lambda>r. case r of Inl _ \<Rightarrow> throw ''assertion failed'' | Inr x \<Rightarrow> ret x)"

definition assert_io :: "bool \<Rightarrow> ('w, unit) io" where
  "assert_io b = (if b then ret () else throw ''assertion failed'')"

definition store64 :: "mem \<Rightarrow> u32 \<Rightarrow> u64 \<Rightarrow> mem" where
  "store64 m a v = store32 (store32 m a (ucast (drop_bit 32 v))) (a + 4) (ucast v)"

definition convert_number :: "u32 \<Rightarrow> bool \<Rightarrow> u32 \<Rightarrow> int \<Rightarrow> u32 \<Rightarrow> ('a world_scheme, u32) io" where
  "convert_number s is_signed sz base arg =
     io_bind (assert_io (sz = 4 \<or> sz = 8)) (\<lambda>_.
     if sz = 4
     then io_bind (exits (\<lambda>m. if is_signed then strtol m s base else strtoul m s base)) (\<lambda>(v, endp).
       io_bind (write_mem (\<lambda>m. store32 m arg v)) (\<lambda>_. ret endp))
     else io_bind (exits (\<lambda>m. if is_signed then strtoll m s base else strtoull m s base)) (\<lambda>(v, endp).
       io_bind (write_mem (\<lambda>m. store64 m arg v)) (\<lambda>_. ret endp)))"

definition convert_float :: "u32 \<Rightarrow> u32 \<Rightarrow> u32 \<Rightarrow> ('a world_scheme, u32) io" where
  "convert_float s sz arg = ret 0"

partial_function (option) string_loop :: "mem \<Rightarrow> u32 \<Rightarrow> u32 \<Rightarrow> (mem \<times> u32) option" where
  "string_loop m s p =
     (if \<not> isspace (sint (m s)) \<and> m s \<noteq> 0 then string_loop (m(p := m s)) (s + 1) (p + 1) else Some (m(p := 0), s))"

definition convert_string :: "u32 \<Rightarrow> u32 \<Rightarrow> ('a world_scheme, u32) io" where
  "convert_string s arg = (\<lambda>w. map_option (\<lambda>(m, e). Inr (e, set_mem m w)) (string_loop (w_mem w) s arg))"

definition convert_char :: "u32 \<Rightarrow> u32 \<Rightarrow> ('a world_scheme, u32) io" where
  "convert_char s arg = io_bind (write_mem (\<lambda>m. m(arg := m s))) (\<lambda>_. ret (s + 1))"

subsection \<open>One conversion\<close>

definition char_at :: "u32 \<Rightarrow> ('a world_scheme, u8) io" where
  "char_at p = ask (\<lambda>w. w_mem w p)"

text \<open>\<open>chk_supported\<close> and the test of the format.\<close>

definition unsupported_first :: "u8 \<Rightarrow> string option" where
  "unsupported_first c =
     (if isdigit (sint c) then Some ''%n$ format'' else if c = 104 then Some ''h modifier''
      else if c = 113 then Some ''q modifier'' else if c = 116 then Some ''t modifier''
      else if c = 122 then Some ''z modifier'' else None)"

definition unsupported_format :: "u8 \<Rightarrow> string option" where
  "unsupported_format c =
     (if c = 91 then Some ''[ format'' else if c = 110 then Some ''n format''
      else if \<not> is_format c then Some ''unknown format'' else None)"

definition next_arg :: "scanf_struct \<Rightarrow> ('a world_scheme, u32) io" where
  "next_arg sp = ask (\<lambda>w. load32 (w_mem w) (s_args sp + 4 * s_cur_arg sp))"

definition convert_format :: "u8 \<Rightarrow> u32 \<Rightarrow> u32 \<Rightarrow> ('a world_scheme, u32) io" where
  "convert_format fmt s arg =
     (if fmt = 105 \<or> fmt = 100 then convert_number s True 4 10 arg
      else if fmt = 111 then convert_number s True 4 8 arg
      else if fmt = 120 \<or> fmt = 88 \<or> fmt = 112 then convert_number s True 4 16 arg
      else if fmt \<in> {102, 101, 103, 69, 97} then convert_float s 4 arg
      else if fmt = 115 then convert_string s arg
      else if fmt = 99 then convert_char s arg
      else throw ''assertion failed'')"

definition parse_fmt :: "(string \<Rightarrow> ('a world_scheme, unit) io) \<Rightarrow> scanf_struct \<Rightarrow> ('a world_scheme, u32 \<times> scanf_struct) io" where
  "parse_fmt complain sp =
     (let p = s_fmt sp + 1; s = s_str sp
      in io_bind (assert_io (s_slen sp > 2)) (\<lambda>_.
         io_bind (char_at (s_fmt sp)) (\<lambda>c.
         io_bind (assert_io (c = 37)) (\<lambda>_.
         io_bind (char_at p) (\<lambda>c.
         case unsupported_first c of Some msg \<Rightarrow> io_bind (complain msg) (\<lambda>_. ret (0, sp))
         | None \<Rightarrow>
           let p = (if is_modifier c then p + 1 else p)
           in io_bind (char_at p) (\<lambda>fmt.
             case unsupported_format fmt of Some msg \<Rightarrow> io_bind (complain msg) (\<lambda>_. ret (0, sp))
             | None \<Rightarrow>
               let p = p + 1
               in if fmt = 37 then ret (0, sp\<lparr>s_fmt := p, s_str := s + 1\<rparr>)
                  else io_bind (next_arg sp) (\<lambda>arg.
                    io_bind (convert_format fmt s arg) (\<lambda>s'.
                    if s' = s then ret (0, sp)
                    else ret (1, sp\<lparr>s_fmt := p, s_str := s', s_cur_arg := s_cur_arg sp + 1\<rparr>)))))))))"

subsection \<open>The whole format\<close>

partial_function (option) run_loop ::
    "(string \<Rightarrow> ('a world_scheme, unit) io) \<Rightarrow> u32 \<Rightarrow> scanf_struct \<Rightarrow> u32 \<Rightarrow> bool \<Rightarrow> 'a world_scheme \<Rightarrow> (string + u32 \<times> 'a world_scheme) option" where
  "run_loop complain e sp n is_backspaced w =
     (if s_fmt sp < e
      then let cf = w_mem w (s_fmt sp); cs = w_mem w (s_str sp)
        in if cf = 92 \<and> w_mem w (s_fmt sp + 1) = 37 then run_loop complain e (sp\<lparr>s_fmt := s_fmt sp + 1\<rparr>) n True w
           else if cf = 37 \<and> \<not> is_backspaced
           then io_bind (parse_fmt complain sp) (\<lambda>r w.
             if fst r = 0 then ret n w else run_loop complain e (snd r) (n + fst r) is_backspaced w) w
           else if cf \<noteq> cs then ret n w
           else run_loop complain e (sp\<lparr>s_fmt := s_fmt sp + 1, s_str := s_str sp + 1\<rparr>) n False w
      else ret n w)"

definition run_scanf :: "(string \<Rightarrow> ('a world_scheme, unit) io) \<Rightarrow> scanf_struct \<Rightarrow> ('a world_scheme, u32) io" where
  "run_scanf complain sp = run_loop complain (s_fmt sp + s_slen sp) sp 0 False"

definition alloc_scanf_struct :: "u32 \<Rightarrow> u32 \<Rightarrow> u32 \<Rightarrow> u32 \<Rightarrow> ('a world_scheme, scanf_struct option) io" where
  "alloc_scanf_struct fmt str slen n_args =
     (let sz = 20 + 4 * n_args
      in io_bind (on_heap (malloc sz)) (\<lambda>out.
        if out = 0 then ret None
        else io_bind (write_mem (\<lambda>m. fst (memset m out 0 sz))) (\<lambda>_.
          ret (Some \<lparr>s_self = out, s_fmt = fmt, s_str = str, s_slen = slen, s_cur_arg = 0, s_n_args = n_args\<rparr>))))"

definition copy_args :: "u32 \<Rightarrow> u32 \<Rightarrow> u32 \<Rightarrow> mem \<Rightarrow> mem" where
  "copy_args d s i m = foldl (\<lambda>m j. store32 m (d + 4 * of_nat j) (load32 m (s + 4 * of_nat j))) m [0..<unat i]"

definition assert_struct :: "scanf_struct option \<Rightarrow> ('w, scanf_struct) io" where
  "assert_struct p = (case p of None \<Rightarrow> throw ''assertion failed'' | Some sp \<Rightarrow> ret sp)"

text \<open>The \<open>realloc\<close> on long argument lists.\<close>

definition room_for :: "u32 \<Rightarrow> u32 \<Rightarrow> u32 \<Rightarrow> scanf_struct \<Rightarrow> u32 \<Rightarrow> u32 \<Rightarrow> ('a world_scheme, scanf_struct \<times> u32) io" where
  "room_for fmt str slen out n i =
     (if sint i \<ge> sint n
      then io_bind (alloc_scanf_struct fmt str slen (2 * n)) (\<lambda>p.
        io_bind (assert_struct p) (\<lambda>p.
        io_bind (write_mem (copy_args (s_args p) (s_args out) i)) (\<lambda>_.
        io_bind (mem_free (s_self out)) (\<lambda>_. ret (p, 2 * n)))))
      else ret (out, n))"

partial_function (option) read_args ::
    "u32 \<Rightarrow> u32 \<Rightarrow> u32 \<Rightarrow> scanf_struct \<Rightarrow> u32 \<Rightarrow> u32 \<Rightarrow> u32 \<Rightarrow> 'a world_scheme \<Rightarrow> (string + scanf_struct \<times> 'a world_scheme) option" where
  "read_args fmt str slen out n i ap w =
     (let arg = load32 (w_mem w) ap
      in if arg = 0 then ret out w
         else io_bind (room_for fmt str slen out n i) (\<lambda>r w.
           io_bind (write_mem (\<lambda>m. store32 m (s_args (fst r) + 4 * i) arg)) (\<lambda>_ w.
             read_args fmt str slen (fst r) (snd r) (i + 1) (ap + 4) w) w) w)"

definition create_scanf_struct_from_vargs :: "u32 \<Rightarrow> u32 \<Rightarrow> u32 \<Rightarrow> u32 \<Rightarrow> ('a world_scheme, scanf_struct) io" where
  "create_scanf_struct_from_vargs fmt str slen ap =
     io_bind (alloc_scanf_struct fmt str slen 16) (\<lambda>out.
     io_bind (assert_struct out) (\<lambda>out. read_args fmt str slen out 16 0 ap))"

definition free_scanf_struct :: "scanf_struct \<Rightarrow> ('a world_scheme, unit) io" where
  "free_scanf_struct st = mem_free (s_self st)"

definition vsscanf :: "(string \<Rightarrow> ('a world_scheme, unit) io) \<Rightarrow> u32 \<Rightarrow> u32 \<Rightarrow> u32 \<Rightarrow> ('a world_scheme, u32) io" where
  "vsscanf complain str fmt ap =
     io_bind (ask_mem (\<lambda>m. strlen m str)) (\<lambda>slen.
     io_bind (create_scanf_struct_from_vargs fmt str slen ap) (\<lambda>sp.
     io_bind (run_scanf complain sp) (\<lambda>out.
     io_bind (free_scanf_struct sp) (\<lambda>_. ret out))))"

definition sscanf :: "(string \<Rightarrow> ('a world_scheme, unit) io) \<Rightarrow> u32 \<Rightarrow> u32 \<Rightarrow> u32 \<Rightarrow> ('a world_scheme, u32) io" where
  "sscanf complain str fmt ap = vsscanf complain str fmt ap"

end
