(* ===== verification/MemoryFiles.thy ===== *)
theory MemoryFiles
  imports FileOps
begin

text \<open>
  Files in memory, libs/src/libcrt0/memory-filesystem.c: the file system \<open>NOPH_Memory_fops\<close>, whose data
  is a block of the heap that grows by \<open>realloc\<close>, and its constructors.  The start-up functions of
  libs/src/libcrt0/helpers.c, where \<open>call\<close> runs the function at an address.
\<close>

unbundle bit_operations_syntax

definition private_at :: "u32 \<Rightarrow> ('a world_scheme, memory_file) io" where
  "private_at fp = ask (\<lambda>w. w_memory_files w (f_priv (w_files w fp)))"

definition update_private :: "u32 \<Rightarrow> (memory_file \<Rightarrow> memory_file) \<Rightarrow> ('a world_scheme, unit) io" where
  "update_private fp g = update (\<lambda>w. let a = f_priv (w_files w fp)
     in w\<lparr>w_memory_files := (w_memory_files w)(a := g (w_memory_files w a))\<rparr>)"

definition copy :: "u32 \<Rightarrow> u32 \<Rightarrow> u32 \<Rightarrow> ('a world_scheme, unit) io" where
  "copy dest src n = on_heap (\<lambda>h. map_option (\<lambda>(m, _). (h\<lparr>smem := m\<rparr>, ())) (memcpy (smem h) dest src n))"

subsection \<open>The operations\<close>

definition memory_seek :: "u32 \<Rightarrow> u32 \<Rightarrow> ('a world_scheme, unit) io" where
  "memory_seek fp offset = ret ()"

text \<open>\<open>size >= 0\<close> holds of the unsigned \<open>size\<close>, and of \<open>in_size\<close> in \<open>write\<close>.\<close>

definition memory_read :: "u32 \<Rightarrow> u32 \<Rightarrow> u32 \<Rightarrow> ('a world_scheme, u32) io" where
  "memory_read fp ptr in_size =
     io_bind (private_at fp) (\<lambda>p. io_bind (file_at fp) (\<lambda>F.
       let rest = f_file_size F - f_fptr F; sz = (if in_size < rest then in_size else rest)
       in io_bind (copy ptr (mf_data p + f_fptr F) sz) (\<lambda>_.
          io_bind (if f_fptr F \<ge> f_file_size F then update_file fp (\<lambda>F. F\<lparr>f_eof := 1\<rparr>) else ret ()) (\<lambda>_. ret sz))))"

definition memory_write :: "u32 \<Rightarrow> u32 \<Rightarrow> u32 \<Rightarrow> ('a world_scheme, u32) io" where
  "memory_write fp ptr in_size =
     io_bind (private_at fp) (\<lambda>p. io_bind (file_at fp) (\<lambda>F.
       let new_size = (if f_fptr F + in_size > f_file_size F then f_fptr F + in_size else f_file_size F)
       in io_bind (if new_size > mf_allocated_size p
            then io_bind (on_heap (realloc (mf_data p) (new_size + 4096))) (\<lambda>data.
              io_bind (update_private fp (\<lambda>p. p\<lparr>mf_data := data\<rparr>)) (\<lambda>_.
              if data = 0 then ret False
              else io_bind (update_file fp (\<lambda>F. F\<lparr>f_file_size := new_size, f_eof := 0\<rparr>)) (\<lambda>_.
                io_bind (update_private fp (\<lambda>p. p\<lparr>mf_allocated_size := new_size + 4096\<rparr>)) (\<lambda>_. ret True))))
            else ret True) (\<lambda>ok.
          if \<not> ok then ret (- 1)
          else io_bind (update_file fp (\<lambda>F. if new_size > f_file_size F then F\<lparr>f_file_size := new_size\<rparr> else F)) (\<lambda>_.
            io_bind (private_at fp) (\<lambda>p. io_bind (copy (mf_data p + f_fptr F) ptr in_size) (\<lambda>_. ret in_size))))))"

definition memory_close :: "(u32 \<Rightarrow> 'a world_scheme fops) \<Rightarrow> u32 \<Rightarrow> ('a world_scheme, u32) io" where
  "memory_close fo fp =
     io_bind (private_at fp) (\<lambda>p. io_bind (file_at fp) (\<lambda>F.
     io_bind (if mf_writeback_path p \<noteq> 0
       then io_bind (fopen fo (mf_writeback_path p) (mf_mode p)) (\<lambda>tmp.
         io_bind (mem_free (mf_mode p)) (\<lambda>_. io_bind (mem_free (mf_writeback_path p)) (\<lambda>_.
         if tmp = 0 then ret False
         else io_bind (fwrite fo (mf_data p) (f_file_size F) 1 tmp) (\<lambda>n.
           if n \<noteq> f_file_size F then ret False else io_bind (fclose fo tmp) (\<lambda>_. ret True)))))
       else ret True) (\<lambda>ok.
     if \<not> ok then ret (- 1)
     else io_bind (if mf_allocate p \<noteq> 0 then mem_free (mf_data p) else ret ()) (\<lambda>_. ret 0))))"

definition NOPH_Memory_fops :: "(u32 \<Rightarrow> 'a world_scheme fops) \<Rightarrow> 'a world_scheme fops" where
  "NOPH_Memory_fops fo =
     \<lparr>priv_data_size = 20, keep_uri = False, priority = 0, op_open = None, op_close = memory_close fo, op_read = memory_read,
      op_write = memory_write, op_seek = memory_seek, op_flush = None\<rparr>"

subsection \<open>Opening\<close>

definition NOPH_MemoryFile_getDataPtr :: "u32 \<Rightarrow> ('a world_scheme, u32) io" where
  "NOPH_MemoryFile_getDataPtr fp = io_bind (private_at fp) (\<lambda>p. ret (mf_data p))"

definition NOPH_MemoryFile_setup :: "u32 \<Rightarrow> u32 \<Rightarrow> u32 \<Rightarrow> u32 \<Rightarrow> ('a world_scheme, unit) io" where
  "NOPH_MemoryFile_setup out ptr sz allocate =
     io_bind (update_private out (\<lambda>p. p\<lparr>mf_allocate := allocate\<rparr>)) (\<lambda>_.
       if ptr = 0
       then io_bind (on_heap (malloc 4096)) (\<lambda>data.
         io_bind (update_private out (\<lambda>p. p\<lparr>mf_data := data, mf_allocated_size := 4096, mf_allocate := 1\<rparr>)) (\<lambda>_.
         io_bind (update_file out (\<lambda>F. F\<lparr>f_file_size := 0\<rparr>)) (\<lambda>_.
         if data = 0 then cibyl_file_free out else ret ())))
       else io_bind (update_private out (\<lambda>p. p\<lparr>mf_data := ptr, mf_allocated_size := sz\<rparr>)) (\<lambda>_.
         update_file out (\<lambda>F. F\<lparr>f_file_size := sz\<rparr>)))"

text \<open>\<open>fops_addr\<close> is the address of \<open>NOPH_Memory_fops\<close>.\<close>

definition NOPH_MemoryFile_open :: "(u32 \<Rightarrow> 'a world_scheme fops) \<Rightarrow> u32 \<Rightarrow> u32 \<Rightarrow> u32 \<Rightarrow> u32 \<Rightarrow> ('a world_scheme, u32) io" where
  "NOPH_MemoryFile_open fo fops_addr ptr sz allocate =
     io_bind (cibyl_file_alloc fo fops_addr) (\<lambda>out.
     io_bind (NOPH_MemoryFile_setup out ptr sz allocate) (\<lambda>_. ret out))"

text \<open>The loop that reads a whole file; the block and the number of bytes read, or \<open>None\<close> when memory is up.\<close>

partial_function (option) read_all ::
    "(u32 \<Rightarrow> 'a world_scheme fops) \<Rightarrow> u32 \<Rightarrow> u32 \<Rightarrow> u32 \<Rightarrow> u32 \<Rightarrow> u32 \<Rightarrow> 'a world_scheme \<Rightarrow>
      (string + (u32 \<times> u32) option \<times> 'a world_scheme) option" where
  "read_all fo tmp bufsize data sz file_size w =
     io_bind (on_heap (realloc data (sz + bufsize))) (\<lambda>data w.
       if data = 0 then io_bind (fclose fo tmp) (\<lambda>_. ret None) w
       else io_bind (fread fo (data + file_size) 1 bufsize tmp) (\<lambda>n w.
         if n = bufsize then read_all fo tmp bufsize data (sz + bufsize) (file_size + n) w
         else io_bind (fclose fo tmp) (\<lambda>_. ret (Some (data, file_size + n))) w) w) w"

definition NOPH_MemoryFile_openIndirectSizeHint ::
    "(u32 \<Rightarrow> 'a world_scheme fops) \<Rightarrow> u32 \<Rightarrow> u32 \<Rightarrow> u32 \<Rightarrow> u32 \<Rightarrow> u32 \<Rightarrow> ('a world_scheme, u32) io" where
  "NOPH_MemoryFile_openIndirectSizeHint fo fops_addr r_mode name in_mode sizeHint =
     io_bind (cibyl_file_get_mode in_mode) (\<lambda>mode.
     if mode = APPEND \<or> mode = READ_APPEND then throw ''Invalid memory file mode''
     else io_bind
       (if mode = READ \<or> mode = READ_WRITE
        then io_bind (fopen fo name r_mode) (\<lambda>tmp.
          if tmp = 0 then ret None else read_all fo tmp sizeHint 0 0 0)
        else ret (Some (0, 0))) (\<lambda>r.
       case r of None \<Rightarrow> ret 0
       | Some (data, sz) \<Rightarrow>
         io_bind (NOPH_MemoryFile_open fo fops_addr data sz 1) (\<lambda>out.
         io_bind (if mode = WRITE \<or> mode = READ_WRITE \<or> mode = READ_TRUNCATE
           then io_bind (on_heap (strdup name)) (\<lambda>path.
             io_bind (update_private out (\<lambda>p. p\<lparr>mf_writeback_path := path\<rparr>)) (\<lambda>_.
             io_bind (on_heap (strdup in_mode)) (\<lambda>md. update_private out (\<lambda>p. p\<lparr>mf_mode := md\<rparr>))))
           else ret ()) (\<lambda>_.
         if out = 0 then throw ''MemoryFile_openIndirectSizeHint failed!'' else ret out))))"

definition NOPH_MemoryFile_openIndirect :: "(u32 \<Rightarrow> 'a world_scheme fops) \<Rightarrow> u32 \<Rightarrow> u32 \<Rightarrow> u32 \<Rightarrow> u32 \<Rightarrow> ('a world_scheme, u32) io" where
  "NOPH_MemoryFile_openIndirect fo fops_addr r_mode name in_mode =
     NOPH_MemoryFile_openIndirectSizeHint fo fops_addr r_mode name in_mode 4096"

subsection \<open>Start-up and exit\<close>

partial_function (option) run_list ::
    "(u32 \<Rightarrow> ('a world_scheme, unit) io) \<Rightarrow> u32 \<Rightarrow> u32 \<Rightarrow> 'a world_scheme \<Rightarrow> (string + unit \<times> 'a world_scheme) option" where
  "run_list call addr e w =
     (if addr \<noteq> e then io_bind (call (load32 (w_mem w) addr)) (\<lambda>_ w. run_list call (addr + 4) e w) w else ret () w)"

definition do_global_ctors_aux ::
    "(u32 \<Rightarrow> ('a world_scheme, unit) io) \<Rightarrow> ('a world_scheme, unit) io \<Rightarrow> u32 \<Rightarrow> u32 \<Rightarrow> ('a world_scheme, unit) io" where
  "do_global_ctors_aux call register_callback ctors_begin ctors_end =
     io_bind (run_list call ctors_begin ctors_end) (\<lambda>_. register_callback)"

definition do_global_dtors_aux :: "(u32 \<Rightarrow> ('a world_scheme, unit) io) \<Rightarrow> u32 \<Rightarrow> u32 \<Rightarrow> ('a world_scheme, unit) io" where
  "do_global_dtors_aux call dtors_begin dtors_end = run_list call dtors_begin dtors_end"

definition atexit :: "u32 \<Rightarrow> ('a world_scheme, u32) io" where
  "atexit fn =
     io_bind (ask w_atexit_n) (\<lambda>cur.
     io_bind (ask w_atexit_list) (\<lambda>old.
     io_bind (on_heap (realloc old (4 * (cur + 1)))) (\<lambda>l.
     io_bind (update (\<lambda>w. w\<lparr>w_atexit_n := cur + 1, w_atexit_list := l\<rparr>)) (\<lambda>_.
     io_bind (write_mem (\<lambda>m. store32 m (l + 4 * cur) fn)) (\<lambda>_.
     if l = 0 then throw ''realloc of atexit lists failed'' else ret 0)))))"

definition atexit_run :: "(u32 \<Rightarrow> ('a world_scheme, unit) io) \<Rightarrow> u32 \<Rightarrow> u32 \<Rightarrow> ('a world_scheme, unit) io" where
  "atexit_run call dtors_begin dtors_end =
     io_bind (ask w_atexit_list) (\<lambda>l. io_bind (ask w_atexit_n) (\<lambda>n.
     io_bind (run_list call l (l + 4 * n)) (\<lambda>_. do_global_dtors_aux call dtors_begin dtors_end)))"

definition NOPH_setter_exception_handler :: "(u32 \<Rightarrow> ('a world_scheme, unit) io) \<Rightarrow> u32 \<Rightarrow> u32 \<Rightarrow> ('a world_scheme, unit) io" where
  "NOPH_setter_exception_handler NOPH_delete ex arg =
     io_bind (write_mem (\<lambda>m. store32 m arg 1)) (\<lambda>_. NOPH_delete ex)"

end
