(* ===== verification/FileSystem.thy ===== *)
theory FileSystem
  imports FileOps
begin

text \<open>
  The contract between the file layer and a file system whose files are sequences of bytes, and what the
  file layer does on top of it.  \<open>holds fp cap bs w\<close>: the open file \<open>fp\<close> has the bytes \<open>bs\<close>, and up to
  \<open>cap\<close> bytes fit without more memory.  \<open>user\<close> are the bytes of memory that belong to the client.
\<close>

definition overwrite :: "nat \<Rightarrow> 'a list \<Rightarrow> 'a list \<Rightarrow> 'a list" where
  "overwrite k xs bs = take k bs @ xs @ drop (k + length xs) bs"

lemma length_overwrite: "k \<le> length bs \<Longrightarrow> length (overwrite k xs bs) = max (length bs) (k + length xs)"
  by (simp add: overwrite_def max_def)

lemma overwrite_Nil [simp]: "overwrite k [] bs = bs"
  by (simp add: overwrite_def)

lemma overwrite_append:
  "k \<le> length bs \<Longrightarrow> overwrite k (xs @ ys) bs = overwrite (k + length xs) ys (overwrite k xs bs)"
  by (simp add: overwrite_def ac_simps min_absorb2)

lemma drop_overwrite: "k \<le> length bs \<Longrightarrow> drop k (overwrite k xs bs) = xs @ drop (k + length xs) bs"
  by (simp add: overwrite_def min_absorb2)

definition moved :: "u32 \<Rightarrow> u32 \<Rightarrow> u32 \<Rightarrow> 'a world_scheme \<Rightarrow> 'a world_scheme" where
  "moved fp a b w = w\<lparr>w_files := (w_files w)(fp := (w_files w fp)\<lparr>f_fptr := a, f_vfptr := b\<rparr>)\<rparr>"

lemma moved_simps [simp]:
  "w_files (moved fp a b w) fp = (w_files w fp)\<lparr>f_fptr := a, f_vfptr := b\<rparr>"
  "w_heap (moved fp a b w) = w_heap w" "w_memory_files (moved fp a b w) = w_memory_files w"
  by (simp_all add: moved_def)

text \<open>What \<open>fgets\<close> makes of the rest of a file: a line, cut after \<open>n\<close> characters; a NUL stands for the end.\<close>

fun line :: "nat \<Rightarrow> u8 list \<Rightarrow> u8 list" where
  "line 0 cs = []"
| "line (Suc n) [] = [0]"
| "line (Suc n) (c # cs) = c # (if c \<noteq> 0 \<and> c \<noteq> 10 then line n cs else [])"

lemma length_line: "length (line n cs) \<le> n"
  by (induction n cs rule: line.induct) auto

lemma sx8_char: "sx8 b = 0 \<longleftrightarrow> b = 0" "sx8 b = 10 \<longleftrightarrow> b = 10" "lo8 (sx8 b) = b"
proof -
  show l: "lo8 (sx8 b) = b" for b
    unfolding lo8_def sx8_def by (rule bit_word_eqI) (auto simp: bit_simps)
  have "sx8 0 = 0" "sx8 10 = 10" by (simp_all add: sx8_def signed_take_bit_numeral_of_1)
  then show "sx8 b = 0 \<longleftrightarrow> b = 0" "sx8 b = 10 \<longleftrightarrow> b = 10" using l by (metis, metis)
qed

locale file_system =
  fixes rd :: "u32 \<Rightarrow> u32 \<Rightarrow> u32 \<Rightarrow> ('a world_scheme, u32) io"
    and wr :: "u32 \<Rightarrow> u32 \<Rightarrow> u32 \<Rightarrow> ('a world_scheme, u32) io"
    and sk :: "u32 \<Rightarrow> u32 \<Rightarrow> ('a world_scheme, unit) io"
    and holds :: "u32 \<Rightarrow> nat \<Rightarrow> u8 list \<Rightarrow> 'a world_scheme \<Rightarrow> bool"
    and user :: "u32 set"
  assumes bound: "holds fp cap bs w \<Longrightarrow> length bs < 2 ^ 31"
    and device_read: "holds fp cap bs w \<Longrightarrow> unat (f_fptr (w_files w fp)) = k \<Longrightarrow> k \<le> length bs \<Longrightarrow>
      (\<forall>a. in_block ptr (unat n) a \<longrightarrow> a \<in> user) \<Longrightarrow>
      \<exists>w'. rd fp ptr n w = Some (Inr (of_nat (min (unat n) (length bs - k)), w')) \<and> holds fp cap bs w' \<and>
        w_files w' fp = (if k = length bs then (w_files w fp)\<lparr>f_eof := 1\<rparr> else w_files w fp) \<and>
        (\<forall>a\<in>user. w_mem w' a = poke (w_mem w) ptr (take (unat n) (drop k bs)) a)"
    and device_write: "holds fp cap bs w \<Longrightarrow> unat (f_fptr (w_files w fp)) = k \<Longrightarrow> k \<le> length bs \<Longrightarrow> k + unat n < 2 ^ 31 \<Longrightarrow>
      (\<forall>a. in_block ptr (unat n) a \<longrightarrow> a \<in> user) \<Longrightarrow>
      \<exists>r w'. wr fp ptr n w = Some (Inr (r, w')) \<and> (\<forall>a\<in>user. w_mem w' a = w_mem w a) \<and>
        f_ops (w_files w' fp) = f_ops (w_files w fp) \<and> f_fptr (w_files w' fp) = f_fptr (w_files w fp) \<and>
        f_eof (w_files w' fp) \<in> {0, f_eof (w_files w fp)} \<and>
        (r = n \<and> holds fp cap (overwrite k (peek (w_mem w) ptr (unat n)) bs) w' \<or> r = - 1 \<and> cap < k + unat n)"
    and device_seek: "holds fp cap bs w \<Longrightarrow> \<exists>w'. sk fp d w = Some (Inr ((), w')) \<and> holds fp cap bs w' \<and>
      w_files w' fp = w_files w fp \<and> (\<forall>a\<in>user. w_mem w' a = w_mem w a)"
    and position: "holds fp cap bs w \<Longrightarrow> holds fp cap bs (moved fp a b w)"
    and user_memory: "holds fp cap bs w \<Longrightarrow> (\<forall>a. m a \<noteq> w_mem w a \<longrightarrow> a \<in> user) \<Longrightarrow> holds fp cap bs (set_mem m w)"
begin

definition served :: "(u32 \<Rightarrow> 'a world_scheme fops) \<Rightarrow> u32 \<Rightarrow> bool" where
  "served fo ops \<longleftrightarrow> op_read (fo ops) = rd \<and> op_write (fo ops) = wr \<and> op_seek (fo ops) = sk"

text \<open>The file \<open>fp\<close> stands at byte \<open>k\<close>; the device may stand elsewhere until the next read.\<close>

definition at :: "(u32 \<Rightarrow> 'a world_scheme fops) \<Rightarrow> u32 \<Rightarrow> nat \<Rightarrow> u8 list \<Rightarrow> nat \<Rightarrow> 'a world_scheme \<Rightarrow> bool" where
  "at fo fp cap bs k w \<longleftrightarrow> holds fp cap bs w \<and> served fo (f_ops (w_files w fp)) \<and> k \<le> length bs \<and>
     unat (f_vfptr (w_files w fp)) = k"

definition synced :: "u32 \<Rightarrow> 'a world_scheme \<Rightarrow> bool" where
  "synced fp w \<longleftrightarrow> f_fptr (w_files w fp) = f_vfptr (w_files w fp)"

lemma atD:
  assumes "at fo fp cap bs k w"
  shows "holds fp cap bs w" "op_read (fo (f_ops (w_files w fp))) = rd" "op_write (fo (f_ops (w_files w fp))) = wr"
    "op_seek (fo (f_ops (w_files w fp))) = sk" "k \<le> length bs" "f_vfptr (w_files w fp) = of_nat k" "k < 2 ^ 31" "length bs < 2 ^ 31"
proof -
  show h: "holds fp cap bs w" and "op_read (fo (f_ops (w_files w fp))) = rd" "op_write (fo (f_ops (w_files w fp))) = wr"
    "op_seek (fo (f_ops (w_files w fp))) = sk" and k: "k \<le> length bs"
    using assms by (simp_all add: at_def served_def)
  show "f_vfptr (w_files w fp) = of_nat k" using assms by (auto simp: at_def)
  show "length bs < 2 ^ 31" using bound [OF h] .
  with k show "k < 2 ^ 31" by simp
qed

lemma at_moved:
  assumes "holds fp cap bs w" "served fo (f_ops (w_files w fp))" "j \<le> length bs"
  shows "at fo fp cap bs j (moved fp (of_nat j) (of_nat j) w)" "synced fp (moved fp (of_nat j) (of_nat j) w)"
  using position [OF assms(1), of "of_nat j" "of_nat j"] bound [OF assms(1)] assms(2,3) by (simp_all add: at_def synced_def unat_of_nat)

text \<open>Reading: the bytes from the position on, as many as there are.\<close>

lemma fread_at:
  assumes at: "at fo fp cap bs k w" and u: "\<forall>a. in_block ptr (unat (sz * n)) a \<longrightarrow> a \<in> user"
  shows "\<exists>w'. fread fo ptr sz n fp w = Some (Inr (of_nat (min (unat (sz * n)) (length bs - k)) div sz, w')) \<and>
    at fo fp cap bs (k + min (unat (sz * n)) (length bs - k)) w' \<and>
    (\<forall>a\<in>user. w_mem w' a = poke (w_mem w) ptr (take (unat (sz * n)) (drop k bs)) a) \<and>
    f_eof (w_files w' fp) = (if sz * n \<noteq> 0 \<and> k = length bs then 1 else f_eof (w_files w fp)) \<and>
    (sz * n \<noteq> 0 \<longrightarrow> synced fp w') \<and> f_ops (w_files w' fp) = f_ops (w_files w fp)"
proof (cases "sz * n = 0")
  case True
  with at show ?thesis by (auto simp: fread_def ret_def)
next
  case False
  let ?F = "w_files w fp" and ?j = "min (unat (sz * n)) (length bs - k)"
  note A = atD [OF at]
  have kk: "unat (f_vfptr ?F) = k" using A(6,7) by (simp add: unat_of_nat)
  obtain w1 where w1: "(if f_fptr ?F \<noteq> f_vfptr ?F
               then io_bind (op_seek (fo (f_ops ?F)) fp (f_vfptr ?F - f_fptr ?F)) (\<lambda>_.
                 update_file fp (\<lambda>F. F\<lparr>f_fptr := f_vfptr F\<rparr>))
               else ret ()) w = Some (Inr ((), w1))" "holds fp cap bs w1" "w_files w1 fp = ?F\<lparr>f_fptr := f_vfptr ?F\<rparr>"
    "\<forall>a\<in>user. w_mem w1 a = w_mem w a"
  proof (cases "f_fptr ?F = f_vfptr ?F")
    case True
    then show thesis using A(1) by (intro that [of w]) (simp_all add: ret_def)
  next
    case False
    obtain w0 where w0: "sk fp (f_vfptr ?F - f_fptr ?F) w = Some (Inr ((), w0))" "holds fp cap bs w0" "w_files w0 fp = ?F"
      "\<forall>a\<in>user. w_mem w0 a = w_mem w a"
      using device_seek [OF A(1)] by blast
    let ?w1 = "moved fp (f_vfptr ?F) (f_vfptr ?F) w0"
    have "update_file fp (\<lambda>F. F\<lparr>f_fptr := f_vfptr F\<rparr>) w0 = Some (Inr ((), ?w1))"
      using w0(3) by (simp add: update_file_def update_def moved_def)
    then show thesis using False w0 A(4) position [OF w0(2)]
      by (intro that [of ?w1]) (simp_all add: io_bind_step w0(1))
  qed
  have k1: "unat (f_fptr (w_files w1 fp)) = k" using w1(3) kk by simp
  obtain w2 where w2: "rd fp ptr (sz * n) w1 = Some (Inr (of_nat ?j, w2))" "holds fp cap bs w2"
    "w_files w2 fp = (if k = length bs then (w_files w1 fp)\<lparr>f_eof := 1\<rparr> else w_files w1 fp)"
    "\<forall>a\<in>user. w_mem w2 a = poke (w_mem w1) ptr (take (unat (sz * n)) (drop k bs)) a"
    using device_read [OF w1(2) k1 A(5) u] by blast
  have F2: "f_fptr (w_files w2 fp) = of_nat k" using w2(3) w1(3) A(6) by simp
  let ?w3 = "moved fp (of_nat (k + ?j)) (of_nat (k + ?j)) w2"
  have "fread fo ptr sz n fp w = Some (Inr (of_nat ?j div sz, ?w3))"
    using False F2 by (simp add: fread_def Let_def io_bind_step w1(1) A(2) w2(1) ret_def moved_def)
  moreover have "at fo fp cap bs (k + ?j) ?w3"
    using at w2(3) w1(3) A(5) by (intro at_moved(1) [OF w2(2)]) (auto simp: at_def)
  moreover have "w_mem ?w3 a = poke (w_mem w) ptr (take (unat (sz * n)) (drop k bs)) a" if "a \<in> user" for a
    using that w1(4) w2(4) A(8) by (simp add: poke_apply)
  ultimately show ?thesis
    using False w2(3) w1(3) by (intro exI [of _ ?w3]) (auto simp: synced_def)
qed

text \<open>Writing bytes at the position, when the file is synchronised.\<close>

lemma fwrite_at:
  assumes at: "at fo fp cap bs k w" and s: "synced fp w" and n: "k + unat n < 2 ^ 31" "k + unat n \<le> cap"
    and u: "\<forall>a. in_block ptr (unat n) a \<longrightarrow> a \<in> user"
  shows "\<exists>w'. fwrite fo ptr 1 n fp w = Some (Inr (n, w')) \<and>
    at fo fp cap (overwrite k (peek (w_mem w) ptr (unat n)) bs) (k + unat n) w' \<and> synced fp w' \<and>
    (\<forall>a\<in>user. w_mem w' a = w_mem w a) \<and> f_eof (w_files w' fp) \<in> {0, f_eof (w_files w fp)} \<and> f_ops (w_files w' fp) = f_ops (w_files w fp)"
proof (cases "n = 0")
  case True
  with at s show ?thesis by (auto simp: fwrite_def ret_def)
next
  case False
  let ?F = "w_files w fp"
  note A = atD [OF at]
  have F: "f_fptr ?F = of_nat k" using A(6) s by (simp add: synced_def)
  then have kk: "unat (f_fptr ?F) = k" using A(7) by (simp add: unat_of_nat)
  obtain r w2 where w2: "wr fp ptr n w = Some (Inr (r, w2))" "\<forall>a\<in>user. w_mem w2 a = w_mem w a"
      "f_ops (w_files w2 fp) = f_ops ?F" "f_fptr (w_files w2 fp) = f_fptr ?F" "f_eof (w_files w2 fp) \<in> {0, f_eof ?F}"
      "r = n \<and> holds fp cap (overwrite k (peek (w_mem w) ptr (unat n)) bs) w2 \<or> r = - 1 \<and> cap < k + unat n"
    using device_write [OF A(1) kk A(5) n(1) u] by blast
  have r: "r = n" "holds fp cap (overwrite k (peek (w_mem w) ptr (unat n)) bs) w2" using w2(6) n(2) by auto
  have q: "of_nat (k + unat n) = (of_nat k :: u32) + n" by simp
  let ?w3 = "moved fp (of_nat k + n) (of_nat k + n) w2"
  have "fwrite fo ptr 1 n fp w = Some (Inr (n, ?w3))"
    using False F w2(4) r(1) by (simp add: fwrite_def Let_def A(3) io_bind_step w2(1) ret_def moved_def)
  moreover have "at fo fp cap (overwrite k (peek (w_mem w) ptr (unat n)) bs) (k + unat n) ?w3"
    using at w2(3) A(5) unfolding q [symmetric] by (intro at_moved(1) [OF r(2)]) (auto simp: at_def length_overwrite)
  ultimately show ?thesis using w2 by (intro exI [of _ ?w3]) (auto simp: synced_def)
qed

text \<open>A client that writes its own memory leaves the file alone.\<close>

lemma at_set_mem: "at fo fp cap bs k w \<Longrightarrow> (\<And>a. m a \<noteq> w_mem w a \<Longrightarrow> a \<in> user) \<Longrightarrow> at fo fp cap bs k (set_mem m w)"
  using user_memory [of fp cap bs w m] by (auto simp: at_def)

lemma synced_set_mem [simp]: "synced fp (set_mem m w) = synced fp w"
  by (simp add: synced_def)

subsection \<open>Strings are written\<close>

lemma fputs_loop_at:
  assumes "at fo fp cap bs k w" "synced fp w" "cstr (w_mem w) p xs" "\<forall>a. in_block p (Suc (length xs)) a \<longrightarrow> a \<in> user"
    "k + length xs < 2 ^ 31" "k + length xs \<le> cap"
  shows "\<exists>w'. fputs_loop fo p n fp w = Some (Inr (n + of_nat (length xs), w')) \<and>
    at fo fp cap (overwrite k xs bs) (k + length xs) w' \<and> synced fp w' \<and> (\<forall>a\<in>user. w_mem w' a = w_mem w a) \<and>
    f_ops (w_files w' fp) = f_ops (w_files w fp)"
  using assms
proof (induction xs arbitrary: p n k bs w)
  case Nil
  then show ?case by (subst fputs_loop.simps) (simp add: ret_def)
next
  case (Cons x xs)
  have c: "w_mem w p = x" "x \<noteq> 0" "cstr (w_mem w) (p + 1) xs" using Cons.prems(3) by simp_all
  have "\<forall>a. in_block p (unat (1 :: u32)) a \<longrightarrow> a \<in> user" using Cons.prems(4) by (auto simp: in_block_Suc)
  then obtain w1 where w1: "fwrite fo p 1 1 fp w = Some (Inr (1, w1))" "at fo fp cap (overwrite k [x] bs) (k + 1) w1" "synced fp w1"
    "\<forall>a\<in>user. w_mem w1 a = w_mem w a" "f_ops (w_files w1 fp) = f_ops (w_files w fp)"
    using fwrite_at [OF Cons.prems(1,2), of 1 p] Cons.prems(5,6) c(1) by auto
  have u: "\<forall>a. in_block (p + 1) (Suc (length xs)) a \<longrightarrow> a \<in> user"
    using Cons.prems(4) by (auto simp: in_block_Suc [of p])
  have "cstr (w_mem w1) (p + 1) xs" by (rule cstr_cong [OF c(3)]) (use u w1(4) in auto)
  from Cons.IH [OF w1(2,3) this u] obtain w2 where
    w2: "fputs_loop fo (p + 1) (n + 1) fp w1 = Some (Inr (n + 1 + of_nat (length xs), w2))"
    "at fo fp cap (overwrite (k + 1) xs (overwrite k [x] bs)) (k + 1 + length xs) w2" "synced fp w2"
    "\<forall>a\<in>user. w_mem w2 a = w_mem w1 a" "f_ops (w_files w2 fp) = f_ops (w_files w1 fp)"
    using Cons.prems(5,6) by auto
  have "overwrite k (x # xs) bs = overwrite (k + 1) xs (overwrite k [x] bs)"
    using overwrite_append [OF atD(5) [OF Cons.prems(1)], of "[x]" xs] by simp
  then show ?case
    using w1(4,5) w2 c(1,2) by (subst fputs_loop.simps) (simp add: io_bind_step w1(1) add.assoc)
qed

subsection \<open>Lines are read\<close>

lemma fgetc_at:
  assumes at: "at fo fp cap bs k w" and l: "loc \<in> user"
  shows "\<exists>w'. fgetc fo loc fp w = Some (Inr (sx8 (if k < length bs then bs ! k else w_mem w loc), w')) \<and>
    at fo fp cap bs (if k < length bs then k + 1 else k) w' \<and>
    (\<forall>a\<in>user. w_mem w' a = (if k < length bs \<and> a = loc then bs ! k else w_mem w a)) \<and>
    f_eof (w_files w' fp) = (if k < length bs then f_eof (w_files w fp) else 1)"
proof -
  have u: "\<forall>a. in_block loc (unat (1 * 1 :: u32)) a \<longrightarrow> a \<in> user" using l by (auto simp: in_block_Suc)
  have k: "k \<le> length bs" using at by (rule atD)
  have d: "min 1 (length bs - k) = (if k < length bs then 1 else 0)" using k by auto
  have t: "take 1 (drop k bs) = (if k < length bs then [bs ! k] else [])"
    by (auto simp: take_Suc hd_drop_conv_nth)
  obtain w' where w': "fread fo loc 1 1 fp w = Some (Inr (of_nat (min (unat (1 * 1 :: u32)) (length bs - k)) div 1, w'))"
    "at fo fp cap bs (k + min (unat (1 * 1 :: u32)) (length bs - k)) w'"
    "\<forall>a\<in>user. w_mem w' a = poke (w_mem w) loc (take (unat (1 * 1 :: u32)) (drop k bs)) a"
    "f_eof (w_files w' fp) = (if (1 * 1 :: u32) \<noteq> 0 \<and> k = length bs then 1 else f_eof (w_files w fp))"
    using fread_at [OF at u] by blast
  then show ?thesis using l k d t
    by (intro exI [of _ w']) (auto simp: fgetc_def io_bind_step w'(1) ask_def)
qed

lemma fgets_loop_at:
  assumes "at fo fp cap bs k w" "f_eof (w_files w fp) = 0" "loc \<in> user" "sz \<noteq> 0"
    "\<forall>a. in_block itr (Suc (unat sz)) a \<longrightarrow> a \<in> user \<and> a \<noteq> loc"
    "itr = s \<longrightarrow> k < length bs" "unat (itr - s) + unat sz < 2 ^ 32"
  shows "\<exists>w'. let l = line (unat sz) (drop k bs)
    in fgets_loop fo loc s itr sz fp w = Some (Inr (s, w')) \<and> at fo fp cap bs (k + min (length l) (length bs - k)) w' \<and>
      (\<forall>a\<in>user. a \<noteq> loc \<longrightarrow> w_mem w' a = poke (w_mem w) itr (l @ [0]) a) \<and>
      f_eof (w_files w' fp) = (if length bs - k < length l then 1 else 0)"
  using assms
proof (induction "unat sz" arbitrary: k w sz itr)
  case 0
  then show ?case by (simp add: unat_eq_0)
next
  case (Suc n)
  have sz: "unat sz = Suc n" "unat (sz - 1) = n" using Suc.hyps(2) unat_step1 [of sz] Suc.prems(4) by (auto simp: word_gt_0)
  have itr: "itr \<in> user" "itr \<noteq> loc" "itr + 1 \<in> user" "itr + 1 \<noteq> loc"
    using Suc.prems(5) sz(1) by (auto simp: in_block_Suc)
  obtain w1 where w1: "fgetc fo loc fp w = Some (Inr (sx8 (if k < length bs then bs ! k else w_mem w loc), w1))"
    "at fo fp cap bs (if k < length bs then k + 1 else k) w1"
    "\<forall>a\<in>user. w_mem w1 a = (if k < length bs \<and> a = loc then bs ! k else w_mem w a)"
    "f_eof (w_files w1 fp) = (if k < length bs then 0 else 1)"
    using fgetc_at [OF Suc.prems(1,3)] Suc.prems(2) by auto
  show ?case
  proof (cases "k < length bs")
    case False
    let ?w = "set_mem ((w_mem w1)(itr := 0, itr + 1 := 0)) w1"
    have d: "drop k bs = []" using False by simp
    have "itr \<noteq> s" using False Suc.prems(6) by auto
    then have "fgets_loop fo loc s itr sz fp w = Some (Inr (s, ?w))"
      using False w1(4) by (subst fgets_loop.simps) (simp add: io_bind_step w1(1) feof_def Let_def lo8_def ret_def set_mem_def)
    moreover have "at fo fp cap bs k ?w" using w1(2) False itr by (intro at_set_mem) (auto split: if_splits)
    ultimately show ?thesis using False d sz(1) w1(3,4) by (intro exI [of _ ?w]) (auto simp: Let_def)
  next
    case True
    define c where "c = bs ! k"
    have d: "drop k bs = c # drop (Suc k) bs" using True by (simp add: c_def Cons_nth_drop_Suc)
    let ?w2 = "set_mem ((w_mem w1)(itr := c)) w1"
    have a2: "at fo fp cap bs (k + 1) ?w2" using w1(2) True itr by (intro at_set_mem) (auto split: if_splits)
    show ?thesis
    proof (cases "c \<noteq> 0 \<and> c \<noteq> 10 \<and> n \<noteq> 0")
      case False
      then have l: "line (unat sz) (drop k bs) = [c]" by (cases n) (auto simp: d sz(1))
      have z: "\<not> (c \<noteq> 0 \<and> c \<noteq> 10 \<and> sz - 1 \<noteq> 0)" using False sz(2) by (auto simp: unat_eq_0)
      let ?w3 = "set_mem ((w_mem ?w2)(itr + 1 := 0)) ?w2"
      have "fgets_loop fo loc s itr sz fp w = Some (Inr (s, ?w3))"
        using True z w1(4) by (subst fgets_loop.simps) (auto simp: io_bind_step w1(1) feof_def Let_def sx8_char ret_def c_def)
      moreover have "at fo fp cap bs (k + 1) ?w3" using itr by (intro at_set_mem [OF a2]) (auto split: if_splits)
      ultimately show ?thesis using True l w1(3,4) by (intro exI [of _ ?w3]) (auto simp: Let_def)
    next
      case more: True
      have z: "sz - 1 \<noteq> 0" using more sz(2) by auto
      have b: "\<forall>a. in_block (itr + 1) (Suc (unat (sz - 1))) a \<longrightarrow> a \<in> user \<and> a \<noteq> loc"
        using Suc.prems(5) unfolding sz by (auto simp: in_block_Suc [of itr])
      have i: "unat (itr + 1 - s) = Suc (unat (itr - s))"
      proof -
        have "itr + 1 - s = (itr - s) + 1" by simp
        then show ?thesis using Suc.prems(7) sz(1) unat_add_lem [of "itr - s" 1] by (simp only:) simp
      qed
      then have "itr + 1 = s \<longrightarrow> k + 1 < length bs" "unat (itr + 1 - s) + unat (sz - 1) < 2 ^ 32" using Suc.prems(7) sz by auto
      from Suc.hyps(1) [OF sz(2) [symmetric] a2 _ Suc.prems(3) z b this] w1(4) True
      obtain w4 where w4: "fgets_loop fo loc s (itr + 1) (sz - 1) fp ?w2 = Some (Inr (s, w4))"
        "at fo fp cap bs (k + 1 + min (length (line n (drop (k + 1) bs))) (length bs - (k + 1))) w4"
        "\<forall>a\<in>user. a \<noteq> loc \<longrightarrow> w_mem w4 a = poke (w_mem ?w2) (itr + 1) (line n (drop (k + 1) bs) @ [0]) a"
        "f_eof (w_files w4 fp) = (if length bs - (k + 1) < length (line n (drop (k + 1) bs)) then 1 else 0)"
        by (auto simp: Let_def sz)
      have l: "line (unat sz) (drop k bs) = c # line n (drop (k + 1) bs)" using more by (simp add: d sz(1))
      have "fgets_loop fo loc s itr sz fp w = Some (Inr (s, w4))"
        using True more z w1(4) w4(1)
        by (subst fgets_loop.simps) (simp add: io_bind_step w1(1) feof_def Let_def sx8_char c_def)
      moreover have "w_mem w4 a = poke (w_mem w) itr (line (unat sz) (drop k bs) @ [0]) a" if "a \<in> user" "a \<noteq> loc" for a
      proof -
        have len: "length (line n (drop (k + 1) bs) @ [0]) \<le> 2 ^ 32"
          using length_line [of n "drop (k + 1) bs"] sz(1) unat_bound32 [of sz] by simp
        have "w_mem w4 a = poke ((w_mem w1)(itr := c)) (itr + 1) (line n (drop (k + 1) bs) @ [0]) a" using w4(3) that by simp
        also have "\<dots> = poke ((w_mem w)(itr := c)) (itr + 1) (line n (drop (k + 1) bs) @ [0]) a"
          using w1(3) that by (simp only: poke_apply [OF len]) simp
        finally show ?thesis by (simp add: l)
      qed
      moreover have "at fo fp cap bs (k + min (length (line (unat sz) (drop k bs))) (length bs - k)) w4"
      proof -
        have "k + 1 + min (length (line n (drop (k + 1) bs))) (length bs - (k + 1)) = k + min (length (line (unat sz) (drop k bs))) (length bs - k)"
          using True l by simp
        then show ?thesis using w4(2) by (simp only:)
      qed
      moreover have "f_eof (w_files w4 fp) = (if length bs - k < length (line (unat sz) (drop k bs)) then 1 else 0)"
        using w4(4) True l by auto
      ultimately show ?thesis unfolding Let_def by blast
    qed
  qed
qed

end

end
