(* ===== verification/SmallocLists.thy ===== *)
theory SmallocLists
  imports Smalloc
begin

text \<open>
  The lower half of the allocator's proof: the node fields in memory, the two linked lists and what
  \<open>delete\<close> and \<open>insert\<close> of smalloc.c do to them, merging with the neighbours included.
\<close>

unbundle bit_operations_syntax

subsection \<open>Nodes in memory\<close>

text \<open>
  \<open>ok_nodes N\<close>: the headers at the addresses \<open>N\<close> are word-aligned, do not overlap and lie in
  the lower half of the address space, where comparing addresses as ints is comparing them.
\<close>

definition ok_nodes :: "u32 set \<Rightarrow> bool" where
  "ok_nodes N \<longleftrightarrow> (\<forall>a\<in>N. aligned4 a \<and> a \<noteq> 0 \<and> unat a + 12 < 2 ^ 31 \<and>
     (\<forall>b\<in>N. a \<noteq> b \<longrightarrow> unat a + 12 \<le> unat b \<or> unat b + 12 \<le> unat a))"

lemma ok_nodesD:
  assumes "ok_nodes N" "a \<in> N"
  shows "aligned4 a" "a \<noteq> 0" "unat a + 12 < 2 ^ 31"
  using assms by (auto simp: ok_nodes_def)

lemma ok_nodes_subset: "ok_nodes N \<Longrightarrow> M \<subseteq> N \<Longrightarrow> ok_nodes M"
  unfolding ok_nodes_def by blast

lemma unat_add_small: "unat (a :: u32) + unat b < 2 ^ 32 \<Longrightarrow> unat (a + b) = unat a + unat b"
  by (simp add: unat_word_ariths)

lemma field_address:
  assumes "ok_nodes N" "a \<in> N" "i \<in> {0, 4, 8}"
  shows "unat (a + i) = unat a + unat i" "aligned4 (a + i)"
proof -
  have "unat i \<le> 8" "aligned4 i" using assms(3) by (auto simp: aligned4_def)
  then show "unat (a + i) = unat a + unat i" "aligned4 (a + i)"
    using ok_nodesD [OF assms(1,2)] by (auto intro!: unat_add_small)
qed

lemma load_field:
  assumes N: "ok_nodes N" "a \<in> N" "b \<in> N" and i: "i \<in> {0, 4, 8}" and j: "j \<in> {0, 4, 8}"
  shows "load32 (store32 m (a + i) v) (b + j) = (if a = b \<and> i = j then v else load32 m (b + j))"
proof (cases "a = b \<and> i = j")
  case True
  then show ?thesis by (simp add: load32_store32_same)
next
  case False
  have "a + i \<noteq> b + j"
  proof
    assume eq: "a + i = b + j"
    then have "unat a + unat i = unat b + unat j"
      using field_address(1) [OF N(1,2) i] field_address(1) [OF N(1,3) j] by simp
    moreover have "unat i \<le> 8" "unat j \<le> 8" using i j by auto
    ultimately have "a = b" using N unfolding ok_nodes_def by fastforce
    with eq False show False by simp
  qed
  then show ?thesis
    using False load32_store32_other [OF field_address(2) [OF N(1,2) i] field_address(2) [OF N(1,3) j]]
    by auto
qed

lemma fields:
  assumes N: "ok_nodes N" "a \<in> N" "b \<in> N"
  shows "rsize (smem (set_rsize a v st)) b = (if a = b then v else rsize (smem st) b)"
    "usize (smem (set_rsize a v st)) b = usize (smem st) b"
    "nxt (smem (set_rsize a v st)) b = nxt (smem st) b"
    "rsize (smem (set_usize a v st)) b = rsize (smem st) b"
    "usize (smem (set_usize a v st)) b = (if a = b then v else usize (smem st) b)"
    "nxt (smem (set_usize a v st)) b = nxt (smem st) b"
    "rsize (smem (set_next a v st)) b = rsize (smem st) b"
    "usize (smem (set_next a v st)) b = usize (smem st) b"
    "nxt (smem (set_next a v st)) b = (if a = b then v else nxt (smem st) b)"
  using load_field [OF N, of 0 0] load_field [OF N, of 0 4] load_field [OF N, of 0 8]
    load_field [OF N, of 4 0] load_field [OF N, of 4 4] load_field [OF N, of 4 8]
    load_field [OF N, of 8 0] load_field [OF N, of 8 4] load_field [OF N, of 8 8]
  by (simp_all add: rsize_def usize_def nxt_def set_rsize_def set_usize_def set_next_def)

text \<open>The variables no field update touches.\<close>

lemma set_field_vars [simp]:
  "available (set_rsize a v st) = available st" "allocated (set_rsize a v st) = allocated st"
  "total_mem (set_rsize a v st) = total_mem st" "alloc_len (set_rsize a v st) = alloc_len st"
  "avail_len (set_rsize a v st) = avail_len st"
  "available (set_usize a v st) = available st" "allocated (set_usize a v st) = allocated st"
  "total_mem (set_usize a v st) = total_mem st" "alloc_len (set_usize a v st) = alloc_len st"
  "avail_len (set_usize a v st) = avail_len st"
  "available (set_next a v st) = available st" "allocated (set_next a v st) = allocated st"
  "total_mem (set_next a v st) = total_mem st" "alloc_len (set_next a v st) = alloc_len st"
  "avail_len (set_next a v st) = avail_len st"
  by (simp_all add: set_rsize_def set_usize_def set_next_def)

lemma head_of_set [simp]:
  "head_of l (set_head l v st) = v" "l \<noteq> l' \<Longrightarrow> head_of l (set_head l' v st) = head_of l st"
  "smem (set_head l v st) = smem st" "head_of l (set_next a v st) = head_of l st"
  "head_of l (set_rsize a v st) = head_of l st" "head_of l (set_usize a v st) = head_of l st"
  by (auto simp: head_of_def set_head_def split: list_id.splits)

text \<open>Bytes outside all headers are user data: no field update changes them.\<close>

definition user_byte :: "u32 set \<Rightarrow> u32 \<Rightarrow> bool" where
  "user_byte N a \<longleftrightarrow> (\<forall>n\<in>N. \<not> in_block n 12 a)"

lemma store_field_user:
  assumes "ok_nodes N" "n \<in> N" "i \<in> {0, 4, 8}" "user_byte N a"
  shows "store32 m (n + i) v a = m a"
proof (rule store32_outside)
  have "\<not> in_block n 12 a" using assms by (auto simp: user_byte_def)
  moreover have "unat i \<le> 8" using assms(3) by auto
  ultimately show "\<not> in_block (n + i) 4 a"
    using ok_nodesD(3) [OF assms(1,2)] field_address(1) [OF assms(1-3)] by (auto simp: in_block_unat)
qed

lemma user_byte_fields:
  assumes "ok_nodes N" "n \<in> N" "user_byte N a"
  shows "smem (set_rsize n v st) a = smem st a" "smem (set_usize n v st) a = smem st a"
    "smem (set_next n v st) a = smem st a"
  using store_field_user [OF assms(1,2) _ assms(3), of 0] store_field_user [OF assms(1,2) _ assms(3), of 4]
    store_field_user [OF assms(1,2) _ assms(3), of 8]
  by (simp_all add: set_rsize_def set_usize_def set_next_def)

subsection \<open>Linked lists\<close>

fun links :: "mem \<Rightarrow> u32 \<Rightarrow> u32 list \<Rightarrow> bool" where
  "links m h [] \<longleftrightarrow> h = 0"
| "links m h (x # xs) \<longleftrightarrow> h = x \<and> x \<noteq> 0 \<and> links m (nxt m x) xs"

definition desc :: "u32 list \<Rightarrow> bool" where
  "desc xs \<longleftrightarrow> sorted_wrt (\<lambda>a b. unat b < unat a) xs"

lemma links_cong: "(\<And>x. x \<in> set xs \<Longrightarrow> nxt m' x = nxt m x) \<Longrightarrow> links m' h xs = links m h xs"
  by (induction xs arbitrary: h) auto

lemma links_hd: "links m h xs \<Longrightarrow> h = (if xs = [] then 0 else hd xs)"
  by (cases xs) auto

text \<open>Redirecting the last node of a prefix to another list.\<close>

lemma links_relink:
  assumes "links m h (xs @ ys)" "xs \<noteq> []" "distinct xs" "links m' h2 zs"
    "nxt m' (last xs) = h2" "\<And>x. x \<in> set xs \<Longrightarrow> x \<noteq> last xs \<Longrightarrow> nxt m' x = nxt m x"
  shows "links m' h (xs @ zs)"
  using assms
proof (induction xs arbitrary: h)
  case (Cons x xs)
  have "x \<noteq> last xs" if "xs \<noteq> []" using Cons.prems(3) last_in_set [OF that] by auto
  with Cons show ?case by (cases "xs = []") auto
qed simp

lemma links_next: "links m h (xs @ n # ys) \<Longrightarrow> links m (nxt m n) ys"
  by (induction xs arbitrary: h) auto

lemma walk_links:
  assumes "links m c (xs @ ys)" "\<forall>x\<in>set xs. sint (ADDR x) > sint addr"
    "ys = [] \<or> \<not> sint (ADDR (hd ys)) > sint addr"
  shows "walk m addr c p = Some (if ys = [] then 0 else hd ys, if xs = [] then p else last xs)"
  using assms
proof (induction xs arbitrary: c p)
  case Nil
  then show ?case by (cases ys) (auto simp: walk.simps)
next
  case (Cons x xs)
  then have "walk m addr c p = walk m addr (nxt m x) x"
    by (subst walk.simps) auto
  moreover have "walk m addr (nxt m x) x = Some (if ys = [] then 0 else hd ys, if xs = [] then x else last xs)"
    using Cons.prems by (intro Cons.IH) auto
  ultimately show ?case by simp
qed

lemma ADDR_less:
  assumes "ok_nodes N" "a \<in> N" "b \<in> N"
  shows "sint (ADDR a) < sint (ADDR b) \<longleftrightarrow> unat a < unat b"
proof -
  have "unat (ADDR a) = unat a + 12" "unat (ADDR b) = unat b + 12"
    using ok_nodesD [OF assms(1,2)] ok_nodesD [OF assms(1,3)] by (auto simp: ADDR_def unat_add_small)
  then show ?thesis
    using ok_nodesD(3) [OF assms(1,2)] ok_nodesD(3) [OF assms(1,3)] by (simp add: sint32_less)
qed

subsection \<open>The two lists of a state\<close>

definition len_of :: "list_id \<Rightarrow> smalloc \<Rightarrow> u32" where
  "len_of l st = (case l of ALLOCATED \<Rightarrow> alloc_len st | AVAILABLE \<Rightarrow> avail_len st)"

lemma len_of_set [simp]:
  "len_of l (set_head l' v st) = len_of l st" "len_of l (set_next a v st) = len_of l st"
  "len_of l (set_rsize a v st) = len_of l st" "len_of l (set_usize a v st) = len_of l st"
  "total_mem (set_head l' v st) = total_mem st"
  by (auto simp: len_of_def set_head_def split: list_id.splits)

text \<open>\<open>listed l st xs\<close>: the list \<open>l\<close> runs through the nodes \<open>xs\<close>, in descending order, and is counted.\<close>

definition listed :: "list_id \<Rightarrow> smalloc \<Rightarrow> u32 list \<Rightarrow> bool" where
  "listed l st xs \<longleftrightarrow> links (smem st) (head_of l st) xs \<and> len_of l st = of_nat (length xs) \<and> desc xs"

text \<open>
  \<open>frame N R X l st st'\<close>: from \<open>st\<close> to \<open>st'\<close>, at the nodes \<open>N\<close> only the sizes of \<open>R\<close> and the
  links of \<open>X\<close> may change, only list \<open>l\<close>'s head and count, and no user byte.
\<close>

definition frame :: "u32 set \<Rightarrow> u32 set \<Rightarrow> u32 set \<Rightarrow> list_id \<Rightarrow> smalloc \<Rightarrow> smalloc \<Rightarrow> bool" where
  "frame N R X l st st' \<longleftrightarrow>
     (\<forall>q\<in>N. (q \<notin> R \<longrightarrow> rsize (smem st') q = rsize (smem st) q) \<and> usize (smem st') q = usize (smem st) q \<and>
        (q \<notin> X \<longrightarrow> nxt (smem st') q = nxt (smem st) q)) \<and>
     (\<forall>a. user_byte N a \<longrightarrow> smem st' a = smem st a) \<and>
     (\<forall>l'. l' \<noteq> l \<longrightarrow> head_of l' st' = head_of l' st \<and> len_of l' st' = len_of l' st) \<and>
     total_mem st' = total_mem st"

lemma frame_refl: "frame N R X l st st"
  by (simp add: frame_def)

lemma frame_at:
  "frame N R X l st st' \<Longrightarrow> q \<in> N \<Longrightarrow> q \<notin> R \<Longrightarrow> rsize (smem st') q = rsize (smem st) q"
  "frame N R X l st st' \<Longrightarrow> q \<in> N \<Longrightarrow> usize (smem st') q = usize (smem st) q"
  "frame N R X l st st' \<Longrightarrow> q \<in> N \<Longrightarrow> q \<notin> X \<Longrightarrow> nxt (smem st') q = nxt (smem st) q"
  "frame N R X l st st' \<Longrightarrow> user_byte N a \<Longrightarrow> smem st' a = smem st a"
  "frame N R X l st st' \<Longrightarrow> l' \<noteq> l \<Longrightarrow> head_of l' st' = head_of l' st \<and> len_of l' st' = len_of l' st"
  "frame N R X l st st' \<Longrightarrow> total_mem st' = total_mem st"
  by (simp_all add: frame_def)

lemma frame_trans:
  assumes "frame N R X l st st'" "frame N R' X' l st' st''" "R \<subseteq> R''" "R' \<subseteq> R''" "X \<subseteq> X''" "X' \<subseteq> X''"
  shows "frame N R'' X'' l st st''"
proof -
  note f = frame_at [OF assms(1)] and g = frame_at [OF assms(2)]
  have "q \<notin> R \<and> q \<notin> R'" if "q \<notin> R''" for q using that assms(3,4) by blast
  moreover have "q \<notin> X \<and> q \<notin> X'" if "q \<notin> X''" for q using that assms(5,6) by blast
  ultimately show ?thesis unfolding frame_def using f g by simp
qed

lemma frame_set:
  assumes "ok_nodes N" "n \<in> N"
  shows "n \<in> R \<Longrightarrow> frame N R X l st (set_rsize n v st)" "n \<in> X \<Longrightarrow> frame N R X l st (set_next n v st)"
    "frame N R X l st (set_head l v st)"
  using assms by (auto simp: frame_def fields user_byte_fields)

lemma frame_links:
  "frame N R X l st st' \<Longrightarrow> set xs \<subseteq> N \<Longrightarrow> set xs \<inter> X = {} \<Longrightarrow> links (smem st') h xs = links (smem st) h xs"
  by (intro links_cong) (auto simp: frame_def)

lemma frame_listed:
  "frame N R X l st st' \<Longrightarrow> listed l' st xs \<Longrightarrow> l' \<noteq> l \<Longrightarrow> set xs \<subseteq> N \<Longrightarrow> set xs \<inter> X = {} \<Longrightarrow> listed l' st' xs"
  using frame_links [of N R X l st st' xs] by (auto simp: listed_def frame_def)

lemma desc_distinct: "desc xs \<Longrightarrow> distinct xs"
  by (induction xs) (auto simp: desc_def)

lemma desc_append: "desc (xs @ ys) \<longleftrightarrow> desc xs \<and> desc ys \<and> (\<forall>x\<in>set xs. \<forall>y\<in>set ys. unat y < unat x)"
  by (auto simp: desc_def sorted_wrt_append)

lemma desc_Cons: "desc (x # xs) \<longleftrightarrow> (\<forall>y\<in>set xs. unat y < unat x) \<and> desc xs"
  by (simp add: desc_def)

lemma desc_Nil [simp]: "desc []"
  by (simp add: desc_def)

lemmas desc_simps = desc_append desc_Cons

lemma links_suffix: "links m h (xs @ ys) \<Longrightarrow> links m (if ys = [] then 0 else hd ys) ys"
proof (induction xs arbitrary: h)
  case Nil
  then show ?case using links_hd [of m h ys] by simp
qed auto

lemma walk_node:
  assumes N: "ok_nodes N" "set (xs @ ys) \<subseteq> N" "n \<in> N" and m: "links m h (xs @ ys)"
    and ord: "\<forall>x\<in>set xs. unat n < unat x" "ys = [] \<or> unat (hd ys) \<le> unat n"
  shows "walk m (ADDR n) h p = Some (if ys = [] then 0 else hd ys, if xs = [] then p else last xs)"
proof (rule walk_links [OF m])
  show "\<forall>x\<in>set xs. sint (ADDR x) > sint (ADDR n)"
    using ord(1) N by (auto simp: ADDR_less [OF N(1)])
  show "ys = [] \<or> \<not> sint (ADDR (hd ys)) > sint (ADDR n)"
    using ord(2) N by (cases ys) (auto simp: ADDR_less [OF N(1)])
qed

lemma delete_spec:
  assumes N: "ok_nodes N" "set (xs @ n # ys) \<subseteq> N" and l: "listed l st (xs @ n # ys)"
  shows "\<exists>st'. delete l n st = Some st' \<and> listed l st' (xs @ ys) \<and> head_of l st' = (if xs = [] then nxt (smem st) n else head_of l st)
    \<and> frame N {} (if xs = [] then {} else {last xs}) l st st'"
proof -
  let ?h = "head_of l st"
  define st1 where "st1 = (if l = ALLOCATED then st\<lparr>alloc_len := alloc_len st - 1\<rparr>
                 else st\<lparr>avail_len := avail_len st - 1\<rparr>)"
  have st1: "smem st1 = smem st" "head_of l' st1 = head_of l' st" "total_mem st1 = total_mem st" 
    "len_of l st1 = len_of l st - 1" "l' \<noteq> l \<Longrightarrow> len_of l' st1 = len_of l' st" for l'
    by (cases l; cases l'; simp add: st1_def head_of_def len_of_def)+
  have ord: "desc (xs @ n # ys)" and m: "links (smem st) ?h (xs @ n # ys)"
    and len: "len_of l st = of_nat (length (xs @ n # ys))" using l by (simp_all add: listed_def)
  have w: "walk (smem st) (ADDR n) ?h ?h = Some (n, if xs = [] then ?h else last xs)"
    using walk_node [OF N _ m, of n ?h] ord N(2) by (simp add: desc_simps)
  show ?thesis
  proof (cases "xs = []")
    case True
    then have h: "?h = n" using m by simp
    let ?st = "set_head l (nxt (smem st) n) st1"
    have "delete l n st = Some ?st"
      using w True h by (simp add: delete_def Let_def st1_def [symmetric] st1)
    moreover have "listed l ?st ys"
      using m ord len True by (simp add: listed_def st1 desc_simps)
    moreover have "frame N {} {} l st ?st"
      by (auto simp: frame_def st1)
    ultimately show ?thesis using True by simp
  next
    case False
    let ?p = "last xs" 
    let ?st = "set_next ?p (nxt (smem st) n) st1"
    have p: "?p \<in> N" "?p \<noteq> n" "distinct xs"
      using False N(2) ord last_in_set [OF False] desc_distinct [OF ord] by auto
    have "delete l n st = Some ?st"
      using w False p(2) by (simp add: delete_def Let_def st1_def [symmetric] st1)
    moreover have "frame N {} {?p} l st ?st"
      using N(1) p(1) by (auto simp: frame_def st1 fields user_byte_fields)
    moreover have "links (smem ?st) ?h (xs @ ys)"
    proof (rule links_relink [OF m False p(3)])
      have "links (smem st) (nxt (smem st) n) ys" using m by (rule links_next)
      moreover have "?p \<notin> set ys" using ord last_in_set [OF False] by (auto simp: desc_simps)
      ultimately show "links (smem ?st) (nxt (smem st) n) ys"
        using frame_links [OF \<open>frame N {} {?p} l st ?st\<close>, of ys] N(2) by auto
    qed (use N p False st1 in \<open>auto simp: fields [OF N(1)]\<close>)
    then have "listed l ?st (xs @ ys)"
      using ord len by (simp add: listed_def st1 desc_simps)
    ultimately show ?thesis using False by (auto simp: st1)
  qed
qed

text \<open>Linking a node in between \<open>xs\<close> and \<open>ys\<close>, the common part of all insertions but one.\<close>

definition link_in :: "list_id \<Rightarrow> u32 \<Rightarrow> u32 \<Rightarrow> u32 \<Rightarrow> smalloc \<Rightarrow> smalloc" where
  "link_in l n c p st =
     (let st = (if l = ALLOCATED then st\<lparr>alloc_len := alloc_len st + 1\<rparr>
                    else st\<lparr>avail_len := avail_len st + 1\<rparr>);
          st = set_next n c st
      in if c = p then set_head l n st else set_next p n st)"

lemma link_in_spec:
  assumes N: "ok_nodes N" "set (xs @ n # ys) \<subseteq> N" and l: "listed l st (xs @ ys)" and ord: "desc (xs @ n # ys)"
    and c: "c = (if ys = [] then 0 else hd ys)" and p: "p = (if xs = [] then head_of l st else last xs)"
  shows "listed l (link_in l n c p st) (xs @ n # ys)" "frame N {} (Set.insert n (set xs)) l st (link_in l n c p st)"
    "c = p \<longleftrightarrow> xs = []"
proof -
  define st1 where "st1 = (if l = ALLOCATED then st\<lparr>alloc_len := alloc_len st + 1\<rparr>
                 else st\<lparr>avail_len := avail_len st + 1\<rparr>)"
  have st1: "smem st1 = smem st" "head_of l' st1 = head_of l' st" "total_mem st1 = total_mem st"
    "len_of l st1 = len_of l st + 1" "l' \<noteq> l \<Longrightarrow> len_of l' st1 = len_of l' st" for l'
    by (cases l; cases l'; simp add: st1_def head_of_def len_of_def)+
  have m: "links (smem st) (head_of l st) (xs @ ys)" and len: "len_of l st = of_nat (length (xs @ ys))"
    using l by (simp_all add: listed_def)
  have nN: "n \<in> N" "n \<noteq> 0" "n \<notin> set xs" "n \<notin> set ys" "distinct xs"
    using N ord ok_nodesD(2) desc_distinct [OF ord] by auto
  show cp: "c = p \<longleftrightarrow> xs = []"
  proof (cases "xs = []")
    case True
    then show ?thesis using links_hd [OF m] c p by simp
  next
    case False
    then have "last xs \<in> N" "last xs \<notin> set ys"
      using N last_in_set [OF False] ord by (auto simp: desc_simps)
    then show ?thesis using False c p ok_nodesD(2) [OF N(1)] by (cases ys) auto
  qed
  let ?st = "link_in l n c p st"
  have f1: "frame N {} {n} l st (set_next n c st1)"
    using N(1) nN(1) by (auto simp: frame_def st1 fields user_byte_fields)
  have tail: "links (smem (set_next n c st1)) n (n # ys)"
  proof -
    have "links (smem st) c ys" using links_suffix [OF m] c by simp
    then have "links (smem (set_next n c st1)) c ys"
      using frame_links [OF f1, of ys] N(2) nN by simp
    then show ?thesis using nN fields(9) [OF N(1) nN(1) nN(1)] by simp
  qed
  show "frame N {} (Set.insert n (set xs)) l st ?st"
  proof (cases "xs = []")
    case True
    then show ?thesis using cp f1 by (simp add: link_in_def Let_def st1_def [symmetric] frame_def)
  next
    case False
    then have "p \<in> N" "p \<in> set xs" using p N(2) last_in_set [OF False] by auto
    then have "frame N {} (Set.insert n (set xs)) l (set_next n c st1) (set_next p n (set_next n c st1))"
      using frame_set(2) [OF N(1)] by simp
    then show ?thesis
      using cp False frame_trans [OF f1] by (simp add: link_in_def Let_def st1_def [symmetric])
  qed
  show "listed l ?st (xs @ n # ys)"
  proof (cases "xs = []")
    case True
    then show ?thesis
      using cp tail ord len by (simp add: link_in_def Let_def st1_def [symmetric] listed_def st1)
  next
    case False
    then have pp: "p = last xs" "p \<in> N" "p \<in> set xs" "p \<noteq> n" "p \<notin> set ys"
      using p N(2) last_in_set [OF False] nN ord by (auto simp: desc_simps)
    let ?st2 = "set_next p n (set_next n c st1)"
    have "links (smem ?st2) (head_of l st) (xs @ n # ys)"
    proof (rule links_relink [OF m False nN(5)])
      show "links (smem ?st2) n (n # ys)"
        using frame_links [OF frame_set(2) [OF N(1) pp(2), of "{p}" "{}" l "set_next n c st1" n],
            of "n # ys" n] tail N(2) pp nN by (simp del: links.simps)
      show "nxt (smem ?st2) (last xs) = n" using fields(9) [OF N(1) pp(2,2)] pp(1) by simp
      fix x assume x: "x \<in> set xs" "x \<noteq> last xs"
      then have "x \<in> N" "x \<noteq> n" "x \<noteq> p" using N(2) nN pp(1) by auto
      then show "nxt (smem ?st2) x = nxt (smem st) x"
        using N(1) pp(2) nN(1) by (simp add: fields st1)
    qed
    then show ?thesis
      using cp False ord len by (simp add: link_in_def Let_def st1_def [symmetric] listed_def st1)
  qed
qed

subsection \<open>Insertion\<close>

text \<open>\<open>end_of m a\<close>: the address after block \<open>a\<close>, as a number.\<close>

definition end_of :: "mem \<Rightarrow> u32 \<Rightarrow> nat" where
  "end_of m a = unat a + 12 + unat (rsize m a)"

lemma ADJACENT_end_of:
  "end_of m a < 2 ^ 32 \<Longrightarrow> ADJACENT m a b \<longleftrightarrow> end_of m a = unat b"
  by (auto simp: ADJACENT_def end_of_def word_unat_eq_iff unat_word_ariths)

lemma rsize_merge:
  assumes "end_of m a + 12 + unat r < 2 ^ 32"
  shows "unat (rsize m a + (12 + r)) = unat (rsize m a) + 12 + unat r"
  using assms by (simp add: end_of_def unat_word_ariths)

text \<open>
  What \<open>insert\<close> does to the list \<open>xs @ ys\<close>, \<open>n\<close> belonging between the two: \<open>merges_down\<close> when the
  block below ends at \<open>n\<close>, \<open>merges_up\<close> when the block above starts where \<open>n\<close> ends.
\<close>

definition merges_down :: "list_id \<Rightarrow> mem \<Rightarrow> u32 \<Rightarrow> u32 list \<Rightarrow> bool" where
  "merges_down l m n ys \<longleftrightarrow> l = AVAILABLE \<and> ys \<noteq> [] \<and> end_of m (hd ys) = unat n"

definition merges_up :: "list_id \<Rightarrow> mem \<Rightarrow> u32 \<Rightarrow> u32 list \<Rightarrow> bool" where
  "merges_up l m n xs \<longleftrightarrow> l = AVAILABLE \<and> xs \<noteq> [] \<and> end_of m n = unat (last xs)"

definition inserted :: "list_id \<Rightarrow> mem \<Rightarrow> u32 list \<Rightarrow> u32 \<Rightarrow> u32 list \<Rightarrow> u32 list" where
  "inserted l m xs n ys = (if merges_up l m n xs then butlast xs else xs) @
     (if merges_down l m n ys then ys else n # ys)"

text \<open>The node that holds the block of \<open>n\<close> afterwards, and its size.\<close>

definition holder :: "list_id \<Rightarrow> mem \<Rightarrow> u32 \<Rightarrow> u32 list \<Rightarrow> u32" where
  "holder l m n ys = (if merges_down l m n ys then hd ys else n)"

definition held :: "list_id \<Rightarrow> mem \<Rightarrow> u32 list \<Rightarrow> u32 \<Rightarrow> u32 list \<Rightarrow> nat" where
  "held l m xs n ys = (if merges_up l m n xs then end_of m (last xs) else end_of m n) -
     unat (holder l m n ys) - 12"

lemma insert_node_cases:
  assumes "walk (smem st) (ADDR n) (head_of l st) (head_of l st) = Some (c, p)"
  shows "insert_node l n st =
    (if l = AVAILABLE \<and> head_of l st \<noteq> 0 \<and> c \<noteq> 0 \<and> ADJACENT (smem st) c n then
       (let st = set_rsize c (rsize (smem st) c + (12 + rsize (smem st) n)) st
        in if ADJACENT (smem st) c p
           then map_option (\<lambda>st. set_rsize c (rsize (smem st) c + (12 + rsize (smem st) p)) st)
                  (delete AVAILABLE p st)
           else Some st)
     else
       (let st' = link_in l n c p st
        in if c \<noteq> p \<and> l = AVAILABLE \<and> head_of l st' \<noteq> 0 \<and> ADJACENT (smem st') n p
           then map_option (\<lambda>st. set_rsize n (rsize (smem st) n + (12 + rsize (smem st) p)) st)
                  (delete AVAILABLE p st')
           else Some st'))"
proof (cases "c = p")
  case True
  show ?thesis unfolding insert_node_def assms link_in_def Let_def
    by (simp only: bind.bind_lunit prod.case True simp_thms if_True if_False cong: if_cong)
next
  case False
  then show ?thesis unfolding insert_node_def assms link_in_def Let_def
    by (simp only: bind.bind_lunit prod.case False simp_thms if_False if_True not_False_eq_True cong: if_cong)
qed

text \<open>\<open>apart N m\<close>: the blocks at \<open>N\<close> do not overlap and end in the lower half of the address space.\<close>

definition apart :: "u32 set \<Rightarrow> mem \<Rightarrow> bool" where
  "apart N m \<longleftrightarrow> (\<forall>a\<in>N. end_of m a < 2 ^ 31 \<and> (\<forall>b\<in>N. unat a < unat b \<longrightarrow> end_of m a \<le> unat b))"

lemma apartD:
  "apart N m \<Longrightarrow> a \<in> N \<Longrightarrow> end_of m a < 2 ^ 31"
  "apart N m \<Longrightarrow> a \<in> N \<Longrightarrow> b \<in> N \<Longrightarrow> unat a < unat b \<Longrightarrow> end_of m a \<le> unat b"
  by (auto simp: apart_def)

lemma end_of_ge: "unat a + 12 \<le> end_of m a"
  by (simp add: end_of_def)

lemma end_of_cong: "rsize m' a = rsize m a \<Longrightarrow> end_of m' a = end_of m a"
  by (simp add: end_of_def)

lemma set_rsize_listed:
  assumes "ok_nodes N" "a \<in> N" "set xs \<subseteq> N"
  shows "listed l (set_rsize a v st) xs = listed l st xs"
proof -
  have "links (smem (set_rsize a v st)) h xs = links (smem st) h xs" for h
    using assms by (intro links_cong) (auto simp: fields)
  then show ?thesis by (simp add: listed_def)
qed

lemma end_of_set_rsize:
  assumes "ok_nodes N" "a \<in> N" "unat v = e - unat a - 12" "unat a + 12 \<le> e"
  shows "end_of (smem (set_rsize a v st)) a = e"
  using assms by (simp add: end_of_def fields)

text \<open>The down-merge: the block \<open>c\<close> below swallows \<open>n\<close>, then perhaps the block \<open>p\<close> above.\<close>

lemma delete_above_spec:
  assumes N: "ok_nodes N" "set (xs @ zs) \<subseteq> N" "h \<in> N" and l: "listed AVAILABLE st (xs @ zs)"
    and xs: "xs \<noteq> []" "h \<notin> set xs"
    and e: "end_of (smem st) h = unat (last xs)" "end_of (smem st) (last xs) < 2 ^ 31"
  shows "\<exists>st'. map_option (\<lambda>st. set_rsize h (rsize (smem st) h + (12 + rsize (smem st) (last xs))) st)
      (delete AVAILABLE (last xs) st) = Some st' \<and> listed AVAILABLE st' (butlast xs @ zs) \<and>
     end_of (smem st') h = end_of (smem st) (last xs) \<and> frame N {h} (set xs) AVAILABLE st st'"
proof -
  let ?p = "last xs"
  have eq: "xs @ zs = butlast xs @ ?p # zs" using xs by simp
  obtain st1 where st1: "delete AVAILABLE ?p st = Some st1" "listed AVAILABLE st1 (butlast xs @ zs)"
    "frame N {} (if butlast xs = [] then {} else {last (butlast xs)}) AVAILABLE st st1"
    using delete_spec [of N "butlast xs" ?p zs AVAILABLE st] N(1,2) l unfolding eq by auto
  have "(if butlast xs = [] then {} else {last (butlast xs)}) \<subseteq> set xs"
    using in_set_butlastD [of "last (butlast xs)" xs] by (cases "butlast xs = []") auto
  then have f1: "frame N {} (set xs) AVAILABLE st st1"
    using st1(3) by (rule_tac frame_trans [OF st1(3) frame_refl [of N "{}" "{}"]]) auto
  have sub: "set (butlast xs @ zs) \<subseteq> N" using N(2) by (auto dest: in_set_butlastD)
  have pN: "?p \<in> N" using N(2) last_in_set [OF xs(1)] by auto
  have r: "rsize (smem st1) h = rsize (smem st) h" "rsize (smem st1) ?p = rsize (smem st) ?p"
    using frame_at(1) [OF f1] N(3) pN by auto
  define st2 where "st2 = set_rsize h (rsize (smem st1) h + (12 + rsize (smem st1) ?p)) st1"
  have "unat (rsize (smem st) h + (12 + rsize (smem st) ?p)) = unat (rsize (smem st) h) + 12 + unat (rsize (smem st) ?p)"
    using e by (intro rsize_merge) (simp add: end_of_def)
  then have "end_of (smem st2) h = end_of (smem st) ?p"
    using e r fields(1) [OF N(1,3,3)] by (simp add: st2_def end_of_def)
  moreover have "listed AVAILABLE st2 (butlast xs @ zs)"
    using st1(2) set_rsize_listed [OF N(1,3) sub] by (simp add: st2_def)
  moreover have "frame N {h} (set xs) AVAILABLE st st2"
    unfolding st2_def by (rule frame_trans [OF f1 frame_set(1) [OF N(1,3), of "{h}" "{}"]]) auto
  ultimately show ?thesis using st1(1) by (auto simp: st2_def)
qed

lemma insert_spec:
  assumes N: "ok_nodes N" "set (xs @ n # ys) \<subseteq> N" "apart N (smem st)"
    and l: "listed l st (xs @ ys)" and ord: "desc (xs @ n # ys)"
  shows "\<exists>st'. insert_node l n st = Some st' \<and> listed l st' (inserted l (smem st) xs n ys) \<and>
     end_of (smem st') (holder l (smem st) n ys) =
       (if merges_up l (smem st) n xs then end_of (smem st) (last xs) else end_of (smem st) n) \<and>
     frame N (if l = AVAILABLE then {holder l (smem st) n ys} else {}) (Set.insert n (set xs)) l st st'"
proof -
  let ?m = "smem st"
  let ?c = "if ys = [] then 0 else hd ys" and ?p = "if xs = [] then head_of l st else last xs"
  have nN: "n \<in> N" "set xs \<subseteq> N" "set ys \<subseteq> N" using N(2) by auto
  have m: "links ?m (head_of l st) (xs @ ys)" using l by (simp add: listed_def)
  have w: "walk ?m (ADDR n) (head_of l st) (head_of l st) = Some (?c, ?p)"
    using ord by (intro walk_node [OF N(1) _ nN(1) m]) (use N(2) in \<open>cases ys; auto simp: desc_simps less_imp_le\<close>)+
  have adj: "ADJACENT ?m a b \<longleftrightarrow> end_of ?m a = unat b" if "a \<in> N" for a b
    using apartD(1) [OF N(3) that] by (simp add: ADJACENT_end_of)
  note li = link_in_spec [OF N(1,2) l ord refl refl]
  note ins = insert_node_cases [OF w]
  show ?thesis
  proof (cases "merges_down l ?m n ys")
    case True
    then have d: "l = AVAILABLE" "ys \<noteq> []" "end_of ?m (hd ys) = unat n" by (auto simp: merges_down_def)
    let ?h = "hd ys"
    have h: "?h \<in> N" "?h \<in> set ys" "?h \<noteq> 0" "?h \<notin> set xs" 
      using d(2) nN ok_nodesD(2) [OF N(1)] desc_distinct [OF ord] by (auto simp: subset_iff)
    define st1 where "st1 = set_rsize ?h (rsize ?m ?h + (12 + rsize ?m n)) st"
    have "unat (rsize ?m ?h + (12 + rsize ?m n)) = unat (rsize ?m ?h) + 12 + unat (rsize ?m n)"
      using d(3) apartD(1) [OF N(3) nN(1)] by (intro rsize_merge) (simp add: end_of_def)
    then have e1: "end_of (smem st1) ?h = end_of ?m n"
      using d(3) fields(1) [OF N(1) h(1,1)] by (simp add: st1_def end_of_def)
    have l1: "listed AVAILABLE st1 (xs @ ys)"
      using l d(1) nN by (simp add: st1_def set_rsize_listed [OF N(1) h(1)])
    have f1: "frame N {?h} {} AVAILABLE st st1"
      unfolding st1_def by (rule frame_set(1) [OF N(1) h(1)]) simp
    have head: "head_of l st \<noteq> 0" using m d(2) h ok_nodesD(2) [OF N(1)] nN by (cases xs; cases ys) auto
    have adj1: "ADJACENT (smem st1) ?h q \<longleftrightarrow> end_of ?m n = unat q" for q
      using e1 apartD(1) [OF N(3) nN(1)] by (simp add: ADJACENT_end_of)
    have i1: "insert_node l n st = (if ADJACENT (smem st1) ?h ?p
           then map_option (\<lambda>st. set_rsize ?h (rsize (smem st) ?h + (12 + rsize (smem st) ?p)) st)
                  (delete AVAILABLE ?p st1)
           else Some st1)"
      unfolding ins st1_def using d adj [OF h(1)] h(3) head by (simp add: Let_def)
    show ?thesis
    proof (cases "merges_up l ?m n xs")
      case up: True
      then have u: "xs \<noteq> []" "end_of ?m n = unat (last xs)" by (auto simp: merges_up_def)
      have lx: "last xs \<in> N" "last xs \<noteq> ?h" using u(1) nN(2) h(4) last_in_set by fastforce+
      have e2: "end_of (smem st1) (last xs) = end_of ?m (last xs)"
        using frame_at(1) [OF f1 lx(1)] lx(2) by (simp add: end_of_def)
      obtain st2 where "insert_node l n st = Some st2" "listed AVAILABLE st2 (butlast xs @ ys)"
        "end_of (smem st2) ?h = end_of ?m (last xs)" "frame N {?h} (set xs) AVAILABLE st1 st2"
        using delete_above_spec [OF N(1) _ h(1) l1 u(1) h(4)] e1 e2 u nN apartD(1) [OF N(3) lx(1)] i1 adj1
        by auto
      moreover have "frame N {?h} (Set.insert n (set xs)) AVAILABLE st st2"
        by (rule frame_trans [OF f1 \<open>frame N {?h} (set xs) AVAILABLE st1 st2\<close>]) auto
      ultimately show ?thesis using True up d(1) by (simp add: inserted_def holder_def)
    next
      case up: False
      have "end_of ?m n \<noteq> unat ?p"
      proof (cases "xs = []")
        case True
        then have "?p = ?h" using m d(2) by (cases ys) auto
        then have "unat ?p < unat n" using d(3) end_of_ge [of ?h ?m] by simp
        then show ?thesis using end_of_ge [of n ?m] by simp
      next
        case False
        then show ?thesis using up d(1) by (simp add: merges_up_def)
      qed
      then have "insert_node l n st = Some st1" using i1 adj1 by simp
      moreover have "frame N {?h} (Set.insert n (set xs)) AVAILABLE st st1"
        by (rule frame_trans [OF f1 frame_refl]) auto
      ultimately show ?thesis using True up d(1) l1 e1 by (simp add: inserted_def holder_def)
    qed
  next
    case False
    let ?st' = "link_in l n ?c ?p st"
    have nd: "\<not> (l = AVAILABLE \<and> head_of l st \<noteq> 0 \<and> ?c \<noteq> 0 \<and> ADJACENT ?m ?c n)"
      using False adj nN by (auto simp: merges_down_def hd_in_set subset_iff)
    have rs: "rsize (smem ?st') q = rsize ?m q" if "q \<in> N" for q
      using frame_at(1) [OF li(2) that] by simp
    have adj': "ADJACENT (smem ?st') n q \<longleftrightarrow> end_of ?m n = unat q" for q
      using adj [OF nN(1)] rs [OF nN(1)] by (simp add: ADJACENT_def)
    have head: "head_of l ?st' \<noteq> 0"
      using li(1) nN ok_nodesD(2) [OF N(1)] by (cases xs) (auto simp: listed_def)
    show ?thesis
    proof (cases "merges_up l ?m n xs")
      case up: True
      then have u: "l = AVAILABLE" "xs \<noteq> []" "end_of ?m n = unat (last xs)" by (auto simp: merges_up_def)
      have lx: "last xs \<in> N" using u(2) nN(2) last_in_set by fastforce
      have e': "end_of (smem ?st') q = end_of ?m q" if "q \<in> N" for q using rs [OF that] by (simp add: end_of_def)
      have l': "listed AVAILABLE ?st' (xs @ n # ys)" using li(1) u(1) by simp
      have nx: "n \<notin> set xs" using desc_distinct [OF ord] by simp
      obtain st2 where st2: "insert_node l n st = Some st2" "listed AVAILABLE st2 (butlast xs @ n # ys)"
        "end_of (smem st2) n = end_of ?m (last xs)" "frame N {n} (set xs) AVAILABLE ?st' st2"
        using delete_above_spec [OF N(1) _ nN(1) l' u(2) nx] N(2) e' [OF lx] e' [OF nN(1)] u
          apartD(1) [OF N(3) lx] ins nd li(3) head adj' by (auto simp: Let_def)
      moreover have "frame N {n} (Set.insert n (set xs)) AVAILABLE st st2"
        using frame_trans [OF li(2)] st2(4) u(1) by blast
      ultimately show ?thesis using False up u(1) by (simp add: inserted_def holder_def)
    next
      case up: False
      then have "insert_node l n st = Some ?st'"
        using ins nd li(3) adj' by (auto simp: merges_up_def Let_def)
      moreover have "frame N (if l = AVAILABLE then {n} else {}) (Set.insert n (set xs)) l st ?st'"
        by (rule frame_trans [OF li(2) frame_refl]) auto
      moreover have "end_of (smem ?st') n = end_of ?m n" using rs [OF nN(1)] by (simp add: end_of_def)
      moreover have "listed l ?st' (inserted l ?m xs n ys)" using False up li(1) by (simp add: inserted_def)
      moreover have "holder l ?m n ys = n" using False by (simp add: holder_def)
      ultimately show ?thesis using up by metis
    qed
  qed
qed

end
