(* ===== verification/Allocator.thy ===== *)
theory Allocator
  imports Prelude
begin

text \<open>
  The contract between the allocator and its clients (\<open>realloc\<close>, \<open>calloc\<close>, \<open>strdup\<close>, the file
  layer): what \<open>malloc\<close> and \<open>free\<close> promise about the live blocks, and what a client may do with a
  block it holds.  \<open>SmallocInv\<close> discharges it for libs/src/libc/smalloc.c, \<open>HeapClients\<close> uses it.
\<close>

text \<open>
  \<open>ok L st\<close>: the heap is consistent and its live blocks are those of \<open>L\<close>, a map from the address
  that \<open>malloc\<close> returned to the number of bytes the block holds.  \<open>safe L k\<close>: the byte \<open>k\<close> lies in a
  live block, or outside the pool.
\<close>

locale allocator =
  fixes alloc :: "u32 \<Rightarrow> 's \<Rightarrow> ('s \<times> u32) option"
    and release :: "u32 \<Rightarrow> 's \<Rightarrow> 's option"
    and bytes :: "'s \<Rightarrow> mem"
    and with_bytes :: "mem \<Rightarrow> 's \<Rightarrow> 's"
    and ok :: "(u32 \<rightharpoonup> nat) \<Rightarrow> 's \<Rightarrow> bool"
    and outside :: "u32 set"
  assumes alloc_cases: "ok L st \<Longrightarrow> alloc sz st = Some (st, 0) \<or>
      (\<exists>st' p n. alloc sz st = Some (st', p) \<and> L p = None \<and> unat sz \<le> n \<and> ok (L(p \<mapsto> n)) st' \<and>
        (\<forall>k. k \<in> outside \<or> (\<exists>q j. L q = Some j \<and> in_block q j k) \<longrightarrow> bytes st' k = bytes st k))"
    and release_live: "ok L st \<Longrightarrow> L p = Some n \<Longrightarrow>
      \<exists>st'. release p st = Some st' \<and> ok (L(p := None)) st' \<and>
        (\<forall>k. k \<in> outside \<or> (\<exists>q j. q \<noteq> p \<and> L q = Some j \<and> in_block q j k) \<longrightarrow> bytes st' k = bytes st k)"
    and release_other: "ok L st \<Longrightarrow> L p = None \<Longrightarrow> release p st = Some st"
    and block: "ok L st \<Longrightarrow> L p = Some n \<Longrightarrow> aligned4 p \<and> p \<noteq> 0 \<and> unat p + n < 2 ^ 31 \<and> 4 dvd n"
    and apart: "ok L st \<Longrightarrow> L p = Some i \<Longrightarrow> L q = Some j \<Longrightarrow> p \<noteq> q \<Longrightarrow> in_block p i k \<Longrightarrow> \<not> in_block q j k"
    and pool: "ok L st \<Longrightarrow> L p = Some n \<Longrightarrow> in_block p n k \<Longrightarrow> k \<notin> outside"
    and overwrite: "ok L st \<Longrightarrow> (\<forall>k. m k \<noteq> bytes st k \<longrightarrow> k \<in> outside \<or> (\<exists>q j. L q = Some j \<and> in_block q j k)) \<Longrightarrow>
      ok L (with_bytes m st)"
    and bytes_with: "bytes (with_bytes m st) = m"
begin

definition safe :: "(u32 \<rightharpoonup> nat) \<Rightarrow> u32 \<Rightarrow> bool" where
  "safe L k \<longleftrightarrow> k \<in> outside \<or> (\<exists>q j. L q = Some j \<and> in_block q j k)"

lemma fill: "ok L st \<Longrightarrow> L p = Some n \<Longrightarrow> (\<forall>k. \<not> in_block p n k \<longrightarrow> m k = bytes st k) \<Longrightarrow> ok L (with_bytes m st)"
  by (rule overwrite) auto

lemma overwrite_safe: "ok L st \<Longrightarrow> (\<And>k. m k \<noteq> bytes st k \<Longrightarrow> safe L k) \<Longrightarrow> ok L (with_bytes m st)"
  by (rule overwrite) (auto simp: safe_def)

text \<open>The bytes of a client are not those of a block it does not know.\<close>

lemma safe_apart:
  assumes "ok (L(p \<mapsto> n)) st" "L p = None" "safe L k"
  shows "\<not> in_block p n k"
  using assms(3) unfolding safe_def
proof (elim disjE exE conjE)
  assume "k \<in> outside"
  then show ?thesis using pool [OF assms(1), of p n k] by auto
next
  fix q j assume q: "L q = Some j" "in_block q j k"
  then have "q \<noteq> p" using assms(2) by auto
  then show ?thesis using apart [OF assms(1), of q j p n k] q by auto
qed

lemma safe_upd: "L p = None \<Longrightarrow> safe L k \<Longrightarrow> safe (L(p \<mapsto> n)) k"
  unfolding safe_def by (metis fun_upd_other option.distinct(1))

lemma alloc_total: "ok L st \<Longrightarrow> \<exists>st' p. alloc sz st = Some (st', p)"
  using alloc_cases by blast

lemma alloc_null: "ok L st \<Longrightarrow> alloc sz st = Some (st', 0) \<Longrightarrow> st' = st"
  using alloc_cases [of L st sz] block [of "L(0 \<mapsto> n)" st' 0 n for n] by fastforce

lemma alloc_fresh:
  assumes "ok L st" "alloc sz st = Some (st', p)" "p \<noteq> 0"
  obtains n where "L p = None" "unat sz \<le> n" "ok (L(p \<mapsto> n)) st'" "\<And>k. safe L k \<Longrightarrow> bytes st' k = bytes st k"
    "\<And>k. safe L k \<Longrightarrow> \<not> in_block p n k"
proof -
  obtain n where n: "L p = None" "unat sz \<le> n" "ok (L(p \<mapsto> n)) st'" "\<And>k. safe L k \<Longrightarrow> bytes st' k = bytes st k"
    using alloc_cases [OF assms(1), of sz] assms(2,3) by (auto simp: safe_def)
  have "\<not> in_block p n k" if "safe L k" for k
    by (rule safe_apart [OF n(3,1) that])
  with n show thesis by (rule that)
qed

text \<open>A client that writes only its new block keeps the heap consistent and every other byte.\<close>

lemma alloc_fill:
  assumes "ok L st" "alloc sz st = Some (st', p)" "p \<noteq> 0" "\<And>k. \<not> in_block p (unat sz) k \<Longrightarrow> m k = bytes st' k"
  obtains n where "L p = None" "unat sz \<le> n" "ok (L(p \<mapsto> n)) (with_bytes m st')" "\<And>k. safe L k \<Longrightarrow> m k = bytes st k"
proof -
  obtain n where n: "L p = None" "unat sz \<le> n" "ok (L(p \<mapsto> n)) st'" "\<And>k. safe L k \<Longrightarrow> bytes st' k = bytes st k"
    "\<And>k. safe L k \<Longrightarrow> \<not> in_block p n k"
    using alloc_fresh [OF assms(1-3)] by blast
  have out: "\<not> in_block p (unat sz) k" if "\<not> in_block p n k" for k
    using that n(2) by (simp add: in_block_def)
  have "ok (L(p \<mapsto> n)) (with_bytes m st')"
    using fill [OF n(3), of p n m] assms(4) out by simp
  moreover have "m k = bytes st k" if "safe L k" for k
    using assms(4) [OF out [OF n(5) [OF that]]] n(4) [OF that] by simp
  ultimately show thesis using that n(1,2) by blast
qed

text \<open>Allocating and releasing again gives back the same set of live blocks.\<close>

lemma release_alloc:
  assumes "ok L st" "alloc sz st = Some (st', p)" "p \<noteq> 0"
  shows "\<exists>st''. release p st' = Some st'' \<and> ok L st'' \<and> (\<forall>k. safe L k \<longrightarrow> bytes st'' k = bytes st k)"
proof -
  obtain n where n: "L p = None" and "unat sz \<le> n" and n2: "ok (L(p \<mapsto> n)) st'"
    and n3: "\<And>k. safe L k \<Longrightarrow> bytes st' k = bytes st k" and "\<And>k. safe L k \<Longrightarrow> \<not> in_block p n k"
    by (rule alloc_fresh [OF assms]) (rule that)
  have eq: "(L(p \<mapsto> n))(p := None) = L" using n by (simp add: fun_upd_idem)
  obtain st'' where st'': "release p st' = Some st''" "ok L st''"
    "\<And>k. k \<in> outside \<or> (\<exists>q j. q \<noteq> p \<and> (L(p \<mapsto> n)) q = Some j \<and> in_block q j k) \<Longrightarrow> bytes st'' k = bytes st' k"
    using release_live [OF n2, of p n] unfolding eq by auto
  have "bytes st'' k = bytes st' k" if "safe L k" for k
    using that n unfolding safe_def
    by (intro st''(3)) (metis fun_upd_other option.distinct(1))
  with n3 st'' show ?thesis by auto
qed

end

end
