(* ===== verification/SmallocInv.thy ===== *)
theory SmallocInv
  imports SmallocLists Allocator
begin

text \<open>
  The heap invariant of libs/src/libc/smalloc.c (\<open>heap_ok\<close>): the free and the allocated blocks tile
  the pool, no two free blocks are adjacent, the lists and counters describe them.  \<open>malloc\<close> and
  \<open>free\<close> keep it, and the allocator contract is interpreted on them.
\<close>

unbundle bit_operations_syntax

subsection \<open>Tilings of the pool\<close>

text \<open>
  \<open>tiled lo hi e N\<close>: the blocks that start at the addresses \<open>N\<close> and end at \<open>e\<close> tile the pool from
  \<open>lo\<close> to \<open>hi\<close> without gap or overlap, each with room for its header, all word-aligned.
\<close>

definition tiled :: "u32 \<Rightarrow> nat \<Rightarrow> (u32 \<Rightarrow> nat) \<Rightarrow> u32 set \<Rightarrow> bool" where
  "tiled lo hi e N \<longleftrightarrow> lo \<noteq> 0 \<and> hi < 2 ^ 31 \<and> lo \<in> N \<and>
     (\<forall>a\<in>N. unat lo \<le> unat a \<and> unat a + 12 \<le> e a \<and> e a \<le> hi \<and> 4 dvd unat a \<and> 4 dvd e a \<and>
        (e a = hi \<or> (\<exists>b\<in>N. e a = unat b)) \<and> (\<forall>b\<in>N. unat a < unat b \<longrightarrow> e a \<le> unat b))"

lemma tiledD:
  assumes "tiled lo hi e N" "a \<in> N"
  shows "unat lo \<le> unat a" "unat a + 12 \<le> e a" "e a \<le> hi" "4 dvd unat a" "4 dvd e a"
    "e a = hi \<or> (\<exists>b\<in>N. e a = unat b)" "b \<in> N \<Longrightarrow> unat a < unat b \<Longrightarrow> e a \<le> unat b" "hi < 2 ^ 31" "lo \<noteq> 0"
  using assms by (auto simp: tiled_def)

lemma tiled_cong: "(\<And>a. a \<in> N \<Longrightarrow> e' a = e a) \<Longrightarrow> tiled lo hi e' N = tiled lo hi e N"
  unfolding tiled_def by (intro arg_cong2 [where f = conj] refl ball_cong) simp_all

text \<open>No two blocks end at the same place, so each has one block above it.\<close>

lemma tiled_inj:
  assumes "tiled lo hi e N" "a \<in> N" "b \<in> N" "e a = e b"
  shows "a = b"
proof (rule ccontr)
  assume "a \<noteq> b"
  then consider "unat a < unat b" | "unat b < unat a" by (metis word_unat_eq_iff linorder_neqE_nat)
  then show False
    using tiledD(7) [OF assms(1,2,3)] tiledD(7) [OF assms(1,3,2)] tiledD(2) [OF assms(1,2)]
      tiledD(2) [OF assms(1,3)] assms(4) by cases auto
qed

lemma tiled_merge:
  assumes t: "tiled lo hi e N" and a: "a \<in> N" "b \<in> N" "e a = unat b"
  shows "tiled lo hi (e(a := e b)) (N - {b})"
proof -
  note A = tiledD [OF t a(1)] and B = tiledD [OF t a(2)]
  have ab: "unat a < unat b" "a \<noteq> b" using A(2) a(3) by auto
  have "lo \<noteq> b" "lo \<in> N" using A(1) ab t by (auto simp: tiled_def)
  moreover have "(if c = a then e b else e c) = hi \<or> (\<exists>d\<in>N - {b}. (if c = a then e b else e c) = unat d)" if "c \<in> N - {b}" for c
  proof (cases "c = a")
    case True
    then show ?thesis using B(2,6) by auto
  next
    case False
    then have "e c \<noteq> unat b" using tiled_inj [OF t, of c a] that a by auto
    then show ?thesis using tiledD(6) [OF t, of c] that False by auto
  qed
  moreover have "e b \<le> unat d" if "d \<in> N - {b}" "unat a < unat d" for d
  proof -
    have "unat b \<le> unat d" using A(7) [of d] that a(3) by simp
    moreover have "unat b \<noteq> unat d" using that(1) by (simp add: word_unat_eq_iff)
    ultimately show ?thesis using B(7) [of d] that(1) by simp
  qed
  ultimately show ?thesis
    using t A B a ab unfolding tiled_def by auto
qed

lemma tiled_split:
  assumes t: "tiled lo hi e N" and b: "b \<in> N" and n: "unat b + 12 \<le> unat n" "unat n + 12 \<le> e b" "4 dvd unat n"
  shows "tiled lo hi (e(b := unat n, n := e b)) (Set.insert n N)" "n \<notin> N"
proof -
  note B = tiledD [OF t b]
  show nN: "n \<notin> N"
    using B(7) [of n] n by auto
  then have nb: "n \<noteq> b" using b by auto
  let ?e = "e(b := unat n, n := e b)"
  have above: "e c \<le> unat n" if "c \<in> N" "c \<noteq> b" "unat c < unat n" for c
  proof -
    have "\<not> unat b < unat c" using B(7) [of c] n that by auto
    then have "unat c < unat b" using that(2) by (metis word_unat_eq_iff linorder_neqE_nat)
    then show ?thesis using tiledD(7) [OF t that(1) b] n(1) by simp
  qed
  have below: "unat n < unat c \<Longrightarrow> c \<in> N \<Longrightarrow> e b \<le> unat c" for c
    using B(7) [of c] n(1) by simp
  have 1: "?e c = hi \<or> (\<exists>d\<in>Set.insert n N. ?e c = unat d)" if "c \<in> Set.insert n N" for c
    using that B(6) tiledD(6) [OF t, of c] nb by (cases "c = n"; cases "c = b") auto
  have 2: "?e c \<le> unat d" if "c \<in> Set.insert n N" "d \<in> Set.insert n N" "unat c < unat d" for c d
    using that above below tiledD(7) [OF t, of c d] n nb by (cases "c = n"; cases "c = b"; cases "d = n") auto
  have 3: "unat lo \<le> unat c \<and> unat c + 12 \<le> ?e c \<and> ?e c \<le> hi \<and> 4 dvd unat c \<and> 4 dvd ?e c" if "c \<in> Set.insert n N" for c
    using that B n tiledD [OF t, of c] nb by (cases "c = n"; cases "c = b") auto
  show "tiled lo hi ?e (Set.insert n N)"
    using t unfolding tiled_def by (intro conjI ballI impI) (use 1 2 3 in \<open>blast+\<close>)
qed

lemma tiled_ok_nodes:
  assumes t: "tiled lo hi e N"
  shows "ok_nodes N"
  unfolding ok_nodes_def
proof (intro ballI conjI impI)
  fix a assume a: "a \<in> N"
  show "aligned4 a" "a \<noteq> 0" "unat a + 12 < 2 ^ 31"
    using tiledD(1-4,8) [OF t a] tiledD(9) [OF t a] by (auto simp: aligned4_unat simp flip: unat_eq_0)
  fix b assume b: "b \<in> N" "a \<noteq> b"
  then consider "unat a < unat b" | "unat b < unat a" by (metis word_unat_eq_iff linorder_neqE_nat)
  then show "unat a + 12 \<le> unat b \<or> unat b + 12 \<le> unat a"
    using tiledD(7) [OF t a b(1)] tiledD(7) [OF t b(1) a] tiledD(2) [OF t a] tiledD(2) [OF t b(1)] by cases auto
qed

lemma tiled_apart: "tiled lo hi (end_of m) N \<Longrightarrow> apart N m"
  unfolding apart_def using tiledD(3,7,8) [of lo hi "end_of m" N] by (meson le_less_trans)

text \<open>The addresses that the blocks of a list cover: what is free, as a set.\<close>

definition space :: "(u32 \<Rightarrow> nat) \<Rightarrow> u32 set \<Rightarrow> nat set" where
  "space e F = (\<Union>a\<in>F. {unat a..<e a})"

lemma space_cong: "(\<And>a. a \<in> F \<Longrightarrow> e' a = e a) \<Longrightarrow> space e' F = space e F"
  by (simp add: space_def)

lemma space_merge:
  assumes "tiled lo hi e N" "F \<subseteq> N" "a \<in> F" "b \<in> F" "e a = unat b"
  shows "space (e(a := e b)) (F - {b}) = space e F"
proof -
  have "unat a + 12 \<le> e a" "unat b + 12 \<le> e b" using assms(2-4) tiledD(2) [OF assms(1)] by blast+
  then have "{unat a..<e b} = {unat a..<e a} \<union> {unat b..<e b}" "a \<noteq> b" using assms(5) by auto
  moreover have "space (e(a := e b)) (F - {a, b}) = space e (F - {a, b})" by (rule space_cong) auto
  moreover have "F - {b} = Set.insert a (F - {a, b})" "F = Set.insert a (Set.insert b (F - {a, b}))"
    using assms(3,4) calculation(2) by auto
  moreover have "space f (Set.insert c G) = {unat c..<f c} \<union> space f G" for f c G by (simp add: space_def)
  ultimately show ?thesis by (metis Un_assoc fun_upd_same)
qed

definition coalesced :: "(u32 \<Rightarrow> nat) \<Rightarrow> u32 set \<Rightarrow> bool" where
  "coalesced e F \<longleftrightarrow> (\<forall>a\<in>F. \<forall>b\<in>F. e a \<noteq> unat b)"

lemma set_butlast: "distinct xs \<Longrightarrow> xs \<noteq> [] \<Longrightarrow> set (butlast xs) = set xs - {last xs}"
  by (cases xs rule: rev_cases) auto

text \<open>A block that goes onto the free list touches only its two neighbours there.\<close>

lemma merges_iff:
  assumes t: "tiled lo hi (end_of m) N" and N: "set (xs @ n # ys) \<subseteq> N" and ord: "desc (xs @ n # ys)"
  shows "b \<in> set (xs @ ys) \<Longrightarrow> end_of m n = unat b \<Longrightarrow> merges_up AVAILABLE m n xs \<and> b = last xs"
    "a \<in> set (xs @ ys) \<Longrightarrow> end_of m a = unat n \<Longrightarrow> merges_down AVAILABLE m n ys \<and> a = hd ys"
proof -
  note nN = subsetD [OF N]
  {
    assume b: "b \<in> set (xs @ ys)" "end_of m n = unat b"
    then have "unat n < unat b" using end_of_ge [of n m] by simp
    then have bx: "b \<in> set xs" using b(1) ord by (auto simp: desc_simps)
    have "b = last xs"
    proof (rule ccontr)
      assume "b \<noteq> last xs"
      then have "unat (last xs) < unat b" "last xs \<in> set xs"
        using bx ord by (cases xs rule: rev_cases; auto simp: desc_simps)+
      moreover have "unat n < unat (last xs)" using ord \<open>last xs \<in> set xs\<close> by (auto simp: desc_simps)
      ultimately show False
        using tiledD(7) [OF t, of n "last xs"] nN b(2) by auto
    qed
    then show "merges_up AVAILABLE m n xs \<and> b = last xs" using bx b(2) by (auto simp: merges_up_def)
  next
    assume a: "a \<in> set (xs @ ys)" "end_of m a = unat n"
    then have "unat a < unat n" using end_of_ge [of a m] by simp
    then have ay: "a \<in> set ys" using a(1) ord by (auto simp: desc_simps)
    have "a = hd ys"
    proof (rule ccontr)
      assume "a \<noteq> hd ys"
      then have "unat a < unat (hd ys)" "hd ys \<in> set ys"
        using ay ord by (cases ys; auto simp: desc_simps)+
      moreover have "unat (hd ys) < unat n" using ord \<open>hd ys \<in> set ys\<close> by (auto simp: desc_simps)
      ultimately show False
        using tiledD(7) [OF t, of a "hd ys"] nN a(2) ay by auto
    qed
    then show "merges_down AVAILABLE m n ys \<and> a = hd ys" using ay a(2) by (auto simp: merges_down_def)
  }
qed

text \<open>The tiling, the free space and coalescing after \<open>insert\<close> on the free list.\<close>

lemma inserted_tiled:
  fixes m xs n ys
  defines "e \<equiv> end_of m" and "F \<equiv> set (xs @ n # ys)" and "F' \<equiv> set (inserted AVAILABLE m xs n ys)"
    and "h \<equiv> holder AVAILABLE m n ys"
  assumes t: "tiled lo hi e N" and N: "F \<subseteq> N" and ord: "desc (xs @ n # ys)"
    and co: "coalesced e (set (xs @ ys))"
    and e': "e' h = (if merges_up AVAILABLE m n xs then e (last xs) else e n)"
      "\<And>q. q \<in> N \<Longrightarrow> q \<noteq> h \<Longrightarrow> e' q = e q"
  shows "tiled lo hi e' (N - (F - F'))" "space e' F' = space e F" "h \<in> F'" "F' \<subseteq> F" "coalesced e' F'"
proof -
  note M = merges_iff [OF t [unfolded e_def] N [unfolded F_def] ord]
  have dist: "distinct (xs @ n # ys)" using ord by (rule desc_distinct)
  have self: "e q \<noteq> unat q" for q using end_of_ge [of q m] by (simp add: e_def)
  have big: "unat n < e (last xs)" if "xs \<noteq> []"
    using end_of_ge [of "last xs" m] last_in_set [OF that] ord by (fastforce simp: desc_simps e_def)
  have "tiled lo hi e' (N - (F - F')) \<and> space e' F' = space e F \<and> h \<in> F' \<and> F' \<subseteq> F"
  proof (cases "merges_down AVAILABLE m n ys")
    case down: True
    then have d: "hd ys \<in> set ys" "e (hd ys) = unat n" "h = hd ys" by (auto simp: merges_down_def e_def h_def holder_def)
    have n: "n \<in> N" "hd ys \<in> N" "n \<noteq> hd ys" "n \<in> F" "hd ys \<in> F" using N d dist by (auto simp: F_def)
    note T1 = tiled_merge [OF t n(2,1) d(2)] and S1 = space_merge [OF t N n(5,4) d(2)]
    show ?thesis
    proof (cases "merges_up AVAILABLE m n xs")
      case up: True
      then have u: "xs \<noteq> []" "e n = unat (last xs)" by (auto simp: merges_up_def e_def)
      have l: "last xs \<in> set xs" "last xs \<noteq> n" "last xs \<noteq> hd ys" "last xs \<notin> set ys" using last_in_set [OF u(1)] dist d by auto
      have F': "F' = F - {n} - {last xs}" 
        using up down dist l u(1)
        by (auto simp: F'_def F_def inserted_def set_butlast)
      let ?e = "(e(hd ys := e n))(hd ys := e (last xs))"
      have lF: "last xs \<in> F - {n}" "hd ys \<in> F - {n}" "F - {n} \<subseteq> N - {n}" using l n N by (auto simp: F_def)
      have "(e(hd ys := e n)) (hd ys) = unat (last xs)" "(e(hd ys := e n)) (last xs) = e (last xs)" using u l by auto
      then have T2: "tiled lo hi ?e (N - {n} - {last xs})" and S2: "space ?e F' = space e F"
        using tiled_merge [OF T1, of "hd ys" "last xs"] space_merge [OF T1 lF(3,2,1)] lF S1 F' by auto
      have eq: "e' q = ?e q" if "q \<in> N" for q using e' up d that by auto
      have "N - (F - F') = N - {n} - {last xs}" using F' lF n by auto
      moreover have "tiled lo hi e' (N - {n} - {last xs})" using T2 by (subst tiled_cong [OF eq]) auto
      moreover have "space e' F' = space ?e F'" by (rule space_cong) (use F' N eq in \<open>auto\<close>)
      ultimately show ?thesis using S2 F' lF d l n by auto
    next
      case up: False
      have F': "F' = F - {n}" using up down dist by (auto simp: F'_def F_def inserted_def)
      have eq: "e' q = (e(hd ys := e n)) q" if "q \<in> N" for q using e' up d that by auto
      have "N - (F - F') = N - {n}" using F' n by auto
      moreover have "tiled lo hi e' (N - {n})" using T1 by (subst tiled_cong [OF eq]) auto
      moreover have "space e' F' = space (e(hd ys := e n)) F'" by (rule space_cong) (use F' N eq in \<open>auto\<close>)
      ultimately show ?thesis using S1 F' d n by auto
    qed
  next
    case down: False
    then have h: "h = n" by (simp add: h_def holder_def)
    have nN: "n \<in> N" "n \<in> F" using N by (auto simp: F_def)
    show ?thesis
    proof (cases "merges_up AVAILABLE m n xs")
      case up: True
      then have u: "xs \<noteq> []" "e n = unat (last xs)" by (auto simp: merges_up_def e_def)
      have l: "last xs \<in> set xs" "last xs \<noteq> n" "last xs \<in> N" "last xs \<in> F" "last xs \<notin> set ys"
        using last_in_set [OF u(1)] dist N by (auto simp: F_def)
      have F': "F' = F - {last xs}"
        using up down dist l u(1)
        by (auto simp: F'_def F_def inserted_def set_butlast)
      note T1 = tiled_merge [OF t nN(1) l(3) u(2)] and S1 = space_merge [OF t N nN(2) l(4) u(2)]
      have eq: "e' q = (e(n := e (last xs))) q" if "q \<in> N" for q using e' up h that by auto
      have "N - (F - F') = N - {last xs}" using F' l by auto
      moreover have "tiled lo hi e' (N - {last xs})" using T1 by (subst tiled_cong [OF eq]) auto
      moreover have "space e' F' = space (e(n := e (last xs))) F'" by (rule space_cong) (use F' N eq in \<open>auto\<close>)
      ultimately show ?thesis using S1 F' l h nN by auto
    next
      case up: False
      have F': "F' = F" using up down by (auto simp: F'_def F_def inserted_def)
      have eq: "e' q = e q" if "q \<in> N" for q using e' up h that by auto
      have "tiled lo hi e' N" using t by (subst tiled_cong [OF eq]) auto
      moreover have "space e' F = space e F" by (rule space_cong) (use N eq in \<open>auto\<close>)
      ultimately show ?thesis using F' h nN by simp
    qed
  qed
  then show *: "tiled lo hi e' (N - (F - F'))" "space e' F' = space e F" "h \<in> F'" "F' \<subseteq> F"
    by auto
  have new: "e' h \<noteq> unat b" if "b \<in> F" for b
  proof (cases "merges_up AVAILABLE m n xs")
    case True
    then have "xs \<noteq> []" "last xs \<in> set (xs @ ys)" by (auto simp: merges_up_def)
    then show ?thesis using True e'(1) big co that by (auto simp: coalesced_def F_def)
  next
    case False
    then show ?thesis using e'(1) self [of n] M(1) [of b] that by (auto simp: e_def F_def)
  qed
  have old: "e' a \<noteq> unat b" if "a \<in> F'" "b \<in> F'" "a \<noteq> h" for a b
  proof -
    have n: "\<not> merges_down AVAILABLE m n ys" "h = n" if "n \<in> F'"
      using that dist
      by (auto simp: F'_def inserted_def h_def holder_def dest!: in_set_butlastD split: if_splits)
    have "a \<noteq> n" using n(2) that by auto
    then have a: "a \<in> set (xs @ ys)" "e' a = e a" using that *(4) N e'(2) by (auto simp: F_def)
    show ?thesis
    proof (cases "b = n")
      case True
      then show ?thesis using M(2) [OF a(1)] n(1) that(2) a(2) by (auto simp: e_def)
    next
      case False
      then have "b \<in> set (xs @ ys)" using that(2) *(4) by (auto simp: F_def)
      then show ?thesis using co a by (simp add: coalesced_def)
    qed
  qed
  show "coalesced e' F'" unfolding coalesced_def using new old *(4) by blast
qed

subsection \<open>The heap invariant\<close>

text \<open>
  \<open>heap_core lo hi F A X st\<close>: the pool is tiled by the free blocks \<open>F\<close>, the allocated blocks \<open>A\<close>
  and the blocks \<open>X\<close> that an operation has in hand; the code's lists run through \<open>F\<close> and \<open>A\<close>; no
  two free blocks are adjacent; an allocated block is as large as was asked for.
\<close>

definition heap_core :: "u32 \<Rightarrow> nat \<Rightarrow> u32 list \<Rightarrow> u32 list \<Rightarrow> u32 set \<Rightarrow> smalloc \<Rightarrow> bool" where
  "heap_core lo hi F A X st \<longleftrightarrow>
     tiled lo hi (end_of (smem st)) (set F \<union> set A \<union> X) \<and>
     set F \<inter> set A = {} \<and> X \<inter> (set F \<union> set A) = {} \<and>
     listed AVAILABLE st F \<and> listed ALLOCATED st A \<and> coalesced (end_of (smem st)) (set F) \<and>
     (\<forall>a\<in>set A. unat (usize (smem st) a) \<le> unat (rsize (smem st) a))"

definition heap_ok :: "u32 \<Rightarrow> nat \<Rightarrow> u32 list \<Rightarrow> u32 list \<Rightarrow> smalloc \<Rightarrow> bool" where
  "heap_ok lo hi F A st \<longleftrightarrow> heap_core lo hi F A {} st \<and> total_mem st = (\<Sum>a\<leftarrow>A. usize (smem st) a)"

text \<open>
  \<open>keeps lo hi S st st'\<close>: the memory outside the pool is as before, and the blocks \<open>S\<close> keep their
  extent, their user size and their bytes.
\<close>

definition keeps :: "u32 \<Rightarrow> nat \<Rightarrow> u32 set \<Rightarrow> smalloc \<Rightarrow> smalloc \<Rightarrow> bool" where
  "keeps lo hi S st st' \<longleftrightarrow> (\<forall>k. unat k < unat lo \<or> hi \<le> unat k \<longrightarrow> smem st' k = smem st k) \<and> (\<forall>a\<in>S. rsize (smem st') a = rsize (smem st) a \<and> usize (smem st') a = usize (smem st) a \<and>
     (\<forall>k. unat a + 12 \<le> unat k \<and> unat k < end_of (smem st) a \<longrightarrow> smem st' k = smem st k))"

lemma keeps_refl: "keeps lo hi S st st"
  by (simp add: keeps_def)

lemma keeps_trans: "keeps lo hi S st st1 \<Longrightarrow> keeps lo hi S st1 st2 \<Longrightarrow> keeps lo hi S st st2"
  by (simp add: keeps_def end_of_def)

lemma keeps_subset: "keeps lo hi S st st' \<Longrightarrow> T \<subseteq> S \<Longrightarrow> keeps lo hi T st st'"
  by (auto simp: keeps_def)

lemma keeps_end_of: "keeps lo hi S st st' \<Longrightarrow> a \<in> S \<Longrightarrow> end_of (smem st') a = end_of (smem st) a"
  by (simp add: keeps_def end_of_def)

lemma tiled_user_byte:
  assumes t: "tiled lo hi e N" and a: "a \<in> N" "unat a + 12 \<le> unat k" "unat k < e a"
  shows "user_byte N k"
  unfolding user_byte_def
proof
  fix n assume n: "n \<in> N"
  have "n = a \<or> unat n < unat a \<or> unat a < unat n" by (metis word_unat_eq_iff linorder_neqE_nat)
  then have "\<not> (unat n \<le> unat k \<and> unat k < unat n + 12)"
    using tiledD(7) [OF t n a(1)] tiledD(7) [OF t a(1) n] tiledD(2) [OF t n] a by auto
  then show "\<not> in_block n 12 k"
    using ok_nodesD(3) [OF tiled_ok_nodes [OF t] n] by (simp add: in_block_unat)
qed

lemma tiled_user_outside:
  assumes t: "tiled lo hi e N" and k: "unat k < unat lo \<or> hi \<le> unat k"
  shows "user_byte N k"
  unfolding user_byte_def
proof
  fix n assume n: "n \<in> N"
  have "\<not> (unat n \<le> unat k \<and> unat k < unat n + 12)"
    using tiledD(1,2,3) [OF t n] k by auto
  then show "\<not> in_block n 12 k"
    using ok_nodesD(3) [OF tiled_ok_nodes [OF t] n] by (simp add: in_block_unat)
qed

lemma frame_keeps:
  assumes "frame N R X l st st'" "tiled lo hi (end_of (smem st)) N" "S \<subseteq> N" "S \<inter> R = {}"
  shows "keeps lo hi S st st'"
  unfolding keeps_def
  using assms tiled_user_byte [OF assms(2)] tiled_user_outside [OF assms(2)] by (auto simp: frame_def)

lemma frame_end_of: "frame N R X l st st' \<Longrightarrow> q \<in> N \<Longrightarrow> q \<notin> R \<Longrightarrow> end_of (smem st') q = end_of (smem st) q"
  by (simp add: frame_def end_of_def)

lemma frame_total: "frame N R X l st st' \<Longrightarrow> total_mem st' = total_mem st"
  by (simp add: frame_def)

lemma coreD:
  assumes "heap_core lo hi F A X st"
  shows "tiled lo hi (end_of (smem st)) (set F \<union> set A \<union> X)" "set F \<inter> set A = {}" "X \<inter> (set F \<union> set A) = {}"
    "listed AVAILABLE st F" "listed ALLOCATED st A" "coalesced (end_of (smem st)) (set F)"
    "a \<in> set A \<Longrightarrow> unat (usize (smem st) a) \<le> unat (rsize (smem st) a)" "ok_nodes (set F \<union> set A \<union> X)"
    "apart (set F \<union> set A \<union> X) (smem st)"
  using assms tiled_ok_nodes tiled_apart by (auto simp: heap_core_def)

lemma listed_desc: "listed l st xs \<Longrightarrow> desc xs"
  by (simp add: listed_def)

lemma desc_split: "desc xs \<Longrightarrow> n \<notin> set xs \<Longrightarrow> \<exists>us vs. xs = us @ vs \<and> desc (us @ n # vs)"
proof (induction xs)
  case Nil
  then show ?case by (simp add: desc_simps)
next
  case (Cons x xs)
  show ?case
  proof (cases "unat n < unat x")
    case True
    obtain us vs where "xs = us @ vs" "desc (us @ n # vs)" using Cons by (auto simp: desc_Cons)
    then have "x # xs = (x # us) @ vs" "desc ((x # us) @ n # vs)" using Cons.prems True by (auto simp: desc_Cons)
    then show ?thesis by blast
  next
    case False
    then have "unat x < unat n" using Cons.prems(2) by (auto simp: word_unat_eq_iff)
    then have "desc ([] @ n # x # xs)" using Cons.prems(1) by (auto simp: desc_Cons)
    then show ?thesis by (metis append_Nil)
  qed
qed

text \<open>Taking a block from a list; putting it back.\<close>

lemma take_free:
  assumes c: "heap_core lo hi (xs @ b # ys) A {} st"
  shows "\<exists>st'. delete AVAILABLE b st = Some st' \<and> heap_core lo hi (xs @ ys) A {b} st' \<and>
    keeps lo hi (Set.insert b (set A)) st st' \<and> total_mem st' = total_mem st \<and>
    (\<forall>q\<in>set (xs @ b # ys). end_of (smem st') q = end_of (smem st) q)"
proof -
  let ?N = "set (xs @ b # ys) \<union> set A \<union> {}"
  note C = coreD [OF c]
  have N: "set (xs @ b # ys) \<subseteq> ?N" by auto
  obtain st' X where st': "delete AVAILABLE b st = Some st'" "listed AVAILABLE st' (xs @ ys)"
    "frame ?N {} X AVAILABLE st st'" "X \<subseteq> set xs"
    using delete_spec [OF C(8) N C(4)] by (cases "xs = []") auto
  have e: "end_of (smem st') q = end_of (smem st) q" if "q \<in> ?N" for q
    using frame_end_of [OF st'(3) that] by simp
  have dist: "distinct (xs @ b # ys)" by (rule desc_distinct [OF listed_desc [OF C(4)]])
  have "listed ALLOCATED st' A"
    using frame_listed [OF st'(3) C(5)] C(2) st'(4) by auto
  moreover have "tiled lo hi (end_of (smem st')) (set (xs @ ys) \<union> set A \<union> {b})"
    using C(1) tiled_cong [of ?N "end_of (smem st')", OF e] by (simp add: insert_commute Un_ac)
  moreover have "keeps lo hi ?N st st'" by (rule frame_keeps [OF st'(3) C(1)]) auto
  moreover have "coalesced (end_of (smem st')) (set (xs @ ys))"
    using C(6) e by (auto simp: coalesced_def)
  ultimately have "heap_core lo hi (xs @ ys) A {b} st'"
    using C(2,7) st' dist unfolding heap_core_def by (auto simp: keeps_def)
  then show ?thesis using st'(1) keeps_subset [OF \<open>keeps lo hi ?N st st'\<close>] frame_total [OF st'(3)] e by auto
qed

lemma take_allocated:
  assumes c: "heap_core lo hi F (xs @ b # ys) {} st"
  shows "\<exists>st'. delete ALLOCATED b st = Some st' \<and> heap_core lo hi F (xs @ ys) {b} st' \<and>
    keeps lo hi (set F \<union> set (xs @ b # ys)) st st' \<and> total_mem st' = total_mem st"
proof -
  let ?N = "set F \<union> set (xs @ b # ys) \<union> {}"
  note C = coreD [OF c]
  have N: "set (xs @ b # ys) \<subseteq> ?N" by auto
  obtain st' X where st': "delete ALLOCATED b st = Some st'" "listed ALLOCATED st' (xs @ ys)"
    "frame ?N {} X ALLOCATED st st'" "X \<subseteq> set xs"
    using delete_spec [OF C(8) N C(5)] by (cases "xs = []") auto
  have e: "end_of (smem st') q = end_of (smem st) q" if "q \<in> ?N" for q
    using frame_end_of [OF st'(3) that] by simp
  have dist: "distinct (xs @ b # ys)" by (rule desc_distinct [OF listed_desc [OF C(5)]])
  have "listed AVAILABLE st' F"
    using frame_listed [OF st'(3) C(4)] C(2) st'(4) by auto
  moreover have "tiled lo hi (end_of (smem st')) (set F \<union> set (xs @ ys) \<union> {b})"
    using C(1) tiled_cong [of ?N "end_of (smem st')", OF e] by (simp add: insert_commute Un_ac)
  moreover have k: "keeps lo hi ?N st st'" by (rule frame_keeps [OF st'(3) C(1)]) auto
  moreover have "coalesced (end_of (smem st')) (set F)"
    using C(6) e by (auto simp: coalesced_def)
  ultimately have "heap_core lo hi F (xs @ ys) {b} st'"
    using C(2,7) st' dist unfolding heap_core_def by (auto simp: keeps_def)
  then show ?thesis using st'(1) k frame_total [OF st'(3)] by auto
qed

lemma put_allocated:
  assumes c: "heap_core lo hi F (xs @ ys) {b} st" and d: "desc (xs @ b # ys)"
    and u: "unat (usize (smem st) b) \<le> unat (rsize (smem st) b)"
  shows "\<exists>st'. insert_node ALLOCATED b st = Some st' \<and> heap_core lo hi F (xs @ b # ys) {} st' \<and>
    keeps lo hi (set F \<union> set (xs @ b # ys)) st st' \<and> total_mem st' = total_mem st"
proof -
  let ?N = "set F \<union> set (xs @ ys) \<union> {b}"
  note C = coreD [OF c]
  obtain st' where st': "insert_node ALLOCATED b st = Some st'" "listed ALLOCATED st' (xs @ b # ys)"
    "frame ?N {} (Set.insert b (set xs)) ALLOCATED st st'"
    using insert_spec [OF C(8) _ C(9,5) d] by (auto simp: inserted_def merges_down_def merges_up_def)
  have e: "end_of (smem st') q = end_of (smem st) q" if "q \<in> ?N" for q
    using frame_end_of [OF st'(3) that] by simp
  have "listed AVAILABLE st' F"
    using frame_listed [OF st'(3) C(4)] C(2,3) by auto
  moreover have "tiled lo hi (end_of (smem st')) (set F \<union> set (xs @ b # ys) \<union> {})"
    using C(1) tiled_cong [of ?N "end_of (smem st')", OF e] by (simp add: insert_commute Un_ac)
  moreover have k: "keeps lo hi ?N st st'" by (rule frame_keeps [OF st'(3) C(1)]) auto
  moreover have "coalesced (end_of (smem st')) (set F)"
    using C(6) e by (auto simp: coalesced_def)
  ultimately have "heap_core lo hi F (xs @ b # ys) {} st'"
    using C(2,3,7) u st' unfolding heap_core_def by (auto simp: keeps_def)
  then show ?thesis using st'(1) keeps_subset [OF k] frame_total [OF st'(3)] by auto
qed

lemma put_free:
  assumes c: "heap_core lo hi (xs @ ys) A (Set.insert b X) st" and d: "desc (xs @ b # ys)" and X: "b \<notin> X"
  shows "\<exists>st' F'. insert_node AVAILABLE b st = Some st' \<and> heap_core lo hi F' A X st' \<and>
    F' = inserted AVAILABLE (smem st) xs b ys \<and>
    keeps lo hi (set A \<union> X) st st' \<and> total_mem st' = total_mem st \<and> usize (smem st') b = usize (smem st) b \<and>
    space (end_of (smem st')) (set F') = space (end_of (smem st)) (Set.insert b (set (xs @ ys)))"
proof -
  let ?N = "set (xs @ ys) \<union> set A \<union> Set.insert b X"
  let ?h = "holder AVAILABLE (smem st) b ys" and ?F' = "inserted AVAILABLE (smem st) xs b ys"
  note C = coreD [OF c]
  have N: "set (xs @ b # ys) \<subseteq> ?N" by auto
  obtain st' where st': "insert_node AVAILABLE b st = Some st'" "listed AVAILABLE st' ?F'"
    "end_of (smem st') ?h = (if merges_up AVAILABLE (smem st) b xs then end_of (smem st) (last xs) else end_of (smem st) b)"
    "frame ?N {?h} (Set.insert b (set xs)) AVAILABLE st st'"
    using insert_spec [OF C(8) N C(9,4) d] by auto
  note T = inserted_tiled [OF C(1) N d C(6) st'(3) frame_end_of [OF st'(4)]]
  have hA: "set (xs @ b # ys) \<inter> (set A \<union> X) = {}" using C(2,3) X by auto
  then have k: "keeps lo hi (set A \<union> X) st st'" using T(3,4) by (intro frame_keeps [OF st'(4) C(1)]) auto
  have "set ?F' \<union> set A \<union> X = ?N - (set (xs @ b # ys) - set ?F')"
    using T(4) hA by auto
  then have "tiled lo hi (end_of (smem st')) (set ?F' \<union> set A \<union> X)" using T(1) by simp
  moreover have "listed ALLOCATED st' A"
    using frame_listed [OF st'(4) C(5)] C(2,3) by auto
  moreover have "set ?F' \<inter> set A = {}" "X \<inter> (set ?F' \<union> set A) = {}" using T(4) hA C(3) by auto
  ultimately have "heap_core lo hi ?F' A X st'"
    using C(7) st' T(5) k unfolding heap_core_def by (auto simp: keeps_def)
  moreover have "usize (smem st') b = usize (smem st) b" using st'(4) by (simp add: frame_def)
  ultimately show ?thesis using st'(1) k frame_total [OF st'(4)] T(2) by simp
qed

subsection \<open>Carving a block\<close>

lemma space_insert: "space e (Set.insert b F) = {unat b..<e b} \<union> space e F"
  by (auto simp: space_def)

lemma space_disjoint:
  assumes t: "tiled lo hi e N" and b: "b \<in> N" "F \<subseteq> N" "b \<notin> F"
  shows "{unat b..<e b} \<inter> space e F = {}"
proof -
  have "{unat b..<e b} \<inter> {unat a..<e a} = {}" if a: "a \<in> F" for a
  proof -
    have "unat a < unat b \<or> unat b < unat a" using a b(3) by (metis word_unat_eq_iff linorder_neqE_nat)
    then have "e a \<le> unat b \<or> e b \<le> unat a"
      using a b tiledD(7) [OF t b(1), of a] tiledD(7) [OF t _ b(1), of a] by blast
    then show ?thesis by auto
  qed
  then show ?thesis unfolding space_def Int_UN_distrib by simp
qed

lemma split_core:
  assumes c: "heap_core lo hi F A {b} st" and v: "4 dvd unat v" "unat v + 12 \<le> unat (rsize (smem st) b)"
  defines "n \<equiv> AFTER (smem (set_rsize b v st)) b" and "r \<equiv> rsize (smem st) b - v - 12"
  defines "st' \<equiv> set_rsize n r (set_rsize b v st)"
  shows "heap_core lo hi F A {n, b} st'" "unat n = unat b + 12 + unat v"
    "end_of (smem st') n = end_of (smem st) b" "rsize (smem st') b = v" "n \<noteq> b"
    "q \<in> set F \<union> set A \<Longrightarrow> end_of (smem st') q = end_of (smem st) q"
    "keeps lo hi (set A) st st'" "total_mem st' = total_mem st"
proof -
  let ?N = "set F \<union> set A \<union> {b}" and ?e = "end_of (smem st)"
  let ?N2 = "Set.insert n ?N"
  note C = coreD [OF c]
  have bN: "b \<in> ?N" by simp
  note B = tiledD [OF C(1) bN]
  have n: "n = b + 12 + v" using fields(1) [OF C(8) bN bN] by (simp add: n_def AFTER_def ADDR_def)
  have eb: "?e b = unat b + 12 + unat (rsize (smem st) b)" by (simp add: end_of_def)
  show un: "unat n = unat b + 12 + unat v"
    using v(2) B(3,8) eb by (simp add: n unat_word_ariths)
  have T: "tiled lo hi (?e(b := unat n, n := ?e b)) ?N2" "n \<notin> ?N"
    using tiled_split [OF C(1) bN, of n] v un eb B(4) by auto
  note O = tiled_ok_nodes [OF T(1)]
  have ur: "unat r = unat (rsize (smem st) b) - unat v - 12"
    using v(2) by (simp add: r_def unat_sub_if' word_le_nat_alt unat_diff_step)
  show nb: "n \<noteq> b" using T(2) by auto
  have bN2: "b \<in> ?N2" "n \<in> ?N2" by auto
  have f: "frame ?N2 {n, b} {} AVAILABLE st st'" unfolding st'_def
    using frame_trans [OF frame_set(1) [OF O bN2(1), of "{n, b}"] frame_set(1) [OF O bN2(2), of "{n, b}"]] by simp
  show rb: "rsize (smem st') b = v"
    using nb by (simp add: st'_def fields [OF O bN2(2,1)] fields [OF O bN2(1,1)])
  show en: "end_of (smem st') n = ?e b"
    using ur eb un v(2) by (simp add: st'_def end_of_def fields [OF O bN2(2,2)])
  show eq: "end_of (smem st') q = ?e q" if "q \<in> set F \<union> set A" for q
    using frame_end_of [OF f, of q] that T(2) C(3) by auto
  have "end_of (smem st') q = (?e(b := unat n, n := ?e b)) q" if "q \<in> ?N2" for q
    using that eq [of q] en rb un nb C(3) T(2) by (auto simp: end_of_def)
  then have t2: "tiled lo hi (end_of (smem st')) ?N2" using T(1) tiled_cong by blast
  have "listed AVAILABLE st' F" "listed ALLOCATED st' A"
    using C(4,5) set_rsize_listed [OF O bN2(1), of F] set_rsize_listed [OF O bN2(2), of F]
      set_rsize_listed [OF O bN2(1), of A] set_rsize_listed [OF O bN2(2), of A]
    unfolding st'_def by (simp_all add: subset_insertI2 le_supI1)
  moreover show k: "keeps lo hi (set A) st st'"
    unfolding keeps_def
  proof (intro ballI conjI allI impI)
    fix k :: u32 assume "unat k < unat lo \<or> hi \<le> unat k"
    then show "smem st' k = smem st k" using tiled_user_outside [OF t2] f by (simp add: frame_def)
  next
    fix a assume a: "a \<in> set A"
    then have aN: "a \<in> ?N2" "a \<noteq> n" "a \<noteq> b" using T(2) C(3) by auto
    show "rsize (smem st') a = rsize (smem st) a" "usize (smem st') a = usize (smem st) a"
      using f aN by (auto simp: frame_def)
    fix k :: u32 assume "unat a + 12 \<le> unat k \<and> unat k < ?e a"
    then have "user_byte ?N2 k" using tiled_user_byte [OF t2 aN(1)] eq [of a] a by auto
    then show "smem st' k = smem st k" using f by (simp add: frame_def)
  qed
  moreover have "coalesced (end_of (smem st')) (set F)"
    using C(6) eq by (auto simp: coalesced_def)
  moreover have "set F \<union> set A \<union> {n, b} = ?N2" by auto
  ultimately show "heap_core lo hi F A {n, b} st'"
    using C(2,3,7) t2 T(2) unfolding heap_core_def by (auto simp: keeps_def)
  show "total_mem st' = total_mem st" using frame_total [OF f] .
qed

lemma carve_spec:
  assumes c: "heap_core lo hi (xs @ ys) A {b} st" and d: "desc (xs @ b # ys)"
    and v: "4 dvd unat v" "unat v + 12 \<le> unat (rsize (smem st) b)"
    and up: "\<And>a. a \<in> set (xs @ ys) \<Longrightarrow> end_of (smem st) b \<noteq> unat a"
  shows "\<exists>st' n. carve sz v b st = Some st' \<and> heap_core lo hi (xs @ n # ys) A {b} st' \<and>
    keeps lo hi (set A) st st' \<and> total_mem st' = total_mem st \<and> rsize (smem st') b = v \<and> 
    space (end_of (smem st')) (set (xs @ n # ys)) =
      space (end_of (smem st)) (Set.insert b (set (xs @ ys))) - {unat b..<end_of (smem st') b}"
proof -
  define n where "n = AFTER (smem (set_rsize b v st)) b"
  define st1 where "st1 = set_rsize n (rsize (smem st) b - v - 12) (set_rsize b v st)"
  note S = split_core [OF c v, folded n_def, folded st1_def]
  note C = coreD [OF c] and C1 = coreD [OF S(1)]
  let ?N = "set (xs @ ys) \<union> set A \<union> {b}"
  have eb: "end_of (smem st1) b = unat n" using S(2,4) by (simp add: end_of_def)
  have "desc (xs @ n # ys)"
  proof -
    have "unat n < unat x" if "x \<in> set xs" for x
    proof -
      have "unat b < unat x" using d that by (auto simp: desc_simps)
      then have "unat n \<le> unat x"
        using tiledD(7) [OF C1(1), of b x] that eb by auto
      moreover have "n \<noteq> x" using C1(3) that by auto
      ultimately show ?thesis by (simp add: le_less word_unat_eq_iff)
    qed
    moreover have "unat y < unat n" if "y \<in> set ys" for y
      using d that S(2) by (fastforce simp: desc_simps)
    ultimately show ?thesis using d by (auto simp: desc_simps)
  qed
  from put_free [OF S(1) this] S(5)
  obtain st' where st': "insert_node AVAILABLE n st1 = Some st'"
    "heap_core lo hi (inserted AVAILABLE (smem st1) xs n ys) A {b} st'"
    "keeps lo hi (set A \<union> {b}) st1 st'" "total_mem st' = total_mem st1"
    "space (end_of (smem st')) (set (inserted AVAILABLE (smem st1) xs n ys)) =
      space (end_of (smem st1)) (Set.insert n (set (xs @ ys)))"
    by auto
  have "\<not> merges_up AVAILABLE (smem st1) n xs"
    using up [of "last xs"] S(3) by (auto simp: merges_up_def)
  moreover have "\<not> merges_down AVAILABLE (smem st1) n ys"
  proof
    assume "merges_down AVAILABLE (smem st1) n ys"
    then have y: "hd ys \<in> set ys" "end_of (smem st1) (hd ys) = unat n" by (auto simp: merges_down_def)
    then have "unat (hd ys) < unat b" using d by (auto simp: desc_simps)
    then have "end_of (smem st1) (hd ys) \<le> unat b" using tiledD(7) [OF C1(1), of "hd ys" b] y by auto
    then show False using y S(2) by simp
  qed
  ultimately have F': "inserted AVAILABLE (smem st1) xs n ys = xs @ n # ys" by (simp add: inserted_def)
  have eb': "end_of (smem st') b = unat n" using keeps_end_of [OF st'(3), of b] eb by simp
  have "space (end_of (smem st1)) (set (xs @ ys)) = space (end_of (smem st)) (set (xs @ ys))"
    by (rule space_cong) (use S(6) in auto)
  moreover have "\<not> x < end_of (smem st) b" if "x \<in> space (end_of (smem st)) (set (xs @ ys))" "unat b \<le> x" for x
  proof -
    have "{unat b..<end_of (smem st) b} \<inter> space (end_of (smem st)) (set (xs @ ys)) = {}"
      using C(3) by (intro space_disjoint [OF C(1)]) auto
    then show ?thesis using that by auto
  qed
  moreover have "unat b \<le> unat n" "unat n \<le> end_of (smem st) b" using S(2) v(2) by (simp_all add: end_of_def)
  ultimately have "space (end_of (smem st')) (set (xs @ n # ys)) =
      space (end_of (smem st)) (Set.insert b (set (xs @ ys))) - {unat b..<end_of (smem st') b}"
    using st'(5) F' S(3) eb' by (force simp: space_insert)
  moreover have "carve sz v b st = Some st'"
    using st'(1) by (simp add: carve_def Let_def n_def st1_def)
  moreover have "keeps lo hi (set A) st st'" using keeps_trans [OF S(7) keeps_subset [OF st'(3)]] by auto
  moreover have "rsize (smem st') b = v" using st'(3) S(4) by (simp add: keeps_def)
  ultimately show ?thesis using st'(2,4) S(8) F' by metis
qed

subsection \<open>free\<close>

lemma heap_okD: "heap_ok lo hi F A st \<Longrightarrow> heap_core lo hi F A {} st"
  "heap_ok lo hi F A st \<Longrightarrow> total_mem st = (\<Sum>a\<leftarrow>A. usize (smem st) a)"
  by (simp_all add: heap_ok_def)

lemma node_address:
  assumes "tiled lo hi e N" "a \<in> N"
  shows "unat (ADDR a) = unat a + 12" "ADDR a \<noteq> 0" "aligned4 (ADDR a)"
proof -
  show 1: "unat (ADDR a) = unat a + 12"
    using tiledD [OF assms] by (simp add: ADDR_def unat_word_ariths)
  then show "ADDR a \<noteq> 0" by (auto simp flip: unat_eq_0)
  show "aligned4 (ADDR a)" using 1 tiledD(4) [OF assms] by (simp add: aligned4_unat)
qed

lemma find_node_listed:
  assumes N: "ok_nodes N" "set (xs @ n # ys) \<subseteq> N" and l: "listed ALLOCATED st (xs @ n # ys)"
  shows "find_node st (allocated st) (ADDR n) = Some n"
proof -
  have h: "head_of ALLOCATED st = allocated st" by (simp add: head_of_def)
  have "desc (xs @ n # ys)" and m: "links (smem st) (allocated st) (xs @ n # ys)"
    using l h by (simp_all add: listed_def)
  then have "walk (smem st) (ADDR n) (allocated st) (allocated st) = Some (n, if xs = [] then allocated st else last xs)"
    using walk_node [OF N _ m, of n] N(2) by (simp add: desc_simps)
  then show ?thesis using ok_nodesD(2) [OF N(1), of n] N(2) by (simp add: find_node_def)
qed

lemma find_node_other:
  assumes N: "ok_nodes N" "set A \<subseteq> N" and l: "listed ALLOCATED st A" and p: "p \<notin> ADDR ` set A"
  shows "find_node st (allocated st) p = Some 0"
proof -
  have m: "links (smem st) (allocated st) A" using l by (simp add: listed_def head_of_def)
  let ?P = "\<lambda>x. sint (ADDR x) > sint p"
  have A: "A = takeWhile ?P A @ dropWhile ?P A" by simp
  have "walk (smem st) p (allocated st) (allocated st) =
    Some (if dropWhile ?P A = [] then 0 else hd (dropWhile ?P A),
      if takeWhile ?P A = [] then allocated st else last (takeWhile ?P A))"
  proof (rule walk_links)
    show "links (smem st) (allocated st) (takeWhile ?P A @ dropWhile ?P A)" using m by simp
    show "\<forall>x\<in>set (takeWhile ?P A). ?P x" by (auto dest: set_takeWhileD)
    show "dropWhile ?P A = [] \<or> \<not> ?P (hd (dropWhile ?P A))"
      using hd_dropWhile [of ?P A] by auto
  qed
  moreover have "ADDR (hd (dropWhile ?P A)) \<noteq> p" if "dropWhile ?P A \<noteq> []"
    using p hd_in_set [OF that] by (metis image_eqI set_dropWhileD)
  ultimately show ?thesis by (simp add: find_node_def)
qed

lemma free_spec:
  assumes h: "heap_ok lo hi F A st" and t: "t \<in> set A"
  shows "\<exists>st' F'. free (ADDR t) st = Some st' \<and> heap_ok lo hi F' (removeAll t A) st' \<and>
    keeps lo hi (set A - {t}) st st' \<and>
    space (end_of (smem st')) (set F') = space (end_of (smem st)) (set F) \<union> {unat t..<end_of (smem st) t}"
proof -
  obtain us vs where A: "A = us @ t # vs" using split_list [OF t] by auto
  note c = heap_okD(1) [OF h, unfolded A]
  note C = coreD [OF c]
  have dA: "distinct (us @ t # vs)" "desc (us @ t # vs)"
    using listed_desc [OF C(5)] desc_distinct [OF listed_desc [OF C(5)]] by simp_all
  then have rm: "removeAll t A = us @ vs" by (simp add: A)
  obtain st1 where st1: "delete ALLOCATED t st = Some st1" "heap_core lo hi F (us @ vs) {t} st1"
    "keeps lo hi (set F \<union> set (us @ t # vs)) st st1" "total_mem st1 = total_mem st"
    using take_allocated [OF c] by blast
  note C1 = coreD [OF st1(2)]
  obtain xs ys where F: "F = xs @ ys" "desc (xs @ t # ys)"
    using desc_split [OF listed_desc [OF C(4)], of t] C(2) by auto
  obtain st2 F' where st2: "insert_node AVAILABLE t st1 = Some st2" "heap_core lo hi F' (us @ vs) {} st2"
    "keeps lo hi (set (us @ vs)) st1 st2" "total_mem st2 = total_mem st1" "usize (smem st2) t = usize (smem st1) t"
    "space (end_of (smem st2)) (set F') = space (end_of (smem st1)) (Set.insert t (set F))"
    using put_free [OF st1(2) [unfolded F(1)] F(2)] F(1) by auto
  define st' where "st' = st2\<lparr>total_mem := total_mem st2 - usize (smem st2) t\<rparr>"
  have sm: "smem st' = smem st2" by (simp add: st'_def)
  have tN: "t \<in> set F \<union> set (us @ t # vs) \<union> {}" by simp
  have "find_node st (allocated st) (ADDR t) = Some t"
    by (rule find_node_listed [OF C(8) _ C(5)]) auto
  then have "free (ADDR t) st = Some st'"
    using node_address(2) [OF C(1) tN] ok_nodesD(2) [OF C(8) tN] st1(1) st2(1)
    by (simp add: free_def st'_def)
  moreover have k: "keeps lo hi (set (us @ vs)) st st'"
  proof -
    have "keeps lo hi (set (us @ vs)) st st1" using keeps_subset [OF st1(3), of "set (us @ vs)"] by auto
    then show ?thesis using keeps_trans [OF _ st2(3)] by (simp add: keeps_def sm)
  qed
  moreover have "heap_core lo hi F' (us @ vs) {} st'"
    using st2(2) by (simp add: heap_core_def listed_def st'_def head_of_def len_of_def)
  moreover have "total_mem st' = (\<Sum>a\<leftarrow>us @ vs. usize (smem st') a)"
  proof -
    have "(\<Sum>a\<leftarrow>us @ vs. usize (smem st') a) = (\<Sum>a\<leftarrow>us @ vs. usize (smem st) a)"
      using k by (intro arg_cong [of _ _ sum_list] map_cong) (auto simp: keeps_def)
    moreover have "usize (smem st2) t = usize (smem st) t" using st2(5) st1(3) by (simp add: keeps_def)
    ultimately show ?thesis
      using heap_okD(2) [OF h] st1(4) st2(4) by (simp add: A st'_def)
  qed
  moreover have "set A - {t} = set (us @ vs)" using dA by (auto simp: A)
  moreover have "space (end_of (smem st1)) (Set.insert t (set F)) = space (end_of (smem st)) (Set.insert t (set F))"
    using keeps_end_of [OF st1(3)] by (intro space_cong) auto
  ultimately show ?thesis using st2(6) rm sm by (auto simp: heap_ok_def space_insert)
qed

lemma free_other:
  assumes h: "heap_ok lo hi F A st" and p: "p \<notin> ADDR ` set A"
  shows "free p st = Some st"
  using find_node_other [OF coreD(8) [OF heap_okD(1) [OF h]] _ coreD(5) [OF heap_okD(1) [OF h]] p]
  by (auto simp: free_def)

subsection \<open>malloc\<close>

lemma bestfit_loop_rest:
  assumes "links (smem st) c cs" "available st \<notin> set cs" "b \<noteq> 0" "sz \<le> rsize (smem st) b"
  shows "\<exists>b'. bestfit_loop st sz c (rsize (smem st) b - sz) b = Some b' \<and> b' \<noteq> 0 \<and>
    b' \<in> Set.insert b (set cs) \<and> sz \<le> rsize (smem st) b' \<and> 
    (\<forall>d\<in>Set.insert b (set cs). sz \<le> rsize (smem st) d \<longrightarrow> rsize (smem st) b' \<le> rsize (smem st) d)"
  using assms
proof (induction cs arbitrary: c b)
  case Nil
  then show ?case by (simp add: bestfit_loop.simps)
next
  case (Cons x xs)
  let ?r = "rsize (smem st)"
  have x: "c = x" "x \<noteq> 0" "links (smem st) (nxt (smem st) x) xs" "x \<noteq> available st" "available st \<notin> set xs"
    using Cons.prems by auto
  have over: "?r x - sz < ?r b - sz \<longleftrightarrow> ?r x < ?r b" if "sz \<le> ?r x"
    using that Cons.prems(4) by (auto simp: word_less_nat_alt word_le_nat_alt unat_sub_if')
  show ?case
  proof (cases "sz \<le> ?r x \<and> ?r x < ?r b")
    case True
    then have "bestfit_loop st sz c (?r b - sz) b = bestfit_loop st sz (nxt (smem st) x) (?r x - sz) x"
      using x over by (subst bestfit_loop.simps) (simp add: Let_def)
    with Cons.IH [OF x(3,5,2)] True show ?thesis by fastforce
  next
    case False
    then have "bestfit_loop st sz c (?r b - sz) b = bestfit_loop st sz (nxt (smem st) x) (?r b - sz) b"
      using x over by (subst bestfit_loop.simps) (auto simp: Let_def)
    moreover obtain b' where b': "bestfit_loop st sz (nxt (smem st) x) (?r b - sz) b = Some b'" "b' \<noteq> 0"
      "b' \<in> Set.insert b (set xs)" "sz \<le> ?r b'"
      "\<And>d. d \<in> Set.insert b (set xs) \<Longrightarrow> sz \<le> ?r d \<Longrightarrow> ?r b' \<le> ?r d"
      using Cons.IH [OF x(3,5) Cons.prems(3,4)] by blast
    moreover have "?r b' \<le> ?r x" if "sz \<le> ?r x"
      using b'(5) [of b] Cons.prems(4) False that by auto
    ultimately show ?thesis by auto
  qed
qed

lemma bestfit_loop_spec:
  assumes "links (smem st) c cs" "available st \<notin> set (tl cs)" "\<forall>d\<in>set cs. rsize (smem st) d < 2147483647"
  shows "(\<forall>d\<in>set cs. \<not> sz \<le> rsize (smem st) d) \<and> bestfit_loop st sz c 2147483647 0 = Some 0 \<or>
    (\<exists>b'. bestfit_loop st sz c 2147483647 0 = Some b' \<and> b' \<noteq> 0 \<and>
    b' \<in> set cs \<and> sz \<le> rsize (smem st) b' \<and> 
    (\<forall>d\<in>set cs. sz \<le> rsize (smem st) d \<longrightarrow> rsize (smem st) b' \<le> rsize (smem st) d))"
  using assms
proof (induction cs arbitrary: c)
  case Nil
  then show ?case by (simp add: bestfit_loop.simps)
next
  case (Cons x xs)
  let ?r = "rsize (smem st)"
  have x: "c = x" "x \<noteq> 0" "links (smem st) (nxt (smem st) x) xs" "available st \<notin> set xs" "?r x < 2147483647"
    using Cons.prems by auto
  show ?case
  proof (cases "sz \<le> ?r x")
    case True
    have "?r x - sz < 2147483647"
      using True x(5) by (simp add: word_less_nat_alt word_le_nat_alt unat_sub_if')
    then have "bestfit_loop st sz c 2147483647 0 = bestfit_loop st sz (nxt (smem st) x) (?r x - sz) x"
      using x True by (subst bestfit_loop.simps) (simp add: Let_def)
    then show ?thesis using bestfit_loop_rest [OF x(3,4,2) True] by auto
  next
    case False
    then have "bestfit_loop st sz c 2147483647 0 = bestfit_loop st sz (nxt (smem st) x) 2147483647 0"
      using x by (subst bestfit_loop.simps) (simp add: Let_def)
    moreover have "available st \<notin> set (tl xs)" using x(4) by (cases xs) auto
    ultimately show ?thesis using Cons.IH [OF x(3)] Cons.prems(3) False by auto
  qed
qed

lemma ALIGN_unat:
  assumes "unat sz + 3 < 2 ^ 32"
  shows "4 dvd unat (ALIGN sz)" "unat sz \<le> unat (ALIGN sz)" "unat (ALIGN sz) < unat sz + 4"
proof -
  have "ALIGN sz = sz + 3 - ((sz + 3) AND 3)"
    unfolding ALIGN_def by (subst disjunctive_diff) (auto simp: bit_simps intro!: bit_word_eqI)
  moreover have "unat ((sz + 3) AND 3) = (unat sz + 3) mod 4"
  proof -
    have "(sz + 3) AND 3 = take_bit 2 (sz + 3)" by (simp add: take_bit_eq_mask mask_eq_exp_minus_1)
    then show ?thesis using assms by (simp add: unsigned_take_bit_eq take_bit_eq_mod unat_word_ariths)
  qed
  ultimately have "unat (ALIGN sz) = unat sz + 3 - (unat sz + 3) mod 4"
    using assms by (simp add: unat_sub_if' unat_word_ariths)
  then show "4 dvd unat (ALIGN sz)" "unat sz \<le> unat (ALIGN sz)" "unat (ALIGN sz) < unat sz + 4"
    by presburger+
qed

lemma set_usize_core:
  fixes v :: u32
  assumes c: "heap_core lo hi F A {b} st"
  defines "st' \<equiv> set_usize b v st"
  shows "heap_core lo hi F A {b} st'" "keeps lo hi (set A) st st'" "total_mem st' = total_mem st"
    "usize (smem st') b = v" "rsize (smem st') b = rsize (smem st) b"
    "q \<in> set F \<union> set A \<Longrightarrow> end_of (smem st') q = end_of (smem st) q"
proof -
  let ?N = "set F \<union> set A \<union> {b}"
  note C = coreD [OF c]
  have bN: "b \<in> ?N" by simp
  note f = fields(4-6) [OF C(8) bN, of _ v st, folded st'_def] and ub = user_byte_fields(2) [OF C(8) bN, of _ v st, folded st'_def]
  show u: "usize (smem st') b = v" and "rsize (smem st') b = rsize (smem st) b" "total_mem st' = total_mem st"
    using f(1,2) [OF bN] by (simp_all add: st'_def)
  have e: "end_of (smem st') q = end_of (smem st) q" if "q \<in> ?N" for q
    using f(1) [OF that] by (simp add: end_of_def)
  then show "q \<in> set F \<union> set A \<Longrightarrow> end_of (smem st') q = end_of (smem st) q" by simp
  show k: "keeps lo hi (set A) st st'"
    unfolding keeps_def
  proof (intro ballI conjI allI impI)
    fix k :: u32 assume "unat k < unat lo \<or> hi \<le> unat k"
    then show "smem st' k = smem st k" using tiled_user_outside [OF C(1)] ub by simp
  next
    fix a and k :: u32 assume a: "a \<in> set A"
    then show "rsize (smem st') a = rsize (smem st) a" "usize (smem st') a = usize (smem st) a"
      using f(1,2) [of a] C(3) by auto
    assume "unat a + 12 \<le> unat k \<and> unat k < end_of (smem st) a"
    then show "smem st' k = smem st k"
      using tiled_user_byte [OF C(1), of a k] a ub [of k] by auto
  qed
  have "links (smem st') h xs = links (smem st) h xs" if "set xs \<subseteq> ?N" for h xs
    using that f(3) by (intro links_cong) auto
  then have "listed AVAILABLE st' F" "listed ALLOCATED st' A"
    using C(4,5) by (auto simp: listed_def st'_def len_of_def head_of_def)
  moreover have "tiled lo hi (end_of (smem st')) ?N"
    using C(1) tiled_cong [of ?N "end_of (smem st')", OF e] by simp
  moreover have "coalesced (end_of (smem st')) (set F)" using C(6) e by (auto simp: coalesced_def)
  ultimately show "heap_core lo hi F A {b} st'"
    using C(2,3,7) k unfolding heap_core_def by (auto simp: keeps_def)
qed

lemma bestfit_loop_heap:
  assumes h: "heap_ok lo hi F A st"
  shows "(\<forall>d\<in>set F. \<not> sz \<le> rsize (smem st) d) \<and> bestfit_loop st sz (available st) 2147483647 0 = Some 0 \<or>
    (\<exists>b. bestfit_loop st sz (available st) 2147483647 0 = Some b \<and> b \<noteq> 0 \<and>
    b \<in> set F \<and> sz \<le> rsize (smem st) b \<and> 
    (\<forall>d\<in>set F. sz \<le> rsize (smem st) d \<longrightarrow> rsize (smem st) b \<le> rsize (smem st) d))"
proof (rule bestfit_loop_spec)
  note C = coreD [OF heap_okD(1) [OF h]]
  show l: "links (smem st) (available st) F" using C(4) by (simp add: listed_def head_of_def)
  show "available st \<notin> set (tl F)"
    using l desc_distinct [OF listed_desc [OF C(4)]] by (cases F) auto
  show "\<forall>d\<in>set F. rsize (smem st) d < 2147483647"
  proof
    fix d assume "d \<in> set F"
    then have "end_of (smem st) d < 2 ^ 31" using apartD(1) [OF C(9)] by simp
    then show "rsize (smem st) d < 2147483647" by (simp add: end_of_def word_less_nat_alt)
  qed
qed

lemma malloc_none:
  assumes h: "heap_ok lo hi F A st" and none: "\<forall>d\<in>set F. \<not> sz \<le> rsize (smem st) d"
  shows "malloc sz st = Some (st, 0)"
  using bestfit_loop_heap [OF h, of sz] none by (auto simp: malloc_def bestfit_def)

text \<open>The block that \<open>bestfit\<close> takes off the free list, carved when it is large enough.\<close>

lemma carve_step:
  assumes c: "heap_core lo hi (xs @ ys) A {b} st" and d: "desc (xs @ b # ys)"
    and sz: "sz \<le> rsize (smem st) b"
    and up: "\<And>a. a \<in> set (xs @ ys) \<Longrightarrow> end_of (smem st) b \<noteq> unat a"
  shows "\<exists>st' F'. (if rsize (smem st) b \<ge> ALIGN sz + 12 + 256 then carve sz (ALIGN sz) b st else Some st) = Some st' \<and>
    heap_core lo hi F' A {b} st' \<and> keeps lo hi (set A) st st' \<and> total_mem st' = total_mem st \<and>
    sz \<le> rsize (smem st') b \<and> end_of (smem st') b \<le> end_of (smem st) b \<and>
    space (end_of (smem st')) (set F') =
      space (end_of (smem st)) (Set.insert b (set (xs @ ys))) - {unat b..<end_of (smem st') b}"
proof -
  note C = coreD [OF c]
  have bN: "b \<in> set (xs @ ys) \<union> set A \<union> {b}" by simp
  note B = tiledD [OF C(1) bN]
  have small: "unat sz + 12 < 2 ^ 31" using sz B(3,8) by (simp add: end_of_def word_le_nat_alt)
  have al: "4 dvd unat (ALIGN sz)" "unat sz \<le> unat (ALIGN sz)" "unat (ALIGN sz) < unat sz + 4"
    using ALIGN_unat [of sz] small by auto
  show ?thesis
  proof (cases "rsize (smem st) b \<ge> ALIGN sz + 12 + 256")
    case True
    then have v: "unat (ALIGN sz) + 12 \<le> unat (rsize (smem st) b)"
      using small al(3) by (simp add: word_le_nat_alt unat_word_ariths)
    obtain st' n where st': "carve sz (ALIGN sz) b st = Some st'" "heap_core lo hi (xs @ n # ys) A {b} st'"
      "keeps lo hi (set A) st st'" "total_mem st' = total_mem st" "rsize (smem st') b = ALIGN sz"
      "space (end_of (smem st')) (set (xs @ n # ys)) =
        space (end_of (smem st)) (Set.insert b (set (xs @ ys))) - {unat b..<end_of (smem st') b}"
      using carve_spec [OF c d al(1) v up] by blast
    moreover have "sz \<le> ALIGN sz" using al(2) by (simp add: word_le_nat_alt)
    moreover have "end_of (smem st') b \<le> end_of (smem st) b" using st'(5) v by (simp add: end_of_def)
    ultimately show ?thesis using True by metis
  next
    case False
    have "{unat b..<end_of (smem st) b} \<inter> space (end_of (smem st)) (set (xs @ ys)) = {}"
      using C(3) by (intro space_disjoint [OF C(1)]) auto
    then have "space (end_of (smem st)) (set (xs @ ys)) =
        space (end_of (smem st)) (Set.insert b (set (xs @ ys))) - {unat b..<end_of (smem st) b}"
      unfolding space_insert by blast
    then show ?thesis using False c sz keeps_refl by auto
  qed
qed

lemma malloc_some:
  assumes h: "heap_ok lo hi F A st" and some: "\<exists>d\<in>set F. sz \<le> rsize (smem st) d"
  shows "\<exists>st' b F' A'. malloc sz st = Some (st', ADDR b) \<and> heap_ok lo hi F' A' st' \<and>
    b \<in> set F \<and> (\<forall>d\<in>set F. sz \<le> rsize (smem st) d \<longrightarrow> rsize (smem st) b \<le> rsize (smem st) d) \<and>
    set A' = Set.insert b (set A) \<and> b \<notin> set A \<and> usize (smem st') b = sz \<and> keeps lo hi (set A) st st' \<and>
    end_of (smem st') b \<le> end_of (smem st) b \<and>
    space (end_of (smem st')) (set F') = space (end_of (smem st)) (set F) - {unat b..<end_of (smem st') b}"
proof -
  obtain b where b: "bestfit_loop st sz (available st) 2147483647 0 = Some b" "b \<noteq> 0"
    "b \<in> set F" "sz \<le> rsize (smem st) b"
    "\<forall>d\<in>set F. sz \<le> rsize (smem st) d \<longrightarrow> rsize (smem st) b \<le> rsize (smem st) d"
    using bestfit_loop_heap [OF h, of sz] some by blast
  obtain xs ys where F: "F = xs @ b # ys" using split_list [OF b(3)] by auto
  note c = heap_okD(1) [OF h, unfolded F]
  note C = coreD [OF c]
  have d: "desc (xs @ b # ys)" by (rule listed_desc [OF C(4)])
  obtain st1 where st1: "delete AVAILABLE b st = Some st1" "heap_core lo hi (xs @ ys) A {b} st1"
    "keeps lo hi (Set.insert b (set A)) st st1" "total_mem st1 = total_mem st"
    "\<forall>q\<in>set (xs @ b # ys). end_of (smem st1) q = end_of (smem st) q"
    using take_free [OF c] by blast
  have r1: "sz \<le> rsize (smem st1) b" using st1(3) b(4) by (simp add: keeps_def)
  have up: "end_of (smem st1) b \<noteq> unat a" if "a \<in> set (xs @ ys)" for a
    using C(6) st1(5) that by (auto simp: coalesced_def)
  obtain st2 F' where st2: "(if rsize (smem st1) b \<ge> ALIGN sz + 12 + 256 then carve sz (ALIGN sz) b st1 else Some st1) = Some st2"
    "heap_core lo hi F' A {b} st2" "keeps lo hi (set A) st1 st2" "total_mem st2 = total_mem st1" "sz \<le> rsize (smem st2) b"
    and e2: "end_of (smem st2) b \<le> end_of (smem st1) b" and s2:
    "space (end_of (smem st2)) (set F') =
      space (end_of (smem st1)) (Set.insert b (set (xs @ ys))) - {unat b..<end_of (smem st2) b}"
    using carve_step [OF st1(2) d r1 up] by blast
  define st3 where "st3 = set_usize b sz st2"
  note U = set_usize_core [OF st2(2), of sz, folded st3_def]
  have e3: "end_of (smem st3) q = end_of (smem st2) q" if "q \<in> set F'" for q
    using set_usize_core(6) [OF st2(2), of q sz] that by (simp add: st3_def)
  note C2 = coreD [OF st2(2)]
  have bA: "b \<notin> set A" using C2(3) by auto
  obtain us vs where A: "A = us @ vs" "desc (us @ b # vs)"
    using desc_split [OF listed_desc [OF C2(5)] bA] by auto
  obtain st4 where st4: "insert_node ALLOCATED b st3 = Some st4" "heap_core lo hi F' (us @ b # vs) {} st4"
    "keeps lo hi (set F' \<union> set (us @ b # vs)) st3 st4" "total_mem st4 = total_mem st3"
    using put_allocated [OF U(1) [unfolded A(1)] A(2)] U(4,5) st2(5) by (auto simp: word_le_nat_alt)
  define st' where "st' = st4\<lparr>total_mem := total_mem st4 + sz\<rparr>"
  have sm: "smem st' = smem st4" by (simp add: st'_def)
  have kA: "keeps lo hi (set A) st st'"
  proof -
    have "keeps lo hi (set A) st st1" by (rule keeps_subset [OF st1(3)]) auto
    moreover have "keeps lo hi (set A) st3 st4" by (rule keeps_subset [OF st4(3)]) (auto simp: A)
    ultimately have "keeps lo hi (set A) st st4" using st2(3) U(2) by (blast intro: keeps_trans)
    then show ?thesis by (simp add: keeps_def sm)
  qed
  have ub: "usize (smem st') b = sz" using U(4) st4(3) by (simp add: keeps_def sm)
  have "total_mem st' = (\<Sum>a\<leftarrow>us @ b # vs. usize (smem st') a)"
  proof -
    have "(\<Sum>a\<leftarrow>us @ vs. usize (smem st') a) = (\<Sum>a\<leftarrow>us @ vs. usize (smem st) a)"
      using kA by (intro arg_cong [of _ _ sum_list] map_cong) (auto simp: keeps_def A)
    then show ?thesis
      using heap_okD(2) [OF h] st1(4) st2(4) U(3) st4(4) ub by (simp add: A st'_def)
  qed
  moreover have "heap_core lo hi F' (us @ b # vs) {} st'"
    using st4(2) by (simp add: heap_core_def listed_def st'_def head_of_def len_of_def)
  moreover have "malloc sz st = Some (st', ADDR b)"
    using b(1,2) st1(1) st2(1) st4(1) by (simp add: malloc_def bestfit_def st3_def st'_def Let_def)
  moreover have eb: "end_of (smem st4) b = end_of (smem st2) b"
    using keeps_end_of [OF st4(3), of b] U(5) by (simp add: end_of_def)
  moreover have "end_of (smem st') b \<le> end_of (smem st) b"
    using eb e2 st1(5) by (simp add: sm)
  moreover have "space (end_of (smem st')) (set F') = space (end_of (smem st)) (set F) - {unat b..<end_of (smem st') b}"
  proof -
    have "space (end_of (smem st4)) (set F') = space (end_of (smem st2)) (set F')"
      using keeps_end_of [OF st4(3)] e3 by (intro space_cong) auto
    moreover have "space (end_of (smem st1)) (Set.insert b (set (xs @ ys))) = space (end_of (smem st)) (set F)"
      using st1(5) by (auto simp: F intro!: arg_cong2 [where f = space] space_cong)
    ultimately show ?thesis using s2 sm eb by simp
  qed
  moreover have "set (us @ b # vs) = Set.insert b (set A)" by (auto simp: A)
  ultimately show ?thesis using b(3,5) bA ub kA unfolding heap_ok_def by metis
qed

lemma pool_ok:
  assumes "aligned4 lo" "lo \<noteq> 0" "aligned4 hi" "unat lo + 12 \<le> unat hi" "unat hi < 2 ^ 31"
  shows "heap_ok lo (unat hi) [lo] [] (smalloc_set_memory_pool lo hi st)"
proof -
  let ?st = "smalloc_set_memory_pool lo hi st"
  have N: "ok_nodes {lo}" using assms by (simp add: ok_nodes_def)
  have r: "rsize (smem ?st) lo = hi - lo - 12" and n: "nxt (smem ?st) lo = 0"
    using fields [OF N, of lo lo] by (simp_all add: smalloc_set_memory_pool_def Let_def ADDR_def)
  have "unat (hi - lo - 12) = unat hi - unat lo - 12"
    using assms(4) by (simp add: unat_sub_if' word_le_nat_alt)
  then have e: "end_of (smem ?st) lo = unat hi" using r assms(4) by (simp add: end_of_def)
  have "available ?st = lo" "allocated ?st = 0" "total_mem ?st = 0" "alloc_len ?st = 0" "avail_len ?st = 1"
    by (simp_all add: smalloc_set_memory_pool_def Let_def)
  then show ?thesis
    using assms e n
    by (simp add: heap_ok_def heap_core_def tiled_def listed_def head_of_def len_of_def desc_simps coalesced_def aligned4_unat)
qed

subsection \<open>The allocator contract\<close>

text \<open>\<open>live lo hi L st\<close>: the heap is consistent, and \<open>L\<close> maps the allocated addresses to their sizes.\<close>

definition blocks_of :: "mem \<Rightarrow> u32 set \<Rightarrow> u32 \<rightharpoonup> nat" where
  "blocks_of m A p = (if p - 12 \<in> A then Some (unat (rsize m (p - 12))) else None)"

definition live :: "u32 \<Rightarrow> nat \<Rightarrow> (u32 \<rightharpoonup> nat) \<Rightarrow> smalloc \<Rightarrow> bool" where
  "live lo hi L st \<longleftrightarrow> (\<exists>F A. heap_ok lo hi F A st \<and> L = blocks_of (smem st) (set A))"

lemma liveE:
  assumes "live lo hi L st"
  obtains F A where "heap_ok lo hi F A st" "L = blocks_of (smem st) (set A)"
  using assms by (auto simp: live_def)

lemma liveI: "heap_ok lo hi F A st \<Longrightarrow> L = blocks_of (smem st) (set A) \<Longrightarrow> live lo hi L st"
  by (auto simp: live_def)

lemma ADDR_minus [simp]: "ADDR a - 12 = a" "ADDR (p - 12) = p"
  by (simp_all add: ADDR_def)

lemma ADDR_image: "p - 12 \<in> A \<longleftrightarrow> p \<in> ADDR ` A"
  by (metis ADDR_minus imageE image_eqI)

lemma block_range:
  assumes t: "tiled lo hi (end_of m) N" and a: "a \<in> N"
  shows "unat (ADDR a) + unat (rsize m a) = end_of m a"
    "in_block (ADDR a) (unat (rsize m a)) k \<longleftrightarrow> unat a + 12 \<le> unat k \<and> unat k < end_of m a"
proof -
  show 1: "unat (ADDR a) + unat (rsize m a) = end_of m a"
    using node_address(1) [OF t a] by (simp add: end_of_def)
  then show "in_block (ADDR a) (unat (rsize m a)) k \<longleftrightarrow> unat a + 12 \<le> unat k \<and> unat k < end_of m a"
    using in_block_unat [of "ADDR a" "unat (rsize m a)" k] tiledD(3,8) [OF t a] node_address(1) [OF t a] by simp
qed

lemma blocks_of_insert: "rsize m b = r \<Longrightarrow> blocks_of m (Set.insert b A) = (blocks_of m A)(ADDR b \<mapsto> unat r)"
  by (rule ext) (auto simp: blocks_of_def)

lemma blocks_of_remove: "blocks_of m (A - {t}) = (blocks_of m A)(ADDR t := None)"
  by (rule ext) (auto simp: blocks_of_def)

lemma blocks_of_cong: "(\<And>a. a \<in> A \<Longrightarrow> rsize m' a = rsize m a) \<Longrightarrow> blocks_of m' A = blocks_of m A"
  by (rule ext) (auto simp: blocks_of_def)

lemma keeps_bytes:
  assumes t: "tiled lo hi (end_of (smem st)) N" "set A \<subseteq> N" and k: "keeps lo hi (set A) st st'"
    and b: "k \<in> {k. unat k < unat lo \<or> hi \<le> unat k} \<or> (\<exists>q j. blocks_of (smem st) (set A) q = Some j \<and> in_block q j k)"
  shows "smem st' k = smem st k"
  using b
proof (elim disjE exE conjE)
  fix q j assume q: "blocks_of (smem st) (set A) q = Some j" "in_block q j k"
  then have a: "q - 12 \<in> set A" "j = unat (rsize (smem st) (q - 12))" by (auto simp: blocks_of_def split: if_splits)
  then have "unat (q - 12) + 12 \<le> unat k \<and> unat k < end_of (smem st) (q - 12)"
    using block_range(2) [OF t(1), of "q - 12" k] t(2) q(2) by auto
  then show ?thesis using k a(1) by (simp add: keeps_def)
qed (use k in \<open>auto simp: keeps_def\<close>)

lemma heap_fill:
  assumes h: "heap_ok lo hi F A st" and m: "\<And>k. m k \<noteq> smem st k \<Longrightarrow> user_byte (set F \<union> set A) k"
  shows "heap_ok lo hi F A (st\<lparr>smem := m\<rparr>)" "a \<in> set F \<union> set A \<Longrightarrow> rsize m a = rsize (smem st) a"
proof -
  let ?N = "set F \<union> set A \<union> {}"
  note C = coreD [OF heap_okD(1) [OF h]]
  have load: "load32 m (a + i) = load32 (smem st) (a + i)" if a: "a \<in> ?N" and i: "i \<in> {0, 4, 8}" for a i
  proof (rule load32_cong)
    fix c assume c: "in_block (a + i) 4 c"
    have "in_block a 12 c"
      using c field_address(1) [OF C(8) a i] ok_nodesD(3) [OF C(8) a] i by (auto simp: in_block_unat)
    then show "m c = smem st c" using m [of c] a by (auto simp: user_byte_def)
  qed
  have f: "rsize m a = rsize (smem st) a" "usize m a = usize (smem st) a" "nxt m a = nxt (smem st) a" if "a \<in> ?N" for a
    using load [OF that, of 0] load [OF that, of 4] load [OF that, of 8] by (simp_all add: rsize_def usize_def nxt_def)
  then show "a \<in> set F \<union> set A \<Longrightarrow> rsize m a = rsize (smem st) a" by simp
  have e: "end_of m a = end_of (smem st) a" if "a \<in> ?N" for a using f(1) [OF that] by (simp add: end_of_def)
  have "links m p xs = links (smem st) p xs" if "set xs \<subseteq> ?N" for p xs
    using that f(3) by (intro links_cong) auto
  then have "listed AVAILABLE (st\<lparr>smem := m\<rparr>) F" "listed ALLOCATED (st\<lparr>smem := m\<rparr>) A"
    using C(4,5) by (auto simp: listed_def head_of_def len_of_def)
  moreover have "tiled lo hi (end_of m) ?N" using C(1) tiled_cong [of ?N "end_of m", OF e] by simp
  moreover have "coalesced (end_of m) (set F)" using C(6) e by (auto simp: coalesced_def)
  ultimately have "heap_core lo hi F A {} (st\<lparr>smem := m\<rparr>)"
    using C(2,7) f unfolding heap_core_def by auto
  moreover have "(\<Sum>a\<leftarrow>A. usize m a) = (\<Sum>a\<leftarrow>A. usize (smem st) a)"
    using f(2) by (intro arg_cong [of _ _ sum_list] map_cong) auto
  ultimately show "heap_ok lo hi F A (st\<lparr>smem := m\<rparr>)"
    using heap_okD(2) [OF h] by (simp add: heap_ok_def)
qed

lemma malloc_live:
  assumes "live lo hi L st"
  shows "malloc sz st = Some (st, 0) \<or>
      (\<exists>st' p n. malloc sz st = Some (st', p) \<and> L p = None \<and> unat sz \<le> n \<and> live lo hi (L(p \<mapsto> n)) st' \<and>
        (\<forall>k. k \<in> {k. unat k < unat lo \<or> hi \<le> unat k} \<or> (\<exists>q j. L q = Some j \<and> in_block q j k) \<longrightarrow> smem st' k = smem st k))"
proof -
  obtain F A where h: "heap_ok lo hi F A st" and L: "L = blocks_of (smem st) (set A)" using assms by (rule liveE)
  note C = coreD [OF heap_okD(1) [OF h]]
  show ?thesis
  proof (cases "\<exists>d\<in>set F. sz \<le> rsize (smem st) d")
    case False
    then show ?thesis using malloc_none [OF h] by blast
  next
    case True
    obtain st' b F' A' where m: "malloc sz st = Some (st', ADDR b)" "heap_ok lo hi F' A' st'"
      "set A' = Set.insert b (set A)" "b \<notin> set A" "usize (smem st') b = sz" "keeps lo hi (set A) st st'"
      using malloc_some [OF h True] by blast
    let ?n = "unat (rsize (smem st') b)"
    have "blocks_of (smem st') (set A) = L"
      unfolding L using m(6) by (intro blocks_of_cong) (simp add: keeps_def)
    then have "live lo hi (L(ADDR b \<mapsto> ?n)) st'"
      using m(3) blocks_of_insert [OF refl, of "smem st'" b "set A"] by (intro liveI [OF m(2)]) simp
    moreover have "unat sz \<le> ?n"
      using coreD(7) [OF heap_okD(1) [OF m(2)], of b] m(3,5) by auto
    moreover have "L (ADDR b) = None" using m(4) by (simp add: L blocks_of_def)
    moreover have "smem st' k = smem st k"
      if "k \<in> {k. unat k < unat lo \<or> hi \<le> unat k} \<or> (\<exists>q j. L q = Some j \<and> in_block q j k)" for k
      using keeps_bytes [OF C(1) _ m(6), of k] that by (auto simp: L)
    ultimately show ?thesis using m(1) by blast
  qed
qed

lemma free_live:
  assumes "live lo hi L st" and p: "L p = Some n"
  shows "\<exists>st'. free p st = Some st' \<and> live lo hi (L(p := None)) st' \<and>
        (\<forall>k. k \<in> {k. unat k < unat lo \<or> hi \<le> unat k} \<or> (\<exists>q j. q \<noteq> p \<and> L q = Some j \<and> in_block q j k) \<longrightarrow> smem st' k = smem st k)"
proof -
  obtain F A where h: "heap_ok lo hi F A st" and L: "L = blocks_of (smem st) (set A)" using assms(1) by (rule liveE)
  note C = coreD [OF heap_okD(1) [OF h]]
  define t where "t = p - 12"
  have t: "t \<in> set A" "p = ADDR t" using p by (auto simp: t_def L blocks_of_def split: if_splits)
  obtain st' F' where f: "free p st = Some st'" "heap_ok lo hi F' (removeAll t A) st'" "keeps lo hi (set A - {t}) st st'"
    using free_spec [OF h t(1)] t(2) by auto
  have k: "keeps lo hi (set (removeAll t A)) st st'" using f(3) by simp
  have "blocks_of (smem st') (set A - {t}) = blocks_of (smem st) (set A - {t})"
    using f(3) by (intro blocks_of_cong) (auto simp: keeps_def)
  then have "live lo hi (L(p := None)) st'"
    by (intro liveI [OF f(2)]) (simp add: L t(2) blocks_of_remove)
  moreover have "smem st' k = smem st k"
    if "k \<in> {k. unat k < unat lo \<or> hi \<le> unat k} \<or> (\<exists>q j. q \<noteq> p \<and> L q = Some j \<and> in_block q j k)" for k
  proof (rule keeps_bytes [OF C(1) _ k])
    have "blocks_of (smem st) (set (removeAll t A)) q = L q" if "q \<noteq> p" for q
      using that t(2) by (simp add: L blocks_of_remove)
    then show "k \<in> {k. unat k < unat lo \<or> hi \<le> unat k} \<or>
      (\<exists>q j. blocks_of (smem st) (set (removeAll t A)) q = Some j \<and> in_block q j k)"
      using that by metis
  qed auto
  ultimately show ?thesis using f(1) by blast
qed

interpretation smalloc: allocator malloc free smem "\<lambda>m st. st\<lparr>smem := m\<rparr>" "live lo hi"
  "{k. unat k < unat lo \<or> hi \<le> unat k}" for lo hi
proof
  fix L st and sz :: u32 assume "live lo hi L st"
  then show "malloc sz st = Some (st, 0) \<or>
      (\<exists>st' p n. malloc sz st = Some (st', p) \<and> L p = None \<and> unat sz \<le> n \<and> live lo hi (L(p \<mapsto> n)) st' \<and>
        (\<forall>k. k \<in> {k. unat k < unat lo \<or> hi \<le> unat k} \<or> (\<exists>q j. L q = Some j \<and> in_block q j k) \<longrightarrow> smem st' k = smem st k))"
    by (rule malloc_live)
next
  fix L st p n assume "live lo hi L st" "L p = Some n"
  then show "\<exists>st'. free p st = Some st' \<and> live lo hi (L(p := None)) st' \<and>
        (\<forall>k. k \<in> {k. unat k < unat lo \<or> hi \<le> unat k} \<or> (\<exists>q j. q \<noteq> p \<and> L q = Some j \<and> in_block q j k) \<longrightarrow> smem st' k = smem st k)"
    by (rule free_live)
next
  fix L st p assume l: "live lo hi L st" and p: "L p = None"
  obtain F A where "heap_ok lo hi F A st" "L = blocks_of (smem st) (set A)" using l by (rule liveE)
  with p show "free p st = Some st" by (intro free_other) (auto simp: blocks_of_def simp flip: ADDR_image)
next
  fix L st p n assume l: "live lo hi L st" and p: "L p = Some n"
  obtain F A where h: "heap_ok lo hi F A st" and L: "L = blocks_of (smem st) (set A)" using l by (rule liveE)
  note C = coreD [OF heap_okD(1) [OF h]]
  define a where "a = p - 12"
  have a: "a \<in> set F \<union> set A \<union> {}" "p = ADDR a" "n = unat (rsize (smem st) a)"
    using p by (auto simp: a_def L blocks_of_def split: if_splits)
  note N = node_address [OF C(1) a(1)] and T = tiledD [OF C(1) a(1)]
  have "4 dvd n" using T(4,5) by (simp add: a(3) end_of_def dvd_add_right_iff)
  then show "aligned4 p \<and> p \<noteq> 0 \<and> unat p + n < 2 ^ 31 \<and> 4 dvd n"
    using N block_range(1) [OF C(1) a(1)] T(3,8) by (simp add: a(2,3))
next
  fix L st p i q j and k :: u32
  assume l: "live lo hi L st" and p: "L p = Some i" "L q = Some j" "p \<noteq> q" "in_block p i k"
  obtain F A where h: "heap_ok lo hi F A st" and L: "L = blocks_of (smem st) (set A)" using l by (rule liveE)
  note C = coreD [OF heap_okD(1) [OF h]]
  define a b where "a = p - 12" and "b = q - 12"
  have ab: "a \<in> set F \<union> set A \<union> {}" "p = ADDR a" "i = unat (rsize (smem st) a)"
     "b \<in> set F \<union> set A \<union> {}" "q = ADDR b" "j = unat (rsize (smem st) b)"
    using p by (auto simp: a_def b_def L blocks_of_def split: if_splits)
  then have "unat a < unat b \<or> unat b < unat a" using p(3) by (metis word_unat_eq_iff linorder_neqE_nat)
  then show "\<not> in_block q j k"
    using tiledD(7) [OF C(1) ab(1,4)] tiledD(7) [OF C(1) ab(4,1)] p(4)
    using block_range(2) [OF C(1) ab(1)] block_range(2) [OF C(1) ab(4)] by (auto simp: ab(2,3,5,6))
next
  fix L st p n and k :: u32
  assume l: "live lo hi L st" and p: "L p = Some n" "in_block p n k"
  obtain F A where h: "heap_ok lo hi F A st" and L: "L = blocks_of (smem st) (set A)" using l by (rule liveE)
  note C = coreD [OF heap_okD(1) [OF h]]
  define a where "a = p - 12"
  have a: "a \<in> set F \<union> set A \<union> {}" "p = ADDR a" "n = unat (rsize (smem st) a)"
    using p by (auto simp: a_def L blocks_of_def split: if_splits)
  then show "k \<notin> {k. unat k < unat lo \<or> hi \<le> unat k}"
    using p(2) block_range(2) [OF C(1) a(1)] tiledD(1,3) [OF C(1) a(1)] by simp
next
  fix L st m assume l: "live lo hi L st"
    and m: "\<forall>k. m k \<noteq> smem st k \<longrightarrow> k \<in> {k. unat k < unat lo \<or> hi \<le> unat k} \<or> (\<exists>q j. L q = Some j \<and> in_block q j k)"
  obtain F A where h: "heap_ok lo hi F A st" and L: "L = blocks_of (smem st) (set A)" using l by (rule liveE)
  note C = coreD [OF heap_okD(1) [OF h]]
  have ub: "user_byte (set F \<union> set A) k" if "m k \<noteq> smem st k" for k
    using m [rule_format, OF that]
  proof (elim disjE exE conjE)
    assume "k \<in> {k. unat k < unat lo \<or> hi \<le> unat k}"
    then show ?thesis using tiled_user_outside [OF C(1), of k] by simp
  next
    fix q j assume q: "L q = Some j" "in_block q j k"
    then have a: "q - 12 \<in> set F \<union> set A \<union> {}" "j = unat (rsize (smem st) (q - 12))"
      by (auto simp: L blocks_of_def split: if_splits)
    then show ?thesis
      using tiled_user_byte [OF C(1) a(1), of k] block_range(2) [OF C(1) a(1), of k] q(2) by simp
  qed
  have H: "rsize m a = rsize (smem st) a" if "a \<in> set A" for a
    using heap_fill(2) [OF h, of m a] ub that by blast
  have "blocks_of m (set A) = L" unfolding L by (rule blocks_of_cong, rule H)
  moreover have "smem (st\<lparr>smem := m\<rparr>) = m" by simp
  ultimately have "L = blocks_of (smem (st\<lparr>smem := m\<rparr>)) (set A)" by metis
  then show "live lo hi L (st\<lparr>smem := m\<rparr>)" using heap_fill(1) [OF h, of m] ub liveI by blast
qed simp

subsection \<open>Properties\<close>

text \<open>A pool of 4 kB for the witnesses.\<close>

definition pool_4k :: smalloc where
  "pool_4k = smalloc_set_memory_pool 4096 8192
     \<lparr>smem = (\<lambda>_. 0), available = 0, allocated = 0, total_mem = 0, alloc_len = 0, avail_len = 0\<rparr>"

lemma pool_4k_ok: "heap_ok 4096 8192 [4096] [] pool_4k" "rsize (smem pool_4k) 4096 = 4084"
proof -
  show h: "heap_ok 4096 8192 [4096] [] pool_4k"
    unfolding pool_4k_def using pool_ok [of 4096 8192] by (simp add: aligned4_def)
  have "end_of (smem pool_4k) 4096 = 8192"
    using tiledD(6) [OF coreD(1) [OF heap_okD(1) [OF h]], of 4096] by (simp add: end_of_def)
  then have "unat (rsize (smem pool_4k) 4096) = 4084" by (simp add: end_of_def)
  then show "rsize (smem pool_4k) 4096 = 4084" by (simp add: word_unat_eq_iff)
qed

text \<open>
  C31: \<open>smalloc_set_memory_pool\<close> with word-aligned bounds establishes the heap invariant, with the
  whole pool as one free block and nothing allocated.
\<close>

theorem set_memory_pool_ok:
  assumes "aligned4 lo" "lo \<noteq> 0" "aligned4 hi" "unat lo + 12 \<le> unat hi" "unat hi < 2 ^ 31"
  shows "heap_ok lo (unat hi) [lo] [] (smalloc_set_memory_pool lo hi st)"
  by (rule pool_ok [OF assms])

theorem set_memory_pool_ok_witness: "heap_ok 4096 8192 [4096] [] (smalloc_set_memory_pool 4096 8192 pool_4k)"
  using set_memory_pool_ok [of 4096 8192 pool_4k] by (simp add: aligned4_def)

text \<open>\<open>malloc\<close> returns NULL, changing nothing, when no free block is large enough.\<close>

theorem malloc_full:
  assumes "heap_ok lo hi F A st" "\<forall>d\<in>set F. \<not> sz \<le> rsize (smem st) d"
  shows "malloc sz st = Some (st, 0)"
  by (rule malloc_none [OF assms])

theorem malloc_full_witness: "malloc 4085 pool_4k = Some (pool_4k, 0)"
  using malloc_full [OF pool_4k_ok(1), of 4085] by (simp add: pool_4k_ok)

text \<open>
  C8: when some free block is large enough, \<open>malloc\<close> terminates with a block \<open>b\<close> of the free list
  of minimal size (best fit), keeps the heap invariant with \<open>b\<close> allocated, takes exactly the bytes
  of \<open>b\<close> (the part it keeps after splitting) from the free space, and leaves every allocated block
  and every byte outside the pool unchanged.
\<close>

theorem malloc_best_fit:
  assumes "heap_ok lo hi F A st" "\<exists>d\<in>set F. sz \<le> rsize (smem st) d"
  shows "\<exists>st' b F' A'. malloc sz st = Some (st', ADDR b) \<and> heap_ok lo hi F' A' st' \<and>
    b \<in> set F \<and> (\<forall>d\<in>set F. sz \<le> rsize (smem st) d \<longrightarrow> rsize (smem st) b \<le> rsize (smem st) d) \<and>
    set A' = Set.insert b (set A) \<and> b \<notin> set A \<and> usize (smem st') b = sz \<and> keeps lo hi (set A) st st' \<and>
    space (end_of (smem st')) (set F') = space (end_of (smem st)) (set F) - {unat b..<end_of (smem st') b}"
  using malloc_some [OF assms] by blast

theorem malloc_best_fit_witness: "\<exists>st' F' A'. malloc 100 pool_4k = Some (st', 4108) \<and> heap_ok 4096 8192 F' A' st'"
proof -
  obtain st' b F' A' where "malloc 100 pool_4k = Some (st', ADDR b)" "heap_ok 4096 8192 F' A' st'" "b = 4096"
    using malloc_best_fit [OF pool_4k_ok(1), of 100] by (auto simp: pool_4k_ok)
  then show ?thesis by (auto simp: ADDR_def)
qed

text \<open>
  C7: \<open>free\<close> of an allocated block terminates, keeps the heap invariant (so the freed block is
  merged with both neighbours), gives exactly the bytes of the block back to the free space, and
  leaves the other allocated blocks and every byte outside the pool unchanged.
\<close>

theorem free_correct:
  assumes "heap_ok lo hi F A st" "t \<in> set A"
  shows "\<exists>st' F'. free (ADDR t) st = Some st' \<and> heap_ok lo hi F' (removeAll t A) st' \<and>
    keeps lo hi (set A - {t}) st st' \<and>
    space (end_of (smem st')) (set F') = space (end_of (smem st)) (set F) \<union> {unat t..<end_of (smem st) t}"
  by (rule free_spec [OF assms])

theorem free_correct_witness:
  "\<exists>st st' F'. malloc 100 pool_4k = Some (st, 4108) \<and> free 4108 st = Some st' \<and> heap_ok 4096 8192 F' [] st'"
proof -
  obtain st' b F' A' where m: "malloc 100 pool_4k = Some (st', ADDR b)" "heap_ok 4096 8192 F' A' st'" "b = 4096" "set A' = {b}"
    using malloc_some [OF pool_4k_ok(1), of 100] by (auto simp: pool_4k_ok)
  then obtain st'' F'' where "free (ADDR b) st' = Some st''" "heap_ok 4096 8192 F'' (removeAll b A') st''"
    using free_correct [OF m(2), of b] by auto
  moreover have "removeAll b A' = []" using m(4) by (simp add: removeAll_filter_not_eq filter_empty_conv)
  ultimately show ?thesis using m(1,3) by (auto simp: ADDR_def)
qed

text \<open>\<open>free\<close> ignores NULL and every address that is not an allocated block.\<close>

theorem free_ignores:
  assumes "heap_ok lo hi F A st" "p \<notin> ADDR ` set A"
  shows "free p st = Some st"
  by (rule free_other [OF assms])

theorem free_ignores_witness: "free 5000 pool_4k = Some pool_4k"
  using free_ignores [OF pool_4k_ok(1), of 5000] by simp

text \<open>
  C28: freeing what \<open>malloc\<close> has just returned restores the allocated blocks, with their contents,
  and the free space.
\<close>

theorem free_malloc:
  assumes "heap_ok lo hi F A st" "malloc sz st = Some (st', p)" "p \<noteq> 0"
  shows "\<exists>st'' F'' A''. free p st' = Some st'' \<and> heap_ok lo hi F'' A'' st'' \<and> set A'' = set A \<and>
    keeps lo hi (set A) st st'' \<and>
    space (end_of (smem st'')) (set F'') = space (end_of (smem st)) (set F)"
proof -
  have "\<exists>d\<in>set F. sz \<le> rsize (smem st) d" using malloc_none [OF assms(1), of sz] assms(2,3) by auto
  then obtain b F' A' where m: "p = ADDR b" "heap_ok lo hi F' A' st'" "b \<in> set F" "set A' = Set.insert b (set A)"
    "b \<notin> set A" "keeps lo hi (set A) st st'" "end_of (smem st') b \<le> end_of (smem st) b"
    "space (end_of (smem st')) (set F') = space (end_of (smem st)) (set F) - {unat b..<end_of (smem st') b}"
    using malloc_some [OF assms(1), of sz] assms(2) by auto
  then obtain st'' F'' where f: "free p st' = Some st''" "heap_ok lo hi F'' (removeAll b A') st''"
    "keeps lo hi (set A' - {b}) st' st''"
    "space (end_of (smem st'')) (set F'') = space (end_of (smem st')) (set F') \<union> {unat b..<end_of (smem st') b}"
    using free_spec [OF m(2), of b] by auto
  have A: "set A' - {b} = set A" using m(4,5) by auto
  have "{unat b..<end_of (smem st') b} \<subseteq> space (end_of (smem st)) (set F)"
    using m(3,7) by (force simp: space_def)
  then have "space (end_of (smem st'')) (set F'') = space (end_of (smem st)) (set F)" using f(4) m(8) by auto
  moreover have "keeps lo hi (set A) st st''" using keeps_trans [OF m(6)] f(3) A by simp
  moreover have "set (removeAll b A') = set A" using A by simp
  ultimately show ?thesis using f(1,2) by blast
qed

theorem free_malloc_witness:
  "\<exists>st st' F'. malloc 8 pool_4k = Some (st, 4108) \<and> free 4108 st = Some st' \<and> heap_ok 4096 8192 F' [] st'"
proof -
  obtain st where m: "malloc 8 pool_4k = Some (st, 4108)"
    using malloc_some [OF pool_4k_ok(1), of 8] by (auto simp: pool_4k_ok ADDR_def)
  then show ?thesis using free_malloc [OF pool_4k_ok(1) m] by auto
qed

end
