(* ===== verification/HeapClients.thy ===== *)
theory HeapClients
  imports SmallocInv
begin

text \<open>
  The library's own clients of the allocator, \<open>realloc\<close> (smalloc.c), \<open>calloc\<close> (stdlib.h) and
  \<open>strdup\<close> (string.c), proved from the allocator contract: each keeps the heap consistent and
  every byte outside the block it hands out.
\<close>

unbundle bit_operations_syntax

subsection \<open>Distances between blocks\<close>

context allocator begin

text \<open>The distance from one live block to another is at least the size of the first.\<close>

lemma block_distance:
  assumes "ok L st" "L p = Some n" "L q = Some j" "p \<noteq> q" "0 < j"
  shows "n \<le> unat (q - p)"
proof (rule ccontr)
  assume "\<not> n \<le> unat (q - p)"
  then have "in_block p n q" by (simp add: in_block_def)
  moreover have "in_block q j q" using assms(5) by (simp add: in_block_def)
  ultimately show False using apart [OF assms(1-4)] by blast
qed

lemma safe_block: "L p = Some n \<Longrightarrow> i < n \<Longrightarrow> n \<le> 2 ^ 32 \<Longrightarrow> safe L (p + of_nat i)"
  unfolding safe_def in_block_def by (intro disjI2 exI [of _ p] exI [of _ n]) (simp add: unat_of_nat)

end

subsection \<open>realloc\<close>

lemma copy_out:
  assumes "4 dvd k" "0 < unat sz \<longrightarrow> k \<le> unat (q - p)"
  shows "\<exists>m'. memcpy m q p sz = Some (m', q) \<and> (\<forall>i. i < k \<and> i < unat sz \<longrightarrow> m' (q + of_nat i) = m (p + of_nat i)) \<and>
    (\<forall>a. \<not> in_block q (unat sz) a \<longrightarrow> m' a = m a)"
proof (cases "unat sz \<le> k")
  case True
  then have d: "unat sz \<le> unat (q - p)" using assms(2) by (cases "unat sz = 0") auto
  have len: "unat sz \<le> 2 ^ 32" by simp
  have "poke m q (peek m p (unat sz)) (q + of_nat i) = m (p + of_nat i)" if "i < unat sz" for i
    using poke_inside [of "peek m p (unat sz)" i m q] that len by (simp add: nth_peek)
  moreover have "poke m q (peek m p (unat sz)) a = m a" if "\<not> in_block q (unat sz) a" for a
    using poke_outside [of "peek m p (unat sz)" q a m] that len by simp
  ultimately show ?thesis using memcpy_poke [of q p sz m] d by auto
next
  case False
  then have "k \<le> unat sz" "0 < unat sz" by auto
  then show ?thesis using memcpy_prefix [of k sz q p m] assms by auto
qed

lemma realloc_live:
  assumes l: "live lo hi L st" and p: "L p = Some n"
  shows "realloc p sz st = Some (st, 0) \<or>
    (\<exists>st' q j. realloc p sz st = Some (st', q) \<and> q \<noteq> 0 \<and> L q = None \<and> unat sz \<le> j \<and>
      live lo hi (L(q \<mapsto> j, p := None)) st' \<and>
      (\<forall>i. i < n \<and> i < unat sz \<longrightarrow> smem st' (q + of_nat i) = smem st (p + of_nat i)) \<and>
      (\<forall>k. smalloc.safe lo hi (L(p := None)) k \<longrightarrow> smem st' k = smem st k))"
proof -
  have pb: "p \<noteq> 0" "unat p + n < 2 ^ 31" "4 dvd n" using smalloc.block [OF l p] by auto
  obtain st1 q where m: "malloc sz st = Some (st1, q)" using smalloc.alloc_total [OF l] by blast
  show ?thesis
  proof (cases "q = 0")
    case True
    then show ?thesis using m smalloc.alloc_null [OF l] by (auto simp: realloc_def)
  next
    case False
    obtain j where j: "L q = None" "unat sz \<le> j" "live lo hi (L(q \<mapsto> j)) st1"
      "\<And>k. smalloc.safe lo hi L k \<Longrightarrow> smem st1 k = smem st k"
      "\<And>k. smalloc.safe lo hi L k \<Longrightarrow> \<not> in_block q j k"
      using smalloc.alloc_fresh [OF l m False] by blast
    have qp: "q \<noteq> p" using j(1) p by auto
    have p1: "(L(q \<mapsto> j)) p = Some n" and q1: "(L(q \<mapsto> j)) q = Some j" using p qp by auto
    have "0 < unat sz \<longrightarrow> n \<le> unat (q - p)"
      using smalloc.block_distance [OF j(3) p1 q1] qp j(2) by auto
    from copy_out [OF pb(3) this, of "smem st1"]
    obtain m' where m': "memcpy (smem st1) q p sz = Some (m', q)"
      "\<And>i. i < n \<Longrightarrow> i < unat sz \<Longrightarrow> m' (q + of_nat i) = smem st1 (p + of_nat i)"
      "\<And>a. \<not> in_block q (unat sz) a \<Longrightarrow> m' a = smem st1 a"
      by blast
    have out: "\<not> in_block q (unat sz) a" if "\<not> in_block q j a" for a
      using that j(2) by (simp add: in_block_def)
    have l2: "live lo hi (L(q \<mapsto> j)) (st1\<lparr>smem := m'\<rparr>)"
      using smalloc.fill [OF j(3) q1, of m'] m'(3) out by blast
    from smalloc.release_live [OF l2 p1] obtain st'
      where f: "free p (st1\<lparr>smem := m'\<rparr>) = Some st'" "live lo hi (L(q \<mapsto> j, p := None)) st'"
        and f': "\<forall>k. k \<in> {k. unat k < unat lo \<or> hi \<le> unat k} \<or>
          (\<exists>r i. r \<noteq> p \<and> (L(q \<mapsto> j)) r = Some i \<and> in_block r i k) \<longrightarrow> smem st' k = smem (st1\<lparr>smem := m'\<rparr>) k"
      by (elim exE conjE) (rule that)
    have f3: "smem st' k = m' k" if "smalloc.safe lo hi ((L(q \<mapsto> j))(p := None)) k" for k
    proof -
      have "k \<in> {k. unat k < unat lo \<or> hi \<le> unat k} \<or>
          (\<exists>r i. r \<noteq> p \<and> (L(q \<mapsto> j)) r = Some i \<and> in_block r i k)"
        using that unfolding smalloc.safe_def by (metis fun_upd_same fun_upd_other option.distinct(1))
      from f' [rule_format, OF this] show ?thesis by simp
    qed
    have "realloc p sz st = Some (st', q)"
      using m False pb(1) m'(1) f(1) by (simp add: realloc_def)
    moreover have "smem st' (q + of_nat i) = smem st (p + of_nat i)" if i: "i < n" "i < unat sz" for i
    proof -
      have "in_block q j (q + of_nat i)" using i j(2) pb(2) by (simp add: in_block_def unat_of_nat)
      then have "smem st' (q + of_nat i) = m' (q + of_nat i)"
        using qp by (intro f3) (auto simp: smalloc.safe_def)
      also have "\<dots> = smem st1 (p + of_nat i)" by (rule m'(2) [OF i])
      also have "\<dots> = smem st (p + of_nat i)"
        using pb(2) by (intro j(4) smalloc.safe_block [of L, OF p i(1)]) simp
      finally show ?thesis .
    qed
    moreover have "smem st' k = smem st k" if "smalloc.safe lo hi (L(p := None)) k" for k
    proof -
      have s: "smalloc.safe lo hi L k" using that by (auto simp: smalloc.safe_def split: if_splits)
      have "smem st' k = m' k"
        using that j(1) by (intro f3) (auto simp: smalloc.safe_def split: if_splits)
      then show ?thesis using m'(3) [OF out [OF j(5) [OF s]]] j(4) [OF s] by simp
    qed
    ultimately show ?thesis using False j(1,2) f(2) by blast
  qed
qed

subsection \<open>calloc and strdup\<close>

lemma calloc_live:
  assumes l: "live lo hi L st" and c: "calloc nmemb sz st = Some (st', p)" "p \<noteq> 0"
  shows "\<exists>n. L p = None \<and> unat (nmemb * sz) \<le> n \<and> live lo hi (L(p \<mapsto> n)) st' \<and>
    (\<forall>i. i < unat (nmemb * sz) \<longrightarrow> smem st' (p + of_nat i) = 0) \<and>
    (\<forall>k. smalloc.safe lo hi L k \<longrightarrow> smem st' k = smem st k)"
proof -
  let ?n = "nmemb * sz"
  obtain st1 where m: "malloc ?n st = Some (st1, p)" and st': "st' = st1\<lparr>smem := fst (memset (smem st1) p 0 ?n)\<rparr>"
    using c(1) by (auto simp: calloc_def)
  have len: "unat ?n \<le> 2 ^ 32" by simp
  have b: "smem st' = poke (smem st1) p (replicate (unat ?n) 0)"
    using memset_poke [of 0 "smem st1" p ?n] by (simp add: st' lo8_def)
  then have out: "smem st' k = smem st1 k" if "\<not> in_block p (unat ?n) k" for k
    using poke_outside [of "replicate (unat ?n) 0" p k "smem st1"] that len by simp
  obtain n where "L p = None" "unat ?n \<le> n" "live lo hi (L(p \<mapsto> n)) (st1\<lparr>smem := smem st'\<rparr>)"
    "\<And>k. smalloc.safe lo hi L k \<Longrightarrow> smem st' k = smem st k"
    using smalloc.alloc_fill [OF l m c(2), of "smem st'"] out by blast
  moreover have "st1\<lparr>smem := smem st'\<rparr> = st'" by (simp add: st')
  moreover have "smem st' (p + of_nat i) = 0" if "i < unat ?n" for i
    using poke_inside [of "replicate (unat ?n) 0" i "smem st1" p] that len by (simp add: b)
  ultimately show ?thesis by auto
qed

lemma strdup_live:
  assumes l: "live lo hi L st" and s: "cstr (smem st) s xs" and safe: "\<And>k. in_block s (Suc (length xs)) k \<Longrightarrow> smalloc.safe lo hi L k"
    and len: "length xs + 1 < 2 ^ 32"
  shows "strdup s st = Some (st, 0) \<or>
    (\<exists>st' p n. strdup s st = Some (st', p) \<and> p \<noteq> 0 \<and> L p = None \<and> live lo hi (L(p \<mapsto> n)) st' \<and>
      cstr (smem st') p xs \<and> cstr (smem st') s xs \<and> (\<forall>k. smalloc.safe lo hi L k \<longrightarrow> smem st' k = smem st k))"
proof -
  let ?n = "of_nat (length xs) + 1 :: u32"
  have n: "unat ?n = Suc (length xs)" using len by (simp add: unat_word_ariths unat_of_nat)
  have sl: "strlen (smem st) s = Some (of_nat (length xs))" using s by (simp add: strlen_def strlen_loop_cstr)
  obtain st1 p where m: "malloc ?n st = Some (st1, p)" using smalloc.alloc_total [OF l] by blast
  show ?thesis
  proof (cases "p = 0")
    case True
    then show ?thesis using m smalloc.alloc_null [OF l] sl by (auto simp: strdup_def)
  next
    case False
    obtain i where "L p = None" and i: "unat ?n \<le> i" and "live lo hi (L(p \<mapsto> i)) st1"
      and i2: "\<And>k. smalloc.safe lo hi L k \<Longrightarrow> smem st1 k = smem st k"
      and i3: "\<And>k. smalloc.safe lo hi L k \<Longrightarrow> \<not> in_block p i k"
      by (rule smalloc.alloc_fresh [OF l m False]) (rule that)
    have s1: "cstr (smem st1) s xs" using cstr_cong [OF s] safe i2 by blast
    have "Suc (length xs) \<le> unat (p - s)"
    proof (rule ccontr)
      assume "\<not> Suc (length xs) \<le> unat (p - s)"
      then have "in_block s (Suc (length xs)) p" by (simp add: in_block_def)
      then have "\<not> in_block p i p" using safe i3 by blast
      then show False using i n by (simp add: in_block_def)
    qed
    then have c: "strcpy (smem st1) p s = Some (poke (smem st1) p (xs @ [0]), p)"
      using strcpy_loop_poke [OF s1] by (simp add: strcpy_def)
    let ?m = "poke (smem st1) p (xs @ [0])"
    have len': "length (xs @ [0]) \<le> 2 ^ 32" using len by simp
    have out: "?m k = smem st1 k" if "\<not> in_block p (unat ?n) k" for k
      using poke_outside [OF len', of p k] that n by simp
    obtain j where j: "L p = None" "live lo hi (L(p \<mapsto> j)) (st1\<lparr>smem := ?m\<rparr>)"
      "\<And>k. smalloc.safe lo hi L k \<Longrightarrow> ?m k = smem st k"
      using smalloc.alloc_fill [OF l m False, of ?m] out by blast
    have "0 \<notin> set xs" using s by (simp add: cstr_peek)
    then have "cstr ?m p xs" using peek_poke_same [OF len', of "smem st1" p] by (simp add: cstr_peek)
    moreover have "cstr ?m s xs" using cstr_cong [OF s] safe j(3) by blast
    moreover have "strdup s st = Some (st1\<lparr>smem := ?m\<rparr>, p)"
      using sl m False c by (simp add: strdup_def)
    ultimately show ?thesis using False j
      by (intro disjI2 exI [of _ "st1\<lparr>smem := ?m\<rparr>"] exI [of _ p] exI [of _ j] conjI) simp_all
  qed
qed

subsection \<open>Properties\<close>

text \<open>
  C27: \<open>realloc\<close> of a live block either returns NULL and changes nothing, or returns a new live
  block of at least \<open>sz\<close> bytes that starts with the old contents (as far as both blocks reach),
  with the old block released and every other live byte unchanged.  It holds for growing blocks
  too, where \<open>memcpy\<close> reads past the end of the old one.
\<close>

theorem realloc_correct:
  assumes "live lo hi L st" "L p = Some n"
  shows "realloc p sz st = Some (st, 0) \<or>
    (\<exists>st' q j. realloc p sz st = Some (st', q) \<and> q \<noteq> 0 \<and> L q = None \<and> unat sz \<le> j \<and>
      live lo hi (L(q \<mapsto> j, p := None)) st' \<and>
      (\<forall>i. i < n \<and> i < unat sz \<longrightarrow> smem st' (q + of_nat i) = smem st (p + of_nat i)) \<and>
      (\<forall>k. smalloc.safe lo hi (L(p := None)) k \<longrightarrow> smem st' k = smem st k))"
  by (rule realloc_live [OF assms])

lemma pool_4k_live: "live 4096 8192 (\<lambda>_. None) pool_4k"
  using liveI [OF pool_4k_ok(1)] by (simp add: blocks_of_def fun_eq_iff)

lemma pool_4k_malloc:
  assumes "sz \<le> 4084"
  shows "\<exists>st n. malloc sz pool_4k = Some (st, 4108) \<and> live 4096 8192 [4108 \<mapsto> n] st"
proof -
  obtain st b F' A' where m: "malloc sz pool_4k = Some (st, ADDR b)" "heap_ok 4096 8192 F' A' st" "b = 4096" "set A' = {b}"
    using malloc_some [OF pool_4k_ok(1), of sz] assms by (auto simp: pool_4k_ok)
  have "blocks_of (smem st) (set A') = [4108 \<mapsto> unat (rsize (smem st) 4096)]"
    using m(3,4) by (auto simp: blocks_of_def fun_eq_iff)
  then show ?thesis using m(1,3) liveI [OF m(2)] by (auto simp: ADDR_def)
qed

theorem realloc_correct_witness:
  "\<exists>st r. malloc 8 pool_4k = Some (st, 4108) \<and> realloc 4108 16 st = Some r"
proof -
  obtain st n where m: "malloc 8 pool_4k = Some (st, 4108)" "live 4096 8192 [4108 \<mapsto> n] st"
    using pool_4k_malloc [of 8] by auto
  then show ?thesis using realloc_correct [OF m(2), of 4108 n 16] by auto
qed

text \<open>
  A non-NULL result of \<open>calloc\<close> is a fresh live block of at least \<open>nmemb * size\<close> bytes (as
  computed in 32 bits), all of them zero; every other live byte is unchanged.
\<close>

theorem calloc_correct:
  assumes "live lo hi L st" "calloc nmemb sz st = Some (st', p)" "p \<noteq> 0"
  shows "\<exists>n. L p = None \<and> unat (nmemb * sz) \<le> n \<and> live lo hi (L(p \<mapsto> n)) st' \<and>
    (\<forall>i. i < unat (nmemb * sz) \<longrightarrow> smem st' (p + of_nat i) = 0) \<and>
    (\<forall>k. smalloc.safe lo hi L k \<longrightarrow> smem st' k = smem st k)"
  by (rule calloc_live [OF assms])

theorem calloc_correct_witness:
  "\<exists>st. calloc 3 4 pool_4k = Some (st, 4108) \<and> smem st (4108 + of_nat 11) = 0"
proof -
  obtain st where c: "calloc 3 4 pool_4k = Some (st, 4108)"
    using pool_4k_malloc [of 12] by (auto simp: calloc_def)
  obtain n where "\<forall>i. i < unat (3 * 4 :: u32) \<longrightarrow> smem st (4108 + of_nat i) = 0"
    using calloc_correct [OF pool_4k_live c] by auto
  from spec [OF this, of 11] show ?thesis using c by simp
qed

text \<open>
  \<open>calloc\<close> does not test what \<open>malloc\<close> returned: when the pool is exhausted it clears the
  memory at address 0 and returns NULL.
\<close>

theorem calloc_writes_null:
  assumes "heap_ok lo hi F A st" "\<forall>d\<in>set F. \<not> nmemb * sz \<le> rsize (smem st) d"
  shows "calloc nmemb sz st = Some (st\<lparr>smem := poke (smem st) 0 (replicate (unat (nmemb * sz)) 0)\<rparr>, 0)"
  using malloc_none [OF assms] memset_poke [of 0 "smem st" 0 "nmemb * sz"] by (simp add: calloc_def lo8_def)

theorem calloc_writes_null_witness:
  "calloc 2 4000 pool_4k = Some (pool_4k\<lparr>smem := poke (smem pool_4k) 0 (replicate 8000 0)\<rparr>, 0)"
  using calloc_writes_null [OF pool_4k_ok(1), of 2 4000] by (simp add: pool_4k_ok)

text \<open>
  \<open>strdup\<close> of a string in live or static memory either returns NULL and changes nothing, or
  returns a fresh live block that holds an equal string; the original and every other live byte are
  unchanged.
\<close>

theorem strdup_correct:
  assumes "live lo hi L st" "cstr (smem st) s xs" "length xs + 1 < 2 ^ 32"
    "\<And>k. in_block s (Suc (length xs)) k \<Longrightarrow> smalloc.safe lo hi L k"
  shows "strdup s st = Some (st, 0) \<or>
    (\<exists>st' p n. strdup s st = Some (st', p) \<and> p \<noteq> 0 \<and> L p = None \<and> live lo hi (L(p \<mapsto> n)) st' \<and>
      cstr (smem st') p xs \<and> cstr (smem st') s xs \<and> (\<forall>k. smalloc.safe lo hi L k \<longrightarrow> smem st' k = smem st k))"
  by (rule strdup_live [OF assms(1,2,4,3)])

theorem strdup_correct_witness: "\<exists>r. strdup 100 pool_4k = Some r"
proof -
  have "rsize (smem pool_4k) 4096 = 4084" by (rule pool_4k_ok)
  have z: "smem pool_4k 100 = 0"
    by (simp add: pool_4k_def smalloc_set_memory_pool_def Let_def set_rsize_def set_next_def store32_def bytes32_def poke_apply)
  have "smalloc.safe 4096 8192 (\<lambda>_. None) k" if "in_block 100 (Suc (length ([] :: u8 list))) k" for k
    using that unfolding smalloc.safe_def by (simp add: in_block_Suc)
  with strdup_correct [OF pool_4k_live, of 100 "[]"] z show ?thesis by auto
qed

end
