(* ===== verification/PrintfText.thy ===== *)
theory PrintfText
  imports CStdlib
begin

text \<open>
  The text that printf(3) prescribes for a format and its arguments, on lists and numbers.  Nothing of
  vsnprintf.c is used.  A format has no text here (\<open>None\<close>) where the standard leaves it undefined, where
  it needs what the library was built without (floating point, wide characters), and where vsnprintf.c is known to
  depart from the standard; each of these departures is named where it is left out.
\<close>

subsection \<open>Digits\<close>

text \<open>The digits of a number, the last one first, and the characters for them.\<close>

fun places :: "nat \<Rightarrow> nat \<Rightarrow> nat list" where
  "places b n = n mod b # (if b \<le> n \<and> 1 < b then places b (n div b) else [])"

declare places.simps [simp del]

definition digit_text :: "bool \<Rightarrow> nat \<Rightarrow> u8" where
  "digit_text upper d = of_nat (if d < 10 then 48 + d else if upper then 65 + (d - 10) else 97 + (d - 10))"

definition natural_text :: "bool \<Rightarrow> nat \<Rightarrow> nat \<Rightarrow> u8 list" where
  "natural_text upper b n = rev (map (digit_text upper) (places b n))"

subsection \<open>Fields\<close>

text \<open>
  The flags are the set of their characters: 35 is \<open>#\<close>, 43 is \<open>+\<close>, 45 is \<open>-\<close>, 48 is \<open>0\<close>, 32 is a blank.
  The digits are filled up with zeros to the precision, and the field to its width: with blanks on the right for
  \<open>-\<close>, with zeros behind sign and prefix for \<open>0\<close> when there is no precision, with blanks on the left otherwise.
\<close>

definition integer_field :: "u8 set \<Rightarrow> nat \<Rightarrow> nat option \<Rightarrow> u8 list \<Rightarrow> u8 list \<Rightarrow> u8 list \<Rightarrow> u8 list" where
  "integer_field fl width prec sg pre ds =
     (let body = replicate (case prec of None \<Rightarrow> 0 | Some p \<Rightarrow> p - length ds) 48 @ ds;
          rest = width - length (sg @ pre @ body)
      in if 45 \<in> fl then sg @ pre @ body @ replicate rest 32
         else if 48 \<in> fl \<and> prec = None then sg @ pre @ replicate rest 48 @ body
         else replicate rest 32 @ sg @ pre @ body)"

definition string_field :: "u8 set \<Rightarrow> nat \<Rightarrow> nat option \<Rightarrow> u8 list \<Rightarrow> u8 list" where
  "string_field fl width prec xs =
     (let body = (case prec of None \<Rightarrow> xs | Some p \<Rightarrow> take p xs); rest = width - length body
      in if 45 \<in> fl then body @ replicate rest 32 else replicate rest 32 @ body)"

text \<open>A sign: \<open>-\<close> for a negative number, else \<open>+\<close> or a blank if asked for, \<open>+\<close> going first.\<close>

definition sign_field :: "u8 set \<Rightarrow> int \<Rightarrow> u8 list" where
  "sign_field fl v = (if v < 0 then [45] else if 43 \<in> fl then [43] else if 32 \<in> fl then [32] else [])"

text \<open>
  The alternate forms of octal and hexadecimal numbers.  Not covered, because of vsnprintf.c: a left-justified
  alternate form (its field comes out too wide), \<open>%#X\<close> (prints \<open>0x\<close> for \<open>0X\<close>), \<open>%#o\<close> with a precision (prints a zero more),
  the flag \<open>0\<close> with a precision (pads with zeros), and the number 0 with the precision 0 (prints a 0).
\<close>

definition prefix_field :: "u8 set \<Rightarrow> u8 \<Rightarrow> nat \<Rightarrow> u8 list" where
  "prefix_field fl c n = (if 35 \<in> fl \<and> n \<noteq> 0 then if c = 111 then [48] else if c = 120 then [48, 120] else [] else [])"

definition covered_number :: "u8 set \<Rightarrow> nat option \<Rightarrow> u8 \<Rightarrow> nat \<Rightarrow> bool" where
  "covered_number fl prec c n \<longleftrightarrow>
     (35 \<in> fl \<longrightarrow> c \<in> {111, 120} \<and> 45 \<notin> fl \<and> (c = 111 \<longrightarrow> prec = None)) \<and>
     (48 \<in> fl \<and> 45 \<notin> fl \<longrightarrow> prec = None) \<and> (n = 0 \<longrightarrow> prec \<noteq> Some 0)"

definition number_field :: "u8 set \<Rightarrow> nat \<Rightarrow> nat option \<Rightarrow> u8 \<Rightarrow> u32 \<Rightarrow> u8 list option" where
  "number_field fl width prec c v =
     (let signed = (c = 100 \<or> c = 105);
          n = (if signed then nat \<bar>sint v\<bar> else unat v);
          sg = (if signed then sign_field fl (sint v) else []);
          b = (if c = 98 then 2 else if c = 111 then 8 else if c = 120 \<or> c = 88 then 16 else 10)
      in if covered_number fl prec c n
         then Some (integer_field fl width prec sg (prefix_field fl c n) (natural_text (c = 88) b n)) else None)"

subsection \<open>Conversion specifications\<close>

definition flag_char :: "u8 \<Rightarrow> bool" where
  "flag_char c \<longleftrightarrow> c \<in> {35, 43, 45, 48, 32}"

definition decimal_char :: "u8 \<Rightarrow> bool" where
  "decimal_char c \<longleftrightarrow> 48 \<le> c \<and> c \<le> 57"

text \<open>\<open>*\<close>, which takes the next argument, or a decimal number, or nothing.\<close>

definition amount_field :: "u8 list \<Rightarrow> u32 list \<Rightarrow> (int option \<times> u8 list \<times> u32 list) option" where
  "amount_field xs ws =
     (if xs \<noteq> [] \<and> hd xs = 42 then if ws = [] then None else Some (Some (sint (hd ws)), tl xs, tl ws)
      else if takeWhile decimal_char xs = [] then Some (None, xs, ws)
      else Some (Some (decimal_value (takeWhile decimal_char xs)), dropWhile decimal_char xs, ws))"

text \<open>A width up to 2^29.  A negative \<open>*\<close> is left out: vsnprintf.c takes it for no width instead of the flag \<open>-\<close>.\<close>

definition width_field :: "u8 list \<Rightarrow> u32 list \<Rightarrow> (nat \<times> u8 list \<times> u32 list) option" where
  "width_field xs ws = (case amount_field xs ws of
       None \<Rightarrow> None
     | Some (None, ys, ws) \<Rightarrow> Some (0, ys, ws)
     | Some (Some w, ys, ws) \<Rightarrow> if 0 \<le> w \<and> w \<le> 2 ^ 29 then Some (nat w, ys, ws) else None)"

text \<open>
  A precision up to 2^29; a negative \<open>*\<close> is no precision.  A dot without a number, which stands for 0, is left out: vsnprintf.c
  takes it for no precision.
\<close>

definition precision_field :: "u8 list \<Rightarrow> u32 list \<Rightarrow> (nat option \<times> u8 list \<times> u32 list) option" where
  "precision_field xs ws =
     (if xs = [] \<or> hd xs \<noteq> 46 then Some (None, xs, ws)
      else case amount_field (tl xs) ws of
        None \<Rightarrow> None
      | Some (None, ys, ws) \<Rightarrow> None
      | Some (Some p, ys, ws) \<Rightarrow>
          if \<bar>p\<bar> \<le> 2 ^ 29 then Some (if p < 0 then None else Some (nat p), ys, ws) else None)"

text \<open>
  The argument \<open>v\<close> as the conversion \<open>c\<close> prints it; \<open>long\<close> is the modifier \<open>l\<close>, which changes nothing where \<open>long\<close>
  has 32 bits.  \<open>%c\<close> with a width above 1 is left out: vsnprintf.c ignores it.  \<open>%b\<close>, for binary numbers, is an extension
  that other C libraries have too.  What \<open>%p\<close> prints is defined by the implementation: here \<open>0x\<close>, unless the pointer is null,
  and eight digits.
\<close>

definition argument_text :: "(u32 \<Rightarrow> u8 list option) \<Rightarrow> u8 set \<Rightarrow> nat \<Rightarrow> nat option \<Rightarrow> bool \<Rightarrow> u8 \<Rightarrow> u32 \<Rightarrow> u8 list option" where
  "argument_text strs fl width prec long c v =
     (if c \<in> {98, 100, 105, 111, 117, 120, 88} then number_field fl width prec c v
      else if c = 99 \<and> \<not> long \<and> fl \<subseteq> {45} \<and> width \<le> 1 \<and> prec = None then Some [ucast v]
      else if c = 115 \<and> \<not> long \<and> fl \<subseteq> {45} \<and> v \<noteq> 0 then map_option (string_field fl width prec) (strs v)
      else if c = 112 \<and> \<not> long \<and> fl = {} \<and> width = 0 \<and> prec = None
      then (let ds = natural_text False 16 (unat v)
            in Some ((if v = 0 then [] else [48, 120]) @ replicate (8 - length ds) 48 @ ds))
      else None)"

text \<open>The text of the specification behind a \<open>%\<close>, the rest of the format and of the arguments.\<close>

definition conversion_text :: "(u32 \<Rightarrow> u8 list option) \<Rightarrow> u8 list \<Rightarrow> u32 list \<Rightarrow> (u8 list \<times> u8 list \<times> u32 list) option" where
  "conversion_text strs xs ws =
     (if xs \<noteq> [] \<and> hd xs = 37 then Some ([37], tl xs, ws)
      else case width_field (dropWhile flag_char xs) ws of None \<Rightarrow> None
      | Some (width, xs1, ws1) \<Rightarrow> (case precision_field xs1 ws1 of None \<Rightarrow> None
        | Some (prec, xs2, ws2) \<Rightarrow>
            let long = (xs2 \<noteq> [] \<and> hd xs2 = 108); xs3 = (if long then tl xs2 else xs2)
            in if xs3 = [] \<or> ws2 = [] then None
               else map_option (\<lambda>tx. (tx, tl xs3, tl ws2))
                 (argument_text strs (set (takeWhile flag_char xs)) width prec long (hd xs3) (hd ws2))))"

lemma amount_field_length: "amount_field xs ws = Some (n, ys, ws') \<Longrightarrow> length ys \<le> length xs"
  by (auto simp: amount_field_def length_dropWhile_le split: if_splits)

lemma conversion_text_length:
  assumes "conversion_text strs xs ws = Some (tx, ys, ws')"
  shows "length ys < length xs"
proof (cases "xs \<noteq> [] \<and> hd xs = 37")
  case True
  then show ?thesis using assms by (cases xs) (auto simp: conversion_text_def)
next
  case False
  then obtain width xs1 ws1 prec xs2 ws2 where
      w: "width_field (dropWhile flag_char xs) ws = Some (width, xs1, ws1)" and p: "precision_field xs1 ws1 = Some (prec, xs2, ws2)"
      and y: "ys = tl (if xs2 \<noteq> [] \<and> hd xs2 = 108 then tl xs2 else xs2)" "(if xs2 \<noteq> [] \<and> hd xs2 = 108 then tl xs2 else xs2) \<noteq> []"
    using assms by (auto simp: conversion_text_def Let_def split: option.splits if_splits)
  have "length xs1 \<le> length (dropWhile flag_char xs)"
    using w by (auto simp: width_field_def split: option.splits if_splits dest: amount_field_length)
  moreover have "length xs2 \<le> length xs1"
    using p by (auto simp: precision_field_def split: option.splits if_splits dest!: amount_field_length)
  moreover have "length ys < length xs2" using y by (auto split: if_splits)
  ultimately show ?thesis using length_dropWhile_le [of flag_char xs] by linarith
qed

subsection \<open>Formats\<close>

function printf_text :: "(u32 \<Rightarrow> u8 list option) \<Rightarrow> u8 list \<Rightarrow> u32 list \<Rightarrow> u8 list option" where
  "printf_text strs [] ws = Some []"
| "printf_text strs (c # xs) ws =
     (if c \<noteq> 37 then map_option (\<lambda>out. c # out) (printf_text strs xs ws)
      else case conversion_text strs xs ws of None \<Rightarrow> None
        | Some (tx, ys, ws') \<Rightarrow> map_option (\<lambda>out. tx @ out) (printf_text strs ys ws'))"
  by pat_completeness auto
termination
  by (relation "measure (\<lambda>(_, xs, _). length xs)") (auto dest: conversion_text_length)

end
