(* ===== verification/CPrintfProps.thy ===== *)
theory CPrintfProps
  imports CPrintf PrintfText
begin

text \<open>
  Formatted output against a reference on lists: the text that a format gives for its arguments.  The
  buffer receives as much of the text as it holds, and a terminator.
\<close>

unbundle bit_operations_syntax

subsection \<open>Requests of output\<close>

text \<open>\<open>written k m str out st\<close>: the \<open>out\<close> is in the buffer, which has room for \<open>k\<close> characters.\<close>

definition written :: "nat \<Rightarrow> mem \<Rightarrow> u32 \<Rightarrow> u8 list \<Rightarrow> vs \<Rightarrow> bool" where
  "written k m str out st \<longleftrightarrow> v_mem st = poke m str out \<and> v_p st = str + of_nat (length out) \<and>
     unat (v_size st) + length out = k"

text \<open>What the output routines do with a text: all of it is written, or the buffer is full.\<close>

definition puts :: "nat \<Rightarrow> mem \<Rightarrow> u32 \<Rightarrow> u8 list \<Rightarrow> u8 list \<Rightarrow> vs \<Rightarrow> vs_result \<Rightarrow> bool" where
  "puts k m str out xs st r \<longleftrightarrow> (case r of
     Inr st' \<Rightarrow> written k m str (out @ xs) st' \<and> v_fmt st' = v_fmt st \<and> v_ap st' = v_ap st \<and> v_numpr st' = v_numpr st
   | Inl st' \<Rightarrow> k < length (out @ xs) \<and> v_mem st' = poke m str (take k (out @ xs)) \<and> v_p st' = str + of_nat k)"

lemma putch_puts: "written k m str out st \<Longrightarrow> puts k m str out [ch] st (putch ch st)"
proof (cases "v_size st = 0")
  case False
  assume w: "written k m str out st"
  have "unat (v_size st) = Suc (unat (v_size st - 1))" using False unat_step1 [of "v_size st"] by (simp add: word_gt_0)
  then show ?thesis using w False by (auto simp: puts_def putch_def Let_def written_def poke_append add.assoc)
qed (auto simp: puts_def putch_def Let_def written_def)

lemma puts_written: "puts k m str out xs st (Inr st') \<Longrightarrow> written k m str (out @ xs) st'"
  by (simp add: puts_def)

lemma puts_then:
  assumes "puts k m str out xs st r" "\<And>st'. r = Inr st' \<Longrightarrow> puts k m str (out @ xs) ys st' (f st')"
  shows "puts k m str out (xs @ ys) st (case r of Inl st' \<Rightarrow> Inl st' | Inr st' \<Rightarrow> f st')"
proof (cases r)
  case (Inl st')
  then show ?thesis using assms(1) by (auto simp: puts_def)
next
  case (Inr st')
  then show ?thesis using assms(1) assms(2) [OF Inr] by (auto simp: puts_def split: sum.splits)
qed

lemma puts_nil: "written k m str out st \<Longrightarrow> puts k m str out [] st (Inr st)"
  by (simp add: puts_def)

lemma put_all_puts: "written k m str out st \<Longrightarrow> puts k m str out xs st (put_all xs st)"
proof (induction xs arbitrary: out st)
  case (Cons x xs)
  have "puts k m str out ([x] @ xs) st (case putch x st of Inl st' \<Rightarrow> Inl st' | Inr st' \<Rightarrow> put_all xs st')"
    using putch_puts [OF Cons.prems, of x] by (intro puts_then Cons.IH) (auto dest: puts_written)
  then show ?case by simp
qed (simp add: puts_nil)

text \<open>Texts one after the other.\<close>

definition step_puts :: "(vs \<Rightarrow> vs_result) \<Rightarrow> u8 list \<Rightarrow> bool" where
  "step_puts f xs \<longleftrightarrow> (\<forall>k m str out st. written k m str out st \<longrightarrow> puts k m str out xs st (f st))"

lemma step_puts_intros [simp]:
  "step_puts (putch c) [c]" "step_puts (put_all xs) xs" "step_puts Inr []" "step_puts (pad n c) (replicate (nat n) c)"
  by (auto simp: step_puts_def pad_def intro: putch_puts put_all_puts puts_nil)

lemma steps_puts: "list_all2 step_puts fs xss \<Longrightarrow> step_puts (steps fs) (concat xss)"
proof (induction rule: list_all2_induct)
  case (Cons f fs xs xss)
  show ?case
    unfolding step_puts_def
  proof (intro allI impI)
    fix k m str out st assume w: "written k m str out st"
    have p: "puts k m str out xs st (f st)" using Cons(1) w by (simp add: step_puts_def)
    have "puts k m str (out @ xs) (concat xss) st' (steps fs st')" if "f st = Inr st'" for st'
      using p Cons(3) by (auto simp: that step_puts_def dest: puts_written)
    from puts_then [OF p this] show "puts k m str out (concat (xs # xss)) st (steps (f # fs) st)" by simp
  qed
qed (simp add: step_puts_def puts_nil)

subsection \<open>Digits\<close>

lemma places_bound: "1 < b \<Longrightarrow> d \<in> set (places b n) \<Longrightarrow> d < b"
proof (induction b n rule: places.induct)
  case (1 b n)
  then show ?case by (auto simp: places.simps [of b n] split: if_splits)
qed

lemma places_value: "1 < b \<Longrightarrow> foldr (\<lambda>d v. d + b * v) (places b n) 0 = n"
proof (induction b n rule: places.induct)
  case (1 b n)
  then show ?case by (simp add: places.simps [of b n])
qed

lemma places_length: "1 < b \<Longrightarrow> n < b ^ k \<Longrightarrow> 0 < k \<Longrightarrow> length (places b n) \<le> k"
proof (induction k arbitrary: n)
  case (Suc k)
  show ?case
  proof (cases "b \<le> n")
    case True
    then have "0 < k" using Suc.prems by (cases k) auto
    moreover have "n div b < b ^ k" using Suc.prems by (simp add: less_mult_imp_div_less mult.commute)
    ultimately show ?thesis using Suc.IH [of "n div b"] Suc.prems(1) by (simp add: places.simps [of b n])
  qed (simp add: places.simps [of b n])
qed simp

lemma reversed_digits_places:
  "1 < unat base \<Longrightarrow> reversed_digits ds base u = Some (map (\<lambda>d. ds ! d) (places (unat base) (unat u)))"
proof (induction "unat u" arbitrary: u rule: less_induct)
  case less
  have d: "unat (u div base) = unat u div unat base" "unat (u mod base) = unat u mod unat base"
    by (simp_all add: unat_div unat_mod)
  have z: "u div base > 0 \<longleftrightarrow> unat base \<le> unat u"
    using d(1) less.prems by (simp add: word_gt_0 word_unat_eq_iff div_eq_0_iff not_less)
  show ?case
  proof (cases "u div base > 0")
    case True
    then have "unat (u div base) < unat u" using z d(1) less.prems by (simp add: div_less_dividend)
    from less.hyps [OF this less.prems] show ?thesis
      using True z less.prems by (simp add: reversed_digits.simps [of ds base u] places.simps [of "unat base" "unat u"] Let_def d)
  next
    case False
    then show ?thesis using z by (simp add: reversed_digits.simps [of ds base u] places.simps [of "unat base" "unat u"] Let_def d)
  qed
qed

subsection \<open>Numbers\<close>

text \<open>Widths and precisions for which the sums of the code do not overflow.\<close>

definition small :: "int \<Rightarrow> bool" where
  "small w \<longleftrightarrow> - (2 ^ 29) \<le> w \<and> w \<le> 2 ^ 29"

definition number_text :: "flags \<Rightarrow> int \<Rightarrow> int \<Rightarrow> u8 list \<Rightarrow> u8 list \<Rightarrow> u8 list \<Rightarrow> u8 list" where
  "number_text f width precision sg pre ds =
     (let body = replicate (nat (precision - int (length ds))) 48 @ ds;
          rest = nat (width - int (length (sg @ pre @ body)))
      in if f_left f then sg @ pre @ body @ replicate rest 32
         else if f_zero f then sg @ pre @ replicate rest 48 @ body
         else replicate rest 32 @ sg @ pre @ body)"

definition sign_text :: "flags \<Rightarrow> bool \<Rightarrow> u32 \<Rightarrow> u8 list" where
  "sign_text f sign v = (if sign \<and> sign_char f v \<noteq> 0 then [sign_char f v] else [])"

definition prefix_text :: "flags \<Rightarrow> u32 \<Rightarrow> u32 \<Rightarrow> u8 list" where
  "prefix_text f base v =
     (if f_alternate f \<and> v \<noteq> 0 then if base = 8 then [48] else if base = 16 then [48, 120] else [] else [])"

text \<open>The number that is printed is the absolute value.\<close>

definition magnitude :: "bool \<Rightarrow> u32 \<Rightarrow> nat" where
  "magnitude sign v = (if sign then nat \<bar>sint v\<bar> else unat v)"

definition digits_text :: "u8 list \<Rightarrow> nat \<Rightarrow> nat \<Rightarrow> u8 list" where
  "digits_text ds b n = rev (map (\<lambda>d. ds ! d) (places b n))"

lemma sint_unat:
  obtains u where "unat v = u" "u < 2 ^ 32" "sint (v :: u32) = (if u < 2 ^ 31 then int u else int u - 2 ^ 32)"
  using sint32 [of v] unat_bound32 [of v] that [of "unat v"] by simp

lemma unat_minus_word: "sint (v :: u32) < 0 \<Longrightarrow> unat (- v) = nat \<bar>sint v\<bar>"
  using unat_sub_if' [of 0 v] by (rule_tac sint_unat [of v]) (simp split: if_splits)

lemma magnitude_uval:
  "unat (if (if sign then sign_char f v else 0) = 45 then - v else v) = magnitude sign v"
proof (cases "sign \<and> sint v < 0")
  case True
  then show ?thesis using unat_minus_word [of v] by (simp add: sign_char_def magnitude_def)
next
  case False
  then have "(if sign then sign_char f v else 0) \<noteq> 45" by (auto simp: sign_char_def)
  moreover have "sign \<Longrightarrow> unat v = nat \<bar>sint v\<bar>" using False by (rule_tac sint_unat [of v]) (simp split: if_splits)
  ultimately show ?thesis by (simp add: magnitude_def)
qed

lemma magnitude_less: "magnitude sign v < 2 ^ 32"
proof -
  obtain u where u: "unat v = u" "u < 2 ^ 32" "sint v = (if u < 2 ^ 31 then int u else int u - 2 ^ 32)"
    by (rule sint_unat)
  then have "nat \<bar>sint v\<bar> < 2 ^ 32" by (cases "u < 2 ^ 31") simp_all
  then show ?thesis using u(1,2) by (simp add: magnitude_def)
qed

lemma digits_text_length:
  assumes "b \<in> {2, 8, 10, 16}"
  shows "1 \<le> length (digits_text ds b (magnitude sign v))" "length (digits_text ds b (magnitude sign v)) \<le> 32"
proof -
  show "1 \<le> length (digits_text ds b (magnitude sign v))"
    by (simp add: digits_text_def places.simps [of b])
  have "(2 :: nat) ^ 32 \<le> b ^ 32" using assms by (intro power_mono) auto
  then show "length (digits_text ds b (magnitude sign v)) \<le> 32"
    using magnitude_less [of sign v] assms by (auto simp: digits_text_def intro!: places_length)
qed

text \<open>The number routine writes the text of the number.\<close>

definition plain_prefix :: "flags \<Rightarrow> u32 \<Rightarrow> u32 \<Rightarrow> bool" where
  "plain_prefix f base v \<longleftrightarrow> \<not> (f_alternate f \<and> v \<noteq> 0 \<and> (base = 2 \<or> f_left f))"

lemma print_number_text:
  assumes base: "base \<in> {2, 8, 10, 16}" and w: "small width" "small precision" and p: "plain_prefix f base v"
  shows "\<exists>np g. print_number f width precision sign base ds v st = Some (g (st\<lparr>v_numpr := np\<rparr>)) \<and> 0 \<le> np \<and> np \<le> 2 ^ 29 \<and>
    step_puts g (number_text f width precision (sign_text f sign v) (prefix_text f base v) (digits_text ds (unat base) (magnitude sign v)))"
proof -
  define cv where "cv = map (\<lambda>d. ds ! d) (places (unat base) (magnitude sign v))"
  define nd where "nd = int (length cv)"
  have dt: "digits_text ds (unat base) (magnitude sign v) = rev cv" by (simp add: digits_text_def cv_def)
  have b: "1 < unat base" "unat base \<in> {2, 8, 10, 16}" using base by auto
  have nd: "1 \<le> nd" "nd \<le> 32"
    using digits_text_length [OF b(2), of ds sign v] by (simp_all add: dt nd_def)
  have rd: "reversed_digits ds base (if (if sign then sign_char f v else 0) = 45 then - v else v) = Some cv"
    using reversed_digits_places [OF b(1), of ds "if (if sign then sign_char f v else 0) = 45 then - v else v"]
    unfolding magnitude_uval cv_def .
  define sc where "sc = (if sign then sign_char f v else 0)"
  define pf where "pf \<longleftrightarrow> f_alternate f \<and> v \<noteq> 0"
  define pre where "pre = prefix_text f base v"
  define sg where "sg = sign_text f sign v"
  define s1 where "s1 = (if sc \<noteq> 0 then 1 else 0 :: int)"
  define top where "top = (if nd > precision then nd else precision)"
  define wide where "wide \<longleftrightarrow> \<not> f_left f \<and> width > top + s1 + int (length pre)"
  define body where "body = (if wide \<and> f_zero f then width - s1 - int (length pre) else top)"
  have small: "- 536870912 \<le> width" "width \<le> 536870912" "precision \<le> 536870912" "nd \<le> 32" "1 \<le> nd"
    using w nd by (simp_all add: small_def)
  have lens: "int (length sg) = s1" "0 \<le> s1" "s1 \<le> 1" "length pre \<le> 2"
    by (auto simp: sg_def s1_def sc_def sign_text_def pre_def prefix_text_def)
  have pl: "pf \<Longrightarrow> base = 8 \<Longrightarrow> length pre = 1" "pf \<Longrightarrow> base = 16 \<Longrightarrow> length pre = 2" "pf \<Longrightarrow> base \<noteq> 2"
     "\<not> pf \<or> base = 10 \<Longrightarrow> pre = []" "pf \<Longrightarrow> \<not> f_left f"
    using p by (auto simp: pf_def pre_def prefix_text_def plain_prefix_def)
  have top: "1 \<le> top" "top \<le> 536870912" using small by (auto simp: top_def)
  have body: "1 \<le> body" "body \<le> 536870912" "nd \<le> body" using small top lens by (auto simp: body_def wide_def top_def)
  have e: "print_number f width precision sign base ds v st = Some (steps [
         pad (if wide \<and> \<not> f_zero f then width - (top + s1 + int (length pre)) else 0) 32,
         if sc \<noteq> 0 then putch sc else Inr,
         if pf then if base = 2 then putch 37 else if base = 8 then putch 48 else if base = 16 then put_all [48, 120] else Inr else Inr,
         pad (body - nd) 48, put_all (rev cv),
         if f_left f then pad (width - body - s1) 32 else Inr] (st\<lparr>v_numpr := body\<rparr>))"
  proof -
    note u = print_number_def Let_def rd [folded sc_def] sc_def [symmetric] pf_def [symmetric] option.map nd_def [symmetric] top_def [symmetric]
    consider "\<not> pf \<or> base = 10" | "pf" "base = 8" | "pf" "base = 16" using base pl(3) by auto
    then show ?thesis
    proof cases
      case 1
      then show ?thesis unfolding u using pl(4) small top
        by (cases "sc = 0"; cases "f_left f"; cases "f_zero f"; cases "width > top + s1"; simp add: wide_def body_def s1_def wrap32_id del: steps.simps)
    next
      case 2
      then show ?thesis unfolding u using pl(1,5) small top
        by (cases "sc = 0"; cases "f_zero f"; cases "width > top + s1 + 1"; simp add: wide_def body_def s1_def wrap32_id del: steps.simps)
    next
      case 3
      then show ?thesis unfolding u using pl(2,5) small top
        by (cases "sc = 0"; cases "f_zero f"; cases "width > top + s1 + 2"; simp add: wide_def body_def s1_def wrap32_id del: steps.simps)
    qed
  qed
  let ?xs = "[replicate (nat (if wide \<and> \<not> f_zero f then width - (top + s1 + int (length pre)) else 0)) 32, sg, pre,
      replicate (nat (body - nd)) 48, rev cv, if f_left f then replicate (nat (width - body - s1)) 32 else []]"
  have A: "step_puts (steps [
         pad (if wide \<and> \<not> f_zero f then width - (top + s1 + int (length pre)) else 0) 32,
         if sc \<noteq> 0 then putch sc else Inr,
         if pf then if base = 2 then putch 37 else if base = 8 then putch 48 else if base = 16 then put_all [48, 120] else Inr else Inr,
         pad (body - nd) 48, put_all (rev cv),
         if f_left f then pad (width - body - s1) 32 else Inr]) (concat ?xs)"
  proof (rule steps_puts)
    show "list_all2 step_puts [
         pad (if wide \<and> \<not> f_zero f then width - (top + s1 + int (length pre)) else 0) 32,
         if sc \<noteq> 0 then putch sc else Inr,
         if pf then if base = 2 then putch 37 else if base = 8 then putch 48 else if base = 16 then put_all [48, 120] else Inr else Inr,
         pad (body - nd) 48, put_all (rev cv),
         if f_left f then pad (width - body - s1) 32 else Inr] ?xs"
      using pl(3) by (simp add: sg_def sign_text_def sc_def pre_def prefix_text_def pf_def)
  qed
  have B: "concat ?xs = number_text f width precision sg pre (rev cv)"
  proof -
    have b: "replicate (nat (precision - int (length (rev cv)))) 48 @ rev cv = replicate (nat (top - nd)) 48 @ rev cv"
      by (auto simp: top_def nd_def)
    have l: "int (length (sg @ pre @ replicate (nat (top - nd)) 48 @ rev cv)) = s1 + int (length pre) + top"
      using lens top nd_def by (simp add: top_def split: if_splits)
    have z: "replicate (nat (width - s1 - int (length pre) - nd)) (48 :: u8) =
        replicate (nat (width - (s1 + int (length pre) + top))) 48 @ replicate (nat (top - nd)) 48" if "wide" "f_zero f"
      using that top_def by (simp add: wide_def nat_add_distrib [symmetric] flip: replicate_add)
    have lp: "f_left f \<Longrightarrow> pre = []" using pl(4,5) by blast
    show ?thesis
      unfolding number_text_def b Let_def l
      using lp lens top z by (auto simp: body_def wide_def)
  qed
  have "0 \<le> body" "body \<le> 2 ^ 29" using body by simp_all
  then show ?thesis
    unfolding e dt pre_def [symmetric] sg_def [symmetric] using A [unfolded B] by (intro exI conjI) (rule refl | assumption)+
qed

subsection \<open>What the output leaves alone\<close>

text \<open>Strings and argument words that lie outside of the buffer.\<close>

definition outside :: "u32 \<Rightarrow> nat \<Rightarrow> u32 \<Rightarrow> bool" where
  "outside str k a \<longleftrightarrow> \<not> in_block str (Suc k) a"

fun fixed_str :: "(u32 \<Rightarrow> bool) \<Rightarrow> mem \<Rightarrow> u32 \<Rightarrow> u8 list \<Rightarrow> bool" where
  "fixed_str P m p [] \<longleftrightarrow> P p \<and> m p = 0"
| "fixed_str P m p (x # xs) \<longleftrightarrow> P p \<and> m p = x \<and> x \<noteq> 0 \<and> fixed_str P m (p + 1) xs"

fun fixed_args :: "(u32 \<Rightarrow> bool) \<Rightarrow> mem \<Rightarrow> u32 \<Rightarrow> u32 list \<Rightarrow> bool" where
  "fixed_args P m ap [] \<longleftrightarrow> True"
| "fixed_args P m ap (w # ws) \<longleftrightarrow> (\<forall>a. in_block ap 4 a \<longrightarrow> P a) \<and> load32 m ap = w \<and> fixed_args P m (ap + 4) ws"

lemma written_outside: "written k m str out st \<Longrightarrow> k < 2 ^ 32 \<Longrightarrow> outside str k a \<Longrightarrow> v_mem st a = m a"
  by (auto simp: written_def outside_def in_block_def intro!: poke_outside)

lemma fixed_str_cstr: "fixed_str P m p xs \<Longrightarrow> (\<And>a. P a \<Longrightarrow> m' a = m a) \<Longrightarrow> cstr m' p xs"
  by (induction xs arbitrary: p) auto

lemma fixed_str_drop: "fixed_str P m p xs \<Longrightarrow> i \<le> length xs \<Longrightarrow> fixed_str P m (p + of_nat i) (drop i xs)"
proof (induction i arbitrary: p xs)
  case (Suc i)
  then obtain x ys where "xs = x # ys" by (cases xs) auto
  then show ?case using Suc.IH [of "p + 1" ys] Suc.prems by (simp add: add.assoc)
qed simp

lemma fixed_args_load: "fixed_args P m ap (w # ws) \<Longrightarrow> (\<And>a. P a \<Longrightarrow> m' a = m a) \<Longrightarrow> load32 m' ap = w"
  using load32_cong [of ap m' m] by auto

subsection \<open>Strings\<close>

lemma put_string_n_puts:
  assumes "fixed_str (outside str k) m s xs" "k < 2 ^ 32"
  shows "written k m str out st \<Longrightarrow> puts k m str out (take n xs) st (put_string_n n s st)"
  using assms(1)
proof (induction n arbitrary: s xs out st)
  case (Suc n)
  note w = written_outside [OF Suc.prems(1) assms(2)]
  show ?case
  proof (cases xs)
    case Nil
    then show ?thesis using Suc.prems w by (simp add: puts_nil)
  next
    case (Cons x ys)
    have x: "v_mem st s = x" "x \<noteq> 0" using Suc.prems(2) w Cons by auto
    have "puts k m str out ([x] @ take n ys) st (case putch x st of Inl st' \<Rightarrow> Inl st' | Inr st' \<Rightarrow> put_string_n n (s + 1) st')"
      using putch_puts [OF Suc.prems(1), of x] Suc.prems(2) Cons by (intro puts_then Suc.IH) (auto dest: puts_written)
    then show ?thesis by (simp add: Cons x)
  qed
qed (simp add: puts_nil)

lemma put_string_puts:
  assumes "fixed_str (outside str k) m s xs" "k < 2 ^ 32" "written k m str out st"
  shows "puts k m str out xs st (put_string s st)"
  using assms(1,3)
proof (induction xs arbitrary: s out st)
  case Nil
  then show ?case using written_outside [OF Nil(2) assms(2)] by (simp add: put_string.simps [of s st] puts_nil)
next
  case (Cons x xs)
  have x: "v_mem st s = x" "x \<noteq> 0" using Cons.prems(1) written_outside [OF Cons.prems(2) assms(2)] by auto
  have "puts k m str out ([x] @ xs) st (case putch x st of Inl st' \<Rightarrow> Inl st' | Inr st' \<Rightarrow> put_string (s + 1) st')"
    using putch_puts [OF Cons.prems(2), of x] Cons.prems(1) by (intro puts_then Cons.IH) (auto dest: puts_written)
  then show ?case by (simp add: put_string.simps [of s st] x)
qed

definition string_text :: "flags \<Rightarrow> int \<Rightarrow> int \<Rightarrow> u8 list \<Rightarrow> u8 list" where
  "string_text f width precision xs =
     (let body = (if 0 \<le> precision then take (nat precision) xs else xs);
          rest = nat (width - int (length body))
      in if f_left f then body @ replicate rest 32 else replicate rest (if f_zero f then 48 else 32) @ body)"

lemma step_puts_pads: "step_puts (left_pad f n) (if f_left f then [] else replicate (nat n) (if f_zero f then 48 else 32))"
  "step_puts (right_pad f n) (if f_left f then replicate (nat n) 32 else [])"
  by (auto simp: left_pad_def right_pad_def)

text \<open>A conversion that writes \<open>xs\<close>, up to the value it leaves in \<open>numpr\<close>.\<close>

definition converts :: "nat \<Rightarrow> mem \<Rightarrow> u32 \<Rightarrow> u8 list \<Rightarrow> u8 list \<Rightarrow> vs \<Rightarrow> vs_result \<Rightarrow> bool" where
  "converts k m str out xs st r \<longleftrightarrow> (\<exists>n. puts k m str out xs (st\<lparr>v_numpr := n\<rparr>) r \<and> 0 \<le> n \<and> n \<le> 2 ^ 29)"

lemma written_numpr [simp]: "written k m str out (st\<lparr>v_numpr := n\<rparr>) = written k m str out st"
  by (simp add: written_def)

lemma converts_puts: "puts k m str out xs st r \<Longrightarrow> 0 \<le> v_numpr st \<Longrightarrow> v_numpr st \<le> 2 ^ 29 \<Longrightarrow> converts k m str out xs st r"
  unfolding converts_def by (rule exI [of _ "v_numpr st"]) simp

lemma number_converts:
  assumes "base \<in> {2, 8, 10, 16}" "small width" "small precision" "plain_prefix f base v" "written k m str out st"
  shows "\<exists>r. print_number f width precision sign base ds v st = Some r \<and> converts k m str out
    (number_text f width precision (sign_text f sign v) (prefix_text f base v) (digits_text ds (unat base) (magnitude sign v))) st r"
proof -
  obtain np g where g: "print_number f width precision sign base ds v st = Some (g (st\<lparr>v_numpr := np\<rparr>))" "0 \<le> np" "np \<le> 2 ^ 29"
    "step_puts g (number_text f width precision (sign_text f sign v) (prefix_text f base v) (digits_text ds (unat base) (magnitude sign v)))"
    using print_number_text [OF assms(1-4), of sign ds st] by blast
  have "written k m str out (st\<lparr>v_numpr := np\<rparr>)" using assms(5) by simp
  then show ?thesis using g unfolding step_puts_def converts_def by blast
qed

lemma string_body_puts:
  assumes "fixed_str (outside str k) m s xs" "k < 2 ^ 32" "written k m str out st"
  shows "puts k m str out (if 0 \<le> precision then take (nat precision) xs else xs) st
    ((if 0 \<le> precision then put_string_n (nat precision) s else put_string s) st)"
  using put_string_n_puts [OF assms(1,2,3)] put_string_puts [OF assms] by simp

lemma string_converts:
  assumes s: "s \<noteq> 0" "fixed_str (outside str k) m s xs" "length xs < 2 ^ 29" "k < 2 ^ 32" and w: "written k m str out st"
    and p: "small width" "small precision" "0 \<le> v_numpr st" "v_numpr st \<le> 2 ^ 29"
  shows "\<exists>r. print_string f width precision s st = Some r \<and> converts k m str out (string_text f width precision xs) st r"
proof -
  define body where "body = (if 0 \<le> precision then take (nat precision) xs else xs)"
  define n where "n = (if 0 < width then int (length body) else v_numpr st)"
  define st0 where "st0 = st\<lparr>v_numpr := n\<rparr>"
  define lp where "lp = (if 0 < width then left_pad f (width - int (length body)) else Inr)"
  have len: "strlen (v_mem st) s = Some (of_nat (length xs))"
    by (rule strlen_correct [OF fixed_str_cstr [OF s(2) written_outside [OF w s(4)]]])
  have l: "sint (of_nat (length xs) :: u32) = int (length xs)"
    using s(3) sint_of_int32 [of "int (length xs)"] by simp
  have nb: "(if 0 \<le> precision \<and> precision < int (length xs) then precision else int (length xs)) = int (length body)"
    by (auto simp: body_def)
  have n: "0 \<le> n" "n \<le> 2 ^ 29" using p(3,4) s(3) by (auto simp: n_def body_def)
  let ?rest = "\<lambda>st. steps [if 0 \<le> precision then put_string_n (nat precision) s else put_string s, right_pad f (wrap32 (width - v_numpr st))] st"
  have wd: "wrap32 (width - int (length body)) = width - int (length body)" "wrap32 (width - n) = width - n"
    using p(1) n s(3) by (auto simp: small_def body_def intro!: wrap32_id)
  have e: "print_string f width precision s st = Some (case lp st0 of Inl st' \<Rightarrow> Inl st' | Inr st' \<Rightarrow> ?rest st')"
  proof (cases "0 < width")
    case True
    show ?thesis
      unfolding print_string_def len Let_def Option.bind.simps l nb wd(1) lp_def st0_def n_def using s(1) True by simp
  next
    case False
    then show ?thesis using s(1) by (simp add: print_string_def lp_def st0_def n_def)
  qed
  define L where "L = (if 0 < width \<and> \<not> f_left f then replicate (nat (width - int (length body))) (if f_zero f then 48 else 32) else [] :: u8 list)"
  define R where "R = (if f_left f then replicate (nat (width - n)) 32 else [] :: u8 list)"
  have w0: "written k m str out st0" using w by (simp add: st0_def)
  have "step_puts lp L" using step_puts_pads(1) [of f "width - int (length body)"] by (auto simp: lp_def L_def)
  then have pl: "puts k m str out L st0 (lp st0)" using w0 by (simp add: step_puts_def)
  have "puts k m str (out @ L) (body @ R) st1 (?rest st1)" if "lp st0 = Inr st1" for st1
  proof -
    have w1: "written k m str (out @ L) st1" "v_numpr st1 = n" using pl [unfolded that] by (simp_all add: puts_def) (simp add: st0_def)
    let ?b = "if 0 \<le> precision then put_string_n (nat precision) s else put_string s"
    have b: "puts k m str (out @ L) body st1 (?b st1)" using string_body_puts [OF s(2,4) w1(1)] by (simp add: body_def)
    have "step_puts (right_pad f (width - n)) R" using step_puts_pads(2) [of f "width - n"] by (simp add: R_def)
    then have "puts k m str ((out @ L) @ body) R st2 (right_pad f (width - n) st2)" if "?b st1 = Inr st2" for st2
      using b that by (simp add: step_puts_def puts_def)
    from puts_then [OF b this]
    have "puts k m str (out @ L) (body @ R) st1 (case ?b st1 of Inl st' \<Rightarrow> Inl st' | Inr st' \<Rightarrow> right_pad f (width - n) st')" .
    moreover have "steps [f, g] st = (case f st of Inl st' \<Rightarrow> Inl st' | Inr st' \<Rightarrow> g st')" for f g st
      by (cases "f st"; cases "g st"; simp split: sum.splits)
    ultimately show ?thesis by (simp only: w1(2) wd(2))
  qed
  from puts_then [OF pl this]
  have A: "puts k m str out (L @ body @ R) st0 (case lp st0 of Inl st' \<Rightarrow> Inl st' | Inr st' \<Rightarrow> ?rest st')" .
  have B: "L @ body @ R = string_text f width precision xs"
    using n by (auto simp: L_def R_def n_def string_text_def body_def [symmetric] Let_def)
  show ?thesis using A [unfolded B st0_def] n e [unfolded st0_def] unfolding converts_def by blast
qed

subsection \<open>Specifications on lists\<close>

fun set_flag :: "u8 \<Rightarrow> flags \<Rightarrow> flags" where
  "set_flag c f =
     (if c = 45 then f\<lparr>f_left := True\<rparr> else if c = 43 then f\<lparr>f_sign := True\<rparr> else if c = 32 then f\<lparr>f_space := True\<rparr>
      else if c = 48 then f\<lparr>f_zero := True\<rparr> else f\<lparr>f_alternate := True\<rparr>)"

definition is_flag :: "u8 \<Rightarrow> bool" where
  "is_flag c \<longleftrightarrow> c \<in> {45, 43, 32, 48, 35}"

definition is_digit :: "u8 \<Rightarrow> bool" where
  "is_digit c \<longleftrightarrow> isdigit (sint c)"

lemma not_digit_0 [simp]: "\<not> is_digit 0"
  by (simp add: is_digit_def isdigit_def)

definition amount_of :: "u8 list \<Rightarrow> int" where
  "amount_of cs = foldl (\<lambda>n c. wrap32 (wrap32 (n * 10) + (sint c - 48))) 0 cs"

lemma parse_flags_list:
  "cstr m p xs \<Longrightarrow> parse_flags m p f = Some (fold set_flag (takeWhile is_flag xs) f, p + of_nat (length (takeWhile is_flag xs)))"
proof (induction xs arbitrary: p f)
  case (Cons x xs)
  then show ?case by (auto simp: parse_flags.simps [of m p f] is_flag_def add.assoc)
qed (simp add: parse_flags.simps)

lemma parse_number_list:
  "cstr m p xs \<Longrightarrow> parse_number m p n = Some (foldl (\<lambda>n c. wrap32 (wrap32 (n * 10) + (sint c - 48))) n (takeWhile is_digit xs),
     p + of_nat (length (takeWhile is_digit xs)))"
proof (induction xs arbitrary: p n)
  case (Cons x xs)
  then show ?case by (auto simp: parse_number.simps [of m p n] is_digit_def Let_def add.assoc)
qed (simp add: parse_number.simps Let_def isdigit_def)

fun spec_amount :: "u8 list \<Rightarrow> u32 list \<Rightarrow> (int \<times> u8 list \<times> u32 list) option" where
  "spec_amount (c # xs) ws =
     (if c = 42 then (case ws of w # ws \<Rightarrow> Some (sint w, xs, ws) | [] \<Rightarrow> None)
      else if is_digit c then Some (amount_of (takeWhile is_digit (c # xs)), dropWhile is_digit (c # xs), ws)
      else Some (- 1, c # xs, ws))"
| "spec_amount [] ws = Some (- 1, [], ws)"

definition spec_precision :: "u8 list \<Rightarrow> u32 list \<Rightarrow> (int \<times> u8 list \<times> u32 list) option" where
  "spec_precision xs ws = (case xs of c # ys \<Rightarrow> if c = 46 then spec_amount ys ws else Some (- 1, xs, ws) | [] \<Rightarrow> Some (- 1, xs, ws))"

definition drop_modifier :: "u8 list \<Rightarrow> u8 list" where
  "drop_modifier xs = (case xs of c # ys \<Rightarrow> if c \<in> {104, 108, 76} then ys else xs | [] \<Rightarrow> [])"

text \<open>\<open>reading k m xs ws st\<close>: the rest of the format is \<open>xs\<close> and the arguments to come are \<open>ws\<close>.\<close>

definition reading :: "(u32 \<Rightarrow> bool) \<Rightarrow> mem \<Rightarrow> u8 list \<Rightarrow> u32 list \<Rightarrow> vs \<Rightarrow> bool" where
  "reading P m xs ws st \<longleftrightarrow> fixed_str P m (v_fmt st) xs \<and> fixed_args P m (v_ap st) ws \<and> (\<forall>a. P a \<longrightarrow> v_mem st a = m a)"

lemma reading_skip:
  "reading P m xs ws st \<Longrightarrow> i \<le> length xs \<Longrightarrow> reading P m (drop i xs) ws (st\<lparr>v_fmt := v_fmt st + of_nat i\<rparr>)"
  by (simp add: reading_def fixed_str_drop)

lemma reading_cstr: "reading P m xs ws st \<Longrightarrow> cstr (v_mem st) (v_fmt st) xs"
  by (auto simp: reading_def intro: fixed_str_cstr)

text \<open>Two states that differ in what they have read only.\<close>

definition same_output :: "vs \<Rightarrow> vs \<Rightarrow> bool" where
  "same_output st st' \<longleftrightarrow> v_mem st' = v_mem st \<and> v_p st' = v_p st \<and> v_size st' = v_size st \<and> v_numpr st' = v_numpr st"

lemma same_output_fmt [simp]: "same_output st st" "same_output st (st'\<lparr>v_fmt := a\<rparr>) = same_output st st'" "same_output st (st'\<lparr>v_ap := a\<rparr>) = same_output st st'"
  by (auto simp: same_output_def)

lemma dropWhile_drop: "dropWhile P xs = drop (length (takeWhile P xs)) xs"
  by (metis dropWhile_eq_drop)

lemma parse_amount_list:
  assumes "reading P m xs ws st" "spec_amount xs ws = Some (n, ys, ws')"
  shows "\<exists>st'. parse_amount st = Some (n, st') \<and> reading P m ys ws' st' \<and> same_output st st'"
proof (cases xs)
  case Nil
  then have "v_mem st (v_fmt st) = 0" using reading_cstr [OF assms(1)] by simp
  then show ?thesis using assms Nil by (auto simp: parse_amount_def isdigit_def)
next
  case (Cons c cs)
  have c: "v_mem st (v_fmt st) = c" using reading_cstr [OF assms(1)] Cons by simp
  consider (star) w where "c = 42" "ws = w # ws'" "n = sint w" "ys = cs"
    | (digit) "c \<noteq> 42" "is_digit c" "n = amount_of (takeWhile is_digit xs)" "ys = dropWhile is_digit xs" "ws' = ws"
    | (none) "c \<noteq> 42" "\<not> is_digit c" "n = - 1" "ys = xs" "ws' = ws"
    using assms(2) Cons by (auto split: if_splits list.splits)
  then show ?thesis
  proof cases
    case star
    have "load32 (v_mem st) (v_ap st) = w" using assms(1) star(2) by (auto simp: reading_def intro: fixed_args_load)
    moreover have "reading P m cs ws' (st\<lparr>v_ap := v_ap st + 4, v_fmt := v_fmt st + 1\<rparr>)"
      using assms(1) star(2) Cons by (simp add: reading_def)
    ultimately show ?thesis using star c by (simp add: parse_amount_def va_arg_def)
  next
    case digit
    let ?l = "length (takeWhile is_digit xs)"
    have "parse_number (v_mem st) (v_fmt st) 0 = Some (n, v_fmt st + of_nat ?l)"
      using parse_number_list [OF reading_cstr [OF assms(1)], of 0] digit(3) by (simp add: amount_of_def)
    moreover have "reading P m ys ws' (st\<lparr>v_fmt := v_fmt st + of_nat ?l\<rparr>)"
      using reading_skip [OF assms(1), of ?l] digit(4,5) by (simp add: dropWhile_drop length_takeWhile_le)
    ultimately show ?thesis using digit(1,2) c by (simp add: parse_amount_def is_digit_def)
  next
    case none
    then show ?thesis using assms(1) c by (simp add: parse_amount_def is_digit_def)
  qed
qed

lemma parse_precision_list:
  assumes "reading P m xs ws st" "spec_precision xs ws = Some (n, ys, ws')"
  shows "\<exists>st'. parse_precision st = Some (n, st') \<and> reading P m ys ws' st' \<and> same_output st st'"
proof (cases "xs \<noteq> [] \<and> hd xs = 46")
  case True
  then obtain cs where xs: "xs = 46 # cs" by (cases xs) auto
  have "reading P m cs ws (st\<lparr>v_fmt := v_fmt st + 1\<rparr>)" using reading_skip [OF assms(1), of 1] xs by simp
  from parse_amount_list [OF this] show ?thesis
    using assms(2) xs reading_cstr [OF assms(1)] by (simp add: parse_precision_def spec_precision_def same_output_def)
next
  case False
  then show ?thesis using assms reading_cstr [OF assms(1)]
    by (cases xs) (auto simp: parse_precision_def spec_precision_def)
qed

lemma parse_modifier_list:
  assumes "reading P m xs ws st"
  shows "reading P m (drop_modifier xs) ws (parse_modifier st)" "same_output st (parse_modifier st)"
  using assms reading_cstr [OF assms] reading_skip [OF assms, of 1]
  by (cases xs; auto simp: parse_modifier_def drop_modifier_def)+

text \<open>
  The text of a conversion and the arguments behind it.  \<open>strs\<close> gives the strings that pointers point
  to.  Left out (\<open>None\<close>): \<open>%n\<close>, missing arguments, huge widths, and the alternate forms for which
  \<open>plain_prefix\<close> is false.
\<close>

definition number_spec :: "u32 \<Rightarrow> bool \<Rightarrow> u8 list \<Rightarrow> flags \<Rightarrow> int \<Rightarrow> int \<Rightarrow> u32 list \<Rightarrow> (u8 list \<times> u32 list) option" where
  "number_spec base sign ds f width precision ws =
     (case ws of [] \<Rightarrow> None
      | v # ws \<Rightarrow> if plain_prefix f base v
          then Some (number_text f width precision (sign_text f sign v) (prefix_text f base v) (digits_text ds (unat base) (magnitude sign v)), ws)
          else None)"

definition spec_text :: "(u32 \<Rightarrow> u8 list option) \<Rightarrow> u8 \<Rightarrow> flags \<Rightarrow> int \<Rightarrow> int \<Rightarrow> u32 list \<Rightarrow> (u8 list \<times> u32 list) option" where
  "spec_text strs c f width precision ws =
     (if c = 98 then number_spec 2 False (take 2 lower_digits) f width precision ws
      else if c = 111 then number_spec 8 False (take 9 lower_digits) f width precision ws
      else if c = 112 then number_spec 16 False lower_digits (f\<lparr>f_alternate := True\<rparr>) 8 8 ws
      else if c = 120 then number_spec 16 False lower_digits f width precision ws
      else if c = 88 then number_spec 16 False upper_digits f width precision ws
      else if c = 100 \<or> c = 105 then number_spec 10 True (take 10 lower_digits) f width precision ws
      else if c = 117 then number_spec 10 False (take 10 lower_digits) f width precision ws
      else if c = 115
      then (case ws of [] \<Rightarrow> None
        | s # ws \<Rightarrow> if s = 0 then Some ([40, 110, 117, 108, 108, 41], ws)
            else map_option (\<lambda>xs. (string_text f width precision xs, ws)) (strs s))
      else if c = 99 then (case ws of [] \<Rightarrow> None | v # ws \<Rightarrow> Some ([lo8 v], ws))
      else if c = 37 then Some ([37], ws)
      else if c = 110 then None
      else Some ([37, c], ws))"

definition spec :: "(u32 \<Rightarrow> u8 list option) \<Rightarrow> u8 list \<Rightarrow> u32 list \<Rightarrow> (u8 list \<times> u8 list \<times> u32 list) option" where
  "spec strs xs ws =
     (case spec_amount (dropWhile is_flag xs) ws of None \<Rightarrow> None
      | Some (width, xs1, ws1) \<Rightarrow> (case spec_precision xs1 ws1 of None \<Rightarrow> None
        | Some (precision, xs2, ws2) \<Rightarrow> (case drop_modifier xs2 of [] \<Rightarrow> None
          | c # ys \<Rightarrow> if small width \<and> small precision
              then map_option (\<lambda>(text, ws3). (text, ys, ws3)) (spec_text strs c (fold set_flag (takeWhile is_flag xs) no_flags) width precision ws2)
              else None)))"

text \<open>The strings lie outside of the buffer.\<close>

definition strings_ok :: "(u32 \<Rightarrow> bool) \<Rightarrow> mem \<Rightarrow> (u32 \<Rightarrow> u8 list option) \<Rightarrow> bool" where
  "strings_ok P m strs \<longleftrightarrow> (\<forall>s xs. strs s = Some xs \<longrightarrow> fixed_str P m s xs \<and> length xs < 2 ^ 29)"

definition converted :: "nat \<Rightarrow> mem \<Rightarrow> u32 \<Rightarrow> u8 list \<Rightarrow> u8 list \<Rightarrow> u32 \<Rightarrow> u32 \<Rightarrow> vs_result \<Rightarrow> bool" where
  "converted k m str out xs fmt ap r \<longleftrightarrow> (case r of
     Inr st' \<Rightarrow> written k m str (out @ xs) st' \<and> v_fmt st' = fmt \<and> v_ap st' = ap \<and> 0 \<le> v_numpr st' \<and> v_numpr st' \<le> 2 ^ 29
   | Inl st' \<Rightarrow> k < length (out @ xs) \<and> v_mem st' = poke m str (take k (out @ xs)) \<and> v_p st' = str + of_nat k)"

lemma converts_converted: "converts k m str out xs st r \<Longrightarrow> converted k m str out xs (v_fmt st) (v_ap st) r"
  by (auto simp: converts_def puts_def converted_def split: sum.splits)

lemma number_spec_converts:
  assumes "number_spec base sign ds f width precision ws = Some (text, ws')" "base \<in> {2, 8, 10, 16}" "small width" "small precision"
    and "fixed_args P m (v_ap st) ws" "\<And>a. P a \<Longrightarrow> v_mem st a = m a" "written k m str out st"
  shows "\<exists>r. print_number f width precision sign base ds (fst (va_arg st)) (snd (va_arg st)) = Some r \<and>
    converted k m str out text (v_fmt st) (v_ap st + 4) r \<and> fixed_args P m (v_ap st + 4) ws'"
proof -
  obtain v where v: "ws = v # ws'" "plain_prefix f base v"
    "text = number_text f width precision (sign_text f sign v) (prefix_text f base v) (digits_text ds (unat base) (magnitude sign v))"
    using assms(1) by (auto simp: number_spec_def split: list.splits if_splits)
  have a: "va_arg st = (v, st\<lparr>v_ap := v_ap st + 4\<rparr>)"
    using fixed_args_load [OF assms(5) [unfolded v(1)] assms(6)] by (simp add: va_arg_def)
  have "written k m str out (st\<lparr>v_ap := v_ap st + 4\<rparr>)" using assms(7) by (simp add: written_def)
  from number_converts [OF assms(2-4) v(2) this, of sign ds] show ?thesis
    using assms(5) by (auto simp: a v dest!: converts_converted)
qed

lemma convert_spec:
  assumes T: "spec_text strs c f width precision ws = Some (text, ws')" and sm: "small width" "small precision"
    and A: "fixed_args (outside str k) m (v_ap st) ws" and O: "k < 2 ^ 32" "strings_ok (outside str k) m strs"
    and w: "written k m str out st" "0 \<le> v_numpr st" "v_numpr st \<le> 2 ^ 29"
  shows "\<exists>r ap. convert str c f width precision st = Some r \<and> converted k m str out text (v_fmt st) ap r \<and> fixed_args (outside str k) m ap ws'"
proof -
  note wo = written_outside [OF w(1) O(1)]
  note N = number_spec_converts [OF _ _ _ _ A wo w(1)]
  have small8: "small 8" by (simp add: small_def)
  have w4: "written k m str out (st\<lparr>v_ap := a\<rparr>)" for a using w(1) by (simp add: written_def)
  note c4 = converts_converted [OF converts_puts, of k m str out _ "st\<lparr>v_ap := v_ap st + 4\<rparr>"]
  note c0 = converts_converted [OF converts_puts, of k m str out _ st]
  note df = spec_text_def convert_def Let_def split_beta
  consider (num_b) "c = 98" | (num_o) "c = 111" | (num_p) "c = 112" | (num_x) "c = 120" | (num_X) "c = 88" | (num_d) "c = 100 \<or> c = 105" | (num_u) "c = 117"
    | (str) "c = 115" | (chr) "c = 99" | (percent) "c = 37" | (none) "c \<notin> {98, 111, 112, 120, 88, 100, 105, 117, 115, 99, 37}"
    by blast
  then show ?thesis
  proof cases
    case num_b then show ?thesis using N [of 2 False "take 2 lower_digits" f width precision "text" ws'] T sm by (auto simp: df)
  next
    case num_o then show ?thesis using N [of 8 False "take 9 lower_digits" f width precision "text" ws'] T sm by (auto simp: df)
  next
    case num_p then show ?thesis using N [of 16 False lower_digits "f\<lparr>f_alternate := True\<rparr>" 8 8 "text" ws'] T small8 by (auto simp: df)
  next
    case num_x then show ?thesis using N [of 16 False lower_digits f width precision "text" ws'] T sm by (auto simp: df)
  next
    case num_X then show ?thesis using N [of 16 False upper_digits f width precision "text" ws'] T sm by (auto simp: df)
  next
    case num_d then show ?thesis using N [of 10 True "take 10 lower_digits" f width precision "text" ws'] T sm by (elim disjE) (auto simp: df)
  next
    case num_u then show ?thesis using N [of 10 False "take 10 lower_digits" f width precision "text" ws'] T sm by (auto simp: df)
  next
    case str
    then obtain a where a: "ws = a # ws'" using T by (auto simp: spec_text_def split: list.splits if_splits)
    have arg: "va_arg st = (a, st\<lparr>v_ap := v_ap st + 4\<rparr>)" using fixed_args_load [OF A [unfolded a] wo] by (simp add: va_arg_def)
    show ?thesis
    proof (cases "a = 0")
      case True
      then have t: "text = [40, 110, 117, 108, 108, 41]" using T str a by (simp add: spec_text_def)
      have "convert str c f width precision st = Some (put_all text (st\<lparr>v_ap := v_ap st + 4\<rparr>))"
        using True str by (simp add: convert_def arg print_string_def t)
      then show ?thesis using c4 [OF put_all_puts [OF w4]] w A a by fastforce
    next
      case False
      then obtain xs where xs: "strs a = Some xs" "text = string_text f width precision xs" using T str a by (auto simp: spec_text_def)
      have f: "fixed_str (outside str k) m a xs" "length xs < 2 ^ 29" using O(2) xs(1) by (auto simp: strings_ok_def)
      obtain r where r: "print_string f width precision a (st\<lparr>v_ap := v_ap st + 4\<rparr>) = Some r"
          "converts k m str out text (st\<lparr>v_ap := v_ap st + 4\<rparr>) r"
        using string_converts [OF False f O(1) w4 assms(2,3)] w(2,3) xs(2) by auto
      then show ?thesis using converts_converted [OF r(2)] A a str by (auto simp: convert_def arg)
    qed
  next
    case chr
    then obtain v where v: "ws = v # ws'" "text = [lo8 v]" using T by (auto simp: spec_text_def split: list.splits)
    have arg: "va_arg st = (v, st\<lparr>v_ap := v_ap st + 4\<rparr>)" using fixed_args_load [OF A [unfolded v(1)] wo] by (simp add: va_arg_def)
    then show ?thesis using c4 [OF putch_puts [OF w4]] w A v chr by (fastforce simp: convert_def)
  next
    case percent
    then show ?thesis using T c0 [OF putch_puts [OF w(1)] w(2,3)] A by (auto simp: df)
  next
    case none
    then show ?thesis using T c0 [OF put_all_puts [OF w(1)] w(2,3)] A by (auto simp: df simp del: put_all.simps split: if_splits)
  qed
qed

lemma conversion_spec:
  assumes R: "reading (outside str k) m xs ws st" and T: "spec strs xs ws = Some (text, ys, ws')"
    and O: "k < 2 ^ 32" "strings_ok (outside str k) m strs" and w: "written k m str out st" "0 \<le> v_numpr st" "v_numpr st \<le> 2 ^ 29"
  shows "\<exists>r fmt ap. conversion str st = Some r \<and> converted k m str out text fmt ap r \<and>
    fixed_str (outside str k) m fmt ys \<and> fixed_args (outside str k) m ap ws'"
proof -
  let ?P = "outside str k" and ?f = "fold set_flag (takeWhile is_flag xs) no_flags" and ?l = "length (takeWhile is_flag xs)"
  obtain width xs1 ws1 precision xs2 ws2 c where S: "spec_amount (dropWhile is_flag xs) ws = Some (width, xs1, ws1)"
      "spec_precision xs1 ws1 = Some (precision, xs2, ws2)" "drop_modifier xs2 = c # ys" "small width" "small precision"
      "spec_text strs c ?f width precision ws2 = Some (text, ws')"
    using T by (auto simp: spec_def split: option.splits list.splits if_splits)
  have f: "parse_flags (v_mem st) (v_fmt st) no_flags = Some (?f, v_fmt st + of_nat ?l)"
    by (rule parse_flags_list [OF reading_cstr [OF R]])
  have R0: "reading ?P m (dropWhile is_flag xs) ws (st\<lparr>v_fmt := v_fmt st + of_nat ?l\<rparr>)"
    using reading_skip [OF R, of ?l] by (simp add: dropWhile_drop length_takeWhile_le)
  obtain st1 where st1: "parse_amount (st\<lparr>v_fmt := v_fmt st + of_nat ?l\<rparr>) = Some (width, st1)" "reading ?P m xs1 ws1 st1"
      "same_output (st\<lparr>v_fmt := v_fmt st + of_nat ?l\<rparr>) st1"
    using parse_amount_list [OF R0 S(1)] by blast
  obtain st2 where st2: "parse_precision st1 = Some (precision, st2)" "reading ?P m xs2 ws2 st2" "same_output st1 st2"
    using parse_precision_list [OF st1(2) S(2)] by blast
  define st3 where "st3 = parse_modifier st2"
  have st3: "reading ?P m (c # ys) ws2 st3" "same_output st2 st3"
    using parse_modifier_list [OF st2(2)] S(3) by (simp_all add: st3_def)
  define st4 where "st4 = st3\<lparr>v_fmt := v_fmt st3 + 1\<rparr>"
  have o: "v_mem st4 = v_mem st" "v_p st4 = v_p st" "v_size st4 = v_size st" "v_numpr st4 = v_numpr st"
    using st1(3) st2(3) st3(2) by (simp_all add: same_output_def st4_def)
  have R4: "fixed_str ?P m (v_fmt st4) ys" "fixed_args ?P m (v_ap st4) ws2" "v_mem st3 (v_fmt st3) = c"
    using st3(1) reading_cstr [OF st3(1)] by (simp_all add: reading_def st4_def)
  have "written k m str out st4" using w(1) o by (simp add: written_def)
  then obtain r ap where r: "convert str c ?f width precision st4 = Some r" "converted k m str out text (v_fmt st4) ap r" "fixed_args ?P m ap ws'"
    using convert_spec [OF S(6,4,5) R4(2) O] w(2,3) o(4) by metis
  have "conversion str st = Some r"
    using f st1(1) st2(1) R4(3) r(1) by (simp add: conversion_def st3_def [symmetric] st4_def Let_def)
  then show ?thesis using r(2,3) R4(1) by blast
qed

subsection \<open>Whole formats\<close>

lemma spec_amount_length: "spec_amount xs ws = Some (n, ys, ws') \<Longrightarrow> length ys \<le> length xs"
  by (cases "(xs, ws)" rule: spec_amount.cases) (auto split: if_splits list.splits intro: le_SucI length_dropWhile_le)

lemma spec_precision_length: "spec_precision xs ws = Some (n, ys, ws') \<Longrightarrow> length ys \<le> length xs"
  by (auto simp: spec_precision_def split: list.splits if_splits dest!: spec_amount_length)

lemma spec_length: "spec strs xs ws = Some (text, ys, ws') \<Longrightarrow> length ys < length xs"
proof -
  assume "spec strs xs ws = Some (text, ys, ws')"
  then obtain width xs1 ws1 precision xs2 ws2 c where S: "spec_amount (dropWhile is_flag xs) ws = Some (width, xs1, ws1)"
      "spec_precision xs1 ws1 = Some (precision, xs2, ws2)" "drop_modifier xs2 = c # ys"
    by (auto simp: spec_def split: option.splits list.splits if_splits)
  have "length (drop_modifier xs2) \<le> length xs2" by (auto simp: drop_modifier_def split: list.splits)
  then show ?thesis
    using S(3) spec_amount_length [OF S(1)] spec_precision_length [OF S(2)] length_dropWhile_le [of is_flag xs] by simp
qed

function formatted :: "(u32 \<Rightarrow> u8 list option) \<Rightarrow> u8 list \<Rightarrow> u32 list \<Rightarrow> u8 list option" where
  "formatted strs [] ws = Some []"
| "formatted strs (c # xs) ws =
     (if c \<noteq> 37 then map_option (\<lambda>out. c # out) (formatted strs xs ws)
      else case spec strs xs ws of None \<Rightarrow> None
        | Some (tx, ys, ws') \<Rightarrow> map_option (\<lambda>out. tx @ out) (formatted strs ys ws'))"
  by pat_completeness auto
termination
  by (relation "measure (\<lambda>(_, xs, _). length xs)") (auto dest: spec_length)

text \<open>The characters before a \<open>%\<close>.\<close>

lemma copy_text_puts:
  assumes "fixed_str (outside str k) m (v_fmt st) xs" "k < 2 ^ 32" "written k m str out st"
  shows "let pre = takeWhile (\<lambda>c. c \<noteq> 37) xs; post = dropWhile (\<lambda>c. c \<noteq> 37) xs
    in case copy_text st of
       Inl st' \<Rightarrow> (post = [] \<or> k < length (out @ pre)) \<and> v_mem st' = poke m str (take k (out @ pre)) \<and>
         v_p st' = str + of_nat (min k (length (out @ pre)))
     | Inr st' \<Rightarrow> post \<noteq> [] \<and> written k m str (out @ pre) st' \<and> fixed_str (outside str k) m (v_fmt st') (tl post) \<and>
         v_ap st' = v_ap st \<and> v_numpr st' = v_numpr st"
  using assms(1,3)
proof (induction xs arbitrary: out st)
  case Nil
  then have "v_mem st (v_fmt st) = 0" using written_outside [OF Nil(2) assms(2)] by simp
  then show ?case using Nil by (auto simp: copy_text.simps [of st] written_def Let_def)
next
  case (Cons x xs)
  have x: "v_mem st (v_fmt st) = x" "x \<noteq> 0" "fixed_str (outside str k) m (v_fmt st + 1) xs"
    using Cons.prems(1) written_outside [OF Cons.prems(2) assms(2)] by auto
  consider "x = 37" | "x \<noteq> 37" "v_size st = 0" | "x \<noteq> 37" "v_size st \<noteq> 0" by blast
  then show ?case
  proof cases
    case 1
    then show ?thesis using x Cons.prems by (simp add: copy_text.simps [of st] written_def Let_def)
  next
    case 2
    then show ?thesis using x Cons.prems by (simp add: copy_text.simps [of st] written_def Let_def)
  next
    case 3
    let ?st = "st\<lparr>v_fmt := v_fmt st + 1, v_size := v_size st - 1, v_mem := (v_mem st)(v_p st := x), v_p := v_p st + 1\<rparr>"
    have "unat (v_size st) = Suc (unat (v_size st - 1))" using 3(2) unat_step1 [of "v_size st"] by (simp add: word_gt_0)
    then have "written k m str (out @ [x]) ?st" using Cons.prems(2) by (simp add: written_def poke_append add.assoc)
    from Cons.IH [OF _ this] have IH: "let pre = takeWhile (\<lambda>c. c \<noteq> 37) xs; post = dropWhile (\<lambda>c. c \<noteq> 37) xs
      in case copy_text ?st of
         Inl st' \<Rightarrow> (post = [] \<or> k < length ((out @ [x]) @ pre)) \<and> v_mem st' = poke m str (take k ((out @ [x]) @ pre)) \<and>
           v_p st' = str + of_nat (min k (length ((out @ [x]) @ pre)))
       | Inr st' \<Rightarrow> post \<noteq> [] \<and> written k m str ((out @ [x]) @ pre) st' \<and> fixed_str (outside str k) m (v_fmt st') (tl post) \<and>
           v_ap st' = v_ap ?st \<and> v_numpr st' = v_numpr ?st"
      using x(3) by simp
    have "copy_text st = copy_text ?st" using x 3 by (simp add: copy_text.simps [of st] Let_def)
    then show ?thesis using IH 3(1) by (simp add: Let_def split: sum.splits)
  qed
qed

lemma formatted_text:
  "formatted strs xs ws = map_option (\<lambda>out. takeWhile (\<lambda>c. c \<noteq> 37) xs @ out) (formatted strs (dropWhile (\<lambda>c. c \<noteq> 37) xs) ws)"
  by (induction xs) (auto simp: option.map_comp comp_def simp del: formatted.simps(2) simp: formatted.simps(2) [of strs _ _ ws] option.map_ident)

definition finished :: "nat \<Rightarrow> mem \<Rightarrow> u32 \<Rightarrow> u8 list \<Rightarrow> vs \<Rightarrow> bool" where
  "finished k m str out st \<longleftrightarrow> v_mem st = poke m str (take k out) \<and> v_p st = str + of_nat (min k (length out))"

lemma vsnprintf_loop_formatted:
  assumes "k < 2 ^ 32" "strings_ok (outside str k) m strs"
  shows "written k m str out st \<Longrightarrow> fixed_str (outside str k) m (v_fmt st) xs \<Longrightarrow> fixed_args (outside str k) m (v_ap st) ws \<Longrightarrow>
    0 \<le> v_numpr st \<Longrightarrow> v_numpr st \<le> 2 ^ 29 \<Longrightarrow> formatted strs xs ws = Some tx \<Longrightarrow>
    \<exists>st'. vsnprintf_loop str st = Some st' \<and> finished k m str (out @ tx) st'"
proof (induction "length xs" arbitrary: xs ws out st tx rule: less_induct)
  case less
  let ?P = "outside str k" and ?pre = "takeWhile (\<lambda>c. c \<noteq> 37) xs" and ?post = "dropWhile (\<lambda>c. c \<noteq> 37) xs"
  show ?case
  proof (cases "v_size st = 0")
    case True
    then have "length out = k" using less.prems(1) by (simp add: written_def)
    then show ?thesis using True less.prems(1) by (simp add: vsnprintf_loop.simps [of str st] finished_def written_def)
  next
    case False
    obtain tx1 where t: "formatted strs ?post ws = Some tx1" "tx = ?pre @ tx1"
      using less.prems(6) formatted_text [of strs xs ws] by auto
    note C = copy_text_puts [OF less.prems(2) assms(1) less.prems(1), unfolded Let_def]
    show ?thesis
    proof (cases "copy_text st")
      case (Inl st')
      have "tx1 = []" if "?post = []" using t(1) unfolding that by simp
      then have "finished k m str (out @ tx) st'" using C Inl t(2) by (auto simp: finished_def)
      then show ?thesis using False Inl by (simp add: vsnprintf_loop.simps [of str st] word_gt_0)
    next
      case (Inr st1)
      have C1: "?post \<noteq> []" "written k m str (out @ ?pre) st1" "fixed_str ?P m (v_fmt st1) (tl ?post)" "v_ap st1 = v_ap st" "v_numpr st1 = v_numpr st"
        using C Inr by simp_all
      have p: "?post = 37 # tl ?post" using C1(1) hd_dropWhile [OF C1(1)] by (cases ?post) auto
      obtain tx2 ys ws' tx3 where S: "spec strs (tl ?post) ws = Some (tx2, ys, ws')" "formatted strs ys ws' = Some tx3" "tx1 = tx2 @ tx3"
        using t(1) by (subst (asm) p) (auto split: option.splits)
      have R: "reading ?P m (tl ?post) ws st1"
        using C1(2,3,4) less.prems(3) written_outside [OF C1(2) assms(1)] by (simp add: reading_def)
      obtain r fmt ap where r: "conversion str st1 = Some r" "converted k m str (out @ ?pre) tx2 fmt ap r" "fixed_str ?P m fmt ys" "fixed_args ?P m ap ws'"
        using conversion_spec [OF R S(1) assms C1(2)] C1(5) less.prems(4,5) by auto
      have l: "vsnprintf_loop str st = (case r of Inl st \<Rightarrow> Some st | Inr st \<Rightarrow> vsnprintf_loop str st)"
        using False Inr r(1) by (simp add: vsnprintf_loop.simps [of str st] word_gt_0)
      show ?thesis
      proof (cases r)
        case (Inl st2)
        then have "finished k m str (out @ tx) st2" using r(2) t(2) S(3) by (auto simp: converted_def finished_def)
        then show ?thesis using l Inl by simp
      next
        case (Inr st2)
        have "length ys < length xs" using spec_length [OF S(1)] length_dropWhile_le [of "\<lambda>c. c \<noteq> 37" xs] by simp
        moreover have "written k m str ((out @ ?pre) @ tx2) st2" "v_fmt st2 = fmt" "v_ap st2 = ap" "0 \<le> v_numpr st2" "v_numpr st2 \<le> 2 ^ 29"
          using r(2) Inr by (simp_all add: converted_def)
        ultimately show ?thesis
          using less.hyps [of ys "(out @ ?pre) @ tx2" st2 ws' tx3] r(3,4) S(2,3) l Inr t(2) by simp
      qed
    qed
  qed
qed

lemma vsnprintf_formatted:
  assumes "sz \<noteq> 0" "fmt \<noteq> 0" "k = unat (sz - 1)" "fixed_str (outside str k) m fmt xs" "fixed_args (outside str k) m ap ws"
    and "strings_ok (outside str k) m strs" "formatted strs xs ws = Some tx"
  shows "vsnprintf m str sz fmt ap = Some (poke m str (take k tx @ [0]), of_nat (min k (length tx)))"
proof -
  let ?st = "\<lparr>v_mem = m, v_p = str, v_size = sz - 1, v_fmt = fmt, v_ap = ap, v_numpr = 0\<rparr>"
  have k: "k < 2 ^ 32" using assms(3) by simp
  have "written k m str [] ?st" using assms(3) by (simp add: written_def)
  then obtain st' where st': "vsnprintf_loop str ?st = Some st'" "finished k m str tx st'"
    using vsnprintf_loop_formatted [OF k assms(6), of "[]" ?st xs ws tx] assms(4,5,7) by auto
  have "(v_mem st')(v_p st' := 0) = poke m str (take k tx @ [0])"
    using st'(2) by (simp add: finished_def poke_append min.commute)
  then show ?thesis using st' assms(2) by (simp add: vsnprintf_def finished_def)
qed

subsection \<open>The code's texts are those of printf(3)\<close>

lemma flag_char_is_flag: "flag_char = is_flag"
  by (auto simp: fun_eq_iff flag_char_def is_flag_def)

lemma decimal_char_is_digit: "decimal_char = is_digit"
  by (simp add: fun_eq_iff decimal_char_def is_digit_def decimal_digit)

text \<open>The record of flags and the set of their characters.\<close>

definition flags_of :: "u8 set \<Rightarrow> flags \<Rightarrow> bool" where
  "flags_of fl f \<longleftrightarrow> f_left f = (45 \<in> fl) \<and> f_sign f = (43 \<in> fl) \<and> f_space f = (32 \<in> fl) \<and> f_zero f = (48 \<in> fl) \<and> f_alternate f = (35 \<in> fl)"

lemma fold_set_flag:
  "\<forall>c\<in>set cs. flag_char c \<Longrightarrow> flags_of fl f \<Longrightarrow> flags_of (fl \<union> set cs) (fold set_flag cs f)"
proof (induction cs arbitrary: fl f)
  case (Cons c cs)
  have "flags_of (insert c fl) (set_flag c f)" using Cons.prems by (auto simp: flags_of_def flag_char_def)
  from Cons.IH [OF _ this] Cons.prems(1) show ?case by (simp del: set_flag.simps)
qed simp

lemma flags_of_spec: "flags_of (set (takeWhile flag_char xs)) (fold set_flag (takeWhile is_flag xs) no_flags)"
proof -
  have "\<forall>c\<in>set (takeWhile flag_char xs). flag_char c" by (auto dest: set_takeWhileD)
  from fold_set_flag [OF this, of "{}" no_flags] show ?thesis by (simp add: flags_of_def no_flags_def flag_char_is_flag)
qed

text \<open>Widths and precisions.\<close>

lemma decimal_value_nonneg: "set ds \<subseteq> {48..57} \<Longrightarrow> 0 \<le> decimal_value ds"
  by (induction ds) (auto simp: word_le_def)

lemma amount_value:
  "set ds \<subseteq> {48..57} \<Longrightarrow> 0 \<le> n \<Longrightarrow> n * 10 ^ length ds + decimal_value ds \<le> 2 ^ 29 \<Longrightarrow>
   foldl (\<lambda>n c. wrap32 (wrap32 (n * 10) + (sint c - 48))) n ds = n * 10 ^ length ds + decimal_value ds"
proof (induction ds arbitrary: n)
  case (Cons d ds)
  have d: "sint d = uint d" "48 \<le> uint d" "uint d \<le> 57" using Cons.prems(1) by (auto simp: sint8 word_le_def)
  define t where "t = n * 10 + (uint d - 48)"
  have e: "t * 10 ^ length ds + decimal_value ds = n * 10 ^ length (d # ds) + decimal_value (d # ds)"
    by (simp add: t_def algebra_simps)
  have "t * 1 \<le> t * 10 ^ length ds" using d Cons.prems(2) by (intro mult_left_mono) (auto simp: t_def)
  moreover have "0 \<le> decimal_value ds" using Cons.prems(1) by (auto intro: decimal_value_nonneg)
  ultimately have "t \<le> 2 ^ 29" using Cons.prems(3) [folded e] by linarith
  then have b: "n * 10 + (uint d - 48) \<le> 2 ^ 29" by (simp add: t_def)
  have "wrap32 (n * 10) = n * 10" "wrap32 (n * 10 + (uint d - 48)) = n * 10 + (uint d - 48)"
    using b d Cons.prems(2) by (auto intro!: wrap32_id)
  then have w: "wrap32 (wrap32 (n * 10) + (sint d - 48)) = n * 10 + (uint d - 48)" by (simp only: d(1))
  have "foldl (\<lambda>n c. wrap32 (wrap32 (n * 10) + (sint c - 48))) t ds = t * 10 ^ length ds + decimal_value ds"
    by (rule Cons.IH) (use Cons.prems d in \<open>auto simp: t_def e [unfolded t_def]\<close>)
  then show ?case by (simp only: foldl.simps w e t_def [symmetric])
qed simp

lemma amount_field_spec:
  assumes "amount_field xs ws = Some (n, ys, ws')" "\<And>v. n = Some v \<Longrightarrow> v \<le> 2 ^ 29"
  shows "spec_amount xs ws = Some (case n of None \<Rightarrow> - 1 | Some v \<Rightarrow> v, ys, ws')"
proof (cases xs)
  case Nil
  then show ?thesis using assms(1) by (simp add: amount_field_def)
next
  case (Cons c cs)
  have v: "amount_of (takeWhile is_digit xs) = decimal_value (takeWhile is_digit xs)" if "decimal_value (takeWhile is_digit xs) \<le> 2 ^ 29"
  proof -
    have "set (takeWhile is_digit xs) \<subseteq> {48..57}"
      unfolding is_digit_def decimal_digit by (auto dest: set_takeWhileD)
    from amount_value [OF this, of 0] that show ?thesis by (simp add: amount_of_def)
  qed
  show ?thesis
    using assms v Cons
    by (cases ws) (auto simp: amount_field_def decimal_char_is_digit split: if_splits)
qed

lemma width_field_spec:
  assumes "width_field xs ws = Some (w, ys, ws')"
  shows "\<exists>n. spec_amount xs ws = Some (n, ys, ws') \<and> small n \<and> nat n = w"
proof -
  obtain n where n: "amount_field xs ws = Some (n, ys, ws')" "case n of None \<Rightarrow> w = 0 | Some v \<Rightarrow> 0 \<le> v \<and> v \<le> 2 ^ 29 \<and> w = nat v"
    using assms by (auto simp: width_field_def split: option.splits if_splits)
  then show ?thesis using amount_field_spec [OF n(1)] by (cases n) (auto simp: small_def)
qed

lemma precision_field_spec:
  assumes "precision_field xs ws = Some (p, ys, ws')"
  shows "\<exists>n. spec_precision xs ws = Some (n, ys, ws') \<and> small n \<and> p = (if n < 0 then None else Some (nat n))"
proof (cases "xs = [] \<or> hd xs \<noteq> 46")
  case True
  then show ?thesis using assms by (cases xs) (auto simp: precision_field_def spec_precision_def small_def)
next
  case False
  then obtain cs where xs: "xs = 46 # cs" by (cases xs) auto
  obtain v where v: "amount_field cs ws = Some (Some v, ys, ws')" "\<bar>v\<bar> \<le> 2 ^ 29" "p = (if v < 0 then None else Some (nat v))"
    using assms xs by (auto simp: precision_field_def split: option.splits if_splits)
  then show ?thesis using amount_field_spec [OF v(1)] xs by (auto simp: spec_precision_def small_def)
qed

text \<open>Numbers and strings.\<close>

lemma nat_diff_int: "nat (n - int k) = nat n - k"
  by simp

lemma integer_field_text:
  assumes "flags_of fl f" "p = (if m < 0 then None else Some (nat m))" "48 \<in> fl \<and> 45 \<notin> fl \<longrightarrow> p = None"
  shows "number_text f n m sg pre ds = integer_field fl (nat n) p sg pre ds"
proof -
  have "nat (m - int (length ds)) = (case p of None \<Rightarrow> 0 | Some p \<Rightarrow> p - length ds)"
    using assms(2) by (simp add: nat_diff_int)
  then show ?thesis
    unfolding number_text_def integer_field_def nat_diff_int Let_def using assms(1,3) by (auto simp: flags_of_def)
qed

lemma string_field_text:
  assumes "flags_of fl f" "p = (if m < 0 then None else Some (nat m))" "48 \<notin> fl"
  shows "string_text f n m xs = string_field fl (nat n) p xs"
  unfolding string_text_def string_field_def nat_diff_int Let_def using assms by (auto simp: flags_of_def)

lemma sign_field_text: "flags_of fl f \<Longrightarrow> sign_text f sign v = (if sign then sign_field fl (sint v) else [])"
  by (auto simp: sign_text_def sign_char_def sign_field_def flags_of_def)

lemma digit_tables:
  "d < 16 \<Longrightarrow> lower_digits ! d = digit_text False d \<and> upper_digits ! d = digit_text True d"
proof -
  assume "d < 16"
  then have "d \<in> {0, 1, 2, 3, 4, 5, 6, 7, 8, 9, 10, 11, 12, 13, 14, 15}" by (auto simp: less_Suc_eq numeral_eq_Suc)
  then show ?thesis by (elim insertE emptyE) (simp_all add: lower_digits_def upper_digits_def digit_text_def)
qed

lemma digits_text_natural:
  assumes "1 < b" "b \<le> n" "n \<le> 16"
  shows "digits_text (take n lower_digits) b v = natural_text False b v" "digits_text (take n upper_digits) b v = natural_text True b v"
  using places_bound [OF assms(1)] assms digit_tables by (fastforce simp: digits_text_def natural_text_def)+

lemma length_tables: "take 16 lower_digits = lower_digits" "take 16 upper_digits = upper_digits"
  by (simp_all add: lower_digits_def upper_digits_def)

lemma natural_tables:
  "digits_text (take 2 lower_digits) 2 v = natural_text False 2 v" "digits_text (take 9 lower_digits) 8 v = natural_text False 8 v"
  "digits_text (take 10 lower_digits) 10 v = natural_text False 10 v" "digits_text lower_digits 16 v = natural_text False 16 v"
  "digits_text upper_digits 16 v = natural_text True 16 v"
  using digits_text_natural [of _ _ v] length_tables by (simp, simp, simp, metis le_refl one_less_numeral_iff semiring_norm(76), metis le_refl one_less_numeral_iff semiring_norm(76))

lemma number_field_spec:
  assumes "number_field fl (nat n) p c v = Some tx" "c \<in> {98, 100, 105, 111, 117, 120, 88}"
    and f: "flags_of fl f" and p: "p = (if m < 0 then None else Some (nat m))"
  shows "spec_text strs c f n m (v # ws) = Some (tx, ws)"
proof -
  define k where "k = (if c = 100 \<or> c = 105 then nat \<bar>sint v\<bar> else unat v)"
  let ?tx = "integer_field fl (nat n) p (if c = 100 \<or> c = 105 then sign_field fl (sint v) else []) (prefix_field fl c k)
      (natural_text (c = 88) (if c = 98 then 2 else if c = 111 then 8 else if c = 120 \<or> c = 88 then 16 else 10) k)"
  have "number_field fl (nat n) p c v = (if covered_number fl p c k then Some ?tx else None)"
    unfolding number_field_def k_def Let_def by (rule refl)
  then have c: "covered_number fl p c k" and tx: "tx = ?tx" using assms(1) by (simp_all split: if_splits)
  have k: "k = 0 \<longleftrightarrow> v = 0" by (auto simp: k_def unat_eq_0 sint_eq_0_iff)
  have z: "48 \<in> fl \<and> 45 \<notin> fl \<longrightarrow> p = None" and a: "35 \<in> fl \<longrightarrow> c \<in> {111, 120} \<and> 45 \<notin> fl"
    using c by (simp_all add: covered_number_def)
  note t = integer_field_text [OF f p z] sign_field_text [OF f]
  have A: "f_alternate f = (35 \<in> fl)" "f_left f = (45 \<in> fl)" using f by (simp_all add: flags_of_def)
  show ?thesis
    using assms(2) a
    by (elim insertE emptyE)
      (auto simp: spec_text_def number_spec_def plain_prefix_def prefix_text_def prefix_field_def magnitude_def A t tx k k_def natural_tables unat_eq_0)
qed

lemma argument_text_spec:
  assumes "argument_text strs fl (nat n) p long c v = Some tx" and f: "flags_of fl f" and p: "p = (if m < 0 then None else Some (nat m))"
  shows "spec_text strs c f n m (v # ws) = Some (tx, ws)"
proof -
  consider (num) "c \<in> {98, 100, 105, 111, 117, 120, 88}" | (chr) "c = 99" | (str) "c = 115" | (ptr) "c = 112"
    using assms(1) by (auto simp: argument_text_def split: if_splits)
  then show ?thesis
  proof cases
    case num
    then show ?thesis using number_field_spec [OF _ num f p] assms(1) by (simp add: argument_text_def)
  next
    case chr
    then show ?thesis using assms(1) by (simp add: argument_text_def spec_text_def lo8_def split: if_splits)
  next
    case str
    then have "48 \<notin> fl" "v \<noteq> 0" "map_option (string_field fl (nat n) p) (strs v) = Some tx"
      using assms(1) by (auto simp: argument_text_def split: if_splits)
    then show ?thesis using string_field_text [OF f p, of n] str by (auto simp: spec_text_def)
  next
    case ptr
    define ds where "ds = natural_text False 16 (unat v)"
    have "fl = {}" and tx: "tx = (if v = 0 then [] else [48, 120]) @ replicate (8 - length ds) 48 @ ds"
      using assms(1) ptr by (auto simp: argument_text_def ds_def Let_def split: if_splits)
    then have F: "f_left f = False" "f_sign f = False" "f_space f = False" "f_zero f = False" using f by (simp_all add: flags_of_def)
    have d: "digits_text lower_digits 16 (magnitude False v) = ds" by (simp add: natural_tables magnitude_def ds_def)
    have "spec_text strs c f n m (v # ws) = Some (number_text (f\<lparr>f_alternate := True\<rparr>) 8 8 [] (if v = 0 then [] else [48, 120]) ds, ws)"
      using ptr F d by (simp add: spec_text_def number_spec_def plain_prefix_def prefix_text_def sign_text_def)
    also have "number_text (f\<lparr>f_alternate := True\<rparr>) 8 8 [] (if v = 0 then [] else [48, 120]) ds = tx"
      unfolding number_text_def tx Let_def using F by (auto simp: nat_diff_int [of 8, simplified])
    finally show ?thesis .
  qed
qed

text \<open>Conversion specifications and formats.\<close>

lemma conversion_text_spec:
  assumes "conversion_text strs xs ws = Some (tx, ys, ws')"
  shows "spec strs xs ws = Some (tx, ys, ws')"
proof (cases "xs \<noteq> [] \<and> hd xs = 37")
  case True
  then obtain zs where "xs = 37 # zs" by (cases xs) auto
  then show ?thesis
    using assms by (simp add: conversion_text_def spec_def spec_precision_def drop_modifier_def is_flag_def is_digit_def isdigit_def small_def spec_text_def)
next
  case False
  obtain width xs1 ws1 prec xs2 ws2 where
      W: "width_field (dropWhile flag_char xs) ws = Some (width, xs1, ws1)" and P: "precision_field xs1 ws1 = Some (prec, xs2, ws2)"
    using assms False by (auto simp: conversion_text_def split: option.splits)
  define long where "long \<longleftrightarrow> xs2 \<noteq> [] \<and> hd xs2 = 108"
  define xs3 where "xs3 = (if long then tl xs2 else xs2)"
  have x: "xs3 \<noteq> []" "ws2 \<noteq> []" "ys = tl xs3" "ws' = tl ws2"
    and T: "argument_text strs (set (takeWhile flag_char xs)) width prec long (hd xs3) (hd ws2) = Some tx"
    using assms False W P by (auto simp: conversion_text_def long_def xs3_def Let_def split: if_splits)
  obtain n where n: "spec_amount (dropWhile is_flag xs) ws = Some (n, xs1, ws1)" "small n" "nat n = width"
    using width_field_spec [OF W] by (auto simp: flag_char_is_flag)
  obtain m where m: "spec_precision xs1 ws1 = Some (m, xs2, ws2)" "small m" "prec = (if m < 0 then None else Some (nat m))"
    using precision_field_spec [OF P] by auto
  have "hd xs3 \<notin> {104, 108, 76}" using T by (auto simp: argument_text_def split: if_splits)
  then have d: "drop_modifier xs2 = hd xs3 # ys"
    using x(1,3) by (cases xs2) (auto simp: drop_modifier_def xs3_def long_def)
  have "spec_text strs (hd xs3) (fold set_flag (takeWhile is_flag xs) no_flags) n m (hd ws2 # tl ws2) = Some (tx, tl ws2)"
    by (rule argument_text_spec [OF T [folded n(3)] flags_of_spec m(3)])
  then show ?thesis using n m d x(2,4) by (simp add: spec_def)
qed

lemma printf_text_formatted: "printf_text strs xs ws = Some tx \<Longrightarrow> formatted strs xs ws = Some tx"
  by (induction strs xs ws arbitrary: tx rule: printf_text.induct)
    (auto split: if_splits option.splits dest!: conversion_text_spec)

text \<open>C9: for every format that printf(3) gives a text for its arguments, \<open>vsnprintf\<close> returns, the buffer holds that text,
  cut to the size of the buffer, and a terminator, nothing else is written, and the result is the length of the text
  in the buffer.  The text, \<open>printf_text\<close>, is defined from the standard, with flags, widths, precisions and \<open>*\<close>; it leaves out the
  conversions in which the code departs from the standard, each named in theory PrintfText.  Format, arguments and strings lie
  outside of the buffer.\<close>

theorem vsnprintf_correct:
  assumes "sz \<noteq> 0" "fmt \<noteq> 0" "k = unat (sz - 1)" "fixed_str (outside str k) m fmt xs" "fixed_args (outside str k) m ap ws"
    and "strings_ok (outside str k) m strs" "printf_text strs xs ws = Some tx"
  shows "vsnprintf m str sz fmt ap = Some (poke m str (take k tx @ [0]), of_nat (min k (length tx)))"
  by (rule vsnprintf_formatted [OF assms(1-6) printf_text_formatted [OF assms(7)]])

subsection \<open>Numbers are read back\<close>

definition decimal_text :: "u32 \<Rightarrow> u8 list" where
  "decimal_text v = (if sint v < 0 then [45] else []) @ natural_text False 10 (nat \<bar>sint v\<bar>)"

lemma decimal_text_code:
  "decimal_text v = (if sint v < 0 then [45] else []) @ digits_text (take 10 lower_digits) 10 (magnitude True v)"
  by (simp add: decimal_text_def natural_tables magnitude_def)

lemma formatted_decimal: "formatted strs [37, 100] [v] = Some (decimal_text v)"
  by (simp add: spec_def spec_text_def spec_precision_def drop_modifier_def is_flag_def is_digit_def isdigit_def small_def number_spec_def
      plain_prefix_def no_flags_def number_text_def sign_text_def sign_char_def prefix_text_def decimal_text_code Let_def)

lemma lower_digit: "d < 10 \<Longrightarrow> lower_digits ! d = 48 + of_nat d \<and> sint (48 + of_nat d :: u8) = 48 + int d"
proof -
  assume "d < 10"
  then have "d = 0 \<or> d = 1 \<or> d = 2 \<or> d = 3 \<or> d = 4 \<or> d = 5 \<or> d = 6 \<or> d = 7 \<or> d = 8 \<or> d = 9" by arith
  then show ?thesis by (elim disjE) (simp_all add: lower_digits_def)
qed

lemma digits_text_digits: "d \<in> set (digits_text (take 10 lower_digits) 10 n) \<Longrightarrow> isdigit (sint d)"
  using lower_digit places_bound [of 10 _ n] by (fastforce simp: digits_text_def isdigit_def)

lemma num_of_digits: "num_of 10 (digits_text (take 10 lower_digits) 10 n) = int n"
proof -
  have "foldr (\<lambda>d a. a * 10 + digit_value 10 (sint d)) (map (\<lambda>d. take 10 lower_digits ! d) ds) 0 = int (foldr (\<lambda>d v. d + 10 * v) ds 0)"
    if "\<forall>d\<in>set ds. d < 10" for ds
    using that by (induction ds) (auto simp: lower_digit digit_value_def)
  from this [of "places 10 n"] show ?thesis
    using places_bound [of 10 _ n] places_value [of 10 n] by (simp add: num_of_def digits_text_def foldl_conv_foldr)
qed

lemma decimal_text_props: "length (decimal_text v) \<le> 33" "0 \<notin> set (decimal_text v)"
proof -
  show "length (decimal_text v) \<le> 33"
    using digits_text_length(2) [of 10 "take 10 lower_digits" True v] by (auto simp: decimal_text_code)
  have "\<not> isdigit (sint (0 :: u8))" by (simp add: isdigit_def)
  then show "0 \<notin> set (decimal_text v)" using digits_text_digits [of 0] by (auto simp: decimal_text_code)
qed

lemma atoi_decimal: "cstr m s (decimal_text v) \<Longrightarrow> atoi m s = Some (Inr v)"
proof -
  assume c: "cstr m s (decimal_text v)"
  let ?ds = "digits_text (take 10 lower_digits) 10 (magnitude True v)" and ?sg = "if sint v < 0 then [45] else [] :: u8 list"
  have n: "?ds \<noteq> []" using digits_text_length(1) [of 10 "take 10 lower_digits" True v] by auto
  have "strtoll m s 10 = Some (Inr (of_int (if ?sg = [45] then - num_of 10 ?ds else num_of 10 ?ds), s + of_nat (length ([] @ ?sg @ ?ds))))"
    by (rule strtoll_number [where rest = "[]"]) (use c n digits_text_digits in \<open>auto simp: decimal_text_code\<close>)
  moreover have "(if ?sg = [45] then - num_of 10 ?ds else num_of 10 ?ds) = sint v"
    by (simp add: num_of_digits magnitude_def)
  moreover have "ucast (scast v :: u64) = v" by (rule bit_word_eqI) (auto simp: bit_simps)
  ultimately show ?thesis by (simp add: atoi_def strtol_def)
qed

text \<open>C25: what \<open>snprintf\<close> prints with \<open>%d\<close>, \<open>atoi\<close> reads back, for every \<open>int\<close>.\<close>

theorem atoi_snprintf:
  assumes "34 \<le> unat n" "fmt \<noteq> 0" "fixed_str (outside buf (unat (n - 1))) m fmt [37, 100]"
    and "fixed_args (outside buf (unat (n - 1))) m ap [v]"
  shows "\<exists>m' r. snprintf m buf n fmt ap = Some (m', r) \<and> atoi m' buf = Some (Inr v)"
proof -
  let ?k = "unat (n - 1)"
  have "n \<noteq> 0" using assms(1) by auto
  then have k: "33 \<le> ?k" using assms(1) unat_step1 [of n] by (simp add: word_gt_0)
  have "strings_ok (outside buf ?k) m (\<lambda>_. None)" by (simp add: strings_ok_def)
  then have "vsnprintf m buf n fmt ap = Some (poke m buf (take ?k (decimal_text v) @ [0]), of_nat (min ?k (length (decimal_text v))))"
    using vsnprintf_formatted [OF \<open>n \<noteq> 0\<close> assms(2) refl assms(3,4) _ formatted_decimal] by blast
  moreover have l: "length (decimal_text v) \<le> ?k" using k decimal_text_props(1) [of v] by simp
  moreover have "cstr (poke m buf (decimal_text v @ [0])) buf (decimal_text v)"
    using peek_poke_same [of "decimal_text v @ [0]" m buf] decimal_text_props [of v] by (simp add: cstr_peek)
  ultimately show ?thesis using assms(2) atoi_decimal by (simp add: snprintf_def)
qed

text \<open>A sample: the format \<open>%d\<close> at 100, its argument at 200.\<close>

definition printf_memory :: "u32 \<Rightarrow> mem" where
  "printf_memory v = store32 (poke (\<lambda>_. 0) 100 [37, 100]) 200 v"

lemma printf_memory_fixed:
  "fixed_str (outside 300 63) (printf_memory v) 100 [37, 100]" "fixed_args (outside 300 63) (printf_memory v) 200 [v]"
proof -
  have "printf_memory v a = poke (\<lambda>_. 0) 100 [37, 100] a" if "unat a < 200" for a
    using that unfolding printf_memory_def by (intro store32_outside) (simp add: in_block_unat)
  from this [of 100] this [of 101] this [of 102]
  show "fixed_str (outside 300 63) (printf_memory v) 100 [37, 100]"
    by (simp add: outside_def in_block_unat)
  show "fixed_args (outside 300 63) (printf_memory v) 200 [v]"
    by (simp add: printf_memory_def load32_store32_same outside_def in_block_unat)
qed

text \<open>A second sample: \<open>%+6.3d\<close>, which prints 42 as two blanks and \<open>+042\<close>.\<close>

definition field_memory :: mem where
  "field_memory = store32 (poke (\<lambda>_. 0) 100 [37, 43, 54, 46, 51, 100]) 200 42"

lemma field_memory_fixed:
  "fixed_str (outside 300 63) field_memory 100 [37, 43, 54, 46, 51, 100]" "fixed_args (outside 300 63) field_memory 200 [42]"
proof -
  have "field_memory a = poke (\<lambda>_. 0) 100 [37, 43, 54, 46, 51, 100] a" if "unat a < 200" for a
    using that unfolding field_memory_def by (intro store32_outside) (simp add: in_block_unat)
  from this [of 100] this [of 101] this [of 102] this [of 103] this [of 104] this [of 105] this [of 106]
  show "fixed_str (outside 300 63) field_memory 100 [37, 43, 54, 46, 51, 100]"
    by (simp add: outside_def in_block_unat)
  show "fixed_args (outside 300 63) field_memory 200 [42]"
    by (simp add: field_memory_def load32_store32_same outside_def in_block_unat)
qed

lemmas printf_text_defs = conversion_text_def flag_char_def width_field_def precision_field_def amount_field_def decimal_char_def
  argument_text_def number_field_def covered_number_def sign_field_def prefix_field_def integer_field_def natural_text_def
  places.simps digit_text_def

lemma field_text: "printf_text strs [37, 43, 54, 46, 51, 100] [42] = Some [32, 32, 43, 48, 52, 50]"
proof -
  have "replicate 2 (32 :: u8) = [32, 32]" by (simp add: numeral_eq_Suc)
  then show ?thesis by (simp add: printf_text_defs Let_def)
qed

lemma vsnprintf_correct_witness:
  "vsnprintf field_memory 300 64 100 200 = Some (poke field_memory 300 [32, 32, 43, 48, 52, 50, 0], 6)"
  using vsnprintf_correct [OF _ _ _ field_memory_fixed _ field_text, of 64 "\<lambda>_. None"]
  by (simp add: strings_ok_def)

lemma atoi_snprintf_witness:
  "\<exists>m' r. snprintf (printf_memory (- 42)) 300 64 100 200 = Some (m', r) \<and> atoi m' 300 = Some (Inr (- 42))"
  using atoi_snprintf [where n = 64 and fmt = 100 and buf = 300 and m = "printf_memory (- 42)" and ap = 200 and v = "- 42"] printf_memory_fixed by simp

end
