(* ===== verification/FileProps.thy ===== *)
theory FileProps
  imports MemoryFiles FileSystem HeapClients CPrintfProps
begin

text \<open>
  Files in memory satisfy the contract of \<open>FileSystem\<close>, on a consistent heap: their data is a live block
  that no client knows.  What holds of reading, writing and printing to them follows.
\<close>

unbundle bit_operations_syntax

definition memory_holds :: "u32 \<Rightarrow> nat \<Rightarrow> (u32 \<rightharpoonup> nat) \<Rightarrow> u32 \<Rightarrow> nat \<Rightarrow> u8 list \<Rightarrow> 'a world_scheme \<Rightarrow> bool" where
  "memory_holds lo hi C fp cap bs w \<longleftrightarrow>
     (let p = w_memory_files w (f_priv (w_files w fp)) in \<exists>n D. C \<subseteq>\<^sub>m D \<and> D (mf_data p) = None \<and>
        live lo hi (D(mf_data p \<mapsto> n)) (w_heap w) \<and> unat (mf_allocated_size p) \<le> n \<and>
        length bs \<le> unat (mf_allocated_size p) \<and> cap \<le> unat (mf_allocated_size p) \<and>
        f_file_size (w_files w fp) = of_nat (length bs) \<and> peek (w_mem w) (mf_data p) (length bs) = bs)"

text \<open>\<open>C\<close> are the blocks of the client; \<open>D\<close> in \<open>memory_holds\<close> has others as well, that of the \<open>FILE\<close> among them.\<close>

definition user :: "u32 \<Rightarrow> nat \<Rightarrow> (u32 \<rightharpoonup> nat) \<Rightarrow> u32 set" where
  "user lo hi C = {k. smalloc.safe lo hi C k}"

lemma user_safe: "C \<subseteq>\<^sub>m D \<Longrightarrow> k \<in> user lo hi C \<Longrightarrow> smalloc.safe lo hi D k"
  unfolding user_def smalloc.safe_def map_le_def by (force simp: dom_def)

lemma memory_holdsE:
  assumes "memory_holds lo hi C fp cap bs w"
  obtains p n D where "p = w_memory_files w (f_priv (w_files w fp))" "C \<subseteq>\<^sub>m D" "D (mf_data p) = None" "live lo hi (D(mf_data p \<mapsto> n)) (w_heap w)"
    "unat (mf_allocated_size p) \<le> n" "length bs \<le> unat (mf_allocated_size p)" "cap \<le> unat (mf_allocated_size p)"
    "unat (f_file_size (w_files w fp)) = length bs" "peek (w_mem w) (mf_data p) (length bs) = bs"
    "unat (mf_data p) + n < 2 ^ 31" "\<And>k. k \<in> user lo hi C \<Longrightarrow> \<not> in_block (mf_data p) n k"
proof -
  let ?p = "w_memory_files w (f_priv (w_files w fp))"
  obtain n D where D: "C \<subseteq>\<^sub>m D" and n: "D (mf_data ?p) = None" "live lo hi (D(mf_data ?p \<mapsto> n)) (w_heap w)" "unat (mf_allocated_size ?p) \<le> n"
    "length bs \<le> unat (mf_allocated_size ?p)" "cap \<le> unat (mf_allocated_size ?p)"
    "f_file_size (w_files w fp) = of_nat (length bs)" "peek (w_mem w) (mf_data ?p) (length bs) = bs"
    using assms unfolding memory_holds_def Let_def by blast
  moreover have b: "unat (mf_data ?p) + n < 2 ^ 31" using smalloc.block [OF n(2)] by auto
  moreover have "unat (f_file_size (w_files w fp)) = length bs" using n(3,4,6) b by (simp add: unat_of_nat)
  moreover have "\<not> in_block (mf_data ?p) n k" if "k \<in> user lo hi C" for k
    by (rule smalloc.safe_apart [OF n(2,1) user_safe [OF D that]])
  ultimately show thesis using that D by blast
qed

lemma memory_holdsI:
  assumes "p = w_memory_files w (f_priv (w_files w fp))" "C \<subseteq>\<^sub>m D" "D (mf_data p) = None" "live lo hi (D(mf_data p \<mapsto> n)) (w_heap w)"
    "unat (mf_allocated_size p) \<le> n" "length bs \<le> unat (mf_allocated_size p)" "cap \<le> unat (mf_allocated_size p)"
    "f_file_size (w_files w fp) = of_nat (length bs)" "peek (w_mem w) (mf_data p) (length bs) = bs"
  shows "memory_holds lo hi C fp cap bs w"
  using assms unfolding memory_holds_def Let_def by blast

lemma memory_holds_position: "memory_holds lo hi C fp cap bs w \<Longrightarrow> memory_holds lo hi C fp cap bs (moved fp a b w)"
  by (simp add: memory_holds_def)

lemma memory_holds_cong:
  assumes "memory_holds lo hi C fp cap bs w" "\<And>a. w_mem w' a \<noteq> w_mem w a \<Longrightarrow> a \<in> user lo hi C"
    "w_heap w' = (w_heap w)\<lparr>smem := w_mem w'\<rparr>" "w_memory_files w' = w_memory_files w"
    "f_priv (w_files w' fp) = f_priv (w_files w fp)" "f_file_size (w_files w' fp) = f_file_size (w_files w fp)"
  shows "memory_holds lo hi C fp cap bs w'"
  using assms(1)
proof (rule memory_holdsE)
  fix p n D assume D: "C \<subseteq>\<^sub>m D" and p: "p = w_memory_files w (f_priv (w_files w fp))" "D (mf_data p) = None" "live lo hi (D(mf_data p \<mapsto> n)) (w_heap w)"
    "unat (mf_allocated_size p) \<le> n" "length bs \<le> unat (mf_allocated_size p)" "cap \<le> unat (mf_allocated_size p)"
    "unat (f_file_size (w_files w fp)) = length bs" "peek (w_mem w) (mf_data p) (length bs) = bs"
    "unat (mf_data p) + n < 2 ^ 31" "\<And>k. k \<in> user lo hi C \<Longrightarrow> \<not> in_block (mf_data p) n k"
  have "live lo hi (D(mf_data p \<mapsto> n)) ((w_heap w)\<lparr>smem := w_mem w'\<rparr>)"
    using smalloc.safe_upd [of D "mf_data p", OF p(2)] user_safe [OF D] assms(2) by (intro smalloc.overwrite_safe [OF p(3)]) blast
  moreover have "peek (w_mem w') (mf_data p) (length bs) = peek (w_mem w) (mf_data p) (length bs)"
  proof (rule peek_cong)
    fix a assume "in_block (mf_data p) (length bs) a"
    then have "in_block (mf_data p) n a" using p(4,5) by (simp add: in_block_def)
    then show "w_mem w' a = w_mem w a" using p(10) assms(2) by blast
  qed (use p(4,5,9) in simp)
  moreover have "f_file_size (w_files w fp) = of_nat (length bs)" by (subst p(7) [symmetric]) simp
  ultimately show ?thesis using D p assms(3-6) by (intro memory_holdsI [where p = p and D = D and n = n]) auto
qed

text \<open>Copying between the client's memory and the data.\<close>

lemma copy_poke:
  assumes "dest = src \<or> unat n \<le> unat (dest - src)"
  shows "copy dest src n w = Some (Inr ((), set_mem (poke (w_mem w) dest (peek (w_mem w) src (unat n))) w))"
  using memcpy_poke [OF assms, of "w_mem w"] by (simp add: copy_def on_heap_def set_mem_def)

lemma inside_block:
  assumes "k + i < n" "unat d + n < 2 ^ 32"
  shows "in_block d n (d + of_nat k + of_nat i)"
proof -
  have "d + of_nat k + of_nat i - d = (of_nat (k + i) :: u32)" by simp
  moreover have "unat (of_nat (k + i) :: u32) = k + i" using assms by (simp only: unat_of_nat) simp
  ultimately show ?thesis using assms(1) by (simp only: in_block_def)
qed

lemma ahead_of_data:
  assumes "\<forall>a. in_block ptr j a \<longrightarrow> \<not> in_block d n a" "k + j \<le> n" "unat d + n < 2 ^ 32"
  shows "j \<le> unat (ptr - (d + of_nat k))" "j \<le> unat (d + of_nat k - ptr)"
proof -
  show "j \<le> unat (ptr - (d + of_nat k))"
  proof (rule ccontr)
    assume c: "\<not> j \<le> unat (ptr - (d + of_nat k))"
    then have "in_block d n (d + of_nat k + of_nat (unat (ptr - (d + of_nat k))))"
      using assms(2,3) by (intro inside_block) auto
    moreover have "in_block ptr j ptr" using c by (simp add: in_block_def)
    ultimately show False using assms(1) by simp
  qed
  show "j \<le> unat (d + of_nat k - ptr)"
  proof (rule ccontr)
    assume c: "\<not> j \<le> unat (d + of_nat k - ptr)"
    then have "in_block d n (d + of_nat k + of_nat 0)" using assms(2,3) by (intro inside_block) auto
    moreover have "in_block ptr j (d + of_nat k)" using c by (simp add: in_block_def)
    ultimately show False using assms(1) by simp
  qed
qed

lemma peek_drop: "peek m (p + of_nat k) (n - k) = drop k (peek m p n)"
  using peek_append [of m p k "n - k"] by (cases "k \<le> n") simp_all

lemma peek_take: "j \<le> n \<Longrightarrow> peek m p j = take j (peek m p n)"
  using peek_append [of m p j "n - j"] by simp

lemma memory_read_law:
  assumes h: "memory_holds lo hi C fp cap bs w" and k: "unat (f_fptr (w_files w fp)) = k" "k \<le> length bs"
    and u: "\<forall>a. in_block ptr (unat n) a \<longrightarrow> a \<in> user lo hi C"
  shows "\<exists>w'. memory_read fp ptr n w = Some (Inr (of_nat (min (unat n) (length bs - k)), w')) \<and> memory_holds lo hi C fp cap bs w' \<and>
        w_files w' fp = (if k = length bs then (w_files w fp)\<lparr>f_eof := 1\<rparr> else w_files w fp) \<and>
        (\<forall>a\<in>user lo hi C. w_mem w' a = poke (w_mem w) ptr (take (unat n) (drop k bs)) a)"
  using h
proof (rule memory_holdsE)
  fix p N D assume D: "C \<subseteq>\<^sub>m D" and p: "p = w_memory_files w (f_priv (w_files w fp))" "D (mf_data p) = None" "live lo hi (D(mf_data p \<mapsto> N)) (w_heap w)"
    "unat (mf_allocated_size p) \<le> N" "length bs \<le> unat (mf_allocated_size p)" "cap \<le> unat (mf_allocated_size p)"
    "unat (f_file_size (w_files w fp)) = length bs" "peek (w_mem w) (mf_data p) (length bs) = bs"
    "unat (mf_data p) + N < 2 ^ 31" "\<And>k. k \<in> user lo hi C \<Longrightarrow> \<not> in_block (mf_data p) N k"
  let ?F = "w_files w fp" and ?j = "min (unat n) (length bs - k)"
  have fptr: "f_fptr ?F = of_nat k" using k(1) by auto
  have rest: "unat (f_file_size ?F - f_fptr ?F) = length bs - k"
    using p(7) k by (simp add: unat_sub word_le_nat_alt)
  define sz where "sz = (if n < f_file_size ?F - f_fptr ?F then n else f_file_size ?F - f_fptr ?F)"
  have sz: "unat sz = ?j" by (simp add: sz_def rest word_less_nat_alt)
  have jb: "in_block ptr ?j a \<Longrightarrow> in_block ptr (unat n) a" for a by (simp add: in_block_def)
  have "?j \<le> unat (ptr - (mf_data p + of_nat k))"
    using u jb p(10) by (rule_tac ahead_of_data(1) [where n = N]) (use k p(4,5,9) in auto)
  then have c: "copy ptr (mf_data p + f_fptr ?F) sz w =
      Some (Inr ((), set_mem (poke (w_mem w) ptr (peek (w_mem w) (mf_data p + of_nat k) ?j)) w))"
    using copy_poke [of ptr "mf_data p + of_nat k" sz w] sz fptr by simp
  have "peek (w_mem w) (mf_data p + of_nat k) ?j = take ?j (peek (w_mem w) (mf_data p + of_nat k) (length bs - k))"
    by (rule peek_take) simp
  then have d: "peek (w_mem w) (mf_data p + of_nat k) ?j = take (unat n) (drop k bs)"
    using p(8) by (cases "unat n \<le> length bs - k") (simp_all add: peek_drop)
  let ?m = "poke (w_mem w) ptr (take (unat n) (drop k bs))"
  let ?w = "if k = length bs then (set_mem ?m w)\<lparr>w_files := (w_files w)(fp := ?F\<lparr>f_eof := 1\<rparr>)\<rparr> else set_mem ?m w"
  have e: "f_file_size ?F \<le> f_fptr ?F \<longleftrightarrow> k = length bs" using p(7) k by (auto simp: word_le_nat_alt)
  have "memory_read fp ptr n w = Some (Inr (of_nat ?j, ?w))"
    using c sz e unfolding d
    by (simp add: memory_read_def private_at_def p(1) [symmetric] Let_def sz_def [symmetric] io_bind_step ret_def flip: sz)
  moreover have "memory_holds lo hi C fp cap bs ?w"
  proof (rule memory_holds_cong [OF h])
    fix a assume a: "w_mem ?w a \<noteq> w_mem w a"
    have "length (take (unat n) (drop k bs)) \<le> 2 ^ 32" by (simp add: min.coboundedI2)
    then have "in_block ptr (unat n) a" using a by (auto simp: poke_apply in_block_def split: if_splits)
    then show "a \<in> user lo hi C" using u by blast
  qed auto
  ultimately show ?thesis by (intro exI [of _ ?w]) auto
qed

lemma peek_overwrite:
  assumes "peek m d (length bs) = bs" "k \<le> length bs" "unat d + max (length bs) (k + length xs) < 2 ^ 32"
  shows "peek (poke m (d + of_nat k) xs) d (max (length bs) (k + length xs)) = overwrite k xs bs"
proof -
  let ?m = "poke m (d + of_nat k) xs" and ?r = "length bs - (k + length xs)"
  have len: "length xs \<le> 2 ^ 32" "k + length xs < 2 ^ 32" "length bs < 2 ^ 32" using assms(3) by simp_all
  have out: "?m (d + of_nat i) = m (d + of_nat i)" if i: "i < k \<or> k + length xs \<le> i" "i < length bs" for i
  proof (rule poke_outside [OF len(1)])
    have "d + of_nat i - (d + of_nat k) = of_nat i - (of_nat k :: u32)" by simp
    moreover have "\<not> unat (of_nat i - of_nat k :: u32) < length xs"
      using i len assms(2) by (auto simp: unat_sub_if' unat_of_nat)
    ultimately show "\<not> in_block (d + of_nat k) (length xs) (d + of_nat i)" by (simp only: in_block_def simp_thms)
  qed
  have 1: "peek ?m d k = take k bs"
  proof (rule nth_equalityI)
    fix i assume "i < length (peek ?m d k)"
    then show "peek ?m d k ! i = take k bs ! i"
      using out [of i] assms(1,2) nth_peek [of i "length bs" m d] by (simp add: nth_peek)
  qed (use assms(2) in simp)
  have 2: "peek ?m (d + of_nat k) (length xs) = xs" by (rule peek_poke_same [OF len(1)])
  have 3: "peek ?m (d + of_nat (k + length xs)) ?r = drop (k + length xs) bs"
  proof (rule nth_equalityI)
    fix i assume "i < length (peek ?m (d + of_nat (k + length xs)) ?r)"
    then have i: "i < ?r" by simp
    then have "peek ?m (d + of_nat (k + length xs)) ?r ! i = ?m (d + of_nat (k + length xs + i))"
      by (simp add: nth_peek add.assoc)
    also have "\<dots> = bs ! (k + length xs + i)"
      using i out [of "k + length xs + i"] nth_peek [of "k + length xs + i" "length bs" m d] assms(1) by simp
    finally show "peek ?m (d + of_nat (k + length xs)) ?r ! i = drop (k + length xs) bs ! i" using i by simp
  qed simp
  have "max (length bs) (k + length xs) = k + (length xs + ?r)" by simp
  then show ?thesis using 1 2 3 by (simp add: peek_append overwrite_def add.assoc)
qed

text \<open>The end of a write, when the data has room.\<close>

lemma memory_write_fits:
  fixes w :: "'a world_scheme"
  assumes D: "C \<subseteq>\<^sub>m D"
    and p: "p = w_memory_files w (f_priv (w_files w fp))" "D (mf_data p) = None" "live lo hi (D(mf_data p \<mapsto> N)) (w_heap w)"
    "unat (mf_allocated_size p) \<le> N" "cap \<le> unat (mf_allocated_size p)" "peek (w_mem w) (mf_data p) (length bs) = bs"
    and k: "k \<le> length bs" "k + unat n < 2 ^ 31" and u: "\<forall>a. in_block ptr (unat n) a \<longrightarrow> a \<in> user lo hi C"
    and M: "M = max (length bs) (k + unat n)" "M \<le> unat (mf_allocated_size p)" "f_file_size (w_files w fp) \<in> {of_nat (length bs), of_nat M}"
  shows "\<exists>w'. io_bind (update_file fp (\<lambda>F. if of_nat M > f_file_size F then F\<lparr>f_file_size := of_nat M\<rparr> else F)) (\<lambda>_.
            io_bind (private_at fp) (\<lambda>p. io_bind (copy (mf_data p + of_nat k) ptr n) (\<lambda>_. ret n))) w = Some (Inr (n, w')) \<and>
      (\<forall>a\<in>user lo hi C. w_mem w' a = w_mem w a) \<and> w_files w' fp = (w_files w fp)\<lparr>f_file_size := of_nat M\<rparr> \<and>
      memory_holds lo hi C fp cap (overwrite k (peek (w_mem w) ptr (unat n)) bs) w'"
proof -
  let ?xs = "peek (w_mem w) ptr (unat n)" and ?F = "(w_files w fp)\<lparr>f_file_size := of_nat M\<rparr>"
  have b: "unat (mf_data p) + N < 2 ^ 31" using smalloc.block [OF p(3)] by auto
  have ap: "\<not> in_block (mf_data p) N a" if "a \<in> user lo hi C" for a
    by (rule smalloc.safe_apart [OF p(3,2) user_safe [OF D that]])
  have "unat n \<le> unat (mf_data p + of_nat k - ptr)"
    using u ap by (rule_tac ahead_of_data(2) [where n = N]) (use M p(4) b in auto)
  then have c: "copy (mf_data p + of_nat k) ptr n v = Some (Inr ((), set_mem (poke (w_mem v) (mf_data p + of_nat k) (peek (w_mem v) ptr (unat n))) v))"
    for v :: "'a world_scheme" by (rule_tac copy_poke) simp
  have f: "(if of_nat M > f_file_size (w_files w fp) then (w_files w fp)\<lparr>f_file_size := of_nat M\<rparr> else w_files w fp) = ?F"
  proof -
    have "unat (of_nat (length bs) :: u32) = length bs" "unat (of_nat M :: u32) = M"
      using M p(4) b by (simp_all add: unat_of_nat)
    then have "f_file_size (w_files w fp) = of_nat M" if "\<not> of_nat M > f_file_size (w_files w fp)"
      using that M(1,3) by (auto simp: word_less_nat_alt word_unat_eq_iff max_def split: if_splits)
    then show ?thesis by auto
  qed
  let ?m = "poke (w_mem w) (mf_data p + of_nat k) ?xs"
  let ?w = "set_mem ?m (w\<lparr>w_files := (w_files w)(fp := ?F)\<rparr>)"
  have e: "io_bind (update_file fp (\<lambda>F. if of_nat M > f_file_size F then F\<lparr>f_file_size := of_nat M\<rparr> else F)) (\<lambda>_.
            io_bind (private_at fp) (\<lambda>p. io_bind (copy (mf_data p + of_nat k) ptr n) (\<lambda>_. ret n))) w = Some (Inr (n, ?w))"
    using c by (simp add: f private_at_def p(1) [symmetric] io_bind_step ret_def)
  have data: "?m a = w_mem w a" if "\<not> in_block (mf_data p) N a" for a
  proof (rule poke_outside)
    show "\<not> in_block (mf_data p + of_nat k) (length ?xs) a"
    proof
      assume a: "in_block (mf_data p + of_nat k) (length ?xs) a"
      then have "in_block (mf_data p) N (mf_data p + of_nat k + of_nat (unat (a - (mf_data p + of_nat k))))"
        using M p(4) b by (intro inside_block) (auto simp: in_block_def)
      then show False using that by simp
    qed
  qed simp
  have out: "?m a = w_mem w a" if "a \<in> user lo hi C" for a by (rule data, rule ap, rule that)
  have "live lo hi (D(mf_data p \<mapsto> N)) ((w_heap w)\<lparr>smem := ?m\<rparr>)"
    using data by (intro smalloc.fill [OF p(3), of "mf_data p" N]) auto
  moreover have "unat (mf_data p) + max (length bs) (k + length ?xs) < 2 ^ 32"
    using M(1,2) p(4) b by (simp del: max_less_iff_conj max.bounded_iff)
  then have "peek ?m (mf_data p) M = overwrite k ?xs bs"
    using peek_overwrite [OF p(6) k(1), of ?xs] M(1) by simp
  moreover have "length (overwrite k ?xs bs) = M" using k(1) M(1) by (simp add: length_overwrite)
  ultimately have "memory_holds lo hi C fp cap (overwrite k ?xs bs) ?w"
    using D p M(2) by (intro memory_holdsI [where p = p and D = D and n = N]) auto
  with e out show ?thesis by (intro exI [of _ ?w]) auto
qed

lemma private_at_bind: "io_bind (private_at fp) k w = k (w_memory_files w (f_priv (w_files w fp))) w"
  by (simp add: private_at_def)

lemma memory_write_unfold:
  assumes "(if f_fptr (w_files w fp) + n > f_file_size (w_files w fp) then f_fptr (w_files w fp) + n else f_file_size (w_files w fp)) = M"
    "p = w_memory_files w (f_priv (w_files w fp))" "a = f_fptr (w_files w fp)"
  shows "memory_write fp ptr n w =
    io_bind (if M > mf_allocated_size p
            then io_bind (on_heap (realloc (mf_data p) (M + 4096))) (\<lambda>data.
              io_bind (update_private fp (\<lambda>p. p\<lparr>mf_data := data\<rparr>)) (\<lambda>_.
              if data = 0 then ret False
              else io_bind (update_file fp (\<lambda>F. F\<lparr>f_file_size := M, f_eof := 0\<rparr>)) (\<lambda>_.
                io_bind (update_private fp (\<lambda>p. p\<lparr>mf_allocated_size := M + 4096\<rparr>)) (\<lambda>_. ret True))))
            else ret True) (\<lambda>ok.
          if \<not> ok then ret (- 1)
          else io_bind (update_file fp (\<lambda>F. if M > f_file_size F then F\<lparr>f_file_size := M\<rparr> else F)) (\<lambda>_.
            io_bind (private_at fp) (\<lambda>p. io_bind (copy (mf_data p + a) ptr n) (\<lambda>_. ret n)))) w"
  unfolding memory_write_def by (simp only: private_at_bind io_bind_state Let_def assms)

lemma memory_write_law:
  fixes w :: "'a world_scheme"
  assumes h: "memory_holds lo hi C fp cap bs w" and k: "unat (f_fptr (w_files w fp)) = k" "k \<le> length bs" "k + unat n < 2 ^ 31"
    and u: "\<forall>a. in_block ptr (unat n) a \<longrightarrow> a \<in> user lo hi C"
  shows "\<exists>r w'. memory_write fp ptr n w = Some (Inr (r, w')) \<and> (\<forall>a\<in>user lo hi C. w_mem w' a = w_mem w a) \<and>
        f_ops (w_files w' fp) = f_ops (w_files w fp) \<and> f_fptr (w_files w' fp) = f_fptr (w_files w fp) \<and>
        f_eof (w_files w' fp) \<in> {0, f_eof (w_files w fp)} \<and>
        (r = n \<and> memory_holds lo hi C fp cap (overwrite k (peek (w_mem w) ptr (unat n)) bs) w' \<or> r = - 1 \<and> cap < k + unat n)"
  using h
proof (rule memory_holdsE)
  fix p N D assume D: "C \<subseteq>\<^sub>m D" and p: "p = w_memory_files w (f_priv (w_files w fp))" "D (mf_data p) = None" "live lo hi (D(mf_data p \<mapsto> N)) (w_heap w)"
    "unat (mf_allocated_size p) \<le> N" "length bs \<le> unat (mf_allocated_size p)" "cap \<le> unat (mf_allocated_size p)"
    "unat (f_file_size (w_files w fp)) = length bs" "peek (w_mem w) (mf_data p) (length bs) = bs"
    "unat (mf_data p) + N < 2 ^ 31" "\<And>k. k \<in> user lo hi C \<Longrightarrow> \<not> in_block (mf_data p) N k"
  define F where "F = w_files w fp"
  define M where "M = max (length bs) (k + unat n)"
  have fptr: "f_fptr F = of_nat k" using k(1) by (auto simp: F_def)
  have pF: "w_memory_files w (f_priv F) = p" by (simp add: p(1) F_def)
  have M31: "M < 2 ^ 31" using p(4,5,9) k(3) by (simp add: M_def)
  have fs: "f_file_size F = of_nat (length bs)" by (subst p(7) [symmetric]) (simp add: F_def)
  have new: "(if f_fptr F + n > f_file_size F then f_fptr F + n else f_file_size F) = of_nat M"
  proof -
    have e: "f_fptr F + n = of_nat (k + unat n)" by (simp add: fptr)
    have "unat (of_nat (k + unat n) :: u32) = k + unat n" using k(3) by (simp only: unat_of_nat) simp
    moreover have "unat (of_nat (length bs) :: u32) = length bs" using p(4,5,9) by (simp add: unat_of_nat)
    ultimately show ?thesis unfolding e fs M_def word_less_nat_alt
      by (cases "length bs < k + unat n") (simp_all only: max_absorb1 max_absorb2 if_True if_False less_imp_le not_less [symmetric] simp_thms not_le_imp_less leI)
  qed
  have uM: "unat (of_nat M :: u32) = M" using M31 by (simp add: unat_of_nat)
  note unfold = memory_write_unfold [OF new [unfolded F_def] p(1) fptr [unfolded F_def, symmetric]]
  show ?thesis
  proof (cases "M \<le> unat (mf_allocated_size p)")
    case True
    then have "\<not> of_nat M > mf_allocated_size p" by (simp add: word_less_nat_alt uM)
    moreover obtain w' where w': "io_bind (update_file fp (\<lambda>F. if of_nat M > f_file_size F then F\<lparr>f_file_size := of_nat M\<rparr> else F)) (\<lambda>_.
            io_bind (private_at fp) (\<lambda>p. io_bind (copy (mf_data p + of_nat k) ptr n) (\<lambda>_. ret n))) w = Some (Inr (n, w'))"
      "\<forall>a\<in>user lo hi C. w_mem w' a = w_mem w a" "w_files w' fp = F\<lparr>f_file_size := of_nat M\<rparr>"
      "memory_holds lo hi C fp cap (overwrite k (peek (w_mem w) ptr (unat n)) bs) w'"
      using memory_write_fits [OF D p(1-4,6,8) k(2,3) u M_def True] fs unfolding F_def by blast
    ultimately have "memory_write fp ptr n w = Some (Inr (n, w'))"
      unfolding unfold by (simp only: if_False io_bind_simps simp_thms)
    then show ?thesis using w'(2-4) F_def by auto
  next
    case False
    then have grow: "of_nat M > mf_allocated_size p" by (simp add: word_less_nat_alt uM)
    have Mk: "M = k + unat n" using False p(5) by (simp add: M_def)
    let ?L = "D(mf_data p \<mapsto> N)" and ?sz = "of_nat M + 4096 :: u32"
    have sz: "unat ?sz = M + 4096" using M31 uM by (simp add: unat_word_ariths)
    have "?L (mf_data p) = Some N" by simp
    from realloc_live [OF p(3) this, of ?sz] show ?thesis
    proof (elim disjE exE conjE)
      assume r: "realloc (mf_data p) ?sz (w_heap w) = Some (w_heap w, 0)"
      let ?w = "w\<lparr>w_memory_files := (w_memory_files w)(f_priv F := p\<lparr>mf_data := 0\<rparr>)\<rparr>"
      have "memory_write fp ptr n w = Some (Inr (- 1, ?w))"
        using grow unfolding unfold by (simp add: io_bind_on_heap r update_private_def ret_def F_def [symmetric] pF Let_def)
      then show ?thesis using False p(6) Mk by (intro exI [of _ "- 1"] exI [of _ ?w]) auto
    next
      fix h q j
      assume r: "realloc (mf_data p) ?sz (w_heap w) = Some (h, q)" "q \<noteq> 0" "?L q = None" "unat ?sz \<le> j"
        "live lo hi (?L(q \<mapsto> j, mf_data p := None)) h"
        "\<forall>i. i < N \<and> i < unat ?sz \<longrightarrow> smem h (q + of_nat i) = smem (w_heap w) (mf_data p + of_nat i)"
        "\<forall>k. smalloc.safe lo hi (?L(mf_data p := None)) k \<longrightarrow> smem h k = smem (w_heap w) k"
      have L: "?L(q \<mapsto> j, mf_data p := None) = D(q \<mapsto> j)" "?L(mf_data p := None) = D" "D q = None"
        using r(3) p(2) by (auto simp: fun_eq_iff split: if_splits)
      define p' where "p' = p\<lparr>mf_data := q, mf_allocated_size := ?sz\<rparr>"
      define w1 where "w1 = w\<lparr>w_heap := h, w_files := (w_files w)(fp := F\<lparr>f_file_size := of_nat M, f_eof := 0\<rparr>),
        w_memory_files := (w_memory_files w)(f_priv F := p')\<rparr>"
      have same: "w_mem w1 a = w_mem w a" if "a \<in> user lo hi C" for a
        using r(7) [unfolded L(2)] user_safe [OF D that] by (simp add: w1_def)
      have xs: "peek (w_mem w1) ptr (unat n) = peek (w_mem w) ptr (unat n)"
        using u same by (intro peek_cong) auto
      have data: "peek (w_mem w1) (mf_data p') (length bs) = bs"
      proof (rule nth_equalityI)
        fix i assume "i < length (peek (w_mem w1) (mf_data p') (length bs))"
        then show "peek (w_mem w1) (mf_data p') (length bs) ! i = bs ! i"
          using r(6) p(4,5) sz M_def nth_peek [of i "length bs" "w_mem w" "mf_data p"] p(8)
          by (simp add: nth_peek w1_def p'_def)
      qed simp
      have "M \<le> unat (mf_allocated_size p')" "cap \<le> unat (mf_allocated_size p')" "unat (mf_allocated_size p') \<le> j"
        "p' = w_memory_files w1 (f_priv (w_files w1 fp))" "D (mf_data p') = None" "live lo hi (D(mf_data p' \<mapsto> j)) (w_heap w1)"
        "f_file_size (w_files w1 fp) \<in> {of_nat (length bs), of_nat M}"
        using p(6) False sz r(4,5) L by (simp_all add: p'_def w1_def F_def)
      then obtain w' where w': "io_bind (update_file fp (\<lambda>F. if of_nat M > f_file_size F then F\<lparr>f_file_size := of_nat M\<rparr> else F)) (\<lambda>_.
              io_bind (private_at fp) (\<lambda>p. io_bind (copy (mf_data p + of_nat k) ptr n) (\<lambda>_. ret n))) w1 = Some (Inr (n, w'))"
        "\<forall>a\<in>user lo hi C. w_mem w' a = w_mem w1 a" "w_files w' fp = (w_files w1 fp)\<lparr>f_file_size := of_nat M\<rparr>"
        "memory_holds lo hi C fp cap (overwrite k (peek (w_mem w1) ptr (unat n)) bs) w'"
        using memory_write_fits [OF D, of p' w1 fp lo hi j cap bs k n ptr M] data k(2,3) u M_def by blast
      have "memory_write fp ptr n w = Some (Inr (n, w'))"
        unfolding unfold w'(1) [symmetric] using grow r(2)
        by (simp add: io_bind_on_heap r(1) update_private_def F_def [symmetric] pF Let_def w1_def p'_def)
      then show ?thesis using w'(2-4) same xs by (intro exI [of _ n] exI [of _ w']) (auto simp: w1_def F_def)
    qed
  qed
qed

interpretation memory: file_system memory_read memory_write memory_seek "memory_holds lo hi C" "user lo hi C" for lo hi C
proof
  fix fp cap bs and w :: "'a world_scheme" assume "memory_holds lo hi C fp cap bs w"
  then show "length bs < 2 ^ 31" by (rule memory_holdsE) simp
next
  fix fp cap bs d and w :: "'a world_scheme" assume "memory_holds lo hi C fp cap bs w"
  then show "\<exists>w'. memory_seek fp d w = Some (Inr ((), w')) \<and> memory_holds lo hi C fp cap bs w' \<and>
      w_files w' fp = w_files w fp \<and> (\<forall>a\<in>user lo hi C. w_mem w' a = w_mem w a)"
    by (simp add: memory_seek_def ret_def)
next
  fix fp cap bs m and w :: "'a world_scheme"
  assume "memory_holds lo hi C fp cap bs w" "\<forall>a. m a \<noteq> w_mem w a \<longrightarrow> a \<in> user lo hi C"
  then show "memory_holds lo hi C fp cap bs (set_mem m w)" by (rule_tac memory_holds_cong) auto
qed (rule memory_read_law memory_write_law memory_holds_position; assumption)+

end
