(* ===== verification/Registry.thy ===== *)
theory Registry
  imports FileProps
begin

text \<open>
  The tables of registered file systems (\<open>register_op\<close>, \<open>get_fops_from_uri\<close>, \<open>fopen\<close> of fileops.c) as
  lists: two blocks of the heap that grow by \<open>realloc\<close> hold the URIs and the operations.
\<close>

unbundle bit_operations_syntax

subsection \<open>Comparing\<close>

lemma map_sint_eq: "map sint (xs :: u8 list) = map sint ys \<longleftrightarrow> xs = ys"
  using inj_map_eq_map [of "sint :: u8 \<Rightarrow> int"] signed_word_eqI by (metis injI)

lemma strncmp_prefix:
  assumes "cstr m a xs" "cstr m b ys" "length xs < 2 ^ 31"
  shows "\<exists>r. strncmp m a b (of_nat (length xs)) = Some r \<and> (r = 0 \<longleftrightarrow> take (length xs) ys = xs)"
proof -
  have n: "unat (of_nat (length xs) :: u32) = length xs" using assms(3) by (simp add: unat_of_nat)
  have "0 \<notin> set xs" "0 \<notin> set ys" using assms(1,2) by (simp_all add: cstr_peek)
  then have "cmp_from id (length xs) xs ys = 0 \<longleftrightarrow> map sint (take (length xs) xs) = map sint (take (length xs) ys)"
    using cmp_from_0_iff [of id xs ys "length xs"] by (simp add: o_def)
  also have "\<dots> \<longleftrightarrow> take (length xs) ys = xs" unfolding map_sint_eq by auto
  finally show ?thesis using j_strncmp_cmp [OF assms(1,2), of "of_nat (length xs)"] n assms(3)
    by (simp add: strncmp_def)
qed

subsection \<open>The tables\<close>

definition tables_hold :: "mem \<Rightarrow> all_ops \<Rightarrow> (u32 \<times> u32) list \<Rightarrow> bool" where
  "tables_hold m f es \<longleftrightarrow> (\<forall>i<length es. load32 m (ao_uris f + 4 * of_nat i) = fst (es ! i) \<and>
     load32 m (ao_table f + 4 * of_nat i) = snd (es ! i))"

text \<open>The strings of the URIs, in the memory of the client.\<close>

definition uris_hold :: "u32 set \<Rightarrow> (u32 \<Rightarrow> u8 list) \<Rightarrow> mem \<Rightarrow> u32 set \<Rightarrow> bool" where
  "uris_hold U str m A \<longleftrightarrow> (\<forall>a\<in>A. a \<noteq> 0 \<and> cstr m a (str a) \<and> length (str a) < 2 ^ 30 \<and>
     (\<forall>c. in_block a (Suc (length (str a))) c \<longrightarrow> c \<in> U))"

lemma uris_holdD:
  assumes "uris_hold U str m A" "a \<in> A"
  shows "a \<noteq> 0" "cstr m a (str a)" "length (str a) < 2 ^ 30"
  using assms by (auto simp: uris_hold_def)

lemma uris_hold_cong: "uris_hold U str m A \<Longrightarrow> (\<And>c. c \<in> U \<Longrightarrow> m' c = m c) \<Longrightarrow> uris_hold U str m' A"
  unfolding uris_hold_def using cstr_cong [of m _ _ m'] by blast

definition same_entry :: "(u32 \<Rightarrow> int) \<Rightarrow> (u32 \<Rightarrow> u8 list) \<Rightarrow> u32 \<Rightarrow> u32 \<Rightarrow> u32 \<times> u32 \<Rightarrow> bool" where
  "same_entry prio str uri fop e \<longleftrightarrow> str uri = str (fst e) \<and> prio (snd e) < prio fop"

lemma sint_index: "i < 2 ^ 31 \<Longrightarrow> sint (of_nat i :: u32) = int i"
  by (subst sint32_pos) (simp_all add: unat_of_nat)

lemma same_op_find:
  assumes t: "tables_hold m f es" "ao_n_ops f = of_nat (length es)" "length es < 2 ^ 31"
    and u: "uris_hold U str m (insert uri (fst ` set es))"
  shows "i \<le> length es \<Longrightarrow> same_op prio m f uri fop (of_nat i) =
    Some (case find (\<lambda>j. same_entry prio str uri fop (es ! j)) [i..<length es] of None \<Rightarrow> - 1 | Some j \<Rightarrow> of_nat j)"
proof (induction "length es - i" arbitrary: i)
  case 0
  then show ?case using t(2,3) by (simp add: same_op.simps)
next
  case (Suc n)
  then have i: "i < length es" by simp
  then have l: "load32 m (ao_uris f + 4 * of_nat i) = fst (es ! i)" "load32 m (ao_table f + 4 * of_nat i) = snd (es ! i)"
    using t(1) by (simp_all add: tables_hold_def)
  have "fst (es ! i) \<in> insert uri (fst ` set es)" using i by simp
  then obtain r where r: "strcmp m uri (fst (es ! i)) = Some r" "r = 0 \<longleftrightarrow> str uri = str (fst (es ! i))"
    using strcmp_eq [of m uri "str uri" "fst (es ! i)" "str (fst (es ! i))"] uris_holdD(2,3) [OF u, of uri] uris_holdD(2,3) [OF u, of "fst (es ! i)"]
    by auto
  have "sint (of_nat i :: u32) < sint (ao_n_ops f)" using i t(2,3) by (simp add: sint_index)
  moreover have "[i..<length es] = i # [Suc i..<length es]" using i by (rule upt_conv_Cons)
  ultimately show ?case
    using r l Suc(1) [of "Suc i"] Suc(2) i by (subst same_op.simps) (auto simp: same_entry_def add.commute)
qed

text \<open>The first URI that starts the path.\<close>

definition starts :: "(u32 \<Rightarrow> u8 list) \<Rightarrow> u8 list \<Rightarrow> u32 \<times> u32 \<Rightarrow> bool" where
  "starts str p e \<longleftrightarrow> take (length (str (fst e))) p = str (fst e)"

lemma fops_loop_find:
  assumes t: "tables_hold m f es" "ao_n_ops f = of_nat (length es)" "length es < 2 ^ 31"
    and u: "uris_hold U str m (fst ` set es)" and p: "cstr m path p"
  shows "i \<le> length es \<Longrightarrow> fops_loop m f path (of_nat i) =
    Some (case find (starts str p) (drop i es) of None \<Rightarrow> (0, 0) | Some e \<Rightarrow> (snd e, fst e))"
proof (induction "length es - i" arbitrary: i)
  case 0
  then show ?case using t(2,3) by (simp add: fops_loop.simps)
next
  case (Suc n)
  then have i: "i < length es" by simp
  then have l: "load32 m (ao_uris f + 4 * of_nat i) = fst (es ! i)" "load32 m (ao_table f + 4 * of_nat i) = snd (es ! i)"
    using t(1) by (simp_all add: tables_hold_def)
  have "fst (es ! i) \<in> fst ` set es" using i by simp
  note c = uris_holdD [OF u this]
  obtain r where r: "strncmp m (fst (es ! i)) path (of_nat (length (str (fst (es ! i))))) = Some r" "r = 0 \<longleftrightarrow> starts str p (es ! i)"
    using strncmp_prefix [OF c(2) p] c(3) by (auto simp: starts_def)
  have "sint (of_nat i :: u32) < sint (ao_n_ops f)" using i t(2,3) by (simp add: sint_index)
  moreover have "drop i es = es ! i # drop (Suc i) es" using i by (rule Cons_nth_drop_Suc [symmetric])
  ultimately show ?case
    using r l c(1) strlen_correct [OF c(2)] Suc(1) [of "Suc i"] Suc(2) i
    by (subst fops_loop.simps) (auto simp: Let_def add.commute)
qed

subsection \<open>Growing a table\<close>

lemma grow:
  assumes l: "live lo hi L st" and p: "p = 0 \<and> k = 0 \<or> L p = Some n \<and> k \<le> n" and k: "k \<le> unat sz"
  shows "realloc p sz st = Some (st, 0) \<or>
    (\<exists>st' q j. realloc p sz st = Some (st', q) \<and> q \<noteq> 0 \<and> L q = None \<and> unat sz \<le> j \<and> live lo hi (L(p := None, q \<mapsto> j)) st' \<and>
      (\<forall>i<k. smem st' (q + of_nat i) = smem st (p + of_nat i)) \<and>
      (\<forall>a. smalloc.safe lo hi (L(p := None)) a \<longrightarrow> smem st' a = smem st a))"
proof (cases "p = 0")
  case True
  have L0: "L(p := None) = L" using smalloc.block [OF l, of 0] True by (cases "L 0") (auto simp: fun_upd_idem)
  have k0: "k = 0" using p smalloc.block [OF l, of 0] True by auto
  obtain st' q where m: "malloc sz st = Some (st', q)" using smalloc.alloc_total [OF l] by blast
  show ?thesis
  proof (cases "q = 0")
    case True
    then show ?thesis using m smalloc.alloc_null [OF l] by (auto simp: realloc_def)
  next
    case False
    obtain j where "L q = None" "unat sz \<le> j" "live lo hi (L(q \<mapsto> j)) st'" "\<And>k. smalloc.safe lo hi L k \<Longrightarrow> smem st' k = smem st k"
      by (rule smalloc.alloc_fresh [OF l m False]) (rule that, assumption+)
    note j = this
    have "realloc p sz st = Some (st', q)" using m False True by (simp add: realloc_def)
    then show ?thesis unfolding L0 using False j
      by (intro disjI2 exI [of _ st'] exI [of _ q] exI [of _ j] conjI allI impI) (assumption | simp add: k0 | blast)+
  qed
next
  case False
  then have n: "L p = Some n" "k \<le> n" using p by auto
  from realloc_live [OF l n(1), of sz] show ?thesis
  proof (elim disjE exE conjE)
    fix st' q j
    assume r: "realloc p sz st = Some (st', q)" "q \<noteq> 0" "L q = None" "unat sz \<le> j" "live lo hi (L(q \<mapsto> j, p := None)) st'"
      "\<forall>i. i < n \<and> i < unat sz \<longrightarrow> smem st' (q + of_nat i) = smem st (p + of_nat i)"
      "\<forall>k. smalloc.safe lo hi (L(p := None)) k \<longrightarrow> smem st' k = smem st k"
    have "q \<noteq> p" using r(3) n(1) by auto
    then have "L(q \<mapsto> j, p := None) = L(p := None, q \<mapsto> j)" by (rule fun_upd_twist)
    then have "live lo hi (L(p := None, q \<mapsto> j)) st'" using r(5) by (simp only:)
    moreover have "smem st' (q + of_nat i) = smem st (p + of_nat i)" if "i < k" for i
      by (rule r(6) [rule_format]) (use that n(2) k in auto)
    ultimately show ?thesis using r(1-4,7)
      by (intro disjI2 exI [of _ st'] exI [of _ q] exI [of _ j] conjI allI impI) (assumption | blast)+
  qed blast
qed

lemma load32_copied:
  assumes "\<forall>i<k. m' (q + of_nat i) = m (p + of_nat i)" "4 * i + 4 \<le> k"
  shows "load32 m' (q + 4 * of_nat i) = load32 m (p + 4 * of_nat i)"
proof -
  have h: "m' (q + 4 * of_nat i + of_nat c) = m (p + 4 * of_nat i + of_nat c)" if "c < 4" for c
  proof -
    have "4 * i + c < k" using that assms(2) by simp
    from assms(1) [rule_format, OF this] show ?thesis by (simp add: add.assoc)
  qed
  show ?thesis using h [of 0] h [of 1] h [of 2] h [of 3] by (simp only: load32_def of_nat_numeral of_nat_1 of_nat_0 add_0_right) simp
qed

text \<open>A table of words in a live block.\<close>

definition word_table :: "mem \<Rightarrow> u32 \<Rightarrow> u32 list \<Rightarrow> bool" where
  "word_table m t vs \<longleftrightarrow> (\<forall>i<length vs. load32 m (t + 4 * of_nat i) = vs ! i)"

lemma tables_hold_iff:
  "tables_hold m f es \<longleftrightarrow> word_table m (ao_uris f) (List.map fst es) \<and> word_table m (ao_table f) (List.map snd es)"
  by (auto simp: tables_hold_def word_table_def)

lemma word_table_copied:
  assumes "word_table m p vs" "\<forall>i<k. m' (q + of_nat i) = m (p + of_nat i)" "4 * length vs \<le> k"
  shows "word_table m' q vs"
  using assms load32_copied [OF assms(2)] by (simp add: word_table_def)

lemma slot_in_block: "4 * i + 4 \<le> n \<Longrightarrow> unat t + n < 2 ^ 32 \<Longrightarrow> in_block (t + 4 * of_nat i) 4 a \<Longrightarrow> in_block t n a"
proof -
  assume i: "4 * i + 4 \<le> n" "unat t + n < 2 ^ 32" "in_block (t + 4 * of_nat i) 4 a"
  have "a = t + of_nat (4 * i) + of_nat (unat (a - (t + 4 * of_nat i)))" by simp
  moreover have "in_block t n (t + of_nat (4 * i) + of_nat (unat (a - (t + 4 * of_nat i))))"
    using i by (intro inside_block) (auto simp: in_block_def)
  ultimately show "in_block t n a" by simp
qed

lemma slot_distinct:
  assumes "i < 2 ^ 29" "j < 2 ^ 29" "t + 4 * of_nat i = t + 4 * (of_nat j :: u32)"
  shows "i = j"
proof -
  have "(of_nat (4 * i) :: u32) = of_nat (4 * j)" using assms(3) by simp
  then have "unat (of_nat (4 * i) :: u32) = unat (of_nat (4 * j) :: u32)" by (rule arg_cong)
  then show ?thesis using assms(1,2) by (simp only: unat_of_nat) simp
qed

lemma aligned4_slot: "aligned4 t \<Longrightarrow> aligned4 (t + 4 * of_nat i)"
proof (rule aligned4_add)
  have "4 dvd unat (4 * of_nat i :: u32)"
    by (simp add: unat_word_ariths dvd_mod_iff)
  then show "aligned4 (4 * of_nat i)" by (simp add: aligned4_unat)
qed

lemma word_table_store:
  assumes "word_table m t vs" "aligned4 t" "length vs < 2 ^ 29"
  shows "i < length vs \<Longrightarrow> word_table (store32 m (t + 4 * of_nat i) v) t (vs[i := v])"
    "length vs < 2 ^ 29 - 1 \<Longrightarrow> word_table (store32 m (t + 4 * of_nat (length vs)) v) t (vs @ [v])"
proof -
  have l: "load32 (store32 m (t + 4 * of_nat i) v) (t + 4 * of_nat j) = (if j = i then v else load32 m (t + 4 * of_nat j))"
    if "i < 2 ^ 29" "j < 2 ^ 29" for i j
  proof (cases "j = i")
    case False
    then have "t + 4 * of_nat i \<noteq> t + 4 * (of_nat j :: u32)" using slot_distinct [of i j t] that by auto
    with False show ?thesis
      using load32_store32_other [OF aligned4_slot [OF assms(2), of i] aligned4_slot [OF assms(2), of j]] by simp
  qed (simp add: load32_store32_same)
  show "i < length vs \<Longrightarrow> word_table (store32 m (t + 4 * of_nat i) v) t (vs[i := v])"
    using assms(1,3) l [of i] by (simp add: word_table_def nth_list_update)
  show "length vs < 2 ^ 29 - 1 \<Longrightarrow> word_table (store32 m (t + 4 * of_nat (length vs)) v) t (vs @ [v])"
    using assms(1,3) l [of "length vs"] by (simp add: word_table_def nth_append less_Suc_eq)
qed

lemma word_table_other:
  assumes "word_table m t vs" "\<And>a. in_block t n a \<Longrightarrow> m' a = m a" "4 * length vs \<le> n" "unat t + n < 2 ^ 32"
  shows "word_table m' t vs"
proof -
  have "load32 m' (t + 4 * of_nat i) = load32 m (t + 4 * of_nat i)" if "i < length vs" for i
    using assms(2) slot_in_block [of i n t] that assms(3,4) by (intro load32_cong) auto
  then show ?thesis using assms(1) by (simp add: word_table_def)
qed

subsection \<open>Registering\<close>

definition registry :: "u32 \<Rightarrow> nat \<Rightarrow> (u32 \<rightharpoonup> nat) \<Rightarrow> all_ops \<Rightarrow> (u32 \<times> u32) list \<Rightarrow> smalloc \<Rightarrow> bool" where
  "registry lo hi C f es st \<longleftrightarrow> length es < 2 ^ 28 \<and> ao_n_ops f = of_nat (length es) \<and> tables_hold (smem st) f es \<and>
     (\<exists>D. C \<subseteq>\<^sub>m D \<and> live lo hi D st \<and>
       (if es = [] then ao_table f = 0 \<and> ao_uris f = 0
        else \<exists>a b. D (ao_table f) = Some a \<and> D (ao_uris f) = Some b \<and> ao_table f \<noteq> ao_uris f \<and>
          C (ao_table f) = None \<and> C (ao_uris f) = None \<and> 4 * length es \<le> a \<and> 4 * length es \<le> b))"

definition registered :: "(u32 \<Rightarrow> int) \<Rightarrow> (u32 \<Rightarrow> u8 list) \<Rightarrow> u32 \<Rightarrow> u32 \<Rightarrow> (u32 \<times> u32) list \<Rightarrow> (u32 \<times> u32) list" where
  "registered prio str uri fop es =
     (case find (\<lambda>j. same_entry prio str uri fop (es ! j)) [0..<length es] of
        None \<Rightarrow> es @ [(uri, fop)] | Some j \<Rightarrow> es[j := (uri, fop)])"

lemma reserved_apart:
  assumes "live lo hi D st" "D t = Some a" "C \<subseteq>\<^sub>m D" "C t = None" "k \<in> user lo hi C"
  shows "\<not> in_block t a k"
proof (rule smalloc.safe_apart)
  have "(D(t := None))(t \<mapsto> a) = D" using assms(2) by (simp add: fun_upd_idem)
  then show "live lo hi ((D(t := None))(t \<mapsto> a)) st" using assms(1) by simp
  have "C \<subseteq>\<^sub>m D(t := None)" using assms(3,4) by (auto simp: map_le_def)
  then show "smalloc.safe lo hi (D(t := None)) k" by (rule user_safe [OF _ assms(5)])
qed simp

lemma live_block:
  assumes "live lo hi D st" "D t = Some a"
  shows "aligned4 t" "t \<noteq> 0" "unat t + a < 2 ^ 31"
  using smalloc.block [OF assms] by auto

lemma store_slot:
  assumes "live lo hi D st" "D t = Some a" "4 * i + 4 \<le> a"
  shows "live lo hi D (st\<lparr>smem := store32 (smem st) (t + 4 * of_nat i) v\<rparr>)"
    "\<not> in_block t a k \<Longrightarrow> store32 (smem st) (t + 4 * of_nat i) v k = smem st k"
proof -
  have out: "\<And>k. \<not> in_block t a k \<Longrightarrow> store32 (smem st) (t + 4 * of_nat i) v k = smem st k"
    using slot_in_block [OF assms(3)] live_block(3) [OF assms(1,2)] by (intro store32_outside) auto
  then show "live lo hi D (st\<lparr>smem := store32 (smem st) (t + 4 * of_nat i) v\<rparr>)"
    by (intro smalloc.fill [OF assms(1,2)]) auto
  show "\<not> in_block t a k \<Longrightarrow> store32 (smem st) (t + 4 * of_nat i) v k = smem st k" by (rule out)
qed

text \<open>Writing one entry into two tables.\<close>

lemma store_entry:
  assumes l: "live lo hi D st" and t: "D t = Some a" "D u = Some b" "t \<noteq> u" "4 * i + 4 \<le> a" "4 * i + 4 \<le> b"
    and C: "C \<subseteq>\<^sub>m D" "C t = None" "C u = None"
    and w: "word_table (smem st) t ts" "word_table (smem st) u us" "length ts = length us" "length ts < 2 ^ 28" "4 * length ts \<le> a" "4 * length us \<le> b"
    and i: "i < length ts \<and> ts' = ts[i := fop] \<and> us' = us[i := uri] \<or> i = length ts \<and> ts' = ts @ [fop] \<and> us' = us @ [uri]"
  shows "let m = store32 (store32 (smem st) (t + 4 * of_nat i) fop) (u + 4 * of_nat i) uri
    in live lo hi D (st\<lparr>smem := m\<rparr>) \<and> word_table m t ts' \<and> word_table m u us' \<and> (\<forall>k\<in>user lo hi C. m k = smem st k)"
proof -
  define m1 where "m1 = store32 (smem st) (t + 4 * of_nat i) fop"
  define m2 where "m2 = store32 m1 (u + 4 * of_nat i) uri"
  note b1 = live_block [OF l t(1)] and b2 = live_block [OF l t(2)]
  have s1: "live lo hi D (st\<lparr>smem := m1\<rparr>)" "\<And>k. \<not> in_block t a k \<Longrightarrow> m1 k = smem st k"
    unfolding m1_def by (rule store_slot [OF l t(1,4)])+
  have s2: "live lo hi D (st\<lparr>smem := m2\<rparr>)" "\<And>k. \<not> in_block u b k \<Longrightarrow> m2 k = m1 k"
    using store_slot [OF s1(1) t(2,5)] unfolding m2_def by simp_all
  have d: "in_block u b k \<Longrightarrow> \<not> in_block t a k" "in_block t a k \<Longrightarrow> \<not> in_block u b k" for k
    using smalloc.apart [OF l t(1,2,3), of k] by auto
  have "word_table m1 t ts'"
    using i word_table_store(1) [OF w(1) b1(1), of i fop] word_table_store(2) [OF w(1) b1(1), of fop] w(4) unfolding m1_def by auto
  moreover have len: "4 * length ts' \<le> a" using i w(5) t(4) by auto
  ultimately have T: "word_table m2 t ts'"
    using s2(2) d(2) b1(3) by (rule_tac word_table_other [where n = a]) auto
  have u1: "word_table m1 u us" using s1(2) d(1) w(6) b2(3) by (rule_tac word_table_other [OF w(2), where n = b]) auto
  have "word_table m2 u us'"
    using i word_table_store(1) [OF u1 b2(1), of i uri] word_table_store(2) [OF u1 b2(1), of uri] w(3,4) unfolding m2_def by auto
  moreover have "m2 k = smem st k" if "k \<in> user lo hi C" for k
    using s1(2) [OF reserved_apart [OF l t(1) C(1,2) that]] s2(2) [OF reserved_apart [OF l t(2) C(1,3) that]] by simp
  ultimately show ?thesis using T s2(1) unfolding Let_def m1_def [symmetric] m2_def [symmetric] by auto
qed

text \<open>Both tables grow; the heap has two new blocks with the old entries.\<close>

lemma grow_tables:
  assumes r: "registry lo hi C f es st" and n: "length es < 2 ^ 28 - 1"
  defines "sz \<equiv> 4 * (ao_n_ops f + 1)"
  shows "\<exists>st1 t st2 u. realloc (ao_table f) sz st = Some (st1, t) \<and> realloc (ao_uris f) sz st1 = Some (st2, u) \<and>
    (t \<noteq> 0 \<longrightarrow> u \<noteq> 0 \<longrightarrow> (\<exists>D a b. C \<subseteq>\<^sub>m D \<and> live lo hi D st2 \<and> D t = Some a \<and> D u = Some b \<and> t \<noteq> u \<and> C t = None \<and> C u = None \<and>
       4 * length es + 4 \<le> a \<and> 4 * length es + 4 \<le> b \<and> word_table (smem st2) t (List.map snd es) \<and> word_table (smem st2) u (List.map fst es) \<and>
       (\<forall>k\<in>user lo hi C. smem st2 k = smem st k)))"
proof -
  let ?t = "ao_table f" and ?u = "ao_uris f" and ?k = "4 * length es"
  obtain D where D: "C \<subseteq>\<^sub>m D" "live lo hi D st" and E: "es = [] \<Longrightarrow> ?t = 0 \<and> ?u = 0"
    "es \<noteq> [] \<Longrightarrow> \<exists>a b. D ?t = Some a \<and> D ?u = Some b \<and> ?t \<noteq> ?u \<and> C ?t = None \<and> C ?u = None \<and> ?k \<le> a \<and> ?k \<le> b"
    using r unfolding registry_def by (auto split: if_splits)
  have W: "word_table (smem st) ?t (List.map snd es)" "word_table (smem st) ?u (List.map fst es)" and ops: "ao_n_ops f = of_nat (length es)"
    using r by (simp_all add: registry_def tables_hold_iff)
  have sz: "unat sz = ?k + 4"
  proof -
    have "sz = of_nat (?k + 4)" by (simp add: sz_def ops)
    then show ?thesis using n by (simp only: unat_of_nat) simp
  qed
  have D0: "D 0 = None" using smalloc.block [OF D(2), of 0] by (cases "D 0") auto
  have C0: "C 0 = None" using D0 D(1) unfolding map_le_def by (metis domIff)
  have Ct: "C ?t = None" "C ?u = None" using E C0 by (cases "es = []"; auto)+
  obtain a where pa: "?t = 0 \<and> ?k = 0 \<or> D ?t = Some a \<and> ?k \<le> a" using E by (cases "es = []") auto
  obtain b where pb: "?u = 0 \<and> ?k = 0 \<or> D ?u = Some b \<and> ?k \<le> b \<and> ?u \<noteq> ?t" using E by (cases "es = []") auto
  have k: "?k \<le> unat sz" by (simp add: sz)
  from grow [OF D(2) pa k] show ?thesis
  proof (elim disjE exE conjE)
    assume g: "realloc ?t sz st = Some (st, 0)"
    have pb': "?u = 0 \<and> ?k = 0 \<or> D ?u = Some b \<and> ?k \<le> b" using pb by auto
    show ?thesis using g grow [OF D(2) pb' k] by auto
  next
    fix st1 t j1
    assume g1: "realloc ?t sz st = Some (st1, t)" "t \<noteq> 0" "D t = None" "unat sz \<le> j1" "live lo hi (D(?t := None, t \<mapsto> j1)) st1"
      "\<forall>i<?k. smem st1 (t + of_nat i) = smem st (?t + of_nat i)"
      "\<forall>a. smalloc.safe lo hi (D(?t := None)) a \<longrightarrow> smem st1 a = smem st a"
    let ?D1 = "D(?t := None, t \<mapsto> j1)"
    have pb1: "?u = 0 \<and> ?k = 0 \<or> ?D1 ?u = Some b \<and> ?k \<le> b" using pb g1(3) by auto
    have CD1: "C \<subseteq>\<^sub>m D(?t := None)" using D(1) Ct by (auto simp: map_le_def)
    have T1: "word_table (smem st1) t (List.map snd es)" by (rule word_table_copied [OF W(1) g1(6)]) simp
    have U1: "word_table (smem st1) ?u (List.map fst es)"
    proof (cases "es = []")
      case False
      then have b: "D ?u = Some b" "?k \<le> b" "?u \<noteq> ?t" using pb by auto
      show ?thesis
      proof (rule word_table_other [OF W(2)])
        fix c assume "in_block ?u b c"
        then have "smalloc.safe lo hi (D(?t := None)) c" using b(1,3) unfolding smalloc.safe_def by (intro disjI2 exI [of _ ?u] exI [of _ b]) simp
        then show "smem st1 c = smem st c" using g1(7) by blast
      qed (use b live_block(3) [OF D(2) b(1)] in auto)
    qed (simp add: word_table_def)
    from grow [OF g1(5) pb1 k] show ?thesis
    proof (elim disjE exE conjE)
      assume "realloc ?u sz st1 = Some (st1, 0)"
      then show ?thesis using g1(1) by blast
    next
      fix st2 u j2
      assume g2: "realloc ?u sz st1 = Some (st2, u)" "u \<noteq> 0" "?D1 u = None" "unat sz \<le> j2" "live lo hi (?D1(?u := None, u \<mapsto> j2)) st2"
        "\<forall>i<?k. smem st2 (u + of_nat i) = smem st1 (?u + of_nat i)"
        "\<forall>a. smalloc.safe lo hi (?D1(?u := None)) a \<longrightarrow> smem st2 a = smem st1 a"
      let ?D2 = "?D1(?u := None, u \<mapsto> j2)"
      have tu: "t \<noteq> u" "t \<noteq> ?u" using g2(3) pb g1(2,3) by (auto split: if_splits)
      have Cu: "C u = None" "C t = None"
      proof -
        have "u \<in> dom C \<Longrightarrow> D u \<noteq> None" "t \<in> dom C \<Longrightarrow> D t \<noteq> None" using D(1) by (force simp: map_le_def dom_def)+
        then show "C t = None" "C u = None" using g1(3) g2(3) Ct(1) by (auto split: if_splits)
      qed
      have CD2: "C \<subseteq>\<^sub>m ?D1(?u := None)" using CD1 Ct(2) Cu(2) by (auto simp: map_le_def)
      have "?D2 t = Some j1" "?D2 u = Some j2" "C \<subseteq>\<^sub>m ?D2" using tu CD2 Cu(1) by (auto simp: map_le_def)
      moreover have "word_table (smem st2) u (List.map fst es)" by (rule word_table_copied [OF U1 g2(6)]) simp
      moreover have "word_table (smem st2) t (List.map snd es)"
      proof (rule word_table_other [OF T1])
        fix c assume "in_block t j1 c"
        then have "smalloc.safe lo hi (?D1(?u := None)) c" using tu(2) unfolding smalloc.safe_def by (intro disjI2 exI [of _ t] exI [of _ j1]) simp
        then show "smem st2 c = smem st1 c" using g2(7) by blast
      qed (use g1(4) sz live_block(3) [OF g1(5), of t j1] in auto)
      moreover have "smem st2 c = smem st c" if "c \<in> user lo hi C" for c
        using g1(7) g2(7) user_safe [OF CD1 that] user_safe [OF CD2 that] by simp
      ultimately show ?thesis using g1(1,4) g2(1,4,5) tu(1) Cu sz
        by (intro exI [of _ st1] exI [of _ t] exI [of _ st2] exI [of _ u] conjI impI exI [of _ ?D2] exI [of _ j1] exI [of _ j2]) (assumption | simp)+
    qed
  qed
qed

lemma register_list:
  fixes w :: "'a world_scheme"
  assumes r: "registry lo hi C f es (w_heap w)" and n: "length es < 2 ^ 28 - 1"
    and u: "uris_hold (user lo hi C) str (w_mem w) (insert uri (fst ` set es))"
  shows "register_op prio f uri fop d w = Some (Inl ''Memory allocation of fops failed'') \<or>
    (\<exists>f' st'. register_op prio f uri fop d w = Some (Inr (f', w\<lparr>w_heap := st'\<rparr>)) \<and>
      registry lo hi C f' (registered prio str uri fop es) st' \<and> ao_fallback f' = (if d then fop else ao_fallback f) \<and>
      (\<forall>k\<in>user lo hi C. smem st' k = w_mem w k))"
proof -
  have ops: "ao_n_ops f = of_nat (length es)" "tables_hold (w_mem w) f es" "length es < 2 ^ 31" using r n by (simp_all add: registry_def)
  let ?i = "find (\<lambda>j. same_entry prio str uri fop (es ! j)) [0..<length es]"
  have idx: "io_bind (ask_mem (\<lambda>m. same_op prio m f uri fop 0)) h w = h (case ?i of None \<Rightarrow> - 1 | Some j \<Rightarrow> of_nat j) w"
    for h :: "u32 \<Rightarrow> ('a world_scheme, all_ops) io"
    using same_op_find [OF ops(2,1,3) u, of 0] by (intro io_bind_ask_mem) simp
  show ?thesis
  proof (cases ?i)
    case None
    let ?sz = "4 * (ao_n_ops f + 1)" and ?l = "length es"
    obtain st1 t st2 v where g: "realloc (ao_table f) ?sz (w_heap w) = Some (st1, t)" "realloc (ao_uris f) ?sz st1 = Some (st2, v)"
      and G: "t \<noteq> 0 \<longrightarrow> v \<noteq> 0 \<longrightarrow> (\<exists>D a b. C \<subseteq>\<^sub>m D \<and> live lo hi D st2 \<and> D t = Some a \<and> D v = Some b \<and> t \<noteq> v \<and> C t = None \<and> C v = None \<and>
       4 * ?l + 4 \<le> a \<and> 4 * ?l + 4 \<le> b \<and> word_table (smem st2) t (List.map snd es) \<and> word_table (smem st2) v (List.map fst es) \<and>
       (\<forall>k\<in>user lo hi C. smem st2 k = w_mem w k))"
      using grow_tables [OF r n] by blast
    let ?f = "f\<lparr>ao_n_ops := ao_n_ops f + 1, ao_table := t, ao_uris := v\<rparr>"
    have step: "register_op prio f uri fop d w = (if t = 0 \<or> v = 0 then Some (Inl ''Memory allocation of fops failed'') else
      Some (Inr (if d then ?f\<lparr>ao_fallback := fop\<rparr> else ?f,
        w\<lparr>w_heap := st2\<lparr>smem := store32 (store32 (smem st2) (t + 4 * of_nat ?l) fop) (v + 4 * of_nat ?l) uri\<rparr>\<rparr>)))"
      using g by (simp add: register_op_def idx None Let_def io_bind_on_heap ops(1) [symmetric] ret_def throw_def set_mem_def)
    show ?thesis
    proof (cases "t = 0 \<or> v = 0")
      case True
      then show ?thesis by (simp add: step)
    next
      case False
      obtain D a b where D: "C \<subseteq>\<^sub>m D" "live lo hi D st2" "D t = Some a" "D v = Some b" "t \<noteq> v" "C t = None" "C v = None"
       "4 * ?l + 4 \<le> a" "4 * ?l + 4 \<le> b" "word_table (smem st2) t (List.map snd es)" "word_table (smem st2) v (List.map fst es)"
       "\<forall>k\<in>user lo hi C. smem st2 k = w_mem w k" using G False by blast
      define m where "m = store32 (store32 (smem st2) (t + 4 * of_nat ?l) fop) (v + 4 * of_nat ?l) uri"
      have "live lo hi D (st2\<lparr>smem := m\<rparr>) \<and> word_table m t (List.map snd es @ [fop]) \<and> word_table m v (List.map fst es @ [uri]) \<and>
          (\<forall>k\<in>user lo hi C. m k = smem st2 k)"
        using store_entry [OF D(2,3,4,5,8,9,1,6,7,10,11), of "List.map snd es @ [fop]" fop "List.map fst es @ [uri]" uri] D(8,9) n
        unfolding Let_def m_def by simp
      note S = this
      have "registry lo hi C (if d then ?f\<lparr>ao_fallback := fop\<rparr> else ?f) (es @ [(uri, fop)]) (st2\<lparr>smem := m\<rparr>)"
        unfolding registry_def using S D n by (auto simp: tables_hold_iff ops(1) intro!: exI [of _ D])
      then show ?thesis using S D(12) False None
        by (intro disjI2 exI [of _ "if d then ?f\<lparr>ao_fallback := fop\<rparr> else ?f"] exI [of _ "st2\<lparr>smem := m\<rparr>"])
          (simp add: step registered_def m_def)
    qed
  next
    case (Some j)
    then have j: "j < length es" by (auto simp: find_Some_iff)
    then have ne: "es \<noteq> []" by auto
    then obtain D a b where D: "C \<subseteq>\<^sub>m D" "live lo hi D (w_heap w)" "D (ao_table f) = Some a" "D (ao_uris f) = Some b" "ao_table f \<noteq> ao_uris f"
      "C (ao_table f) = None" "C (ao_uris f) = None" "4 * length es \<le> a" "4 * length es \<le> b"
      using r unfolding registry_def by auto
    define m where "m = store32 (store32 (w_mem w) (ao_table f + 4 * of_nat j) fop) (ao_uris f + 4 * of_nat j) uri"
    have ja: "4 * j + 4 \<le> a" "4 * j + 4 \<le> b" using j D(8,9) by simp_all
    have W: "word_table (w_mem w) (ao_table f) (List.map snd es)" "word_table (w_mem w) (ao_uris f) (List.map fst es)"
      using ops(2) by (simp_all add: tables_hold_iff)
    have "live lo hi D ((w_heap w)\<lparr>smem := m\<rparr>) \<and> word_table m (ao_table f) ((List.map snd es)[j := fop]) \<and>
        word_table m (ao_uris f) ((List.map fst es)[j := uri]) \<and> (\<forall>k\<in>user lo hi C. m k = w_mem w k)"
      using store_entry [OF D(2,3,4,5) ja D(1,6,7) W, of "(List.map snd es)[j := fop]" fop "(List.map fst es)[j := uri]" uri] D(8,9) n j
      unfolding Let_def m_def by simp
    note S = this
    have nz: "ao_table f \<noteq> 0" "ao_uris f \<noteq> 0" using live_block(2) [OF D(2,3)] live_block(2) [OF D(2,4)] by simp_all
    have "j < 2 ^ 28" using j n by simp
    then have "(of_nat j :: u32) \<noteq> - 1" using sint_index [of j] by (auto simp del: sint_index)
    then have "register_op prio f uri fop d w = Some (Inr (if d then f\<lparr>ao_fallback := fop\<rparr> else f, w\<lparr>w_heap := (w_heap w)\<lparr>smem := m\<rparr>\<rparr>))"
      using nz by (simp add: register_op_def idx Some ret_def set_mem_def m_def)
    moreover have "registry lo hi C (if d then f\<lparr>ao_fallback := fop\<rparr> else f) (es[j := (uri, fop)]) ((w_heap w)\<lparr>smem := m\<rparr>)"
      unfolding registry_def using S D n ne by (auto simp: tables_hold_iff map_update ops(1) intro!: exI [of _ D])
    ultimately show ?thesis using S Some
      by (intro disjI2 exI [of _ "if d then f\<lparr>ao_fallback := fop\<rparr> else f"] exI [of _ "(w_heap w)\<lparr>smem := m\<rparr>"]) (simp add: registered_def)
  qed
qed

subsection \<open>Opening\<close>

definition mode_of :: "u8 list \<Rightarrow> open_mode option" where
  "mode_of xs = (case filter (\<lambda>e. fst e = Some xs) mode_mapping of [] \<Rightarrow> None | e # _ \<Rightarrow> Some (snd e))"

lemma get_mode:
  assumes c: "cstr (w_mem w) in_mode ms" and z: "cstr (w_mem w) 0 zs" "length zs < 2 ^ 30" "zs \<noteq> ms" and m: "mode_of ms = Some mode"
  shows "cibyl_file_get_mode in_mode w = Some (Inr (mode, w))"
proof -
  have e: "cstr (w_mem w) in_mode xs \<longleftrightarrow> ms = xs" for xs using cstr_unique [OF c] c by blast
  have ms: "ms \<in> {[114], [114, 98], [114, 119], [114, 43], [119], [119, 98], [97], [97, 43], [119, 43]}"
    using m by (auto simp: mode_of_def mode_mapping_def split: if_splits)
  then have "length ms < 2 ^ 30" by auto
  then obtain r where "strcmp (w_mem w) in_mode 0 = Some r" "r \<noteq> 0" using strcmp_eq [OF c z(1)] z(2,3) by auto
  then have "last_mode (w_mem w) in_mode mode_mapping None = Some (Some mode)"
    using m ms by (auto simp: mode_mapping_def mode_matches_def e mode_of_def simp del: cstr.simps)
  then show ?thesis by (simp add: cibyl_file_get_mode_def io_bind_ask_mem ret_def)
qed

lemma fopen_list:
  assumes r: "registry lo hi C (w_fops w) es (w_heap w)" and u: "uris_hold (user lo hi C) str (w_mem w) (fst ` set es)" and p: "cstr (w_mem w) path p"
    and c: "cstr (w_mem w) in_mode ms" and z: "cstr (w_mem w) 0 zs" "length zs < 2 ^ 30" "zs \<noteq> ms" and m: "mode_of ms = Some mode"
    and nz: "\<forall>e\<in>set es. snd e \<noteq> 0"
  shows "fopen fo path in_mode w =
    (let (f, skip) = (case find (starts str p) es of Some (uri, f) \<Rightarrow> (f, if keep_uri (fo f) then 0 else length (str uri))
        | None \<Rightarrow> (ao_fallback (w_fops w), 0))
     in if f = 0 then Some (Inr (0, w))
        else case op_open (fo f) of None \<Rightarrow> null_call w | Some g \<Rightarrow> g (path + of_nat skip) mode w)"
proof -
  have ops: "ao_n_ops (w_fops w) = of_nat (length es)" "tables_hold (w_mem w) (w_fops w) es" "length es < 2 ^ 31" using r by (simp_all add: registry_def)
  have g: "get_fops_from_uri (w_fops w) path w = Some (Inr (case find (starts str p) es of None \<Rightarrow> (0, 0) | Some e \<Rightarrow> (snd e, fst e), w))"
    using fops_loop_find [OF ops(2,1,3) u p, of 0] by (simp add: get_fops_from_uri_def ask_mem_def)
  show ?thesis
  proof (cases "find (starts str p) es")
    case None
    then show ?thesis
      by (simp add: fopen_def io_bind_step get_mode [OF c z m] g ret_def Let_def split: option.split)
  next
    case (Some e)
    then have e: "e \<in> set es" by (auto simp: find_Some_iff)
    then have n: "snd e \<noteq> 0" "fst e \<noteq> 0" "strlen (w_mem w) (fst e) = Some (of_nat (length (str (fst e))))"
      using nz uris_holdD(1,2) [OF u] strlen_correct by auto
    then show ?thesis using Some
      by (cases e) (simp add: fopen_def io_bind_step get_mode [OF c z m] g io_bind_ask_mem Let_def split: option.split)
  qed
qed

end
