(* ===== verification/MemoryFileProps.thy ===== *)
theory MemoryFileProps
  imports Registry
begin

text \<open>
  What a program sees of files: registered file systems, and a file in memory: reading back what was
  written, lines, formatted output, and where the file layer departs from the C standard.
\<close>

unbundle bit_operations_syntax

definition open_at :: "u32 \<Rightarrow> nat \<Rightarrow> (u32 \<rightharpoonup> nat) \<Rightarrow> (u32 \<Rightarrow> 'a world_scheme fops) \<Rightarrow> u32 \<Rightarrow> nat \<Rightarrow> u8 list \<Rightarrow> nat \<Rightarrow> 'a world_scheme \<Rightarrow> bool" where
  "open_at lo hi C fo fp cap bs k w \<longleftrightarrow> memory_holds lo hi C fp cap bs w \<and>
     (let ops = fo (f_ops (w_files w fp)) in op_read ops = memory_read \<and> op_write ops = memory_write \<and> op_seek ops = memory_seek) \<and>
     k \<le> length bs \<and> unat (f_vfptr (w_files w fp)) = k"

definition no_seek_pending :: "u32 \<Rightarrow> 'a world_scheme \<Rightarrow> bool" where
  "no_seek_pending fp w \<longleftrightarrow> f_fptr (w_files w fp) = f_vfptr (w_files w fp)"

lemma open_at_iff: "open_at lo hi C fo fp cap bs k w \<longleftrightarrow> memory.at lo hi C fo fp cap bs k w"
  by (simp add: open_at_def memory.at_def memory.served_def Let_def)

lemma no_seek_pending_iff: "no_seek_pending fp w \<longleftrightarrow> memory.synced fp w"
  by (simp add: no_seek_pending_def memory.synced_def)

lemma fseek_at:
  assumes "memory.at lo hi C fo fp cap bs k w" "j \<le> length bs"
  shows "fseek fp (of_nat j) 0 w = Some (Inr (0, moved fp (f_fptr (w_files w fp)) (of_nat j) w))"
    "memory.at lo hi C fo fp cap bs j (moved fp (f_fptr (w_files w fp)) (of_nat j) w)"
proof -
  show "fseek fp (of_nat j) 0 w = Some (Inr (0, moved fp (f_fptr (w_files w fp)) (of_nat j) w))"
    by (simp add: fseek_def ret_def moved_def)
  have "j < 2 ^ 32" using memory.atD(8) [OF assms(1)] assms(2) by simp
  then show "memory.at lo hi C fo fp cap bs j (moved fp (f_fptr (w_files w fp)) (of_nat j) w)"
    using memory_holds_position [OF memory.atD(1) [OF assms(1)]] assms by (simp add: memory.at_def unat_of_nat)
qed

lemma file_write_read:
  assumes at: "memory.at lo hi C fo fp cap bs k w" "memory.synced fp w" and n: "k + unat n < 2 ^ 31" "k + unat n \<le> cap"
    and u: "\<forall>a. in_block src (unat n) a \<longrightarrow> a \<in> user lo hi C" "\<forall>a. in_block dst (unat n) a \<longrightarrow> a \<in> user lo hi C"
  shows "\<exists>w1 w2 w3. fwrite fo src 1 n fp w = Some (Inr (n, w1)) \<and> fseek fp (of_nat k) 0 w1 = Some (Inr (0, w2)) \<and>
    fread fo dst 1 n fp w2 = Some (Inr (n, w3)) \<and> peek (w_mem w3) dst (unat n) = peek (w_mem w) src (unat n) \<and>
    memory.at lo hi C fo fp cap (overwrite k (peek (w_mem w) src (unat n)) bs) (k + unat n) w3"
proof -
  let ?xs = "peek (w_mem w) src (unat n)" let ?bs = "overwrite k ?xs bs"
  have k: "k \<le> length bs" by (rule memory.atD(5) [OF at(1)])
  obtain w1 where w1: "fwrite fo src 1 n fp w = Some (Inr (n, w1))" "memory.at lo hi C fo fp cap ?bs (k + unat n) w1"
    "\<forall>a\<in>user lo hi C. w_mem w1 a = w_mem w a"
    using memory.fwrite_at [OF at n u(1)] by blast
  have k1: "k \<le> length ?bs" using k by (simp add: length_overwrite)
  define w2 where "w2 = moved fp (f_fptr (w_files w1 fp)) (of_nat k) w1"
  note s = fseek_at [OF w1(2) k1, folded w2_def]
  have l: "min (unat (1 * n)) (length ?bs - k) = unat n" "take (unat (1 * n)) (drop k ?bs) = ?xs"
    using k by (simp_all add: length_overwrite drop_overwrite)
  have u2: "\<forall>a. in_block dst (unat (1 * n)) a \<longrightarrow> a \<in> user lo hi C" using u(2) by simp
  obtain w3 where w3: "fread fo dst 1 n fp w2 = Some (Inr (of_nat (unat n) div 1, w3))" "memory.at lo hi C fo fp cap ?bs (k + unat n) w3"
    "\<forall>a\<in>user lo hi C. w_mem w3 a = poke (w_mem w2) dst ?xs a"
    using memory.fread_at [OF s(2) u2] unfolding l by blast
  have "peek (w_mem w3) dst (unat n) = peek (poke (w_mem w2) dst ?xs) dst (unat n)"
    using u(2) w3(3) by (intro peek_cong) auto
  also have "\<dots> = ?xs" using peek_poke_same [of ?xs "w_mem w2" dst] by simp
  finally show ?thesis using w1(1) s(1) w3(1,2) by auto
qed

lemma peek_cstr: "peek m p (Suc (length ys)) = ys @ [0] \<Longrightarrow> cstr m p (takeWhile (\<lambda>c. c \<noteq> 0) ys)"
  by (induction ys arbitrary: p) auto

lemma file_fprintf:
  assumes at: "memory.at lo hi C fo fp cap bs k w" "memory.synced fp w"
    and f: "fmt \<noteq> 0" "fixed_str (outside loc 255) (w_mem w) fmt xs" "fixed_args (outside loc 255) (w_mem w) ap ws"
      "strings_ok (outside loc 255) (w_mem w) strs" "formatted strs xs ws = Some tx"
    and u: "\<forall>a. in_block loc 256 a \<longrightarrow> a \<in> user lo hi C" and n: "k + 255 < 2 ^ 31" "k + length T \<le> cap"
    and T: "T = takeWhile (\<lambda>c. c \<noteq> 0) (take 255 tx)"
  shows "\<exists>w'. fprintf fo loc fp fmt ap w = Some (Inr (of_nat (min 255 (length tx)), w')) \<and>
    memory.at lo hi C fo fp cap (overwrite k T bs) (k + length T) w' \<and> memory.synced fp w'"
proof -
  let ?m = "poke (w_mem w) loc (take 255 tx @ [0])" let ?w1 = "set_mem ?m w"
  have k255: "unat (256 - 1 :: u32) = 255" by simp
  have v: "vsnprintf (w_mem w) loc 256 fmt ap = Some (?m, of_nat (min 255 (length tx)))"
    using vsnprintf_formatted [of 256 fmt 255 loc "w_mem w" xs ap ws strs tx] f k255 by simp
  have len: "length (take 255 tx @ [0]) \<le> 2 ^ 32" "length (take 255 tx @ [0]) \<le> 256" by simp_all
  have out: "?m a = w_mem w a" if "a \<notin> user lo hi C" for a
    using that u len by (intro poke_outside) (auto simp: in_block_def)
  then have a1: "memory.at lo hi C fo fp cap bs k ?w1" by (intro memory.at_set_mem [OF at(1)]) metis
  have c: "cstr ?m loc T"
    using peek_poke_same [OF len(1), of "w_mem w" loc] unfolding T by (intro peek_cstr) simp
  have lT: "length T \<le> 255" unfolding T by (rule order_trans [OF length_takeWhile_le]) simp
  have i1: "io_bind (\<lambda>w. map_option (\<lambda>(m, r). Inr (r, set_mem m w)) (vsnprintf (w_mem w) loc 256 fmt ap)) h w =
      h (of_nat (min 255 (length tx))) ?w1" for h :: "u32 \<Rightarrow> ('a world_scheme, u32) io"
    by (simp add: io_bind_def v)
  have r: "sint (of_nat (min 255 (length tx)) :: u32) = int (min 255 (length tx))"
    by (subst sint32_pos) (simp_all add: unat_of_nat)
  show ?thesis
  proof (cases "tx = []")
    case True
    then have "fprintf fo loc fp fmt ap w = Some (Inr (of_nat (min 255 (length tx)), ?w1))"
      using f(1) by (simp add: fprintf_def vfprintf_def i1 ret_def)
    then show ?thesis using a1 at(2) True T by auto
  next
    case False
    have s1: "memory.synced fp ?w1" using at(2) by simp
    have c1: "cstr (w_mem ?w1) loc T" using c by simp
    have u1: "\<forall>a. in_block loc (Suc (length T)) a \<longrightarrow> a \<in> user lo hi C" using u lT by (auto simp: in_block_def)
    obtain w2 where w2: "fputs_loop fo loc 0 fp ?w1 = Some (Inr (0 + of_nat (length T), w2))"
      "memory.at lo hi C fo fp cap (overwrite k T bs) (k + length T) w2" "memory.synced fp w2"
      using memory.fputs_loop_at [OF a1 s1 c1 u1, of 0] n lT by auto
    have "0 < min 255 (length tx)" using False by simp
    then have "sint (of_nat (min 255 (length tx)) :: u32) > 0" using r by simp
    then have "fprintf fo loc fp fmt ap w = Some (Inr (of_nat (min 255 (length tx)), w2))"
      using f(1) by (simp add: fprintf_def vfprintf_def i1 fputs_def io_bind_step w2(1) ret_def del: of_nat_min)
    then show ?thesis using w2(2,3) by blast
  qed
qed

subsection \<open>Departures from the standard\<close>

lemma file_seek_write:
  assumes at: "memory.at lo hi C fo fp cap bs k w" "memory.synced fp w" and j: "j \<le> length bs"
    and n: "k + unat n < 2 ^ 31" "k + unat n \<le> cap" and u: "\<forall>a. in_block src (unat n) a \<longrightarrow> a \<in> user lo hi C"
  shows "\<exists>w1 w2. fseek fp (of_nat j) 0 w = Some (Inr (0, w1)) \<and> memory.at lo hi C fo fp cap bs j w1 \<and> fwrite fo src 1 n fp w1 = Some (Inr (n, w2)) \<and>
    memory_holds lo hi C fp cap (overwrite k (peek (w_mem w) src (unat n)) bs) w2"
proof (cases "n = 0")
  case True
  then show ?thesis using fseek_at [OF at(1) j] memory_holds_position [OF memory.atD(1) [OF at(1)]]
    by (intro exI [of _ "moved fp (f_fptr (w_files w fp)) (of_nat j) w"]) (auto simp: fwrite_def ret_def)
next
  case False
  note A = memory.atD [OF at(1)]
  define w1 where "w1 = moved fp (f_fptr (w_files w fp)) (of_nat j) w"
  note s = fseek_at [OF at(1) j, folded w1_def]
  have F: "f_ops (w_files w1 fp) = f_ops (w_files w fp)" "unat (f_fptr (w_files w1 fp)) = k" "w_mem w1 = w_mem w"
    using at(2) A(6,7) by (simp_all add: w1_def memory.synced_def unat_of_nat)
  obtain r w2 where w2: "memory_write fp src n w1 = Some (Inr (r, w2))"
      "r = n \<and> memory_holds lo hi C fp cap (overwrite k (peek (w_mem w1) src (unat n)) bs) w2 \<or> r = - 1 \<and> cap < k + unat n"
    using memory.device_write [OF memory.atD(1) [OF s(2)] F(2) A(5) n(1) u] by blast
  then have r: "r = n" "memory_holds lo hi C fp cap (overwrite k (peek (w_mem w) src (unat n)) bs) w2" using n(2) F(3) by auto
  let ?w3 = "moved fp (f_fptr (w_files w2 fp) + n) (f_fptr (w_files w2 fp) + n) w2"
  have "fwrite fo src 1 n fp w1 = Some (Inr (n, ?w3))"
    using False A(3) F(1) r(1) by (simp add: fwrite_def Let_def io_bind_step w2(1) ret_def moved_def)
  then show ?thesis using s memory_holds_position [OF r(2)] by blast
qed

lemma fgets_after_eof:
  assumes at: "memory.at lo hi C fo fp cap bs k w" and l: "loc \<in> user lo hi C" and e: "f_eof (w_files w fp) = 1"
  shows "\<exists>w'. fgets fo loc s sz fp w = Some (Inr (0, w'))"
proof -
  obtain w1 where w1: "fgetc fo loc fp w = Some (Inr (sx8 (if k < length bs then bs ! k else w_mem w loc), w1))" "f_eof (w_files w1 fp) = 1"
    using memory.fgetc_at [OF at l] e by auto
  then show ?thesis by (simp add: fgets_def fgets_loop.simps [of fo loc s s] io_bind_step feof_def ret_def)
qed

lemma file_rewind_eof:
  assumes at: "memory.at lo hi C fo fp cap bs (length bs) w" and l: "loc \<in> user lo hi C"
  shows "\<exists>w1 w2 w3. fgetc fo loc fp w = Some (Inr (sx8 (w_mem w loc), w1)) \<and> rewind fp w1 = Some (Inr ((), w2)) \<and>
    memory.at lo hi C fo fp cap bs 0 w2 \<and> fgets fo loc s sz fp w2 = Some (Inr (0, w3))"
proof -
  obtain w1 where w1: "fgetc fo loc fp w = Some (Inr (sx8 (w_mem w loc), w1))" "memory.at lo hi C fo fp cap bs (length bs) w1"
    "f_eof (w_files w1 fp) = 1"
    using memory.fgetc_at [OF at l] by auto
  define w2 where "w2 = moved fp (f_fptr (w_files w1 fp)) (of_nat 0) w1"
  have s: "fseek fp (of_nat 0) 0 w1 = Some (Inr (0, w2))" "memory.at lo hi C fo fp cap bs 0 w2"
    using fseek_at [OF w1(2), of 0] by (simp_all add: w2_def)
  have "rewind fp w1 = Some (Inr ((), w2))" using s(1) by (simp add: rewind_def io_bind_step ret_def)
  moreover have "f_eof (w_files w2 fp) = 1" using w1(3) by (simp add: w2_def)
  ultimately show ?thesis using w1(1) s(2) fgets_after_eof [OF s(2) l] by blast
qed

text \<open>Closing a file that is written back: \<open>fwrite\<close> counts items, of which there is one.\<close>

lemma fwrite_one_item:
  assumes "fwrite fo ptr sz 1 fp w = Some (Inr (n, w'))"
    "\<And>r w'. op_write (fo (f_ops (w_files w fp))) fp ptr sz w = Some (Inr (r, w')) \<Longrightarrow> r \<le> sz"
  shows "n \<le> 1"
proof (cases "sz = 0")
  case True
  then show ?thesis using assms(1) by (simp add: fwrite_def ret_def)
next
  case False
  then obtain r w1 where r: "op_write (fo (f_ops (w_files w fp))) fp ptr sz w = Some (Inr (r, w1))" "n = r div sz"
    using assms(1) by (auto simp: fwrite_def Let_def io_bind_def ret_def update_file_def update_def file_at_def ask_def
        split: option.splits sum.splits bind_splits)
  then have "unat r div unat sz \<le> unat sz div unat sz" using assms(2) [OF r(1)] by (intro div_le_mono) (simp add: word_le_nat_alt)
  then show ?thesis using False by (simp add: r(2) word_le_nat_alt unat_div unat_eq_0)
qed

lemma close_written_back:
  assumes p: "p = w_memory_files w (f_priv (w_files w fp))" "mf_writeback_path p \<noteq> 0" and sz: "1 < f_file_size (w_files w fp)"
    and o: "fopen fo (mf_writeback_path p) (mf_mode p) w = Some (Inr (tmp, w1))" "tmp \<noteq> 0"
    and f: "mem_free (mf_mode p) w1 = Some (Inr ((), w2))" "mem_free (mf_writeback_path p) w2 = Some (Inr ((), w3))"
    and r: "fwrite fo (mf_data p) (f_file_size (w_files w fp)) 1 tmp w3 = Some (Inr (n, w4))"
    and dev: "\<And>r w'. op_write (fo (f_ops (w_files w3 tmp))) tmp (mf_data p) (f_file_size (w_files w fp)) w3 = Some (Inr (r, w')) \<Longrightarrow>
      r \<le> f_file_size (w_files w fp)"
  shows "memory_close fo fp w = Some (Inr (- 1, w4))"
proof -
  have "n \<le> 1" by (rule fwrite_one_item [OF r dev])
  then have "n \<noteq> f_file_size (w_files w fp)" using sz by auto
  then show ?thesis using p(2) o(2)
    by (simp add: memory_close_def private_at_bind p(1) [symmetric] io_bind_step o(1) f r ret_def)
qed

subsection \<open>Opening a file in memory\<close>






subsection \<open>Properties\<close>

text \<open>
  C10: in a file in memory, what \<open>fwrite\<close> writes at the position, \<open>fread\<close> reads back after \<open>fseek\<close>, and the
  file holds it in place of what was there.
\<close>

theorem fwrite_fread:
  assumes "open_at lo hi C fo fp cap bs k w" "no_seek_pending fp w" "k + unat n < 2 ^ 31" "k + unat n \<le> cap"
    and "\<forall>a. in_block src (unat n) a \<longrightarrow> a \<in> user lo hi C" "\<forall>a. in_block dst (unat n) a \<longrightarrow> a \<in> user lo hi C"
  shows "\<exists>w1 w2 w3. fwrite fo src 1 n fp w = Some (Inr (n, w1)) \<and> fseek fp (of_nat k) 0 w1 = Some (Inr (0, w2)) \<and>
    fread fo dst 1 n fp w2 = Some (Inr (n, w3)) \<and> peek (w_mem w3) dst (unat n) = peek (w_mem w) src (unat n) \<and>
    open_at lo hi C fo fp cap (overwrite k (peek (w_mem w) src (unat n)) bs) (k + unat n) w3"
  using assms unfolding open_at_iff no_seek_pending_iff by (rule file_write_read)

text \<open>
  C13: \<open>fprintf\<close> to a file in memory writes at the position the text that printf(3) gives for the format and its arguments
  (\<open>printf_text\<close>, with its exceptions): the first 255 characters, up to a NUL.  The position moves behind it, and the result is the
  length of the text, at most 255.
\<close>

theorem fprintf_memory:
  assumes "open_at lo hi C fo fp cap bs k w" "no_seek_pending fp w"
    and "fmt \<noteq> 0" "fixed_str (outside loc 255) (w_mem w) fmt xs" "fixed_args (outside loc 255) (w_mem w) ap ws"
      "strings_ok (outside loc 255) (w_mem w) strs" "printf_text strs xs ws = Some tx"
    and "\<forall>a. in_block loc 256 a \<longrightarrow> a \<in> user lo hi C" "k + 255 < 2 ^ 31" "k + length T \<le> cap"
    and "T = takeWhile (\<lambda>c. c \<noteq> 0) (take 255 tx)"
  shows "\<exists>w'. fprintf fo loc fp fmt ap w = Some (Inr (of_nat (min 255 (length tx)), w')) \<and>
    open_at lo hi C fo fp cap (overwrite k T bs) (k + length T) w' \<and> no_seek_pending fp w'"
  unfolding open_at_iff no_seek_pending_iff
  by (rule file_fprintf [OF assms(1,2) [unfolded open_at_iff no_seek_pending_iff] assms(3-6) printf_text_formatted [OF assms(7)] assms(8-11)])

text \<open>
  C17: before the end of a file in memory, \<open>fgets\<close> returns its buffer with the rest of the line and a NUL:
  at most \<open>size\<close> characters and the NUL, one byte more than the buffer has.  A line that ends with the file gets
  two.  Nothing else of the client's memory changes but the variable of \<open>fgetc\<close>.
\<close>

theorem fgets_line:
  assumes "open_at lo hi C fo fp cap bs k w" "f_eof (w_files w fp) = 0" "loc \<in> user lo hi C" "sz \<noteq> 0" "k < length bs"
    and "\<forall>a. in_block s (Suc (unat sz)) a \<longrightarrow> a \<in> user lo hi C \<and> a \<noteq> loc"
  shows "\<exists>w'. let l = line (unat sz) (drop k bs)
    in fgets fo loc s sz fp w = Some (Inr (s, w')) \<and> open_at lo hi C fo fp cap bs (k + min (length l) (length bs - k)) w' \<and>
      (\<forall>a\<in>user lo hi C. a \<noteq> loc \<longrightarrow> w_mem w' a = poke (w_mem w) s (l @ [0]) a) \<and>
      f_eof (w_files w' fp) = (if length bs - k < length l then 1 else 0)"
  using memory.fgets_loop_at [OF assms(1) [unfolded open_at_iff] assms(2-4,6), of s] assms(5)
  by (simp add: fgets_def open_at_iff)

text \<open>
  C39: \<open>fwrite\<close> forgets an \<open>fseek\<close>: after a seek to \<open>j\<close> it still writes at the position \<open>k\<close> where the last transfer
  ended.
\<close>

theorem fwrite_forgets_fseek:
  assumes "open_at lo hi C fo fp cap bs k w" "no_seek_pending fp w" "j \<le> length bs" "k + unat n < 2 ^ 31" "k + unat n \<le> cap"
    and "\<forall>a. in_block src (unat n) a \<longrightarrow> a \<in> user lo hi C"
  shows "\<exists>w1 w2. fseek fp (of_nat j) 0 w = Some (Inr (0, w1)) \<and> open_at lo hi C fo fp cap bs j w1 \<and> fwrite fo src 1 n fp w1 = Some (Inr (n, w2)) \<and>
    memory_holds lo hi C fp cap (overwrite k (peek (w_mem w) src (unat n)) bs) w2"
  using assms unfolding open_at_iff no_seek_pending_iff by (rule file_seek_write)

text \<open>
  At the end of a file \<open>fgetc\<close> returns what its variable happens to hold; \<open>rewind\<close> goes back to the start but
  keeps the mark of the end, so that \<open>fgets\<close> then returns NULL.
\<close>

theorem rewind_keeps_eof:
  assumes "open_at lo hi C fo fp cap bs (length bs) w" "loc \<in> user lo hi C"
  shows "\<exists>w1 w2 w3. fgetc fo loc fp w = Some (Inr (sx8 (w_mem w loc), w1)) \<and> rewind fp w1 = Some (Inr ((), w2)) \<and>
    open_at lo hi C fo fp cap bs 0 w2 \<and> fgets fo loc s sz fp w2 = Some (Inr (0, w3))"
  using assms unfolding open_at_iff by (rule file_rewind_eof)


text \<open>
  C14: \<open>cibyl_fops_register\<close> enters a file system: in place of the first one with an equal URI and a lower priority,
  at the end when there is none; the other entries, and the client's memory, stay through the growth of the tables.
  When memory is up it panics.
\<close>

theorem register_correct:
  assumes "registry lo hi C (w_fops w) es (w_heap w)" "length es < 2 ^ 28 - 1"
    and "uris_hold (user lo hi C) str (w_mem w) (insert uri (fst ` set es))"
  shows "cibyl_fops_register fo uri fop d w = Some (Inl ''Memory allocation of fops failed'') \<or>
    (\<exists>w'. cibyl_fops_register fo uri fop d w = Some (Inr ((), w')) \<and>
      registry lo hi C (w_fops w') (registered (\<lambda>p. priority (fo p)) str uri fop es) (w_heap w') \<and>
      ao_fallback (w_fops w') = (if d then fop else ao_fallback (w_fops w)) \<and> (\<forall>k\<in>user lo hi C. w_mem w' k = w_mem w k))"
  using register_list [OF assms, of "\<lambda>p. priority (fo p)" fop d]
proof (elim disjE exE conjE)
  fix f' st'
  assume r: "register_op (\<lambda>p. priority (fo p)) (w_fops w) uri fop d w = Some (Inr (f', w\<lparr>w_heap := st'\<rparr>))"
    and g: "registry lo hi C f' (registered (\<lambda>p. priority (fo p)) str uri fop es) st'"
      "ao_fallback f' = (if d then fop else ao_fallback (w_fops w))" "\<forall>k\<in>user lo hi C. smem st' k = w_mem w k"
  have "cibyl_fops_register fo uri fop d w = Some (Inr ((), w\<lparr>w_heap := st', w_fops := f'\<rparr>))"
    by (simp add: cibyl_fops_register_def io_bind_step r update_def)
  then show ?thesis using g by auto
qed (simp add: cibyl_fops_register_def io_bind_def ask_def)

text \<open>
  C16: \<open>fopen\<close> hands the path to the first file system whose URI starts it, without the URI unless the file
  system keeps it, and to the default one when there is none.  The mode is found by its name, as long as no string
  equal to it stands at address 0, with which the last entry of the table compares.
\<close>

theorem fopen_dispatch:
  assumes "registry lo hi C (w_fops w) es (w_heap w)" "uris_hold (user lo hi C) str (w_mem w) (fst ` set es)" "cstr (w_mem w) path p"
    and "cstr (w_mem w) in_mode ms" "cstr (w_mem w) 0 zs" "length zs < 2 ^ 30" "zs \<noteq> ms" "mode_of ms = Some mode" "\<forall>e\<in>set es. snd e \<noteq> 0"
  shows "fopen fo path in_mode w =
    (let (f, skip) = (case find (starts str p) es of Some (uri, f) \<Rightarrow> (f, if keep_uri (fo f) then 0 else length (str uri))
        | None \<Rightarrow> (ao_fallback (w_fops w), 0))
     in if f = 0 then Some (Inr (0, w))
        else case op_open (fo f) of None \<Rightarrow> null_call w | Some g \<Rightarrow> g (path + of_nat skip) mode w)"
  by (rule fopen_list [OF assms])

subsection \<open>A sample\<close>

text \<open>A file of at most 100 bytes in a block at 4108, the client's memory below the heap.\<close>

definition no_ops :: all_ops where
  "no_ops = \<lparr>ao_table = 0, ao_uris = 0, ao_fallback = 0, ao_n_ops = 0\<rparr>"

definition sample_world :: "smalloc \<Rightarrow> mem \<Rightarrow> u8 list \<Rightarrow> nat \<Rightarrow> world" where
  "sample_world st m bs k = \<lparr>w_heap = st\<lparr>smem := poke m 4108 bs\<rparr>, w_fops = no_ops, w_dops = no_ops,
     w_files = (\<lambda>_. \<lparr>f_ops = 0, f_eof = 0, f_error = 0, f_fptr = of_nat k, f_vfptr = of_nat k, f_file_size = of_nat (length bs), f_priv = 0\<rparr>),
     w_memory_files = (\<lambda>_. \<lparr>mf_data = 4108, mf_allocated_size = 100, mf_allocate = 1, mf_writeback_path = 0, mf_mode = 0\<rparr>),
     w_dirs = (\<lambda>_. \<lparr>d_ops = 0, d_priv = 0\<rparr>), w_atexit_list = 0, w_atexit_n = 0\<rparr>"

definition sample_fs :: "u32 \<Rightarrow> world fops" where
  "sample_fs = (\<lambda>_. NOPH_Memory_fops (\<lambda>_. undefined))"

lemma user_below: "a \<in> user 4096 8192 Map.empty \<longleftrightarrow> unat a < 4096 \<or> 8192 \<le> unat a"
  unfolding user_def smalloc.safe_def by simp

lemma sample_room: "\<exists>st n. malloc 100 pool_4k = Some (st, 4108) \<and> live 4096 8192 [4108 \<mapsto> n] st \<and> 100 \<le> n"
proof -
  obtain st n0 where m: "malloc 100 pool_4k = Some (st, 4108)" "live 4096 8192 [4108 \<mapsto> n0] st" using pool_4k_malloc [of 100] by auto
  have "(4108 :: u32) \<noteq> 0" by simp
  obtain n where "(Map.empty :: u32 \<rightharpoonup> nat) 4108 = None" "unat (100 :: u32) \<le> n" "live 4096 8192 [4108 \<mapsto> n] st"
    by (rule smalloc.alloc_fresh [OF pool_4k_live m(1) \<open>4108 \<noteq> 0\<close>]) (rule that, assumption+)
  then show ?thesis using m(1) by (intro exI [of _ st] exI [of _ n]) simp
qed

lemma sample_open:
  assumes l: "live 4096 8192 [4108 \<mapsto> n] st" "100 \<le> n" and m: "\<And>a. 4096 \<le> unat a \<Longrightarrow> m a = smem st a" and b: "length bs \<le> 100" "k \<le> length bs"
  shows "open_at 4096 8192 Map.empty sample_fs 1 100 bs k (sample_world st m bs k)" "no_seek_pending 1 (sample_world st m bs k)"
proof -
  have k: "unat (of_nat k :: u32) = k" using b by (simp add: unat_of_nat)
  have "live 4096 8192 [4108 \<mapsto> n] (st\<lparr>smem := poke m 4108 bs\<rparr>)"
  proof (rule smalloc.overwrite_safe [OF l(1)])
    fix a assume a: "poke m 4108 bs a \<noteq> smem st a"
    show "smalloc.safe 4096 8192 [4108 \<mapsto> n] a"
    proof (cases "unat a < 4096")
      case False
      then have "in_block 4108 n a" using a m [of a] b(1) l(2) by (auto simp: poke_apply in_block_def split: if_splits)
      then show ?thesis unfolding smalloc.safe_def by auto
    next
      case True
      then show ?thesis unfolding smalloc.safe_def by simp
    qed
  qed
  then have "memory_holds 4096 8192 Map.empty 1 100 bs (sample_world st m bs k)"
    using l(2) b peek_poke_same [of bs m 4108]
    by (intro memory_holdsI [where D = Map.empty and n = n]) (auto simp: sample_world_def)
  then show "open_at 4096 8192 Map.empty sample_fs 1 100 bs k (sample_world st m bs k)"
    using b(2) k by (simp add: open_at_def sample_fs_def NOPH_Memory_fops_def sample_world_def Let_def)
  show "no_seek_pending 1 (sample_world st m bs k)" by (simp add: no_seek_pending_def sample_world_def)
qed

lemma fwrite_fread_witness:
  "\<exists>st w1 w2 w3. malloc 100 pool_4k = Some (st, 4108) \<and> fwrite sample_fs 64 1 8 1 (sample_world st (smem st) [1, 2, 3] 2) = Some (Inr (8, w1)) \<and>
    fseek 1 2 0 w1 = Some (Inr (0, w2)) \<and> fread sample_fs 128 1 8 1 w2 = Some (Inr (8, w3))"
proof -
  obtain st n where st: "malloc 100 pool_4k = Some (st, 4108)" "live 4096 8192 [4108 \<mapsto> n] st" "100 \<le> n" using sample_room by blast
  have u: "in_block 64 8 a \<or> in_block 128 8 a \<Longrightarrow> a \<in> user 4096 8192 Map.empty" for a by (auto simp: user_below in_block_unat)
  note O = sample_open [OF st(2,3), of "smem st" "[1, 2, 3]" 2, simplified]
  show ?thesis using fwrite_fread [OF O, of 8 64 128] u st(1) by auto
qed

lemma fgets_line_witness:
  "\<exists>st w'. malloc 100 pool_4k = Some (st, 4108) \<and> fgets sample_fs 64 128 8 1 (sample_world st (smem st) [65, 10, 66] 0) = Some (Inr (128, w'))"
proof -
  obtain st n where st: "malloc 100 pool_4k = Some (st, 4108)" "live 4096 8192 [4108 \<mapsto> n] st" "100 \<le> n" using sample_room by blast
  have u: "\<forall>a. in_block 128 (Suc (unat (8 :: u32))) a \<longrightarrow> a \<in> user 4096 8192 Map.empty \<and> a \<noteq> 64" by (auto simp: user_below in_block_unat)
  note O = sample_open [OF st(2,3), of "smem st" "[65, 10, 66]" 0, simplified]
  show ?thesis using fgets_line [OF O(1) _ _ _ _ u] st(1) by (auto simp: user_below sample_world_def Let_def)
qed

lemma fwrite_forgets_fseek_witness:
  "\<exists>st w1 w2. malloc 100 pool_4k = Some (st, 4108) \<and> fseek 1 0 0 (sample_world st (smem st) [1, 2, 3] 3) = Some (Inr (0, w1)) \<and>
    fwrite sample_fs 64 1 8 1 w1 = Some (Inr (8, w2)) \<and>
    memory_holds 4096 8192 Map.empty 1 100 (overwrite 3 (peek (w_mem (sample_world st (smem st) [1, 2, 3] 3)) 64 8) [1, 2, 3]) w2"
proof -
  obtain st n where st: "malloc 100 pool_4k = Some (st, 4108)" "live 4096 8192 [4108 \<mapsto> n] st" "100 \<le> n" using sample_room by blast
  have u: "in_block 64 8 a \<Longrightarrow> a \<in> user 4096 8192 Map.empty" for a by (auto simp: user_below in_block_unat)
  note O = sample_open [OF st(2,3), of "smem st" "[1, 2, 3]" 3, simplified]
  show ?thesis using fwrite_forgets_fseek [OF O, of 0 8 64] u st(1) by auto
qed

lemma rewind_keeps_eof_witness:
  "\<exists>st w1 w2 w3. malloc 100 pool_4k = Some (st, 4108) \<and> fgetc sample_fs 64 1 (sample_world st (smem st) [1, 2, 3] 3) = Some (Inr (sx8 (smem st 64), w1)) \<and>
    rewind 1 w1 = Some (Inr ((), w2)) \<and> fgets sample_fs 64 128 8 1 w2 = Some (Inr (0, w3))"
proof -
  obtain st n where st: "malloc 100 pool_4k = Some (st, 4108)" "live 4096 8192 [4108 \<mapsto> n] st" "100 \<le> n" using sample_room by blast
  note O = sample_open [OF st(2,3), of "smem st" "[1, 2, 3]" 3, simplified]
  let ?w = "sample_world st (smem st) [1, 2, 3] 3"
  have m: "w_mem ?w 64 = smem st 64" by (simp add: sample_world_def)
  have "length [1, 2, 3 :: u8] = 3" by simp
  then have "open_at 4096 8192 Map.empty sample_fs 1 100 [1, 2, 3] (length [1, 2, 3 :: u8]) ?w" using O(1) by (simp only:)
  moreover have "64 \<in> user 4096 8192 Map.empty" by (simp add: user_below)
  ultimately show ?thesis using rewind_keeps_eof [of 4096 8192 Map.empty sample_fs 1 100 "[1, 2, 3]" ?w 64 128 8] st(1) unfolding m by blast
qed

text \<open>A pool of 16 KB, in which both blocks are given.\<close>

declare walk.simps [code] bestfit_loop.simps [code]






lemma fprintf_memory_witness:
  "\<exists>st w'. malloc 100 pool_4k = Some (st, 4108) \<and>
    fprintf sample_fs 1024 1 100 200 (sample_world st (store32 (poke (smem st) 100 [37, 100, 0]) 200 42) [65, 66] 1) =
      Some (Inr (2, w')) \<and> open_at 4096 8192 Map.empty sample_fs 1 100 [65, 52, 50] 3 w'"
proof -
  obtain st n where st: "malloc 100 pool_4k = Some (st, 4108)" "live 4096 8192 [4108 \<mapsto> n] st" "100 \<le> n" using sample_room by blast
  define m where "m = store32 (poke (smem st) 100 [37, 100, 0]) 200 42"
  have up: "m a = smem st a" if "4096 \<le> unat a" for a
  proof -
    have "\<not> in_block 200 4 a" using that by (simp add: in_block_unat)
    moreover have "a \<noteq> 100" "a \<noteq> 101" "a \<noteq> 102" using that by auto
    ultimately show ?thesis by (simp add: m_def store32_outside)
  qed
  note O = sample_open [OF st(2,3) up, of "[65, 66]" 1, simplified]
  let ?w = "sample_world st m [65, 66] (Suc 0)"
  have w: "w_mem ?w a = m a" if "unat a < 4096" for a
    using that by (auto simp: sample_world_def)
  have lit: "m a = poke (smem st) 100 [37, 100, 0] a" if "unat a < 200" for a
    using that unfolding m_def by (intro store32_outside) (simp add: in_block_unat)
  have str: "fixed_str (outside 1024 255) (w_mem ?w) 100 [37, 100]"
    using w [of 100] w [of 101] w [of 102] lit [of 100] lit [of 101] lit [of 102] by (simp add: outside_def in_block_unat)
  have "load32 (w_mem ?w) 200 = load32 m 200" by (intro load32_cong w) (simp add: in_block_unat)
  then have args: "fixed_args (outside 1024 255) (w_mem ?w) 200 [42]"
    by (simp add: m_def load32_store32_same outside_def in_block_unat)
  have u: "\<forall>a. in_block 1024 256 a \<longrightarrow> a \<in> user 4096 8192 Map.empty" by (auto simp: user_below in_block_unat)
  have t: "printf_text (\<lambda>_. None) [37, 100] [42] = Some [52, 50]" by (simp add: printf_text_defs Let_def)
  have "strings_ok (outside 1024 255) (w_mem ?w) (\<lambda>_. None)" by (simp add: strings_ok_def)
  from fprintf_memory [OF O _ str args this t u, of "[52, 50]"]
  show ?thesis using st(1) unfolding m_def by (auto simp: overwrite_def numeral_3_eq_3)
qed

lemma sample_registry:
  assumes "live 4096 8192 [4108 \<mapsto> n] st" "100 \<le> n" "\<And>a. 4096 \<le> unat a \<Longrightarrow> m a = smem st a"
  shows "registry 4096 8192 Map.empty (w_fops (sample_world st m [] 0)) [] (w_heap (sample_world st m [] 0))"
proof -
  obtain D k where "live 4096 8192 (D(4108 \<mapsto> k)) (w_heap (sample_world st m [] 0))"
    using sample_open(1) [OF assms, of "[]" 0] by (auto simp: open_at_def memory_holds_def sample_world_def)
  then show ?thesis by (auto simp: registry_def tables_hold_def sample_world_def no_ops_def map_le_def)
qed

lemma register_correct_witness:
  "\<exists>st n. malloc 100 pool_4k = Some (st, 4108) \<and> live 4096 8192 [4108 \<mapsto> n] st \<and>
    (cibyl_fops_register sample_fs 64 7 True (sample_world st (\<lambda>a. if unat a < 4096 then 0 else smem st a) [] 0) = Some (Inl ''Memory allocation of fops failed'') \<or>
     (\<exists>w'. cibyl_fops_register sample_fs 64 7 True (sample_world st (\<lambda>a. if unat a < 4096 then 0 else smem st a) [] 0) = Some (Inr ((), w')) \<and>
       registry 4096 8192 Map.empty (w_fops w') [(64, 7)] (w_heap w')))"
proof -
  obtain st n where st: "malloc 100 pool_4k = Some (st, 4108)" "live 4096 8192 [4108 \<mapsto> n] st" "100 \<le> n" using sample_room by blast
  let ?m = "\<lambda>a. if unat a < 4096 then 0 else smem st a"
  let ?w = "sample_world st ?m [] 0"
  have r: "registry 4096 8192 Map.empty (w_fops ?w) [] (w_heap ?w)" by (rule sample_registry [OF st(2,3)]) simp
  have u: "uris_hold (user 4096 8192 Map.empty) (\<lambda>_. []) (w_mem ?w) (insert 64 (fst ` set []))"
    by (simp add: uris_hold_def sample_world_def in_block_Suc user_below)
  have "registered (\<lambda>p. priority (sample_fs p)) (\<lambda>_. []) 64 7 [] = [(64, 7)]" by (simp add: registered_def)
  then show ?thesis using register_correct [OF r _ u, of sample_fs 7 True] st by (intro exI [of _ st] exI [of _ n]) auto
qed

lemma fopen_dispatch_witness:
  "\<exists>st. malloc 100 pool_4k = Some (st, 4108) \<and>
    (let w = sample_world st (\<lambda>a. if a = 200 then 114 else if unat a < 4096 then 0 else smem st a) [] 0 in fopen sample_fs 64 200 w = Some (Inr (0, w)))"
proof -
  obtain st n where st: "malloc 100 pool_4k = Some (st, 4108)" "live 4096 8192 [4108 \<mapsto> n] st" "100 \<le> n" using sample_room by blast
  let ?m = "\<lambda>a. if a = 200 then 114 else if unat a < 4096 then 0 else smem st a"
  let ?w = "sample_world st ?m [] 0"
  have r: "registry 4096 8192 Map.empty (w_fops ?w) [] (w_heap ?w)" by (rule sample_registry [OF st(2,3)]) auto
  have u: "uris_hold (user 4096 8192 Map.empty) (\<lambda>_. []) (w_mem ?w) (fst ` set [])" by (simp add: uris_hold_def)
  have c: "cstr (w_mem ?w) 64 []" "cstr (w_mem ?w) 200 [114]" "cstr (w_mem ?w) 0 []" by (simp_all add: sample_world_def)
  have m: "mode_of [114] = Some READ" by (simp add: mode_of_def mode_mapping_def)
  show ?thesis using fopen_dispatch [OF r u c _ _ m, of sample_fs] st(1) by (intro exI [of _ st]) (simp add: Let_def sample_world_def no_ops_def)
qed

end
