(* ===== verification/ScanfProps.thy ===== *)
theory ScanfProps
  imports Scanf MemoryFileProps
begin

text \<open>
  What \<open>sscanf\<close> (libs/src/libc/scanf_ska.c) reads: a string that is made by a format is taken apart by it, and
  where the code stops short of the C standard.
\<close>

subsection \<open>Formats and the texts they read\<close>

datatype item = Plain u8 | Decimal u32 | Letters "u8 list" | Letter u8

primrec item_format :: "item \<Rightarrow> u8 list" where
  "item_format (Plain c) = [c]"
| "item_format (Decimal v) = [37, 100]"
| "item_format (Letters xs) = [37, 115]"
| "item_format (Letter c) = [37, 99]"

primrec item_text :: "item \<Rightarrow> u8 list" where
  "item_text (Plain c) = [c]"
| "item_text (Decimal v) = decimal_text v"
| "item_text (Letters xs) = xs"
| "item_text (Letter c) = [c]"

abbreviation format_of :: "item list \<Rightarrow> u8 list" where
  "format_of items \<equiv> concat (map item_format items)"

abbreviation text_of :: "item list \<Rightarrow> u8 list" where
  "text_of items \<equiv> concat (map item_text items)"

text \<open>An item can be told from the text \<open>zs\<close> behind it.\<close>

primrec ends_before :: "u8 list \<Rightarrow> item \<Rightarrow> bool" where
  "ends_before zs (Plain c) \<longleftrightarrow> c \<notin> {0, 37, 92}"
| "ends_before zs (Decimal v) \<longleftrightarrow> \<not> isdigit (sint (hd zs))"
| "ends_before zs (Letters xs) \<longleftrightarrow> xs \<noteq> [] \<and> (\<forall>c\<in>set xs. \<not> isspace (sint c)) \<and> isspace (sint (hd zs))"
| "ends_before zs (Letter c) \<longleftrightarrow> c \<noteq> 0"

primrec scannable :: "item list \<Rightarrow> u8 list \<Rightarrow> bool" where
  "scannable [] rest \<longleftrightarrow> rest \<noteq> []"
| "scannable (i # is) rest \<longleftrightarrow> ends_before (text_of is @ rest) i \<and> scannable is rest"

text \<open>The bytes that an item stores through its argument.\<close>

primrec item_bytes :: "item \<Rightarrow> u8 list option" where
  "item_bytes (Plain c) = None"
| "item_bytes (Decimal v) = Some (bytes32 v)"
| "item_bytes (Letters xs) = Some (xs @ [0])"
| "item_bytes (Letter c) = Some [c]"

abbreviation values_of :: "item list \<Rightarrow> u8 list list" where
  "values_of items \<equiv> List.map_filter item_bytes items"

fun stored :: "u8 list list \<Rightarrow> u32 list \<Rightarrow> mem \<Rightarrow> mem" where
  "stored (xs # vs) (a # as) m = stored vs as (poke m a xs)"
| "stored vs as m = m"

definition targets :: "(u32 \<Rightarrow> bool) \<Rightarrow> u8 list list \<Rightarrow> u32 list \<Rightarrow> bool" where
  "targets T vs as \<longleftrightarrow> list_all2 (\<lambda>xs a. length xs < 2 ^ 32 \<and> (\<forall>k. in_block a (length xs) k \<longrightarrow> T k)) vs as"

lemma stored_other: "targets T vs as \<Longrightarrow> \<not> T k \<Longrightarrow> stored vs as m k = m k"
proof (induction vs as m rule: stored.induct)
  case (1 xs vs a as m)
  then have "\<not> in_block a (length xs) k" "length xs \<le> 2 ^ 32" by (auto simp: targets_def)
  then show ?case using 1 by (simp add: targets_def poke_outside)
qed (simp_all add: targets_def)

lemma stored_cong: "targets T vs as \<Longrightarrow> (m k = m' k) \<Longrightarrow> stored vs as m k = stored vs as m' k"
proof (induction vs as m arbitrary: m' rule: stored.induct)
  case (1 xs vs a as m)
  then have "length xs \<le> 2 ^ 32" "targets T vs as" by (auto simp: targets_def)
  moreover have "poke m a xs k = poke m' a xs k" using \<open>length xs \<le> 2 ^ 32\<close> 1(3) by (simp add: poke_apply)
  ultimately show ?case using 1(1) [of "poke m' a xs"] by simp
qed (simp_all add: targets_def)

subsection \<open>One conversion\<close>

lemma strtol_decimal:
  assumes "cstr m s (decimal_text v @ rest)" "rest = [] \<or> \<not> isdigit (sint (hd rest))"
  shows "strtol m s 10 = Some (Inr (v, s + of_nat (length (decimal_text v))))"
proof -
  let ?ds = "digits_text (take 10 lower_digits) 10 (magnitude True v)" and ?sg = "if sint v < 0 then [45] else [] :: u8 list"
  have n: "?ds \<noteq> []" using digits_text_length(1) [of 10 "take 10 lower_digits" True v] by auto
  have "strtoll m s 10 = Some (Inr (of_int (if ?sg = [45] then - num_of 10 ?ds else num_of 10 ?ds), s + of_nat (length ([] @ ?sg @ ?ds))))"
    by (rule strtoll_number [where rest = rest]) (use assms n digits_text_digits in \<open>auto simp: decimal_text_code\<close>)
  moreover have "(if ?sg = [45] then - num_of 10 ?ds else num_of 10 ?ds) = sint v"
    by (simp add: num_of_digits magnitude_def)
  moreover have "ucast (scast v :: u64) = v" by (rule bit_word_eqI) (auto simp: bit_simps)
  ultimately show ?thesis by (simp add: strtol_def decimal_text_code)
qed

lemma string_loop_copies:
  assumes "\<forall>c\<in>set xs. \<not> isspace (sint c)" "isspace (sint z)"
  shows "fixed_str P m0 s (xs @ z # zs) \<Longrightarrow> (\<And>k. P k \<Longrightarrow> m k = m0 k) \<Longrightarrow> (\<And>k. in_block a (Suc (length xs)) k \<Longrightarrow> \<not> P k) \<Longrightarrow>
    Suc (length xs) < 2 ^ 32 \<Longrightarrow> string_loop m s a = Some (poke m a (xs @ [0]), s + of_nat (length xs))"
  using assms(1)
proof (induction xs arbitrary: m s a)
  case Nil
  then show ?case using assms(2) by (subst string_loop.simps) simp
next
  case (Cons x xs)
  have a: "\<not> P a" using Cons.prems(3) [of a] by (simp add: in_block_Suc)
  have m: "m s = x" "x \<noteq> 0" "\<not> isspace (sint x)" using Cons.prems(1,2,5) by auto
  have b: "\<not> P k" if "in_block (a + 1) (Suc (length xs)) k" for k
    using Cons.prems(3) [of k] Cons.prems(4) that in_block_Suc [of a "Suc (length xs)" k] a by (cases "k = a") auto
  have "string_loop (m(a := x)) (s + 1) (a + 1) = Some (poke (m(a := x)) (a + 1) (xs @ [0]), s + 1 + of_nat (length xs))"
    by (rule Cons.IH) (use Cons.prems a b in auto)
  then show ?case using m by (subst string_loop.simps) (simp add: add.assoc)
qed

lemma convert_item:
  assumes i: "item_format i = [37, f]" "item_bytes i = Some xs" "ends_before zs i" "zs \<noteq> []"
    and s: "fixed_str P m0 s (item_text i @ zs)" "\<And>k. P k \<Longrightarrow> w_mem w k = m0 k"
    and a: "\<And>k. in_block a (length xs) k \<Longrightarrow> \<not> P k" "length xs < 2 ^ 32"
  shows "convert_format f s a w = Some (Inr (s + of_nat (length (item_text i)), set_mem (poke (w_mem w) a xs) w))"
proof (cases i)
  case (Plain c)
  then show ?thesis using i by simp
next
  case (Decimal v)
  then have "strtol (w_mem w) s 10 = Some (Inr (v, s + of_nat (length (decimal_text v))))"
    using i fixed_str_cstr [OF s] by (intro strtol_decimal) auto
  then show ?thesis using i Decimal
    by (auto simp: convert_format_def convert_number_def assert_io_def exits_def io_bind_ask_mem store32_def ret_def)
next
  case (Letters ys)
  obtain z zs' where z: "zs = z # zs'" using i(4) by (cases zs) auto
  have "string_loop (w_mem w) s a = Some (poke (w_mem w) a (ys @ [0]), s + of_nat (length ys))"
    by (rule string_loop_copies [where P = P and z = z and zs = zs']) (use i s a Letters z in auto)
  then show ?thesis using i Letters by (auto simp: convert_format_def convert_string_def)
next
  case (Letter c)
  then have "w_mem w s = c" using s by auto
  then show ?thesis using i Letter by (auto simp: convert_format_def convert_char_def ret_def)
qed

lemma item_format_cases:
  assumes "item_format i = [37, f]"
  shows "f \<in> {100, 115, 99}"
  using assms by (cases i) auto

lemma decimal_text_nonempty: "decimal_text v \<noteq> []"
  using digits_text_length(1) [of 10 "take 10 lower_digits" True v] by (auto simp: decimal_text_code)

lemma parse_item:
  assumes i: "item_format i = [37, f]" "item_bytes i = Some xs" "ends_before zs i" "zs \<noteq> []"
    and s: "fixed_str P m0 (s_str sp) (item_text i @ zs)" "fixed_str P m0 (s_fmt sp) ([37, f] @ ys)" "\<And>k. P k \<Longrightarrow> w_mem w k = m0 k"
    and a: "\<And>k. in_block a (length xs) k \<Longrightarrow> \<not> P k" "length xs < 2 ^ 32" "load32 (w_mem w) (s_args sp + 4 * s_cur_arg sp) = a"
    and l: "2 < s_slen sp"
  shows "parse_fmt complain sp w = Some (Inr ((1, sp\<lparr>s_fmt := s_fmt sp + 2, s_str := s_str sp + of_nat (length (item_text i)),
    s_cur_arg := s_cur_arg sp + 1\<rparr>), set_mem (poke (w_mem w) a xs) w))"
proof -
  have c: "w_mem w (s_fmt sp) = 37" "w_mem w (s_fmt sp + 1) = f" using s(2,3) by auto
  have f: "f \<noteq> 37" "unsupported_first f = None" "\<not> is_modifier f" "unsupported_format f = None"
    using item_format_cases [OF i(1)] by (auto simp: unsupported_first_def is_modifier_def unsupported_format_def is_format_def isdigit_def)
  have "0 < length (item_text i)"
    using i by (cases i) (auto simp: decimal_text_nonempty)
  moreover have "length (item_text i) < 2 ^ 32" using cstr_length [OF fixed_str_cstr [OF s(1,3)]] by simp
  ultimately have "(of_nat (length (item_text i)) :: u32) \<noteq> 0" by (simp add: word_unat_eq_iff unat_of_nat)
  then have moved: "s_str sp + of_nat (length (item_text i)) \<noteq> s_str sp" by simp
  show ?thesis
    using c f l moved convert_item [OF i s(1,3) a(1,2)]
    by (simp add: parse_fmt_def assert_io_def char_at_def next_arg_def Let_def a(3) io_bind_step ret_def add.assoc)
qed

lemma run_items:
  shows "scannable items rest \<Longrightarrow> targets (\<lambda>k. \<not> P k) (values_of items) as \<Longrightarrow>
    fixed_str P m0 (s_fmt sp) (format_of items) \<Longrightarrow> fixed_str P m0 (s_str sp) (text_of items @ rest) \<Longrightarrow>
    fixed_args P m0 (s_args sp + 4 * s_cur_arg sp) as \<Longrightarrow> (\<And>k. P k \<Longrightarrow> w_mem w k = m0 k) \<Longrightarrow> 2 < s_slen sp \<Longrightarrow>
    unat (s_fmt sp) + length (format_of items) \<le> unat e \<Longrightarrow>
    run_loop complain e sp n False w = Some (Inr (n + of_nat (length as), set_mem (stored (values_of items) as (w_mem w)) w))"
proof (induction items arbitrary: sp as n w)
  case Nil
  then have "as = []" by (simp add: targets_def map_filter_simps)
  moreover have "w_mem w (s_fmt sp) = 0" "w_mem w (s_str sp) \<noteq> 0" using Nil by (cases rest; auto)+
  moreover have "set_mem (w_mem w) w = w" by (cases w) (simp add: set_mem_def)
  ultimately show ?case by (subst run_loop.simps) (simp add: Let_def ret_def map_filter_simps)
next
  case (Cons i items)
  let ?zs = "text_of items @ rest"
  have zs: "?zs \<noteq> []" using Cons.prems(1) by (induction items) auto
  have lt: "s_fmt sp < e" if "0 < length (item_format i)" using Cons.prems(8) that by (auto simp: word_less_nat_alt intro: less_le_trans [rotated])
  show ?case
  proof (cases "item_bytes i")
    case None
    then obtain c where c: "i = Plain c" by (cases i) auto
    let ?sp = "sp\<lparr>s_fmt := s_fmt sp + 1, s_str := s_str sp + 1\<rparr>"
    have u: "unat (s_fmt sp + 1) = Suc (unat (s_fmt sp))" using lt c by (simp add: unat_inc word_less_nat_alt)
    have "run_loop complain e ?sp n False w = Some (Inr (n + of_nat (length as), set_mem (stored (values_of items) as (w_mem w)) w))"
      by (rule Cons.IH) (use Cons.prems c u in \<open>auto simp: map_filter_simps s_args_def\<close>)
    moreover have "w_mem w (s_fmt sp) = c" "w_mem w (s_str sp) = c" "c \<noteq> 37" "c \<noteq> 92" using Cons.prems(1,3,4,6) c by auto
    ultimately show ?thesis using lt c None by (subst run_loop.simps) (simp add: Let_def map_filter_simps)
  next
    case (Some xs)
    then obtain f where f: "item_format i = [37, f]" by (cases i) auto
    obtain a as' where a: "as = a # as'" "length xs < 2 ^ 32" "\<And>k. in_block a (length xs) k \<Longrightarrow> \<not> P k"
        "targets (\<lambda>k. \<not> P k) (values_of items) as'"
      using Cons.prems(2) Some by (auto simp: targets_def map_filter_simps list_all2_Cons1)
    let ?sp = "sp\<lparr>s_fmt := s_fmt sp + 2, s_str := s_str sp + of_nat (length (item_text i)), s_cur_arg := s_cur_arg sp + 1\<rparr>"
    let ?w = "set_mem (poke (w_mem w) a xs) w"
    have fmt: "fixed_str P m0 (s_fmt sp) ([37, f] @ format_of items)" using Cons.prems(3) f by simp
    have str: "fixed_str P m0 (s_str sp) (item_text i @ ?zs)" using Cons.prems(4) by simp
    have ag: "w_mem ?w k = m0 k" if "P k" for k
      using a(2,3) that Cons.prems(6) by (auto intro: trans [OF poke_outside])
    have ld: "load32 (w_mem w) (s_args sp + 4 * s_cur_arg sp) = a"
      using fixed_args_load [of P m0 "s_args sp + 4 * s_cur_arg sp" a as' "w_mem w"] Cons.prems(5,6) a(1) by simp
    have p: "parse_fmt complain sp w = Some (Inr ((1, ?sp), ?w))"
      by (rule parse_item [OF f Some _ zs str fmt Cons.prems(6) a(3,2) ld Cons.prems(7)]) (use Cons.prems(1) in auto)
    have "unat (s_fmt sp) + 2 \<le> unat e" using Cons.prems(8) f by simp
    also have "\<dots> < 2 ^ 32" by simp
    finally have u: "unat (s_fmt sp + 2) = unat (s_fmt sp) + 2" by (simp add: unat_word_ariths)
    have s2: "fixed_str P m0 (s_str sp + of_nat (length (item_text i))) ?zs"
      using fixed_str_drop [OF str, of "length (item_text i)"] by simp
    have "run_loop complain e ?sp (n + 1) False ?w = Some (Inr (n + 1 + of_nat (length as'), set_mem (stored (values_of items) as' (w_mem ?w)) ?w))"
      by (rule Cons.IH) (use Cons.prems a fmt s2 ag u f in \<open>auto simp: s_args_def add.assoc distrib_left\<close>)
    moreover have "w_mem w (s_fmt sp) = 37" using Cons.prems(6) fmt by auto
    ultimately show ?thesis using lt f Some a(1)
      by (subst run_loop.simps) (simp add: Let_def io_bind_step p map_filter_simps set_mem_def add.assoc)
  qed
qed

subsection \<open>The arguments\<close>

lemma slot:
  assumes "i < 16"
  shows "in_block (q + 4 * of_nat i) 4 k \<longleftrightarrow> 4 * i \<le> unat (k - q) \<and> unat (k - q) < 4 * i + 4"
proof -
  have c: "unat (4 * of_nat i :: u32) = 4 * i" using assms by (simp add: unat_word_ariths unat_of_nat)
  define d where "d = k - q"
  have e: "k - (q + 4 * of_nat i) = d - 4 * of_nat i" by (simp add: d_def)
  have "unat (d - 4 * of_nat i) < 4 \<longleftrightarrow> 4 * i \<le> unat d \<and> unat d < 4 * i + 4"
    using c assms by (auto simp: unat_sub_if')
  then show ?thesis unfolding in_block_def e d_def .
qed

lemma read_args_list:
  assumes B: "\<And>k. in_block (s_args out) 64 k \<Longrightarrow> \<not> P k"
  shows "fixed_args P m0 ap (as @ [0]) \<Longrightarrow> 0 \<notin> set as \<Longrightarrow> (\<And>k. P k \<Longrightarrow> w_mem w k = m0 k) \<Longrightarrow> i + length as \<le> 16 \<Longrightarrow>
    \<exists>m. read_args fmt str slen out 16 (of_nat i) ap w = Some (Inr (out, set_mem m w)) \<and>
      (\<forall>k. \<not> in_block (s_args out) 64 k \<longrightarrow> m k = w_mem w k) \<and> (\<forall>j<length as. load32 m (s_args out + 4 * of_nat (i + j)) = as ! j) \<and>
      (\<forall>j<i. load32 m (s_args out + 4 * of_nat j) = load32 (w_mem w) (s_args out + 4 * of_nat j))"
proof (induction as arbitrary: i ap w)
  case Nil
  then have "load32 (w_mem w) ap = 0" using fixed_args_load [of P m0 ap 0 "[]" "w_mem w"] by simp
  moreover have "set_mem (w_mem w) w = w" by (cases w) (simp add: set_mem_def)
  ultimately show ?case by (intro exI [of _ "w_mem w"]) (simp add: read_args.simps ret_def)
next
  case (Cons a as)
  let ?q = "s_args out" let ?m = "store32 (w_mem w) (?q + 4 * of_nat i) a"
  have a: "load32 (w_mem w) ap = a" "a \<noteq> 0"
    using fixed_args_load [of P m0 ap a "as @ [0]" "w_mem w"] Cons.prems by auto
  have i: "i < 16" using Cons.prems(4) by simp
  have keeps: "?m k = w_mem w k" if "\<not> in_block ?q 64 k" for k
    using that slot [OF i, of ?q k] i by (intro store32_outside) (auto simp: in_block_def)
  have ag: "w_mem (set_mem ?m w) k = m0 k" if "P k" for k using keeps [of k] B that Cons.prems(3) by auto
  obtain m where m: "read_args fmt str slen out 16 (of_nat (Suc i)) (ap + 4) (set_mem ?m w) = Some (Inr (out, set_mem m (set_mem ?m w)))"
      "\<forall>k. \<not> in_block ?q 64 k \<longrightarrow> m k = ?m k" "\<forall>j<length as. load32 m (?q + 4 * of_nat (Suc i + j)) = as ! j"
      "\<forall>j<Suc i. load32 m (?q + 4 * of_nat j) = load32 ?m (?q + 4 * of_nat j)"
    using Cons.IH [of "ap + 4" "set_mem ?m w" "Suc i"] Cons.prems ag by auto
  have "load32 ?m (?q + 4 * of_nat j) = load32 (w_mem w) (?q + 4 * of_nat j)" if "j < i" for j
    using that i slot [of j ?q] slot [OF i, of ?q] by (intro load32_cong store32_outside) auto
  then have old: "\<forall>j<i. load32 m (?q + 4 * of_nat j) = load32 (w_mem w) (?q + 4 * of_nat j)" using m(4) by simp
  have new: "load32 m (?q + 4 * of_nat (i + j)) = (a # as) ! j" if "j < length (a # as)" for j
    using that m(3,4) by (cases j) (auto simp: load32_store32_same)
  have "room_for fmt str slen out 16 (of_nat i) w = Some (Inr ((out, 16), w))"
    using i by (simp add: room_for_def ret_def sint32_pos unat_of_nat)
  then have "read_args fmt str slen out 16 (of_nat i) ap w = Some (Inr (out, set_mem m w))"
    using a m(1) by (subst read_args.simps) (simp add: Let_def io_bind_step set_mem_def add.commute)
  then show ?case using keeps m(2) old new by (intro exI [of _ m]) auto
qed

lemma fixed_args_nth:
  "(\<And>j k. j < length as \<Longrightarrow> in_block (p + 4 * of_nat j) 4 k \<Longrightarrow> P k) \<Longrightarrow> (\<And>j. j < length as \<Longrightarrow> load32 m (p + 4 * of_nat j) = as ! j) \<Longrightarrow>
    fixed_args P m p as"
proof (induction as arbitrary: p)
  case (Cons a as)
  have "fixed_args P m (p + 4) as"
  proof (rule Cons.IH)
    fix j k assume j: "j < length as"
    have e: "p + 4 + 4 * of_nat j = p + 4 * of_nat (Suc j)" by simp
    show "load32 m (p + 4 + 4 * of_nat j) = as ! j" using Cons.prems(2) [of "Suc j"] j unfolding e by simp
    show "P k" if "in_block (p + 4 + 4 * of_nat j) 4 k" using Cons.prems(1) [of "Suc j" k] j that unfolding e by simp
  qed
  then show ?case using Cons.prems(1) [of 0] Cons.prems(2) [of 0] by simp
qed simp

subsection \<open>Scanning on the heap\<close>

lemma fixed_str_mono: "fixed_str P m p xs \<Longrightarrow> (\<And>k. P k \<Longrightarrow> m' k = m k \<and> Q k) \<Longrightarrow> fixed_str Q m' p xs"
  by (induction xs arbitrary: p) auto

lemma unat_shift: "unat (k - (p + 20)) < 64 \<Longrightarrow> unat (k - p) < (84 :: nat)" for k p :: u32
proof -
  assume a: "unat (k - (p + 20)) < 64"
  have "unat (x + 20) < 84" if "unat x < 64" for x :: u32 using that by (simp add: unat_word_ariths)
  from this [OF a] show ?thesis by simp
qed

lemma free_again:
  assumes "live lo hi (C(p \<mapsto> n)) st" "C p = None"
  shows "\<exists>st'. free p st = Some st' \<and> live lo hi C st' \<and> (\<forall>k. smalloc.safe lo hi C k \<longrightarrow> smem st' k = smem st k)"
proof -
  have eq: "(C(p \<mapsto> n))(p := None) = C" using assms(2) by (simp add: fun_upd_idem)
  obtain st' where st': "free p st = Some st'" "live lo hi C st'"
      "\<And>k. k \<in> {k. unat k < unat lo \<or> hi \<le> unat k} \<or> (\<exists>q j. q \<noteq> p \<and> (C(p \<mapsto> n)) q = Some j \<and> in_block q j k) \<Longrightarrow> smem st' k = smem st k"
    using smalloc.release_live [OF assms(1), of p n] unfolding eq by auto
  have "smem st' k = smem st k" if "smalloc.safe lo hi C k" for k
    using that assms(2) unfolding smalloc.safe_def by (intro st'(3)) (metis fun_upd_other option.distinct(1))
  then show ?thesis using st'(1,2) by blast
qed

text \<open>The structure that \<open>vsscanf\<close> allocates, with the arguments up to the NULL that ends them.\<close>

lemma create_heap:
  assumes l: "live lo hi C (w_heap w)" and P: "\<And>k. P k \<Longrightarrow> k \<in> user lo hi C"
    and ap: "fixed_args P (w_mem w) ap (as @ [0])" "0 \<notin> set as" "length as \<le> 16"
  obtains "malloc 84 (w_heap w) = Some (w_heap w, 0)" "create_scanf_struct_from_vargs fmt str slen ap w = Some (Inl ''assertion failed'')"
  | sp h n where "create_scanf_struct_from_vargs fmt str slen ap w = Some (Inr (sp, w\<lparr>w_heap := h\<rparr>))"
      "s_fmt sp = fmt" "s_str sp = str" "s_slen sp = slen" "s_cur_arg sp = 0"
      "C (s_self sp) = None" "live lo hi (C(s_self sp \<mapsto> n)) h" "\<And>k. k \<in> user lo hi C \<Longrightarrow> smem h k = w_mem w k"
      "fixed_args (in_block (s_self sp) n) (smem h) (s_args sp) as"
proof -
  obtain h1 out where m1: "malloc 84 (w_heap w) = Some (h1, out)" using smalloc.alloc_total [OF l] by blast
  show thesis
  proof (cases "out = 0")
    case True
    then have m0: "malloc 84 (w_heap w) = Some (w_heap w, 0)" using m1 smalloc.alloc_null [OF l] by auto
    have "w\<lparr>w_heap := w_heap w\<rparr> = w" by (cases w) simp
    then have "alloc_scanf_struct fmt str slen 16 w = Some (Inr (None, w))"
      by (simp add: alloc_scanf_struct_def Let_def io_bind_on_heap [of "malloc 84", OF m0] ret_def)
    then have "create_scanf_struct_from_vargs fmt str slen ap w = Some (Inl ''assertion failed'')"
      by (simp add: create_scanf_struct_from_vargs_def io_bind_def assert_struct_def throw_def)
    with m0 show thesis by (rule that(1))
  next
    case False
    define h where "h = h1\<lparr>smem := fst (memset (smem h1) out 0 84)\<rparr>"
    have "memset (smem h1) out 0 84 = (poke (smem h1) out (replicate 84 0), out)" using memset_poke [of 0 "smem h1" out 84] by (simp add: lo8_def)
    then have fill: "fst (memset (smem h1) out 0 84) k = smem h1 k" if "\<not> in_block out (unat (84 :: u32)) k" for k
      using that by (simp add: poke_outside)
    obtain n where n: "C out = None" "unat (84 :: u32) \<le> n" "live lo hi (C(out \<mapsto> n)) h" "\<And>k. smalloc.safe lo hi C k \<Longrightarrow> smem h k = w_mem w k"
    proof (rule smalloc.alloc_fill [OF l m1 False fill])
      fix n assume "C out = None" "unat (84 :: u32) \<le> n" "live lo hi (C(out \<mapsto> n)) (h1\<lparr>smem := fst (memset (smem h1) out 0 84)\<rparr>)"
        "\<And>k. smalloc.safe lo hi C k \<Longrightarrow> fst (memset (smem h1) out 0 84) k = w_mem w k"
      then show thesis using that [of n] by (simp add: h_def)
    qed
    define sp where "sp = \<lparr>s_self = out, s_fmt = fmt, s_str = str, s_slen = slen, s_cur_arg = 0, s_n_args = 16\<rparr>"
    define w1 where "w1 = w\<lparr>w_heap := h\<rparr>"
    have s: "s_self sp = out" "s_args sp = out + 20" "s_fmt sp = fmt" "s_str sp = str" "s_slen sp = slen" "s_cur_arg sp = 0"
      by (simp_all add: sp_def s_args_def)
    have in_out: "in_block out n k" if "in_block (s_args sp) 64 k" for k
      using unat_shift [of k out] that n(2) unfolding s(2) in_block_def by simp
    have apart: "\<not> in_block out n k" if "k \<in> user lo hi C" for k
      using smalloc.safe_apart [OF n(3,1)] that by (simp add: user_def)
    have w1: "w_mem w1 k = w_mem w k" if "k \<in> user lo hi C" for k
      using n(4) [of k] that by (simp add: w1_def user_def)
    have al: "alloc_scanf_struct fmt str slen 16 w = Some (Inr (Some sp, w1))"
      using False by (simp add: alloc_scanf_struct_def Let_def io_bind_on_heap [of "malloc 84", OF m1] sp_def ret_def w1_def h_def set_mem_def)
    have "\<not> P k" if "in_block (s_args sp) 64 k" for k using P apart in_out that by blast
    then obtain m where m: "read_args fmt str slen sp 16 0 ap w1 = Some (Inr (sp, set_mem m w1))"
        "\<And>k. \<not> in_block (s_args sp) 64 k \<Longrightarrow> m k = w_mem w1 k" "\<And>j. j < length as \<Longrightarrow> load32 m (s_args sp + 4 * of_nat j) = as ! j"
      using read_args_list [of sp P "w_mem w" ap as w1 0 fmt str slen] ap w1 P by auto
    have c: "create_scanf_struct_from_vargs fmt str slen ap w = Some (Inr (sp, w\<lparr>w_heap := h\<lparr>smem := m\<rparr>\<rparr>))"
      by (simp add: create_scanf_struct_from_vargs_def io_bind_step al assert_struct_def m(1)) (simp add: set_mem_def w1_def)
    have lv: "live lo hi (C(out \<mapsto> n)) (h\<lparr>smem := m\<rparr>)"
      by (rule smalloc.fill [OF n(3), of out n]) (use m(2) in_out in \<open>auto simp: w1_def\<close>)
    have "fixed_args (in_block out n) m (s_args sp) as"
    proof (rule fixed_args_nth)
      fix j k assume "j < length as" "in_block (s_args sp + 4 * of_nat j) 4 k"
      then have "in_block (s_args sp) 64 k" using slot [of j "s_args sp" k] ap(3) by (simp add: in_block_def)
      then show "in_block out n k" by (rule in_out)
    qed (rule m(3))
    moreover have "m k = w_mem w k" if "k \<in> user lo hi C" for k using m(2) [of k] w1 [OF that] apart [OF that] in_out by metis
    ultimately show thesis using that(2) [of sp "h\<lparr>smem := m\<rparr>" n, OF c] s n(1) lv by simp
  qed
qed

lemma fixed_args_mono: "fixed_args P m p as \<Longrightarrow> (\<And>k. P k \<Longrightarrow> m' k = m k \<and> Q k) \<Longrightarrow> fixed_args Q m' p as"
proof (induction as arbitrary: p)
  case (Cons a as)
  then show ?case using load32_cong [of p m m'] by auto
qed simp

lemma scan_heap:
  assumes l: "live lo hi C (w_heap w)" and P: "\<And>k. P k \<Longrightarrow> k \<in> user lo hi C" and sc: "scannable items rest"
    and fmt: "fixed_str P (w_mem w) fmt (format_of items)" and str: "fixed_str P (w_mem w) str (text_of items @ rest)"
    and ap: "fixed_args P (w_mem w) ap (as @ [0])" "0 \<notin> set as" "length as \<le> 16"
    and t: "targets (\<lambda>k. k \<in> user lo hi C \<and> \<not> P k) (values_of items) as"
    and len: "2 < length (text_of items @ rest)" "length (format_of items) \<le> length (text_of items @ rest)"
      "unat fmt + length (text_of items @ rest) < 2 ^ 32"
  shows "malloc 84 (w_heap w) = Some (w_heap w, 0) \<and> sscanf complain str fmt ap w = Some (Inl ''assertion failed'') \<or>
    (\<exists>w'. sscanf complain str fmt ap w = Some (Inr (of_nat (length as), w')) \<and> live lo hi C (w_heap w') \<and>
      (\<forall>k\<in>user lo hi C. w_mem w' k = stored (values_of items) as (w_mem w) k))"
proof -
  define L where "L = length (text_of items @ rest)"
  let ?n = "of_nat L :: u32"
  note len = len [folded L_def]
  have n: "strlen (w_mem w) str = Some ?n" unfolding L_def using fixed_str_cstr [OF str] by (intro strlen_correct) auto
  have "L < 2 ^ 32" using len(3) by simp
  then have u: "unat ?n = L" by (simp add: unat_of_nat)
  show ?thesis
  proof (rule create_heap [OF l P ap, of fmt str ?n])
    assume "malloc 84 (w_heap w) = Some (w_heap w, 0)" "create_scanf_struct_from_vargs fmt str ?n ap w = Some (Inl ''assertion failed'')"
    then show ?thesis by (simp add: sscanf_def vsscanf_def io_bind_ask_mem n io_bind_def [of "create_scanf_struct_from_vargs fmt str ?n ap"])
  next
    fix n1 and sp :: scanf_struct and h :: smalloc let ?out = "s_self sp" let ?m = "stored (values_of items) as (smem h)" let ?w = "w\<lparr>w_heap := h\<rparr>"
    assume sp: "create_scanf_struct_from_vargs fmt str ?n ap w = Some (Inr (sp, ?w))"
        "s_fmt sp = fmt" "s_str sp = str" "s_slen sp = ?n" "s_cur_arg sp = 0"
      and n1: "C ?out = None" "live lo hi (C(?out \<mapsto> n1)) h" "\<And>k. k \<in> user lo hi C \<Longrightarrow> smem h k = w_mem w k"
      and ax: "fixed_args (in_block ?out n1) (smem h) (s_args sp) as"
    define Q where "Q k \<longleftrightarrow> P k \<or> in_block ?out n1 k" for k
    have apart: "\<not> in_block ?out n1 k" if "k \<in> user lo hi C" for k
      using smalloc.safe_apart [OF n1(2,1)] that by (simp add: user_def)
    have fx: "fixed_str Q (smem h) fmt (format_of items)" "fixed_str Q (smem h) str (text_of items @ rest)" "fixed_args Q (smem h) (s_args sp) as"
      using fixed_str_mono [OF fmt, of "smem h" Q] fixed_str_mono [OF str, of "smem h" Q] fixed_args_mono [OF ax, of "smem h" Q] P n1(3)
      by (simp_all add: Q_def)
    have tQ: "targets (\<lambda>k. \<not> Q k) (values_of items) as"
      using t apart unfolding targets_def Q_def by (elim list_all2_mono) blast
    have tU: "targets (\<lambda>k. k \<in> user lo hi C) (values_of items) as" using t unfolding targets_def by (elim list_all2_mono) blast
    have run: "run_scanf complain sp ?w = Some (Inr (of_nat (length as), set_mem ?m ?w))"
      using run_items [where P = Q and ?m0.0 = "smem h" and sp = sp and w = ?w and n = 0 and e = "fmt + ?n", OF sc tQ] fx sp u len
      by (simp add: run_scanf_def unat_word_ariths word_less_nat_alt)
    have "?m k = smem h k" if "\<not> smalloc.safe lo hi (C(?out \<mapsto> n1)) k" for k
      using that smalloc.safe_upd [of C ?out, OF n1(1)] by (intro stored_other [OF tU]) (auto simp: user_def)
    then have lv: "live lo hi (C(?out \<mapsto> n1)) (h\<lparr>smem := ?m\<rparr>)" by (intro smalloc.overwrite_safe [OF n1(2)]) blast
    obtain h3 where h3: "free ?out (h\<lparr>smem := ?m\<rparr>) = Some h3" "live lo hi C h3" "\<And>k. smalloc.safe lo hi C k \<Longrightarrow> smem h3 k = ?m k"
      using free_again [OF lv n1(1)] by auto
    have fr: "free_scanf_struct sp (set_mem ?m ?w) = Some (Inr ((), w\<lparr>w_heap := h3\<rparr>))"
      using h3(1) by (simp add: free_scanf_struct_def mem_free_def on_heap_def set_mem_def)
    then have "sscanf complain str fmt ap w = Some (Inr (of_nat (length as), w\<lparr>w_heap := h3\<rparr>))"
      by (simp add: sscanf_def vsscanf_def io_bind_ask_mem n io_bind_step sp(1) run fr ret_def)
    moreover have "smem h3 k = stored (values_of items) as (w_mem w) k" if "k \<in> user lo hi C" for k
      using that h3(3) [of k] n1(3) stored_cong [OF tU, of "smem h" k "w_mem w"] by (simp add: user_def)
    ultimately show ?thesis using h3(2) by auto
  qed
qed

lemma scan_short:
  fixes w :: "'a world_scheme"
  assumes l: "live lo hi C (w_heap w)" and P: "\<And>k. P k \<Longrightarrow> k \<in> user lo hi C"
    and fmt: "fixed_str P (w_mem w) fmt (37 # xs)" and str: "fixed_str P (w_mem w) str ys" "ys \<noteq> []" "length ys \<le> 2"
    and ap: "fixed_args P (w_mem w) ap (as @ [0])" "0 \<notin> set as" "length as \<le> 16" and f: "unat fmt + 2 < 2 ^ 32"
  shows "sscanf complain str fmt ap w = Some (Inl ''assertion failed'')"
proof -
  let ?n = "of_nat (length ys) :: u32"
  have n: "strlen (w_mem w) str = Some ?n" using fixed_str_cstr [OF str(1)] by (intro strlen_correct) auto
  have u: "unat ?n = length ys" using str(3) by (simp add: unat_of_nat)
  have lt: "fmt < fmt + ?n" using u str(2,3) f by (simp add: word_less_nat_alt unat_word_ariths)
  show ?thesis
  proof (rule create_heap [OF l P ap, of fmt str ?n])
    assume "create_scanf_struct_from_vargs fmt str ?n ap w = Some (Inl ''assertion failed'')"
    then show ?thesis by (simp add: sscanf_def vsscanf_def io_bind_ask_mem n io_bind_def [of "create_scanf_struct_from_vargs fmt str ?n ap"])
  next
    fix n1 and sp :: scanf_struct and h :: smalloc let ?w = "w\<lparr>w_heap := h\<rparr>"
    assume sp: "create_scanf_struct_from_vargs fmt str ?n ap w = Some (Inr (sp, ?w))"
        "s_fmt sp = fmt" "s_slen sp = ?n" and m: "\<And>k. k \<in> user lo hi C \<Longrightarrow> smem h k = w_mem w k"
    have c: "smem h fmt = 37" using fmt m P by auto
    have "\<not> s_slen sp > 2" using u str(3) by (simp add: sp word_less_nat_alt)
    then have "parse_fmt complain sp ?w = Some (Inl ''assertion failed'')"
      by (simp add: parse_fmt_def assert_io_def Let_def)
    then have "run_scanf complain sp ?w = Some (Inl ''assertion failed'')"
      unfolding run_scanf_def using lt c sp by (subst run_loop.simps) (simp add: Let_def io_bind_def)
    then have "io_bind (run_scanf complain sp) k ?w = Some (Inl ''assertion failed'')" for k :: "u32 \<Rightarrow> ('a world_scheme, u32) io"
      by (simp add: io_bind_def)
    then show ?thesis by (simp add: sscanf_def vsscanf_def io_bind_ask_mem n io_bind_step sp(1))
  qed
qed

subsection \<open>Properties\<close>

text \<open>
  C15: let a format consist of items: plain characters (no percent sign, backslash or NUL), \<open>%d\<close>, \<open>%s\<close> and \<open>%c\<close>.  If a string consists
  of the texts of the items, each told from what stands behind it, and goes on behind the last with at least one more character,
  then \<open>sscanf\<close> stores each value through its argument, in order, returns their number, gives back the heap it
  has used and changes nothing else of the client's memory; it exits only when malloc has no memory for its structure.  What the code needs
  for that, and the C standard does not, are the further hypotheses: the string has more than two characters and no
  fewer than the format, since its length is taken for that of the format (C40 has the contrary), and the list of arguments ends
  with a NULL word, after at most 16 arguments.  Format, string and arguments lie where no value is stored.
\<close>

theorem sscanf_text:
  assumes "live lo hi C (w_heap w)" "\<And>k. P k \<Longrightarrow> k \<in> user lo hi C" "scannable items rest"
    and "fixed_str P (w_mem w) fmt (format_of items)" "fixed_str P (w_mem w) str (text_of items @ rest)"
    and "fixed_args P (w_mem w) ap (as @ [0])" "0 \<notin> set as" "length as \<le> 16"
    and "targets (\<lambda>k. k \<in> user lo hi C \<and> \<not> P k) (values_of items) as"
    and "2 < length (text_of items @ rest)" "length (format_of items) \<le> length (text_of items @ rest)"
      "unat fmt + length (text_of items @ rest) < 2 ^ 32"
  shows "malloc 84 (w_heap w) = Some (w_heap w, 0) \<and> sscanf complain str fmt ap w = Some (Inl ''assertion failed'') \<or>
    (\<exists>w'. sscanf complain str fmt ap w = Some (Inr (of_nat (length as), w')) \<and> live lo hi C (w_heap w') \<and>
      (\<forall>k\<in>user lo hi C. w_mem w' k = stored (values_of items) as (w_mem w) k))"
  by (rule scan_heap [OF assms])

text \<open>
  C40: a string of one or two characters makes \<open>sscanf\<close> exit by a failed assertion, whatever conversion its format
  starts with: \<open>slen\<close> is the length of the string, and \<open>parse_fmt\<close> takes it for the length of the format.
\<close>

theorem sscanf_short:
  assumes "live lo hi C (w_heap w)" "\<And>k. P k \<Longrightarrow> k \<in> user lo hi C" "fixed_str P (w_mem w) fmt (37 # xs)"
    and "fixed_str P (w_mem w) str ys" "ys \<noteq> []" "length ys \<le> 2"
    and "fixed_args P (w_mem w) ap (as @ [0])" "0 \<notin> set as" "length as \<le> 16" "unat fmt + 2 < 2 ^ 32"
  shows "sscanf complain str fmt ap w = Some (Inl ''assertion failed'')"
  by (rule scan_short [OF assms])

lemma bytes32_inj: "bytes32 a = bytes32 b \<Longrightarrow> a = b"
proof -
  assume e: "bytes32 a = bytes32 b"
  have "load32 (store32 m 0 a) 0 = load32 (store32 m 0 b) 0" for m unfolding store32_def e ..
  then show ?thesis by (simp add: load32_store32_same)
qed

lemma in_block_later: "n < 2 ^ 32 \<Longrightarrow> in_block (p + 1) n k \<Longrightarrow> in_block p (Suc n) k"
  by (cases "k = p") (simp_all add: in_block_def unat_diff_step)

subsection \<open>A sample\<close>

text \<open>The strings at 100 and 200, the arguments at 300.\<close>

definition scan_memory :: "u8 list \<Rightarrow> u8 list \<Rightarrow> u32 list \<Rightarrow> mem" where
  "scan_memory str fmt as = poke (poke (poke (smem pool_4k) 100 (str @ [0])) 200 (fmt @ [0])) 300 (concat (map bytes32 (as @ [0])))"

definition scan_world :: "u8 list \<Rightarrow> u8 list \<Rightarrow> u32 list \<Rightarrow> world" where
  "scan_world str fmt as = sample_world pool_4k (scan_memory str fmt as) [] 0"

lemma scan_live:
  assumes "length str < 50" "length fmt < 50" "length as < 50"
  shows "live 4096 8192 Map.empty (w_heap (scan_world str fmt as))"
proof -
  have "length (concat (map bytes32 (as @ [0]))) = 4 * Suc (length as)" by (induction as) simp_all
  then have "scan_memory str fmt as k = smem pool_4k k" if "4096 \<le> unat k" for k
    using that assms unfolding scan_memory_def by (subst poke_outside; simp add: in_block_unat)+
  then have "unat k < 4096" if "scan_memory str fmt as k \<noteq> smem pool_4k k" for k using that not_le by blast
  then have "smalloc.safe 4096 8192 Map.empty k" if "scan_memory str fmt as k \<noteq> smem pool_4k k" for k
    using that user_below [of k] by (simp add: user_def)
  then have "live 4096 8192 Map.empty (pool_4k\<lparr>smem := scan_memory str fmt as\<rparr>)"
    by (rule smalloc.overwrite_safe [OF pool_4k_live])
  then show ?thesis by (simp add: scan_world_def sample_world_def)
qed

lemma args_peek:
  "peek m p (length (concat (map bytes32 as))) = concat (map bytes32 as) \<Longrightarrow> j < length as \<Longrightarrow> load32 m (p + 4 * of_nat j) = as ! j"
proof (induction as arbitrary: p j)
  case (Cons a as)
  then have "bytes32 (load32 m p) = bytes32 a" "peek m (p + 4) (length (concat (map bytes32 as))) = concat (map bytes32 as)"
    using peek_append [of m p 4 "length (concat (map bytes32 as))"] by (simp_all add: bytes32_load32)
  then show ?case using Cons.IH [of "p + 4"] Cons.prems(2) bytes32_inj by (cases j) (auto simp: add.assoc)
qed simp

lemma fixed_strI: "cstr m p xs \<Longrightarrow> (\<And>k. in_block p (Suc (length xs)) k \<Longrightarrow> P k) \<Longrightarrow> Suc (length xs) < 2 ^ 32 \<Longrightarrow> fixed_str P m p xs"
proof (induction xs arbitrary: p)
  case (Cons x xs)
  then show ?case using Cons.IH [of "p + 1"] in_block_later [of "Suc (length xs)" p] by (auto simp: in_block_Suc)
qed (simp add: in_block_Suc)

lemma scan_strings:
  assumes "length str < 50" "length fmt < 50" "length as < 10" "0 \<notin> set str" "0 \<notin> set fmt"
  defines "m \<equiv> w_mem (scan_world str fmt as)"
  shows "fixed_str (\<lambda>k. unat k < 1000) m 100 str" "fixed_str (\<lambda>k. unat k < 1000) m 200 fmt"
    "fixed_args (\<lambda>k. unat k < 1000) m 300 (as @ [0])"
proof -
  let ?as = "concat (map bytes32 (as @ [0]))" and ?m1 = "poke (smem pool_4k) 100 (str @ [0])"
  have l: "length ?as = 4 * Suc (length as)" by (induction as) simp_all
  have m: "m = poke (poke ?m1 200 (fmt @ [0])) 300 ?as"
    by (simp add: m_def scan_world_def sample_world_def scan_memory_def)
  have s: "cstr (poke m p (xs @ [0])) p xs" if "0 \<notin> set xs" "length xs < 50" for m p and xs :: "u8 list"
    using that peek_poke_same [of "xs @ [0]" m p] by (simp add: cstr_peek del: peek.simps)
  have "cstr m 100 str" unfolding m using l assms(1-5)
    by (intro cstr_poke_other [OF cstr_poke_other [OF s]]) (auto simp: in_block_unat simp del: map_append concat_append)
  then show "fixed_str (\<lambda>k. unat k < 1000) m 100 str" using assms(1) by (intro fixed_strI) (simp_all add: in_block_unat)
  have "cstr m 200 fmt" unfolding m using l assms(1-5)
    by (intro cstr_poke_other [OF s]) (auto simp: in_block_unat simp del: map_append concat_append)
  then show "fixed_str (\<lambda>k. unat k < 1000) m 200 fmt" using assms(2) by (intro fixed_strI) (simp_all add: in_block_unat)
  have "peek m 300 (length ?as) = ?as" unfolding m using l assms by (intro peek_poke_same) simp
  then show "fixed_args (\<lambda>k. unat k < 1000) m 300 (as @ [0])"
  proof (intro fixed_args_nth args_peek)
    fix j k assume "j < length (as @ [0])" "in_block (300 + 4 * of_nat j) 4 k"
    then have "unat (k - 300) < 64" using slot [of j 300 k] assms(3) by simp
    then show "unat k < 1000" using in_block_unat [of 300 64 k] by (simp add: in_block_def)
  qed
qed

lemma sscanf_text_witness:
  "let w = scan_world (decimal_text 42 @ [32, 97, 32]) [37, 100, 32, 37, 115] [2000, 2100];
       r = sscanf (\<lambda>_. ret ()) 100 200 300 w
   in malloc 84 (w_heap w) = Some (w_heap w, 0) \<and> r = Some (Inl ''assertion failed'') \<or>
     (\<exists>w'. r = Some (Inr (2, w')) \<and> live 4096 8192 Map.empty (w_heap w') \<and>
        (\<forall>k\<in>user 4096 8192 Map.empty. w_mem w' k = stored [bytes32 42, [97, 0]] [2000, 2100] (w_mem w) k))"
proof -
  let ?items = "[Decimal 42, Plain 32, Letters [97]]"
  have "(42 :: nat) = 2 + 10 * 4" by simp
  then have d: "decimal_text 42 = [52, 50]"
    by (simp add: decimal_text_def natural_text_def digit_text_def places.simps)
  note s = scan_strings [of "decimal_text 42 @ [32, 97, 32]" "[37, 100, 32, 37, 115]" "[2000, 2100]"]
  have t: "targets (\<lambda>k. k \<in> user 4096 8192 Map.empty \<and> \<not> unat k < 1000) (values_of ?items) [2000, 2100]"
    by (simp add: targets_def map_filter_simps user_below in_block_unat)
  show ?thesis
    using sscanf_text [where P = "\<lambda>k. unat k < 1000" and rest = "[32]" and str = 100 and fmt = 200 and complain = "\<lambda>_. ret ()",
        OF scan_live [of "decimal_text 42 @ [32, 97, 32]" "[37, 100, 32, 37, 115]" "[2000, 2100]"] _ _ _ _ _ _ _ t] s
    by (simp add: d user_below map_filter_simps isspace_def isdigit_def Let_def)
qed

lemma sscanf_short_witness: "sscanf (\<lambda>_. ret ()) 100 200 300 (scan_world [53] [37, 100] [2000]) = Some (Inl ''assertion failed'')"
proof -
  note s = scan_strings [of "[53]" "[37, 100]" "[2000]"]
  show ?thesis
    by (rule sscanf_short [where P = "\<lambda>k. unat k < 1000" and xs = "[100]" and ys = "[53]" and as = "[2000]" and lo = 4096 and hi = 8192 and C = Map.empty])
      (use s scan_live [of "[53]" "[37, 100]" "[2000]"] in \<open>simp_all add: user_below\<close>)
qed

end
