(* ===== verification/Search.thy ===== *)
theory Search
  imports Prelude "HOL-Library.Multiset"
begin

text \<open>
  \<open>qsort\<close> and \<open>bsearch\<close> of the C library with a comparison function that returns an \<open>int\<close>, as
  codeblock.cc and javaclass.cc use them, and what a comparison function must satisfy for a search in
  the sorted array to find what is there.  A comparison that subtracts two addresses satisfies it only
  for addresses less than \<open>2 ^ 31\<close> apart, so the laws are asked for on a set of keys and elements.
\<close>

subsection \<open>The library functions\<close>

primrec insert_by :: "('a \<Rightarrow> 'a \<Rightarrow> int) \<Rightarrow> 'a \<Rightarrow> 'a list \<Rightarrow> 'a list" where
  "insert_by cmp x [] = [x]"
| "insert_by cmp x (y # ys) = (if cmp x y \<le> 0 then x # y # ys else y # insert_by cmp x ys)"

definition qsort :: "('a \<Rightarrow> 'a \<Rightarrow> int) \<Rightarrow> 'a list \<Rightarrow> 'a list" where
  "qsort cmp xs = foldr (insert_by cmp) xs []"

function bsearch_loop :: "('k \<Rightarrow> 'a \<Rightarrow> int) \<Rightarrow> 'k \<Rightarrow> 'a list \<Rightarrow> nat \<Rightarrow> nat \<Rightarrow> nat option" where
  "bsearch_loop cmp k xs l u =
     (if l < u
      then let idx = (l + u) div 2; r = cmp k (xs ! idx)
        in if r < 0 then bsearch_loop cmp k xs l idx
           else if 0 < r then bsearch_loop cmp k xs (idx + 1) u
           else Some idx
      else None)"
  by pat_completeness auto
termination by (relation "measure (\<lambda>(_, _, _, l, u). u - l)") auto

declare bsearch_loop.simps [simp del]

definition bsearch :: "('k \<Rightarrow> 'a \<Rightarrow> int) \<Rightarrow> 'k \<Rightarrow> 'a list \<Rightarrow> nat option" where
  "bsearch cmp k xs = bsearch_loop cmp k xs 0 (length xs)"

lemma mset_insert_by [simp]: "mset (insert_by cmp x ys) = add_mset x (mset ys)"
  by (induction ys) auto

lemma mset_qsort [simp]: "mset (qsort cmp xs) = mset xs"
  by (induction xs) (simp_all add: qsort_def)

lemma set_qsort [simp]: "set (qsort cmp xs) = set xs"
  by (metis mset_qsort set_mset_mset)

lemma length_qsort [simp]: "length (qsort cmp xs) = length xs"
  by (metis mset_qsort size_mset)

subsection \<open>Sorting\<close>

locale comparator =
  fixes cmp :: "'a \<Rightarrow> 'a \<Rightarrow> int" and S :: "'a set" and f :: "'a \<Rightarrow> int"
  assumes le_iff: "x \<in> S \<Longrightarrow> y \<in> S \<Longrightarrow> cmp x y \<le> 0 \<longleftrightarrow> f x \<le> f y"
begin

lemma insert_by_sorted:
  "x \<in> S \<Longrightarrow> set ys \<subseteq> S \<Longrightarrow> sorted (map f ys) \<Longrightarrow> sorted (map f (insert_by cmp x ys))"
proof (induction ys)
  case (Cons y ys)
  have "set (insert_by cmp x ys) = insert x (set ys)"
    by (metis mset_insert_by set_mset_add_mset_insert set_mset_mset)
  then show ?case using Cons by (fastforce simp: le_iff)
qed simp

lemma qsort_sorted: "set xs \<subseteq> S \<Longrightarrow> sorted (map f (qsort cmp xs))"
proof (induction xs)
  case (Cons x xs)
  then have "set (qsort cmp xs) \<subseteq> S" "sorted (map f (qsort cmp xs))" by simp_all
  then show ?case using Cons.prems insert_by_sorted [of x "qsort cmp xs"] by (simp add: qsort_def)
qed (simp add: qsort_def)

end

subsection \<open>Searching\<close>

text \<open>An element covers the keys from \<open>lo\<close> to \<open>hi\<close>; the elements are in order and do not overlap.\<close>

locale interval_search =
  fixes cmp :: "'k \<Rightarrow> 'a \<Rightarrow> int" and K :: "'k set" and S :: "'a set"
    and key :: "'k \<Rightarrow> int" and lo hi :: "'a \<Rightarrow> int"
  assumes below: "k \<in> K \<Longrightarrow> x \<in> S \<Longrightarrow> cmp k x < 0 \<longleftrightarrow> key k < lo x"
    and above: "k \<in> K \<Longrightarrow> x \<in> S \<Longrightarrow> 0 < cmp k x \<longleftrightarrow> hi x < key k"
    and nonempty: "x \<in> S \<Longrightarrow> lo x \<le> hi x"
begin

definition covers :: "'a \<Rightarrow> 'k \<Rightarrow> bool" where
  "covers x k \<longleftrightarrow> lo x \<le> key k \<and> key k \<le> hi x"

definition in_order :: "'a list \<Rightarrow> bool" where
  "in_order xs \<longleftrightarrow> set xs \<subseteq> S \<and> (\<forall>j<length xs. \<forall>i<j. lo (xs ! i) \<le> lo (xs ! j) \<and> hi (xs ! i) \<le> hi (xs ! j))"

lemma in_orderD:
  assumes "in_order xs" "i \<le> j" "j < length xs"
  shows "lo (xs ! i) \<le> lo (xs ! j)" "hi (xs ! i) \<le> hi (xs ! j)"
  using assms by (cases "i = j"; simp add: in_order_def)+

lemma loop_Some:
  "k \<in> K \<Longrightarrow> set xs \<subseteq> S \<Longrightarrow> u \<le> length xs \<Longrightarrow> bsearch_loop cmp k xs l u = Some i \<Longrightarrow> i < u \<and> covers (xs ! i) k"
proof (induction "u - l" arbitrary: l u rule: less_induct)
  case less
  define idx where "idx = (l + u) div 2"
  have lu: "l < u" using less.prems(4) by (rule contrapos_pp) (simp add: bsearch_loop.simps)
  then have idx: "l \<le> idx" "idx < u" "xs ! idx \<in> S" using less.prems by (auto simp: idx_def)
  consider "cmp k (xs ! idx) < 0" | "0 < cmp k (xs ! idx)" | "cmp k (xs ! idx) = 0" by linarith
  then show ?case
  proof cases
    case 1
    then have "bsearch_loop cmp k xs l idx = Some i"
      using less.prems(4) lu by (simp add: bsearch_loop.simps [of _ _ _ l u] idx_def)
    then have "i < idx \<and> covers (xs ! i) k" using idx less.prems by (intro less.hyps [of idx l]) auto
    then show ?thesis using idx by simp
  next
    case 2
    then have "bsearch_loop cmp k xs (idx + 1) u = Some i"
      using less.prems(4) lu by (simp add: bsearch_loop.simps [of _ _ _ l u] idx_def)
    then show ?thesis using idx less.prems by (intro less.hyps [of u "idx + 1"]) auto
  next
    case 3
    then have "i = idx" using less.prems(4) lu by (simp add: bsearch_loop.simps [of _ _ _ l u] idx_def)
    then show ?thesis using idx 3 below [OF less.prems(1) idx(3)] above [OF less.prems(1) idx(3)]
      by (auto simp: covers_def)
  qed
qed

lemma loop_finds:
  "k \<in> K \<Longrightarrow> in_order xs \<Longrightarrow> u \<le> length xs \<Longrightarrow> l \<le> j \<Longrightarrow> j < u \<Longrightarrow> covers (xs ! j) k \<Longrightarrow> bsearch_loop cmp k xs l u \<noteq> None"
proof (induction "u - l" arbitrary: l u rule: less_induct)
  case less
  define idx where "idx = (l + u) div 2"
  have idx: "l \<le> idx" "idx < u" using less.prems by (auto simp: idx_def)
  then have S: "xs ! idx \<in> S" using less.prems by (auto simp: in_order_def)
  consider "cmp k (xs ! idx) < 0" | "0 < cmp k (xs ! idx)" | "cmp k (xs ! idx) = 0" by linarith
  then show ?case
  proof cases
    case 1
    then have "\<not> idx \<le> j"
      using in_orderD(1) [OF less.prems(2), of idx j] below [OF less.prems(1) S] less.prems by (auto simp: covers_def)
    then have "bsearch_loop cmp k xs l idx \<noteq> None" using idx less.prems by (intro less.hyps [of idx l]) auto
    then show ?thesis using 1 idx by (simp add: bsearch_loop.simps [of _ _ _ l u] idx_def)
  next
    case 2
    then have "\<not> j \<le> idx"
      using in_orderD(2) [OF less.prems(2), of j idx] above [OF less.prems(1) S] less.prems idx by (auto simp: covers_def)
    then have "bsearch_loop cmp k xs (idx + 1) u \<noteq> None" using idx less.prems by (intro less.hyps [of u "idx + 1"]) auto
    then show ?thesis using 2 idx by (simp add: bsearch_loop.simps [of _ _ _ l u] idx_def)
  next
    case 3
    then show ?thesis using idx by (simp add: bsearch_loop.simps [of _ _ _ l u] idx_def)
  qed
qed

lemma bsearch_finds:
  assumes "k \<in> K" "in_order xs"
  shows "(\<exists>i. bsearch cmp k xs = Some i \<and> i < length xs \<and> covers (xs ! i) k) \<or>
    (bsearch cmp k xs = None \<and> (\<forall>x\<in>set xs. \<not> covers x k))"
proof (cases "bsearch cmp k xs")
  case None
  then have "\<not> covers (xs ! j) k" if "j < length xs" for j
    using loop_finds [OF assms, of "length xs" 0 j] that by (auto simp: bsearch_def)
  then show ?thesis using None by (auto simp: in_set_conv_nth)
next
  case (Some i)
  then show ?thesis using loop_Some [OF assms(1), of xs "length xs" 0 i] assms(2) by (auto simp: bsearch_def in_order_def)
qed

end

end
