(* ===== verification/Mips.thy ===== *)
theory Mips
  imports Prelude
begin

text \<open>
  The tables of the translator, tools/translator/include/mips.hh and tools/translator/mips.cc: the
  numbering of the registers (the general ones, \<open>HI\<close> and \<open>LO\<close>, the floating-point ones, and the
  translator's own), the operations, the fields of an instruction word and the tables that map
  these fields to operations.  A register number is a \<open>nat\<close>, as the code casts integers to
  \<open>MIPS_register_t\<close> freely; an operation is the number the
  enumeration gives it, since arrays are indexed by it.
\<close>

unbundle bit_operations_syntax

subsection \<open>Registers\<close>

type_synonym MIPS_register = nat

abbreviation (input) R_ZERO :: MIPS_register where "R_ZERO \<equiv> 0"
abbreviation (input) R_AT :: MIPS_register where "R_AT \<equiv> 1"
abbreviation (input) R_V0 :: MIPS_register where "R_V0 \<equiv> 2"
abbreviation (input) R_V1 :: MIPS_register where "R_V1 \<equiv> 3"
abbreviation (input) R_A0 :: MIPS_register where "R_A0 \<equiv> 4"
abbreviation (input) R_A1 :: MIPS_register where "R_A1 \<equiv> 5"
abbreviation (input) R_A2 :: MIPS_register where "R_A2 \<equiv> 6"
abbreviation (input) R_A3 :: MIPS_register where "R_A3 \<equiv> 7"
abbreviation (input) R_T0 :: MIPS_register where "R_T0 \<equiv> 8"
abbreviation (input) R_T1 :: MIPS_register where "R_T1 \<equiv> 9"
abbreviation (input) R_T2 :: MIPS_register where "R_T2 \<equiv> 10"
abbreviation (input) R_T3 :: MIPS_register where "R_T3 \<equiv> 11"
abbreviation (input) R_T4 :: MIPS_register where "R_T4 \<equiv> 12"
abbreviation (input) R_T5 :: MIPS_register where "R_T5 \<equiv> 13"
abbreviation (input) R_T6 :: MIPS_register where "R_T6 \<equiv> 14"
abbreviation (input) R_T7 :: MIPS_register where "R_T7 \<equiv> 15"
abbreviation (input) R_S0 :: MIPS_register where "R_S0 \<equiv> 16"
abbreviation (input) R_S1 :: MIPS_register where "R_S1 \<equiv> 17"
abbreviation (input) R_S2 :: MIPS_register where "R_S2 \<equiv> 18"
abbreviation (input) R_S3 :: MIPS_register where "R_S3 \<equiv> 19"
abbreviation (input) R_S4 :: MIPS_register where "R_S4 \<equiv> 20"
abbreviation (input) R_S5 :: MIPS_register where "R_S5 \<equiv> 21"
abbreviation (input) R_S6 :: MIPS_register where "R_S6 \<equiv> 22"
abbreviation (input) R_S7 :: MIPS_register where "R_S7 \<equiv> 23"
abbreviation (input) R_T8 :: MIPS_register where "R_T8 \<equiv> 24"
abbreviation (input) R_T9 :: MIPS_register where "R_T9 \<equiv> 25"
abbreviation (input) R_K0 :: MIPS_register where "R_K0 \<equiv> 26"
abbreviation (input) R_K1 :: MIPS_register where "R_K1 \<equiv> 27"
abbreviation (input) R_GP :: MIPS_register where "R_GP \<equiv> 28"
abbreviation (input) R_SP :: MIPS_register where "R_SP \<equiv> 29"
abbreviation (input) R_S8 :: MIPS_register where "R_S8 \<equiv> 30"
abbreviation (input) R_RA :: MIPS_register where "R_RA \<equiv> 31"
abbreviation (input) R_HI :: MIPS_register where "R_HI \<equiv> 32"
abbreviation (input) R_LO :: MIPS_register where "R_LO \<equiv> 33"
abbreviation (input) R_F0 :: MIPS_register where "R_F0 \<equiv> 40"
abbreviation (input) R_F1 :: MIPS_register where "R_F1 \<equiv> 41"
abbreviation (input) R_F2 :: MIPS_register where "R_F2 \<equiv> 42"
abbreviation (input) R_F3 :: MIPS_register where "R_F3 \<equiv> 43"
abbreviation (input) R_F4 :: MIPS_register where "R_F4 \<equiv> 44"
abbreviation (input) R_F5 :: MIPS_register where "R_F5 \<equiv> 45"
abbreviation (input) R_F6 :: MIPS_register where "R_F6 \<equiv> 46"
abbreviation (input) R_F7 :: MIPS_register where "R_F7 \<equiv> 47"
abbreviation (input) R_F8 :: MIPS_register where "R_F8 \<equiv> 48"
abbreviation (input) R_F9 :: MIPS_register where "R_F9 \<equiv> 49"
abbreviation (input) R_F10 :: MIPS_register where "R_F10 \<equiv> 50"
abbreviation (input) R_F11 :: MIPS_register where "R_F11 \<equiv> 51"
abbreviation (input) R_F12 :: MIPS_register where "R_F12 \<equiv> 52"
abbreviation (input) R_F13 :: MIPS_register where "R_F13 \<equiv> 53"
abbreviation (input) R_F14 :: MIPS_register where "R_F14 \<equiv> 54"
abbreviation (input) R_F15 :: MIPS_register where "R_F15 \<equiv> 55"
abbreviation (input) R_F16 :: MIPS_register where "R_F16 \<equiv> 56"
abbreviation (input) R_F17 :: MIPS_register where "R_F17 \<equiv> 57"
abbreviation (input) R_F18 :: MIPS_register where "R_F18 \<equiv> 58"
abbreviation (input) R_F19 :: MIPS_register where "R_F19 \<equiv> 59"
abbreviation (input) R_F20 :: MIPS_register where "R_F20 \<equiv> 60"
abbreviation (input) R_F21 :: MIPS_register where "R_F21 \<equiv> 61"
abbreviation (input) R_F22 :: MIPS_register where "R_F22 \<equiv> 62"
abbreviation (input) R_F23 :: MIPS_register where "R_F23 \<equiv> 63"
abbreviation (input) R_F24 :: MIPS_register where "R_F24 \<equiv> 64"
abbreviation (input) R_F25 :: MIPS_register where "R_F25 \<equiv> 65"
abbreviation (input) R_F26 :: MIPS_register where "R_F26 \<equiv> 66"
abbreviation (input) R_F27 :: MIPS_register where "R_F27 \<equiv> 67"
abbreviation (input) R_F28 :: MIPS_register where "R_F28 \<equiv> 68"
abbreviation (input) R_F29 :: MIPS_register where "R_F29 \<equiv> 69"
abbreviation (input) R_F30 :: MIPS_register where "R_F30 \<equiv> 70"
abbreviation (input) R_F31 :: MIPS_register where "R_F31 \<equiv> 71"
abbreviation (input) R_CPC :: MIPS_register where "R_CPC \<equiv> 72"
abbreviation (input) R_CM0 :: MIPS_register where "R_CM0 \<equiv> 73"
abbreviation (input) R_CM1 :: MIPS_register where "R_CM1 \<equiv> 74"
abbreviation (input) R_CM2 :: MIPS_register where "R_CM2 \<equiv> 75"
abbreviation (input) R_CM3 :: MIPS_register where "R_CM3 \<equiv> 76"
abbreviation (input) R_CM4 :: MIPS_register where "R_CM4 \<equiv> 77"
abbreviation (input) R_CM5 :: MIPS_register where "R_CM5 \<equiv> 78"
abbreviation (input) R_CM6 :: MIPS_register where "R_CM6 \<equiv> 79"
abbreviation (input) R_CM7 :: MIPS_register where "R_CM7 \<equiv> 80"
abbreviation (input) R_MADR :: MIPS_register where "R_MADR \<equiv> 81"
abbreviation (input) R_ECB :: MIPS_register where "R_ECB \<equiv> 82"
abbreviation (input) R_EAR :: MIPS_register where "R_EAR \<equiv> 83"
abbreviation (input) R_FNA :: MIPS_register where "R_FNA \<equiv> 84"
abbreviation (input) R_MEM :: MIPS_register where "R_MEM \<equiv> 85"
abbreviation (input) N_REGS :: nat where "N_REGS \<equiv> 86"

subsection \<open>Operations\<close>

type_synonym mips_opcode = nat

abbreviation (input) OP_ADD :: mips_opcode where "OP_ADD \<equiv> 1"
abbreviation (input) OP_ADDI :: mips_opcode where "OP_ADDI \<equiv> 2"
abbreviation (input) OP_ADDIU :: mips_opcode where "OP_ADDIU \<equiv> 3"
abbreviation (input) OP_ADDU :: mips_opcode where "OP_ADDU \<equiv> 4"
abbreviation (input) OP_AND :: mips_opcode where "OP_AND \<equiv> 5"
abbreviation (input) OP_ANDI :: mips_opcode where "OP_ANDI \<equiv> 6"
abbreviation (input) OP_BEQ :: mips_opcode where "OP_BEQ \<equiv> 7"
abbreviation (input) OP_BGEZ :: mips_opcode where "OP_BGEZ \<equiv> 8"
abbreviation (input) OP_BGEZAL :: mips_opcode where "OP_BGEZAL \<equiv> 9"
abbreviation (input) OP_BGTZ :: mips_opcode where "OP_BGTZ \<equiv> 10"
abbreviation (input) OP_BLEZ :: mips_opcode where "OP_BLEZ \<equiv> 11"
abbreviation (input) OP_BLTZ :: mips_opcode where "OP_BLTZ \<equiv> 12"
abbreviation (input) OP_BLTZAL :: mips_opcode where "OP_BLTZAL \<equiv> 13"
abbreviation (input) OP_BNE :: mips_opcode where "OP_BNE \<equiv> 14"
abbreviation (input) OP_DIV :: mips_opcode where "OP_DIV \<equiv> 16"
abbreviation (input) OP_DIVU :: mips_opcode where "OP_DIVU \<equiv> 17"
abbreviation (input) OP_J :: mips_opcode where "OP_J \<equiv> 18"
abbreviation (input) OP_JAL :: mips_opcode where "OP_JAL \<equiv> 19"
abbreviation (input) OP_JALR :: mips_opcode where "OP_JALR \<equiv> 20"
abbreviation (input) OP_JR :: mips_opcode where "OP_JR \<equiv> 21"
abbreviation (input) OP_LB :: mips_opcode where "OP_LB \<equiv> 22"
abbreviation (input) OP_LBU :: mips_opcode where "OP_LBU \<equiv> 23"
abbreviation (input) OP_LH :: mips_opcode where "OP_LH \<equiv> 24"
abbreviation (input) OP_LHU :: mips_opcode where "OP_LHU \<equiv> 25"
abbreviation (input) OP_LUI :: mips_opcode where "OP_LUI \<equiv> 26"
abbreviation (input) OP_LW :: mips_opcode where "OP_LW \<equiv> 27"
abbreviation (input) OP_LWL :: mips_opcode where "OP_LWL \<equiv> 28"
abbreviation (input) OP_LWR :: mips_opcode where "OP_LWR \<equiv> 29"
abbreviation (input) OP_MFHI :: mips_opcode where "OP_MFHI \<equiv> 31"
abbreviation (input) OP_MFLO :: mips_opcode where "OP_MFLO \<equiv> 32"
abbreviation (input) OP_MTHI :: mips_opcode where "OP_MTHI \<equiv> 34"
abbreviation (input) OP_MTLO :: mips_opcode where "OP_MTLO \<equiv> 35"
abbreviation (input) OP_MULT :: mips_opcode where "OP_MULT \<equiv> 36"
abbreviation (input) OP_MULTU :: mips_opcode where "OP_MULTU \<equiv> 37"
abbreviation (input) OP_NOR :: mips_opcode where "OP_NOR \<equiv> 38"
abbreviation (input) OP_OR :: mips_opcode where "OP_OR \<equiv> 39"
abbreviation (input) OP_ORI :: mips_opcode where "OP_ORI \<equiv> 40"
abbreviation (input) OP_RFE :: mips_opcode where "OP_RFE \<equiv> 41"
abbreviation (input) OP_SB :: mips_opcode where "OP_SB \<equiv> 42"
abbreviation (input) OP_SH :: mips_opcode where "OP_SH \<equiv> 43"
abbreviation (input) OP_SLL :: mips_opcode where "OP_SLL \<equiv> 44"
abbreviation (input) OP_SLLV :: mips_opcode where "OP_SLLV \<equiv> 45"
abbreviation (input) OP_SLT :: mips_opcode where "OP_SLT \<equiv> 46"
abbreviation (input) OP_SLTI :: mips_opcode where "OP_SLTI \<equiv> 47"
abbreviation (input) OP_SLTIU :: mips_opcode where "OP_SLTIU \<equiv> 48"
abbreviation (input) OP_SLTU :: mips_opcode where "OP_SLTU \<equiv> 49"
abbreviation (input) OP_SRA :: mips_opcode where "OP_SRA \<equiv> 50"
abbreviation (input) OP_SRAV :: mips_opcode where "OP_SRAV \<equiv> 51"
abbreviation (input) OP_SRL :: mips_opcode where "OP_SRL \<equiv> 52"
abbreviation (input) OP_SRLV :: mips_opcode where "OP_SRLV \<equiv> 53"
abbreviation (input) OP_SUB :: mips_opcode where "OP_SUB \<equiv> 54"
abbreviation (input) OP_SUBU :: mips_opcode where "OP_SUBU \<equiv> 55"
abbreviation (input) OP_SW :: mips_opcode where "OP_SW \<equiv> 56"
abbreviation (input) OP_SWL :: mips_opcode where "OP_SWL \<equiv> 57"
abbreviation (input) OP_SWR :: mips_opcode where "OP_SWR \<equiv> 58"
abbreviation (input) OP_XOR :: mips_opcode where "OP_XOR \<equiv> 59"
abbreviation (input) OP_XORI :: mips_opcode where "OP_XORI \<equiv> 60"
abbreviation (input) OP_SYSCALL :: mips_opcode where "OP_SYSCALL \<equiv> 61"
abbreviation (input) OP_UNIMP :: mips_opcode where "OP_UNIMP \<equiv> 62"
abbreviation (input) OP_RES :: mips_opcode where "OP_RES \<equiv> 63"
abbreviation (input) OP_MFCP0 :: mips_opcode where "OP_MFCP0 \<equiv> 65"
abbreviation (input) OP_MTCP0 :: mips_opcode where "OP_MTCP0 \<equiv> 66"
abbreviation (input) OP_CFCP0 :: mips_opcode where "OP_CFCP0 \<equiv> 67"
abbreviation (input) OP_CTCP0 :: mips_opcode where "OP_CTCP0 \<equiv> 68"
abbreviation (input) OP_BCCP0 :: mips_opcode where "OP_BCCP0 \<equiv> 69"
abbreviation (input) OP_TLBR :: mips_opcode where "OP_TLBR \<equiv> 70"
abbreviation (input) OP_TLBWI :: mips_opcode where "OP_TLBWI \<equiv> 71"
abbreviation (input) OP_TLBWR :: mips_opcode where "OP_TLBWR \<equiv> 72"
abbreviation (input) OP_TLBP :: mips_opcode where "OP_TLBP \<equiv> 73"
abbreviation (input) OP_COP1 :: mips_opcode where "OP_COP1 \<equiv> 75"
abbreviation (input) OP_COP2 :: mips_opcode where "OP_COP2 \<equiv> 76"
abbreviation (input) OP_COP3 :: mips_opcode where "OP_COP3 \<equiv> 77"
abbreviation (input) OP_BREAK :: mips_opcode where "OP_BREAK \<equiv> 78"
abbreviation (input) OP_MFC_1 :: mips_opcode where "OP_MFC_1 \<equiv> 79"
abbreviation (input) OP_CFC_1 :: mips_opcode where "OP_CFC_1 \<equiv> 80"
abbreviation (input) OP_MTC_1 :: mips_opcode where "OP_MTC_1 \<equiv> 81"
abbreviation (input) OP_CTC_1 :: mips_opcode where "OP_CTC_1 \<equiv> 82"
abbreviation (input) OP_BC1F :: mips_opcode where "OP_BC1F \<equiv> 83"
abbreviation (input) OP_BC1T :: mips_opcode where "OP_BC1T \<equiv> 84"
abbreviation (input) OP_LWC1 :: mips_opcode where "OP_LWC1 \<equiv> 85"
abbreviation (input) OP_SWC1 :: mips_opcode where "OP_SWC1 \<equiv> 86"
abbreviation (input) OP_FADD :: mips_opcode where "OP_FADD \<equiv> 87"
abbreviation (input) OP_FSUB :: mips_opcode where "OP_FSUB \<equiv> 88"
abbreviation (input) OP_FMUL :: mips_opcode where "OP_FMUL \<equiv> 89"
abbreviation (input) OP_FDIV :: mips_opcode where "OP_FDIV \<equiv> 90"
abbreviation (input) OP_FSQRT :: mips_opcode where "OP_FSQRT \<equiv> 91"
abbreviation (input) OP_FABS :: mips_opcode where "OP_FABS \<equiv> 92"
abbreviation (input) OP_FMOV :: mips_opcode where "OP_FMOV \<equiv> 93"
abbreviation (input) OP_FNEG :: mips_opcode where "OP_FNEG \<equiv> 94"
abbreviation (input) OP_ROUND_L :: mips_opcode where "OP_ROUND_L \<equiv> 95"
abbreviation (input) OP_TRUNC_L :: mips_opcode where "OP_TRUNC_L \<equiv> 96"
abbreviation (input) OP_CEIL_L :: mips_opcode where "OP_CEIL_L \<equiv> 98"
abbreviation (input) OP_FLOOR_L :: mips_opcode where "OP_FLOOR_L \<equiv> 99"
abbreviation (input) OP_CEIL_W :: mips_opcode where "OP_CEIL_W \<equiv> 100"
abbreviation (input) OP_FLOOR_W :: mips_opcode where "OP_FLOOR_W \<equiv> 101"
abbreviation (input) OP_ROUND_W :: mips_opcode where "OP_ROUND_W \<equiv> 102"
abbreviation (input) OP_TRUNC_W :: mips_opcode where "OP_TRUNC_W \<equiv> 103"
abbreviation (input) OP_CVT_S :: mips_opcode where "OP_CVT_S \<equiv> 104"
abbreviation (input) OP_CVT_D :: mips_opcode where "OP_CVT_D \<equiv> 105"
abbreviation (input) OP_CVT_W :: mips_opcode where "OP_CVT_W \<equiv> 106"
abbreviation (input) OP_CVT_L :: mips_opcode where "OP_CVT_L \<equiv> 107"
abbreviation (input) OP_C_F :: mips_opcode where "OP_C_F \<equiv> 108"
abbreviation (input) OP_C_UN :: mips_opcode where "OP_C_UN \<equiv> 109"
abbreviation (input) OP_C_EQ :: mips_opcode where "OP_C_EQ \<equiv> 110"
abbreviation (input) OP_C_UEQ :: mips_opcode where "OP_C_UEQ \<equiv> 111"
abbreviation (input) OP_C_OLT :: mips_opcode where "OP_C_OLT \<equiv> 112"
abbreviation (input) OP_C_ULT :: mips_opcode where "OP_C_ULT \<equiv> 113"
abbreviation (input) OP_C_OLE :: mips_opcode where "OP_C_OLE \<equiv> 114"
abbreviation (input) OP_C_ULE :: mips_opcode where "OP_C_ULE \<equiv> 115"
abbreviation (input) OP_C_SF :: mips_opcode where "OP_C_SF \<equiv> 116"
abbreviation (input) OP_C_NGLE :: mips_opcode where "OP_C_NGLE \<equiv> 117"
abbreviation (input) OP_C_SEQ :: mips_opcode where "OP_C_SEQ \<equiv> 118"
abbreviation (input) OP_C_NGL :: mips_opcode where "OP_C_NGL \<equiv> 119"
abbreviation (input) OP_C_LT :: mips_opcode where "OP_C_LT \<equiv> 120"
abbreviation (input) OP_C_NGE :: mips_opcode where "OP_C_NGE \<equiv> 121"
abbreviation (input) OP_C_LE :: mips_opcode where "OP_C_LE \<equiv> 122"
abbreviation (input) OP_C_NGT :: mips_opcode where "OP_C_NGT \<equiv> 123"
abbreviation (input) SPECIAL :: mips_opcode where "SPECIAL \<equiv> 124"
abbreviation (input) BCOND :: mips_opcode where "BCOND \<equiv> 125"
abbreviation (input) COP0 :: mips_opcode where "COP0 \<equiv> 126"
abbreviation (input) COP1 :: mips_opcode where "COP1 \<equiv> 127"
abbreviation (input) COP2 :: mips_opcode where "COP2 \<equiv> 128"
abbreviation (input) COP3 :: mips_opcode where "COP3 \<equiv> 129"
abbreviation (input) CIBYL_SYSCALL :: mips_opcode where "CIBYL_SYSCALL \<equiv> 130"
abbreviation (input) CIBYL_REGISTER_ARGUMENT :: mips_opcode where "CIBYL_REGISTER_ARGUMENT \<equiv> 131"
abbreviation (input) CIBYL_ASSIGN_MEMREG :: mips_opcode where "CIBYL_ASSIGN_MEMREG \<equiv> 132"
abbreviation (input) N_INSNS :: nat where "N_INSNS \<equiv> 133"

datatype mips_fmt = IFMT | JFMT | RFMT

record mips_op_entry =
  op_type :: mips_opcode
  op_fmt :: mips_fmt

definition mips_op_entries :: "mips_op_entry list" where
  "mips_op_entries = map (\<lambda>(t, f). \<lparr>op_type = t, op_fmt = f\<rparr>) [
    (SPECIAL, RFMT), (BCOND, IFMT), (OP_J, JFMT), (OP_JAL, JFMT), (OP_BEQ, IFMT),
    (OP_BNE, IFMT), (OP_BLEZ, IFMT), (OP_BGTZ, IFMT), (OP_ADDI, IFMT), (OP_ADDIU, IFMT),
    (OP_SLTI, IFMT), (OP_SLTIU, IFMT), (OP_ANDI, IFMT), (OP_ORI, IFMT), (OP_XORI, IFMT),
    (OP_LUI, IFMT), (COP0, RFMT), (COP1, IFMT), (COP2, IFMT), (COP3, IFMT), (OP_RES, IFMT),
    (OP_RES, IFMT), (OP_RES, IFMT), (OP_RES, IFMT), (OP_RES, IFMT), (OP_RES, IFMT),
    (OP_RES, IFMT), (OP_RES, IFMT), (OP_RES, IFMT), (OP_RES, IFMT), (OP_RES, IFMT),
    (OP_RES, IFMT), (OP_LB, IFMT), (OP_LH, IFMT), (OP_LWL, IFMT), (OP_LW, IFMT),
    (OP_LBU, IFMT), (OP_LHU, IFMT), (OP_LWR, IFMT), (OP_RES, IFMT), (OP_SB, IFMT),
    (OP_SH, IFMT), (OP_SWL, IFMT), (OP_SW, IFMT), (OP_RES, IFMT), (OP_RES, IFMT),
    (OP_SWR, IFMT), (OP_RES, IFMT), (OP_UNIMP, IFMT), (OP_LWC1, IFMT), (OP_UNIMP, IFMT),
    (OP_UNIMP, IFMT), (OP_RES, IFMT), (OP_RES, IFMT), (OP_RES, IFMT), (OP_RES, IFMT),
    (OP_UNIMP, IFMT), (OP_SWC1, IFMT), (OP_UNIMP, IFMT), (OP_UNIMP, IFMT), (OP_RES, IFMT),
    (OP_RES, IFMT), (OP_RES, IFMT), (OP_RES, IFMT)]"

definition mips_special_table :: "mips_opcode list" where
  "mips_special_table = [
    OP_SLL, OP_RES, OP_SRL, OP_SRA, OP_SLLV, OP_RES, OP_SRLV, OP_SRAV, OP_JR, OP_JALR, OP_RES,
    OP_RES, OP_SYSCALL, OP_BREAK, OP_RES, OP_RES, OP_MFHI, OP_MTHI, OP_MFLO, OP_MTLO, OP_RES,
    OP_RES, OP_RES, OP_RES, OP_MULT, OP_MULTU, OP_DIV, OP_DIVU, OP_RES, OP_RES, OP_RES, OP_RES,
    OP_ADD, OP_ADDU, OP_SUB, OP_SUBU, OP_AND, OP_OR, OP_XOR, OP_NOR, OP_RES, OP_RES, OP_SLT,
    OP_SLTU, OP_RES, OP_RES, OP_RES, OP_RES, OP_RES, OP_RES, OP_RES, OP_RES, OP_RES, OP_RES,
    OP_RES, OP_RES, OP_RES, OP_RES, OP_RES, OP_RES, OP_RES, OP_RES, OP_RES, OP_RES]"

definition mips_cop1_table :: "mips_opcode list" where
  "mips_cop1_table = [
    OP_FADD, OP_FSUB, OP_FMUL, OP_FDIV, OP_FSQRT, OP_FABS, OP_FMOV, OP_FNEG, OP_ROUND_L,
    OP_TRUNC_L, OP_CEIL_L, OP_FLOOR_L, OP_ROUND_W, OP_TRUNC_W, OP_CEIL_W, OP_FLOOR_W, OP_RES,
    OP_RES, OP_RES, OP_RES, OP_RES, OP_RES, OP_RES, OP_RES, OP_RES, OP_RES, OP_RES, OP_RES,
    OP_RES, OP_RES, OP_RES, OP_RES, OP_CVT_S, OP_CVT_D, OP_RES, OP_RES, OP_CVT_W, OP_CVT_L,
    OP_RES, OP_RES, OP_RES, OP_RES, OP_RES, OP_RES, OP_RES, OP_RES, OP_RES, OP_C_F, OP_C_UN,
    OP_C_EQ, OP_C_UEQ, OP_C_OLT, OP_C_ULT, OP_C_OLE, OP_C_ULE, OP_C_SF, OP_C_NGLE, OP_C_SEQ,
    OP_C_NGL, OP_C_LT, OP_C_NGE, OP_C_LE, OP_C_NGT]"

definition mips_op_strings :: "string list" where
  "mips_op_strings = [
    ''Shouldn't happen'', ''add  '', ''addi '', ''addiu'', ''addu '', ''and  '', ''andi '',
    ''beq  '', ''bgez '', ''bgezal'', ''bgtz '', ''blez '', ''bltz '', ''bltzal'', ''bne  '',
    ''Shouldn't happen'', ''div  '', ''divu '', ''j'' @ [CHR 0x09], ''jal  '', ''jalr '',
    ''jr   '', ''lb   '', ''lbu  '', ''lh   '', ''lhu  '', ''lui  '', ''lw   '', ''lwl  '',
    ''lwr  '', ''Shouldn't happen'', ''mfhi '', ''mflo '', ''shouldn't happen'', ''mthi '',
    ''mtlo '', ''mult '', ''multu'', ''nor  '', ''or   '', ''ori  '', ''rfe  '', ''sb   '',
    ''sh   '', ''sll  '', ''sllv '', ''slt  '', ''slti '', ''sltiu'', ''sltu '', ''sra  '',
    ''srav '', ''srl  '', ''srlv '', ''sub  '', ''subu '', ''sw   '', ''swl  '', ''swr  '',
    ''xor  '', ''xori '', ''syscall'', ''Unimplemented'', ''Reserved'', ''Shouldn't happen'',
    ''mfcp0'', ''mtcp0'', ''cfcp0'', ''ctcp0'', ''bccp0'', ''tlbr '', ''tlbwi'', ''tlbwr'',
    ''tlbp '', ''Shouldn't happen'', ''??CP1'', ''??CP2'', ''??CP3'', ''break'', ''mfc1'',
    ''cfc1'', ''mtc1'', ''ctc1'', ''bc1f'', ''bc1t'', ''lwc1'', ''swc1'', ''fadd'', ''fsub'',
    ''fmul'', ''fdiv'', ''fsqrt'', ''fabs'', ''fmov'', ''fneg'', ''round.l'', ''trunc.l'',
    ''ceil.l'', ''floor.l'', ''ceil.w'', ''floor.w'', ''round.w'', ''trunc.w'', ''cvt.s'',
    ''cvt.d'', ''cvt.w'', ''cvt.l'', ''Reserved'', ''Reserved'', ''Reserved'', ''Reserved'',
    ''Reserved'', ''Reserved'', ''Reserved'', ''Reserved'', ''Reserved'', ''c.f'', ''c.un'',
    ''c.eq'', ''c.ueq'', ''c.olt'', ''c.ult'', ''c.ole'', ''c.ule'', ''c.sf'', ''c.ngle'',
    ''c.seq'', ''c.ngl'', ''c.lt'', ''c.nge'', ''c.le'', ''c.ngt'']"

definition mips_reg_strings :: "string list" where
  "mips_reg_strings = [
    ''zero'', ''at'', ''v0'', ''v1'', ''a0'', ''a1'', ''a2'', ''a3'', ''t0'', ''t1'', ''t2'',
    ''t3'', ''t4'', ''t5'', ''t6'', ''t7'', ''s0'', ''s1'', ''s2'', ''s3'', ''s4'', ''s5'',
    ''s6'', ''s7'', ''t8'', ''t9'', ''k0'', ''k1'', ''gp'', ''sp'', ''s8'', ''ra'', ''hi'',
    ''lo'', ''RES'', ''RES'', ''RES'', ''RES'', ''RES'', ''RES'', ''f0'', ''f1'', ''f2'',
    ''f3'', ''f4'', ''f5'', ''f6'', ''f7'', ''f8'', ''f9'', ''f10'', ''f11'', ''f12'', ''f13'',
    ''f14'', ''f15'', ''f16'', ''f17'', ''f18'', ''f19'', ''f20'', ''f21'', ''f22'', ''f23'',
    ''f24'', ''f25'', ''f26'', ''f27'', ''f28'', ''f29'', ''f30'', ''f31'', ''cpc'', ''cm0'',
    ''cm1'', ''cm2'', ''cm3'', ''cm4'', ''cm5'', ''cm6'', ''cm7'', ''madr'', ''ecb'', ''ear'',
    ''fna'', ''mem'']"

definition mips_caller_saved :: "MIPS_register list" where
  "mips_caller_saved = [R_S0, R_S1, R_S2, R_S3, R_S4, R_S5, R_S6, R_S7, R_S8, R_ZERO]"

definition mips_zero_extend_opcode :: "mips_opcode \<Rightarrow> bool" where
  "mips_zero_extend_opcode opc \<longleftrightarrow> \<not> N_INSNS < opc \<and> (opc = OP_ANDI \<or> opc = OP_ORI \<or> opc = OP_XORI)"

subsection \<open>Fields of an instruction word\<close>

definition mips_encoding_get_rs :: "u32 \<Rightarrow> MIPS_register" where
  "mips_encoding_get_rs w = unat (drop_bit 21 w AND 31)"

definition mips_encoding_get_rt :: "u32 \<Rightarrow> MIPS_register" where
  "mips_encoding_get_rt w = unat (drop_bit 16 w AND 31)"

definition mips_encoding_get_rd :: "u32 \<Rightarrow> MIPS_register" where
  "mips_encoding_get_rd w = unat (drop_bit 11 w AND 31)"

definition mips_encoding_get_fs :: "u32 \<Rightarrow> MIPS_register" where
  "mips_encoding_get_fs w = mips_encoding_get_rs w + R_F0"

definition mips_encoding_get_ft :: "u32 \<Rightarrow> MIPS_register" where
  "mips_encoding_get_ft w = mips_encoding_get_rt w + R_F0"

definition mips_encoding_get_fd :: "u32 \<Rightarrow> MIPS_register" where
  "mips_encoding_get_fd w = unat (drop_bit 6 w AND 31) + R_F0"

definition mips_encoding_get_cp1_fmt :: "u32 \<Rightarrow> nat" where
  "mips_encoding_get_cp1_fmt w = unat (drop_bit 21 w AND 31)"

definition mips_encoding_get_cp1_func :: "u32 \<Rightarrow> nat" where
  "mips_encoding_get_cp1_func w = unat (w AND 63)"

definition mips_int_to_fpu_reg :: "nat \<Rightarrow> MIPS_register" where
  "mips_int_to_fpu_reg v = v + R_F0"

definition mips_cp1_fmt_is_double :: "nat \<Rightarrow> bool" where
  "mips_cp1_fmt_is_double fmt \<longleftrightarrow> fmt AND 1 = 1"

end
