(* ===== verification/Jvm.thy ===== *)
theory Jvm
  imports Mips
begin

text \<open>
  The target of the translator: the lines of Jasmin assembly that the methods of \<open>class Emit\<close>
  (tools/translator/include/emit.hh) write, one constructor per method, and what the Java virtual
  machine does with them.  The semantics is that of the language the tool compiles to, restricted
  to the state translated code uses: an operand stack, local variables, the array
  \<open>CRunTime.memory\<close> and the static \<open>CRunTime.saved_v1\<close>.  A fragment of code either falls
  through its end, leaves it by a jump or a return, throws, or is stuck: the verifier would refuse
  it.  Calls are given by an environment, and the floating-point instructions, on which nothing is
  proved, are stuck.
\<close>

unbundle bit_operations_syntax

subsection \<open>Instructions\<close>

datatype jlabel = L_addr u32 | Lbl string

datatype jcond = Ifeq | Ifne | Ifge | Ifgt | Ifle | Iflt | If_icmpeq | If_icmpne

text \<open>What \<open>invokestatic\<close> names: a method of \<open>CRunTime\<close> with its descriptor, or a class and a signature.\<close>

datatype jmethod = CRunTime string string | Method string string

text \<open>
  The instructions without operand come in groups: on ints, on longs, on the stack, conversions,
  array accesses and the throw, returns.
\<close>

datatype int_op = IADD | ISUB | IMUL | IDIV | IREM | IAND | IOR | IXOR | ISHL | ISHR | IUSHR
datatype long_op = LSHL | LSHR | LUSHR | LOR | LAND | LCMP | LMUL | LDIV | LREM
datatype stack_op = DUP | DUP_X1 | DUP_X2 | DUP2 | POP | POP2 | SWAP
datatype conv_op = INEG | I2L | L2I | I2B | I2C | I2S | I2F | F2I
datatype array_op = IALOAD | IASTORE | AALOAD | ATHROW
datatype return_op = IRETURN | LRETURN | RETURN

datatype jconst = ICONST_M1 | ICONST int | BIPUSH int | SIPUSH int | LDC int | LDC2_W int | LDC_STRING string

datatype jinsn =
    Const jconst
  | Iload int | Istore int | Aload int | Astore int | Ret int | Iinc int int
  | Getstatic string | Putstatic string | Invokestatic jmethod | Invokevirtual string
  | Int_op int_op | Long_op long_op | Stack_op stack_op | Conv_op conv_op | Array_op array_op
  | Return_op return_op | Float_op string | Checkcast string
  | Goto jlabel | Condbranch jcond jlabel | Jsr jlabel | Label jlabel
  | Lookupswitch "u32 list" jlabel | Tableswitch int "u32 list" jlabel
  | Comment string | Error string | Warning string | Generic string

abbreviation Iadd :: jinsn where "Iadd \<equiv> Int_op IADD"
abbreviation Isub :: jinsn where "Isub \<equiv> Int_op ISUB"
abbreviation Imul :: jinsn where "Imul \<equiv> Int_op IMUL"
abbreviation Idiv :: jinsn where "Idiv \<equiv> Int_op IDIV"
abbreviation Irem :: jinsn where "Irem \<equiv> Int_op IREM"
abbreviation Iand :: jinsn where "Iand \<equiv> Int_op IAND"
abbreviation Ior :: jinsn where "Ior \<equiv> Int_op IOR"
abbreviation Ixor :: jinsn where "Ixor \<equiv> Int_op IXOR"
abbreviation Ishl :: jinsn where "Ishl \<equiv> Int_op ISHL"
abbreviation Ishr :: jinsn where "Ishr \<equiv> Int_op ISHR"
abbreviation Iushr :: jinsn where "Iushr \<equiv> Int_op IUSHR"
abbreviation Lshl :: jinsn where "Lshl \<equiv> Long_op LSHL"
abbreviation Lshr :: jinsn where "Lshr \<equiv> Long_op LSHR"
abbreviation Lushr :: jinsn where "Lushr \<equiv> Long_op LUSHR"
abbreviation Lor :: jinsn where "Lor \<equiv> Long_op LOR"
abbreviation Land :: jinsn where "Land \<equiv> Long_op LAND"
abbreviation Lcmp :: jinsn where "Lcmp \<equiv> Long_op LCMP"
abbreviation Lmul :: jinsn where "Lmul \<equiv> Long_op LMUL"
abbreviation Ldiv :: jinsn where "Ldiv \<equiv> Long_op LDIV"
abbreviation Lrem :: jinsn where "Lrem \<equiv> Long_op LREM"
abbreviation Dup :: jinsn where "Dup \<equiv> Stack_op DUP"
abbreviation Dup_x1 :: jinsn where "Dup_x1 \<equiv> Stack_op DUP_X1"
abbreviation Dup_x2 :: jinsn where "Dup_x2 \<equiv> Stack_op DUP_X2"
abbreviation Dup2 :: jinsn where "Dup2 \<equiv> Stack_op DUP2"
abbreviation Pop :: jinsn where "Pop \<equiv> Stack_op POP"
abbreviation Pop2 :: jinsn where "Pop2 \<equiv> Stack_op POP2"
abbreviation Swap :: jinsn where "Swap \<equiv> Stack_op SWAP"
abbreviation Ineg :: jinsn where "Ineg \<equiv> Conv_op INEG"
abbreviation I2l :: jinsn where "I2l \<equiv> Conv_op I2L"
abbreviation L2i :: jinsn where "L2i \<equiv> Conv_op L2I"
abbreviation I2b :: jinsn where "I2b \<equiv> Conv_op I2B"
abbreviation I2c :: jinsn where "I2c \<equiv> Conv_op I2C"
abbreviation I2s :: jinsn where "I2s \<equiv> Conv_op I2S"
abbreviation I2f :: jinsn where "I2f \<equiv> Conv_op I2F"
abbreviation F2i :: jinsn where "F2i \<equiv> Conv_op F2I"
abbreviation Iaload :: jinsn where "Iaload \<equiv> Array_op IALOAD"
abbreviation Iastore :: jinsn where "Iastore \<equiv> Array_op IASTORE"
abbreviation Aaload :: jinsn where "Aaload \<equiv> Array_op AALOAD"
abbreviation Athrow :: jinsn where "Athrow \<equiv> Array_op ATHROW"
abbreviation Ireturn :: jinsn where "Ireturn \<equiv> Return_op IRETURN"
abbreviation Lreturn :: jinsn where "Lreturn \<equiv> Return_op LRETURN"
abbreviation Return :: jinsn where "Return \<equiv> Return_op RETURN"
abbreviation Iconst_m1 :: jinsn where "Iconst_m1 \<equiv> Const ICONST_M1"
abbreviation Iconst :: "int \<Rightarrow> jinsn" where "Iconst x \<equiv> Const (ICONST x)"
abbreviation Bipush :: "int \<Rightarrow> jinsn" where "Bipush x \<equiv> Const (BIPUSH x)"
abbreviation Sipush :: "int \<Rightarrow> jinsn" where "Sipush x \<equiv> Const (SIPUSH x)"
abbreviation Ldc :: "int \<Rightarrow> jinsn" where "Ldc x \<equiv> Const (LDC x)"
abbreviation Ldc2_w :: "int \<Rightarrow> jinsn" where "Ldc2_w x \<equiv> Const (LDC2_W x)"
abbreviation Ldc_string :: "string \<Rightarrow> jinsn" where "Ldc_string x \<equiv> Const (LDC_STRING x)"

subsection \<open>States and outcomes\<close>

datatype jval = VI u32 | VL u64 | VMem | VRet

record jstate =
  stk :: "jval list"
  locs :: "int \<Rightarrow> jval"
  jmem :: "u32 list"
  saved_v1 :: u32

datatype jout = Fall jstate | Jump jlabel jstate | Returns "jval option" jstate | Throws string jstate | Stuck

type_synonym jenv = "jmethod \<Rightarrow> jstate \<Rightarrow> jout"

definition push :: "jval \<Rightarrow> jstate \<Rightarrow> jout" where
  "push v s = Fall (s\<lparr>stk := v # stk s\<rparr>)"

definition int1 :: "(u32 \<Rightarrow> jval) \<Rightarrow> jstate \<Rightarrow> jout" where
  "int1 f s = (case stk s of VI a # r \<Rightarrow> Fall (s\<lparr>stk := f a # r\<rparr>) | _ \<Rightarrow> Stuck)"

definition int2 :: "(u32 \<Rightarrow> u32 \<Rightarrow> u32) \<Rightarrow> jstate \<Rightarrow> jout" where
  "int2 f s = (case stk s of VI b # VI a # r \<Rightarrow> Fall (s\<lparr>stk := VI (f a b) # r\<rparr>) | _ \<Rightarrow> Stuck)"

definition long2 :: "(u64 \<Rightarrow> u64 \<Rightarrow> jval) \<Rightarrow> jstate \<Rightarrow> jout" where
  "long2 f s = (case stk s of VL b # VL a # r \<Rightarrow> Fall (s\<lparr>stk := f a b # r\<rparr>) | _ \<Rightarrow> Stuck)"

definition long_shift :: "(u64 \<Rightarrow> nat \<Rightarrow> u64) \<Rightarrow> jstate \<Rightarrow> jout" where
  "long_shift f s = (case stk s of VI b # VL a # r \<Rightarrow>
     Fall (s\<lparr>stk := VL (f a (unat (b AND 63))) # r\<rparr>) | _ \<Rightarrow> Stuck)"

definition divides :: "(int \<Rightarrow> int \<Rightarrow> int) \<Rightarrow> jstate \<Rightarrow> jout" where
  "divides f s = (case stk s of VI b # VI a # r \<Rightarrow>
     if b = 0 then Throws ''ArithmeticException'' s
     else Fall (s\<lparr>stk := VI (of_int (f (sint a) (sint b))) # r\<rparr>) | _ \<Rightarrow> Stuck)"

definition divides_long :: "(int \<Rightarrow> int \<Rightarrow> int) \<Rightarrow> jstate \<Rightarrow> jout" where
  "divides_long f s = (case stk s of VL b # VL a # r \<Rightarrow>
     if b = 0 then Throws ''ArithmeticException'' s
     else Fall (s\<lparr>stk := VL (of_int (f (sint a) (sint b))) # r\<rparr>) | _ \<Rightarrow> Stuck)"

definition lcmp :: "u64 \<Rightarrow> u64 \<Rightarrow> u32" where
  "lcmp a b = (if sint a < sint b then - 1 else if a = b then 0 else 1)"

definition load_array :: "jstate \<Rightarrow> jout" where
  "load_array s = (case stk s of VI i # VMem # r \<Rightarrow>
     if 0 \<le> sint i \<and> nat (sint i) < length (jmem s)
     then Fall (s\<lparr>stk := VI (jmem s ! nat (sint i)) # r\<rparr>)
     else Throws ''ArrayIndexOutOfBoundsException'' s | _ \<Rightarrow> Stuck)"

definition store_array :: "jstate \<Rightarrow> jout" where
  "store_array s = (case stk s of VI v # VI i # VMem # r \<Rightarrow>
     if 0 \<le> sint i \<and> nat (sint i) < length (jmem s)
     then Fall (s\<lparr>stk := r, jmem := (jmem s)[nat (sint i) := v]\<rparr>)
     else Throws ''ArrayIndexOutOfBoundsException'' s | _ \<Rightarrow> Stuck)"

definition reorder :: "(jval list \<Rightarrow> jval list option) \<Rightarrow> jstate \<Rightarrow> jout" where
  "reorder f s = (case f (stk s) of Some r \<Rightarrow> Fall (s\<lparr>stk := r\<rparr>) | None \<Rightarrow> Stuck)"

text \<open>A value of category two takes two words of the stack.\<close>

fun wide :: "jval \<Rightarrow> bool" where
  "wide (VL _) = True"
| "wide _ = False"

fun dup_form :: "jval list \<Rightarrow> jval list option" where
  "dup_form (a # r) = (if wide a then None else Some (a # a # r))"
| "dup_form _ = None"

fun dup_x1_form :: "jval list \<Rightarrow> jval list option" where
  "dup_x1_form (a # b # r) = (if wide a \<or> wide b then None else Some (a # b # a # r))"
| "dup_x1_form _ = None"

fun dup_x2_form :: "jval list \<Rightarrow> jval list option" where
  "dup_x2_form (a # b # c # r) =
     (if wide a then None else if wide b then Some (a # b # a # c # r)
      else if wide c then None else Some (a # b # c # a # r))"
| "dup_x2_form [a, b] = (if \<not> wide a \<and> wide b then Some [a, b, a] else None)"
| "dup_x2_form _ = None"

fun dup2_form :: "jval list \<Rightarrow> jval list option" where
  "dup2_form (a # b # r) =
     (if wide a then Some (a # a # b # r) else if wide b then None else Some (a # b # a # b # r))"
| "dup2_form [a] = (if wide a then Some [a, a] else None)"
| "dup2_form _ = None"

fun pop_form :: "jval list \<Rightarrow> jval list option" where
  "pop_form (a # r) = (if wide a then None else Some r)"
| "pop_form _ = None"

fun pop2_form :: "jval list \<Rightarrow> jval list option" where
  "pop2_form (a # r) = (if wide a then Some r else pop_form r)"
| "pop2_form _ = None"

fun swap_form :: "jval list \<Rightarrow> jval list option" where
  "swap_form (a # b # r) = (if wide a \<or> wide b then None else Some (b # a # r))"
| "swap_form _ = None"

fun holds :: "jcond \<Rightarrow> u32 \<Rightarrow> u32 \<Rightarrow> bool" where
  "holds Ifeq a _ \<longleftrightarrow> a = 0"
| "holds Ifne a _ \<longleftrightarrow> a \<noteq> 0"
| "holds Ifge a _ \<longleftrightarrow> sint a \<ge> 0"
| "holds Ifgt a _ \<longleftrightarrow> sint a > 0"
| "holds Ifle a _ \<longleftrightarrow> sint a \<le> 0"
| "holds Iflt a _ \<longleftrightarrow> sint a < 0"
| "holds If_icmpeq a b \<longleftrightarrow> a = b"
| "holds If_icmpne a b \<longleftrightarrow> a \<noteq> b"

fun two_operands :: "jcond \<Rightarrow> bool" where
  "two_operands If_icmpeq = True"
| "two_operands If_icmpne = True"
| "two_operands _ = False"

definition branch :: "jcond \<Rightarrow> jlabel \<Rightarrow> jstate \<Rightarrow> jout" where
  "branch c l s =
     (if two_operands c
      then (case stk s of VI b # VI a # r \<Rightarrow>
              if holds c a b then Jump l (s\<lparr>stk := r\<rparr>) else Fall (s\<lparr>stk := r\<rparr>) | _ \<Rightarrow> Stuck)
      else (case stk s of VI a # r \<Rightarrow>
              if holds c a 0 then Jump l (s\<lparr>stk := r\<rparr>) else Fall (s\<lparr>stk := r\<rparr>) | _ \<Rightarrow> Stuck))"

subsection \<open>One instruction\<close>

primrec int_op_step :: "int_op \<Rightarrow> jstate \<Rightarrow> jout" where
  "int_op_step IADD = int2 (+)"
| "int_op_step ISUB = int2 (-)"
| "int_op_step IMUL = int2 (*)"
| "int_op_step IDIV = divides c_div"
| "int_op_step IREM = divides c_mod"
| "int_op_step IAND = int2 (AND)"
| "int_op_step IOR = int2 (OR)"
| "int_op_step IXOR = int2 (XOR)"
| "int_op_step ISHL = int2 (\<lambda>a b. push_bit (unat (b AND 31)) a)"
| "int_op_step ISHR = int2 (\<lambda>a b. signed_drop_bit (unat (b AND 31)) a)"
| "int_op_step IUSHR = int2 (\<lambda>a b. drop_bit (unat (b AND 31)) a)"

primrec long_op_step :: "long_op \<Rightarrow> jstate \<Rightarrow> jout" where
  "long_op_step LSHL = long_shift (\<lambda>a k. push_bit k a)"
| "long_op_step LSHR = long_shift (\<lambda>a k. signed_drop_bit k a)"
| "long_op_step LUSHR = long_shift (\<lambda>a k. drop_bit k a)"
| "long_op_step LOR = long2 (\<lambda>a b. VL (a OR b))"
| "long_op_step LAND = long2 (\<lambda>a b. VL (a AND b))"
| "long_op_step LCMP = long2 (\<lambda>a b. VI (lcmp a b))"
| "long_op_step LMUL = long2 (\<lambda>a b. VL (a * b))"
| "long_op_step LDIV = divides_long c_div"
| "long_op_step LREM = divides_long c_mod"

primrec stack_op_step :: "stack_op \<Rightarrow> jstate \<Rightarrow> jout" where
  "stack_op_step DUP = reorder dup_form"
| "stack_op_step DUP_X1 = reorder dup_x1_form"
| "stack_op_step DUP_X2 = reorder dup_x2_form"
| "stack_op_step DUP2 = reorder dup2_form"
| "stack_op_step POP = reorder pop_form"
| "stack_op_step POP2 = reorder pop2_form"
| "stack_op_step SWAP = reorder swap_form"

primrec conv_op_step :: "conv_op \<Rightarrow> jstate \<Rightarrow> jout" where
  "conv_op_step INEG = int1 (\<lambda>a. VI (- a))"
| "conv_op_step I2L = int1 (\<lambda>a. VL (scast a))"
| "conv_op_step L2I = (\<lambda>s. case stk s of VL a # r \<Rightarrow> Fall (s\<lparr>stk := VI (ucast a) # r\<rparr>) | _ \<Rightarrow> Stuck)"
| "conv_op_step I2B = int1 (\<lambda>a. VI (signed_take_bit 7 a))"
| "conv_op_step I2C = int1 (\<lambda>a. VI (take_bit 16 a))"
| "conv_op_step I2S = int1 (\<lambda>a. VI (signed_take_bit 15 a))"
| "conv_op_step I2F = (\<lambda>s. Stuck)"
| "conv_op_step F2I = (\<lambda>s. Stuck)"

primrec array_op_step :: "array_op \<Rightarrow> jstate \<Rightarrow> jout" where
  "array_op_step IALOAD = load_array"
| "array_op_step IASTORE = store_array"
| "array_op_step AALOAD = (\<lambda>s. Stuck)"
| "array_op_step ATHROW = (\<lambda>s. Stuck)"

primrec return_op_step :: "return_op \<Rightarrow> jstate \<Rightarrow> jout" where
  "return_op_step IRETURN = (\<lambda>s. case stk s of VI v # r \<Rightarrow> Returns (Some (VI v)) s | _ \<Rightarrow> Stuck)"
| "return_op_step LRETURN = (\<lambda>s. case stk s of VL v # r \<Rightarrow> Returns (Some (VL v)) s | _ \<Rightarrow> Stuck)"
| "return_op_step RETURN = (\<lambda>s. Returns None s)"

primrec const_step :: "jconst \<Rightarrow> jstate \<Rightarrow> jout" where
  "const_step ICONST_M1 = push (VI (- 1))"
| "const_step (ICONST n) = push (VI (of_int n))"
| "const_step (BIPUSH n) = push (VI (of_int n))"
| "const_step (SIPUSH n) = push (VI (of_int n))"
| "const_step (LDC n) = push (VI (of_int n))"
| "const_step (LDC2_W n) = push (VL (of_int n))"
| "const_step (LDC_STRING n) = (\<lambda>s. Stuck)"

primrec step :: "jenv \<Rightarrow> jinsn \<Rightarrow> jstate \<Rightarrow> jout" where
  "step E (Const c) = const_step c"
| "step E (Int_op x) = int_op_step x"
| "step E (Long_op x) = long_op_step x"
| "step E (Stack_op x) = stack_op_step x"
| "step E (Conv_op x) = conv_op_step x"
| "step E (Array_op x) = array_op_step x"
| "step E (Return_op x) = return_op_step x"
| "step E (Iload n) = (\<lambda>s. case locs s n of VI v \<Rightarrow> push (VI v) s | _ \<Rightarrow> Stuck)"
| "step E (Istore n) = (\<lambda>s. case stk s of VI v # r \<Rightarrow> Fall (s\<lparr>stk := r, locs := (locs s)(n := VI v)\<rparr>) | _ \<Rightarrow> Stuck)"
| "step E (Aload n) = (\<lambda>s. if locs s n = VMem then push VMem s else Stuck)"
| "step E (Astore n) = (\<lambda>s. case stk s of
     VMem # r \<Rightarrow> Fall (s\<lparr>stk := r, locs := (locs s)(n := VMem)\<rparr>)
   | VRet # r \<Rightarrow> Fall (s\<lparr>stk := r, locs := (locs s)(n := VRet)\<rparr>) | _ \<Rightarrow> Stuck)"
| "step E (Ret n) = (\<lambda>s. if locs s n = VRet then Returns None s else Stuck)"
| "step E (Iinc n k) = (\<lambda>s. case locs s n of VI v \<Rightarrow> Fall (s\<lparr>locs := (locs s)(n := VI (v + of_int k))\<rparr>) | _ \<Rightarrow> Stuck)"
| "step E (Getstatic f) = (\<lambda>s. if f = ''CRunTime/memory [I'' then push VMem s
     else if f = ''CRunTime/saved_v1 I'' then push (VI (saved_v1 s)) s else Stuck)"
| "step E (Putstatic f) = (\<lambda>s. case stk s of VI v # r \<Rightarrow>
     if f = ''CRunTime/saved_v1 I'' then Fall (s\<lparr>stk := r, saved_v1 := v\<rparr>) else Stuck | _ \<Rightarrow> Stuck)"
| "step E (Invokestatic m) = E m"
| "step E (Invokevirtual _) = (\<lambda>s. Stuck)"
| "step E (Checkcast _) = (\<lambda>s. Stuck)"
| "step E (Goto l) = (\<lambda>s. Jump l s)"
| "step E (Condbranch c l) = branch c l"
| "step E (Jsr l) = (\<lambda>s. Jump l (s\<lparr>stk := VRet # stk s\<rparr>))"
| "step E (Label _) = (\<lambda>s. Fall s)"
| "step E (Lookupswitch tab def) = (\<lambda>s. case stk s of VI v # r \<Rightarrow>
     Jump (if v \<in> set tab then L_addr v else def) (s\<lparr>stk := r\<rparr>) | _ \<Rightarrow> Stuck)"
| "step E (Tableswitch first tab def) = (\<lambda>s. case stk s of VI v # r \<Rightarrow>
     Jump (if first \<le> sint v \<and> sint v < first + int (length tab) then L_addr (tab ! nat (sint v - first)) else def)
       (s\<lparr>stk := r\<rparr>) | _ \<Rightarrow> Stuck)"
| "step E (Float_op _) = (\<lambda>s. Stuck)"
| "step E (Comment _) = (\<lambda>s. Fall s)"
| "step E (Error _) = (\<lambda>s. Fall s)"
| "step E (Warning _) = (\<lambda>s. Fall s)"
| "step E (Generic _) = (\<lambda>s. Fall s)"

subsection \<open>A sequence of instructions\<close>

fun exec :: "jenv \<Rightarrow> jinsn list \<Rightarrow> jstate \<Rightarrow> jout" where
  "exec E [] s = Fall s"
| "exec E (i # is) s = (case step E i s of Fall s' \<Rightarrow> exec E is s' | out \<Rightarrow> out)"

lemma exec_append:
  "exec E (xs @ ys) s = (case exec E xs s of Fall s' \<Rightarrow> exec E ys s' | out \<Rightarrow> out)"
  by (induction xs arbitrary: s) (auto split: jout.splits)

lemma exec_append_Fall: "exec E xs s = Fall s' \<Longrightarrow> exec E (xs @ ys) s = exec E ys s'"
  by (simp add: exec_append)

named_theorems jvm_simps \<open>running the instructions\<close>

lemmas [jvm_simps] = push_def int1_def int2_def long2_def long_shift_def reorder_def
  load_array_def store_array_def branch_def exec_append

subsection \<open>Stack heights\<close>

text \<open>
  The words an instruction takes from the stack and leaves on it, as the verifier counts them: a
  \<open>long\<close> is two words.  Calls count by their descriptor.
\<close>

fun arg_words :: "string \<Rightarrow> nat" where
  "arg_words [] = 0"
| "arg_words (c # cs) = (if c = CHR '')'' then 0 else if c = CHR ''J'' then 2 + arg_words cs
     else if c = CHR ''('' then arg_words cs else 1 + arg_words cs)"

definition result_words :: "string \<Rightarrow> nat" where
  "result_words d = (if d = [] then 0 else if last d = CHR ''J'' then 2 else if last d = CHR ''V'' then 0 else 1)"

definition descriptor :: "jmethod \<Rightarrow> string" where
  "descriptor m = (case m of CRunTime _ d \<Rightarrow> d | Method _ sig \<Rightarrow> dropWhile (\<lambda>c. c \<noteq> CHR ''('') sig)"

primrec int_op_effect :: "int_op \<Rightarrow> nat \<times> nat" where
  "int_op_effect IADD = (2, 1)"
| "int_op_effect ISUB = (2, 1)"
| "int_op_effect IMUL = (2, 1)"
| "int_op_effect IDIV = (2, 1)"
| "int_op_effect IREM = (2, 1)"
| "int_op_effect IAND = (2, 1)"
| "int_op_effect IOR = (2, 1)"
| "int_op_effect IXOR = (2, 1)"
| "int_op_effect ISHL = (2, 1)"
| "int_op_effect ISHR = (2, 1)"
| "int_op_effect IUSHR = (2, 1)"

primrec long_op_effect :: "long_op \<Rightarrow> nat \<times> nat" where
  "long_op_effect LSHL = (3, 2)"
| "long_op_effect LSHR = (3, 2)"
| "long_op_effect LUSHR = (3, 2)"
| "long_op_effect LOR = (4, 2)"
| "long_op_effect LAND = (4, 2)"
| "long_op_effect LCMP = (4, 1)"
| "long_op_effect LMUL = (4, 2)"
| "long_op_effect LDIV = (4, 2)"
| "long_op_effect LREM = (4, 2)"

primrec stack_op_effect :: "stack_op \<Rightarrow> nat \<times> nat" where
  "stack_op_effect DUP = (1, 2)"
| "stack_op_effect DUP_X1 = (2, 3)"
| "stack_op_effect DUP_X2 = (3, 4)"
| "stack_op_effect DUP2 = (2, 4)"
| "stack_op_effect POP = (1, 0)"
| "stack_op_effect POP2 = (2, 0)"
| "stack_op_effect SWAP = (2, 2)"

primrec conv_op_effect :: "conv_op \<Rightarrow> nat \<times> nat" where
  "conv_op_effect INEG = (1, 1)"
| "conv_op_effect I2L = (1, 2)"
| "conv_op_effect L2I = (2, 1)"
| "conv_op_effect I2B = (1, 1)"
| "conv_op_effect I2C = (1, 1)"
| "conv_op_effect I2S = (1, 1)"
| "conv_op_effect I2F = (1, 1)"
| "conv_op_effect F2I = (1, 1)"

primrec array_op_effect :: "array_op \<Rightarrow> nat \<times> nat" where
  "array_op_effect IALOAD = (2, 1)"
| "array_op_effect IASTORE = (3, 0)"
| "array_op_effect AALOAD = (2, 1)"
| "array_op_effect ATHROW = (1, 0)"

primrec return_op_effect :: "return_op \<Rightarrow> nat \<times> nat" where
  "return_op_effect IRETURN = (1, 0)"
| "return_op_effect LRETURN = (2, 0)"
| "return_op_effect RETURN = (0, 0)"

primrec effect :: "jinsn \<Rightarrow> nat \<times> nat" where
  "effect (Const c) = (case c of LDC2_W _ \<Rightarrow> (0, 2) | _ \<Rightarrow> (0, 1))"
| "effect (Int_op x) = int_op_effect x"
| "effect (Long_op x) = long_op_effect x"
| "effect (Stack_op x) = stack_op_effect x"
| "effect (Conv_op x) = conv_op_effect x"
| "effect (Array_op x) = array_op_effect x"
| "effect (Return_op x) = return_op_effect x"
| "effect (Iload _) = (0, 1)"
| "effect (Istore _) = (1, 0)"
| "effect (Aload _) = (0, 1)"
| "effect (Astore _) = (1, 0)"
| "effect (Ret _) = (0, 0)"
| "effect (Iinc _ _) = (0, 0)"
| "effect (Getstatic _) = (0, 1)"
| "effect (Putstatic _) = (1, 0)"
| "effect (Invokestatic m) = (arg_words (descriptor m), result_words (descriptor m))"
| "effect (Invokevirtual _) = (1, 1)"
| "effect (Checkcast _) = (1, 1)"
| "effect (Goto _) = (0, 0)"
| "effect (Condbranch c _) = (if two_operands c then 2 else 1, 0)"
| "effect (Jsr _) = (0, 1)"
| "effect (Label _) = (0, 0)"
| "effect (Lookupswitch _ _) = (1, 0)"
| "effect (Tableswitch _ _ _) = (1, 0)"
| "effect (Float_op n) = (if n = ''fneg'' then 1 else 2, 1)"
| "effect (Comment _) = (0, 0)"
| "effect (Error _) = (0, 0)"
| "effect (Warning _) = (0, 0)"
| "effect (Generic _) = (0, 0)"

text \<open>The greatest height reached from a given one.\<close>

fun max_height :: "jinsn list \<Rightarrow> nat \<Rightarrow> nat" where
  "max_height [] h = h"
| "max_height (i # is) h = max h (max_height is (h - fst (effect i) + snd (effect i)))"

fun end_height :: "jinsn list \<Rightarrow> nat \<Rightarrow> nat" where
  "end_height [] h = h"
| "end_height (i # is) h = end_height is (h - fst (effect i) + snd (effect i))"

lemma max_height_append:
  "max_height (xs @ ys) h = max (max_height xs h) (max_height ys (end_height xs h))"
proof (induction xs arbitrary: h)
  case Nil
  then show ?case by (cases ys) auto
qed (simp add: max.assoc)

lemma end_height_append: "end_height (xs @ ys) h = end_height ys (end_height xs h)"
  by (induction xs arbitrary: h) auto

end
