(* ===== verification/RegAlloc.thy ===== *)
theory RegAlloc
  imports Mips
begin

text \<open>
  tools/translator/registerallocator.cc: the registers a method uses are given Java local variables,
  the arguments of the method first and the others by falling number of uses.  Register tables are
  functions from register numbers; -1 is "not allocated".
\<close>

subsection \<open>The allocator\<close>

record regalloc =
  mips_to_local :: "MIPS_register \<Rightarrow> int"
  mips_to_static :: "MIPS_register \<Rightarrow> string option"
  n_locals :: nat

definition new_RegisterAllocator :: regalloc where
  "new_RegisterAllocator = \<lparr>mips_to_local = (\<lambda>_. 0), mips_to_static = (\<lambda>_. None), n_locals = 0\<rparr>"

text \<open>\<open>sorted[n++] = reg; usage[reg] = 0\<close>: the filled part of \<open>sorted\<close> is a list, \<open>n\<close> its length.\<close>

definition allocateRegister ::
    "MIPS_register \<Rightarrow> MIPS_register list \<times> (MIPS_register \<Rightarrow> int) \<Rightarrow> MIPS_register list \<times> (MIPS_register \<Rightarrow> int)" where
  "allocateRegister reg su = (fst su @ [reg], (snd su)(reg := 0))"

text \<open>The scan for the largest use count, from index \<open>i\<close> on with \<open>k\<close> registers left.\<close>

primrec largest_use :: "(MIPS_register \<Rightarrow> int) \<Rightarrow> nat \<Rightarrow> int \<times> MIPS_register" where
  "largest_use usage 0 = (0, R_ZERO)"
| "largest_use usage (Suc i) =
     (let (largest, largestIndex) = largest_use usage i
      in if usage i > 0 \<and> usage i > largest then (usage i, i) else (largest, largestIndex))"

definition used :: "(MIPS_register \<Rightarrow> int) \<Rightarrow> MIPS_register set" where
  "used usage = {i. i < N_REGS \<and> usage i > 0}"

lemma largest_use_0: "fst (largest_use usage k) = 0 \<longleftrightarrow> (\<forall>i<k. usage i \<le> 0)"
  and largest_use_nonneg: "0 \<le> fst (largest_use usage k)"
proof -
  have "0 \<le> fst (largest_use usage k) \<and> (fst (largest_use usage k) = 0 \<longleftrightarrow> (\<forall>i<k. usage i \<le> 0))"
    by (induction k) (auto simp: split_beta less_Suc_eq)
  then show "fst (largest_use usage k) = 0 \<longleftrightarrow> (\<forall>i<k. usage i \<le> 0)" "0 \<le> fst (largest_use usage k)"
    by simp_all
qed

lemma largest_use_index:
  "fst (largest_use usage k) \<noteq> 0 \<Longrightarrow>
   snd (largest_use usage k) < k \<and> 0 < usage (snd (largest_use usage k)) \<and>
   usage (snd (largest_use usage k)) = fst (largest_use usage k)"
proof (induction k)
  case (Suc k)
  then show ?case using largest_use_nonneg [of usage k] by (auto simp: split_beta Let_def less_Suc_eq)
qed simp

lemma largest_use_max:
  "i < k \<Longrightarrow> usage i \<le> fst (largest_use usage k)"
proof (induction k)
  case (Suc k)
  then show ?case using largest_use_nonneg [of usage k]
    by (fastforce simp: split_beta Let_def less_Suc_eq)
qed simp

lemma finite_used [simp]: "finite (used usage)"
  by (simp add: used_def)

lemma used_upd: "used (usage(r := 0)) = used usage - {r}"
  by (auto simp: used_def)

lemma largest_use_used:
  "fst (largest_use usage N_REGS) \<noteq> 0 \<Longrightarrow> snd (largest_use usage N_REGS) \<in> used usage"
  using largest_use_index [of usage N_REGS] by (simp add: used_def)

text \<open>The \<open>do ... while (largest != 0)\<close> loop; each round uses up one register.\<close>

function allocate_rest ::
    "MIPS_register list \<times> (MIPS_register \<Rightarrow> int) \<Rightarrow> MIPS_register list \<times> (MIPS_register \<Rightarrow> int)" where
  "allocate_rest su =
     (let (largest, largestIndex) = largest_use (snd su) N_REGS
      in if largest \<noteq> 0 then allocate_rest (allocateRegister largestIndex su) else su)"
  by pat_completeness auto
termination
proof (relation "measure (\<lambda>su. card (used (snd su)))")
  fix su :: "MIPS_register list \<times> (MIPS_register \<Rightarrow> int)" and x largest largestIndex
  assume x: "x = largest_use (snd su) N_REGS" "(largest, largestIndex) = x" "largest \<noteq> 0"
  then have "largestIndex \<in> used (snd su)" using largest_use_used [of "snd su"] by (metis fst_conv snd_conv)
  then show "(allocateRegister largestIndex su, su) \<in> measure (\<lambda>su. card (used (snd su)))"
    by (simp add: allocateRegister_def used_upd card_gt_0_iff)
      (metis One_nat_def card_gt_0_iff diff_less empty_iff finite_used zero_less_one)
qed simp

declare allocate_rest.simps [simp del]

text \<open>The arguments are tested on the caller's table, which the updates of \<open>usage\<close> do not change.\<close>

definition argument_registers :: "MIPS_register list" where
  "argument_registers = [R_SP, R_FNA, R_A0, R_A1, R_A2, R_A3]"

definition allocation_order :: "(MIPS_register \<Rightarrow> int) \<Rightarrow> MIPS_register list" where
  "allocation_order registerUsage =
     fst (allocate_rest
       (fold (\<lambda>r su. if registerUsage r > 0 then allocateRegister r su else su) argument_registers ([], registerUsage)))"

definition setAllocation :: "(MIPS_register \<Rightarrow> int) \<Rightarrow> regalloc \<Rightarrow> regalloc" where
  "setAllocation registerUsage ra =
     (let sorted = allocation_order registerUsage;
          n = length sorted
      in ra\<lparr>mips_to_local := fold (\<lambda>i m. m(sorted ! i := int i)) [0..<n] (\<lambda>_. - 1), n_locals := n\<rparr>)"

definition regToStatic :: "regalloc \<Rightarrow> MIPS_register \<Rightarrow> string option" where
  "regToStatic ra reg = mips_to_static ra reg"

definition regIsStatic :: "regalloc \<Rightarrow> MIPS_register \<Rightarrow> bool" where
  "regIsStatic ra reg \<longleftrightarrow> regToStatic ra reg \<noteq> None"

definition regIsAllocated :: "regalloc \<Rightarrow> MIPS_register \<Rightarrow> bool" where
  "regIsAllocated ra reg \<longleftrightarrow> mips_to_local ra reg \<noteq> - 1"

definition regToLocal :: "regalloc \<Rightarrow> MIPS_register \<Rightarrow> int" where
  "regToLocal ra reg = mips_to_local ra reg"

subsection \<open>What the allocation is\<close>

lemma allocate_rest_set:
  "set (fst (allocate_rest su)) = set (fst su) \<union> used (snd su) \<and>
   (distinct (fst su) \<and> set (fst su) \<inter> used (snd su) = {} \<longrightarrow> distinct (fst (allocate_rest su))) \<and>
   (\<exists>zs. fst (allocate_rest su) = fst su @ zs)"
proof (induction su rule: allocate_rest.induct)
  case (1 su)
  define l r where "l = fst (largest_use (snd su) N_REGS)" and "r = snd (largest_use (snd su) N_REGS)"
  have lr: "largest_use (snd su) N_REGS = (l, r)" by (simp add: l_def r_def)
  show ?case
  proof (cases "l = 0")
    case True
    then have "used (snd su) = {}" using largest_use_0 [of "snd su" N_REGS] by (auto simp: used_def l_def)
    then show ?thesis using True lr by (simp add: allocate_rest.simps [of su])
  next
    case False
    then have r: "r \<in> used (snd su)" using largest_use_used [of "snd su"] by (simp add: l_def r_def)
    have e: "allocate_rest su = allocate_rest (allocateRegister r su)"
      using False lr by (simp add: allocate_rest.simps [of su])
    define S T where "S = allocateRegister r su" and "T = fst (allocate_rest S)"
    have S: "fst S = fst su @ [r]" "used (snd S) = used (snd su) - {r}"
      by (simp_all add: S_def allocateRegister_def used_upd)
    have IH: "set T = set (fst S) \<union> used (snd S)"
      "distinct (fst S) \<and> set (fst S) \<inter> used (snd S) = {} \<longrightarrow> distinct T"
      "\<exists>zs. T = fst S @ zs"
      using 1 [OF lr [symmetric] refl False] by (simp_all add: S_def T_def)
    have "set T = set (fst su) \<union> used (snd su)" using IH(1) S r by auto
    moreover have "distinct (fst su) \<and> set (fst su) \<inter> used (snd su) = {} \<longrightarrow> distinct T"
      using IH(2) S r by auto
    moreover have "\<exists>zs. T = fst su @ zs" using IH(3) S by auto
    ultimately show ?thesis by (simp only: e S_def [symmetric] T_def [symmetric] simp_thms)
  qed
qed

lemma fold_allocate:
  assumes "distinct rs"
  shows "fold (\<lambda>r su. if U r > 0 then allocateRegister r su else su) rs (xs, u) =
    (xs @ filter (\<lambda>r. U r > 0) rs, \<lambda>r. if r \<in> set rs \<and> U r > 0 then 0 else u r)"
  using assms
proof (induction rs arbitrary: xs u)
  case (Cons r rs)
  then show ?case by (auto simp: allocateRegister_def fun_eq_iff)
qed simp

lemma allocation_order_props:
  "set (allocation_order U) = used U"
  "distinct (allocation_order U)"
  "\<exists>zs. allocation_order U = filter (\<lambda>r. U r > 0) argument_registers @ zs"
proof -
  define A where "A = filter (\<lambda>r. U r > 0) argument_registers"
  define u where "u = (\<lambda>r. if r \<in> set argument_registers \<and> U r > 0 then 0 else U r)"
  have d: "distinct argument_registers" by (simp add: argument_registers_def)
  then have dA: "distinct A" by (simp add: A_def)
  have o: "allocation_order U = fst (allocate_rest (A, u))"
    by (simp add: allocation_order_def fold_allocate [OF d] A_def u_def)
  have a: "set A \<subseteq> used U" by (auto simp: A_def used_def argument_registers_def)
  have u: "used u = used U - set A" by (auto simp: u_def A_def used_def)
  note P = allocate_rest_set [of "(A, u)", unfolded fst_conv snd_conv u]
  show "set (allocation_order U) = used U" using P a unfolding o by auto
  show "distinct (allocation_order U)" using P dA unfolding o by blast
  show "\<exists>zs. allocation_order U = filter (\<lambda>r. U r > 0) argument_registers @ zs"
    using P unfolding o A_def by blast
qed

lemma fold_index:
  assumes "distinct xs" "n \<le> length xs"
  shows "i < n \<Longrightarrow> fold (\<lambda>i m. m(xs ! i := int i)) [0..<n] f (xs ! i) = int i"
    and "r \<notin> set xs \<Longrightarrow> fold (\<lambda>i m. m(xs ! i := int i)) [0..<n] f r = f r"
  using assms(2)
proof (induction n)
  case (Suc n)
  {
    case 1
    then show ?case using Suc assms(1) by (auto simp: less_Suc_eq nth_eq_iff_index_eq)
  next
    case 2
    then have "r \<noteq> xs ! n" by auto
    then show ?case using 2 Suc by simp
  }
qed simp_all

lemma setAllocation_local:
  "i < length (allocation_order U) \<Longrightarrow>
   regToLocal (setAllocation U ra) (allocation_order U ! i) = int i"
  and setAllocation_unused: "r \<notin> used U \<Longrightarrow> regToLocal (setAllocation U ra) r = - 1"
proof -
  let ?o = "allocation_order U"
  note P = allocation_order_props [of U]
  note F = fold_index [OF P(2) order_refl, of _ "\<lambda>_. - 1"]
  show "regToLocal (setAllocation U ra) (?o ! i) = int i" if "i < length ?o"
    using F(1) [OF that] by (simp add: regToLocal_def setAllocation_def Let_def)
  show "regToLocal (setAllocation U ra) r = - 1" if "r \<notin> used U"
    using F(2) [of r] that P(1) by (simp add: regToLocal_def setAllocation_def Let_def)
qed

end
