(* ===== verification/Emit.thy ===== *)
theory Emit
  imports Jvm RegAlloc
begin

text \<open>
  tools/translator/emit.cc: what the emitter writes for one request of the translator.  A request
  either panics, which ends the translator with a message, or writes lines; the flag beside the
  lines is the boolean the \<open>pass2\<close> methods return.  \<open>insn_text\<close> is the text of a line as it goes to
  the output file, where \<open>path\<close> is \<open>controller->getJasminPackagePath()\<close>.
\<close>

subsection \<open>Emissions\<close>

type_synonym emission = "string + jinsn list \<times> bool"

definition panic :: "string \<Rightarrow> emission" where
  "panic msg = Inl msg"

definition lines :: "jinsn list \<Rightarrow> emission" where
  "lines is = Inr (is, True)"

definition failing :: "jinsn list \<Rightarrow> emission" where
  "failing is = Inr (is, False)"

text \<open>One request after the other; the flag is that of the last.\<close>

fun andthen :: "emission \<Rightarrow> emission \<Rightarrow> emission" where
  "andthen (Inl msg) e = Inl msg"
| "andthen (Inr (is, f)) (Inl msg) = Inl msg"
| "andthen (Inr (is, f)) (Inr (is', f')) = Inr (is @ is', f')"

fun seq :: "emission list \<Rightarrow> emission" where
  "seq [] = Inr ([], True)"
| "seq [e] = e"
| "seq (e # es) = andthen e (seq es)"

definition emit_if :: "bool \<Rightarrow> emission \<Rightarrow> emission" where
  "emit_if c e = (if c then e else lines [])"

text \<open>\<open>panic_if(cond, msg)\<close> before the rest.\<close>

definition panic_if :: "bool \<Rightarrow> string \<Rightarrow> emission \<Rightarrow> emission" where
  "panic_if c msg e = (if c then panic msg else e)"

subsection \<open>Constants\<close>

definition bc_pushconst_u :: "u32 \<Rightarrow> emission" where
  "bc_pushconst_u val =
     (if val \<le> 5 then lines [Iconst (uint val)]
      else if val \<le> 127 then lines [Bipush (uint val)]
      else if val \<le> 32767 then lines [Sipush (uint val)]
      else lines [Ldc (uint val)])"

definition bc_pushconst_l :: "u64 \<Rightarrow> emission" where
  "bc_pushconst_l val = lines [Ldc2_w (uint val)]"

definition bc_pushconst :: "int \<Rightarrow> emission" where
  "bc_pushconst val =
     (if val = -1 then lines [Iconst_m1]
      else if 0 \<le> val \<and> val \<le> 5 then lines [Iconst val]
      else if -128 \<le> val \<and> val \<le> 127 then lines [Bipush val]
      else if -32768 \<le> val \<and> val \<le> 32767 then lines [Sipush val]
      else lines [Ldc val])"

subsection \<open>Registers\<close>

definition bc_astore :: "regalloc \<Rightarrow> MIPS_register \<Rightarrow> emission" where
  "bc_astore ra reg =
     panic_if (regIsStatic ra reg) ''Astore to static reg''
     (panic_if (reg = R_ZERO \<or> \<not> regIsAllocated ra reg) ''Astore to R_ZERO or unallocated reg''
       (lines [Astore (regToLocal ra reg)]))"

definition bc_ret :: "regalloc \<Rightarrow> MIPS_register \<Rightarrow> emission" where
  "bc_ret ra reg =
     panic_if (regIsStatic ra reg) ''ret to static reg''
     (panic_if (reg = R_ZERO \<or> \<not> regIsAllocated ra reg) ''ret to R_ZERO or unallocated reg''
       (lines [Ret (regToLocal ra reg)]))"

definition bc_pushregister :: "regalloc \<Rightarrow> MIPS_register \<Rightarrow> emission" where
  "bc_pushregister ra reg =
     panic_if (reg > N_REGS) ''bc_pushregister called with out-of-bounds register''
     (case regToStatic ra reg of
        Some s \<Rightarrow> lines [Getstatic (s @ '' I'')]
      | None \<Rightarrow>
          if reg = R_ZERO \<or> \<not> regIsAllocated ra reg then bc_pushconst 0
          else if reg = R_MEM then lines [Aload (regToLocal ra reg)]
          else lines [Iload (regToLocal ra reg)])"

definition bc_popregister :: "regalloc \<Rightarrow> MIPS_register \<Rightarrow> emission" where
  "bc_popregister ra reg =
     (case regToStatic ra reg of
        Some s \<Rightarrow> lines [Putstatic (s @ '' I'')]
      | None \<Rightarrow>
          if \<not> regIsAllocated ra reg
          then lines [Error (''Popping to register '' @ mips_reg_strings ! reg @ '', which is not allocated'')]
          else if reg = R_MEM then bc_astore ra R_MEM
          else lines [Istore (regToLocal ra reg)])"

definition bc_iinc :: "regalloc \<Rightarrow> MIPS_register \<Rightarrow> int \<Rightarrow> emission" where
  "bc_iinc ra reg extra = lines [Iinc (regToLocal ra reg) extra]"

subsection \<open>Addresses\<close>

definition bc_pushaddress :: "regalloc \<Rightarrow> MIPS_register \<Rightarrow> int \<Rightarrow> emission" where
  "bc_pushaddress ra reg extra =
     seq [bc_pushregister ra reg, emit_if (extra \<noteq> 0) (seq [bc_pushconst extra, lines [Iadd]])]"

text \<open>The index into \<open>CRunTime.memory\<close>: the offset is added before the shift only when it is no multiple of 4.\<close>

definition bc_pushindex :: "regalloc \<Rightarrow> MIPS_register \<Rightarrow> int \<Rightarrow> emission" where
  "bc_pushindex ra reg extra =
     (let push_extra_before = (extra \<noteq> 0 \<and> c_mod extra 4 \<noteq> 0)
      in seq [bc_pushregister ra reg,
              emit_if push_extra_before (seq [bc_pushconst extra, lines [Iadd]]),
              bc_pushconst 2, lines [Iushr],
              emit_if (\<not> push_extra_before \<and> extra \<noteq> 0) (seq [bc_pushconst (c_div extra 4), lines [Iadd]])])"

subsection \<open>The text of a line\<close>

text \<open>\<open>%d\<close>, \<open>%u\<close> and \<open>%x\<close>.\<close>

definition digit_char :: "nat \<Rightarrow> char" where
  "digit_char d = char_of (if d < 10 then 48 + d else 87 + d)"

function digits :: "nat \<Rightarrow> nat \<Rightarrow> string" where
  "digits b k = (if b < 2 \<or> k < b then [digit_char k] else digits b (k div b) @ [digit_char (k mod b)])"
  by pat_completeness auto
termination by (relation "measure snd") (auto intro: div_less_dividend)

declare digits.simps [simp del]

definition decimal :: "int \<Rightarrow> string" where
  "decimal i = (if i < 0 then ''-'' else []) @ digits 10 (nat \<bar>i\<bar>)"

definition hex :: "u32 \<Rightarrow> string" where
  "hex w = digits 16 (unat w)"

definition hex8 :: "u32 \<Rightarrow> string" where
  "hex8 w = (let d = hex w in replicate (8 - length d) (CHR ''0'') @ d)"

fun label_text :: "jlabel \<Rightarrow> string" where
  "label_text (L_addr a) = ''L_'' @ hex a"
| "label_text (Lbl s) = s"

definition load_store_text :: "string \<Rightarrow> int \<Rightarrow> string" where
  "load_store_text ty nr = (if 0 \<le> nr \<and> nr \<le> 3 then ty @ ''_'' @ decimal nr else ty @ '' '' @ decimal nr)"

primrec const_text :: "jconst \<Rightarrow> string" where
  "const_text ICONST_M1 = ''iconst_m1''"
| "const_text (ICONST n) = ''iconst_'' @ decimal n"
| "const_text (BIPUSH n) = ''bipush '' @ decimal n"
| "const_text (SIPUSH n) = ''sipush '' @ decimal n"
| "const_text (LDC n) = ''ldc '' @ decimal n"
| "const_text (LDC2_W n) = ''ldc2_w '' @ decimal n"
| "const_text (LDC_STRING s) = ''ldc \"'' @ s @ ''\"''"

primrec int_text :: "int_op \<Rightarrow> string" where
  "int_text IADD = ''iadd''" | "int_text ISUB = ''isub''" | "int_text IMUL = ''imul''"
| "int_text IDIV = ''idiv''" | "int_text IREM = ''irem''" | "int_text IAND = ''iand''"
| "int_text IOR = ''ior''" | "int_text IXOR = ''ixor''" | "int_text ISHL = ''ishl''"
| "int_text ISHR = ''ishr''" | "int_text IUSHR = ''iushr''"

primrec long_text :: "long_op \<Rightarrow> string" where
  "long_text LSHL = ''lshl''" | "long_text LSHR = ''lshr''" | "long_text LUSHR = ''lushr''"
| "long_text LOR = ''lor''" | "long_text LAND = ''land''" | "long_text LCMP = ''lcmp''"
| "long_text LMUL = ''lmul''" | "long_text LDIV = ''ldiv''" | "long_text LREM = ''lrem''"

primrec stack_text :: "stack_op \<Rightarrow> string" where
  "stack_text DUP = ''dup''" | "stack_text DUP_X1 = ''dup_x1''" | "stack_text DUP_X2 = ''dup_x2''"
| "stack_text DUP2 = ''dup2''" | "stack_text POP = ''pop''" | "stack_text POP2 = ''pop2''"
| "stack_text SWAP = ''swap''"

primrec conv_text :: "conv_op \<Rightarrow> string" where
  "conv_text INEG = ''ineg''" | "conv_text I2L = ''i2l''" | "conv_text L2I = ''l2i''"
| "conv_text I2B = ''i2b''" | "conv_text I2C = ''i2c''" | "conv_text I2S = ''i2s''"
| "conv_text I2F = ''i2f''" | "conv_text F2I = ''f2i''"

primrec array_text :: "array_op \<Rightarrow> string" where
  "array_text IALOAD = ''iaload''" | "array_text IASTORE = ''iastore''"
| "array_text AALOAD = ''aaload''" | "array_text ATHROW = ''athrow''"

primrec return_text :: "return_op \<Rightarrow> string" where
  "return_text IRETURN = ''ireturn''" | "return_text LRETURN = ''lreturn''" | "return_text RETURN = ''return''"

primrec cond_text :: "jcond \<Rightarrow> string" where
  "cond_text Ifeq = ''ifeq''" | "cond_text Ifne = ''ifne''" | "cond_text Ifge = ''ifge''"
| "cond_text Ifgt = ''ifgt''" | "cond_text Ifle = ''ifle''" | "cond_text Iflt = ''iflt''"
| "cond_text If_icmpeq = ''if_icmpeq''" | "cond_text If_icmpne = ''if_icmpne''"

definition nl :: string where "nl = [CHR 0x0A]"
definition tab :: string where "tab = [CHR 0x09]"

definition write_indent :: "string \<Rightarrow> string" where
  "write_indent s = tab @ s @ nl"

definition lookupswitch_text :: "u32 list \<Rightarrow> jlabel \<Rightarrow> string" where
  "lookupswitch_text table def =
     tab @ ''lookupswitch'' @ nl @
     concat (map (\<lambda>a. tab @ tab @ ''0x'' @ hex a @ '' : L_'' @ hex a @ nl) table) @
     tab @ tab @ ''default: '' @ label_text def @ nl"

definition tableswitch_text :: "int \<Rightarrow> u32 list \<Rightarrow> jlabel \<Rightarrow> string" where
  "tableswitch_text first table def =
     tab @ ''tableswitch '' @ decimal first @ '' '' @ decimal (first + int (length table) - 1) @ nl @
     concat (map (\<lambda>a. tab @ tab @ ''L_'' @ hex a @ nl) table) @
     tab @ ''default: '' @ label_text def @ nl"

definition method_text :: "string \<Rightarrow> jmethod \<Rightarrow> string" where
  "method_text path m = (case m of CRunTime name d \<Rightarrow> path @ ''CRunTime/'' @ name @ d | Method cl sig \<Rightarrow> cl @ sig)"

primrec insn_text :: "string \<Rightarrow> jinsn \<Rightarrow> string" where
  "insn_text path (Const c) = write_indent (const_text c)"
| "insn_text path (Iload n) = write_indent (load_store_text ''iload'' n)"
| "insn_text path (Istore n) = write_indent (load_store_text ''istore'' n)"
| "insn_text path (Aload n) = write_indent (load_store_text ''aload'' n)"
| "insn_text path (Astore n) = write_indent (load_store_text ''astore'' n)"
| "insn_text path (Ret n) = write_indent (''ret '' @ decimal n)"
| "insn_text path (Iinc n k) = write_indent (''iinc '' @ decimal n @ '' '' @ decimal k)"
| "insn_text path (Getstatic f) = write_indent (''getstatic '' @ path @ f)"
| "insn_text path (Putstatic f) = write_indent (''putstatic '' @ path @ f)"
| "insn_text path (Invokestatic m) = write_indent (''invokestatic '' @ method_text path m)"
| "insn_text path (Invokevirtual f) = write_indent (''invokevirtual '' @ path @ f)"
| "insn_text path (Int_op i) = write_indent (int_text i)"
| "insn_text path (Long_op i) = write_indent (long_text i)"
| "insn_text path (Stack_op i) = write_indent (stack_text i)"
| "insn_text path (Conv_op i) = write_indent (conv_text i)"
| "insn_text path (Array_op i) = write_indent (array_text i)"
| "insn_text path (Return_op i) = write_indent (return_text i)"
| "insn_text path (Float_op s) = write_indent s"
| "insn_text path (Checkcast s) = write_indent (''checkcast '' @ s)"
| "insn_text path (Goto l) = write_indent (''goto '' @ label_text l)"
| "insn_text path (Condbranch c l) = write_indent (cond_text c @ '' '' @ label_text l)"
| "insn_text path (Jsr l) = write_indent (''jsr '' @ label_text l)"
| "insn_text path (Label l) = label_text l @ '':'' @ nl"
| "insn_text path (Lookupswitch t d) = lookupswitch_text t d"
| "insn_text path (Tableswitch f t d) = tableswitch_text f t d"
| "insn_text path (Comment s) = ''; '' @ s @ nl"
| "insn_text path (Error s) = ''; ERROR: '' @ s @ nl"
| "insn_text path (Warning s) = ''; WARNING: '' @ s @ nl"
| "insn_text path (Generic s) = s"

definition output_text :: "string \<Rightarrow> jinsn list \<Rightarrow> string" where
  "output_text path is = concat (map (insn_text path) is)"

end
