(* ===== verification/Insn.thy ===== *)
theory Insn
  imports Emit
begin

text \<open>
  The objects of tools/translator/instruction.cc: an instruction with its fields, and a C++ class as
  a record of its methods.  A derived class is its base class with the methods it overrides
  replaced.  What the instructions ask of the rest of the translator (the configuration, the
  method at an address, built-ins, system calls, the catch clauses) is the context; what they see of a
  \<open>JavaMethod\<close> is the record \<open>jmeth\<close>.  The texts of panics and warnings are kept without the
  values printed into them.
\<close>

subsection \<open>Configuration and context\<close>

record config =
  traceRange :: "u32 \<times> u32"
  traceStores :: bool
  threadSafe :: bool
  optimizeInlines :: bool
  optimizeCallTable :: bool
  optimizePartialMemoryOps :: bool
  optimizePruneStackStores :: bool
  optimizeFunctionReturnArguments :: bool
  pruneUnusedFunctions :: bool
  classSizeLimit :: nat
  callTableHierarchy :: nat
  callTableClasses :: nat

definition new_Config :: config where
  "new_Config = \<lparr>traceRange = (0, 0), traceStores = False, threadSafe = False,
     optimizeInlines = True, optimizeCallTable = False, optimizePartialMemoryOps = False,
     optimizePruneStackStores = False, optimizeFunctionReturnArguments = False,
     pruneUnusedFunctions = True, classSizeLimit = 16384, callTableHierarchy = 1, callTableClasses = 1\<rparr>"

record jmeth =
  jm_address :: u32
  jm_size :: u32
  jm_name :: string
  jm_java_name :: string
  jm_multiple :: bool
  jm_bytecode_size :: nat
  jm_opcode_used :: "mips_opcode \<Rightarrow> bool"
  jm_registers_to_pass :: "MIPS_register list"
  jm_return_size :: nat
  jm_function_index :: "u32 \<Rightarrow> int"
  jm_return_locations :: "u32 list"

record syscall =
  sc_signature :: string
  sc_arguments :: nat
  sc_returns :: bool

text \<open>
  What a method registers for its exceptions: the handler of a \<open>try\<close> block, and that of a
  \<open>setjmp\<close> with the address to continue at.
\<close>

datatype handler =
  ExceptionHandler (h_start: u32) (h_end: u32) | SetjmpExceptionHandler (h_start: u32) (h_end: u32) (h_target: u32)

text \<open>A built-in function, as the calls to it see it; \<open>b_handlers\<close> is what compiling it at an address registers.\<close>

record builtin =
  b_emission :: "regalloc \<Rightarrow> u32 \<Rightarrow> emission"
  b_marks_target :: bool
  b_handlers :: "u32 \<Rightarrow> handler list"
  b_destinations :: "MIPS_register list"
  b_sources :: "MIPS_register list"

record jctx =
  c_alloc :: regalloc
  c_config :: config
  c_path :: string
  c_method :: "u32 \<Rightarrow> jmeth option"
  c_class :: "string \<Rightarrow> string option"
  c_call_table :: "jmeth option"
  c_instruction :: "u32 \<Rightarrow> u32 option"
  c_builtin :: "u32 \<Rightarrow> string \<Rightarrow> builtin option"
  c_syscall :: "u32 \<Rightarrow> syscall option"
  c_catch :: "u32 \<Rightarrow> (string list \<times> u32) option"

subsection \<open>Instructions\<close>

datatype arith_kind =
    Rfmt jinsn | Addu | Subu | Nor | ShiftInstruction jinsn | ShiftInstructionV jinsn
  | Ifmt jinsn | Addi | Lui | Slt | Sltu | Slti | Sltiu
  | MulDiv string | Mult | Div | Mfxx MIPS_register | Mtxx MIPS_register

datatype memory_kind =
    LoadXX string | StoreXX string | Lw | Lbu | Lb | Lhu | Lh | Sb | Sh | Sw | LWc1 | SWc1

datatype jump_kind =
    Jump_insn | Jal | Jalr | JalReturn | Jr
  | TwoRegisterConditionalJump jcond | OneRegisterConditionalJump jcond

datatype fpu_kind =
    CompFmtFloat string | CompFmtDouble string | Cvt_w | CmpFmtFloat string | CmpFmtDouble string

datatype insn_kind =
    Arith arith_kind | Memory memory_kind | Jumping jump_kind | Fpu fpu_kind
  | Nop | DelaySlotNop | SyscallInsn | SyscallRegisterArgument | CatchInsn

datatype insn = Insn
  (i_kind: insn_kind) (i_address: u32) (i_opcode: mips_opcode)
  (i_rs: MIPS_register) (i_rt: MIPS_register) (i_rd: MIPS_register) (i_extra: int)
  (i_delayed: "insn option") (i_prefix: "insn option") (i_branchTarget: bool)
  (i_using_hi: bool) (i_using_lo: bool)

text \<open>The constructor \<open>Instruction::Instruction\<close>; \<open>using_lo\<close> is initialised to \<open>0x123\<close> by \<open>MulDiv\<close>, which is true.\<close>

definition new_Instruction ::
    "insn_kind \<Rightarrow> u32 \<Rightarrow> mips_opcode \<Rightarrow> MIPS_register \<Rightarrow> MIPS_register \<Rightarrow> MIPS_register \<Rightarrow> int \<Rightarrow> insn" where
  "new_Instruction k address opc rs rt rd extra =
     Insn k address opc rs rt rd extra None None False False True"

primrec setBranchTarget :: "insn \<Rightarrow> insn" where
  "setBranchTarget (Insn k a opc rs rt rd e d p t hi lo) = Insn k a opc rs rt rd e d p True hi lo"

primrec setDelayed :: "insn option \<Rightarrow> insn \<Rightarrow> insn" where
  "setDelayed d' (Insn k a opc rs rt rd e d p t hi lo) = Insn k a opc rs rt rd e d' p t hi lo"

primrec setPrefix :: "insn option \<Rightarrow> insn \<Rightarrow> insn" where
  "setPrefix p' (Insn k a opc rs rt rd e d p t hi lo) = Insn k a opc rs rt rd e d p' t hi lo"

primrec set_using :: "bool \<Rightarrow> bool \<Rightarrow> insn \<Rightarrow> insn" where
  "set_using hi' lo' (Insn k a opc rs rt rd e d p t hi lo) = Insn k a opc rs rt rd e d p t hi' lo'"

definition hasDelayed :: "insn \<Rightarrow> bool" where
  "hasDelayed i \<longleftrightarrow> i_delayed i \<noteq> None"

definition hasPrefix :: "insn \<Rightarrow> bool" where
  "hasPrefix i \<longleftrightarrow> i_prefix i \<noteq> None"

subsection \<open>Register usage\<close>

type_synonym usage = "MIPS_register \<Rightarrow> int"

definition addToRegisterUsage :: "MIPS_register \<Rightarrow> usage \<Rightarrow> usage \<times> nat" where
  "addToRegisterUsage reg p = (if reg = R_ZERO then (p, 0) else (p(reg := p reg + 1), 1))"

text \<open>The sums \<open>addToRegisterUsage(a, p) + addToRegisterUsage(b, p) + ...\<close>.\<close>

primrec addAll :: "MIPS_register list \<Rightarrow> usage \<Rightarrow> usage \<times> nat" where
  "addAll [] p = (p, 0)"
| "addAll (r # rs) p =
     (let (p1, n1) = addToRegisterUsage r p; (p2, n2) = addAll rs p1 in (p2, n1 + n2))"

lemma addAll_count: "fst (addAll rs p) r = p r + (if r = 0 then 0 else int (count_list rs r))"
  by (induction rs arbitrary: p) (auto simp: addToRegisterUsage_def split_beta Let_def)

lemma addAll_number: "snd (addAll rs p) = length (filter (\<lambda>r. r \<noteq> 0) rs)"
  by (induction rs arbitrary: p) (auto simp: addToRegisterUsage_def split_beta Let_def)

subsection \<open>Classes\<close>

text \<open>
  A first pass returns the instruction, the addresses whose instructions become branch targets, and
  the boolean of \<open>pass1\<close>.  The passes get those of the delay slot instruction and of the prefix.
\<close>

type_synonym pass1_result = "string + insn \<times> u32 list \<times> bool"

record insn_class =
  isBranch :: bool
  isReturnJump :: "insn \<Rightarrow> bool"
  isRegisterIndirectJump :: "insn \<Rightarrow> bool"
  isNop :: bool
  isDelaySlotNop :: bool
  maxStackHeight :: "jctx \<Rightarrow> insn \<Rightarrow> nat option \<Rightarrow> nat"
  bytecodeSize :: nat
  pass1 :: "jctx \<Rightarrow> insn \<Rightarrow> pass1_result option \<Rightarrow> pass1_result"
  pass2 :: "jctx \<Rightarrow> insn \<Rightarrow> emission option \<Rightarrow> emission option \<Rightarrow> emission"
  destinations :: "jctx \<Rightarrow> insn \<Rightarrow> MIPS_register list"
  sources :: "jctx \<Rightarrow> insn \<Rightarrow> MIPS_register list"

definition pass1_true :: "jctx \<Rightarrow> insn \<Rightarrow> pass1_result option \<Rightarrow> pass1_result" where
  "pass1_true c i d = Inr (i, [], True)"

definition instruction_class :: insn_class where
  "instruction_class = \<lparr>
     isBranch = False, isReturnJump = (\<lambda>_. False), isRegisterIndirectJump = (\<lambda>_. False),
     isNop = False, isDelaySlotNop = False,
     maxStackHeight = (\<lambda>_ _ _. 2), bytecodeSize = 8,
     pass1 = pass1_true, pass2 = (\<lambda>_ _ _ _. lines []),
     destinations = (\<lambda>_ _. []), sources = (\<lambda>_ _. [])\<rparr>"

text \<open>\<open>if (this->delayed) this->delayed->pass2()\<close>, and the same for the prefix: the result is not used.\<close>

definition optional :: "emission option \<Rightarrow> emission" where
  "optional e = (case e of None \<Rightarrow> lines [] | Some e \<Rightarrow> map_sum id (\<lambda>(is, f). (is, True)) e)"

end
