(* ===== verification/InsnArith.thy ===== *)
theory InsnArith
  imports Insn
begin

text \<open>
  The instructions on registers: tools/translator/instructions/rfmt.cc, ifmt.cc, set.cc, muldiv.cc
  and nop.cc.  One definition per C++ class.
\<close>

subsection \<open>rfmt.cc\<close>

definition Rfmt_pass2 :: "jinsn \<Rightarrow> jctx \<Rightarrow> insn \<Rightarrow> emission" where
  "Rfmt_pass2 bc c i =
     seq [bc_pushregister (c_alloc c) (i_rs i), bc_pushregister (c_alloc c) (i_rt i), lines [bc],
          bc_popregister (c_alloc c) (i_rd i)]"

definition Rfmt_class :: "jinsn \<Rightarrow> insn_class" where
  "Rfmt_class bc = instruction_class\<lparr>
     pass2 := \<lambda>c i _ _. Rfmt_pass2 bc c i,
     destinations := \<lambda>_ i. [i_rd i],
     sources := \<lambda>_ i. [i_rs i, i_rt i]\<rparr>"

definition Addu_class :: insn_class where
  "Addu_class = (Rfmt_class Iadd)\<lparr>
     pass2 := \<lambda>c i _ _.
       if i_rt i = 0 \<and> i_rs i = 0 \<and> i_rd i = 0 then lines []
       else if i_rt i \<noteq> 0 \<and> i_rs i \<noteq> 0 then Rfmt_pass2 Iadd c i
       else if i_rt i = 0
       then seq [bc_pushregister (c_alloc c) (i_rs i), bc_popregister (c_alloc c) (i_rd i)]
       else if i_rs i = 0
       then seq [bc_pushregister (c_alloc c) (i_rt i), bc_popregister (c_alloc c) (i_rd i)]
       else panic ''Neither rt nor rs is 0 (should have been catched earlier))''\<rparr>"

definition Subu_class :: insn_class where
  "Subu_class = (Rfmt_class Isub)\<lparr>
     pass2 := \<lambda>c i _ _.
       if i_rs i = R_ZERO
       then seq [bc_pushregister (c_alloc c) (i_rt i), lines [Ineg], bc_popregister (c_alloc c) (i_rd i)]
       else Rfmt_pass2 Isub c i\<rparr>"

definition Nor_class :: insn_class where
  "Nor_class = (Rfmt_class (Generic []))\<lparr>
     pass2 := \<lambda>c i _ _. seq [
       if i_rs i \<noteq> R_ZERO \<or> i_rt i \<noteq> R_ZERO
       then seq [
         if i_rs i \<noteq> R_ZERO \<and> i_rt i \<noteq> R_ZERO
         then seq [bc_pushregister (c_alloc c) (i_rs i), bc_pushregister (c_alloc c) (i_rt i), lines [Ior]]
         else if i_rs i \<noteq> R_ZERO then bc_pushregister (c_alloc c) (i_rs i)
         else bc_pushregister (c_alloc c) (i_rt i),
         bc_pushconst (- 1), lines [Ixor]]
       else bc_pushconst (- 1),
       bc_popregister (c_alloc c) (i_rd i)]\<rparr>"

definition ShiftInstruction_class :: "jinsn \<Rightarrow> insn_class" where
  "ShiftInstruction_class bc = (Rfmt_class bc)\<lparr>
     pass2 := \<lambda>c i _ _.
       if i_rt i = 0 \<and> i_extra i = 0 \<and> i_rd i = 0 then lines []
       else seq [bc_pushregister (c_alloc c) (i_rt i), bc_pushconst (i_extra i), lines [bc],
                 bc_popregister (c_alloc c) (i_rd i)],
     sources := \<lambda>_ i. [i_rt i]\<rparr>"

definition ShiftInstructionV_class :: "jinsn \<Rightarrow> insn_class" where
  "ShiftInstructionV_class bc = (Rfmt_class bc)\<lparr>
     pass2 := \<lambda>c i _ _. seq [bc_pushregister (c_alloc c) (i_rt i), bc_pushregister (c_alloc c) (i_rs i),
                              lines [bc], bc_popregister (c_alloc c) (i_rd i)]\<rparr>"

subsection \<open>ifmt.cc\<close>

definition signext_16 :: "u32 \<Rightarrow> int" where
  "signext_16 v = sint (let out = take_bit 16 v in if bit out 15 then out OR 0xffff0000 else out)"

definition Ifmt_pass2 :: "jinsn \<Rightarrow> jctx \<Rightarrow> insn \<Rightarrow> emission" where
  "Ifmt_pass2 bc c i =
     seq [bc_pushregister (c_alloc c) (i_rs i), bc_pushconst (i_extra i), lines [bc],
          bc_popregister (c_alloc c) (i_rt i)]"

definition Ifmt_class :: "jinsn \<Rightarrow> insn_class" where
  "Ifmt_class bc = instruction_class\<lparr>
     pass2 := \<lambda>c i _ _. Ifmt_pass2 bc c i,
     destinations := \<lambda>_ i. [i_rt i],
     sources := \<lambda>_ i. [i_rs i]\<rparr>"

definition Addi_class :: insn_class where
  "Addi_class = (Ifmt_class Iadd)\<lparr>
     pass2 := \<lambda>c i _ _.
       let extra = signext_16 (of_int (i_extra i))
       in if i_rs i = R_ZERO
          then seq [bc_pushconst (i_extra i), bc_popregister (c_alloc c) (i_rt i)]
          else if i_rt i = i_rs i \<and> (-32768 \<le> extra \<and> extra \<le> 32767) \<and> \<not> regIsStatic (c_alloc c) (i_rt i)
          then bc_iinc (c_alloc c) (i_rt i) extra
          else Ifmt_pass2 Iadd c i\<rparr>"

text \<open>The constructor of \<open>Lui\<close> masks \<open>extra\<close>, which is done here where it is used.\<close>

definition Lui_class :: insn_class where
  "Lui_class = instruction_class\<lparr>
     pass2 := \<lambda>c i _ _.
       let v = of_int (i_extra i) AND 0xffff :: u32
       in seq [bc_pushconst_u (push_bit 16 v), bc_popregister (c_alloc c) (i_rt i)],
     destinations := \<lambda>_ i. [i_rt i]\<rparr>"

subsection \<open>set.cc\<close>

text \<open>
  The comparisons leave \<open>lcmp\<close> of the right operand and the left one, -1, 0 or 1, add 1 and
  shift the result right by one bit.
\<close>

definition set_result :: emission where
  "set_result = seq [lines [Lcmp], bc_pushconst 1, lines [Iadd], bc_pushconst 1, lines [Ishr]]"

definition TwoRegisterSetInstruction_class :: "string \<Rightarrow> insn_class" where
  "TwoRegisterSetInstruction_class bc = (Rfmt_class (Generic []))\<lparr>
     pass2 := \<lambda>c i _ _. seq [
       if i_rs i = R_ZERO
       then seq [bc_pushconst 1, bc_pushregister (c_alloc c) (i_rt i),
                 lines [Condbranch Ifne (Lbl (''L_tmp_'' @ hex (i_address i)))],
                 lines [Pop], bc_pushconst 0,
                 lines [Label (Lbl (''L_tmp_'' @ hex (i_address i)))]]
       else seq [bc_pushregister (c_alloc c) (i_rs i), bc_pushregister (c_alloc c) (i_rt i),
                 lines [Invokestatic (CRunTime bc ''(II)I'')]],
       bc_popregister (c_alloc c) (i_rd i)]\<rparr>"

definition Slt_class :: insn_class where
  "Slt_class = (TwoRegisterSetInstruction_class [])\<lparr>
     pass2 := \<lambda>c i _ _. seq [
       bc_pushregister (c_alloc c) (i_rt i), lines [I2l],
       bc_pushregister (c_alloc c) (i_rs i), lines [I2l],
       set_result, bc_popregister (c_alloc c) (i_rd i)]\<rparr>"

definition Sltu_class :: insn_class where
  "Sltu_class = (TwoRegisterSetInstruction_class [])\<lparr>
     pass2 := \<lambda>c i _ _. seq [
       bc_pushregister (c_alloc c) (i_rt i), lines [I2l], bc_pushconst_l 0xFFFFFFFF, lines [Land],
       bc_pushregister (c_alloc c) (i_rs i), lines [I2l], bc_pushconst_l 0xFFFFFFFF, lines [Land],
       set_result, bc_popregister (c_alloc c) (i_rd i)],
     maxStackHeight := \<lambda>_ _ _. 6\<rparr>"

definition OneRegisterSetInstruction_class :: "string \<Rightarrow> insn_class" where
  "OneRegisterSetInstruction_class bc = instruction_class\<lparr>
     pass2 := \<lambda>c i _ _. seq [
       bc_pushregister (c_alloc c) (i_rs i), bc_pushconst (i_extra i),
       lines [Invokestatic (CRunTime bc ''(II)I'')], bc_popregister (c_alloc c) (i_rt i)],
     destinations := \<lambda>_ i. [i_rt i],
     sources := \<lambda>_ i. [i_rs i]\<rparr>"

definition Slti_class :: insn_class where
  "Slti_class = (OneRegisterSetInstruction_class [])\<lparr>
     pass2 := \<lambda>c i _ _. seq [
       bc_pushconst (i_extra i), lines [I2l],
       bc_pushregister (c_alloc c) (i_rs i), lines [I2l],
       set_result, bc_popregister (c_alloc c) (i_rt i)]\<rparr>"

definition Sltiu_class :: insn_class where
  "Sltiu_class = (OneRegisterSetInstruction_class [])\<lparr>
     pass2 := \<lambda>c i _ _. seq [
       bc_pushconst_l (ucast (of_int (i_extra i) :: u32)),
       bc_pushregister (c_alloc c) (i_rs i), lines [I2l], bc_pushconst_l 0xFFFFFFFF, lines [Land],
       set_result, bc_popregister (c_alloc c) (i_rt i)],
     maxStackHeight := \<lambda>_ _ _. 6\<rparr>"

subsection \<open>muldiv.cc\<close>

text \<open>The 64-bit value on the stack goes to \<open>HI\<close> and \<open>LO\<close>.\<close>

definition pop_hi_lo :: "jctx \<Rightarrow> emission" where
  "pop_hi_lo c = seq [lines [Dup2], bc_pushconst 32, lines [Lushr], lines [L2i],
     bc_popregister (c_alloc c) R_HI, lines [L2i], bc_popregister (c_alloc c) R_LO]"

definition MulDiv_class :: "string \<Rightarrow> insn_class" where
  "MulDiv_class bc = instruction_class\<lparr>
     pass1 := \<lambda>c i _. (case c_method c (i_address i) of
         None \<Rightarrow> Inl ''The mul/div instruction has no method''
       | Some my \<Rightarrow> Inr (set_using
           (i_using_hi i \<or> jm_opcode_used my OP_MFHI \<or> jm_opcode_used my OP_MTHI)
           (i_using_lo i \<or> jm_opcode_used my OP_MFLO \<or> jm_opcode_used my OP_MTLO) i, [], True)),
     pass2 := \<lambda>c i _ _. seq [
       bc_pushregister (c_alloc c) (i_rs i), bc_pushregister (c_alloc c) (i_rt i),
       lines [Invokestatic (CRunTime bc ''(II)J'')], pop_hi_lo c],
     destinations := \<lambda>_ _. [R_LO, R_HI],
     sources := \<lambda>_ i. [i_rs i, i_rt i],
     maxStackHeight := \<lambda>_ _ _. 6\<rparr>"

definition Mult_class :: insn_class where
  "Mult_class = (MulDiv_class [])\<lparr>
     pass2 := \<lambda>c i _ _.
       if i_using_lo i \<and> \<not> i_using_hi i
       then seq [bc_pushregister (c_alloc c) (i_rs i), bc_pushregister (c_alloc c) (i_rt i),
                 lines [Imul], bc_popregister (c_alloc c) R_LO]
       else seq [bc_pushregister (c_alloc c) (i_rs i), lines [I2l],
                 bc_pushregister (c_alloc c) (i_rt i), lines [I2l], lines [Lmul], pop_hi_lo c],
     destinations := \<lambda>_ i. if i_using_lo i \<and> \<not> i_using_hi i then [R_LO] else [R_LO, R_HI]\<rparr>"

definition Div_class :: insn_class where
  "Div_class = (MulDiv_class [])\<lparr>
     pass2 := \<lambda>c i _ _.
       if i_using_lo i \<and> \<not> i_using_hi i
       then seq [bc_pushregister (c_alloc c) (i_rs i), bc_pushregister (c_alloc c) (i_rt i),
                 lines [Idiv], bc_popregister (c_alloc c) R_LO]
       else if \<not> i_using_lo i \<and> i_using_hi i
       then seq [bc_pushregister (c_alloc c) (i_rs i), bc_pushregister (c_alloc c) (i_rt i),
                 lines [Irem], bc_popregister (c_alloc c) R_HI]
       else seq [bc_pushregister (c_alloc c) (i_rs i), bc_pushregister (c_alloc c) (i_rt i),
                 lines [Dup2], lines [Idiv], bc_popregister (c_alloc c) R_LO,
                 lines [Irem], bc_popregister (c_alloc c) R_HI],
     destinations := \<lambda>_ i. (if i_using_lo i then [R_LO] else []) @ (if i_using_hi i then [R_HI] else [])\<rparr>"

definition Mfxx_class :: "MIPS_register \<Rightarrow> insn_class" where
  "Mfxx_class src = instruction_class\<lparr>
     pass2 := \<lambda>c i _ _. seq [bc_pushregister (c_alloc c) src, bc_popregister (c_alloc c) (i_rd i)],
     destinations := \<lambda>_ i. [i_rd i],
     sources := \<lambda>_ _. [src]\<rparr>"

text \<open>The destination of \<open>Mtxx\<close> is counted as a source, and \<open>rd\<close>, which is \<open>R_ZERO\<close>, as the destination.\<close>

definition Mtxx_class :: "MIPS_register \<Rightarrow> insn_class" where
  "Mtxx_class dst = instruction_class\<lparr>
     pass2 := \<lambda>c i _ _. seq [bc_pushregister (c_alloc c) (i_rs i), bc_popregister (c_alloc c) dst],
     destinations := \<lambda>_ i. [i_rd i],
     sources := \<lambda>_ _. [dst]\<rparr>"

subsection \<open>nop.cc\<close>

definition Nop_class :: insn_class where
  "Nop_class = instruction_class\<lparr>isNop := True, pass2 := \<lambda>_ _ _ _. lines []\<rparr>"

definition DelaySlotNop_class :: insn_class where
  "DelaySlotNop_class = Nop_class\<lparr>isDelaySlotNop := True\<rparr>"

subsection \<open>The class of each kind\<close>

primrec arith_class :: "arith_kind \<Rightarrow> insn_class" where
  "arith_class (Rfmt bc) = Rfmt_class bc"
| "arith_class Addu = Addu_class"
| "arith_class Subu = Subu_class"
| "arith_class Nor = Nor_class"
| "arith_class (ShiftInstruction bc) = ShiftInstruction_class bc"
| "arith_class (ShiftInstructionV bc) = ShiftInstructionV_class bc"
| "arith_class (Ifmt bc) = Ifmt_class bc"
| "arith_class Addi = Addi_class"
| "arith_class Lui = Lui_class"
| "arith_class Slt = Slt_class"
| "arith_class Sltu = Sltu_class"
| "arith_class Slti = Slti_class"
| "arith_class Sltiu = Sltiu_class"
| "arith_class (MulDiv bc) = MulDiv_class bc"
| "arith_class Mult = Mult_class"
| "arith_class Div = Div_class"
| "arith_class (Mfxx src) = Mfxx_class src"
| "arith_class (Mtxx dst) = Mtxx_class dst"

end
