(* ===== verification/InsnMemory.thy ===== *)
theory InsnMemory
  imports Insn
begin

text \<open>
  Loads and stores: tools/translator/instructions/memory.cc.  A word access indexes
  \<open>CRunTime.memory\<close>; a byte or halfword access shifts and masks the word that holds it, inline,
  or calls \<open>CRunTime\<close> when the method is too large or inlining is off.  The field
  \<open>method\<close>, which \<open>pass1\<close> looks up, is the method at the instruction's address.  The warning
  about large methods, which a static variable keeps from being repeated, is written each time.
\<close>

definition MemoryXX_class :: insn_class where
  "MemoryXX_class = instruction_class\<lparr>
     pass1 := \<lambda>c i _. (case c_method c (i_address i) of
         None \<Rightarrow> Inl ''No method for instruction'' | Some _ \<Rightarrow> Inr (i, [], True)),
     maxStackHeight := \<lambda>_ _ _. 3\<rparr>"

text \<open>\<open>this->rt == R_RA && !this->method->hasMultipleFunctions()\<close>.\<close>

definition skips_ra :: "jctx \<Rightarrow> insn \<Rightarrow> bool" where
  "skips_ra c i \<longleftrightarrow> i_rt i = R_RA \<and>
     (case c_method c (i_address i) of None \<Rightarrow> False | Some m \<Rightarrow> \<not> jm_multiple m)"

subsection \<open>The general load and store\<close>

definition LoadXX_pass2 :: "string \<Rightarrow> jctx \<Rightarrow> insn \<Rightarrow> emission" where
  "LoadXX_pass2 bc c i =
     seq [bc_pushaddress (c_alloc c) (i_rs i) (i_extra i),
          if optimizePartialMemoryOps (c_config c) \<and> i_opcode i \<noteq> OP_LWL \<and> i_opcode i \<noteq> OP_LWR
          then lines [Jsr (Lbl (''__CIBYL_memoryRead'' @ bc))]
          else lines [Invokestatic (CRunTime (''memoryRead'' @ bc) ''(I)I'')],
          bc_popregister (c_alloc c) (i_rt i)]"

definition LoadXX_class :: "string \<Rightarrow> insn_class" where
  "LoadXX_class bc = MemoryXX_class\<lparr>
     pass2 := \<lambda>c i _ _. LoadXX_pass2 bc c i,
     destinations := \<lambda>c i. if optimizePartialMemoryOps (c_config c) then [i_rt i, R_MADR] else [i_rt i],
     sources := \<lambda>_ i. [i_rs i, R_MEM],
     bytecodeSize := 13\<rparr>"

definition traceStore :: "string \<Rightarrow> jctx \<Rightarrow> insn \<Rightarrow> emission" where
  "traceStore bc c i =
     seq [bc_pushconst (sint (i_address i)), bc_pushaddress (c_alloc c) (i_rs i) (i_extra i),
          bc_pushregister (c_alloc c) (i_rt i),
          lines [Invokestatic (CRunTime (''memoryWrite'' @ bc @ ''Pc'') ''(III)V'')]]"

definition StoreXX_pass2 :: "string \<Rightarrow> jctx \<Rightarrow> insn \<Rightarrow> emission" where
  "StoreXX_pass2 bc c i =
     seq [emit_if (traceStores (c_config c)) (traceStore bc c i),
          bc_pushaddress (c_alloc c) (i_rs i) (i_extra i), bc_pushregister (c_alloc c) (i_rt i),
          lines [Invokestatic (CRunTime (''memoryWrite'' @ bc) ''(II)V'')]]"

definition StoreXX_class :: "string \<Rightarrow> insn_class" where
  "StoreXX_class bc = MemoryXX_class\<lparr>
     pass2 := \<lambda>c i _ _. StoreXX_pass2 bc c i,
     sources := \<lambda>_ i. [i_rs i, i_rt i, R_MEM]\<rparr>"

definition LoadXXSigned_class :: "string \<Rightarrow> jinsn \<Rightarrow> insn_class" where
  "LoadXXSigned_class bc conv = (LoadXX_class bc)\<lparr>
     pass2 := \<lambda>c i _ _. seq [
       bc_pushaddress (c_alloc c) (i_rs i) (i_extra i),
       lines [Invokestatic (CRunTime (''memoryRead'' @ bc) ''(I)I'')],
       lines [conv], bc_popregister (c_alloc c) (i_rt i)]\<rparr>"

subsection \<open>Words\<close>

definition Lw_class :: insn_class where
  "Lw_class = (LoadXX_class [])\<lparr>
     pass2 := \<lambda>c i _ p.
       if skips_ra c i then lines []
       else seq [optional p, bc_pushregister (c_alloc c) R_MEM,
                 bc_pushindex (c_alloc c) (i_rs i) (i_extra i), lines [Iaload],
                 bc_popregister (c_alloc c) (i_rt i)],
     bytecodeSize := 11\<rparr>"

definition Sw_class :: insn_class where
  "Sw_class = (StoreXX_class ''Word'')\<lparr>
     pass2 := \<lambda>c i _ p.
       if skips_ra c i then lines []
       else seq [emit_if (traceStores (c_config c)) (traceStore ''Word'' c i),
                 optional p, bc_pushregister (c_alloc c) R_MEM,
                 bc_pushindex (c_alloc c) (i_rs i) (i_extra i), bc_pushregister (c_alloc c) (i_rt i),
                 lines [Iastore]],
     bytecodeSize := 11\<rparr>"

subsection \<open>Bytes and halfwords\<close>

definition b_v :: "nat \<Rightarrow> int" where
  "b_v word_size = (if word_size = 16 then 2 else 3)"

definition mask_val :: "nat \<Rightarrow> int" where
  "mask_val word_size = (if word_size = 16 then 0xffff else 0xff)"

text \<open>Pushes the shift count \<open>(b_v - (address & b_v)) << 3\<close>.\<close>

definition push_shift :: "nat \<Rightarrow> jctx \<Rightarrow> insn \<Rightarrow> emission" where
  "push_shift word_size c i =
     seq [bc_pushconst (b_v word_size), bc_pushregister (c_alloc c) (i_rs i),
          emit_if (i_extra i \<noteq> 0) (seq [bc_pushconst (i_extra i), lines [Iadd]]),
          bc_pushconst (b_v word_size), lines [Iand], lines [Isub], bc_pushconst 3, lines [Ishl]]"

definition PartialLoad_pass2 :: "nat \<Rightarrow> bool \<Rightarrow> string \<Rightarrow> jctx \<Rightarrow> insn \<Rightarrow> emission option \<Rightarrow> emission" where
  "PartialLoad_pass2 word_size is_signed bc c i p =
     (case c_method c (i_address i) of
        None \<Rightarrow> panic ''No method for instruction''
      | Some mt \<Rightarrow>
          if optimizePartialMemoryOps (c_config c) \<or> \<not> optimizeInlines (c_config c)
          then LoadXX_pass2 bc c i
          else if jm_bytecode_size mt > 32768
          then seq [lines [Warning ''Bytecode size too large for inlining of lb/lh''], LoadXX_pass2 bc c i]
          else if skips_ra c i then lines []
          else seq [optional p, bc_pushregister (c_alloc c) R_MEM,
                    bc_pushindex (c_alloc c) (i_rs i) (i_extra i), lines [Iaload],
                    push_shift word_size c i, lines [Iushr],
                    if word_size = 8 \<and> is_signed then lines [I2b]
                    else if word_size = 16 \<and> \<not> is_signed then lines [I2c]
                    else if word_size = 16 \<and> is_signed then lines [I2s]
                    else seq [bc_pushconst (mask_val word_size), lines [Iand]],
                    bc_popregister (c_alloc c) (i_rt i)])"

definition PartialLoad_class :: "nat \<Rightarrow> bool \<Rightarrow> string \<Rightarrow> insn_class" where
  "PartialLoad_class word_size is_signed bc = (LoadXX_class bc)\<lparr>
     pass2 := \<lambda>c i _ p. PartialLoad_pass2 word_size is_signed bc c i p,
     bytecodeSize := 24,
     maxStackHeight := \<lambda>_ _ _. 5\<rparr>"

definition PartialStore_pass2 :: "nat \<Rightarrow> string \<Rightarrow> jctx \<Rightarrow> insn \<Rightarrow> emission option \<Rightarrow> emission" where
  "PartialStore_pass2 word_size bc c i p =
     (case c_method c (i_address i) of
        None \<Rightarrow> panic ''No method for instruction''
      | Some mt \<Rightarrow>
          if optimizePartialMemoryOps (c_config c) \<or> \<not> optimizeInlines (c_config c)
          then StoreXX_pass2 bc c i
          else if jm_bytecode_size mt > 32768
          then seq [lines [Warning ''Bytecode size too large for inlining of sb/sh''], StoreXX_pass2 bc c i]
          else if skips_ra c i then lines []
          else seq [optional p, bc_pushregister (c_alloc c) R_MEM,
                    bc_pushindex (c_alloc c) (i_rs i) (i_extra i), lines [Dup2], lines [Iaload],
                    bc_pushconst (mask_val word_size), push_shift word_size c i, lines [Dup_x2],
                    lines [Ishl], bc_pushconst (- 1), lines [Ixor], lines [Iand], lines [Swap],
                    bc_pushregister (c_alloc c) (i_rt i), bc_pushconst (mask_val word_size), lines [Iand],
                    lines [Swap], lines [Ishl], lines [Ior], lines [Iastore]])"

definition PartialStore_class :: "nat \<Rightarrow> string \<Rightarrow> insn_class" where
  "PartialStore_class word_size bc = (StoreXX_class bc)\<lparr>
     pass2 := \<lambda>c i _ p. PartialStore_pass2 word_size bc c i p,
     bytecodeSize := 32,
     maxStackHeight := \<lambda>_ _ _. 8\<rparr>"

definition Lbu_class :: insn_class where "Lbu_class = PartialLoad_class 8 False ''ByteUnsigned''"
definition Lb_class :: insn_class where "Lb_class = PartialLoad_class 8 True ''Byte''"
definition Lhu_class :: insn_class where "Lhu_class = PartialLoad_class 16 False ''ShortUnsigned''"
definition Lh_class :: insn_class where "Lh_class = PartialLoad_class 16 True ''Short''"
definition Sb_class :: insn_class where "Sb_class = PartialStore_class 8 ''Byte''"
definition Sh_class :: insn_class where "Sh_class = PartialStore_class 16 ''Short''"

subsection \<open>Floating-point loads and stores\<close>

text \<open>Their constructors panic on a register that is not a floating-point one; \<open>pass2\<close> is not written yet.\<close>

definition LWc1_class :: insn_class where
  "LWc1_class = (LoadXX_class [])\<lparr>
     pass2 := \<lambda>_ _ _ _. lines [Warning ''Instruction LWc1 not yet implemented'']\<rparr>"

definition SWc1_class :: insn_class where
  "SWc1_class = (StoreXX_class [])\<lparr>
     pass2 := \<lambda>_ _ _ _. lines [Warning ''Instruction SWc1 not yet implemented'']\<rparr>"

primrec memory_class :: "memory_kind \<Rightarrow> insn_class" where
  "memory_class (LoadXX bc) = LoadXX_class bc"
| "memory_class (StoreXX bc) = StoreXX_class bc"
| "memory_class Lw = Lw_class"
| "memory_class Lbu = Lbu_class"
| "memory_class Lb = Lb_class"
| "memory_class Lhu = Lhu_class"
| "memory_class Lh = Lh_class"
| "memory_class Sb = Sb_class"
| "memory_class Sh = Sh_class"
| "memory_class Sw = Sw_class"
| "memory_class LWc1 = LWc1_class"
| "memory_class SWc1 = SWc1_class"

end
