(* ===== verification/InsnJump.thy ===== *)
theory InsnJump
  imports Insn
begin

text \<open>
  Branches and calls: tools/translator/instructions/jfmt.cc, syscall.cc and catch.cc.  The
  instruction in the delay slot is compiled between the operands of the branch and the branch.  The
  fields that \<open>pass1\<close> of a call looks up (\<open>method\<close>, \<open>dstMethod\<close>, \<open>dstClass\<close>,
  \<open>builtin\<close>) are the lookups themselves.  \<open>Inl ''segmentation fault''\<close> is a null pointer
  dereferenced.
\<close>

unbundle bit_operations_syntax

subsection \<open>Branches\<close>

definition jump_target :: "insn \<Rightarrow> u32" where
  "jump_target i = push_bit 2 (of_int (i_extra i))"

definition branch_target :: "insn \<Rightarrow> u32" where
  "branch_target i = (i_address i + 4) + push_bit 2 (of_int (i_extra i))"

text \<open>\<open>if (this->delayed) this->delayed->pass1()\<close>; its branch targets are marked too.\<close>

definition pass1_delayed :: "insn \<Rightarrow> pass1_result option \<Rightarrow> string + insn \<times> u32 list" where
  "pass1_delayed i d = (case d of None \<Rightarrow> Inr (i, [])
     | Some (Inl msg) \<Rightarrow> Inl msg | Some (Inr (d', marks, _)) \<Rightarrow> Inr (setDelayed (Some d') i, marks))"

text \<open>
  \<open>3 + this->delayed ? this->delayed->getMaxStackHeight() : 0\<close> parses as
  \<open>(3 + this->delayed) ? ... : 0\<close>: the height of the delay slot instruction, without the 3.
\<close>

definition BranchInstruction_class :: insn_class where
  "BranchInstruction_class = instruction_class\<lparr>
     isBranch := True,
     pass1 := \<lambda>c i d. map_sum id (\<lambda>(i, marks). (i, marks, True)) (pass1_delayed i d),
     maxStackHeight := \<lambda>_ _ d. (case d of None \<Rightarrow> 0 | Some h \<Rightarrow> h)\<rparr>"

definition Jump_class :: insn_class where
  "Jump_class = BranchInstruction_class\<lparr>
     pass1 := \<lambda>c i d. (case pass1_delayed i d of Inl msg \<Rightarrow> Inl msg
       | Inr (i, marks) \<Rightarrow> (case c_instruction c (jump_target i) of
           None \<Rightarrow> Inl ''segmentation fault'' | Some a \<Rightarrow> Inr (i, marks @ [a], True))),
     pass2 := \<lambda>c i d _. seq [optional d, case c_instruction c (jump_target i) of
         None \<Rightarrow> failing [Error ''Jump: target not found'']
       | Some a \<Rightarrow> lines [Goto (L_addr a)]]\<rparr>"

subsection \<open>Calls\<close>

definition Jal_method :: "jctx \<Rightarrow> insn \<Rightarrow> jmeth option" where
  "Jal_method c i = (if i_kind i = Jumping Jalr then None else c_method c (i_address i))"

definition Jal_dstMethod :: "jctx \<Rightarrow> insn \<Rightarrow> jmeth option" where
  "Jal_dstMethod c i = (if i_kind i = Jumping Jalr then c_call_table c else c_method c (jump_target i))"

definition Jal_builtin :: "jctx \<Rightarrow> insn \<Rightarrow> builtin option" where
  "Jal_builtin c i = (if i_kind i = Jumping Jalr then None
     else case Jal_dstMethod c i of None \<Rightarrow> None | Some m \<Rightarrow> c_builtin c (i_address i) (jm_name m))"

text \<open>The method calls itself: \<open>this->method == this->dstMethod\<close> and it has several functions.\<close>

definition Jal_local :: "jctx \<Rightarrow> insn \<Rightarrow> bool" where
  "Jal_local c i \<longleftrightarrow> (case (Jal_method c i, Jal_dstMethod c i) of
     (Some m, Some d) \<Rightarrow> jm_multiple m \<and> jm_address m = jm_address d | _ \<Rightarrow> False)"

definition Jal_pass1 :: "jctx \<Rightarrow> insn \<Rightarrow> pass1_result option \<Rightarrow> pass1_result" where
  "Jal_pass1 c i d =
     (if Jal_method c i = None then Inl ''No method found for jal''
      else case Jal_dstMethod c i of None \<Rightarrow> Inl ''No method found for jal to target''
      | Some m \<Rightarrow>
          if c_class c (jm_name m) = None then Inl ''No class found for method''
          else case pass1_delayed i d of Inl msg \<Rightarrow> Inl msg
          | Inr (i, marks) \<Rightarrow> (case Jal_builtin c i of
              None \<Rightarrow> Inr (i, marks, True)
            | Some b \<Rightarrow> Inr (if b_marks_target b then setBranchTarget i else i, marks, True)))"

text \<open>The argument registers, and the function index of a method with several functions.\<close>

definition push_argument :: "jctx \<Rightarrow> jmeth \<Rightarrow> u32 \<Rightarrow> MIPS_register \<Rightarrow> emission" where
  "push_argument c m dst reg =
     (if reg = R_FNA
      then panic_if (jm_function_index m dst < 0) ''Method has no function for address''
             (bc_pushconst (jm_function_index m dst))
      else bc_pushregister (c_alloc c) reg)"

text \<open>What the caller does with the result, by its size in words.\<close>

definition pop_result :: "jctx \<Rightarrow> nat \<Rightarrow> emission" where
  "pop_result c n =
     (if threadSafe (c_config c)
      then if n = 2
        then seq [lines [Dup2], bc_pushconst 32, lines [Lushr], lines [L2i], bc_popregister (c_alloc c) R_V1,
                  lines [L2i], bc_popregister (c_alloc c) R_V0]
        else if n = 1 then bc_popregister (c_alloc c) R_V0 else lines []
      else if n = 2
        then seq [lines [Getstatic ''CRunTime/saved_v1 I''], bc_popregister (c_alloc c) R_V1,
                  bc_popregister (c_alloc c) R_V0]
        else if n = 1 then bc_popregister (c_alloc c) R_V0 else lines [])"

definition Jal_call :: "jctx \<Rightarrow> insn \<Rightarrow> emission" where
  "Jal_call c i =
     (case Jal_dstMethod c i of None \<Rightarrow> Inl ''segmentation fault''
      | Some m \<Rightarrow>
          (if i_opcode i = OP_JAL \<and> Jal_local c i
           then seq [bc_pushconst (int (length (jm_return_locations m))), bc_popregister (c_alloc c) R_RA,
                     lines [Goto (L_addr (jump_target i))]]
           else case c_class c (jm_name m) of None \<Rightarrow> Inl ''segmentation fault''
           | Some cl \<Rightarrow>
               seq [seq (map (push_argument c m (jump_target i)) (jm_registers_to_pass m)),
                    lines [Invokestatic (Method (c_path c @ cl @ ''/'') (jm_java_name m))],
                    pop_result c (jm_return_size m)]))"

definition Jal_pass2 :: "jctx \<Rightarrow> insn \<Rightarrow> emission option \<Rightarrow> emission" where
  "Jal_pass2 c i d =
     seq [optional d, case Jal_builtin c i of Some b \<Rightarrow> b_emission b (c_alloc c) (i_address i) | None \<Rightarrow> Jal_call c i]"

text \<open>The return location that compiling the call adds to the method.\<close>

definition Jal_return_location :: "jctx \<Rightarrow> insn \<Rightarrow> u32 list" where
  "Jal_return_location c i =
     (if Jal_builtin c i = None \<and> i_opcode i = OP_JAL \<and> Jal_local c i then [i_address i + 8] else [])"

definition Jal_class :: insn_class where
  "Jal_class = BranchInstruction_class\<lparr>
     pass1 := Jal_pass1,
     pass2 := \<lambda>c i d _. Jal_pass2 c i d,
     destinations := \<lambda>c i. [R_V0, R_V1] @
       (case Jal_builtin c i of None \<Rightarrow> [] | Some b \<Rightarrow> b_destinations b) @
       (if Jal_local c i then [R_RA] else []),
     sources := \<lambda>c i. [i_rs i, R_A0, R_A1, R_A2, R_A3, R_SP] @
       (case Jal_builtin c i of None \<Rightarrow> [] | Some b \<Rightarrow> b_sources b),
     maxStackHeight := \<lambda>_ _ _. 6\<rparr>"

definition Jalr_class :: insn_class where
  "Jalr_class = Jal_class\<lparr>
     pass1 := \<lambda>c i d. (case c_call_table c of None \<Rightarrow> Inl ''No method found for jalr''
       | Some m \<Rightarrow> if c_class c (jm_name m) = None then Inl ''No class found for method''
           else map_sum id (\<lambda>(i, marks). (i, marks, True)) (pass1_delayed i d)),
     pass2 := \<lambda>c i d _. seq [bc_pushregister (c_alloc c) (i_rs i), Jal_pass2 c i d]\<rparr>"

text \<open>A jump to another method, as a tail call makes it, is compiled to a call and a return.\<close>

definition JalReturn_class :: insn_class where
  "JalReturn_class = Jal_class\<lparr>
     pass2 := \<lambda>c i d _. seq [Jal_pass2 c i d, lines [Goto (Lbl ''__CIBYL_function_return'')]]\<rparr>"

definition Jr_class :: insn_class where
  "Jr_class = BranchInstruction_class\<lparr>
     isRegisterIndirectJump := \<lambda>i. i_rs i \<noteq> R_RA,
     isReturnJump := \<lambda>i. i_rs i = R_RA,
     sources := \<lambda>_ i. [i_rs i],
     pass2 := \<lambda>c i d _.
       if i_rs i = R_RA
       then seq [optional d, lines [Goto (Lbl ''__CIBYL_function_return'')]]
       else seq [bc_pushregister (c_alloc c) (i_rs i), optional d, lines [Goto (Lbl ''__CIBYL_local_jumptab'')]]\<rparr>"

subsection \<open>Conditional branches\<close>

definition conditional_pass1 :: "jctx \<Rightarrow> insn \<Rightarrow> pass1_result option \<Rightarrow> pass1_result" where
  "conditional_pass1 c i d =
     (case c_instruction c (branch_target i) of None \<Rightarrow> Inl ''segmentation fault''
      | Some a \<Rightarrow> (case pass1_delayed i d of Inl msg \<Rightarrow> Inl msg
        | Inr (i, marks) \<Rightarrow>
            if map_option jm_address (c_method c (i_address i)) \<noteq> map_option jm_address (c_method c a)
            then Inr (i, marks, False)
            else Inr (i, marks @ [a], True)))"

definition TwoRegisterConditionalJump_class :: "jcond \<Rightarrow> insn_class" where
  "TwoRegisterConditionalJump_class bc = BranchInstruction_class\<lparr>
     sources := \<lambda>_ i. [i_rs i, i_rt i],
     pass1 := conditional_pass1,
     pass2 := \<lambda>c i d _. seq [
       bc_pushregister (c_alloc c) (i_rs i), bc_pushregister (c_alloc c) (i_rt i),
       optional d, lines [Condbranch bc (L_addr (branch_target i))]],
     maxStackHeight := \<lambda>_ _ d. (case d of None \<Rightarrow> 0 | Some h \<Rightarrow> h)\<rparr>"

definition OneRegisterConditionalJump_class :: "jcond \<Rightarrow> insn_class" where
  "OneRegisterConditionalJump_class bc = BranchInstruction_class\<lparr>
     sources := \<lambda>_ i. [i_rs i],
     pass1 := conditional_pass1,
     pass2 := \<lambda>c i d _. seq [
       bc_pushregister (c_alloc c) (i_rs i),
       optional d, lines [Condbranch bc (L_addr (branch_target i))]],
     maxStackHeight := \<lambda>_ _ d. (case d of None \<Rightarrow> 0 | Some h \<Rightarrow> h)\<rparr>"

primrec jump_class :: "jump_kind \<Rightarrow> insn_class" where
  "jump_class Jump_insn = Jump_class"
| "jump_class Jal = Jal_class"
| "jump_class Jalr = Jalr_class"
| "jump_class JalReturn = JalReturn_class"
| "jump_class Jr = Jr_class"
| "jump_class (TwoRegisterConditionalJump bc) = TwoRegisterConditionalJump_class bc"
| "jump_class (OneRegisterConditionalJump bc) = OneRegisterConditionalJump_class bc"

subsection \<open>Calls of Java functions (syscall.cc)\<close>

text \<open>The constructor \<open>Syscall::Syscall\<close>; \<open>returnValue\<close> is \<open>I\<close> or \<open>V\<close>.\<close>

definition new_Syscall :: "string \<Rightarrow> string \<Rightarrow> nat \<Rightarrow> char \<Rightarrow> syscall" where
  "new_Syscall path name nrArguments returnValue = \<lparr>
     sc_signature = path @ ''Syscalls/'' @ name @ ''('' @ replicate nrArguments (CHR ''I'') @ '')'' @ [returnValue],
     sc_arguments = nrArguments, sc_returns = (returnValue \<noteq> CHR ''V'')\<rparr>"

definition SyscallInsn_class :: insn_class where
  "SyscallInsn_class = instruction_class\<lparr>
     pass1 := \<lambda>c i _. (case c_syscall c (of_int (i_extra i)) of
         None \<Rightarrow> Inl ''No syscall'' | Some _ \<Rightarrow> Inr (i, [], True)),
     pass2 := \<lambda>c i _ _. (case c_syscall c (of_int (i_extra i)) of
         None \<Rightarrow> Inl ''segmentation fault''
       | Some s \<Rightarrow> seq [lines [Invokestatic (Method [] (sc_signature s))],
                         emit_if (sc_returns s) (bc_popregister (c_alloc c) R_V0)]),
     destinations := \<lambda>c i. (case c_syscall c (of_int (i_extra i)) of
         Some s \<Rightarrow> if sc_returns s then [R_V0] else [] | None \<Rightarrow> []),
     maxStackHeight := \<lambda>c i _. (case c_syscall c (of_int (i_extra i)) of
         Some s \<Rightarrow> max (sc_arguments s) 1 | None \<Rightarrow> 1)\<rparr>"

definition SyscallRegisterArgument_class :: insn_class where
  "SyscallRegisterArgument_class = instruction_class\<lparr>
     pass2 := \<lambda>c i _ _. bc_pushregister (c_alloc c) (nat (i_extra i)),
     sources := \<lambda>_ i. [nat (i_extra i)],
     maxStackHeight := \<lambda>_ _ _. 1\<rparr>"

subsection \<open>Exception handlers (catch.cc)\<close>

text \<open>The exception classes and the address of the matching \<open>try\<close> are what \<open>pass1\<close> found.\<close>

definition handler_name :: "u32 \<Rightarrow> u32 \<Rightarrow> string" where
  "handler_name start end_addr = ''L_EXH_'' @ hex8 start @ ''_'' @ hex8 end_addr"

definition CatchInsn_class :: insn_class where
  "CatchInsn_class = instruction_class\<lparr>
     pass1 := \<lambda>c i _. (case c_catch c (i_address i) of
         None \<Rightarrow> Inl ''Popping off empty stack'' | Some _ \<Rightarrow> Inr (i, [], True)),
     pass2 := \<lambda>c i _ _. (case c_catch c (i_address i) of
         None \<Rightarrow> Inl ''segmentation fault''
       | Some (classes, start) \<Rightarrow> seq [
           lines (map (\<lambda>cl. Generic (''.catch '' @ cl @ '' from L_'' @ hex start @ '' to L_'' @
             hex (i_address i) @ '' using '' @ handler_name start (i_address i) @ nl)) classes),
           lines [Label (L_addr (i_address i))]]),
     maxStackHeight := \<lambda>_ _ _. 2\<rparr>"

end
