(* ===== verification/InsnFpu.thy ===== *)
theory InsnFpu
  imports Insn
begin

text \<open>
  The floating-point instructions of tools/translator/instructions/fpu.cc, which are decoded and
  counted but compiled to a warning only.  A constructor that does not know its operation ends
  the translator.
\<close>

definition CompFmtFloat_class :: "string \<Rightarrow> insn_class" where
  "CompFmtFloat_class bc = instruction_class\<lparr>
     pass2 := \<lambda>_ _ _ _. lines [Warning (''Instructions CompFmt for '' @ bc @ '' not yet implemented'')],
     destinations := \<lambda>_ i. [i_rd i],
     sources := \<lambda>_ i. [i_rs i, i_rt i]\<rparr>"

definition new_CompFmtFloat :: "u32 \<Rightarrow> mips_opcode \<Rightarrow> MIPS_register \<Rightarrow> MIPS_register \<Rightarrow> MIPS_register \<Rightarrow> string + insn" where
  "new_CompFmtFloat address opc fs ft fd =
     (let f_bc = (if opc = OP_FADD then Some ''fadd'' else if opc = OP_FSUB then Some ''fsub''
                  else if opc = OP_FMUL then Some ''fmul'' else if opc = OP_FDIV then Some ''fdiv'' else None)
      in case f_bc of None \<Rightarrow> Inl ''Unknown FPU arithmetic opcode''
         | Some bc \<Rightarrow> Inr (new_Instruction (Fpu (CompFmtFloat bc)) address opc fs ft fd 0))"

text \<open>A double takes the register and the next one.\<close>

definition CompFmtDouble_class :: "string \<Rightarrow> insn_class" where
  "CompFmtDouble_class bc = instruction_class\<lparr>
     pass2 := \<lambda>_ _ _ _. lines [Warning (''Instructions CompFmt for '' @ bc @ '' not yet implemented'')],
     destinations := \<lambda>_ i. [i_rd i, i_rd i + 1],
     sources := \<lambda>_ i. [i_rs i, i_rs i + 1, i_rt i, i_rt i + 1]\<rparr>"

definition new_CompFmtDouble :: "u32 \<Rightarrow> mips_opcode \<Rightarrow> MIPS_register \<Rightarrow> MIPS_register \<Rightarrow> MIPS_register \<Rightarrow> string + insn" where
  "new_CompFmtDouble address opc fs ft fd =
     (let bc = (if opc = OP_FADD then Some ''dadd'' else if opc = OP_FSUB then Some ''dsub''
                else if opc = OP_FMUL then Some ''dmul'' else if opc = OP_FDIV then Some ''ddiv'' else None)
      in case bc of None \<Rightarrow> Inl ''Unknown FPU arithmetic opcode''
         | Some bc \<Rightarrow> Inr (new_Instruction (Fpu (CompFmtDouble bc)) address opc fs ft fd 0))"

definition Cvt_w_class :: insn_class where
  "Cvt_w_class = instruction_class\<lparr>
     pass2 := \<lambda>_ _ _ _. lines [Warning ''Instructions Cvt_w not yet implemented''],
     destinations := \<lambda>_ i. [i_rd i],
     sources := \<lambda>_ i. [i_rs i]\<rparr>"

definition CmpFmtFloat_class :: "string \<Rightarrow> insn_class" where
  "CmpFmtFloat_class bc = instruction_class\<lparr>
     pass2 := \<lambda>_ _ _ _. lines [Warning (''Instructions CmpFmtFloat for '' @ bc @ '' not yet implemented'')],
     sources := \<lambda>_ i. [i_rs i, i_rt i]\<rparr>"

definition new_CmpFmtFloat :: "u32 \<Rightarrow> mips_opcode \<Rightarrow> MIPS_register \<Rightarrow> MIPS_register \<Rightarrow> string + insn" where
  "new_CmpFmtFloat address opc fs ft =
     (if opc = OP_C_ULE
      then Inr (new_Instruction (Fpu (CmpFmtFloat ''maboo'')) address opc fs ft R_ZERO 0)
      else Inl ''Unknown FPU compare opcode'')"

definition CmpFmtDouble_class :: "string \<Rightarrow> insn_class" where
  "CmpFmtDouble_class bc = instruction_class\<lparr>
     pass2 := \<lambda>_ _ _ _. lines [Warning (''Instructions CompFmt for '' @ bc @ '' not yet implemented'')],
     sources := \<lambda>_ i. [i_rs i, i_rs i + 1, i_rt i, i_rt i + 1]\<rparr>"

definition new_CmpFmtDouble :: "u32 \<Rightarrow> mips_opcode \<Rightarrow> MIPS_register \<Rightarrow> MIPS_register \<Rightarrow> string + insn" where
  "new_CmpFmtDouble address opc fs ft =
     (if opc = OP_C_ULE
      then Inr (new_Instruction (Fpu (CmpFmtDouble ''maboo'')) address opc fs ft R_ZERO 0)
      else Inl ''Unknown FPU compare opcode'')"

primrec fpu_class :: "fpu_kind \<Rightarrow> insn_class" where
  "fpu_class (CompFmtFloat bc) = CompFmtFloat_class bc"
| "fpu_class (CompFmtDouble bc) = CompFmtDouble_class bc"
| "fpu_class Cvt_w = Cvt_w_class"
| "fpu_class (CmpFmtFloat bc) = CmpFmtFloat_class bc"
| "fpu_class (CmpFmtDouble bc) = CmpFmtDouble_class bc"

end
