(* ===== verification/Factory.thy ===== *)
theory Factory
  imports InsnArith InsnMemory InsnJump InsnFpu
begin

text \<open>
  Decoding: \<open>InstructionFactory\<close> of tools/translator/instruction.cc, which turns the word at an
  address into an instruction object or panics, and the dispatch of the methods over the class
  of an object.  The word is the big-endian word of the text section, after \<open>be32_to_host\<close>.
\<close>

unbundle bit_operations_syntax

subsection \<open>The factory\<close>

definition op_entry :: "u32 \<Rightarrow> mips_op_entry" where
  "op_entry w = mips_op_entries ! unat (drop_bit 26 w AND 63)"

definition insn_extra :: "u32 \<Rightarrow> int" where
  "insn_extra w =
     (case op_fmt (op_entry w) of
        IFMT \<Rightarrow>
          (let extra = w AND 0xffff
           in if \<not> mips_zero_extend_opcode (op_type (op_entry w)) \<and> extra AND 0x8000 = 0x8000
              then sint ((- 1 AND NOT 0xffff) OR extra) else sint extra)
      | RFMT \<Rightarrow> sint (drop_bit 6 w AND 31)
      | JFMT \<Rightarrow> sint (w AND 0x03ffffff))"

definition insn_opcode :: "u32 \<Rightarrow> mips_opcode" where
  "insn_opcode w =
     (let t = op_type (op_entry w)
      in if t = SPECIAL then mips_special_table ! unat (w AND 63)
         else if t = BCOND
         then (let k = w AND 0x1f0000
               in if k = 0 then OP_BLTZ else if k = 0x10000 then OP_BGEZ
                  else if k = 0x100000 then OP_BLTZAL else if k = 0x110000 then OP_BGEZAL else OP_UNIMP)
         else if t = COP1 then mips_cop1_table ! mips_encoding_get_cp1_func w
         else t)"

definition is_cp1_arith :: "mips_opcode \<Rightarrow> bool" where
  "is_cp1_arith opc \<longleftrightarrow> OP_FADD \<le> opc \<and> opc \<le> OP_FDIV"

definition is_cp1_compare :: "mips_opcode \<Rightarrow> bool" where
  "is_cp1_compare opc \<longleftrightarrow> OP_C_F \<le> opc \<and> opc \<le> OP_C_NGT"

text \<open>
  The \<open>switch(opcode)\<close> as a list of the cases that only construct an object: the class, and which
  of \<open>rs\<close>, \<open>rt\<close>, \<open>rd\<close> and \<open>extra\<close> its constructor is given.
\<close>

definition simple_cases ::
  "u32 \<Rightarrow> (mips_opcode \<times> (insn_kind \<times> MIPS_register \<times> MIPS_register \<times> MIPS_register \<times> int)) list" where
  "simple_cases w =
     (let rs = mips_encoding_get_rs w; rt = mips_encoding_get_rt w; rd = mips_encoding_get_rd w;
          extra = insn_extra w
      in [(OP_ADDU, (Arith Addu, rs, rt, rd, 0)),
          (OP_ADD, (Arith (Rfmt Iadd), rs, rt, rd, 0)),
          (OP_SUB, (Arith (Rfmt Isub), rs, rt, rd, 0)),
          (OP_SUBU, (Arith Subu, rs, rt, rd, 0)),
          (OP_XOR, (Arith (Rfmt Ixor), rs, rt, rd, 0)),
          (OP_AND, (Arith (Rfmt Iand), rs, rt, rd, 0)),
          (OP_OR, (Arith (Rfmt Ior), rs, rt, rd, 0)),
          (OP_NOR, (Arith Nor, rs, rt, rd, 0)),
          (OP_SRAV, (Arith (ShiftInstructionV Ishr), rs, rt, rd, 0)),
          (OP_SLLV, (Arith (ShiftInstructionV Ishl), rs, rt, rd, 0)),
          (OP_SRLV, (Arith (ShiftInstructionV Iushr), rs, rt, rd, 0)),
          (OP_SLL, (Arith (ShiftInstruction Ishl), rs, rt, rd, extra)),
          (OP_SRA, (Arith (ShiftInstruction Ishr), rs, rt, rd, extra)),
          (OP_SRL, (Arith (ShiftInstruction Iushr), rs, rt, rd, extra)),
          (OP_ADDI, (Arith Addi, rs, rt, rd, extra)),
          (OP_ADDIU, (Arith Addi, rs, rt, rd, extra)),
          (OP_XORI, (Arith (Ifmt Ixor), rs, rt, rd, extra)),
          (OP_ANDI, (Arith (Ifmt Iand), rs, rt, rd, extra)),
          (OP_ORI, (Arith (Ifmt Ior), rs, rt, rd, extra)),
          (OP_JAL, (Jumping Jal, R_ZERO, R_ZERO, R_ZERO, extra)),
          (OP_JALR, (Jumping Jalr, rs, R_ZERO, R_ZERO, 0)),
          (OP_J, (Jumping Jump_insn, R_ZERO, R_ZERO, R_ZERO, extra)),
          (OP_BGEZAL, (Jumping Jal, R_ZERO, R_ZERO, R_ZERO, extra)),
          (OP_LW, (Memory Lw, rs, rt, R_ZERO, extra)),
          (OP_SW, (Memory Sw, rs, rt, R_ZERO, extra)),
          (OP_LB, (Memory Lb, rs, rt, R_ZERO, extra)),
          (OP_LBU, (Memory Lbu, rs, rt, R_ZERO, extra)),
          (OP_LH, (Memory Lh, rs, rt, R_ZERO, extra)),
          (OP_LHU, (Memory Lhu, rs, rt, R_ZERO, extra)),
          (OP_LWL, (Memory (LoadXX ''WordLeft''), rs, rt, R_ZERO, extra)),
          (OP_SB, (Memory Sb, rs, rt, R_ZERO, extra)),
          (OP_SH, (Memory Sh, rs, rt, R_ZERO, extra)),
          (OP_SWL, (Memory (StoreXX ''WordLeft''), rs, rt, R_ZERO, extra)),
          (OP_MULT, (Arith Mult, rs, rt, R_ZERO, 0)),
          (OP_MULTU, (Arith (MulDiv ''multu''), rs, rt, rd, extra)),
          (OP_DIV, (Arith Div, rs, rt, R_ZERO, 0)),
          (OP_DIVU, (Arith (MulDiv ''divu''), rs, rt, rd, extra)),
          (OP_MFLO, (Arith (Mfxx R_LO), R_LO, R_ZERO, rd, 0)),
          (OP_MFHI, (Arith (Mfxx R_HI), R_HI, R_ZERO, rd, 0)),
          (OP_MTLO, (Arith (Mtxx R_LO), rd, R_ZERO, R_ZERO, 0)),
          (OP_MTHI, (Arith (Mtxx R_HI), rd, R_ZERO, R_ZERO, 0)),
          (OP_JR, (Jumping Jr, rs, R_ZERO, R_ZERO, 0)),
          (OP_LUI, (Arith Lui, R_ZERO, rt, R_ZERO, extra)),
          (OP_SLTU, (Arith Sltu, rs, rt, rd, 0)),
          (OP_SLT, (Arith Slt, rs, rt, rd, 0)),
          (OP_SLTIU, (Arith Sltiu, rs, rt, R_ZERO, extra)),
          (OP_SLTI, (Arith Slti, rs, rt, R_ZERO, extra)),
          (OP_BEQ, (Jumping (if rt = R_ZERO then OneRegisterConditionalJump Ifeq
                             else TwoRegisterConditionalJump If_icmpeq), rs, rt, R_ZERO, extra)),
          (OP_BNE, (Jumping (if rt = R_ZERO then OneRegisterConditionalJump Ifne
                             else TwoRegisterConditionalJump If_icmpne), rs, rt, R_ZERO, extra)),
          (OP_BGEZ, (Jumping (OneRegisterConditionalJump Ifge), rs, R_ZERO, R_ZERO, extra)),
          (OP_BGTZ, (Jumping (OneRegisterConditionalJump Ifgt), rs, R_ZERO, R_ZERO, extra)),
          (OP_BLEZ, (Jumping (OneRegisterConditionalJump Ifle), rs, R_ZERO, R_ZERO, extra)),
          (OP_BLTZ, (Jumping (OneRegisterConditionalJump Iflt), rs, R_ZERO, R_ZERO, extra)),
          (OP_LWC1, (Memory LWc1, rs, mips_int_to_fpu_reg rt, R_ZERO, extra)),
          (OP_SWC1, (Memory SWc1, rs, mips_int_to_fpu_reg rt, R_ZERO, extra)),
          (OP_CVT_W, (Fpu Cvt_w, mips_encoding_get_fs w, R_ZERO, mips_encoding_get_fd w, 0))])"

definition createNop :: "u32 \<Rightarrow> insn" where
  "createNop address = new_Instruction Nop address 0 R_ZERO R_ZERO R_ZERO 0"

definition createDelaySlotNop :: "u32 \<Rightarrow> insn" where
  "createDelaySlotNop address = new_Instruction DelaySlotNop address 0 R_ZERO R_ZERO R_ZERO 0"

definition createTailCallJump :: "u32 \<Rightarrow> int \<Rightarrow> insn" where
  "createTailCallJump address extra = new_Instruction (Jumping JalReturn) address OP_JAL R_ZERO R_ZERO R_ZERO extra"

definition create :: "u32 \<Rightarrow> u32 \<Rightarrow> string + insn" where
  "create address w =
     (if drop_bit 24 w = 0xff
      then Inr (new_Instruction SyscallInsn address CIBYL_SYSCALL R_ZERO R_ZERO R_ZERO (sint (w AND 0xffffff)))
      else if drop_bit 16 w = 0xfefe
      then Inr (new_Instruction SyscallRegisterArgument address CIBYL_REGISTER_ARGUMENT R_ZERO R_ZERO R_ZERO (sint (w AND 31)))
      else if drop_bit 24 w = 0xfd
      then Inr (new_Instruction CatchInsn address 0 R_ZERO R_ZERO R_ZERO (sint (w AND 0xffffff)))
      else
        (let opc = insn_opcode w; fmt = mips_encoding_get_cp1_fmt w;
             fs = mips_encoding_get_fs w; ft = mips_encoding_get_ft w; fd = mips_encoding_get_fd w
         in case map_of (simple_cases w) opc of
              Some (k, rs, rt, rd, extra) \<Rightarrow> Inr (new_Instruction k address opc rs rt rd extra)
            | None \<Rightarrow>
                if opc = OP_LWR \<or> opc = OP_SWR \<or> opc = OP_BREAK then Inr (createNop address)
                else if is_cp1_arith opc
                then (if mips_cp1_fmt_is_double fmt then new_CompFmtDouble address opc fs ft fd
                      else new_CompFmtFloat address opc fs ft fd)
                else if is_cp1_compare opc
                then (if mips_cp1_fmt_is_double fmt then new_CmpFmtDouble address opc fs ft
                      else new_CmpFmtFloat address opc fs ft)
                else Inl ''is not an instruction''))"

subsection \<open>Dispatch\<close>

primrec class_of :: "insn_kind \<Rightarrow> insn_class" where
  "class_of (Arith k) = arith_class k"
| "class_of (Memory k) = memory_class k"
| "class_of (Jumping k) = jump_class k"
| "class_of (Fpu k) = fpu_class k"
| "class_of Nop = Nop_class"
| "class_of DelaySlotNop = DelaySlotNop_class"
| "class_of SyscallInsn = SyscallInsn_class"
| "class_of SyscallRegisterArgument = SyscallRegisterArgument_class"
| "class_of CatchInsn = CatchInsn_class"

definition hasDelaySlot :: "insn \<Rightarrow> bool" where
  "hasDelaySlot i \<longleftrightarrow> isBranch (class_of (i_kind i))"

fun compile1 :: "jctx \<Rightarrow> insn \<Rightarrow> pass1_result" where
  "compile1 c (Insn k a opc rs rt rd e d p t hi lo) =
     pass1 (class_of k) c (Insn k a opc rs rt rd e d p t hi lo) (map_option (compile1 c) d)"

fun compile :: "jctx \<Rightarrow> insn \<Rightarrow> emission" where
  "compile c (Insn k a opc rs rt rd e d p t hi lo) =
     pass2 (class_of k) c (Insn k a opc rs rt rd e d p t hi lo) (map_option (compile c) d) (map_option (compile c) p)"

fun stack_height :: "jctx \<Rightarrow> insn \<Rightarrow> nat" where
  "stack_height c (Insn k a opc rs rt rd e d p t hi lo) =
     maxStackHeight (class_of k) c (Insn k a opc rs rt rd e d p t hi lo) (map_option (stack_height c) d)"

definition fillDestinations :: "jctx \<Rightarrow> insn \<Rightarrow> usage \<Rightarrow> usage \<times> nat" where
  "fillDestinations c i = addAll (destinations (class_of (i_kind i)) c i)"

definition fillSources :: "jctx \<Rightarrow> insn \<Rightarrow> usage \<Rightarrow> usage \<times> nat" where
  "fillSources c i = addAll (sources (class_of (i_kind i)) c i)"

end
