(* ===== verification/Blocks.thy ===== *)
theory Blocks
  imports Search Factory
begin

text \<open>
  From instructions to functions: the jump table labels of a code block (codeblock.cc), the text of an
  instruction (string-instruction.cc), basic blocks (basicblock.cc) and functions (function.cc) of
  tools/translator.  A range of the instruction array is the list of its instructions.  The tables of
  previous writers and readers hold the addresses of the instructions the code points to; the tables
  of later ones are filled and never read, and are left out.
\<close>

unbundle bit_operations_syntax

subsection \<open>Labels of a code block (codeblock.cc)\<close>

definition addJumptabLabel :: "u32 list \<Rightarrow> u32 \<Rightarrow> u32 list" where
  "addJumptabLabel labels addr = (if List.member labels addr then labels else labels @ [addr])"

text \<open>\<open>return a - b\<close> as an \<open>int\<close>: the difference wraps around.\<close>

definition uint32_cmp :: "u32 \<Rightarrow> u32 \<Rightarrow> int" where
  "uint32_cmp a b = sint (a - b)"

definition sortJumptabLabels :: "u32 list \<Rightarrow> u32 list" where
  "sortJumptabLabels labels = qsort uint32_cmp labels"

definition hasJumptabLabel :: "u32 list \<Rightarrow> u32 \<Rightarrow> bool" where
  "hasJumptabLabel labels addr \<longleftrightarrow> bsearch uint32_cmp addr labels \<noteq> None"

subsection \<open>The text of an instruction (string-instruction.cc)\<close>

definition reg_string :: "MIPS_register \<Rightarrow> string" where
  "reg_string r = mips_reg_strings ! r"

definition opcode_name :: "mips_opcode \<Rightarrow> string" where
  "opcode_name opc = (if opc < SPECIAL then mips_op_strings ! opc else ''unknown'')"

definition shown_target :: "insn \<Rightarrow> string" where
  "shown_target i = hex (i_address i + 4 + push_bit 2 (of_int (i_extra i)))"

text \<open>The cases of the \<open>switch\<close>, by the format they print.\<close>

definition three_registers :: "mips_opcode list" where
  "three_registers = [OP_ADDU, OP_ADD, OP_SUB, OP_SUBU, OP_XOR, OP_AND, OP_OR, OP_NOR, OP_SRAV, OP_SLLV, OP_SRLV, OP_SLTU, OP_SLT]"

definition shift_amounts :: "mips_opcode list" where
  "shift_amounts = [OP_SLL, OP_SRA, OP_SRL]"

definition immediates :: "mips_opcode list" where
  "immediates = [OP_SLTIU, OP_SLTI, OP_ADDI, OP_ADDIU, OP_XORI, OP_ANDI, OP_ORI]"

definition memory_opcodes :: "mips_opcode list" where
  "memory_opcodes = [OP_LW, OP_SW, OP_LB, OP_LBU, OP_LH, OP_LHU, OP_LWL, OP_LWR, OP_SB, OP_SH, OP_SWL, OP_SWR]"

definition instruction_text :: "insn \<Rightarrow> string" where
  "instruction_text i =
     (let name = opcode_name (i_opcode i) @ '' ''; opc = i_opcode i;
          rs = reg_string (i_rs i); rt = reg_string (i_rt i); rd = reg_string (i_rd i);
          extra = decimal (i_extra i); sep = '', ''; word = of_int (i_extra i) :: u32
      in if opc \<in> set three_registers then name @ rd @ sep @ rs @ sep @ rt
         else if opc \<in> set shift_amounts then name @ rd @ sep @ rt @ sep @ extra
         else if opc \<in> set immediates then name @ rt @ sep @ rs @ sep @ extra
         else if opc = OP_BGEZAL \<or> opc = OP_JAL \<or> opc = OP_J then name @ ''0x'' @ hex (push_bit 2 word)
         else if opc = OP_JR \<or> opc = OP_JALR then name @ rs
         else if opc \<in> set memory_opcodes then name @ rt @ sep @ extra @ ''('' @ rs @ '')''
         else if opc = OP_BREAK then ''break''
         else if opc = OP_MULT \<or> opc = OP_MULTU \<or> opc = OP_DIV \<or> opc = OP_DIVU then name @ rs @ sep @ rt
         else if opc = OP_MFLO \<or> opc = OP_MFHI \<or> opc = OP_MTLO \<or> opc = OP_MTHI then name @ rs
         else if opc = OP_LUI then name @ rt @ sep @ ''0x'' @ hex (push_bit 16 word)
         else if opc = OP_BEQ \<or> opc = OP_BNE then name @ rs @ sep @ rt @ sep @ ''0x'' @ shown_target i
         else if opc = OP_BGEZ \<or> opc = OP_BGTZ \<or> opc = OP_BLEZ \<or> opc = OP_BLTZ then name @ rs @ sep @ ''0x'' @ shown_target i
         else if opc = CIBYL_SYSCALL then ''cibyl_sysc 0x'' @ hex word
         else if opc = CIBYL_REGISTER_ARGUMENT then ''cibyl_sysc_arg 0x'' @ hex word
         else ''Unknown instruction 0x'' @ hex (of_nat opc))"

definition instruction_to_string :: "nat \<Rightarrow> insn \<Rightarrow> string + string" where
  "instruction_to_string buf_len i =
     (if buf_len \<le> length (instruction_text i) then Inl ''buffer to small to write instruction string''
      else Inr (instruction_text i))"

subsection \<open>Basic blocks: the constructor\<close>

datatype bb_type = NORMAL | PROLOGUE | EPILOGUE

record basic_block =
  bb_type :: bb_type
  bb_address :: u32
  bb_size :: nat
  bb_insns :: "insn list"
  bb_bc_size :: nat
  bb_maxStackHeight :: nat

abbreviation insn_class_of :: "insn \<Rightarrow> insn_class" where
  "insn_class_of i \<equiv> class_of (i_kind i)"

text \<open>The instruction with its prefix and its delay slot.\<close>

definition insn_bytecode_size :: "insn \<Rightarrow> nat" where
  "insn_bytecode_size i =
     (case i_prefix i of Some p \<Rightarrow> bytecodeSize (insn_class_of p) | None \<Rightarrow> 0) + bytecodeSize (insn_class_of i) +
     (case i_delayed i of Some d \<Rightarrow> bytecodeSize (insn_class_of d) | None \<Rightarrow> 0)"

definition new_BasicBlock :: "insn list \<Rightarrow> bb_type \<Rightarrow> nat \<Rightarrow> nat \<Rightarrow> string + basic_block" where
  "new_BasicBlock insns ty first stop =
     (if stop < first then Inl ''Basic block constructed with wrong instructions''
      else if length insns \<le> first then Inl ''segmentation fault''
      else let is = take (stop - first) (drop first insns)
        in Inr \<lparr>bb_type = ty, bb_address = i_address (insns ! first), bb_size = length is * 4, bb_insns = is,
             bb_bc_size = sum_list (map insn_bytecode_size is), bb_maxStackHeight = 0\<rparr>)"

subsection \<open>Basic blocks: the first pass\<close>

datatype mips_register_type = I_RS | I_RT | I_RD

primrec getRegister :: "insn \<Rightarrow> mips_register_type \<Rightarrow> MIPS_register" where
  "getRegister i I_RS = i_rs i"
| "getRegister i I_RT = i_rt i"
| "getRegister i I_RD = i_rd i"

type_synonym reg_table = "MIPS_register \<Rightarrow> u32 option"

definition no_use :: usage where "no_use = (\<lambda>_. 0)"

definition destinations_of :: "jctx \<Rightarrow> insn \<Rightarrow> usage" where
  "destinations_of c i = fst (fillDestinations c i no_use)"

definition sources_of :: "jctx \<Rightarrow> insn \<Rightarrow> usage" where
  "sources_of c i = fst (fillSources c i no_use)"

definition fill_slot :: "usage \<Rightarrow> insn \<Rightarrow> MIPS_register \<Rightarrow> reg_table \<Rightarrow> reg_table" where
  "fill_slot u i reg table = (if u reg \<noteq> 0 then table(reg := Some (i_address i)) else table)"

definition fillWriteTable :: "jctx \<Rightarrow> insn \<Rightarrow> reg_table \<Rightarrow> reg_table" where
  "fillWriteTable c i table =
     (let dsts = destinations_of c i
      in fill_slot dsts i (i_rd i) (fill_slot dsts i (i_rt i) (fill_slot dsts i (i_rs i) table)))"

definition fillReadTable :: "jctx \<Rightarrow> insn \<Rightarrow> reg_table \<Rightarrow> reg_table" where
  "fillReadTable c i table =
     (let srcs = sources_of c i
      in fill_slot srcs i (i_rd i) (fill_slot srcs i (i_rt i) (fill_slot srcs i (i_rs i) table)))"

text \<open>For each register field: the previous reader and the previous writer, when the field is used.\<close>

definition fillInstructionReadsAndWrites ::
  "jctx \<Rightarrow> reg_table \<Rightarrow> reg_table \<Rightarrow> insn \<Rightarrow> mips_register_type \<Rightarrow> u32 option \<times> u32 option" where
  "fillInstructionReadsAndWrites c rtab wtab i w =
     (let uses = fst (fillSources c i (fst (fillDestinations c i no_use))); reg = getRegister i w
      in if uses reg \<noteq> 0 then (rtab reg, wtab reg) else (None, None))"

definition handleTables :: "jctx \<Rightarrow> insn \<Rightarrow> reg_table \<times> reg_table \<Rightarrow> reg_table \<times> reg_table" where
  "handleTables c i tabs = (fillReadTable c i (fst tabs), fillWriteTable c i (snd tabs))"

text \<open>A jump into another method is a tail call and becomes a call.\<close>

definition replace_tail_call :: "jctx \<Rightarrow> insn \<Rightarrow> insn" where
  "replace_tail_call c i =
     (if i_opcode i = OP_J \<and>
         map_option jm_address (c_method c (i_address i)) \<noteq> map_option jm_address (c_method c (jump_target i))
      then let j = createTailCallJump (i_address i) (i_extra i);
               j = if i_branchTarget i then setBranchTarget j else j
           in setDelayed (i_delayed i) j
      else i)"

text \<open>
  The loop over the instructions: each is passed, then entered in the tables between its prefix and
  its delay slot.  The result pairs it with the previous writer of its \<open>rt\<close>.
\<close>

fun pass1_insns :: "jctx \<Rightarrow> insn list \<Rightarrow> reg_table \<times> reg_table \<Rightarrow> string + (insn \<times> u32 option) list \<times> u32 list \<times> bool" where
  "pass1_insns c [] tabs = Inr ([], [], True)"
| "pass1_insns c (i # is) tabs =
     (case compile1 c (replace_tail_call c i) of Inl msg \<Rightarrow> Inl msg
      | Inr (i, marks, ok) \<Rightarrow>
          let tabs = (case i_prefix i of Some p \<Rightarrow> handleTables c p tabs | None \<Rightarrow> tabs);
              prev = snd (fillInstructionReadsAndWrites c (fst tabs) (snd tabs) i I_RT);
              tabs = handleTables c i tabs;
              tabs = (case i_delayed i of Some d \<Rightarrow> handleTables c d tabs | None \<Rightarrow> tabs)
          in (case pass1_insns c is tabs of Inl msg \<Rightarrow> Inl msg
              | Inr (rest, marks', ok') \<Rightarrow> Inr ((i, prev) # rest, marks @ marks', ok \<and> ok')))"

text \<open>With \<open>optimize_prune_stack_stores\<close> the saves and restores of the caller's registers are dropped.\<close>

definition caller_saved :: "MIPS_register list" where
  "caller_saved = takeWhile (\<lambda>r. r \<noteq> R_ZERO) mips_caller_saved"

definition pruned :: "jctx \<Rightarrow> bb_type \<Rightarrow> insn \<times> u32 option \<Rightarrow> bool" where
  "pruned c ty ip =
     (let i = fst ip
      in optimizePruneStackStores (c_config c) \<and>
         ((ty = PROLOGUE \<and> i_opcode i = OP_SW \<and> i_rs i = R_SP) \<or> (ty = EPILOGUE \<and> i_opcode i = OP_LW \<and> i_rs i = R_SP)) \<and>
         (\<exists>reg\<in>set caller_saved. (ty = PROLOGUE \<and> sources_of c i reg \<noteq> 0 \<and> snd ip = None) \<or>
            (ty = EPILOGUE \<and> destinations_of c i reg \<noteq> 0)))"

definition prune :: "jctx \<Rightarrow> bb_type \<Rightarrow> insn \<times> u32 option \<Rightarrow> insn" where
  "prune c ty ip =
     (if pruned c ty ip
      then let n = createNop (i_address (fst ip)) in if i_branchTarget (fst ip) then setBranchTarget n else n
      else fst ip)"

definition insn_height :: "jctx \<Rightarrow> insn \<Rightarrow> nat" where
  "insn_height c i = max (stack_height c i) (case i_delayed i of Some d \<Rightarrow> stack_height c d | None \<Rightarrow> 0)"

definition bb_pass1 :: "jctx \<Rightarrow> basic_block \<Rightarrow> string + basic_block \<times> u32 list \<times> bool" where
  "bb_pass1 c b =
     (case pass1_insns c (bb_insns b) (\<lambda>_. None, \<lambda>_. None) of Inl msg \<Rightarrow> Inl msg
      | Inr (ips, marks, ok) \<Rightarrow>
          let is = map (prune c (bb_type b)) ips
          in Inr (b\<lparr>bb_insns := is, bb_maxStackHeight := foldl max (bb_maxStackHeight b) (map (insn_height c) is)\<rparr>, marks, ok))"

subsection \<open>Basic blocks: register usage\<close>

definition with_parts :: "(insn \<Rightarrow> usage \<Rightarrow> usage \<times> nat) \<Rightarrow> insn \<Rightarrow> usage \<Rightarrow> usage \<times> nat" where
  "with_parts fill i p =
     (let (p, n) = fill i p;
          (p, n) = (case i_delayed i of Some d \<Rightarrow> (let (p', n') = fill d p in (p', n + n')) | None \<Rightarrow> (p, n))
      in case i_prefix i of Some q \<Rightarrow> (let (p', n') = fill q p in (p', n + n')) | None \<Rightarrow> (p, n))"

primrec fill_insns :: "(insn \<Rightarrow> usage \<Rightarrow> usage \<times> nat) \<Rightarrow> insn list \<Rightarrow> usage \<Rightarrow> usage \<times> nat" where
  "fill_insns fill [] p = (p, 0)"
| "fill_insns fill (i # is) p =
     (let (p1, n1) = with_parts fill i p; (p2, n2) = fill_insns fill is p1 in (p2, n1 + n2))"

definition bb_fillDestinations :: "jctx \<Rightarrow> basic_block \<Rightarrow> usage \<Rightarrow> usage \<times> nat" where
  "bb_fillDestinations c b = fill_insns (fillDestinations c) (bb_insns b)"

definition bb_fillSources :: "jctx \<Rightarrow> basic_block \<Rightarrow> usage \<Rightarrow> usage \<times> nat" where
  "bb_fillSources c b = fill_insns (fillSources c) (bb_insns b)"

subsection \<open>Basic blocks: the second pass\<close>

text \<open>The requests of a loop whose result is false when one of them is.\<close>

definition and_all :: "emission list \<Rightarrow> emission" where
  "and_all es = foldr (\<lambda>e rest. case e of Inl msg \<Rightarrow> Inl msg
     | Inr (is, ok) \<Rightarrow> map_sum id (\<lambda>(is', ok'). (is @ is', ok \<and> ok')) rest) es (lines [])"

text \<open>The result of a request is not used.\<close>

definition ignoring :: "emission \<Rightarrow> emission" where
  "ignoring e = map_sum id (\<lambda>(is, ok). (is, True)) e"

definition pushRegister :: "regalloc \<Rightarrow> MIPS_register \<Rightarrow> emission" where
  "pushRegister ra reg = (if reg \<noteq> R_RA then bc_pushregister ra reg else bc_pushconst 0)"

fun traceRegisterValues :: "regalloc \<Rightarrow> insn \<Rightarrow> emission" where
  "traceRegisterValues ra (Insn k a opc rs rt rd e d p t hi lo) =
     seq [pushRegister ra rs, pushRegister ra rt, pushRegister ra rd,
          lines [Invokestatic (CRunTime ''emitRegisterTrace'' ''(III)V'')],
          optional (map_option (traceRegisterValues ra) d)]"

text \<open>\<open>buf\<close>, then the comment \<open>out\<close>, both of 255 characters.\<close>

definition comment_buffer :: "insn \<Rightarrow> string + string" where
  "comment_buffer i =
     (case instruction_to_string 255 i of Inl msg \<Rightarrow> Inl msg
      | Inr s \<Rightarrow>
          let buf = ''0x'' @ hex (i_address i) @ '': '' @ s
          in if hasDelaySlot i
             then (case i_delayed i of None \<Rightarrow> Inl ''segmentation fault''
               | Some d \<Rightarrow> (case instruction_to_string (255 - length buf - 1) d of Inl msg \<Rightarrow> Inl msg
                   | Inr s' \<Rightarrow> Inr (buf @ '' '' @ s')))
             else Inr buf)"

definition commentInstruction :: "jctx \<Rightarrow> insn \<Rightarrow> emission" where
  "commentInstruction c i =
     (case comment_buffer i of Inl msg \<Rightarrow> Inl msg
      | Inr buf \<Rightarrow>
          let out = ''0x'' @ hex8 (i_address i) @ '': '' @ buf; trace = traceRange (c_config c)
          in if 255 \<le> length out then Inl ''snprintf failed''
             else seq [lines [Comment out],
               emit_if (fst trace \<le> i_address i \<and> i_address i < snd trace)
                 (seq [lines [Ldc_string buf, Invokestatic (CRunTime ''emitTrace'' ''(Ljava/lang/String;)V'')],
                       traceRegisterValues (c_alloc c) i])])"

text \<open>
  Compiling the instructions of a method changes the method and the instructions: a call within the
  method adds a return location and marks the instruction there as a branch target, a \<open>setjmp\<close> adds a
  handler.  \<open>es_targets\<close> are the addresses marked so far.
\<close>

record emit_state =
  es_returns :: "u32 list"
  es_targets :: "u32 list"
  es_handlers :: "handler list"

definition with_returns :: "jctx \<Rightarrow> u32 \<Rightarrow> u32 list \<Rightarrow> jctx" where
  "with_returns c m locations =
     c\<lparr>c_method := \<lambda>a. map_option (\<lambda>mt. if jm_address mt = m then mt\<lparr>jm_return_locations := locations\<rparr> else mt) (c_method c a)\<rparr>"

definition insn_effect :: "jctx \<Rightarrow> insn \<Rightarrow> emit_state \<Rightarrow> emit_state" where
  "insn_effect c i es =
     (case i_kind i of
        Jumping k \<Rightarrow>
          if k = Jal \<or> k = Jalr \<or> k = JalReturn
          then let new = Jal_return_location c i
            in es\<lparr>es_returns := es_returns es @ new,
                  es_targets := es_targets es @ List.map_filter (c_instruction c) new,
                  es_handlers := es_handlers es @ (case Jal_builtin c i of Some b \<Rightarrow> b_handlers b (i_address i) | None \<Rightarrow> [])\<rparr>
          else es
      | _ \<Rightarrow> es)"

text \<open>An instruction in a delay slot that has a label is emitted again behind the branch.\<close>

definition emit_delayed_label :: "jctx \<Rightarrow> u32 list \<Rightarrow> insn \<Rightarrow> emission" where
  "emit_delayed_label c labels i =
     (case i_delayed i of None \<Rightarrow> emit_if (hasDelaySlot i) (Inl ''segmentation fault'')
      | Some d \<Rightarrow> emit_if (hasDelaySlot i \<and> hasJumptabLabel labels (i_address d))
          (let out = Lbl (''L_'' @ hex (i_address d) @ ''_out'')
           in seq [lines [Goto out, Label (L_addr (i_address d))], ignoring (compile c d), lines [Label out]]))"

definition emit_insn :: "jctx \<Rightarrow> u32 list \<Rightarrow> emit_state \<Rightarrow> insn \<Rightarrow> emission" where
  "emit_insn c labels es i =
     and_all [
       lines (if (i_branchTarget i \<or> i_address i \<in> set (es_targets es) \<or> hasJumptabLabel labels (i_address i)) \<and>
                 \<not> isDelaySlotNop (insn_class_of i)
              then [Label (L_addr (i_address i))] else []),
       emit_if (\<not> isNop (insn_class_of i)) (ignoring (commentInstruction c i)),
       compile c i,
       ignoring (emit_delayed_label c labels i)]"

primrec emit_insns :: "jctx \<Rightarrow> u32 \<Rightarrow> u32 list \<Rightarrow> insn list \<Rightarrow> emit_state \<Rightarrow> emission list \<times> emit_state" where
  "emit_insns c m labels [] es = ([], es)"
| "emit_insns c m labels (i # is) es =
     (let c' = with_returns c m (es_returns es);
          (rest, es') = emit_insns c m labels is (insn_effect c' i es)
      in (emit_insn c' labels es i # rest, es'))"

definition bb_pass2 :: "jctx \<Rightarrow> u32 \<Rightarrow> u32 list \<Rightarrow> basic_block \<Rightarrow> emit_state \<Rightarrow> emission \<times> emit_state" where
  "bb_pass2 c m labels b es =
     (let (emitted, es') = emit_insns c m labels (bb_insns b) es
      in (and_all (lines [Comment ''--- basic block ---''] # emitted), es'))"

subsection \<open>Functions\<close>

record func =
  fn_name :: string
  fn_realName :: string
  fn_address :: u32
  fn_size :: nat
  fn_bbs :: "basic_block list"
  fn_registerIndirectJumps :: bool
  fn_usedInsns :: "mips_opcode list"
  fn_bc_size :: nat
  fn_maxStackHeight :: nat
  fn_registerDestinations :: usage
  fn_registerSources :: usage
  fn_start :: bool

definition function_name :: "string \<Rightarrow> u32 \<Rightarrow> string" where
  "function_name name address = map (\<lambda>c. if c = CHR ''.'' then CHR ''_'' else c) name @ ''_'' @ hex address"

text \<open>
  The loop that cuts the instructions of a function into blocks: \<open>first\<close> and \<open>last\<close> count from the
  first instruction, the list is what is left.
\<close>

fun split_blocks :: "u32 \<Rightarrow> insn list \<Rightarrow> bb_type \<Rightarrow> nat \<Rightarrow> nat \<Rightarrow> (bb_type \<times> nat \<times> nat) list" where
  "split_blocks a [] ty first stop = (if stop \<noteq> first then [(NORMAL, first, stop)] else [])"
| "split_blocks a (i # is) ty first stop =
     (let stop = stop + 1; ty = if isReturnJump (insn_class_of i) i then EPILOGUE else ty
      in if (isBranch (insn_class_of i) \<or> i_branchTarget i) \<and> i_address i \<noteq> a
         then if hasDelaySlot i \<and> is \<noteq> []
              then (ty, first, stop + 1) # split_blocks a (tl is) NORMAL (stop + 1) (stop + 1)
              else (ty, first, stop) # split_blocks a is NORMAL stop stop
         else split_blocks a is ty first stop)"

text \<open>The instructions the loop looks at: one behind a branch that ends a block is skipped.\<close>

fun visited :: "u32 \<Rightarrow> insn list \<Rightarrow> insn list" where
  "visited a [] = []"
| "visited a (i # is) =
     i # (if (isBranch (insn_class_of i) \<or> i_branchTarget i) \<and> i_address i \<noteq> a \<and> hasDelaySlot i \<and> is \<noteq> []
          then visited a (tl is) else visited a is)"

definition markOpcodeUsed :: "mips_opcode \<Rightarrow> mips_opcode list \<Rightarrow> string + mips_opcode list" where
  "markOpcodeUsed opc u = (if N_INSNS < opc then Inl ''Opcode is outside the range of valid values'' else Inr (opc # u))"

definition opcodes_of :: "insn \<Rightarrow> (string + mips_opcode) list" where
  "opcodes_of i = [Inr (i_opcode i)] @
     (if hasDelaySlot i then [case i_delayed i of Some d \<Rightarrow> Inr (i_opcode d) | None \<Rightarrow> Inl ''segmentation fault''] else []) @
     (case i_prefix i of Some p \<Rightarrow> [Inr (i_opcode p)] | None \<Rightarrow> [])"

primrec mark_all :: "(string + mips_opcode) list \<Rightarrow> mips_opcode list \<Rightarrow> string + mips_opcode list" where
  "mark_all [] u = Inr u"
| "mark_all (x # xs) u =
     (case x of Inl msg \<Rightarrow> Inl msg
      | Inr opc \<Rightarrow> (case markOpcodeUsed opc u of Inl msg \<Rightarrow> Inl msg | Inr u \<Rightarrow> mark_all xs u))"

primrec new_blocks :: "insn list \<Rightarrow> (bb_type \<times> nat \<times> nat) list \<Rightarrow> string + basic_block list" where
  "new_blocks insns [] = Inr []"
| "new_blocks insns (b # bs) =
     (case b of (ty, first, stop) \<Rightarrow>
        (case new_BasicBlock insns ty first stop of Inl msg \<Rightarrow> Inl msg
         | Inr bb \<Rightarrow> map_sum id (\<lambda>bbs. bb # bbs) (new_blocks insns bs)))"

definition new_Function :: "string \<Rightarrow> insn list \<Rightarrow> nat \<Rightarrow> nat \<Rightarrow> string + func" where
  "new_Function name insns first_insn last_insn =
     (if length insns \<le> first_insn \<or> length insns < last_insn then Inl ''segmentation fault''
      else
        let is = take (last_insn - first_insn) (drop first_insn insns); address = i_address (insns ! first_insn)
        in case mark_all (concat (map opcodes_of (visited address is))) [] of Inl msg \<Rightarrow> Inl msg
           | Inr u \<Rightarrow>
               (case new_blocks is (split_blocks address is PROLOGUE 0 0) of Inl msg \<Rightarrow> Inl msg
                | Inr bbs \<Rightarrow> Inr \<lparr>fn_name = function_name name address, fn_realName = name, fn_address = address,
                    fn_size = sum_list (map bb_size bbs), fn_bbs = bbs,
                    fn_registerIndirectJumps = list_ex (\<lambda>i. isRegisterIndirectJump (insn_class_of i) i) (visited address is),
                    fn_usedInsns = u, fn_bc_size = sum_list (map bb_bc_size bbs), fn_maxStackHeight = 0,
                    fn_registerDestinations = no_use, fn_registerSources = no_use, fn_start = False\<rparr>))"

text \<open>The results of the blocks' first passes are not used.\<close>

primrec pass1_blocks :: "jctx \<Rightarrow> basic_block list \<Rightarrow> func \<Rightarrow> string + func \<times> u32 list" where
  "pass1_blocks c [] f = Inr (f, [])"
| "pass1_blocks c (b # bs) f =
     (case bb_pass1 c b of Inl msg \<Rightarrow> Inl msg
      | Inr (b, marks, ok) \<Rightarrow>
          (case pass1_blocks c bs (f\<lparr>fn_bbs := fn_bbs f @ [b],
              fn_registerDestinations := fst (bb_fillDestinations c b (fn_registerDestinations f)),
              fn_registerSources := fst (bb_fillSources c b (fn_registerSources f)),
              fn_maxStackHeight := max (fn_maxStackHeight f) (bb_maxStackHeight b)\<rparr>) of Inl msg \<Rightarrow> Inl msg
           | Inr (f, marks') \<Rightarrow> Inr (f, marks @ marks')))"

definition fn_pass1 :: "jctx \<Rightarrow> func \<Rightarrow> string + func \<times> u32 list \<times> bool" where
  "fn_pass1 c f = map_sum id (\<lambda>(f, marks). (f, marks, True)) (pass1_blocks c (fn_bbs f) (f\<lparr>fn_bbs := []\<rparr>))"

text \<open>The second pass stops at the first block that fails.\<close>

primrec pass2_blocks :: "jctx \<Rightarrow> u32 \<Rightarrow> u32 list \<Rightarrow> basic_block list \<Rightarrow> emit_state \<Rightarrow> emission \<times> emit_state" where
  "pass2_blocks c m labels [] es = (lines [], es)"
| "pass2_blocks c m labels (b # bs) es =
     (case bb_pass2 c m labels b es of
        (Inl msg, es) \<Rightarrow> (Inl msg, es)
      | (Inr (is, ok), es) \<Rightarrow>
          if ok then (case pass2_blocks c m labels bs es of (rest, es) \<Rightarrow> (and_all [Inr (is, True), rest], es))
          else (Inr (is, False), es))"

definition fn_pass2 :: "jctx \<Rightarrow> u32 \<Rightarrow> u32 list \<Rightarrow> func \<Rightarrow> emit_state \<Rightarrow> emission \<times> emit_state" where
  "fn_pass2 c m labels f = pass2_blocks c m labels (fn_bbs f)"

definition fn_fillDestinations :: "func \<Rightarrow> usage \<Rightarrow> usage \<times> nat" where
  "fn_fillDestinations f p = ((\<lambda>r. if r < N_REGS then p r + fn_registerDestinations f r else p r), 1)"

definition fn_fillSources :: "func \<Rightarrow> usage \<Rightarrow> usage \<times> nat" where
  "fn_fillSources f p = ((\<lambda>r. if r < N_REGS then p r + fn_registerSources f r else p r), 0)"

text \<open>The start function defines all it is entered with.\<close>

definition new_StartFunction :: "string \<Rightarrow> insn list \<Rightarrow> nat \<Rightarrow> nat \<Rightarrow> string + func" where
  "new_StartFunction name insns first_insn last_insn =
     map_sum id (\<lambda>f. f\<lparr>fn_name := ''start'', fn_start := True\<rparr>) (new_Function name insns first_insn last_insn)"

definition start_pass1 :: "jctx \<Rightarrow> func \<Rightarrow> string + func \<times> u32 list \<times> bool" where
  "start_pass1 c f = map_sum id (\<lambda>(f, marks, ok).
     (f\<lparr>fn_registerDestinations := fst (addAll [R_SP, R_A0, R_A1, R_A2, R_A3, R_V0, R_V1] (fn_registerDestinations f))\<rparr>, marks, ok))
     (fn_pass1 c f)"

end
