(* ===== verification/Method.thy ===== *)
theory Method
  imports Blocks
begin

text \<open>
  Java methods: tools/translator/javamethod.cc and javamethod.hh.  A method holds one function or
  several colocated ones; its first pass finds the registers it uses, its arguments and its result,
  its second pass allocates the registers and writes the method.  What the ELF file knows of a function
  (the number of arguments and the size of the result, -1 for unknown) is a parameter.
\<close>

unbundle bit_operations_syntax

subsection \<open>The method\<close>

record java_method =
  mt_functions :: "func list"
  mt_address :: u32
  mt_size :: nat
  mt_registerUsage :: usage
  mt_possibleArguments :: "MIPS_register list"
  mt_n_registersToPass :: nat
  mt_registerIndirectJumps :: bool
  mt_exceptionHandlers :: "handler list"
  mt_returnLocations :: "u32 list"
  mt_bc_size :: nat
  mt_maxStackHeight :: nat
  mt_returnSize :: int
  mt_jumptabLabels :: "u32 list"

text \<open>\<open>if (getAddress() > this->address) this->address = getAddress()\<close>\<close>

definition highest_address :: "func list \<Rightarrow> u32" where
  "highest_address fns = foldl (\<lambda>a f. if a < fn_address f then fn_address f else a) 0 fns"

definition new_JavaMethod :: "func list \<Rightarrow> nat \<Rightarrow> nat \<Rightarrow> string + java_method" where
  "new_JavaMethod fns first stop =
     (if stop < first then Inl ''First and last in method constructor are invalid''
      else let fs = take (stop - first + 1) (drop first fns)
        in Inr \<lparr>mt_functions = fs, mt_address = highest_address fs, mt_size = sum_list (map fn_size fs),
             mt_registerUsage = no_use,
             mt_possibleArguments = [R_SP, R_FNA, R_A0, R_A1, R_A2, R_A3, R_ZERO],
             mt_n_registersToPass = 0, mt_registerIndirectJumps = False, mt_exceptionHandlers = [],
             mt_returnLocations = [], mt_bc_size = sum_list (map fn_bc_size fs), mt_maxStackHeight = 0,
             mt_returnSize = - 1, mt_jumptabLabels = []\<rparr>)"

definition hasMultipleFunctions :: "java_method \<Rightarrow> bool" where
  "hasMultipleFunctions mt \<longleftrightarrow> length (mt_functions mt) > 1"

definition mt_name :: "java_method \<Rightarrow> string" where
  "mt_name mt = fn_name (hd (mt_functions mt))"

definition clobbersReg :: "java_method \<Rightarrow> MIPS_register \<Rightarrow> bool" where
  "clobbersReg mt reg \<longleftrightarrow> mt_registerUsage mt reg > 0"

definition fn_opcodeIsUsed :: "func \<Rightarrow> mips_opcode \<Rightarrow> bool" where
  "fn_opcodeIsUsed f opc \<longleftrightarrow> opc \<in> set (fn_usedInsns f)"

definition mt_opcodeIsUsed :: "java_method \<Rightarrow> mips_opcode \<Rightarrow> bool" where
  "mt_opcodeIsUsed mt opc \<longleftrightarrow> list_ex (\<lambda>f. fn_opcodeIsUsed f opc) (mt_functions mt)"

subsection \<open>Arguments and result\<close>

definition argument_list :: "java_method \<Rightarrow> MIPS_register list" where
  "argument_list mt = takeWhile (\<lambda>r. r \<noteq> R_ZERO) (mt_possibleArguments mt)"

text \<open>The iterator: from index \<open>it\<close> on, the next argument that the method uses, or \<open>R_ZERO\<close> at the end.\<close>

definition getNextRegisterToPass :: "java_method \<Rightarrow> nat \<Rightarrow> MIPS_register \<times> nat" where
  "getNextRegisterToPass mt it =
     (let it = it + length (takeWhile (\<lambda>r. r \<noteq> R_ZERO \<and> \<not> clobbersReg mt r) (drop it (mt_possibleArguments mt)))
      in (if it < length (mt_possibleArguments mt) then mt_possibleArguments mt ! it else R_ZERO, it + 1))"

definition getFirstRegisterToPass :: "java_method \<Rightarrow> MIPS_register \<times> nat" where
  "getFirstRegisterToPass mt = getNextRegisterToPass mt 0"

text \<open>\<open>for (reg = getFirst(&it); reg != R_ZERO; reg = getNext(&it))\<close>\<close>

function pass_loop :: "java_method \<Rightarrow> MIPS_register \<times> nat \<Rightarrow> MIPS_register list" where
  "pass_loop mt (reg, it) =
     (if reg = R_ZERO \<or> length (mt_possibleArguments mt) < it then []
      else reg # pass_loop mt (getNextRegisterToPass mt it))"
  by pat_completeness auto
termination
  by (relation "measure (\<lambda>(mt, _, it). Suc (length (mt_possibleArguments mt)) - it)")
    (auto simp: getNextRegisterToPass_def Let_def)

declare pass_loop.simps [simp del]

definition registersToPass :: "java_method \<Rightarrow> MIPS_register list" where
  "registersToPass mt = pass_loop mt (getFirstRegisterToPass mt)"

definition registerIsArgument :: "java_method \<Rightarrow> MIPS_register \<Rightarrow> bool" where
  "registerIsArgument mt reg \<longleftrightarrow> reg \<in> set (argument_list mt)"

definition returnSize :: "java_method \<Rightarrow> string + int" where
  "returnSize mt =
     (if mt_returnSize mt < 0 \<or> 2 < mt_returnSize mt then Inl ''returnSize accessed too soon'' else Inr (mt_returnSize mt))"

definition setReturnSize :: "int \<Rightarrow> java_method \<Rightarrow> string + java_method" where
  "setReturnSize n mt =
     (if n < 0 \<or> 2 < n then Inl ''return size is out of bounds'' else Inr (mt\<lparr>mt_returnSize := n\<rparr>))"

text \<open>The name with its descriptor.\<close>

definition getJavaMethodName :: "config \<Rightarrow> java_method \<Rightarrow> string + string" where
  "getJavaMethodName cfg mt =
     map_sum id (\<lambda>n. mt_name mt @ ''('' @ replicate (mt_n_registersToPass mt) (CHR ''I'') @ '')'' @
       (if threadSafe cfg then (if n = 2 then ''J'' else if n = 1 then ''I'' else ''V'')
        else (if n \<ge> 1 then ''I'' else ''V''))) (returnSize mt)"

subsection \<open>Functions by address\<close>

definition in_function :: "u32 \<Rightarrow> func \<Rightarrow> bool" where
  "in_function addr f \<longleftrightarrow> fn_address f \<le> addr \<and> addr \<le> fn_address f + of_nat (fn_size f)"

definition getFunctionByAddress :: "java_method \<Rightarrow> u32 \<Rightarrow> func option" where
  "getFunctionByAddress mt addr = find (in_function addr) (mt_functions mt)"

primrec index_from :: "u32 \<Rightarrow> int \<Rightarrow> func list \<Rightarrow> int" where
  "index_from addr i [] = - 1"
| "index_from addr i (f # fs) = (if in_function addr f then i else index_from addr (i + 1) fs)"

definition getFunctionIndexByAddress :: "java_method \<Rightarrow> u32 \<Rightarrow> int" where
  "getFunctionIndexByAddress mt addr = index_from addr 0 (mt_functions mt)"

subsection \<open>The first pass\<close>

definition pass1_function :: "jctx \<Rightarrow> func \<Rightarrow> string + func \<times> u32 list \<times> bool" where
  "pass1_function c f = (if fn_start f then start_pass1 c f else fn_pass1 c f)"

primrec pass1_functions :: "jctx \<Rightarrow> func list \<Rightarrow> string + func list \<times> u32 list \<times> bool" where
  "pass1_functions c [] = Inr ([], [], True)"
| "pass1_functions c (f # fs) =
     (case pass1_function c f of Inl msg \<Rightarrow> Inl msg
      | Inr (f, marks, ok) \<Rightarrow> map_sum id (\<lambda>(fs, marks', ok'). (f # fs, marks @ marks', ok \<and> ok')) (pass1_functions c fs))"

text \<open>The handlers that the first pass of the catch instructions adds.\<close>

definition insn_catches :: "jctx \<Rightarrow> insn \<Rightarrow> handler list" where
  "insn_catches c i =
     (if i_kind i = CatchInsn
      then case c_catch c (i_address i) of Some (_, start) \<Rightarrow> [ExceptionHandler start (i_address i)] | None \<Rightarrow> []
      else [])"

definition catch_handlers :: "jctx \<Rightarrow> func list \<Rightarrow> handler list" where
  "catch_handlers c fs = concat (map (\<lambda>f. concat (map (\<lambda>b. concat (map (\<lambda>i. insn_catches c i @
     (case i_delayed i of Some d \<Rightarrow> insn_catches c d | None \<Rightarrow> [])) (bb_insns b))) (fn_bbs f))) fs)"

text \<open>With a known number of arguments the list ends behind the last one needed.\<close>

definition cut_arguments :: "int \<Rightarrow> MIPS_register list \<Rightarrow> MIPS_register list" where
  "cut_arguments n_args args =
     (let args = if n_args \<le> 3 then args[5 := R_ZERO] else args;
          args = if n_args \<le> 2 then args[4 := R_ZERO] else args;
          args = if n_args \<le> 1 then args[3 := R_ZERO] else args
      in if n_args = 0 then args[2 := R_ZERO] else args)"

definition result_words_used :: "java_method \<Rightarrow> int" where
  "result_words_used mt = (if clobbersReg mt R_V0 \<and> clobbersReg mt R_V1 then 2 else if clobbersReg mt R_V0 then 1 else 0)"

definition method_usage :: "java_method \<Rightarrow> func list \<Rightarrow> usage" where
  "method_usage mt fs =
     (let usage = foldl (\<lambda>p f. fst (fn_fillSources f (fst (fn_fillDestinations f p)))) (mt_registerUsage mt) fs
      in if hasMultipleFunctions mt then usage(R_FNA := usage R_FNA + 1) else usage)"

definition method_arguments :: "config \<Rightarrow> (int \<times> int) option \<Rightarrow> MIPS_register list \<Rightarrow> MIPS_register list" where
  "method_arguments cfg sy args =
     (case sy of Some (n_args, _) \<Rightarrow> if optimizeFunctionReturnArguments cfg \<and> n_args \<ge> 0 then cut_arguments n_args args else args
      | None \<Rightarrow> args)"

definition method_result :: "config \<Rightarrow> (int \<times> int) option \<Rightarrow> java_method \<Rightarrow> int" where
  "method_result cfg sy mt =
     (case sy of Some (_, ret) \<Rightarrow> if optimizeFunctionReturnArguments cfg \<and> 0 \<le> ret \<and> ret \<le> 2 then ret else result_words_used mt
      | None \<Rightarrow> result_words_used mt)"

definition mt_pass1 :: "jctx \<Rightarrow> (u32 \<Rightarrow> (int \<times> int) option) \<Rightarrow> java_method \<Rightarrow> string + java_method \<times> u32 list \<times> bool" where
  "mt_pass1 c elf_sym mt =
     (case pass1_functions c (mt_functions mt) of Inl msg \<Rightarrow> Inl msg
      | Inr (fs, marks, ok) \<Rightarrow>
          let sy = elf_sym (mt_address mt);
              mt = mt\<lparr>mt_functions := fs, mt_registerUsage := method_usage mt fs,
                mt_possibleArguments := method_arguments (c_config c) sy (mt_possibleArguments mt),
                mt_registerIndirectJumps := mt_registerIndirectJumps mt \<or> list_ex fn_registerIndirectJumps fs,
                mt_maxStackHeight := foldl max (mt_maxStackHeight mt) (map fn_maxStackHeight fs),
                mt_exceptionHandlers := mt_exceptionHandlers mt @ catch_handlers c fs\<rparr>;
              mt = mt\<lparr>mt_n_registersToPass := mt_n_registersToPass mt + length (registersToPass mt)\<rparr>
          in map_sum id (\<lambda>mt. (mt, marks, ok)) (setReturnSize (method_result (c_config c) sy mt) mt))"

text \<open>What instructions see of a method.\<close>

definition jmeth_of :: "config \<Rightarrow> java_method \<Rightarrow> jmeth" where
  "jmeth_of cfg mt = \<lparr>jm_address = mt_address mt, jm_size = of_nat (mt_size mt), jm_name = mt_name mt,
     jm_java_name = (case getJavaMethodName cfg mt of Inr s \<Rightarrow> s | Inl _ \<Rightarrow> []),
     jm_multiple = hasMultipleFunctions mt, jm_bytecode_size = mt_bc_size mt, jm_opcode_used = mt_opcodeIsUsed mt,
     jm_registers_to_pass = registersToPass mt, jm_return_size = nat (mt_returnSize mt),
     jm_function_index = getFunctionIndexByAddress mt, jm_return_locations = mt_returnLocations mt\<rparr>"

subsection \<open>Exception handlers\<close>

definition handler_label :: "handler \<Rightarrow> string" where
  "handler_label h = handler_name (h_start h) (h_end h)"

definition catch_handler_pass2 :: "jctx \<Rightarrow> handler \<Rightarrow> emission" where
  "catch_handler_pass2 c h =
     (case c_call_table c of None \<Rightarrow> Inl ''No call table method???''
      | Some m \<Rightarrow> (case c_class c (jm_name m) of None \<Rightarrow> Inl ''No class for the call table method???''
        | Some cl \<Rightarrow> ignoring (seq [
            lines [Label (Lbl (handler_label h)), Invokestatic (CRunTime ''registerObject'' ''(Ljava/lang/Object;)I'')],
            bc_pushregister (c_alloc c) R_ECB, lines [Swap],
            bc_pushregister (c_alloc c) R_SP, lines [Swap],
            bc_pushregister (c_alloc c) R_EAR, bc_pushconst 0, bc_pushconst 0,
            lines [Invokestatic (Method (cl @ ''/'') (jm_java_name m)), Pop, Goto (L_addr (h_end h))]])))"

definition setjmp_handler_pass2 :: "jctx \<Rightarrow> handler \<Rightarrow> u32 \<Rightarrow> emission" where
  "setjmp_handler_pass2 c h target =
     (let other = Lbl (''L_setjmp_handler_'' @ handler_label h @ ''_not_this'')
      in ignoring (seq [
        lines [Label (Lbl (handler_label h)), Dup, Invokevirtual ''SetjmpException/getCookie()I''],
        bc_pushconst 2, lines [Ishr], bc_pushregister (c_alloc c) R_MEM, lines [Swap, Iaload],
        bc_pushconst (sint target), lines [Condbranch If_icmpne other, Invokevirtual ''SetjmpException/getValue()I''],
        bc_popregister (c_alloc c) R_V0, lines [Goto (L_addr target), Label other, Athrow]]))"

primrec handler_pass2 :: "jctx \<Rightarrow> handler \<Rightarrow> emission" where
  "handler_pass2 c (ExceptionHandler s e) = catch_handler_pass2 c (ExceptionHandler s e)"
| "handler_pass2 c (SetjmpExceptionHandler s e t) = setjmp_handler_pass2 c (SetjmpExceptionHandler s e t) t"

subsection \<open>Subroutines for parts of a word\<close>

text \<open>
  With \<open>optimize_partial_memory_operations\<close>: called by \<open>jsr\<close> with the address below the return
  address; the subroutines for stores are empty.
\<close>

definition emitStoreSubroutine :: "jctx \<Rightarrow> mips_opcode \<Rightarrow> emission" where
  "emitStoreSubroutine c opc = lines []"

definition emitLoadSubroutine :: "jctx \<Rightarrow> mips_opcode \<Rightarrow> emission" where
  "emitLoadSubroutine c opc =
     (let half = (opc = OP_LHU \<or> opc = OP_LH);
          and_value = if half then 2 else 3;
          mask_value = if half then 0xffff else 0xff;
          ra = c_alloc c
      in seq [
        lines [Label (Lbl (''__CIBYL_memoryRead'' @ (if opc = OP_LBU \<or> opc = OP_LB then ''Byte'' else ''Short'') @
          (if opc = OP_LBU \<or> opc = OP_LHU then ''Unsigned'' else [])))],
        bc_astore ra R_MADR,
        lines [Dup], bc_pushregister ra R_MEM, lines [Swap], bc_pushconst 2, lines [Iushr, Iaload],
        lines [Swap], bc_pushconst and_value, lines [Iand], bc_pushconst and_value, lines [Swap, Isub],
        bc_pushconst 3, lines [Ishl],
        lines [Iushr],
        if opc = OP_LHU then lines [I2c]
        else if opc = OP_LB then lines [I2b]
        else if opc = OP_LH then lines [I2s]
        else seq [bc_pushconst mask_value, lines [Iand]],
        bc_ret ra R_MADR])"

definition emitSubroutineForOp :: "jctx \<Rightarrow> mips_opcode \<Rightarrow> emission" where
  "emitSubroutineForOp c opc =
     panic_if (opc \<notin> {OP_LB, OP_LBU, OP_LH, OP_LHU, OP_SB, OP_SH}) ''Illegal opcode passed to emitLoadStoreSubroutines''
       (if opc = OP_LBU \<or> opc = OP_LHU \<or> opc = OP_LB \<or> opc = OP_LH
        then emitLoadSubroutine c opc else emitStoreSubroutine c opc)"

text \<open>The opcodes whose subroutine is emitted, in order: each once.\<close>

definition subroutine_opcodes :: "java_method \<Rightarrow> mips_opcode list" where
  "subroutine_opcodes mt =
     foldl (\<lambda>emitted f. foldl (\<lambda>emitted opc. if \<not> List.member emitted opc \<and> fn_opcodeIsUsed f opc then emitted @ [opc] else emitted)
        emitted [OP_LB, OP_LBU, OP_LH, OP_LHU, OP_SB, OP_SH])
      [] (mt_functions mt)"

definition emitSubroutines :: "jctx \<Rightarrow> java_method \<Rightarrow> emission" where
  "emitSubroutines c mt = ignoring (seq (map (emitSubroutineForOp c) (subroutine_opcodes mt)))"

subsection \<open>The second pass\<close>

definition two_wide :: "int \<Rightarrow> string" where
  "two_wide i = replicate (2 - length (decimal i)) (CHR '' '') @ decimal i"

definition method_header :: "jctx \<Rightarrow> java_method \<Rightarrow> string \<Rightarrow> emission" where
  "method_header c mt name = lines (
     Generic (nl @ ''.method public static '' @ name @ nl @
       ''.limit stack '' @ decimal (int (mt_maxStackHeight mt) + 2) @ nl @
       ''.limit locals '' @ decimal (int (n_locals (c_alloc c))) @ nl) #
     map (\<lambda>i. Generic (''; local '' @ two_wide (regToLocal (c_alloc c) i) @ '' is register '' @ mips_reg_strings ! i @ nl))
       (filter (\<lambda>i. mt_registerUsage mt i \<noteq> 0) [0..<N_REGS]))"

text \<open>Every register the method uses is initialised, unless it is an argument.\<close>

definition zero_register :: "jctx \<Rightarrow> java_method \<Rightarrow> MIPS_register \<Rightarrow> emission" where
  "zero_register c mt i =
     panic_if (i = R_FNA \<and> mt_registerUsage mt i > 0 \<and> \<not> hasMultipleFunctions mt) ''a single-function method uses R_FNA''
      (emit_if (\<not> registerIsArgument mt i \<and> mt_registerUsage mt i > 0)
        (seq [if hasMultipleFunctions mt \<and> i = R_RA then bc_pushconst (- 1)
              else if i = R_MEM then lines [Getstatic ''CRunTime/memory [I'']
              else bc_pushconst 0,
              bc_popregister (c_alloc c) i]))"

definition zero_registers :: "jctx \<Rightarrow> java_method \<Rightarrow> emission" where
  "zero_registers c mt = ignoring (seq (map (zero_register c mt) [0..<N_REGS]))"

definition function_return :: jlabel where "function_return = Lbl ''__CIBYL_function_return''"

primrec pass2_functions :: "jctx \<Rightarrow> java_method \<Rightarrow> u32 list \<Rightarrow> func list \<Rightarrow> emit_state \<Rightarrow> emission list \<times> emit_state" where
  "pass2_functions c mt labels [] es = ([], es)"
| "pass2_functions c mt labels (f # fs) es =
     (let (e, es1) = fn_pass2 c (mt_address mt) labels f es;
          (rest, es2) = pass2_functions c mt labels fs es1
      in (lines (if hasMultipleFunctions mt then [Label (L_addr (fn_address f))] else []) # e # rest, es2))"

definition return_sequence :: "jctx \<Rightarrow> int \<Rightarrow> emission" where
  "return_sequence c n =
     (let ra = c_alloc c
      in if threadSafe (c_config c)
         then if n = 2
           then seq [bc_pushregister ra R_V1, lines [I2l], bc_pushconst 32, lines [Lshl],
                     bc_pushregister ra R_V0, lines [I2l, Lor, Lreturn]]
           else if n = 1 then seq [bc_pushregister ra R_V0, lines [Ireturn]]
           else lines [Return]
         else seq [
           emit_if (n = 2) (seq [bc_pushregister ra R_V1, lines [Putstatic ''CRunTime/saved_v1 I'']]),
           if n \<ge> 1 then seq [bc_pushregister ra R_V0, lines [Ireturn]] else lines [Return]])"

definition mt_pass2 :: "jctx \<Rightarrow> u32 list \<Rightarrow> java_method \<Rightarrow> u32 list \<Rightarrow> emission \<times> emit_state" where
  "mt_pass2 c0 labels mt targets =
     (let c = c0\<lparr>c_alloc := setAllocation (mt_registerUsage mt) (c_alloc c0)\<rparr>;
          multiple = hasMultipleFunctions mt;
          es0 = \<lparr>es_returns = mt_returnLocations mt, es_targets = targets, es_handlers = mt_exceptionHandlers mt\<rparr>;
          (fns, es) = pass2_functions c mt labels (mt_functions mt) es0
      in case (getJavaMethodName (c_config c) mt, returnSize mt) of
           (Inr name, Inr n) \<Rightarrow>
             (and_all ([
                method_header c mt name,
                zero_registers c mt,
                emit_if (optimizePartialMemoryOps (c_config c))
                  (ignoring (seq [lines [Goto (Lbl ''__CIBYL_javamethod_begin'')], emitSubroutines c mt])),
                lines [Label (Lbl ''__CIBYL_javamethod_begin'')],
                emit_if multiple (seq [bc_pushregister (c_alloc c) R_FNA,
                  lines [Tableswitch 0 (map fn_address (mt_functions mt)) function_return]])] @
               fns @
               [emit_if (mt_registerIndirectJumps mt)
                  (lines [Goto function_return, Label (Lbl ''__CIBYL_local_jumptab''),
                     Lookupswitch (mt_jumptabLabels mt) function_return]),
                lines [Label (Lbl ''__CIBYL_exception_handlers'')]] @
               map (handler_pass2 c) (es_handlers es) @
               [lines [Label function_return],
                emit_if (multiple \<and> es_returns es \<noteq> [])
                  (seq [bc_pushregister (c_alloc c) R_RA,
                     lines [Tableswitch 0 (es_returns es) (Lbl ''__CIBYL_function_return_non_local''),
                       Label (Lbl ''__CIBYL_function_return_non_local'')]]),
                ignoring (return_sequence c n),
                lines [Generic (''.end method ; '' @ name @ nl)]]), es)
         | (Inl msg, _) \<Rightarrow> (Inl msg, es)
         | (_, Inl msg) \<Rightarrow> (Inl msg, es))"

end
