(* ===== verification/Classes.thy ===== *)
theory Classes
  imports Method
begin

text \<open>
  Java classes and the methods that are not translated functions: javaclass.cc, functioncolocation.cc
  and calltablemethod.cc of tools/translator.  Text that goes to a Java source file is a string.
\<close>

unbundle bit_operations_syntax

subsection \<open>Classes (javaclass.cc)\<close>

record java_class =
  cl_name :: string
  cl_filename :: string
  cl_methods :: "java_method list"
  cl_n_multiFunctionMethods :: nat
  cl_call_table :: bool

definition method_cmp :: "java_method \<Rightarrow> java_method \<Rightarrow> int" where
  "method_cmp a b = sint (mt_address a - mt_address b)"

definition method_end :: "java_method \<Rightarrow> u32" where
  "method_end mt = mt_address mt + of_nat (mt_size mt)"

definition method_search_cmp :: "u32 \<Rightarrow> java_method \<Rightarrow> int" where
  "method_search_cmp k b =
     (if mt_address b \<le> k \<and> k \<le> method_end b then 0 else if k < mt_address b then - 1 else 1)"

text \<open>
  The loop that moves the methods with several functions to the end.  \<open>skip_multi\<close> is the inner
  \<open>while\<close>; it returns \<open>last_idx\<close> and \<open>n_multiFunctionMethods\<close>.
\<close>

fun skip_multi :: "java_method list \<Rightarrow> nat \<Rightarrow> nat \<Rightarrow> nat \<times> nat" where
  "skip_multi ms 0 n = (0, n)"
| "skip_multi ms (Suc l) n = (if hasMultipleFunctions (ms ! Suc l) then skip_multi ms l (n + 1) else (Suc l, n))"

definition swap_at :: "nat \<Rightarrow> nat \<Rightarrow> 'a list \<Rightarrow> 'a list" where
  "swap_at i j xs = xs[i := xs ! j, j := xs ! i]"

function order_loop :: "java_method list \<Rightarrow> nat \<Rightarrow> nat \<Rightarrow> nat \<Rightarrow> string + java_method list \<times> nat" where
  "order_loop ms i l n =
     (if length ms \<le> i then Inr (ms, n)
      else
        let (l', n') = skip_multi ms l n
        in if l' = 0 \<or> i = l' then Inr (ms, n')
           else if hasMultipleFunctions (ms ! l') then Inl ''Implementation error: The last method has multiple functions''
           else order_loop (if hasMultipleFunctions (ms ! i) then swap_at i l' ms else ms) (i + 1) l' n')"
  by pat_completeness auto
termination by (relation "measure (\<lambda>(ms, i, _, _). length ms - i)") (auto simp: swap_at_def)

declare order_loop.simps [simp del]

definition new_JavaClass :: "string \<Rightarrow> java_method list \<Rightarrow> nat \<Rightarrow> nat \<Rightarrow> string + java_class" where
  "new_JavaClass name ms first stop =
     (if stop < first then Inl ''Creating a class with methods''
      else let ms = take (stop - first + 1) (drop first ms)
        in case order_loop ms 0 (length ms - 1) 0 of Inl msg \<Rightarrow> Inl msg
           | Inr (ms, n) \<Rightarrow> Inr \<lparr>cl_name = name, cl_filename = name @ ''.j'',
               cl_methods = qsort method_cmp (take (length ms - n) ms) @ drop (length ms - n) ms,
               cl_n_multiFunctionMethods = n, cl_call_table = False\<rparr>)"

definition single_methods :: "java_class \<Rightarrow> java_method list" where
  "single_methods cl = take (length (cl_methods cl) - cl_n_multiFunctionMethods cl) (cl_methods cl)"

definition multi_methods :: "java_class \<Rightarrow> java_method list" where
  "multi_methods cl = drop (length (cl_methods cl) - cl_n_multiFunctionMethods cl) (cl_methods cl)"

text \<open>The method and its index; the class of the call table has no methods by address.\<close>

definition find_multi :: "java_class \<Rightarrow> u32 \<Rightarrow> nat option" where
  "find_multi cl addr = find (\<lambda>i. getFunctionByAddress (cl_methods cl ! i) addr \<noteq> None)
     [length (cl_methods cl) - cl_n_multiFunctionMethods cl..<length (cl_methods cl)]"

definition cl_getMethodIndex :: "java_class \<Rightarrow> u32 \<Rightarrow> nat option" where
  "cl_getMethodIndex cl addr =
     (if cl_call_table cl then None
      else case bsearch method_search_cmp addr (single_methods cl) of
        Some i \<Rightarrow> Some i
      | None \<Rightarrow> find_multi cl addr)"

definition cl_getMethodByAddress :: "java_class \<Rightarrow> u32 \<Rightarrow> java_method option" where
  "cl_getMethodByAddress cl addr = map_option (\<lambda>i. cl_methods cl ! i) (cl_getMethodIndex cl addr)"

definition getMethodByIndex :: "java_class \<Rightarrow> int \<Rightarrow> java_method option" where
  "getMethodByIndex cl idx =
     (if idx < 0 \<or> idx > int (length (cl_methods cl)) then None
      else if nat idx < length (cl_methods cl) then Some (cl_methods cl ! nat idx) else None)"

primrec pass1_methods ::
  "jctx \<Rightarrow> (u32 \<Rightarrow> (int \<times> int) option) \<Rightarrow> java_method list \<Rightarrow> string + java_method list \<times> u32 list \<times> bool" where
  "pass1_methods c elf_sym [] = Inr ([], [], True)"
| "pass1_methods c elf_sym (m # ms) =
     (case mt_pass1 c elf_sym m of Inl msg \<Rightarrow> Inl msg
      | Inr (m, marks, ok) \<Rightarrow>
          map_sum id (\<lambda>(ms, marks', ok').
            (m\<lparr>mt_jumptabLabels := sortJumptabLabels (mt_jumptabLabels m)\<rparr> # ms, marks @ marks', ok \<and> ok'))
            (pass1_methods c elf_sym ms))"

definition cl_pass1 :: "jctx \<Rightarrow> (u32 \<Rightarrow> (int \<times> int) option) \<Rightarrow> java_class \<Rightarrow> string + java_class \<times> u32 list \<times> bool" where
  "cl_pass1 c elf_sym cl =
     map_sum id (\<lambda>(ms, marks, ok). (cl\<lparr>cl_methods := ms\<rparr>, marks, ok)) (pass1_methods c elf_sym (cl_methods cl))"

definition class_header :: "string \<Rightarrow> string \<Rightarrow> string" where
  "class_header path name =
     ''.class public '' @ path @ name @ nl @
     ''.super java/lang/Object'' @ nl @ nl @
     ''.method public <init>()V'' @ nl @
     tab @ ''aload_0'' @ nl @
     tab @ ''invokenonvirtual java/lang/Object.<init>()V'' @ nl @
     tab @ ''return'' @ nl @
     ''.end method'' @ nl"

primrec pass2_methods :: "jctx \<Rightarrow> u32 list \<Rightarrow> java_method list \<Rightarrow> u32 list \<Rightarrow> emission list \<times> u32 list" where
  "pass2_methods c labels [] targets = ([], targets)"
| "pass2_methods c labels (m # ms) targets =
     (let (e, es) = mt_pass2 c labels m targets; (rest, targets') = pass2_methods c labels ms (es_targets es)
      in (e # rest, targets'))"

definition cl_pass2 :: "jctx \<Rightarrow> u32 list \<Rightarrow> java_class \<Rightarrow> u32 list \<Rightarrow> emission \<times> u32 list" where
  "cl_pass2 c labels cl targets =
     (let (es, targets') = pass2_methods c labels (cl_methods cl) targets
      in (and_all (lines [Generic (class_header (c_path c) (cl_name cl))] # es), targets'))"

subsection \<open>Colocated functions (functioncolocation.cc)\<close>

text \<open>The names between semicolons, and the functions found for them.\<close>

record coloc =
  co_str :: string
  co_names :: "string list"
  co_fns :: "func option list"

function coloc_names :: "string \<Rightarrow> string list" where
  "coloc_names p =
     (if p = [] then []
      else let name = takeWhile (\<lambda>ch. ch \<noteq> CHR '';'') p in name # coloc_names (drop (length name + 1) p))"
  by pat_completeness auto
termination by (relation "measure length") auto

declare coloc_names.simps [simp del]

definition new_FunctionColocation :: "string \<Rightarrow> string + coloc" where
  "new_FunctionColocation str =
     (let names = coloc_names str
      in if names = [] then Inl ''Function coloc string has the wrong format''
         else Inr \<lparr>co_str = str, co_names = names, co_fns = map (\<lambda>_. None) names\<rparr>)"

text \<open>\<open>name_to_coloc\<close>: a later colocation of a name replaces an earlier one.\<close>

definition coloc_lookup :: "coloc list \<Rightarrow> string \<Rightarrow> nat option" where
  "coloc_lookup cs name = foldl (\<lambda>found i. if List.member (co_names (cs ! i)) name then Some i else found) None [0..<length cs]"

definition index_of :: "'a \<Rightarrow> 'a list \<Rightarrow> nat option" where
  "index_of x xs = find (\<lambda>i. xs ! i = x) [0..<length xs]"

definition coloc_addFunction :: "func \<Rightarrow> coloc \<Rightarrow> string + coloc" where
  "coloc_addFunction f co =
     (case index_of (fn_realName f) (co_names co) of
        None \<Rightarrow> Inl ''Function not found in coloc''
      | Some i \<Rightarrow> Inr (co\<lparr>co_fns := (co_fns co)[i := Some f]\<rparr>))"

definition createJavaMethod :: "coloc \<Rightarrow> string + java_method" where
  "createJavaMethod co =
     (if list_ex (\<lambda>f. f = None) (co_fns co) then Inl ''Colocating failed: not found''
      else new_JavaMethod (List.map_filter id (co_fns co)) 0 (length (co_fns co) - 1))"

subsection \<open>The call table (calltablemethod.cc)\<close>

text \<open>The functions that may be called through a pointer, by address.\<close>

fun insert_by_address :: "func \<Rightarrow> func list \<Rightarrow> func list" where
  "insert_by_address f [] = [f]"
| "insert_by_address f (g # gs) = (if fn_address f < fn_address g then f # g # gs else g # insert_by_address f gs)"

definition ct_addFunction :: "func \<Rightarrow> func list \<Rightarrow> func list" where
  "ct_addFunction f fs = (if list_ex (\<lambda>g. fn_address g = fn_address f) fs then fs else insert_by_address f fs)"

text \<open>What its first pass sets: the registers passed and a result of two words; the Java name is fixed.\<close>

definition call_table_jmeth :: "config \<Rightarrow> jmeth" where
  "call_table_jmeth cfg = \<lparr>jm_address = 0, jm_size = 0, jm_name = ''call'',
     jm_java_name = (if threadSafe cfg then ''call(IIIIII)J'' else ''call(IIIIII)I''),
     jm_multiple = False, jm_bytecode_size = 0, jm_opcode_used = (\<lambda>_. False),
     jm_registers_to_pass = [R_SP, R_A0, R_A1, R_A2, R_A3], jm_return_size = 2,
     jm_function_index = (\<lambda>_. - 1), jm_return_locations = []\<rparr>"

text \<open>One argument of a call in the table, with the separator so far.\<close>

definition table_argument :: "java_method \<Rightarrow> func \<Rightarrow> MIPS_register \<Rightarrow> string \<times> string \<Rightarrow> string + string \<times> string" where
  "table_argument mt f reg st =
     (case st of (comma, out) \<Rightarrow>
        if reg = R_SP then Inr ('','', out @ ''sp'')
        else if reg = R_FNA then
          (let idx = getFunctionIndexByAddress mt (fn_address f)
           in if idx < 0 then Inl ''Could not find function index for function in method''
              else Inr (comma, out @ comma @ '' '' @ decimal idx))
        else if reg = R_A0 then Inr ('','', out @ comma @ '' a0'')
        else if reg = R_A1 then Inr ('','', out @ comma @ '' a1'')
        else if reg = R_A2 then Inr ('','', out @ comma @ '' a2'')
        else if reg = R_A3 then Inr ('','', out @ comma @ '' a3'')
        else Inr (comma, out))"

definition table_arguments :: "java_method \<Rightarrow> func \<Rightarrow> string + string" where
  "table_arguments mt f =
     map_sum id snd (foldl (\<lambda>st reg. case st of Inl msg \<Rightarrow> Inl msg | Inr st \<Rightarrow> table_argument mt f reg st) (Inr ([], [])) (registersToPass mt))"

definition table_case :: "config \<Rightarrow> (u32 \<Rightarrow> java_method option) \<Rightarrow> (string \<Rightarrow> string option) \<Rightarrow> func \<Rightarrow> string + string" where
  "table_case cfg methods classes f =
     (case methods (fn_address f) of None \<Rightarrow> Inl ''this->methods is NULL!''
      | Some mt \<Rightarrow>
          (case classes (mt_name mt) of None \<Rightarrow> Inl ''Method has no class mapping!''
           | Some cl \<Rightarrow>
               (case (returnSize mt, table_arguments mt f) of
                  (Inr n, Inr args) \<Rightarrow> Inr (''      case 0x'' @ hex (fn_address f) @ '':  '' @
                    (if threadSafe cfg then (if n = 2 then ''ret = '' else if n = 1 then ''ret = (int)'' else [])
                     else if n \<ge> 1 then ''ret = '' else []) @
                    cl @ ''.'' @ mt_name mt @ ''('' @ args @ ''); break;'' @ nl)
                | (Inl msg, _) \<Rightarrow> Inl msg | (_, Inl msg) \<Rightarrow> Inl msg)))"

primrec concat_all :: "(string + string) list \<Rightarrow> string + string" where
  "concat_all [] = Inr []"
| "concat_all (x # xs) = (case x of Inl msg \<Rightarrow> Inl msg | Inr s \<Rightarrow> map_sum id (\<lambda>t. s @ t) (concat_all xs))"

definition quote :: string where "quote = [CHR 0x22]"

definition table_tail :: string where
  "table_tail = ''      default:'' @ nl @
     ''         throw new Exception('' @ quote @ ''Call to unknown location '' @ quote @ '' + Integer.toHexString(address));'' @ nl @
     ''    }'' @ nl @ ''    return ret;'' @ nl @ ''  }'' @ nl"

definition generateMethod ::
  "config \<Rightarrow> (u32 \<Rightarrow> java_method option) \<Rightarrow> (string \<Rightarrow> string option) \<Rightarrow> func list \<Rightarrow> string \<Rightarrow> nat \<Rightarrow> nat \<Rightarrow> string + string" where
  "generateMethod cfg methods classes fs name start stop =
     (let ret_type = if threadSafe cfg then ''long'' else ''int''
      in if length fs < stop then Inl ''segmentation fault''
         else concat_all ([Inr (''  public static final '' @ ret_type @ '' '' @ name @
                ''(int address, int sp, int a0, int a1, int a2, int a3) throws Exception {'' @ nl @
                ''    '' @ ret_type @ '' ret = 0;'' @ nl @ ''    switch(address) {'' @ nl)] @
              map (\<lambda>i. table_case cfg methods classes (fs ! i)) [start..<stop] @
              [Inr table_tail]))"

definition call_signature :: string where
  "call_signature = ''  public static final int call(int address, int sp, int a0, int a1, int a2, int a3) throws Exception {'' @ nl"

text \<open>\<open>call\<close> chooses among \<open>call0\<close>, \<open>call1\<close>, ... by the address of the method at the border.\<close>

definition hierarchy_case :: "(u32 \<Rightarrow> java_method option) \<Rightarrow> func list \<Rightarrow> nat \<Rightarrow> nat \<Rightarrow> string + string" where
  "hierarchy_case methods fs per i =
     (case (methods (fn_address (fs ! (i * per))), methods (fn_address (fs ! ((i + 1) * per)))) of
        (Some a, Some b) \<Rightarrow> Inr (''    '' @ (if i = 0 then [] else ''else'') @ '' if (address >= 0x'' @ hex (mt_address a) @
          '' && address < 0x'' @ hex (mt_address b) @ '') '' @ nl @
          ''       return CibylCallTable.call'' @ decimal (int i) @ ''(address, sp, a0, a1, a2, a3);'' @ nl)
      | _ \<Rightarrow> Inl ''segmentation fault'')"

definition generateHierarchy ::
  "config \<Rightarrow> (u32 \<Rightarrow> java_method option) \<Rightarrow> (string \<Rightarrow> string option) \<Rightarrow> func list \<Rightarrow> nat \<Rightarrow> string + string" where
  "generateHierarchy cfg methods classes fs n =
     (let per = length fs div n
      in if n \<ge> length fs then Inl ''methods in the hierarchy and only methods totally''
         else concat_all ([Inr call_signature] @ map (hierarchy_case methods fs per) [0..<n - 1] @
           [Inr (''    '' @ (if n = 1 then [] else ''else'') @ '' '' @ nl @
              ''       return CibylCallTable.call'' @ decimal (int (n - 1)) @ ''(address, sp, a0, a1, a2, a3);'' @ nl @
              ''  }'' @ nl @ nl)] @
           map (\<lambda>i. generateMethod cfg methods classes fs (''call'' @ decimal (int i)) (i * per) ((i + 1) * per)) [0..<n - 1] @
           [generateMethod cfg methods classes fs (''call'' @ decimal (int (n - 1))) ((n - 1) * per) (length fs)]))"

text \<open>With several classes: \<open>call\<close> chooses the class by the addresses of the functions at the borders.\<close>

definition class_case :: "func list \<Rightarrow> nat \<Rightarrow> nat \<Rightarrow> nat \<Rightarrow> string + string" where
  "class_case fs n per i =
     (if i < n - 1
      then (if length fs \<le> (i + 1) * per then Inl ''segmentation fault''
        else Inr (''    '' @ (if i = 0 then ''if'' else ''else if'') @ '' ( address >= 0x'' @ hex8 (fn_address (fs ! (i * per))) @
          '' && address < 0x'' @ hex8 (fn_address (fs ! ((i + 1) * per))) @ '')'' @ nl @
          ''        return CibylCallTable'' @ decimal (int i) @ ''.call(address, sp, a0, a1, a2, a3);'' @ nl))
      else Inr (''    else'' @ nl @ ''        return CibylCallTable'' @ decimal (int i) @ ''.call(address, sp, a0, a1, a2, a3);'' @ nl))"

definition exported_table :: "(string \<times> u32) list \<Rightarrow> string" where
  "exported_table syms =
     '' public static final int getAddressByName(String name) throws Exception {'' @ nl @
     concat (map (\<lambda>(name, addr). ''    if ( name == '' @ quote @ name @ quote @ '') return 0x'' @ hex addr @ '';'' @ nl) syms) @
     ''    else throw new Exception(name + '' @ quote @ '' is not exported '' @ quote @ '');'' @ nl @ '' }'' @ nl @ nl"

text \<open>The text of CibylCallTable.java, and of the files of the other classes.\<close>

definition ct_pass2 ::
  "config \<Rightarrow> (u32 \<Rightarrow> java_method option) \<Rightarrow> (string \<Rightarrow> string option) \<Rightarrow> (string \<times> u32) list option \<Rightarrow> func list \<Rightarrow>
    string + string \<times> (string \<times> string) list" where
  "ct_pass2 cfg methods classes exp_syms fs =
     (let k = callTableClasses cfg; h = callTableHierarchy cfg;
          syms = (case exp_syms of Some s \<Rightarrow> exported_table s | None \<Rightarrow> [])
      in if k = 0 then Inl ''division by zero''
         else let per = length fs div k
         in if k \<noteq> 1 \<and> h \<noteq> 1 then Inl ''Setting both number of call table classes and call table hierarchy is not allowed''
            else if h > 1 then map_sum id (\<lambda>t. (syms @ t, [])) (generateHierarchy cfg methods classes fs h)
            else if k = 1 then map_sum id (\<lambda>t. (syms @ t, [])) (generateMethod cfg methods classes fs ''call'' 0 per)
            else (case concat_all ([Inr call_signature] @ map (class_case fs k per) [0..<k] @ [Inr (''  }'' @ nl @ nl)]) of
                Inl msg \<Rightarrow> Inl msg
              | Inr main \<Rightarrow> map_sum id (\<lambda>files. (syms @ main, files))
                  (foldr (\<lambda>i rest. case rest of Inl msg \<Rightarrow> Inl msg
                     | Inr files \<Rightarrow>
                         map_sum id (\<lambda>t. (''CibylCallTable'' @ decimal (int i) @ ''.java'',
                             ''class CibylCallTable'' @ decimal (int i) @ '' {'' @ nl @ t @ ''}'' @ nl) # files)
                           (generateMethod cfg methods classes fs ''call'' (i * per) ((i + 1) * per)))
                     [0..<k] (Inr []))))"

definition call_table_class_text :: "string option \<Rightarrow> string \<Rightarrow> string" where
  "call_table_class_text package text =
     (case package of Some p \<Rightarrow> ''package '' @ p @ '';'' @ nl | None \<Rightarrow> []) @
     ''public class CibylCallTable {'' @ nl @ text @ ''}'' @ nl"

end
