(* ===== verification/Builtins.thy ===== *)
theory Builtins
  imports InsnJump
begin

text \<open>
  The functions the translator compiles inline instead of calling them: tools/translator/builtins.cc
  and builtins/64-bit-muldiv.cc, softfloat.cc and exceptions.cc.  Calls of \<open>java/lang/Float\<close> are
  \<open>Method\<close>s; the object of \<open>match\<close> is the record the calls in \<open>InsnJump\<close> see.
\<close>

unbundle bit_operations_syntax

subsection \<open>64-bit operations (64-bit-muldiv.cc)\<close>

definition push_64_bit_from_32_bit_regs :: "regalloc \<Rightarrow> MIPS_register \<Rightarrow> MIPS_register \<Rightarrow> emission" where
  "push_64_bit_from_32_bit_regs ra r1 r2 =
     seq [bc_pushregister ra r1, lines [I2l], bc_pushregister ra r2, lines [I2l],
          bc_pushconst 32, lines [Lshl], lines [Lor]]"

text \<open>The result on the stack goes to \<open>V0\<close> (high word) and \<open>V1\<close> (low word).\<close>

definition split_result :: "regalloc \<Rightarrow> emission" where
  "split_result ra = seq [lines [Dup2], bc_pushconst 32, lines [Lushr], lines [L2i],
     bc_popregister ra R_V0, lines [L2i], bc_popregister ra R_V1]"

definition MulDivBuiltinBase :: "jinsn \<Rightarrow> builtin" where
  "MulDivBuiltinBase bc = \<lparr>
     b_emission = \<lambda>ra _. seq [
       push_64_bit_from_32_bit_regs ra R_A1 R_A0, push_64_bit_from_32_bit_regs ra R_A3 R_A2,
       lines [bc], split_result ra],
     b_marks_target = False, b_handlers = (\<lambda>_. []),
     b_destinations = [R_V0, R_V1],
     b_sources = [R_A0, R_A1, R_A2, R_A3]\<rparr>"

definition DivBuiltin :: builtin where "DivBuiltin = MulDivBuiltinBase Ldiv"
definition ModBuiltin :: builtin where "ModBuiltin = MulDivBuiltinBase Lrem"

definition ShiftBuiltinBase :: "jinsn \<Rightarrow> builtin" where
  "ShiftBuiltinBase bc = (MulDivBuiltinBase bc)\<lparr>
     b_emission := \<lambda>ra _. seq [
       push_64_bit_from_32_bit_regs ra R_A1 R_A0, bc_pushregister ra R_A2,
       lines [bc], split_result ra]\<rparr>"

definition ShrBuiltin :: builtin where "ShrBuiltin = ShiftBuiltinBase Lshr"
definition ShlBuiltin :: builtin where "ShlBuiltin = ShiftBuiltinBase Lshl"

subsection \<open>Floating point (softfloat.cc)\<close>

definition int_bits_to_float :: jinsn where
  "int_bits_to_float = Invokestatic (Method ''java/lang/Float/'' ''intBitsToFloat(I)F'')"

definition float_to_int_bits :: jinsn where
  "float_to_int_bits = Invokestatic (Method ''java/lang/Float/'' ''floatToIntBits(F)I'')"

definition Arithmetic1 :: "string \<Rightarrow> builtin" where
  "Arithmetic1 bc = \<lparr>
     b_emission = \<lambda>ra _. seq [bc_pushregister ra R_A0, lines [int_bits_to_float], lines [Float_op bc],
       lines [float_to_int_bits], bc_popregister ra R_V0],
     b_marks_target = False, b_handlers = (\<lambda>_. []), b_destinations = [R_V0], b_sources = [R_A0]\<rparr>"

definition Arithmetic2 :: "string \<Rightarrow> builtin" where
  "Arithmetic2 bc = \<lparr>
     b_emission = \<lambda>ra _. seq [bc_pushregister ra R_A0, lines [int_bits_to_float],
       bc_pushregister ra R_A1, lines [int_bits_to_float], lines [Float_op bc],
       lines [float_to_int_bits], bc_popregister ra R_V0],
     b_marks_target = False, b_handlers = (\<lambda>_. []), b_destinations = [R_V0], b_sources = [R_A0, R_A1]\<rparr>"

definition Compare :: "string \<Rightarrow> builtin" where
  "Compare bc = \<lparr>
     b_emission = \<lambda>ra _. seq [bc_pushregister ra R_A0, lines [int_bits_to_float],
       bc_pushregister ra R_A1, lines [int_bits_to_float], lines [Float_op bc], bc_popregister ra R_V0],
     b_marks_target = False, b_handlers = (\<lambda>_. []), b_destinations = [R_V0], b_sources = [R_A0, R_A1]\<rparr>"

definition IntToFloat :: builtin where
  "IntToFloat = \<lparr>
     b_emission = \<lambda>ra _. seq [bc_pushregister ra R_A0, lines [I2f], lines [float_to_int_bits], bc_popregister ra R_V0],
     b_marks_target = False, b_handlers = (\<lambda>_. []), b_destinations = [R_V0], b_sources = [R_A0]\<rparr>"

definition FloatToInt :: builtin where
  "FloatToInt = \<lparr>
     b_emission = \<lambda>ra _. seq [bc_pushregister ra R_A0, lines [int_bits_to_float], lines [F2i], bc_popregister ra R_V0],
     b_marks_target = False, b_handlers = (\<lambda>_. []), b_destinations = [R_V0], b_sources = [R_A0]\<rparr>"

subsection \<open>Exceptions (exceptions.cc)\<close>

text \<open>\<open>__NOPH_try\<close> keeps the callback and its argument; its \<open>pass1\<close> also pushes the instruction on the try stack.\<close>

definition ExceptionBuiltinTry :: builtin where
  "ExceptionBuiltinTry = \<lparr>
     b_emission = \<lambda>ra _. seq [bc_pushregister ra R_A0, bc_popregister ra R_ECB,
       bc_pushregister ra R_A1, bc_popregister ra R_EAR],
     b_marks_target = True, b_handlers = (\<lambda>_. []), b_destinations = [R_EAR, R_ECB], b_sources = [R_A0, R_A1]\<rparr>"

definition SetjmpBuiltin :: "string \<Rightarrow> jmeth \<Rightarrow> builtin" where
  "SetjmpBuiltin path mt = \<lparr>
     b_emission = \<lambda>ra target. seq [
       lines [Generic (''.catch '' @ path @ ''SetjmpException from __CIBYL_javamethod_begin to __CIBYL_exception_handlers using '' @
         handler_name (jm_address mt) (jm_address mt + jm_size mt) @ nl)],
       bc_pushconst 0, bc_popregister ra R_V0, lines [Label (L_addr target)]],
     b_marks_target = False, 
     b_handlers = (\<lambda>target. [SetjmpExceptionHandler (jm_address mt) (jm_address mt + jm_size mt) target]), b_destinations = [], b_sources = []\<rparr>"

definition ThrowBuiltin :: builtin where
  "ThrowBuiltin = \<lparr>
     b_emission = \<lambda>ra _. seq [lines [Getstatic ''CRunTime/objectRepository [Ljava/lang/Object;''],
       bc_pushregister ra R_A0, lines [Aaload], lines [Checkcast ''java/lang/Throwable''], lines [Athrow]],
     b_marks_target = False, b_handlers = (\<lambda>_. []), b_destinations = [], b_sources = []\<rparr>"

subsection \<open>The factory (builtins.cc)\<close>

definition builtin_cmp :: "string \<Rightarrow> string \<Rightarrow> bool" where
  "builtin_cmp name key \<longleftrightarrow> take (length key) name = key"

text \<open>The first test that holds decides; the method at the address exists, as \<open>Jal\<close> has found it before.\<close>

primrec first_match :: "string \<Rightarrow> (string \<times> builtin) list \<Rightarrow> builtin option" where
  "first_match name [] = None"
| "first_match name (kb # rest) = (if builtin_cmp name (fst kb) then Some (snd kb) else first_match name rest)"

definition always_inline :: "string \<Rightarrow> jmeth \<Rightarrow> (string \<times> builtin) list" where
  "always_inline path mt =
     [(''__NOPH_try'', ExceptionBuiltinTry), (''__NOPH_throw'', ThrowBuiltin), (''__NOPH_setjmp'', SetjmpBuiltin path mt),
      (''__floatsisf'', IntToFloat), (''__fixsfsi'', FloatToInt), (''__fixsfdi'', FloatToInt),
      (''__divdi3'', DivBuiltin), (''__moddi3'', ModBuiltin), (''__ashrdi3'', ShrBuiltin), (''__ashldi3'', ShlBuiltin)]"

definition small_inline :: "(string \<times> builtin) list" where
  "small_inline =
     [(''__negsf2'', Arithmetic1 ''fneg''), (''__addsf3'', Arithmetic2 ''fadd''), (''__subsf3'', Arithmetic2 ''fsub''),
      (''__divsf3'', Arithmetic2 ''fdiv''), (''__mulsf3'', Arithmetic2 ''fmul''),
      (''__eqsf2'', Compare ''fcmpg''), (''__nesf2'', Compare ''fcmpg''), (''__lesf2'', Compare ''fcmpg''),
      (''__ltsf2'', Compare ''fcmpl'')]"

definition builtin_match :: "string \<Rightarrow> config \<Rightarrow> (u32 \<Rightarrow> jmeth option) \<Rightarrow> u32 \<Rightarrow> string \<Rightarrow> builtin option" where
  "builtin_match path cfg methods address name =
     (case methods address of None \<Rightarrow> None
      | Some mt \<Rightarrow> first_match name (always_inline path mt @
          (if optimizeInlines cfg \<and> jm_bytecode_size mt < 20000 then small_inline else [])))"

end
