(* ===== verification/Controller.thy ===== *)
theory Controller
  imports Classes Builtins
begin

text \<open>
  tools/translator/controller.cc: the three passes over a program.  What the ELF reader delivers is the
  record \<open>elf\<close>, a parameter: the words of the sections after \<open>be32_to_host\<close>, the functions, the
  relocations.  The registers of a program are the state \<open>controller\<close>.  \<open>Inl\<close> is a panic or a crash.
\<close>

unbundle bit_operations_syntax

subsection \<open>The input\<close>

record elf_function =
  ef_name :: string
  ef_addr :: u32
  ef_size :: u32
  ef_local :: bool
  ef_referenced :: bool

datatype reloc_type = R_MIPS_26 | R_MIPS_32 | R_MIPS_HI16 | R_MIPS_LO16 | R_other

datatype symbol_type = STT_FUNC | STT_SECTION | STT_other

record elf_reloc =
  rl_type :: reloc_type
  rl_addr :: u32
  rl_addend :: u32
  rl_sym :: "(symbol_type \<times> u32) option"

record elf =
  e_entry :: u32
  e_text :: "u32 list"
  e_functions :: "elf_function list"
  e_relocs :: "elf_reloc list"
  e_data :: "(u8 list \<times> nat) list"
  e_args :: "u32 \<Rightarrow> (int \<times> int) option"
  e_exported :: "(string \<times> u32) list option"
  e_exceptions :: "int \<Rightarrow> string option"
  e_syscalls :: "u32 \<Rightarrow> syscall option"

text \<open>The name of an exported symbol is an offset in the string table with a tag in its upper byte.\<close>

definition fixupExportedSymbols :: "(u32 \<times> u32) list \<Rightarrow> (u32 \<times> u32) list" where
  "fixupExportedSymbols syms = map (\<lambda>(name, addr). (name AND 0x00ffffff, addr)) syms"

subsection \<open>Configuration\<close>

record controller =
  ct_config :: config
  ct_package :: "string option"
  ct_path :: string
  ct_colocs :: "coloc list"
  ct_instructions :: "insn list"
  ct_functions :: "func list"
  ct_classes :: "java_class list"
  ct_table :: "func list"
  ct_labels :: "u32 list"
  ct_try_stack :: "u32 list"
  ct_catches :: "(u32 \<times> string list \<times> u32) list"

definition new_Controller :: "config \<Rightarrow> controller" where
  "new_Controller cfg = \<lparr>ct_config = cfg, ct_package = None, ct_path = [], ct_colocs = [], ct_instructions = [],
     ct_functions = [], ct_classes = [], ct_table = [], ct_labels = [], ct_try_stack = [], ct_catches = []\<rparr>"

text \<open>\<open>jasmin_package_path\<close> has 255 characters.\<close>

definition setPackageName :: "string \<Rightarrow> controller \<Rightarrow> string + controller" where
  "setPackageName name st =
     (if 255 < length name + 2 then Inl ''Length of package name is too large''
      else Inr (st\<lparr>ct_package := Some name, ct_path := map (\<lambda>ch. if ch = CHR ''.'' then CHR ''/'' else ch) name @ ''/''\<rparr>))"

definition addColocation :: "string \<Rightarrow> controller \<Rightarrow> string + controller" where
  "addColocation str st = map_sum id (\<lambda>co. st\<lparr>ct_colocs := ct_colocs st @ [co]\<rparr>) (new_FunctionColocation str)"

text \<open>
  The options of the command line: \<open>key=value,...\<close>.  The value as an \<open>int\<close> is that of \<open>strtol\<close> in base
  0 on the host, a parameter, or -1 when it has no digits.
\<close>

definition config_flag :: "int \<Rightarrow> bool" where
  "config_flag v \<longleftrightarrow> v \<noteq> 0"

definition unsigned_value :: "int \<Rightarrow> nat" where
  "unsigned_value v = unat (of_int v :: u32)"

definition size_value :: "int \<Rightarrow> nat" where
  "size_value v = unat (of_int v :: u64)"

definition set_option :: "string \<Rightarrow> string \<Rightarrow> int \<Rightarrow> controller \<Rightarrow> string + controller" where
  "set_option key value v st =
     (let cfg = ct_config st; set = (\<lambda>cfg. Inr (st\<lparr>ct_config := cfg\<rparr>))
      in if key = ''trace_start'' then set (cfg\<lparr>traceRange := (of_int v, snd (traceRange cfg))\<rparr>)
         else if key = ''trace_end'' then set (cfg\<lparr>traceRange := (fst (traceRange cfg), of_int v)\<rparr>)
         else if key = ''trace_stores'' then set (cfg\<lparr>traceStores := config_flag v\<rparr>)
         else if key = ''thread_safe'' then set (cfg\<lparr>threadSafe := config_flag v\<rparr>)
         else if key = ''prune_call_table'' then set (cfg\<lparr>optimizeCallTable := config_flag v\<rparr>)
         else if key = ''optimize_partial_memory_operations'' then set (cfg\<lparr>optimizePartialMemoryOps := config_flag v\<rparr>)
         else if key = ''optimize_prune_stack_stores'' then set (cfg\<lparr>optimizePruneStackStores := config_flag v\<rparr>)
         else if key = ''optimize_function_return_arguments'' then set (cfg\<lparr>optimizeFunctionReturnArguments := config_flag v\<rparr>)
         else if key = ''prune_unused_functions'' then set (cfg\<lparr>pruneUnusedFunctions := config_flag v\<rparr>)
         else if key = ''class_size_limit'' then set (cfg\<lparr>classSizeLimit := size_value v\<rparr>)
         else if key = ''call_table_hierarchy'' then set (cfg\<lparr>callTableHierarchy := unsigned_value v\<rparr>)
         else if key = ''call_table_classes'' then set (cfg\<lparr>callTableClasses := unsigned_value v\<rparr>)
         else if key = ''colocate_functions'' then addColocation value st
         else if key = ''package_name'' then setPackageName value st
         else Inl ''usage'')"

text \<open>\<open>strtok(..., ",")\<close>: the non-empty pieces between commas.\<close>

function comma_tokens :: "string \<Rightarrow> string list" where
  "comma_tokens s =
     (let s = dropWhile (\<lambda>ch. ch = CHR '','') s; p = takeWhile (\<lambda>ch. ch \<noteq> CHR '','') s
      in if s = [] then [] else p # comma_tokens (drop (length p + 1) s))"
  by pat_completeness auto
termination
proof (relation "measure length")
  fix s t p :: string
  assume t: "t = dropWhile (\<lambda>ch. ch = CHR '','') s" "t \<noteq> []"
  have "length t \<le> length s" unfolding t(1) by (rule length_dropWhile_le)
  moreover obtain ch t' where "t = ch # t'" using t(2) by (cases t) auto
  ultimately show "(drop (length p + 1) t, s) \<in> measure length" by simp
qed simp

declare comma_tokens.simps [simp del]

primrec parse_options :: "(string \<Rightarrow> int) \<Rightarrow> string list \<Rightarrow> controller \<Rightarrow> string + controller" where
  "parse_options strtol0 [] st = Inr st"
| "parse_options strtol0 (p # ps) st =
     (let key = takeWhile (\<lambda>ch. ch \<noteq> CHR ''='') p; rest = dropWhile (\<lambda>ch. ch \<noteq> CHR ''='') p
      in if length rest < 2 then Inl ''usage''
         else (case set_option key (tl rest) (strtol0 (tl rest)) st of Inl msg \<Rightarrow> Inl msg
               | Inr st \<Rightarrow> parse_options strtol0 ps st))"

definition parse_config :: "(string \<Rightarrow> int) \<Rightarrow> string \<Rightarrow> controller \<Rightarrow> string + controller" where
  "parse_config strtol0 str st =
     (case parse_options strtol0 (comma_tokens str) st of Inl msg \<Rightarrow> Inl msg
      | Inr st \<Rightarrow> if snd (traceRange (ct_config st)) < fst (traceRange (ct_config st))
          then Inl ''Trace start is after trace end!'' else Inr st)"

subsection \<open>Pass 0: instructions\<close>

text \<open>
  The instruction behind one with a delay slot is attached to it, and a no-op takes its place.  The
  list is kept reversed, so that its head is \<open>last\<close>.
\<close>

fun attach :: "insn list \<Rightarrow> insn \<Rightarrow> insn list" where
  "attach [] i = [i]"
| "attach (l # ls) i =
     (if hasDelaySlot l then createDelaySlotNop (i_address i) # setDelayed (Some i) l # ls else i # l # ls)"

primrec decode_text :: "u32 \<Rightarrow> u32 list \<Rightarrow> insn list \<Rightarrow> string + insn list" where
  "decode_text addr [] done_insns = Inr (rev done_insns)"
| "decode_text addr (w # ws) done_insns =
     (case create addr w of Inl msg \<Rightarrow> Inl msg | Inr i \<Rightarrow> decode_text (addr + 4) ws (attach done_insns i))"

definition pass0_instructions :: "elf \<Rightarrow> string + insn list" where
  "pass0_instructions e = decode_text (e_entry e) (e_text e) []"

subsection \<open>Pass 0: functions, methods and classes\<close>

definition make_function :: "elf \<Rightarrow> insn list \<Rightarrow> elf_function \<Rightarrow> string + func" where
  "make_function e insns s =
     (let first = unat (ef_addr s - e_entry e) div 4;
          stop = unat (ef_addr s - e_entry e + ef_size s) div 4 - 1
      in if ef_addr s = e_entry e then new_StartFunction (ef_name s) insns first stop
         else new_Function (ef_name s) insns first stop)"

text \<open>An orphaned function is skipped.\<close>

definition is_pruned :: "config \<Rightarrow> elf \<Rightarrow> elf_function \<Rightarrow> bool" where
  "is_pruned cfg e s \<longleftrightarrow> ef_addr s \<noteq> e_entry e \<and> pruneUnusedFunctions cfg \<and> \<not> ef_referenced s \<and> \<not> ef_local s"

primrec all_right :: "(string + 'a) list \<Rightarrow> string + 'a list" where
  "all_right [] = Inr []"
| "all_right (x # xs) = (case x of Inl msg \<Rightarrow> Inl msg | Inr y \<Rightarrow> map_sum id (\<lambda>ys. y # ys) (all_right xs))"

definition make_functions :: "config \<Rightarrow> elf \<Rightarrow> insn list \<Rightarrow> string + func list" where
  "make_functions cfg e insns = all_right (map (make_function e insns) (filter (\<lambda>s. \<not> is_pruned cfg e s) (e_functions e)))"

text \<open>Every function enters the colocation that names it.\<close>

primrec fill_colocs :: "func list \<Rightarrow> coloc list \<Rightarrow> string + coloc list" where
  "fill_colocs [] cs = Inr cs"
| "fill_colocs (f # fs) cs =
     (case coloc_lookup cs (fn_realName f) of None \<Rightarrow> fill_colocs fs cs
      | Some i \<Rightarrow> (case coloc_addFunction f (cs ! i) of Inl msg \<Rightarrow> Inl msg
        | Inr co \<Rightarrow> fill_colocs fs (cs[i := co])))"

definition make_methods :: "func list \<Rightarrow> coloc list \<Rightarrow> string + java_method list" where
  "make_methods fs cs =
     all_right (map (\<lambda>i. new_JavaMethod fs i i) (filter (\<lambda>i. coloc_lookup cs (fn_realName (fs ! i)) = None) [0..<length fs]) @
       map createJavaMethod cs)"

text \<open>Methods fill a class until its byte code reaches the limit.\<close>

fun class_extent :: "nat \<Rightarrow> nat \<Rightarrow> java_method list \<Rightarrow> nat" where
  "class_extent limit sz [] = 0"
| "class_extent limit sz (m # ms) = (if sz < limit then 1 + class_extent limit (sz + mt_bc_size m) ms else 0)"

definition class_name :: "nat \<Rightarrow> string" where
  "class_name n = ''Cibyl'' @ (if n = 0 then [] else decimal (int n))"

text \<open>With a limit of 0 the first class would have no method.\<close>

function allocate_from :: "nat \<Rightarrow> nat \<Rightarrow> java_method list \<Rightarrow> string + java_class list" where
  "allocate_from limit n ms =
     (if ms = [] then Inr []
      else let k = class_extent limit 0 ms
        in if k = 0 then Inl ''Creating a class with methods''
           else (case new_JavaClass (class_name n) (take k ms) 0 (k - 1) of Inl msg \<Rightarrow> Inl msg
             | Inr cl \<Rightarrow> map_sum id (\<lambda>cls. cl # cls) (allocate_from limit (n + 1) (drop k ms))))"
  by pat_completeness auto
termination by (relation "measure (\<lambda>(_, _, ms). length ms)") auto

declare allocate_from.simps [simp del]

definition call_table_class :: java_class where
  "call_table_class = \<lparr>cl_name = ''CibylCallTable'', cl_filename = ''CibylCallTable.java'', cl_methods = [],
     cl_n_multiFunctionMethods = 0, cl_call_table = True\<rparr>"

definition allocateClasses :: "config \<Rightarrow> java_method list \<Rightarrow> string + java_class list" where
  "allocateClasses cfg ms = map_sum id (\<lambda>cls. cls @ [call_table_class]) (allocate_from (classSizeLimit cfg) 0 ms)"

definition pass0 :: "elf \<Rightarrow> controller \<Rightarrow> string + controller" where
  "pass0 e st =
     (let cfg = ct_config st
      in case pass0_instructions e of Inl msg \<Rightarrow> Inl msg
      | Inr insns \<Rightarrow> (case make_functions cfg e insns of Inl msg \<Rightarrow> Inl msg
      | Inr fs \<Rightarrow> (case fill_colocs fs (ct_colocs st) of Inl msg \<Rightarrow> Inl msg
      | Inr cs \<Rightarrow> (case make_methods fs cs of Inl msg \<Rightarrow> Inl msg
      | Inr ms \<Rightarrow> map_sum id (\<lambda>cls. st\<lparr>ct_instructions := insns, ct_functions := fs, ct_colocs := cs, ct_classes := cls,
          ct_table := (if optimizeCallTable cfg then [] else foldl (\<lambda>t f. ct_addFunction f t) [] fs)\<rparr>)
          (allocateClasses cfg ms)))))"

subsection \<open>Lookups\<close>

definition getMethodByAddress :: "controller \<Rightarrow> u32 \<Rightarrow> java_method option" where
  "getMethodByAddress st addr = foldr (\<lambda>cl rest. case cl_getMethodByAddress cl addr of Some m \<Rightarrow> Some m | None \<Rightarrow> rest) (ct_classes st) None"

text \<open>\<open>m_method_to_class\<close>: the last class with a method of the name.\<close>

definition getClassByMethodName :: "controller \<Rightarrow> string \<Rightarrow> string option" where
  "getClassByMethodName st name =
     (if name = ''call'' then Some ''CibylCallTable''
      else foldl (\<lambda>found cl. if list_ex (\<lambda>m. mt_name m = name) (cl_methods cl) then Some (cl_name cl) else found) None (ct_classes st))"

text \<open>The instruction that stands at an address: its address, or \<open>None\<close> for a null pointer.\<close>

definition getInstructionByAddress :: "elf \<Rightarrow> controller \<Rightarrow> u32 \<Rightarrow> insn option" where
  "getInstructionByAddress e st address =
     (if address < e_entry e \<or> address > e_entry e + of_nat (4 * length (e_text e)) then None
      else let k = unat (address - e_entry e) div 4
        in if k < length (ct_instructions st) then Some (ct_instructions st ! k) else None)"

definition getBranchTarget :: "elf \<Rightarrow> controller \<Rightarrow> u32 \<Rightarrow> u32 option" where
  "getBranchTarget e st address = map_option i_address (getInstructionByAddress e st address)"

subsection \<open>The stack of \<open>try\<close> blocks\<close>

definition N_TRY_STACK_ENTRIES :: nat where "N_TRY_STACK_ENTRIES = 32"

definition pushTryStack :: "u32 \<Rightarrow> controller \<Rightarrow> string + controller" where
  "pushTryStack i st =
     (if N_TRY_STACK_ENTRIES \<le> length (ct_try_stack st) then Inl ''Pushing too many entries on the stack''
      else Inr (st\<lparr>ct_try_stack := i # ct_try_stack st\<rparr>))"

definition popTryStack :: "controller \<Rightarrow> string + u32 \<times> controller" where
  "popTryStack st =
     (case ct_try_stack st of [] \<Rightarrow> Inl ''Popping off empty stack''
      | i # is \<Rightarrow> Inr (i, st\<lparr>ct_try_stack := is\<rparr>))"

subsection \<open>Addresses in data and relocations\<close>

text \<open>In every class the method at the address gets a jump table label.\<close>

definition label_method :: "u32 \<Rightarrow> java_class \<Rightarrow> java_class" where
  "label_method v cl =
     (case cl_getMethodIndex cl v of None \<Rightarrow> cl
      | Some i \<Rightarrow> cl\<lparr>cl_methods := (cl_methods cl)[i := (cl_methods cl ! i)
          \<lparr>mt_jumptabLabels := addJumptabLabel (mt_jumptabLabels (cl_methods cl ! i)) v\<rparr>]\<rparr>)"

definition table_with :: "java_method \<Rightarrow> u32 \<Rightarrow> func list \<Rightarrow> string + func list" where
  "table_with mt v table =
     (case getFunctionByAddress mt v of None \<Rightarrow> Inl ''No function for address in method!''
      | Some f \<Rightarrow> Inr (if fn_address f = v then ct_addFunction f table else table))"

fun label_classes :: "u32 \<Rightarrow> java_class list \<Rightarrow> func list \<Rightarrow> u32 list \<Rightarrow> string + java_class list \<times> func list \<times> u32 list" where
  "label_classes v [] table labels = Inr ([], table, labels)"
| "label_classes v (cl # cls) table labels =
     (case cl_getMethodByAddress cl v of
        None \<Rightarrow> map_sum id (\<lambda>(cls, t, l). (cl # cls, t, l)) (label_classes v cls table labels)
      | Some mt \<Rightarrow> (case table_with mt v table of Inl msg \<Rightarrow> Inl msg
        | Inr table \<Rightarrow> map_sum id (\<lambda>(cls, t, l). (label_method v cl # cls, t, l)) (label_classes v cls table (addJumptabLabel labels v))))"

text \<open>The big-endian words of a section; bytes that fill no word are not looked at.\<close>

fun be_words :: "u8 list \<Rightarrow> u32 list" where
  "be_words (a # b # c # d # r) = (push_bit 24 (ucast a) OR push_bit 16 (ucast b) OR push_bit 8 (ucast c) OR ucast d) # be_words r"
| "be_words _ = []"

definition lookup_word :: "elf \<Rightarrow> u32 \<Rightarrow> controller \<Rightarrow> string + controller" where
  "lookup_word e v st =
     (let text_end = e_entry e + of_nat (4 * length (e_text e))
      in if e_entry e \<le> v \<and> v < text_end \<and> v AND 3 = 0
         then map_sum id (\<lambda>(cls, t, l). st\<lparr>ct_classes := cls, ct_table := t, ct_labels := l\<rparr>)
           (label_classes v (ct_classes st) (ct_table st) (ct_labels st))
         else Inr st)"

primrec lookupDataAddresses :: "elf \<Rightarrow> u32 list \<Rightarrow> controller \<Rightarrow> string + controller" where
  "lookupDataAddresses e [] st = Inr st"
| "lookupDataAddresses e (v # vs) st =
     (case lookup_word e v st of Inl msg \<Rightarrow> Inl msg | Inr st \<Rightarrow> lookupDataAddresses e vs st)"

text \<open>A relocation that names a function, or a place in a section, puts the function there in the call table.\<close>

definition lookup_reloc :: "elf_reloc \<Rightarrow> controller \<Rightarrow> string + controller" where
  "lookup_reloc r st =
     (case rl_sym r of None \<Rightarrow> Inr st
      | Some (ty, addr) \<Rightarrow>
          let target = (if ty = STT_FUNC \<and> rl_type r \<noteq> R_MIPS_26 then Some addr
              else if ty = STT_SECTION \<and> rl_type r = R_MIPS_32 then Some (rl_addend r) else None)
          in (case target of None \<Rightarrow> Inr st
              | Some v \<Rightarrow> (case getMethodByAddress st v of None \<Rightarrow> Inr st
                | Some mt \<Rightarrow> map_sum id (\<lambda>t. st\<lparr>ct_table := t\<rparr>) (table_with mt v (ct_table st)))))"

text \<open>
  \<open>HiloRelocLimit\<close>: the first and the last index of the HI16 and of the LO16 relocations in a method.
  A relocation whose method is not found skips the rest of the loop body when it names a symbol.
\<close>

record hilo =
  hi_start :: nat
  hi_end :: int
  lo_start :: nat
  lo_end :: int

definition INT_MAX :: nat where "INT_MAX = 2147483647"

definition new_HiloRelocLimit :: hilo where
  "new_HiloRelocLimit = \<lparr>hi_start = INT_MAX, hi_end = - 1, lo_start = INT_MAX, lo_end = - 1\<rparr>"

definition isValid :: "hilo \<Rightarrow> bool" where
  "isValid h \<longleftrightarrow> hi_start h \<noteq> INT_MAX \<and> hi_end h \<noteq> - 1 \<and> lo_start h \<noteq> INT_MAX \<and> lo_end h \<noteq> - 1"

definition extend_hilo :: "reloc_type \<Rightarrow> nat \<Rightarrow> hilo \<Rightarrow> hilo" where
  "extend_hilo ty i h =
     (if ty = R_MIPS_HI16 then h\<lparr>hi_start := min (hi_start h) i, hi_end := max (hi_end h) (int i)\<rparr>
      else if ty = R_MIPS_LO16 then h\<lparr>lo_start := min (lo_start h) i, lo_end := max (lo_end h) (int i)\<rparr>
      else h)"

text \<open>The address that a pair of instructions builds: \<open>lui\<close> and one with a low half.\<close>

definition hilo_address :: "insn \<Rightarrow> insn \<Rightarrow> u32" where
  "hilo_address a b =
     (let addr = push_bit 16 (of_int (i_extra a)); low = of_int (i_extra b) :: u32; opc = i_opcode b
      in if opc \<in> {OP_SW, OP_SB, OP_SH, OP_LB, OP_LBU, OP_LH, OP_LHU, OP_LW, OP_LWL, OP_SWL, OP_LWR, OP_SWR, OP_ADDI, OP_ADDIU}
         then addr + low
         else if opc = OP_ORI then addr OR low
         else if opc = OP_XORI then addr XOR low
         else if opc = OP_ANDI then addr AND low
         else addr)"

text \<open>An instruction in a delay slot is found at its parent.\<close>

definition reloc_instruction :: "elf \<Rightarrow> controller \<Rightarrow> u32 \<Rightarrow> string + insn" where
  "reloc_instruction e st addr =
     (case getInstructionByAddress e st addr of None \<Rightarrow> Inl ''Cannot find instruction for REL at address''
      | Some a \<Rightarrow>
          if isDelaySlotNop (insn_class_of a)
          then (case Option.bind (getInstructionByAddress e st (addr - 4)) i_delayed of
                  None \<Rightarrow> Inl ''segmentation fault'' | Some d \<Rightarrow> Inr d)
          else Inr a)"

definition add_hilo :: "elf \<Rightarrow> u32 \<Rightarrow> u32 \<Rightarrow> controller \<Rightarrow> string + controller" where
  "add_hilo e hi lo st =
     (case (reloc_instruction e st hi, reloc_instruction e st lo) of
        (Inr a, Inr b) \<Rightarrow>
          let addr = hilo_address a b
          in if addr AND 3 \<noteq> 0 then Inr st
             else (case getMethodByAddress st addr of None \<Rightarrow> Inr st
               | Some mt \<Rightarrow> (case getFunctionByAddress mt addr of None \<Rightarrow> Inl ''No function for address in method!''
                 | Some f \<Rightarrow> Inr (st\<lparr>ct_table := ct_addFunction f (ct_table st)\<rparr>)))
      | (Inl msg, _) \<Rightarrow> Inl msg | (_, Inl msg) \<Rightarrow> Inl msg)"

primrec fold_right :: "('a \<Rightarrow> 'b \<Rightarrow> string + 'b) \<Rightarrow> 'a list \<Rightarrow> 'b \<Rightarrow> string + 'b" where
  "fold_right f [] st = Inr st"
| "fold_right f (x # xs) st = (case f x st of Inl msg \<Rightarrow> Inl msg | Inr st \<Rightarrow> fold_right f xs st)"

text \<open>Whether the loop body goes on behind the test of the symbol.\<close>

definition reloc_goes_on :: "elf_reloc \<Rightarrow> controller \<Rightarrow> bool" where
  "reloc_goes_on r st \<longleftrightarrow>
     (case rl_sym r of None \<Rightarrow> True
      | Some (ty, addr) \<Rightarrow>
          if ty = STT_FUNC \<and> rl_type r \<noteq> R_MIPS_26 then getMethodByAddress st addr \<noteq> None
          else if ty = STT_SECTION \<and> rl_type r = R_MIPS_32 then getMethodByAddress st (rl_addend r) \<noteq> None
          else True)"

definition reloc_limits :: "elf \<Rightarrow> java_class \<Rightarrow> controller \<Rightarrow> hilo list" where
  "reloc_limits e cl st =
     foldl (\<lambda>hs i. let r = e_relocs e ! i
        in if reloc_goes_on r st \<and> (rl_type r = R_MIPS_HI16 \<or> rl_type r = R_MIPS_LO16)
           then (case cl_getMethodIndex cl (rl_addr r) of None \<Rightarrow> hs | Some k \<Rightarrow> hs[k := extend_hilo (rl_type r) i (hs ! k)])
           else hs)
      (replicate (length (cl_methods cl)) new_HiloRelocLimit) [0..<length (e_relocs e)]"

definition hilo_pairs :: "elf \<Rightarrow> hilo \<Rightarrow> (u32 \<times> u32) list" where
  "hilo_pairs e h =
     (if isValid h
      then concat (map (\<lambda>i. map (\<lambda>j. (rl_addr (e_relocs e ! i), rl_addr (e_relocs e ! j))) [lo_start h..<nat (lo_end h) + 1])
        [hi_start h..<nat (hi_end h) + 1])
      else [])"

definition lookupRelocations :: "elf \<Rightarrow> java_class \<Rightarrow> controller \<Rightarrow> string + controller" where
  "lookupRelocations e cl st =
     (case fold_right lookup_reloc (e_relocs e) st of Inl msg \<Rightarrow> Inl msg
      | Inr st \<Rightarrow> fold_right (\<lambda>(hi, lo). add_hilo e hi lo) (concat (map (hilo_pairs e) (reloc_limits e cl st))) st)"

subsection \<open>Pass 1\<close>

text \<open>The words of a string between blanks, commas and newlines, as \<open>CatchInsn::pass1\<close> cuts it.\<close>

definition catch_delimiters :: string where
  "catch_delimiters = [CHR '' '', CHR 0x09, CHR '','', CHR 0x0A]"

function catch_words :: "string \<Rightarrow> string list" where
  "catch_words s =
     (let s = dropWhile (\<lambda>ch. List.member catch_delimiters ch) s; p = takeWhile (\<lambda>ch. \<not> List.member catch_delimiters ch) s
      in if s = [] then [] else p # catch_words (drop (length p + 1) s))"
  by pat_completeness auto
termination
proof (relation "measure length")
  fix s t p :: string
  assume t: "t = dropWhile (\<lambda>ch. List.member catch_delimiters ch) s" "t \<noteq> []"
  have "length t \<le> length s" unfolding t(1) by (rule length_dropWhile_le)
  moreover obtain ch t' where "t = ch # t'" using t(2) by (cases t) auto
  ultimately show "(drop (length p + 1) t, s) \<in> measure length" by simp
qed simp

declare catch_words.simps [simp del]

text \<open>The context that instructions are translated in.\<close>

definition context_of :: "elf \<Rightarrow> controller \<Rightarrow> jctx" where
  "context_of e st =
     (let cfg = ct_config st; methods = (\<lambda>a. map_option (jmeth_of cfg) (getMethodByAddress st a))
      in \<lparr>c_alloc = new_RegisterAllocator, c_config = cfg, c_path = ct_path st, c_method = methods,
          c_class = getClassByMethodName st, c_call_table = Some (call_table_jmeth cfg),
          c_instruction = getBranchTarget e st, c_builtin = builtin_match (ct_path st) cfg methods,
          c_syscall = e_syscalls e, c_catch = map_of (ct_catches st)\<rparr>)"

text \<open>
  What the first pass does to the stack of \<open>try\<close> blocks, in the order of the instructions: a call of
  \<open>__NOPH_try\<close> pushes itself, a catch instruction pops its \<open>try\<close> and reads the exception classes.
\<close>

definition is_try :: "jctx \<Rightarrow> insn \<Rightarrow> bool" where
  "is_try c i \<longleftrightarrow> (case i_kind i of
     Jumping k \<Rightarrow> (k = Jal \<or> k = JalReturn) \<and> (case Jal_builtin c i of Some b \<Rightarrow> b_marks_target b | None \<Rightarrow> False) | _ \<Rightarrow> False)"

definition try_catch :: "elf \<Rightarrow> jctx \<Rightarrow> insn \<Rightarrow> controller \<Rightarrow> string + controller" where
  "try_catch e c i st =
     (if is_try c i then pushTryStack (i_address i) st
      else if i_kind i = CatchInsn
      then (case e_exceptions e (i_extra i) of None \<Rightarrow> Inl ''No .cibylexceptionsstr section found!''
        | Some s \<Rightarrow>
            if catch_words s = [] then Inl ''Could not tokenize''
            else map_sum id (\<lambda>(start, st). st\<lparr>ct_catches := ct_catches st @ [(i_address i, catch_words s, start)]\<rparr>) (popTryStack st))
      else Inr st)"

definition method_insns :: "java_method \<Rightarrow> insn list" where
  "method_insns mt = concat (map (\<lambda>f. concat (map bb_insns (fn_bbs f))) (mt_functions mt))"

definition program_insns :: "controller \<Rightarrow> insn list" where
  "program_insns st = concat (map (\<lambda>i. (case i_delayed i of Some d \<Rightarrow> [d] | None \<Rightarrow> []) @ [i])
     (concat (map (\<lambda>cl. concat (map method_insns (cl_methods cl))) (ct_classes st))))"

definition find_catches :: "elf \<Rightarrow> controller \<Rightarrow> string + controller" where
  "find_catches e st = fold_right (try_catch e (context_of e st)) (program_insns st) st"

text \<open>\<open>controller->getBranchTarget(address)->setBranchTarget()\<close> for every address: on the instructions of the blocks.\<close>

definition mark_insn :: "u32 list \<Rightarrow> insn \<Rightarrow> insn" where
  "mark_insn marks i = (if List.member marks (i_address i) then setBranchTarget i else i)"

definition mark_method :: "u32 list \<Rightarrow> java_method \<Rightarrow> java_method" where
  "mark_method marks mt = mt\<lparr>mt_functions := map (\<lambda>f. f\<lparr>fn_bbs := map (\<lambda>b. b\<lparr>bb_insns := map (mark_insn marks) (bb_insns b)\<rparr>)
     (fn_bbs f)\<rparr>) (mt_functions mt)\<rparr>"

definition mark_class :: "u32 list \<Rightarrow> java_class \<Rightarrow> java_class" where
  "mark_class marks cl = cl\<lparr>cl_methods := map (mark_method marks) (cl_methods cl)\<rparr>"

definition pass1_class ::
  "elf \<Rightarrow> nat \<Rightarrow> controller \<times> u32 list \<times> bool \<Rightarrow> string + controller \<times> u32 list \<times> bool" where
  "pass1_class e k acc =
     (case acc of (st, marks, ok) \<Rightarrow>
        (case lookupRelocations e (ct_classes st ! k) st of Inl msg \<Rightarrow> Inl msg
         | Inr st \<Rightarrow>
             if cl_call_table (ct_classes st ! k) then Inr (st, marks, ok)
             else map_sum id (\<lambda>(cl, marks', ok'). (st\<lparr>ct_classes := (ct_classes st)[k := cl]\<rparr>, marks @ marks', ok \<and> ok'))
               (cl_pass1 (context_of e st) (e_args e) (ct_classes st ! k))))"

definition controller_pass1 :: "elf \<Rightarrow> controller \<Rightarrow> string + controller \<times> bool" where
  "controller_pass1 e st =
     (case lookupDataAddresses e (concat (map (\<lambda>sec. be_words (fst sec)) (e_data e))) st of Inl msg \<Rightarrow> Inl msg
      | Inr st \<Rightarrow> (case find_catches e st of Inl msg \<Rightarrow> Inl msg
      | Inr st \<Rightarrow> map_sum id (\<lambda>(st, marks, ok).
          (st\<lparr>ct_classes := map (mark_class marks) (ct_classes st), ct_labels := sortJumptabLabels (ct_labels st)\<rparr>, ok))
          (fold_right (pass1_class e) [0..<length (ct_classes st)] (st, [], True))))"

subsection \<open>Pass 2\<close>

text \<open>The padding and the position behind a data section in program.data.bin.\<close>

definition section_pad :: "u32 \<Rightarrow> nat \<Rightarrow> nat" where
  "section_pad addr alignment =
     (let mask = of_nat alignment - 1 in if addr AND mask \<noteq> 0 then unat (- addr AND mask) else 0)"

definition addAlignedSection :: "u32 \<times> u8 list \<Rightarrow> u8 list \<Rightarrow> nat \<Rightarrow> u32 \<times> u8 list" where
  "addAlignedSection st bytes alignment =
     (case st of (addr, out) \<Rightarrow>
        let pad = section_pad addr alignment
        in (addr + of_nat pad + of_nat (length bytes), out @ replicate pad 0 @ bytes))"

text \<open>The files: the data, then every class.\<close>

primrec pass2_classes :: "jctx \<Rightarrow> u32 list \<Rightarrow> java_class list \<Rightarrow> u32 list \<Rightarrow> (string \<times> emission) list" where
  "pass2_classes c labels [] targets = []"
| "pass2_classes c labels (cl # cls) targets =
     (if cl_call_table cl then pass2_classes c labels cls targets
      else let (em, targets') = cl_pass2 c labels cl targets
        in (cl_filename cl, em) # pass2_classes c labels cls targets')"

definition data_file :: "elf \<Rightarrow> u8 list" where
  "data_file e = snd (foldl (\<lambda>st (bytes, alignment). addAlignedSection st bytes alignment) (0, []) (e_data e))"

definition controller_pass2 :: "elf \<Rightarrow> controller \<Rightarrow> u8 list \<times> (string \<times> emission) list \<times> (string + string \<times> (string \<times> string) list)" where
  "controller_pass2 e st =
     (let c = context_of e st
      in (data_file e,
          pass2_classes c (ct_labels st) (ct_classes st) [],
          map_sum id (\<lambda>(main, files). (call_table_class_text (ct_package st) main, files))
            (ct_pass2 (ct_config st) (getMethodByAddress st) (getClassByMethodName st) (e_exported e) (ct_table st))))"

text \<open>The whole translator: configuration, then the three passes.\<close>

definition translate :: "(string \<Rightarrow> int) \<Rightarrow> string \<Rightarrow> elf \<Rightarrow>
    string + u8 list \<times> (string \<times> emission) list \<times> (string + string \<times> (string \<times> string) list)" where
  "translate strtol0 options e =
     (case parse_config strtol0 options (new_Controller new_Config) of Inl msg \<Rightarrow> Inl msg
      | Inr st \<Rightarrow> (case pass0 e st of Inl msg \<Rightarrow> Inl msg
      | Inr st \<Rightarrow> (case controller_pass1 e st of Inl msg \<Rightarrow> Inl msg
      | Inr (st, _) \<Rightarrow> Inr (controller_pass2 e st))))"

end
