(* ===== verification/Syscalls.thy ===== *)
theory Syscalls
  imports Controller "HOL-Library.Sublist"
begin

text \<open>
  The syscall databases and the Java wrappers: \<open>readSyscallDatabase\<close> and \<open>getSyscall\<close> of controller.cc,
  tools/translator/syscall-wrappers.cc, and the generator of the databases,
  tools/python/Cibyl/SyscallHandling/syscallgenerator.py.  A file is a string of its bytes.  An unsigned long
  of the host has \<open>sz\<close> bytes, the lowest first; a file name is read through parameters.
\<close>

subsection \<open>The database\<close>

record cibyl_db_arg =
  da_flags :: nat
  da_javaType :: string
  da_type :: string
  da_name :: string

record cibyl_db_entry =
  de_nr :: nat
  de_returns :: nat
  de_nrArgs :: nat
  de_qualifier :: nat
  de_name :: string
  de_javaClass :: string
  de_javaMethod :: string
  de_set :: string
  de_returnType :: string
  de_args :: "cibyl_db_arg list"
  de_user :: nat

definition long_at :: "nat \<Rightarrow> string \<Rightarrow> nat \<Rightarrow> nat" where
  "long_at sz data off = foldr (\<lambda>c v. of_char c + 256 * v) (take sz (drop off data)) 0"

definition getSyscallFileLong :: "nat \<Rightarrow> string \<Rightarrow> nat \<Rightarrow> nat" where
  "getSyscallFileLong sz data offset = long_at sz data (sz * offset)"

definition string_at :: "string \<Rightarrow> nat \<Rightarrow> string" where
  "string_at data off = takeWhile (\<lambda>c. c \<noteq> CHR 0x00) (drop off data)"

text \<open>The directories, sets and entries read so far, and what \<open>getSyscall\<close> has handed out.\<close>

record syscall_db =
  sd_dirs :: "string list"
  sd_sets :: "string list"
  sd_table :: "string \<rightharpoonup> cibyl_db_entry"
  sd_cache :: "nat \<rightharpoonup> syscall"
  sd_used :: "(string \<times> cibyl_db_entry) list"

definition empty_db :: syscall_db where
  "empty_db = \<lparr>sd_dirs = [], sd_sets = [], sd_table = Map.empty, sd_cache = Map.empty, sd_used = []\<rparr>"

definition read_arg :: "nat \<Rightarrow> string \<Rightarrow> nat \<Rightarrow> nat \<Rightarrow> cibyl_db_arg" where
  "read_arg sz data strtab off =
     (let jt = long_at sz data (off + sz); str = (\<lambda>x. string_at data (strtab + x))
      in \<lparr>da_flags = jt div 2 ^ 24 mod 2 ^ 8, da_javaType = str (jt mod 2 ^ 24),
          da_type = str (long_at sz data (off + 2 * sz) mod 2 ^ 24), da_name = str (long_at sz data (off + 3 * sz))\<rparr>)"

definition read_entry :: "nat \<Rightarrow> string \<Rightarrow> nat \<Rightarrow> nat \<Rightarrow> nat \<Rightarrow> nat \<Rightarrow> cibyl_db_entry" where
  "read_entry sz data strtab args_start user off =
     (let field = (\<lambda>k. long_at sz data (off + k * sz)); str = (\<lambda>k. string_at data (strtab + field k))
      in \<lparr>de_nr = field 0, de_returns = field 1, de_nrArgs = field 2, de_qualifier = field 3, de_name = str 4, de_javaClass = str 5,
          de_javaMethod = str 6, de_set = str 7, de_returnType = str 8,
          de_args = map (\<lambda>j. read_arg sz data strtab (args_start + field 9 + 4 * sz * j)) [0..<field 2], de_user = user\<rparr>)"

definition readSyscallDatabase :: "nat \<Rightarrow> (string \<Rightarrow> string option) \<Rightarrow> string \<Rightarrow> syscall_db \<Rightarrow> string + syscall_db" where
  "readSyscallDatabase sz read_file filename st =
     (case read_file filename of None \<Rightarrow> Inl ''Cannot read''
      | Some data \<Rightarrow>
        let long = getSyscallFileLong sz data;
            n_dirs = long 1; n_sets = long 2; n = long 3; args_start = long 4; strtab = long 5;
            entries = map (\<lambda>i. read_entry sz data strtab args_start (length (sd_dirs st)) (sz * (6 + n_dirs + n_sets) + 11 * sz * i)) [0..<n]
        in Inr (st\<lparr>
             sd_dirs := sd_dirs st @ map (\<lambda>i. string_at data (strtab + long (6 + i))) [0..<n_dirs],
             sd_sets := sd_sets st @ map (\<lambda>i. string_at data (strtab + long (6 + n_dirs + i))) [0..<n_sets],
             sd_table := foldl (\<lambda>t cur. t(de_name cur \<mapsto> cur)) (sd_table st) entries\<rparr>))"

text \<open>A \<open>map\<close> with the order of \<open>strcmp\<close>.\<close>

definition cmp_str :: "string \<Rightarrow> string \<Rightarrow> bool" where
  "cmp_str s1 s2 = ord_class.lexordp (map of_char s1 :: nat list) (map of_char s2)"

fun map_insert :: "string \<Rightarrow> 'b \<Rightarrow> (string \<times> 'b) list \<Rightarrow> (string \<times> 'b) list" where
  "map_insert k v [] = [(k, v)]"
| "map_insert k v ((k', v') # es) =
     (if cmp_str k k' then (k, v) # (k', v') # es
      else if cmp_str k' k then (k', v') # map_insert k v es
      else (k', v) # es)"

text \<open>\<open>strtab\<close> is the section \<open>.cibylstrtab\<close>, pointers of the host have \<open>sz\<close> bytes.\<close>

definition getSyscall :: "nat \<Rightarrow> string \<Rightarrow> string \<Rightarrow> nat \<Rightarrow> syscall_db \<Rightarrow> string + syscall \<times> syscall_db" where
  "getSyscall sz path strtab value st =
     (if \<not> value < length strtab * sz then Inl ''assertion failed''
      else case sd_cache st value of Some s \<Rightarrow> Inr (s, st)
      | None \<Rightarrow>
        let name = string_at strtab value
        in (case sd_table st name of None \<Rightarrow> Inl ''No syscall''
            | Some p \<Rightarrow>
              let s = new_Syscall path (de_name p) (de_nrArgs p) (if de_returns p \<noteq> 0 then CHR ''I'' else CHR ''V'')
              in Inr (s, st\<lparr>sd_cache := (sd_cache st)(value \<mapsto> s), sd_used := map_insert (de_name p) p (sd_used st)\<rparr>)))"

subsection \<open>The generator of databases\<close>

record gen_arg =
  ga_javaType :: string
  ga_type :: string
  ga_name :: string
  ga_objectReference :: bool

record gen_function =
  gf_nr :: nat
  gf_returnType :: string
  gf_name :: string
  gf_javaClass :: string
  gf_javaMethod :: string
  gf_set :: string
  gf_qualifier :: string
  gf_args :: "gen_arg list"

definition encodeReturnType :: "gen_function \<Rightarrow> nat" where
  "encodeReturnType f =
     (if gf_returnType f = ''void'' then 0 else if gf_returnType f = ''int'' then 1
      else if gf_returnType f = ''boolean'' then 2 else 3)"

definition encodeQualifier :: "gen_function \<Rightarrow> nat" where
  "encodeQualifier f =
     (if gf_qualifier f = ''/* Throws */'' then 1 else if gf_qualifier f = ''/* Not generated */'' then 2 else 0)"

text \<open>The string table: each string once, in the order of first use.\<close>

definition table_bytes :: "string list \<Rightarrow> string" where
  "table_bytes strs = concat (map (\<lambda>s. s @ [CHR 0x00]) strs)"

definition add_str :: "string \<Rightarrow> string list \<Rightarrow> nat \<times> string list" where
  "add_str s strs = (length (table_bytes (takeWhile (\<lambda>x. x \<noteq> s) strs)), if s \<in> set strs then strs else strs @ [s])"

primrec add_strs :: "string list \<Rightarrow> string list \<Rightarrow> nat list \<times> string list" where
  "add_strs [] strs = ([], strs)"
| "add_strs (s # ss) strs =
     (let (off, strs) = add_str s strs; (offs, strs) = add_strs ss strs in (off # offs, strs))"

text \<open>\<open>encodeArgumentJavaType\<close> and \<open>encodeArgumentType\<close>; the type has no flags.\<close>

definition arg_longs :: "gen_arg \<Rightarrow> string list \<Rightarrow> nat list \<times> string list" where
  "arg_longs a strs =
     (let (offs, strs) = add_strs [ga_javaType a, ga_type a, ga_name a] strs
      in ([0, (if ga_objectReference a then 2 ^ 24 else 0) + offs ! 0, offs ! 1, offs ! 2], strs))"

primrec args_longs :: "gen_arg list \<Rightarrow> string list \<Rightarrow> nat list \<times> string list" where
  "args_longs [] strs = ([], strs)"
| "args_longs (a # as) strs =
     (let (ls, strs) = arg_longs a strs; (ls', strs) = args_longs as strs in (ls @ ls', strs))"

text \<open>The first nine fields of an entry, and its arguments.\<close>

definition entry_longs :: "gen_function \<Rightarrow> string list \<Rightarrow> nat list \<times> nat list \<times> string list" where
  "entry_longs f strs =
     (let (offs, strs) = add_strs [gf_name f, gf_javaClass f, gf_javaMethod f, gf_set f, gf_returnType f] strs;
          (args, strs) = args_longs (gf_args f) strs
      in ([gf_nr f, encodeReturnType f, length (gf_args f), encodeQualifier f] @ offs, args, strs))"

primrec entries_longs :: "nat \<Rightarrow> nat \<Rightarrow> gen_function list \<Rightarrow> string list \<Rightarrow> nat list \<times> nat list \<times> string list" where
  "entries_longs sz arg_count [] strs = ([], [], strs)"
| "entries_longs sz arg_count (f # fs) strs =
     (let (ls, args, strs) = entry_longs f strs;
          (ls', args', strs) = entries_longs sz (arg_count + sz * 4 * length (gf_args f)) fs strs
      in (ls @ [arg_count, 0] @ ls', args @ args', strs))"

definition pack :: "nat \<Rightarrow> nat \<Rightarrow> string" where
  "pack sz v = map (\<lambda>i. char_of (v div 256 ^ i)) [0..<sz]"

definition database_longs :: "nat \<Rightarrow> string list \<Rightarrow> string list \<Rightarrow> gen_function list \<Rightarrow> nat list \<times> string list" where
  "database_longs sz dirs sets fs =
     (let (entries, args, strs) = entries_longs sz 0 fs [];
          (dir_offs, strs) = add_strs dirs strs; (set_offs, strs) = add_strs sets strs;
          arg_offs = sz * 6 + sz * length dirs + sz * length sets + sz * 11 * length fs
      in ([0x11b1c1d1, length dirs, length sets, length fs, arg_offs, arg_offs + sz * length args] @ dir_offs @ set_offs @ entries @ args, strs))"

definition database_file :: "nat \<Rightarrow> string list \<Rightarrow> string list \<Rightarrow> gen_function list \<Rightarrow> string" where
  "database_file sz dirs sets fs =
     (let (longs, strs) = database_longs sz dirs sets fs in concat (map (pack sz) longs) @ table_bytes strs)"

subsection \<open>The wrappers\<close>

text \<open>\<open>Emit::generic\<close> has a buffer of 2048 characters, \<open>Emit::output\<close> has none.\<close>

definition generic :: "string \<Rightarrow> string + string" where
  "generic s = (if 2048 \<le> length s then Inl ''Too long string passed'' else Inr s)"

primrec outputs :: "(string + string) list \<Rightarrow> string + string" where
  "outputs [] = Inr []"
| "outputs (x # xs) = (case x of Inl msg \<Rightarrow> Inl msg | Inr s \<Rightarrow> map_sum id ((@) s) (outputs xs))"

definition doOneArgumentGet :: "cibyl_db_arg \<Rightarrow> string + string" where
  "doOneArgumentGet a =
     (if da_javaType a = ''void'' \<or> da_javaType a = da_type a then Inr []
      else outputs
        [generic (''    '' @ da_javaType a @ '' '' @ da_name a @ '' = ''),
         (if da_javaType a = ''boolean'' then generic (''(boolean) (__'' @ da_name a @ '' == 0 ? false : true)'')
          else if da_javaType a = ''String'' then generic (''CRunTime.charPtrToString(__'' @ da_name a @ '')'')
          else generic (''('' @ da_javaType a @ '')CRunTime.objectRepository[__'' @ da_name a @ '']'')),
         generic ('';'' @ nl)])"

definition comma_unless_last :: "nat \<Rightarrow> nat \<Rightarrow> string" where
  "comma_unless_last i n = (if i = n - 1 then [] else '', '')"

definition wrapper_parameter :: "cibyl_db_entry \<Rightarrow> nat \<Rightarrow> string" where
  "wrapper_parameter p i =
     (let a = de_args p ! i
      in ''int '' @ (if da_type a = da_javaType a then [] else ''__'') @ da_name a @ comma_unless_last i (de_nrArgs p))"

text \<open>Whether the call is one of the object that is the first argument.\<close>

definition object_call :: "cibyl_db_entry \<Rightarrow> bool" where
  "object_call p \<longleftrightarrow> de_nrArgs p \<noteq> 0 \<and> odd (da_flags (hd (de_args p))) \<and> de_javaClass p = da_javaType (hd (de_args p))"

definition doOne :: "cibyl_db_entry \<Rightarrow> string + string" where
  "doOne p =
     (let returns = de_returns p \<noteq> 0; constructor = (de_javaMethod p = ''new''); obj = (\<not> constructor \<and> object_call p);
          rn = (if de_returns p = 3 then ''registeredHandle'' else ''ret'')
      in outputs (
        [generic (''  public static final '' @ (if returns then ''int'' else ''void'') @ '' '' @ de_name p @ ''('')] @
        map (\<lambda>i. generic (wrapper_parameter p i)) [0..<de_nrArgs p] @
        [generic ('') '' @ (if odd (de_qualifier p) then ''throws Exception'' else []) @ '' {'' @ nl)] @
        map (\<lambda>i. doOneArgumentGet (de_args p ! i)) [0..<de_nrArgs p] @
        [generic (''    '' @ (if returns then de_returnType p @ '' ret = ('' @ de_returnType p @ '')'' else [])),
         generic ((if constructor then ''new '' @ de_javaClass p
                   else if obj then da_name (hd (de_args p)) @ ''.'' @ de_javaMethod p
                   else de_javaClass p @ ''.'' @ de_javaMethod p) @ ''('')] @
        map (\<lambda>n. generic (da_name (de_args p ! n) @ comma_unless_last n (de_nrArgs p))) [(if obj then 1 else 0)..<de_nrArgs p] @
        [generic ('');'' @ nl)] @
        (if \<not> returns then []
         else (if de_returns p = 3 then [generic (''    int registeredHandle = CRunTime.registerObject(ret);'' @ nl)] else []) @
           [generic (''    return '' @ rn @ (if de_returns p = 2 then '' ? 1 : 0'' else []) @ '';'' @ nl)]) @
        [generic (''  }'' @ nl)]))"

text \<open>
  The generator of the wrappers.  \<open>cpp\<close> is the preprocessed text of a file, \<open>exists\<close> and \<open>list_dir\<close> look into
  the file system.
\<close>

record wrapper_env =
  we_cpp :: "string \<Rightarrow> string option"
  we_exists :: "string \<Rightarrow> bool"
  we_list_dir :: "string \<Rightarrow> string list option"
  we_install_dir :: string

definition globalSyscallDirectory :: "wrapper_env \<Rightarrow> string" where
  "globalSyscallDirectory E = we_install_dir E @ ''/mips-cibyl-elf/sys-root/usr/share/syscalls/''"

definition set_usage :: "syscall_db \<Rightarrow> nat \<Rightarrow> nat" where
  "set_usage st i = length (filter (\<lambda>p. de_set (snd p) = sd_sets st ! i) (sd_used st))"

definition lookupFilePath :: "wrapper_env \<Rightarrow> syscall_db \<Rightarrow> string \<Rightarrow> string" where
  "lookupFilePath E st filename =
     (case find (\<lambda>d. filename = d \<and> we_exists E d) (sd_dirs st) of Some d \<Rightarrow> d | None \<Rightarrow> globalSyscallDirectory E)"

definition doOneNonGenerated :: "wrapper_env \<Rightarrow> syscall_db \<Rightarrow> string \<Rightarrow> cibyl_db_entry \<Rightarrow> string + string" where
  "doOneNonGenerated E st inDir p =
     (case we_cpp E (lookupFilePath E st inDir @ ''/'' @ de_set p @ ''/implementation/'' @ de_name p @ ''.java'') of
        None \<Rightarrow> Inl ''Reading failed'' | Some data \<Rightarrow> Inr data)"

text \<open>The used sets of every directory.\<close>

definition used_sets :: "wrapper_env \<Rightarrow> syscall_db \<Rightarrow> (string \<times> string) list" where
  "used_sets E st = [(lookupFilePath E st d, sd_sets st ! j). d \<leftarrow> sd_dirs st, j \<leftarrow> [0..<length (sd_sets st)], set_usage st j \<noteq> 0]"

definition generateImports :: "wrapper_env \<Rightarrow> syscall_db \<Rightarrow> string + string" where
  "generateImports E st =
     outputs (map (\<lambda>(dir, cur). case we_cpp E (dir @ ''/'' @ cur @ ''/imports'') of None \<Rightarrow> Inr [] | Some data \<Rightarrow> generic data) (used_sets E st))"

definition generateInits :: "wrapper_env \<Rightarrow> syscall_db \<Rightarrow> string + string" where
  "generateInits E st =
     outputs (map (\<lambda>(dir, cur). case we_cpp E (dir @ ''/'' @ cur @ ''/init'') of None \<Rightarrow> Inr [] | Some data \<Rightarrow> Inr data) (used_sets E st))"

text \<open>\<open>strstr\<close> finds the string.\<close>

definition contains :: "string \<Rightarrow> string \<Rightarrow> bool" where
  "contains s part \<longleftrightarrow> list_ex (\<lambda>i. take (length part) (drop i s) = part) [0..<Suc (length s)]"

text \<open>The files it writes, with their texts.\<close>

definition generateHelperClasses :: "wrapper_env \<Rightarrow> syscall_db \<Rightarrow> (string \<times> string) list" where
  "generateHelperClasses E st = concat (map (\<lambda>(dir, cur).
     case we_list_dir E (dir @ ''/'' @ cur @ ''/classes'') of None \<Rightarrow> []
     | Some names \<Rightarrow> List.map_filter (\<lambda>name.
         if contains name ''.java''
         then map_option (Pair name) (we_cpp E (dir @ ''/'' @ cur @ ''/classes/'' @ name))
         else None) names) (used_sets E st))"

definition wrapper :: "wrapper_env \<Rightarrow> syscall_db \<Rightarrow> cibyl_db_entry \<Rightarrow> string + string" where
  "wrapper E st p =
     (if de_qualifier p div 2 mod 2 = 0 then doOne p else doOneNonGenerated E st (sd_dirs st ! de_user p) p)"

definition syscalls_java :: "wrapper_env \<Rightarrow> string option \<Rightarrow> syscall_db \<Rightarrow> (string + string) list" where
  "syscalls_java E package st =
     [generic (''/* GENERATED, DON'T EDIT */'' @ nl)] @
     (case package of None \<Rightarrow> [] | Some name \<Rightarrow> [generic (''package '' @ name @ '';'' @ nl)]) @
     [generateImports E st, generic (''public class Syscalls {'' @ nl), generateInits E st] @
     map (\<lambda>(_, p). wrapper E st p) (sd_used st) @
     [generic (''}'' @ nl)]"

definition wrappers_pass2 :: "wrapper_env \<Rightarrow> string option \<Rightarrow> syscall_db \<Rightarrow> string + (string \<times> string) list" where
  "wrappers_pass2 E package st =
     (case outputs (syscalls_java E package st) of Inl msg \<Rightarrow> Inl msg
      | Inr syscalls \<Rightarrow> Inr ((''Syscalls.java'', syscalls) # generateHelperClasses E st))"

end
