(* ===== verification/SyscallProps.thy ===== *)
theory SyscallProps
  imports Syscalls
begin

text \<open>
  The syscall databases and wrappers: what the generator of databases writes the translator reads back, and the
  wrapper of a function is the method that the translated code calls.
\<close>

subsection \<open>Bytes\<close>

lemma long_pack: "v < 256 ^ sz \<Longrightarrow> foldr (\<lambda>c v. of_char c + 256 * v) (pack sz v) 0 = v"
proof (induction sz arbitrary: v)
  case (Suc sz)
  have "pack (Suc sz) v = char_of v # pack sz (v div 256)"
    by (simp add: pack_def upt_conv_Cons map_Suc_upt [symmetric] div_mult2_eq o_def del: upt_Suc)
  moreover have "v div 256 < 256 ^ sz" using Suc.prems by (simp add: less_mult_imp_div_less mult.commute)
  ultimately show ?case using Suc.IH [of "v div 256"] by simp
qed (simp add: pack_def)

lemma length_pack [simp]: "length (pack sz v) = sz"
  by (simp add: pack_def)

lemma take_drop_concat:
  "(\<And>x. x \<in> set xs \<Longrightarrow> length (f x) = n) \<Longrightarrow> i < length xs \<Longrightarrow> take n (drop (n * i) (concat (map f xs) @ T)) = f (xs ! i)"
  by (induction xs arbitrary: i) (auto simp: nth_Cons split: nat.split)

lemma long_at_nth:
  assumes "\<forall>v\<in>set L. v < 256 ^ sz" "i < length L"
  shows "long_at sz (concat (map (pack sz) L) @ T) (sz * i) = L ! i"
  using long_pack [of "L ! i" sz] assms take_drop_concat [of L "pack sz" sz i T] by (simp add: long_at_def)

lemma length_rows: "(\<And>x. x \<in> set xs \<Longrightarrow> length (f x) = n) \<Longrightarrow> length (concat (map f xs)) = n * length xs"
  by (induction xs) auto

lemma nth_rows:
  assumes "\<And>x. x \<in> set xs \<Longrightarrow> length (f x) = n" "k < length xs" "j < n"
  shows "concat (map f xs) ! (n * k + j) = f (xs ! k) ! j"
proof -
  let ?C = "concat (map f xs)"
  have "n * k \<le> length ?C" using length_rows [of xs f n] assms by simp
  then have "take n (drop (n * k) ?C) ! j = ?C ! (n * k + j)" using assms(3) by simp
  then show ?thesis using take_drop_concat [of xs f n k "[]"] assms(1,2) by simp
qed

subsection \<open>The string table\<close>

definition offset_of :: "string list \<Rightarrow> string \<Rightarrow> nat" where
  "offset_of strs s = length (table_bytes (takeWhile (\<lambda>x. x \<noteq> s) strs))"

lemma table_bytes_append: "table_bytes (xs @ ys) = table_bytes xs @ table_bytes ys"
  by (simp add: table_bytes_def)

lemma offset_split:
  assumes "s \<in> set strs"
  obtains ys zs where "strs = ys @ s # zs" "offset_of strs s = length (table_bytes ys)"
proof -
  obtain ys zs where s: "strs = ys @ s # zs" "s \<notin> set ys" using split_list_first [OF assms] by blast
  have "takeWhile (\<lambda>x. x \<noteq> s) (ys @ s # zs) = ys" using s(2) by (induction ys) auto
  then show thesis using that [of ys zs] s(1) by (simp add: offset_of_def)
qed

lemma table_bytes_at: "table_bytes (ys @ s # zs) = table_bytes ys @ s @ CHR 0x00 # table_bytes zs"
  by (simp add: table_bytes_def)

lemma offset_less: "s \<in> set strs \<Longrightarrow> offset_of strs s < length (table_bytes strs)"
  by (erule offset_split) (simp add: table_bytes_at)

lemma string_at_offset:
  assumes "s \<in> set strs" "CHR 0x00 \<notin> set s"
  shows "string_at (P @ table_bytes strs) (length P + offset_of strs s) = s"
proof -
  obtain ys zs where o: "strs = ys @ s # zs" "offset_of strs s = length (table_bytes ys)" by (rule offset_split [OF assms(1)])
  have "drop (length P + offset_of strs s) (P @ table_bytes strs) = s @ CHR 0x00 # table_bytes zs"
    unfolding o(2) unfolding o(1) table_bytes_at by simp
  moreover have "takeWhile (\<lambda>c. c \<noteq> CHR 0x00) (s @ CHR 0x00 # zs') = s" for zs' using assms(2) by (induction s) auto
  ultimately show ?thesis by (simp add: string_at_def)
qed

lemma offset_prefix: "s \<in> set strs \<Longrightarrow> prefix strs F \<Longrightarrow> offset_of F s = offset_of strs s"
  by (auto simp: offset_of_def prefix_def takeWhile_append1)

lemma add_str_offset:
  assumes "add_str s strs = (off, strs')"
  shows "prefix strs strs'" "s \<in> set strs'" "off = offset_of strs' s"
proof -
  have "takeWhile (\<lambda>x. x \<noteq> s) (strs @ [s]) = takeWhile (\<lambda>x. x \<noteq> s) strs" by (induction strs) auto
  then show "prefix strs strs'" "s \<in> set strs'" "off = offset_of strs' s"
    using assms by (auto simp: add_str_def offset_of_def split: if_splits)
qed

lemma add_strs_offsets:
  "add_strs ss strs = (offs, strs') \<Longrightarrow> prefix strs strs' \<and> (\<forall>F. prefix strs' F \<longrightarrow> set ss \<subseteq> set F \<and> offs = map (offset_of F) ss)"
proof (induction ss arbitrary: strs offs)
  case (Cons s ss)
  obtain off strs1 offs1 where o: "add_str s strs = (off, strs1)" "add_strs ss strs1 = (offs1, strs')" "offs = off # offs1"
    using Cons.prems by (auto simp: Let_def split: prod.splits)
  note a = add_str_offset [OF o(1)] and IH = Cons.IH [OF o(2)]
  have p: "prefix strs strs'" by (rule prefix_order.trans [OF a(1) conjunct1 [OF IH]])
  show ?case
  proof (intro conjI allI impI p)
    fix F assume F: "prefix strs' F"
    have F1: "prefix strs1 F" by (rule prefix_order.trans [OF conjunct1 [OF IH] F])
    have "offset_of F s = off" "s \<in> set F" using offset_prefix [OF a(2) F1] a(3) set_mono_prefix [OF F1] a(2) by blast+
    then show "set (s # ss) \<subseteq> set F" "offs = map (offset_of F) (s # ss)" using conjunct2 [OF IH] F o(3) by simp_all
  qed
qed simp

subsection \<open>The rows of the file\<close>

definition arg_row :: "string list \<Rightarrow> gen_arg \<Rightarrow> nat list" where
  "arg_row F a = [0, (if ga_objectReference a then 2 ^ 24 else 0) + offset_of F (ga_javaType a), offset_of F (ga_type a), offset_of F (ga_name a)]"

definition entry_row :: "string list \<Rightarrow> gen_function \<Rightarrow> nat \<Rightarrow> nat list" where
  "entry_row F f c = [gf_nr f, encodeReturnType f, length (gf_args f), encodeQualifier f] @
     map (offset_of F) [gf_name f, gf_javaClass f, gf_javaMethod f, gf_set f, gf_returnType f] @ [c, 0]"

definition arg_strings :: "gen_arg \<Rightarrow> string set" where
  "arg_strings a = {ga_javaType a, ga_type a, ga_name a}"

definition function_strings :: "gen_function \<Rightarrow> string set" where
  "function_strings f = {gf_name f, gf_javaClass f, gf_javaMethod f, gf_set f, gf_returnType f} \<union> \<Union> (arg_strings ` set (gf_args f))"

text \<open>The arguments of the functions before the \<open>i\<close>-th.\<close>

definition args_before :: "gen_function list \<Rightarrow> nat \<Rightarrow> nat" where
  "args_before fs i = length (concat (map gf_args (take i fs)))"

lemma args_longs_rows:
  "args_longs as strs = (ls, strs') \<Longrightarrow> prefix strs strs' \<and>
    (\<forall>F. prefix strs' F \<longrightarrow> \<Union> (arg_strings ` set as) \<subseteq> set F \<and> ls = concat (map (arg_row F) as))"
proof (induction as arbitrary: strs ls)
  case (Cons a as)
  obtain offs strs1 ls1 where o: "add_strs [ga_javaType a, ga_type a, ga_name a] strs = (offs, strs1)" "args_longs as strs1 = (ls1, strs')"
    "ls = [0, (if ga_objectReference a then 2 ^ 24 else 0) + offs ! 0, offs ! 1, offs ! 2] @ ls1"
    using Cons.prems by (auto simp: arg_longs_def Let_def simp del: add_strs.simps split: prod.splits)
  note A = add_strs_offsets [OF o(1)] and IH = Cons.IH [OF o(2)]
  have "prefix strs strs'" by (rule prefix_order.trans [OF conjunct1 [OF A] conjunct1 [OF IH]])
  moreover have "\<Union> (arg_strings ` set (a # as)) \<subseteq> set F \<and> ls = concat (map (arg_row F) (a # as))" if "prefix strs' F" for F
  proof -
    have "prefix strs1 F" by (rule prefix_order.trans [OF conjunct1 [OF IH] that])
    then show ?thesis using A IH that o(3) by (simp add: arg_strings_def [of a] arg_row_def [of F a])
  qed
  ultimately show ?case by blast
qed simp

lemma entry_longs_rows:
  assumes "entry_longs f strs = (ls, args, strs')"
  shows "prefix strs strs'" "prefix strs' F \<Longrightarrow> function_strings f \<subseteq> set F \<and> ls @ [c, 0] = entry_row F f c \<and> args = concat (map (arg_row F) (gf_args f))"
proof -
  obtain offs strs1 where o: "add_strs [gf_name f, gf_javaClass f, gf_javaMethod f, gf_set f, gf_returnType f] strs = (offs, strs1)"
    "args_longs (gf_args f) strs1 = (args, strs')" "ls = [gf_nr f, encodeReturnType f, length (gf_args f), encodeQualifier f] @ offs"
    using assms by (auto simp: entry_longs_def Let_def simp del: add_strs.simps split: prod.splits)
  note A = add_strs_offsets [OF o(1)] and B = args_longs_rows [OF o(2)]
  show "prefix strs strs'" by (rule prefix_order.trans [OF conjunct1 [OF A] conjunct1 [OF B]])
  show "function_strings f \<subseteq> set F \<and> ls @ [c, 0] = entry_row F f c \<and> args = concat (map (arg_row F) (gf_args f))" if "prefix strs' F"
  proof -
    have "prefix strs1 F" by (rule prefix_order.trans [OF conjunct1 [OF B] that])
    then show ?thesis using A B that o(3) by (simp add: function_strings_def entry_row_def)
  qed
qed

lemma entries_longs_rows:
  "entries_longs sz c fs strs = (ls, args, strs') \<Longrightarrow> prefix strs strs' \<and>
    (\<forall>F. prefix strs' F \<longrightarrow> \<Union> (function_strings ` set fs) \<subseteq> set F \<and>
      ls = concat (map (\<lambda>i. entry_row F (fs ! i) (c + 4 * sz * args_before fs i)) [0..<length fs]) \<and>
      args = concat (map (arg_row F) (concat (map gf_args fs))))"
proof (induction fs arbitrary: c strs ls args)
  case (Cons f fs)
  obtain ls1 args1 strs1 ls2 args2 where o: "entry_longs f strs = (ls1, args1, strs1)"
      "entries_longs sz (c + sz * 4 * length (gf_args f)) fs strs1 = (ls2, args2, strs')" "ls = ls1 @ [c, 0] @ ls2" "args = args1 @ args2"
    using Cons.prems by (auto simp: Let_def split: prod.splits)
  note A = entry_longs_rows [OF o(1)] and IH = Cons.IH [OF o(2)]
  have "prefix strs strs'" by (rule prefix_order.trans [OF A(1) conjunct1 [OF IH]])
  moreover have "\<Union> (function_strings ` set (f # fs)) \<subseteq> set F \<and>
      ls = concat (map (\<lambda>i. entry_row F ((f # fs) ! i) (c + 4 * sz * args_before (f # fs) i)) [0..<length (f # fs)]) \<and>
      args = concat (map (arg_row F) (concat (map gf_args (f # fs))))" if "prefix strs' F" for F
  proof -
    have p: "prefix strs1 F" by (rule prefix_order.trans [OF conjunct1 [OF IH] that])
    have "concat (map (\<lambda>i. entry_row F ((f # fs) ! i) (c + 4 * sz * args_before (f # fs) i)) [0..<length (f # fs)]) =
        entry_row F f c @ concat (map (\<lambda>i. entry_row F (fs ! i) (c + sz * 4 * length (gf_args f) + 4 * sz * args_before fs i)) [0..<length fs])"
      by (simp add: upt_conv_Cons map_Suc_upt [symmetric] args_before_def o_def algebra_simps del: upt_Suc)
    then show ?thesis using A(2) [OF p, of c] IH that o(3,4) by simp
  qed
  ultimately show ?case by blast
qed (simp add: args_before_def)

definition entry_rows :: "nat \<Rightarrow> string list \<Rightarrow> gen_function list \<Rightarrow> nat list" where
  "entry_rows sz F fs = concat (map (\<lambda>i. entry_row F (fs ! i) (4 * sz * args_before fs i)) [0..<length fs])"

definition arg_rows :: "string list \<Rightarrow> gen_function list \<Rightarrow> nat list" where
  "arg_rows F fs = concat (map (arg_row F) (concat (map gf_args fs)))"

lemma length_entry_row [simp]: "length (entry_row F f c) = 11"
  by (simp add: entry_row_def)

lemma length_arg_row [simp]: "length (arg_row F a) = 4"
  by (simp add: arg_row_def)

lemma entry_rows_nth:
  assumes "i < length fs" "k < 11"
  shows "entry_rows sz F fs ! (11 * i + k) = entry_row F (fs ! i) (4 * sz * args_before fs i) ! k"
  unfolding entry_rows_def using assms by (subst nth_rows) simp_all

lemma length_entry_rows: "length (entry_rows sz F fs) = 11 * length fs"
  unfolding entry_rows_def by (subst length_rows [where n = 11]) simp_all

lemma args_before_bound: "i < length fs \<Longrightarrow> j < length (gf_args (fs ! i)) \<Longrightarrow> args_before fs i + j < length (concat (map gf_args fs))"
  by (subst id_take_nth_drop [of i fs]) (simp_all add: args_before_def)

lemma args_before_nth:
  "i < length fs \<Longrightarrow> j < length (gf_args (fs ! i)) \<Longrightarrow> concat (map gf_args fs) ! (args_before fs i + j) = gf_args (fs ! i) ! j"
  by (subst id_take_nth_drop [of i fs]) (simp_all add: args_before_def nth_append)

lemma arg_rows_nth:
  assumes "i < length fs" "j < length (gf_args (fs ! i))" "k < 4"
  shows "arg_rows F fs ! (4 * (args_before fs i + j) + k) = arg_row F (gf_args (fs ! i) ! j) ! k"
  unfolding arg_rows_def using assms args_before_bound args_before_nth by (subst nth_rows) simp_all

lemma length_arg_rows: "length (arg_rows F fs) = 4 * length (concat (map gf_args fs))"
  unfolding arg_rows_def by (subst length_rows [where n = 4]) simp_all

definition header_row :: "nat \<Rightarrow> string list \<Rightarrow> string list \<Rightarrow> gen_function list \<Rightarrow> nat list" where
  "header_row sz dirs sets fs =
     (let a = sz * (6 + length dirs + length sets + 11 * length fs)
      in [0x11b1c1d1, length dirs, length sets, length fs, a, a + sz * (4 * length (concat (map gf_args fs)))])"

lemma database_rows:
  assumes "database_longs sz dirs sets fs = (L, F)"
  shows "L = header_row sz dirs sets fs @ map (offset_of F) dirs @ map (offset_of F) sets @ entry_rows sz F fs @ arg_rows F fs"
    "set dirs \<union> set sets \<union> \<Union> (function_strings ` set fs) \<subseteq> set F"
proof -
  obtain es as strs1 dos strs2 sos where o: "entries_longs sz 0 fs [] = (es, as, strs1)" "add_strs dirs strs1 = (dos, strs2)" "add_strs sets strs2 = (sos, F)"
    and L: "L = [0x11b1c1d1, length dirs, length sets, length fs, sz * 6 + sz * length dirs + sz * length sets + sz * 11 * length fs,
      sz * 6 + sz * length dirs + sz * length sets + sz * 11 * length fs + sz * length as] @ dos @ sos @ es @ as"
    using assms by (auto simp: database_longs_def Let_def split: prod.splits)
  note A = entries_longs_rows [OF o(1)] and B = add_strs_offsets [OF o(2)] and C = add_strs_offsets [OF o(3)]
  have p: "prefix strs2 F" "prefix strs1 F" using C prefix_order.trans [OF conjunct1 [OF B] conjunct1 [OF C]] by simp_all
  have e: "es = entry_rows sz F fs" "as = arg_rows F fs" "\<Union> (function_strings ` set fs) \<subseteq> set F"
    using A p(2) by (simp_all add: entry_rows_def arg_rows_def)
  have "dos = map (offset_of F) dirs" "sos = map (offset_of F) sets" "set dirs \<subseteq> set F" "set sets \<subseteq> set F" using B C p(1) by simp_all
  then show "L = header_row sz dirs sets fs @ map (offset_of F) dirs @ map (offset_of F) sets @ entry_rows sz F fs @ arg_rows F fs"
    "set dirs \<union> set sets \<union> \<Union> (function_strings ` set fs) \<subseteq> set F"
    using L e length_arg_rows [of F fs] by (simp_all add: header_row_def Let_def algebra_simps)
qed

subsection \<open>Reading\<close>

definition arg_of :: "gen_arg \<Rightarrow> cibyl_db_arg" where
  "arg_of a = \<lparr>da_flags = (if ga_objectReference a then 1 else 0), da_javaType = ga_javaType a, da_type = ga_type a, da_name = ga_name a\<rparr>"

definition entry_of :: "nat \<Rightarrow> gen_function \<Rightarrow> cibyl_db_entry" where
  "entry_of user f = \<lparr>de_nr = gf_nr f, de_returns = encodeReturnType f, de_nrArgs = length (gf_args f), de_qualifier = encodeQualifier f,
     de_name = gf_name f, de_javaClass = gf_javaClass f, de_javaMethod = gf_javaMethod f, de_set = gf_set f, de_returnType = gf_returnType f,
     de_args = map arg_of (gf_args f), de_user = user\<rparr>"

lemma read_back:
  assumes d: "database_longs sz dirs sets fs = (L, F)" and L: "\<forall>v\<in>set L. v < 256 ^ sz" and F: "\<forall>s\<in>set F. CHR 0x00 \<notin> set s"
    and T: "length (table_bytes F) \<le> 2 ^ 24"
  defines "data \<equiv> concat (map (pack sz) L) @ table_bytes F" and "N \<equiv> 6 + length dirs + length sets"
  shows "getSyscallFileLong sz data 1 = length dirs" "getSyscallFileLong sz data 2 = length sets" "getSyscallFileLong sz data 3 = length fs"
    "getSyscallFileLong sz data 4 = sz * (N + 11 * length fs)" "getSyscallFileLong sz data 5 = sz * length L"
    "i < length dirs \<Longrightarrow> string_at data (sz * length L + getSyscallFileLong sz data (6 + i)) = dirs ! i"
    "i < length sets \<Longrightarrow> string_at data (sz * length L + getSyscallFileLong sz data (6 + length dirs + i)) = sets ! i"
    "i < length fs \<Longrightarrow> read_entry sz data (sz * length L) (sz * (N + 11 * length fs)) user (sz * N + 11 * sz * i) = entry_of user (fs ! i)"
proof -
  note rows = database_rows [OF d]
  have len: "length L = N + 11 * length fs + 4 * length (concat (map gf_args fs))"
    unfolding rows(1) by (simp add: header_row_def Let_def length_entry_rows length_arg_rows N_def)
  have long: "long_at sz data (sz * k) = L ! k" if "k < length L" for k
    unfolding data_def by (rule long_at_nth [OF L that])
  have str: "string_at data (sz * length L + offset_of F s) = s" if "s \<in> set F" for s
    using string_at_offset [of s F "concat (map (pack sz) L)"] that F length_rows [of L "pack sz" sz] by (simp add: data_def)
  have off: "offset_of F s < 2 ^ 24" if "s \<in> set F" for s using offset_less [OF that] T by simp
  have tag: "(2 ^ 24 + offset_of F s) div 2 ^ 24 = 1" if "s \<in> set F" for s
    using off [OF that] by (subst div_add_self1) simp_all
  have head: "L ! 1 = length dirs" "L ! 2 = length sets" "L ! 3 = length fs" "L ! 4 = sz * (N + 11 * length fs)" "L ! 5 = sz * length L"
    using len unfolding rows(1) by (simp_all add: header_row_def Let_def N_def algebra_simps)
  show "getSyscallFileLong sz data 1 = length dirs" "getSyscallFileLong sz data 2 = length sets" "getSyscallFileLong sz data 3 = length fs"
    "getSyscallFileLong sz data 4 = sz * (N + 11 * length fs)" "getSyscallFileLong sz data 5 = sz * length L"
    using head len long [of 1] long [of 2] long [of 3] long [of 4] long [of 5] by (simp_all add: getSyscallFileLong_def N_def)
  have D: "L ! (6 + i) = offset_of F (dirs ! i)" if "i < length dirs" for i
    unfolding rows(1) using that by (simp add: header_row_def Let_def nth_append)
  have S: "L ! (6 + length dirs + i) = offset_of F (sets ! i)" if "i < length sets" for i
    unfolding rows(1) using that by (simp add: header_row_def Let_def nth_append)
  show "string_at data (sz * length L + getSyscallFileLong sz data (6 + i)) = dirs ! i" if "i < length dirs"
  proof -
    have k: "6 + i < length L" using len that by (simp add: N_def)
    have "dirs ! i \<in> set F" using rows(2) that by auto
    then show ?thesis by (simp add: getSyscallFileLong_def long [OF k] D [OF that] str)
  qed
  show "string_at data (sz * length L + getSyscallFileLong sz data (6 + length dirs + i)) = sets ! i" if "i < length sets"
  proof -
    have k: "6 + length dirs + i < length L" using len that by (simp add: N_def)
    have "sets ! i \<in> set F" using rows(2) that by auto
    then show ?thesis by (simp add: getSyscallFileLong_def long [OF k] S [OF that] str)
  qed
  show "read_entry sz data (sz * length L) (sz * (N + 11 * length fs)) user (sz * N + 11 * sz * i) = entry_of user (fs ! i)" if i: "i < length fs"
  proof -
    let ?f = "fs ! i"
    have fF: "function_strings ?f \<subseteq> set F" using rows(2) nth_mem [OF i] by blast
    have e: "L ! (N + 11 * i + k) = entry_row F ?f (4 * sz * args_before fs i) ! k" if "k < 11" for k
      unfolding rows(1) entry_rows_nth [OF i that, symmetric] using i that length_entry_rows [of sz F fs]
      by (simp add: header_row_def Let_def nth_append N_def)
    have field: "long_at sz data (sz * N + 11 * sz * i + k * sz) = entry_row F ?f (4 * sz * args_before fs i) ! k" if "k < 11" for k
    proof -
      have eq: "sz * N + 11 * sz * i + k * sz = sz * (N + 11 * i + k)" by (simp add: algebra_simps)
      show ?thesis unfolding eq e [OF that, symmetric] using that i len by (intro long) simp
    qed
    have a: "L ! (N + 11 * length fs + 4 * (args_before fs i + j) + k) = arg_row F (gf_args ?f ! j) ! k" if "j < length (gf_args ?f)" "k < 4" for j k
      unfolding rows(1) arg_rows_nth [OF i that, symmetric] using length_entry_rows [of sz F fs]
      by (simp add: header_row_def Let_def nth_append N_def add.assoc)
    have argf: "long_at sz data (sz * (N + 11 * length fs) + 4 * sz * args_before fs i + 4 * sz * j + k * sz) = arg_row F (gf_args ?f ! j) ! k"
      if "j < length (gf_args ?f)" "k < 4" for j k
    proof -
      have eq: "sz * (N + 11 * length fs) + 4 * sz * args_before fs i + 4 * sz * j + k * sz = sz * (N + 11 * length fs + 4 * (args_before fs i + j) + k)"
        by (simp add: algebra_simps)
      show ?thesis unfolding eq a [OF that, symmetric] using that args_before_bound [OF i that(1)] len by (intro long) simp
    qed
    have arg: "read_arg sz data (sz * length L) (sz * (N + 11 * length fs) + 4 * sz * args_before fs i + 4 * sz * j) = arg_of (gf_args ?f ! j)"
      if j: "j < length (gf_args ?f)" for j
    proof -
      have "arg_strings (gf_args ?f ! j) \<subseteq> set F" using fF j by (fastforce simp: function_strings_def)
      then show ?thesis using argf [OF j, of 1] argf [OF j, of 2] argf [OF j, of 3] off tag str
        by (simp add: read_arg_def arg_of_def arg_row_def arg_strings_def Let_def)
    qed
    have as: "map (\<lambda>j. read_arg sz data (sz * length L) (sz * (N + 11 * length fs) + 4 * sz * args_before fs i + 4 * sz * j)) [0..<length (gf_args ?f)] =
        map arg_of (gf_args ?f)"
      by (rule nth_equalityI) (simp_all add: arg)
    show ?thesis
      using fF as field [of 0] field [of 1] field [of 2] field [of 3] field [of 4] field [of 5] field [of 6] field [of 7] field [of 8] field [of 9] str
      by (simp add: read_entry_def entry_of_def entry_row_def function_strings_def Let_def)
  qed
qed

lemma database_read:
  assumes d: "database_longs sz dirs sets fs = (L, F)" and L: "\<forall>v\<in>set L. v < 256 ^ sz" and F: "\<forall>s\<in>set F. CHR 0x00 \<notin> set s"
    and T: "length (table_bytes F) \<le> 2 ^ 24" and r: "read_file filename = Some (database_file sz dirs sets fs)"
  shows "readSyscallDatabase sz read_file filename st = Inr (st\<lparr>sd_dirs := sd_dirs st @ dirs, sd_sets := sd_sets st @ sets,
    sd_table := foldl (\<lambda>t f. t(gf_name f \<mapsto> entry_of (length (sd_dirs st)) f)) (sd_table st) fs\<rparr>)"
proof -
  note R = read_back [OF d L F T]
  have data: "database_file sz dirs sets fs = concat (map (pack sz) L) @ table_bytes F" by (simp add: database_file_def d)
  have dirs: "map (\<lambda>i. string_at (concat (map (pack sz) L) @ table_bytes F) (sz * length L + getSyscallFileLong sz (concat (map (pack sz) L) @ table_bytes F) (6 + i))) [0..<length dirs] = dirs"
    by (rule nth_equalityI) (simp_all add: R(6))
  have sets: "map (\<lambda>i. string_at (concat (map (pack sz) L) @ table_bytes F) (sz * length L + getSyscallFileLong sz (concat (map (pack sz) L) @ table_bytes F) (6 + length dirs + i))) [0..<length sets] = sets"
    by (rule nth_equalityI) (simp_all add: R(7))
  have es: "map (\<lambda>i. read_entry sz (concat (map (pack sz) L) @ table_bytes F) (sz * length L) (sz * (6 + length dirs + length sets + 11 * length fs)) user
      (sz * (6 + length dirs + length sets) + 11 * sz * i)) [0..<length fs] = map (entry_of user) fs" for user
    by (rule nth_equalityI) (simp_all add: R(8))
  have fold: "foldl (\<lambda>t cur. t(de_name cur \<mapsto> cur)) t (map (entry_of user) gs) = foldl (\<lambda>t f. t(gf_name f \<mapsto> entry_of user f)) t gs" for t user gs
    by (induction gs arbitrary: t) (simp_all add: entry_of_def)
  show ?thesis
    unfolding readSyscallDatabase_def r option.case data Let_def R(1-5) dirs sets es fold ..
qed

subsection \<open>The Java method a wrapper declares\<close>

text \<open>
  The descriptor of the method that a line \<open>public static final\<close> of Java declares: its name, a letter for each
  parameter, and one for the result.
\<close>

fun commas :: "string \<Rightarrow> string list" where
  "commas [] = [[]]"
| "commas (c # cs) = (if c = CHR '','' then [] # commas cs else (c # hd (commas cs)) # tl (commas cs))"

definition parameter_letter :: "string \<Rightarrow> char" where
  "parameter_letter s = (if takeWhile (\<lambda>c. c \<noteq> CHR '' '') (dropWhile (\<lambda>c. c = CHR '' '') s) = ''int'' then CHR ''I'' else CHR ''L'')"

definition java_descriptor :: "string \<Rightarrow> string" where
  "java_descriptor s =
     (let t = drop (length ''  public static final '') s; ret = takeWhile (\<lambda>c. c \<noteq> CHR '' '') t; t = drop (Suc (length ret)) t;
          name = takeWhile (\<lambda>c. c \<noteq> CHR ''('') t; ps = takeWhile (\<lambda>c. c \<noteq> CHR '')'') (drop (Suc (length name)) t)
      in name @ ''('' @ (if ps = [] then [] else map parameter_letter (commas ps)) @ '')'' @ (if ret = ''int'' then ''I'' else ''V''))"

lemma commas_nonempty [simp]: "commas s \<noteq> []"
  by (cases s) auto

lemma commas_append: "CHR '','' \<notin> set x \<Longrightarrow> commas (x @ CHR '','' # y) = x # commas y"
  by (induction x) auto

lemma commas_single: "CHR '','' \<notin> set x \<Longrightarrow> commas x = [x]"
  by (induction x) auto

lemma parameter_letters:
  assumes "\<forall>q\<in>set (qs @ [z]). CHR '','' \<notin> set q"
  shows "b = [] \<or> b = '' '' \<Longrightarrow> map parameter_letter (commas (b @ concat (map (\<lambda>q. ''int '' @ q @ '', '') qs) @ ''int '' @ z)) = replicate (Suc (length qs)) (CHR ''I'')"
  using assms
proof (induction qs arbitrary: b)
  case Nil
  then show ?case by (subst commas_single) (auto simp: parameter_letter_def)
next
  case (Cons q qs)
  let ?rest = "concat (map (\<lambda>q. ''int '' @ q @ '', '') qs) @ ''int '' @ z"
  have "commas (b @ concat (map (\<lambda>q. ''int '' @ q @ '', '') (q # qs)) @ ''int '' @ z) = (b @ ''int '' @ q) # commas ('' '' @ ?rest)"
    using Cons.prems commas_append [of "b @ ''int '' @ q" "'' '' @ ?rest"] by auto
  then show ?case using Cons.IH [of "'' ''"] Cons.prems by (auto simp: parameter_letter_def)
qed

lemma outputs_Cons: "outputs (x # xs) = Inr t \<longleftrightarrow> (\<exists>a b. x = Inr a \<and> outputs xs = Inr b \<and> t = a @ b)"
  by (auto split: sum.split simp: map_sum_def)

lemma outputs_append: "outputs (xs @ ys) = Inr t \<longleftrightarrow> (\<exists>a b. outputs xs = Inr a \<and> outputs ys = Inr b \<and> t = a @ b)"
proof (induction xs arbitrary: t)
  case (Cons x xs)
  show ?case unfolding append_Cons outputs_Cons Cons.IH by (metis append_assoc)
qed simp

lemma generic_Inr: "generic s = Inr t \<longleftrightarrow> t = s \<and> length s < 2048"
  by (auto simp: generic_def)

lemma outputs_generic: "outputs (map (\<lambda>i. generic (g i)) is) = Inr t \<Longrightarrow> t = concat (map g is)"
  by (induction "is" arbitrary: t) (auto simp: outputs_Cons generic_Inr simp del: outputs.simps(2))

definition entry_ok :: "cibyl_db_entry \<Rightarrow> bool" where
  "entry_ok p \<longleftrightarrow> de_nrArgs p = length (de_args p) \<and> CHR ''('' \<notin> set (de_name p) \<and>
     (\<forall>a\<in>set (de_args p). CHR '','' \<notin> set (da_name a) \<and> CHR '')'' \<notin> set (da_name a))"

lemma wrapper_parameters:
  assumes "entry_ok p" "n = de_nrArgs p" "0 < n"
  obtains qs z where "concat (map (wrapper_parameter p) [0..<n]) = concat (map (\<lambda>q. ''int '' @ q @ '', '') qs) @ ''int '' @ z"
    "length qs = n - 1" "\<forall>q\<in>set (qs @ [z]). CHR '','' \<notin> set q \<and> CHR '')'' \<notin> set q"
proof -
  define q where "q i = (let a = de_args p ! i in (if da_type a = da_javaType a then [] else ''__'') @ da_name a)" for i
  have n: "n = Suc (n - 1)" "[0..<n] = [0..<n - 1] @ [n - 1]" using assms(3) by (cases n; simp)+
  have w: "wrapper_parameter p i = ''int '' @ q i @ '', ''" if "i < n - 1" for i
    using that assms(2) by (simp add: wrapper_parameter_def q_def comma_unless_last_def Let_def)
  have l: "wrapper_parameter p (n - 1) = ''int '' @ q (n - 1)"
    using assms(2) by (simp add: wrapper_parameter_def q_def comma_unless_last_def Let_def)
  have "CHR '','' \<notin> set (q i) \<and> CHR '')'' \<notin> set (q i)" if "i < n" for i
  proof -
    have "de_args p ! i \<in> set (de_args p)" using assms(1,2) that by (simp add: entry_ok_def)
    then show ?thesis using assms(1) by (auto simp: q_def Let_def entry_ok_def)
  qed
  then have c: "\<forall>s\<in>set (map q [0..<n - 1] @ [q (n - 1)]). CHR '','' \<notin> set s \<and> CHR '')'' \<notin> set s" using assms(3) by auto
  have eq: "concat (map (wrapper_parameter p) [0..<n]) = concat (map (\<lambda>s. ''int '' @ s @ '', '') (map q [0..<n - 1])) @ ''int '' @ q (n - 1)"
  proof -
    have "map (wrapper_parameter p) [0..<n - 1] = map (\<lambda>s. ''int '' @ s @ '', '') (map q [0..<n - 1])" using w by simp
    then show ?thesis unfolding n(2) map_append concat_append by (simp only: l list.map concat.simps append_Nil2)
  qed
  show thesis by (rule that [OF eq]) (use c in simp_all)
qed

lemma takeWhile_until: "\<forall>x\<in>set xs. P x \<Longrightarrow> \<not> P y \<Longrightarrow> takeWhile P (xs @ y # zs) = xs"
  by (induction xs) auto

lemma doOne_descriptor:
  assumes "doOne p = Inr text" "entry_ok p"
  shows "java_descriptor text = de_name p @ ''('' @ replicate (de_nrArgs p) (CHR ''I'') @ '')'' @ (if de_returns p \<noteq> 0 then ''I'' else ''V'')"
proof -
  let ?ret = "if de_returns p \<noteq> 0 then ''int'' else ''void''"
  define ps where "ps = concat (map (wrapper_parameter p) [0..<de_nrArgs p])"
  obtain rest where t: "text = (''  public static final '' @ ?ret @ '' '' @ de_name p @ ''('') @ ps @ '')'' @ rest"
    using assms(1) by (auto simp: ps_def doOne_def Let_def outputs_append outputs_Cons generic_Inr simp del: outputs.simps(2) dest!: outputs_generic)
  have ret: "takeWhile (\<lambda>c. c \<noteq> CHR '' '') (?ret @ CHR '' '' # zs) = ?ret" for zs by simp
  have name: "takeWhile (\<lambda>c. c \<noteq> CHR ''('') (de_name p @ CHR ''('' # zs) = de_name p" for zs
    using assms(2) by (intro takeWhile_until) (auto simp: entry_ok_def)
  have pps: "takeWhile (\<lambda>c. c \<noteq> CHR '')'') (ps @ CHR '')'' # rest) = ps \<and>
      (if ps = [] then [] else map parameter_letter (commas ps)) = replicate (de_nrArgs p) (CHR ''I'')"
  proof (cases "de_nrArgs p = 0")
    case False
    then have "0 < de_nrArgs p" by simp
    then obtain qs z where q: "ps = concat (map (\<lambda>q. ''int '' @ q @ '', '') qs) @ ''int '' @ z" "length qs = de_nrArgs p - 1"
        "\<forall>q\<in>set (qs @ [z]). CHR '','' \<notin> set q \<and> CHR '')'' \<notin> set q"
      unfolding ps_def by (rule wrapper_parameters [OF assms(2) refl])
    have "\<forall>c\<in>set ps. c \<noteq> CHR '')''" unfolding q(1) using q(3) by auto
    then show ?thesis using parameter_letters [of qs z "[]"] q False takeWhile_until [of ps "\<lambda>c. c \<noteq> CHR '')''"] by simp
  qed (simp add: ps_def)
  have "drop (length ''  public static final '') text = ?ret @ CHR '' '' # de_name p @ CHR ''('' # ps @ CHR '')'' # rest" unfolding t by simp
  moreover have "drop (Suc (length ?ret)) (?ret @ CHR '' '' # zs) = zs" "drop (Suc (length (de_name p))) (de_name p @ CHR ''('' # zs) = zs" for zs
    by simp_all
  ultimately show ?thesis using pps ret name by (cases "ps = []") (simp_all add: java_descriptor_def Let_def)
qed

subsection \<open>The syscalls in use\<close>

lemma cmp_str_linear: "cmp_str a b \<or> a = b \<or> cmp_str b a"
proof -
  have "inj (of_char :: char \<Rightarrow> nat)" by (rule injI) simp
  then show ?thesis using lexordp_linear [of "map of_char a :: nat list" "map of_char b"] by (simp add: cmp_str_def inj_map_eq_map)
qed

lemma cmp_str_irrefl [simp]: "\<not> cmp_str a a"
  by (simp add: cmp_str_def lexordp_irreflexive')

lemma cmp_str_trans: "cmp_str a b \<Longrightarrow> cmp_str b c \<Longrightarrow> cmp_str a c"
  unfolding cmp_str_def by (rule lexordp_trans)

lemma map_insert_set: "sorted_wrt cmp_str (map fst es) \<Longrightarrow> set (map_insert k v es) = insert (k, v) {e \<in> set es. fst e \<noteq> k}"
proof (induction es)
  case (Cons e es)
  obtain k' v' where e: "e = (k', v')" by (cases e)
  have later: "fst d \<noteq> k" if "d \<in> set es" "cmp_str k k' \<or> k = k'" for d
    using Cons.prems e that cmp_str_trans [of k k' "fst d"] by force
  consider "cmp_str k k'" | "k = k'" | "cmp_str k' k" "\<not> cmp_str k k'" using cmp_str_linear [of k k'] by blast
  then show ?case
  proof cases
    case 1
    then have "k \<noteq> k'" by auto
    then show ?thesis using 1 e later by auto
  next
    case 2
    then show ?thesis using e later by auto
  next
    case 3
    then have "k \<noteq> k'" by auto
    then show ?thesis using 3 Cons e by auto
  qed
qed simp

lemma map_insert_keys: "set (map fst (map_insert k v es)) \<subseteq> insert k (set (map fst es))"
  by (induction k v es rule: map_insert.induct) auto

lemma map_insert_sorted: "sorted_wrt cmp_str (map fst es) \<Longrightarrow> sorted_wrt cmp_str (map fst (map_insert k v es))"
proof (induction es)
  case (Cons e es)
  obtain k' v' where e: "e = (k', v')" by (cases e)
  consider "cmp_str k k'" | "k = k'" | "cmp_str k' k" "\<not> cmp_str k k'" using cmp_str_linear [of k k'] by blast
  then show ?case
  proof cases
    case 1
    have "cmp_str k x" if "x \<in> set (map fst es)" for x using Cons.prems e that cmp_str_trans [OF 1, of x] by auto
    then show ?thesis using 1 Cons.prems e by auto
  next
    case 2
    then show ?thesis using Cons.prems e by auto
  next
    case 3
    have "cmp_str k' x" if "x \<in> set (map fst (map_insert k v es))" for x
      using subsetD [OF map_insert_keys that] Cons.prems e 3(1) by auto
    then show ?thesis using Cons 3 e by auto
  qed
qed simp

definition syscall_of :: "string \<Rightarrow> cibyl_db_entry \<Rightarrow> syscall" where
  "syscall_of path p = new_Syscall path (de_name p) (de_nrArgs p) (if de_returns p \<noteq> 0 then CHR ''I'' else CHR ''V'')"

text \<open>The syscalls handed out are those of the entries in use, which are in order of their names.\<close>

definition db_ok :: "string \<Rightarrow> syscall_db \<Rightarrow> bool" where
  "db_ok path st \<longleftrightarrow> (\<forall>n p. sd_table st n = Some p \<longrightarrow> de_name p = n) \<and> sorted_wrt cmp_str (map fst (sd_used st)) \<and>
     (\<forall>e\<in>set (sd_used st). sd_table st (fst e) = Some (snd e)) \<and>
     (\<forall>v s. sd_cache st v = Some s \<longrightarrow> (\<exists>p. (de_name p, p) \<in> set (sd_used st) \<and> s = syscall_of path p))"

lemma getSyscall_step:
  assumes ok: "db_ok path st" and g: "getSyscall sz path strtab v st = Inr (s, st')"
  shows "db_ok path st' \<and> sd_table st' = sd_table st \<and> set (sd_used st) \<subseteq> set (sd_used st') \<and>
    (\<exists>p. (de_name p, p) \<in> set (sd_used st') \<and> s = syscall_of path p)"
proof (cases "sd_cache st v")
  case (Some c)
  then have "s = c" "st' = st" using g by (auto simp: getSyscall_def split: if_splits)
  then show ?thesis using ok Some by (auto simp: db_ok_def)
next
  case None
  then obtain p where p: "sd_table st (string_at strtab v) = Some p" "s = syscall_of path p"
      "st' = st\<lparr>sd_cache := (sd_cache st)(v \<mapsto> s), sd_used := map_insert (de_name p) p (sd_used st)\<rparr>"
    using g by (auto simp: getSyscall_def Let_def syscall_of_def split: if_splits option.splits)
  have so: "sorted_wrt cmp_str (map fst (sd_used st))" using ok by (simp add: db_ok_def)
  note M = map_insert_set [OF so, of "de_name p" p] map_insert_sorted [OF so, of "de_name p" p]
  have used_ok: "\<forall>e\<in>set (sd_used st). sd_table st (fst e) = Some (snd e)" using ok by (simp add: db_ok_def)
  have n: "sd_table st (de_name p) = Some p" using ok p(1) by (auto simp: db_ok_def)
  have sub: "set (sd_used st) \<subseteq> set (map_insert (de_name p) p (sd_used st))"
  proof
    fix e assume e: "e \<in> set (sd_used st)"
    then have "sd_table st (fst e) = Some (snd e)" using ok by (simp add: db_ok_def)
    then have "fst e = de_name p \<Longrightarrow> e = (de_name p, p)" using n by (simp add: prod_eq_iff)
    then show "e \<in> set (map_insert (de_name p) p (sd_used st))" using e M(1) by auto
  qed
  have used: "(de_name p, p) \<in> set (map_insert (de_name p) p (sd_used st))" using M(1) by simp
  have "\<exists>q. (de_name q, q) \<in> set (map_insert (de_name p) p (sd_used st)) \<and> s' = syscall_of path q"
    if "((sd_cache st)(v \<mapsto> s)) v' = Some s'" for v' s'
  proof (cases "v' = v")
    case True
    then show ?thesis using that used p(2) by auto
  next
    case False
    then have "sd_cache st v' = Some s'" using that by simp
    then show ?thesis using ok sub unfolding db_ok_def by blast
  qed
  moreover have "\<forall>e\<in>set (map_insert (de_name p) p (sd_used st)). sd_table st (fst e) = Some (snd e)"
  proof
    fix e assume "e \<in> set (map_insert (de_name p) p (sd_used st))"
    then have "e = (de_name p, p) \<or> e \<in> set (sd_used st)" unfolding M(1) by auto
    then show "sd_table st (fst e) = Some (snd e)" using used_ok n by auto
  qed
  ultimately have "db_ok path st'" using ok M(2) unfolding db_ok_def p(3) by simp
  then show ?thesis using used sub p by auto
qed

text \<open>The lookups of the calls of a program.\<close>

primrec getSyscalls :: "nat \<Rightarrow> string \<Rightarrow> string \<Rightarrow> nat list \<Rightarrow> syscall_db \<Rightarrow> string + syscall list \<times> syscall_db" where
  "getSyscalls sz path strtab [] st = Inr ([], st)"
| "getSyscalls sz path strtab (v # vs) st = (case getSyscall sz path strtab v st of Inl msg \<Rightarrow> Inl msg
     | Inr (s, st) \<Rightarrow> (case getSyscalls sz path strtab vs st of Inl msg \<Rightarrow> Inl msg | Inr (ss, st) \<Rightarrow> Inr (s # ss, st)))"

text \<open>The cache gives the syscall of the name at the offset.\<close>

definition lookup_ok :: "string \<Rightarrow> string \<Rightarrow> syscall_db \<Rightarrow> bool" where
  "lookup_ok path strtab st \<longleftrightarrow> (\<forall>n p. sd_table st n = Some p \<longrightarrow> de_name p = n) \<and> sorted_wrt cmp_str (map fst (sd_used st)) \<and>
     (\<forall>e\<in>set (sd_used st). sd_table st (fst e) = Some (snd e)) \<and>
     (\<forall>v s. sd_cache st v = Some s \<longrightarrow>
        (\<exists>p. sd_table st (string_at strtab v) = Some p \<and> (de_name p, p) \<in> set (sd_used st) \<and> s = syscall_of path p))"

lemma lookup_db_ok: "lookup_ok path strtab st \<Longrightarrow> db_ok path st"
  unfolding lookup_ok_def db_ok_def by blast

lemma getSyscall_fails:
  assumes "lookup_ok path strtab st" "getSyscall sz path strtab v st = Inl msg"
  shows "length strtab * sz \<le> v \<or> sd_table st (string_at strtab v) = None"
  using assms(2) by (auto simp: getSyscall_def Let_def split: if_splits option.splits)

lemma getSyscall_lookup:
  assumes ok: "lookup_ok path strtab st" and g: "getSyscall sz path strtab v st = Inr (s, st')"
  shows "\<exists>p. sd_table st (string_at strtab v) = Some p \<and> s = syscall_of path p \<and> sd_table st' = sd_table st \<and>
    set (sd_used st') = insert (de_name p, p) (set (sd_used st)) \<and> lookup_ok path strtab st'"
proof (cases "sd_cache st v")
  case (Some c)
  then have "s = c" "st' = st" using g by (auto simp: getSyscall_def split: if_splits)
  moreover obtain p where "sd_table st (string_at strtab v) = Some p" "(de_name p, p) \<in> set (sd_used st)" "c = syscall_of path p"
    using ok Some unfolding lookup_ok_def by blast
  ultimately show ?thesis using ok by (intro exI [of _ p]) (simp add: insert_absorb)
next
  case None
  then obtain p where p: "sd_table st (string_at strtab v) = Some p" "s = syscall_of path p"
      "st' = st\<lparr>sd_cache := (sd_cache st)(v \<mapsto> s), sd_used := map_insert (de_name p) p (sd_used st)\<rparr>"
    using g by (auto simp: getSyscall_def Let_def syscall_of_def split: if_splits option.splits)
  note L = ok [unfolded lookup_ok_def]
  note named = conjunct1 [OF L] and so = conjunct1 [OF conjunct2 [OF L]] and used_ok = conjunct1 [OF conjunct2 [OF conjunct2 [OF L]]]
    and cache = conjunct2 [OF conjunct2 [OF conjunct2 [OF L]]]
  note M = map_insert_set [OF so, of "de_name p" p] map_insert_sorted [OF so, of "de_name p" p]
  have n: "sd_table st (de_name p) = Some p" using named p(1) by auto
  have u: "set (map_insert (de_name p) p (sd_used st)) = insert (de_name p, p) (set (sd_used st))"
  proof -
    have "e = (de_name p, p)" if "e \<in> set (sd_used st)" "fst e = de_name p" for e
      using that used_ok n by (metis option.inject prod.collapse)
    then show ?thesis unfolding M(1) by auto
  qed
  have "lookup_ok path strtab st'"
    unfolding lookup_ok_def
  proof (intro conjI allI impI ballI)
    show "de_name q = m" if "sd_table st' m = Some q" for m q using that named p(3) by simp
    show "sorted_wrt cmp_str (map fst (sd_used st'))" using M(2) p(3) by simp
    show "sd_table st' (fst e) = Some (snd e)" if "e \<in> set (sd_used st')" for e using that u used_ok n p(3) by auto
    fix v' s' assume c: "sd_cache st' v' = Some s'"
    show "\<exists>q. sd_table st' (string_at strtab v') = Some q \<and> (de_name q, q) \<in> set (sd_used st') \<and> s' = syscall_of path q"
    proof (cases "v' = v")
      case True
      then show ?thesis using c p u by simp
    next
      case False
      then show ?thesis using c cache p(3) u by auto
    qed
  qed
  then show ?thesis using p u by simp
qed

lemma getSyscalls_lookup:
  assumes "lookup_ok path strtab st"
  shows "case getSyscalls sz path strtab vs st of
      Inl msg \<Rightarrow> \<exists>v\<in>set vs. length strtab * sz \<le> v \<or> sd_table st (string_at strtab v) = None
    | Inr (ss, st') \<Rightarrow> \<exists>ps. map (\<lambda>v. sd_table st (string_at strtab v)) vs = map Some ps \<and> ss = map (syscall_of path) ps \<and>
        sd_table st' = sd_table st \<and> set (sd_used st') = set (sd_used st) \<union> (\<lambda>p. (de_name p, p)) ` set ps \<and>
        sorted_wrt cmp_str (map fst (sd_used st'))"
  using assms
proof (induction vs arbitrary: st)
  case Nil
  then show ?case by (simp add: lookup_ok_def)
next
  case (Cons v vs)
  show ?case
  proof (cases "getSyscall sz path strtab v st")
    case (Inl msg)
    then show ?thesis using getSyscall_fails [OF Cons.prems Inl] by auto
  next
    case (Inr r)
    obtain s st1 where r: "r = (s, st1)" by (cases r)
    obtain p where p: "sd_table st (string_at strtab v) = Some p" "s = syscall_of path p" "sd_table st1 = sd_table st"
      "set (sd_used st1) = insert (de_name p, p) (set (sd_used st))" "lookup_ok path strtab st1"
      using getSyscall_lookup [OF Cons.prems Inr [unfolded r]] by blast
    note IH = Cons.IH [OF p(5)]
    show ?thesis
    proof (cases "getSyscalls sz path strtab vs st1")
      case (Inl msg)
      then show ?thesis using IH Inr r p(3) by simp
    next
      case (Inr r2)
      obtain ss st2 where r2: "r2 = (ss, st2)" by (cases r2)
      obtain ps where ps: "map (\<lambda>v. sd_table st (string_at strtab v)) vs = map Some ps" "ss = map (syscall_of path) ps"
        "sd_table st2 = sd_table st" "set (sd_used st2) = insert (de_name p, p) (set (sd_used st)) \<union> (\<lambda>p. (de_name p, p)) ` set ps"
        "sorted_wrt cmp_str (map fst (sd_used st2))"
        using IH Inr r2 p(3,4) by auto
      have "getSyscalls sz path strtab (v # vs) st = Inr (s # ss, st2)"
        using \<open>getSyscall sz path strtab v st = Inr r\<close> r Inr r2 by simp
      then show ?thesis using p(1,2) ps by (auto intro!: exI [of _ "p # ps"])
    qed
  qed
qed

lemma outputs_part: "outputs xs = Inr t \<Longrightarrow> x \<in> set xs \<Longrightarrow> \<exists>pre body post. x = Inr body \<and> t = pre @ body @ post"
proof (induction xs arbitrary: t)
  case (Cons y ys)
  then obtain a b where y: "y = Inr a" "outputs ys = Inr b" "t = a @ b" by (auto simp: outputs_Cons simp del: outputs.simps(2))
  show ?case
  proof (cases "x = y")
    case True
    then show ?thesis using y by (metis append_Nil)
  next
    case False
    then obtain pre body post where "x = Inr body" "b = pre @ body @ post" using Cons y by auto
    then show ?thesis using y(3) by (metis append_assoc)
  qed
qed simp

subsection \<open>Properties\<close>

text \<open>
  C12: what the generator of databases writes, \<open>readSyscallDatabase\<close> reads back: the directories and sets join those
  read before, and each function is found under its name with its fields, its arguments and their types.
\<close>

theorem database_roundtrip:
  assumes "database_longs sz dirs sets fs = (L, F)" "\<forall>v\<in>set L. v < 256 ^ sz" "\<forall>s\<in>set F. CHR 0x00 \<notin> set s"
    and "length (table_bytes F) \<le> 2 ^ 24" "read_file filename = Some (database_file sz dirs sets fs)"
  shows "readSyscallDatabase sz read_file filename st = Inr (st\<lparr>sd_dirs := sd_dirs st @ dirs, sd_sets := sd_sets st @ sets,
    sd_table := foldl (\<lambda>t f. t(gf_name f \<mapsto> entry_of (length (sd_dirs st)) f)) (sd_table st) fs\<rparr>)"
  using assms by (rule database_read)

text \<open>
  C18: the syscalls that the calls of a program look up, one after the other, in a freshly read table: the call at each offset gets the syscall
  of the entry whose name stands at that offset of the string table, also when it asks again; the lookups fail only for an offset out of range
  or a name without an entry; and the entries in use, for which wrappers are written, are those of the names looked up, each
  once, in increasing order of their names.
\<close>

theorem getSyscalls_entries:
  assumes "\<forall>n p. sd_table st n = Some p \<longrightarrow> de_name p = n" "sd_cache st = Map.empty" "sd_used st = []"
  shows "case getSyscalls sz path strtab vs st of
      Inl msg \<Rightarrow> \<exists>v\<in>set vs. length strtab * sz \<le> v \<or> sd_table st (string_at strtab v) = None
    | Inr (ss, st') \<Rightarrow> \<exists>ps. map (\<lambda>v. sd_table st (string_at strtab v)) vs = map Some ps \<and>
        map sc_signature ss = map (\<lambda>p. path @ ''Syscalls/'' @ de_name p @ ''('' @ replicate (de_nrArgs p) (CHR ''I'') @ '')'' @
          (if de_returns p \<noteq> 0 then ''I'' else ''V'')) ps \<and>
        map sc_arguments ss = map de_nrArgs ps \<and> map sc_returns ss = map (\<lambda>p. de_returns p \<noteq> 0) ps \<and>
        sd_table st' = sd_table st \<and> set (sd_used st') = (\<lambda>p. (de_name p, p)) ` set ps \<and> sorted_wrt cmp_str (map fst (sd_used st'))"
proof -
  have "lookup_ok path strtab st" using assms by (simp add: lookup_ok_def)
  from getSyscalls_lookup [OF this, where sz = sz and vs = vs] show ?thesis
    using assms(3) by (auto simp: syscall_of_def new_Syscall_def comp_def split: sum.splits)
qed

text \<open>
  C11: every syscall that translated code calls is a method of Syscalls.java: its wrapper stands in the file, and when
  it is generated, the Java method it declares has the name, parameters and result of the call.
\<close>

theorem syscall_declared:
  assumes "db_ok path st" "getSyscall sz path strtab v st = Inr (s, st')" "set (sd_used st') \<subseteq> set (sd_used st'')"
    and "wrappers_pass2 E package st'' = Inr (syscalls # files)"
  shows "\<exists>p pre body post. snd syscalls = pre @ body @ post \<and> wrapper E st'' p = Inr body \<and> s = syscall_of path p \<and>
    (entry_ok p \<and> de_qualifier p div 2 mod 2 = 0 \<longrightarrow> sc_signature s = path @ ''Syscalls/'' @ java_descriptor body)"
proof -
  obtain p where p: "(de_name p, p) \<in> set (sd_used st'')" "s = syscall_of path p" using getSyscall_step [OF assms(1,2)] assms(3) by blast
  have "wrapper E st'' p \<in> set (syscalls_java E package st'')" using p(1) by (force simp: syscalls_java_def)
  moreover have "outputs (syscalls_java E package st'') = Inr (snd syscalls)"
    using assms(4) by (auto simp: wrappers_pass2_def split: sum.splits)
  ultimately obtain pre body post where b: "wrapper E st'' p = Inr body" "snd syscalls = pre @ body @ post" using outputs_part by blast
  have "sc_signature s = path @ ''Syscalls/'' @ java_descriptor body" if "entry_ok p" "de_qualifier p div 2 mod 2 = 0"
    using doOne_descriptor [of p body] b(1) that by (simp add: wrapper_def p(2) syscall_of_def new_Syscall_def)
  then have sg: "entry_ok p \<and> de_qualifier p div 2 mod 2 = 0 \<longrightarrow> sc_signature s = path @ ''Syscalls/'' @ java_descriptor body" by simp
  show ?thesis
    by (rule exI [of _ p], rule exI [of _ pre], rule exI [of _ body], rule exI [of _ post]) (intro conjI b p(2) sg)
qed

subsection \<open>A sample\<close>

text \<open>One function of one set, with an object and a number.\<close>

definition sample_function :: gen_function where
  "sample_function = \<lparr>gf_nr = 7, gf_returnType = ''int'', gf_name = ''NOPH_List_set'', gf_javaClass = ''List'', gf_javaMethod = ''set'', gf_set = ''ui'',
     gf_qualifier = [], gf_args = [\<lparr>ga_javaType = ''List'', ga_type = ''NOPH_List_t'', ga_name = ''l'', ga_objectReference = True\<rparr>,
       \<lparr>ga_javaType = ''int'', ga_type = ''int'', ga_name = ''i'', ga_objectReference = False\<rparr>]\<rparr>"

definition sample_db :: syscall_db where
  "sample_db = empty_db\<lparr>sd_dirs := [''d''], sd_sets := [''ui''], sd_table := [''NOPH_List_set'' \<mapsto> entry_of 0 sample_function]\<rparr>"

definition no_files :: wrapper_env where
  "no_files = \<lparr>we_cpp = (\<lambda>_. None), we_exists = (\<lambda>_. False), we_list_dir = (\<lambda>_. None), we_install_dir = ''x''\<rparr>"

lemma database_roundtrip_witness:
  "readSyscallDatabase 4 (\<lambda>_. Some (database_file 4 [''d''] [''ui''] [sample_function])) ''db'' empty_db = Inr sample_db"
proof -
  obtain L F where d: "database_longs 4 [''d''] [''ui''] [sample_function] = (L, F)" by (cases "database_longs 4 [''d''] [''ui''] [sample_function]")
  have "(\<forall>v\<in>set L. v < 256 ^ 4) \<and> (\<forall>s\<in>set F. CHR 0x00 \<notin> set s) \<and> length (table_bytes F) \<le> 2 ^ 24"
    using d by (auto simp: database_longs_def sample_function_def entry_longs_def arg_longs_def add_str_def table_bytes_def encodeReturnType_def encodeQualifier_def)
  then show ?thesis
    using database_roundtrip [OF d, of "\<lambda>_. Some (database_file 4 [''d''] [''ui''] [sample_function])" "''db''" empty_db] d
    by (simp add: sample_db_def empty_db_def sample_function_def)
qed

lemma no_outputs: "outputs (map (\<lambda>(dir, cur). Inr []) xs) = Inr []"
  by (induction xs) auto

lemma sample_get: "\<exists>s st. getSyscall 4 ''p/'' (''NOPH_List_set'' @ [CHR 0x00]) 0 sample_db = Inr (s, st) \<and>
    sd_used st = [(''NOPH_List_set'', entry_of 0 sample_function)]"
proof -
  have n: "string_at (''NOPH_List_set'' @ [CHR 0x00]) 0 = ''NOPH_List_set''" by code_simp
  show ?thesis using n by (simp add: getSyscall_def sample_db_def empty_db_def entry_of_def sample_function_def Let_def)
qed

lemma sample_db_ok: "db_ok ''p/'' sample_db"
  by (simp add: db_ok_def sample_db_def empty_db_def entry_of_def sample_function_def)

text \<open>Two functions, looked up by three calls, the first and the last by the same name.\<close>

definition second_function :: gen_function where
  "second_function = sample_function\<lparr>gf_name := ''NOPH_Exit'', gf_returnType := ''void'', gf_args := []\<rparr>"

definition two_db :: syscall_db where
  "two_db = sample_db\<lparr>sd_table := (sd_table sample_db)(''NOPH_Exit'' \<mapsto> entry_of 0 second_function)\<rparr>"

lemma getSyscalls_entries_witness:
  "\<exists>ss st. getSyscalls 4 ''p/'' (''NOPH_List_set'' @ [CHR 0x00] @ ''NOPH_Exit'' @ [CHR 0x00]) [0, 14, 0] two_db = Inr (ss, st) \<and>
    map sc_signature ss = [''p/Syscalls/NOPH_List_set(II)I'', ''p/Syscalls/NOPH_Exit()V'', ''p/Syscalls/NOPH_List_set(II)I''] \<and>
    set (sd_used st) = {(''NOPH_List_set'', entry_of 0 sample_function), (''NOPH_Exit'', entry_of 0 second_function)}"
proof -
  let ?tab = "''NOPH_List_set'' @ [CHR 0x00] @ ''NOPH_Exit'' @ [CHR 0x00]"
  have n: "string_at ?tab 0 = ''NOPH_List_set''" "string_at ?tab 14 = ''NOPH_Exit''" by code_simp+
  have t: "sd_table two_db ''NOPH_List_set'' = Some (entry_of 0 sample_function)" "sd_table two_db ''NOPH_Exit'' = Some (entry_of 0 second_function)"
    by (simp_all add: two_db_def sample_db_def)
  have e: "de_name (entry_of 0 sample_function) = ''NOPH_List_set''" "de_nrArgs (entry_of 0 sample_function) = 2" "de_returns (entry_of 0 sample_function) \<noteq> 0"
    "de_name (entry_of 0 second_function) = ''NOPH_Exit''" "de_nrArgs (entry_of 0 second_function) = 0" "de_returns (entry_of 0 second_function) = 0"
    by code_simp+
  have f: "\<forall>n p. sd_table two_db n = Some p \<longrightarrow> de_name p = n" "sd_cache two_db = Map.empty" "sd_used two_db = []"
    by (simp_all add: two_db_def sample_db_def empty_db_def entry_of_def sample_function_def second_function_def)
  note G = getSyscalls_entries [OF f, where sz = 4 and path = "''p/''" and strtab = ?tab and vs = "[0, 14, 0]"]
  have "\<not> isl (getSyscalls 4 ''p/'' ?tab [0, 14, 0] two_db)" using G n t by (auto split: sum.splits)
  then obtain ss st where g: "getSyscalls 4 ''p/'' ?tab [0, 14, 0] two_db = Inr (ss, st)"
    by (cases "getSyscalls 4 ''p/'' ?tab [0, 14, 0] two_db") auto
  obtain ps where ps: "map (\<lambda>v. sd_table two_db (string_at ?tab v)) [0, 14, 0] = map Some ps"
    "map sc_signature ss = map (\<lambda>p. ''p/'' @ ''Syscalls/'' @ de_name p @ ''('' @ replicate (de_nrArgs p) (CHR ''I'') @ '')'' @
          (if de_returns p \<noteq> 0 then ''I'' else ''V'')) ps" "set (sd_used st) = (\<lambda>p. (de_name p, p)) ` set ps"
    using G [unfolded g sum.case prod.case] by blast
  have "map Some ps = map Some [entry_of 0 sample_function, entry_of 0 second_function, entry_of 0 sample_function]"
    using ps(1) n t by simp
  then have "ps = [entry_of 0 sample_function, entry_of 0 second_function, entry_of 0 sample_function]"
    by (rule map_injective [OF _ inj_Some])
  then show ?thesis using g ps(2,3) e by (simp add: numeral_2_eq_2 insert_commute)
qed

lemma syscall_declared_witness:
  "\<exists>s st f text files pre body post p. getSyscall 4 ''p/'' (''NOPH_List_set'' @ [CHR 0x00]) 0 sample_db = Inr (s, st) \<and>
    wrappers_pass2 no_files None st = Inr ((f, text) # files) \<and> text = pre @ body @ post \<and> wrapper no_files st p = Inr body"
proof -
  obtain s st where g: "getSyscall 4 ''p/'' (''NOPH_List_set'' @ [CHR 0x00]) 0 sample_db = Inr (s, st)"
      "sd_used st = [(''NOPH_List_set'', entry_of 0 sample_function)]" using sample_get by blast
  have "\<not> isl (doOne (entry_of 0 sample_function))" by code_simp
  then obtain t where t: "doOne (entry_of 0 sample_function) = Inr t" by (cases "doOne (entry_of 0 sample_function)") auto
  then have "wrapper no_files st (entry_of 0 sample_function) = Inr t"
    by (simp add: wrapper_def entry_of_def encodeQualifier_def sample_function_def)
  moreover have "generateImports no_files st = Inr []" "generateInits no_files st = Inr []"
    by (simp_all add: generateImports_def generateInits_def no_files_def no_outputs)
  ultimately have "\<exists>f text files. wrappers_pass2 no_files None st = Inr ((f, text) # files)"
    using g(2) by (simp add: wrappers_pass2_def syscalls_java_def generic_def nl_def)
  then obtain f tx files where w: "wrappers_pass2 no_files None st = Inr ((f, tx) # files)" by blast
  show ?thesis using syscall_declared [OF sample_db_ok g(1) subset_refl w] g(1) w by fastforce
qed

end
