(* ===== verification/CTime.thy ===== *)
theory CTime
  imports Prelude
begin

text \<open>
  The calendar of libs/src/libc/time.c.  \<open>long\<close> values are kept as integers: the day counts and
  years they hold are far from the bounds of 32 bits, except where \<open>wrap32\<close> is written out.
  \<open>_mktime\<close>, which works on unsigned values, is on words.
\<close>

subsection \<open>Broken-down time\<close>

record tm =
  tm_sec :: int
  tm_min :: int
  tm_hour :: int
  tm_mday :: int
  tm_mon :: int
  tm_year :: int
  tm_wday :: int
  tm_yday :: int
  tm_isdst :: int

definition tm0 :: tm where
  "tm0 = \<lparr>tm_sec = 0, tm_min = 0, tm_hour = 0, tm_mday = 0, tm_mon = 0, tm_year = 0, tm_wday = 0, tm_yday = 0, tm_isdst = 0\<rparr>"

text \<open>\<open>_mktime\<close>, all in unsigned arithmetic.\<close>

definition mktime :: "u32 \<Rightarrow> u32 \<Rightarrow> u32 \<Rightarrow> u32 \<Rightarrow> u32 \<Rightarrow> u32 \<Rightarrow> u32" where
  "mktime year mon day hour mins sec =
     (let mon = mon - 2;
          (mon, year) = (if 0 \<ge> sint mon then (mon + 12, year - 1) else (mon, year))
      in (((year div 4 - year div 100 + year div 400 + 367 * mon div 12 + day + year * 365 - 719499)
            * 24 + hour) * 60 + mins) * 60 + sec)"

definition SECS_PER_HOUR :: int where "SECS_PER_HOUR = 60 * 60"
definition SECS_PER_DAY :: int where "SECS_PER_DAY = SECS_PER_HOUR * 24"

definition isleap :: "int \<Rightarrow> bool" where
  "isleap year \<longleftrightarrow> c_mod year 4 = 0 \<and> (c_mod year 100 \<noteq> 0 \<or> c_mod year 400 = 0)"

definition mon_yday :: "bool \<Rightarrow> int list" where
  "mon_yday leap = (if leap then [0, 31, 60, 91, 121, 152, 182, 213, 244, 274, 305, 335, 366]
                    else [0, 31, 59, 90, 120, 151, 181, 212, 243, 273, 304, 334, 365])"

definition DIV :: "int \<Rightarrow> int \<Rightarrow> int" where
  "DIV a b = c_div a b - (if c_mod a b < 0 then 1 else 0)"

definition LEAPS_THRU_END_OF :: "int \<Rightarrow> int" where
  "LEAPS_THRU_END_OF y = DIV y 4 - DIV y 100 + DIV y 400"

text \<open>The loops of \<open>__offtime\<close>: the remainder, the year, the month.\<close>

function rem_up :: "int \<Rightarrow> int \<Rightarrow> int \<times> int" where
  "rem_up rem days = (if rem < 0 then rem_up (rem + SECS_PER_DAY) (days - 1) else (rem, days))"
  by pat_completeness auto
termination
  by (relation "measure (\<lambda>(rem, days). nat (- rem))") (auto simp: SECS_PER_DAY_def SECS_PER_HOUR_def)

function rem_down :: "int \<Rightarrow> int \<Rightarrow> int \<times> int" where
  "rem_down rem days =
     (if rem \<ge> SECS_PER_DAY then rem_down (rem - SECS_PER_DAY) (days + 1) else (rem, days))"
  by pat_completeness auto
termination
  by (relation "measure (\<lambda>(rem, days). nat rem)") (auto simp: SECS_PER_DAY_def SECS_PER_HOUR_def)

declare rem_up.simps [simp del] rem_down.simps [simp del]

lemma DIV_floor: "0 < b \<Longrightarrow> DIV a b = a div b"
proof -
  assume b: "0 < b"
  show "DIV a b = a div b"
  proof (cases "0 \<le> a")
    case True
    then show ?thesis using b by (simp add: DIV_def c_div_nonneg c_mod_nonneg not_less)
  next
    case False
    then have q: "c_div a b = - ((- a) div b)" using b by (simp add: c_div_neg)
    then have "c_mod a b = - ((- a) mod b)"
      by (simp add: c_mod_def minus_mult_div_eq_mod [symmetric])
    moreover have "0 \<le> (- a) mod b" using b by simp
    ultimately have "DIV a b = - ((- a) div b) - (if (- a) mod b = 0 then 0 else 1)"
      using q by (auto simp: DIV_def)
    also have "\<dots> = a div b"
      using zdiv_zminus1_eq_if [of b "- a"] b by simp
    finally show ?thesis .
  qed
qed

lemma c_mod_eq_0: "0 < b \<Longrightarrow> c_mod a b = 0 \<longleftrightarrow> b dvd a"
proof (cases "0 \<le> a")
  case False
  assume b: "0 < b"
  then have "c_mod a b = - ((- a) mod b)"
    using False by (simp add: c_mod_def c_div_neg minus_mult_div_eq_mod [symmetric])
  then show ?thesis by (simp add: dvd_eq_mod_eq_0 [symmetric])
qed (simp add: c_mod_nonneg dvd_eq_mod_eq_0)

lemma isleap_dvd: "isleap y \<longleftrightarrow> 4 dvd y \<and> (\<not> 100 dvd y \<or> 400 dvd y)"
  by (simp add: isleap_def c_mod_eq_0)

lemma LEAPS_floor: "LEAPS_THRU_END_OF y = y div 4 - y div 100 + y div 400"
  by (simp add: LEAPS_THRU_END_OF_def DIV_floor)

lemma LEAPS_step: "LEAPS_THRU_END_OF y = LEAPS_THRU_END_OF (y - 1) + (if isleap y then 1 else 0)"
proof -
  have s: "y div k = (y - 1) div k + (if k dvd y then 1 else 0)" if "0 < k" for k
  proof -
    define q r where "q = (y - 1) div k" and "r = (y - 1) mod k"
    then have y: "y - 1 = k * q + r" "0 \<le> r" "r < k" using that by simp_all
    then have "y = k * q + (r + 1)" by simp
    show ?thesis
    proof (cases "r + 1 = k")
      case True
      then have "y = k * (q + 1)" using y by (simp add: algebra_simps)
      then show ?thesis using y that by simp
    next
      case False
      have "\<not> k dvd r + 1" using False y zdvd_not_zless [of "r + 1" k] by auto
      then have "\<not> k dvd y" using \<open>y = k * q + (r + 1)\<close> by (simp add: dvd_add_right_iff)
      moreover have "y div k = q"
        by (rule int_div_pos_eq [OF \<open>y = k * q + (r + 1)\<close>]) (use y False in simp_all)
      moreover have "(y - 1) div k = q" using y by simp
      ultimately show ?thesis by simp
    qed
  qed
  have t: "400 dvd y \<Longrightarrow> 100 dvd y" "100 dvd y \<Longrightarrow> 4 dvd y"
    using dvd_trans [of 100 400 y] dvd_trans [of 4 100 y] by simp_all
  show ?thesis
    unfolding LEAPS_floor isleap_dvd s [of 4, simplified] s [of 100, simplified] s [of 400, simplified]
    using t by (cases "4 dvd y"; cases "100 dvd y"; cases "400 dvd y") simp_all
qed

lemma LEAPS_diff:
  fixes y :: int
  shows "0 \<le> LEAPS_THRU_END_OF (y + int n) - LEAPS_THRU_END_OF y \<and>
    LEAPS_THRU_END_OF (y + int n) - LEAPS_THRU_END_OF y \<le> (int n + 3) div 4"
proof -
  have "0 \<le> LEAPS_THRU_END_OF (y + int n) - LEAPS_THRU_END_OF y \<and>
    LEAPS_THRU_END_OF (y + int n) - LEAPS_THRU_END_OF y \<le> (y + int n) div 4 - y div 4"
  proof (induction n)
    case (Suc n)
    have "(z + 1) div 4 = z div 4 + (if 4 dvd z + 1 then 1 else 0)" for z :: int by presburger
    from this [of "y + int n"]
    have "(y + int n + 1) div 4 = (y + int n) div 4 + (if 4 dvd y + int n + 1 then 1 else 0)" .
    then show ?case using Suc LEAPS_step [of "y + int n + 1"] by (auto simp: isleap_dvd ac_simps)
  qed simp
  moreover have "(y + int n) div 4 \<le> (y + 4 * ((int n + 3) div 4)) div 4"
    by (rule zdiv_mono1) simp_all
  then have "(y + int n) div 4 - y div 4 \<le> (int n + 3) div 4" by simp
  ultimately show ?thesis by linarith
qed

text \<open>
  The loop that corrects the guessed year.  Its measure: a negative day count, which is left in one
  step, weighs 400 more than a positive one.
\<close>

definition year_guess :: "int \<Rightarrow> int \<Rightarrow> int" where
  "year_guess days y = y + c_div days 365 - (if c_mod days 365 < 0 then 1 else 0)"

definition year_days :: "int \<Rightarrow> int \<Rightarrow> int" where
  "year_days days y = (let yg = year_guess days y in
     days - ((yg - y) * 365 + LEAPS_THRU_END_OF (yg - 1) - LEAPS_THRU_END_OF (y - 1)))"

lemma year_guess_floor: "year_guess days y = y + days div 365"
  using DIV_floor [of 365 days] by (simp add: year_guess_def DIV_def)

lemma year_days_measure:
  assumes "days < 0 \<or> days \<ge> (if isleap y then 366 else 365)"
  shows "nat (if year_days days y < 0 then 400 - year_days days y else year_days days y) <
    nat (if days < 0 then 400 - days else days)"
proof -
  define s r where "s = days div 365" and "r = days mod 365"
  have days: "days = 365 * s + r" "0 \<le> r" "r < 365" by (simp_all add: s_def r_def)
  let ?g = "LEAPS_THRU_END_OF (y + s - 1) - LEAPS_THRU_END_OF (y - 1)"
  have d': "year_days days y = r - ?g"
    unfolding year_days_def year_guess_floor s_def [symmetric] Let_def using days(1) by simp
  consider "1 < s" | "s = 1" | "s = 0" | "s < 0" by linarith
  then show ?thesis
  proof cases
    case 1
    have "0 \<le> ?g" "?g \<le> (s + 3) div 4"
      using LEAPS_diff [of "y - 1" "nat s"] 1 by (simp_all add: algebra_simps)
    moreover have "(s + 3) div 4 \<le> s + 3" using 1 by presburger
    ultimately show ?thesis using d' days 1 by (auto simp: nat_less_eq_zless)
  next
    case 2
    then have "?g = (if isleap y then 1 else 0)" using LEAPS_step [of y] by simp
    then show ?thesis using d' days 2 assms by (auto simp: nat_less_eq_zless split: if_splits)
  next
    case 3
    then show ?thesis using days assms by (auto split: if_splits)
  next
    case 4
    have g: "?g \<le> 0" "- ?g \<le> (- s + 3) div 4"
      using LEAPS_diff [of "y + s - 1" "nat (- s)"] 4 by (simp_all add: algebra_simps)
    have "(- s + 3) div 4 \<le> - s" using 4 by presburger
    with g show ?thesis using d' days 4 by (auto simp: nat_less_eq_zless)
  qed
qed

function year_loop :: "int \<Rightarrow> int \<Rightarrow> int \<times> int" where
  "year_loop days y =
     (if days < 0 \<or> days \<ge> (if isleap y then 366 else 365)
      then year_loop (year_days days y) (year_guess days y) else (days, y))"
  by pat_completeness auto
termination
  by (relation "measure (\<lambda>(days, y). nat (if days < 0 then 400 - days else days))")
     (simp, simp only: in_measure prod.case, rule year_days_measure)

declare year_loop.simps [simp del]

text \<open>\<open>for (y = 11; days < ip[y]; --y)\<close>: it stops at 0 at the latest, since \<open>ip[0]\<close> is 0.\<close>

primrec mon_loop :: "int list \<Rightarrow> int \<Rightarrow> nat \<Rightarrow> nat" where
  "mon_loop ip days 0 = 0"
| "mon_loop ip days (Suc y) = (if days < ip ! Suc y then mon_loop ip days y else Suc y)"

definition offtime :: "int \<Rightarrow> int \<Rightarrow> tm \<Rightarrow> tm \<times> int" where
  "offtime t off tp =
     (let days = c_div t SECS_PER_DAY;
          rem = wrap32 (c_mod t SECS_PER_DAY + off);
          (rem, days) = rem_up rem days;
          (rem, days) = rem_down rem days;
          tp = tp\<lparr>tm_hour := c_div rem SECS_PER_HOUR\<rparr>;
          rem = c_mod rem SECS_PER_HOUR;
          tp = tp\<lparr>tm_min := c_div rem 60, tm_sec := c_mod rem 60, tm_wday := c_mod (4 + days) 7\<rparr>;
          tp = (if tm_wday tp < 0 then tp\<lparr>tm_wday := tm_wday tp + 7\<rparr> else tp);
          (days, y) = year_loop days 1970;
          tp = tp\<lparr>tm_year := wrap32 (y - 1900)\<rparr>
      in if tm_year tp \<noteq> y - 1900 then (tp, 0)
         else (let tp = tp\<lparr>tm_yday := days\<rparr>;
                   ip = mon_yday (isleap y);
                   m = mon_loop ip days 11
               in (tp\<lparr>tm_mon := int m, tm_mday := days - ip ! m + 1\<rparr>, 1)))"

definition gmtime :: "int \<Rightarrow> tm \<Rightarrow> tm" where
  "gmtime t tp = fst (offtime t 0 tp)"

text \<open>
  \<open>localtime_r\<close> with what \<open>TimeZone.getDefault()\<close> answers as arguments: \<open>bias\<close> is
  \<open>getRawOffset()\<close>, \<open>dst\<close> is \<open>useDaylightTime()\<close>.
\<close>

definition localtime_r :: "int \<Rightarrow> int \<Rightarrow> int \<Rightarrow> tm \<Rightarrow> tm" where
  "localtime_r bias dst t result =
     fst (offtime t (wrap32 (- bias * 60)) (result\<lparr>tm_isdst := dst\<rparr>))"

definition timegm :: "tm \<Rightarrow> u32" where
  "timegm t = mktime (of_int (tm_year t + 1900)) (of_int (tm_mon t + 1)) (of_int (tm_mday t))
     (of_int (tm_hour t)) (of_int (tm_min t)) (of_int (tm_sec t))"

subsection \<open>The calendar\<close>

text \<open>The day number, from 1970-01-01, on which year \<open>y\<close> begins, and the length of a year.\<close>

definition day_of_year :: "int \<Rightarrow> int" where
  "day_of_year y = 365 * (y - 1970) + LEAPS_THRU_END_OF (y - 1) - LEAPS_THRU_END_OF 1969"

definition year_length :: "int \<Rightarrow> int" where
  "year_length y = (if isleap y then 366 else 365)"

lemma year_loop_correct:
  "case year_loop days y of (days', y') \<Rightarrow>
     day_of_year y' + days' = day_of_year y + days \<and> 0 \<le> days' \<and> days' < year_length y'"
proof (induction days y rule: year_loop.induct)
  case (1 days y)
  show ?case
  proof (cases "days < 0 \<or> days \<ge> (if isleap y then 366 else 365)")
    case True
    have "day_of_year (year_guess days y) + year_days days y = day_of_year y + days"
      by (simp add: day_of_year_def year_days_def Let_def)
    then show ?thesis using 1 [OF True] True by (subst year_loop.simps) (auto split: prod.splits)
  next
    case False
    then show ?thesis by (subst year_loop.simps) (auto simp: year_length_def)
  qed
qed

lemma mon_loop_correct:
  assumes "ip ! 0 \<le> days" "days < ip ! Suc y"
  shows "mon_loop ip days y \<le> y \<and> ip ! mon_loop ip days y \<le> days \<and> days < ip ! Suc (mon_loop ip days y)"
  using assms by (induction y) auto

lemma rem_up_correct: "case rem_up rem days of (rem', days') \<Rightarrow>
  0 \<le> rem' \<and> 86400 * days' + rem' = 86400 * days + rem"
proof (induction rem days rule: rem_up.induct)
  case (1 rem days)
  then show ?case
    by (subst rem_up.simps) (auto simp: SECS_PER_DAY_def SECS_PER_HOUR_def split: prod.splits if_splits)
qed

lemma rem_down_correct: "0 \<le> rem \<Longrightarrow> case rem_down rem days of (rem', days') \<Rightarrow>
  0 \<le> rem' \<and> rem' < 86400 \<and> 86400 * days' + rem' = 86400 * days + rem"
proof (induction rem days rule: rem_down.induct)
  case (1 rem days)
  then show ?case
    by (subst rem_down.simps) (auto simp: SECS_PER_DAY_def SECS_PER_HOUR_def split: prod.splits if_splits)
qed

subsection \<open>Correctness\<close>

lemma LEAPS_mono: "a \<le> b \<Longrightarrow> LEAPS_THRU_END_OF a \<le> LEAPS_THRU_END_OF b"
  using LEAPS_diff [of a "nat (b - a)"] by simp

lemma day_of_year_bounds:
  "1970 \<le> y \<Longrightarrow> 365 * (y - 1970) \<le> day_of_year y" "y \<le> 1970 \<Longrightarrow> day_of_year y \<le> 365 * (y - 1970)"
  using LEAPS_mono [of 1969 "y - 1"] LEAPS_mono [of "y - 1" 1969] by (auto simp: day_of_year_def)

lemma year_bounds:
  assumes "0 \<le> d" "d < year_length y" "day_of_year y + d = n"
  shows "0 \<le> n \<longrightarrow> 0 \<le> y - 1970 \<and> 365 * (y - 1970) \<le> n"
    "n < 0 \<longrightarrow> y - 1970 < 0 \<and> 365 * (1970 - y) \<le> 366 - n"
proof -
  have len: "year_length y \<le> 366" by (simp add: year_length_def)
  have neg: "y - 1970 < 0" if "n < 0"
    using day_of_year_bounds(1) [of y] that assms by (cases "1970 \<le> y") auto
  then show "n < 0 \<longrightarrow> y - 1970 < 0 \<and> 365 * (1970 - y) \<le> 366 - n"
    using day_of_year_bounds(2) [of y] assms len by auto
  have "0 \<le> y - 1970" if n: "0 \<le> n"
  proof (rule ccontr)
    assume "\<not> 0 \<le> y - 1970"
    then have "day_of_year y + year_length y \<le> day_of_year 1970"
      using LEAPS_step [of y] LEAPS_mono [of y 1969] by (auto simp: day_of_year_def year_length_def)
    then show False using n assms by (simp add: day_of_year_def)
  qed
  then show "0 \<le> n \<longrightarrow> 0 \<le> y - 1970 \<and> 365 * (y - 1970) \<le> n"
    using day_of_year_bounds(1) [of y] assms by auto
qed

subsection \<open>The calendar of the specification\<close>

text \<open>
  Leap years, the lengths of the months and the days since 1970-01-01, counted year by year and month
  by month; the tables and formulas of the code are not used.
\<close>

definition leap_year :: "int \<Rightarrow> bool" where
  "leap_year y \<longleftrightarrow> 4 dvd y \<and> (\<not> 100 dvd y \<or> 400 dvd y)"

definition month_lengths :: "int \<Rightarrow> int list" where
  "month_lengths y = [31, if leap_year y then 29 else 28, 31, 30, 31, 30, 31, 31, 30, 31, 30, 31]"

definition days_in_year :: "int \<Rightarrow> int" where
  "days_in_year y = sum_list (month_lengths y)"

definition day_number :: "int \<Rightarrow> nat \<Rightarrow> int \<Rightarrow> int" where
  "day_number y m d = sum_list (map days_in_year [1970..y - 1]) - sum_list (map days_in_year [y..1969])
     + sum_list (take m (month_lengths y)) + d - 1"

definition seconds :: "tm \<Rightarrow> int" where
  "seconds t = ((day_number (tm_year t + 1900) (nat (tm_mon t)) (tm_mday t) * 24 + tm_hour t) * 60 + tm_min t) * 60 + tm_sec t"

text \<open>A calendar date and time of day, with its weekday and day of the year.  1970-01-01 was a Thursday.\<close>

definition valid_tm :: "tm \<Rightarrow> bool" where
  "valid_tm t \<longleftrightarrow> 0 \<le> tm_sec t \<and> tm_sec t < 60 \<and> 0 \<le> tm_min t \<and> tm_min t < 60 \<and>
     0 \<le> tm_hour t \<and> tm_hour t < 24 \<and> 0 \<le> tm_mon t \<and> tm_mon t < 12 \<and> 1 \<le> tm_mday t \<and>
     (let y = tm_year t + 1900; m = nat (tm_mon t)
      in tm_mday t \<le> month_lengths y ! m \<and> tm_yday t = sum_list (take m (month_lengths y)) + tm_mday t - 1 \<and>
         tm_wday t = (4 + day_number y m (tm_mday t)) mod 7)"

text \<open>The tables and formulas of the code agree with it.\<close>

lemma leap_year_isleap: "leap_year y = isleap y"
  by (simp add: leap_year_def isleap_dvd)

lemma days_in_year_length: "days_in_year y = year_length y"
  by (simp add: days_in_year_def month_lengths_def year_length_def leap_year_isleap)

lemma mon_yday_month_lengths:
  assumes "m < 12"
  shows "mon_yday (isleap y) ! m = sum_list (take m (month_lengths y))"
    "mon_yday (isleap y) ! Suc m - mon_yday (isleap y) ! m = month_lengths y ! m"
proof -
  have "m \<in> {0, 1, 2, 3, 4, 5, 6, 7, 8, 9, 10, 11}" using assms by (auto simp: less_Suc_eq numeral_eq_Suc)
  then show "mon_yday (isleap y) ! m = sum_list (take m (month_lengths y))"
    "mon_yday (isleap y) ! Suc m - mon_yday (isleap y) ! m = month_lengths y ! m"
    by (elim insertE emptyE; simp add: mon_yday_def month_lengths_def leap_year_isleap)+
qed

lemma days_before_year:
  "sum_list (map days_in_year [1970..y - 1]) - sum_list (map days_in_year [y..1969]) = day_of_year y"
proof -
  have next_year: "day_of_year (z + 1) = day_of_year z + days_in_year z" for z
    using LEAPS_step [of z] by (simp add: day_of_year_def days_in_year_length year_length_def)
  have start: "day_of_year 1970 = 0" by (simp add: day_of_year_def)
  show ?thesis
  proof (cases "1970 \<le> y")
    case True
    have "sum_list (map days_in_year [1970..1970 + int n - 1]) = day_of_year (1970 + int n)" for n
    proof (induction n)
      case (Suc n)
      have "[1970..1970 + int (Suc n) - 1] = [1970..1970 + int n - 1] @ [1970 + int n]"
        using upto_rec2 [of 1970 "1970 + int n"] by (simp add: algebra_simps)
      then show ?case using Suc next_year [of "1970 + int n"] by (simp add: algebra_simps)
    qed (simp add: start)
    from this [of "nat (y - 1970)"] show ?thesis using True by simp
  next
    case False
    have "sum_list (map days_in_year [1970 - int n..1969]) = - day_of_year (1970 - int n)" for n
    proof (induction n)
      case (Suc n)
      have "[1970 - int (Suc n)..1969] = (1969 - int n) # [1970 - int n..1969]"
        using upto_rec1 [of "1969 - int n" 1969] by (simp add: algebra_simps)
      then show ?case using Suc next_year [of "1969 - int n"] by (simp add: algebra_simps)
    qed (simp add: start)
    from this [of "nat (1970 - y)"] show ?thesis using False by simp
  qed
qed

lemma day_number_code: "m < 12 \<Longrightarrow> day_number y m d = day_of_year y + mon_yday (isleap y) ! m + d - 1"
  by (simp add: day_number_def days_before_year mon_yday_month_lengths(1))

lemma valid_tm_code:
  "valid_tm t \<longleftrightarrow> 0 \<le> tm_sec t \<and> tm_sec t < 60 \<and> 0 \<le> tm_min t \<and> tm_min t < 60 \<and>
     0 \<le> tm_hour t \<and> tm_hour t < 24 \<and> 0 \<le> tm_mon t \<and> tm_mon t < 12 \<and> 1 \<le> tm_mday t \<and>
     (let ip = mon_yday (isleap (tm_year t + 1900)); m = nat (tm_mon t)
      in tm_mday t \<le> ip ! Suc m - ip ! m \<and> tm_yday t = ip ! m + tm_mday t - 1 \<and>
         tm_wday t = (4 + day_number (tm_year t + 1900) m (tm_mday t)) mod 7)"
proof -
  have "nat (tm_mon t) < 12" if "tm_mon t < 12" "0 \<le> tm_mon t" using that by simp
  then show ?thesis unfolding valid_tm_def Let_def
    using mon_yday_month_lengths [of "nat (tm_mon t)" "tm_year t + 1900"] by auto
qed

lemma c_mod_floor:
  assumes "0 < b"
  shows "(if c_mod a b < 0 then c_mod a b + b else c_mod a b) = a mod b"
proof -
  have "a mod b = a - b * (a div b)" by (simp add: minus_mult_div_eq_mod)
  also have "a div b = c_div a b - (if c_mod a b < 0 then 1 else 0)"
    using DIV_floor [OF assms, of a] by (simp add: DIV_def)
  finally show ?thesis by (simp add: c_mod_def algebra_simps)
qed

lemma c_mod_bounds: "0 < b \<Longrightarrow> - b \<le> c_mod a b \<and> c_mod a b < b"
proof -
  assume b: "0 < b"
  then have "0 \<le> a mod b" "a mod b < b" by simp_all
  with b show ?thesis using c_mod_floor [OF b, of a] by (auto split: if_splits)
qed

lemma c_div_mod: "b * c_div a b + c_mod a b = a"
  by (simp add: c_mod_def)

lemma offtime_fields:
  assumes t: "- (2 ^ 31) \<le> t" "t < 2 ^ 31" and off: "- (2 ^ 30) \<le> off" "off < 2 ^ 30"
  shows "\<exists>tp'. offtime t off tp = (tp', 1) \<and> valid_tm tp' \<and> seconds tp' = t + off \<and> tm_isdst tp' = tm_isdst tp
    \<and> - 106 \<le> tm_year tp' - 70 \<and> tm_year tp' - 70 \<le> 110"
proof -
  let ?r = "c_mod t 86400" and ?d = "c_div t 86400"
  have day: "SECS_PER_DAY = 86400" "SECS_PER_HOUR = 3600" by (simp_all add: SECS_PER_DAY_def SECS_PER_HOUR_def)
  have r: "- 86400 \<le> ?r" "?r < 86400"
    using c_mod_bounds [of 86400 t] by auto
  have w: "wrap32 (?r + off) = ?r + off" using r off by (intro wrap32_id) auto
  obtain rem1 days1 where 1: "rem_up (?r + off) ?d = (rem1, days1)" by fastforce
  obtain rem2 days2 where 2: "rem_down rem1 days1 = (rem2, days2)" by fastforce
  obtain days3 y where 3: "year_loop days2 1970 = (days3, y)" by fastforce
  have R: "0 \<le> rem2" "rem2 < 86400" "86400 * days2 + rem2 = t + off"
    using rem_up_correct [where rem = "?r + off" and days = ?d] rem_down_correct [where rem = rem1 and days = days1] 1 2 c_div_mod [of 86400 t] by auto
  have Y: "day_of_year y + days3 = days2" "0 \<le> days3" "days3 < year_length y"
    using year_loop_correct [where days = days2 and y = 1970] 3 by (auto simp: day_of_year_def)
  have D: "- 37284 \<le> days2" "days2 \<le> 37284" using R t off by auto
  have yb: "- 106 \<le> y - 1970" "y - 1970 \<le> 110"
    using year_bounds [OF Y(2,3,1)] D by (auto simp: not_less)
  then have wy: "wrap32 (y - 1900) = y - 1900" by (intro wrap32_id) auto
  let ?ip = "mon_yday (isleap y)" and ?m = "mon_loop (mon_yday (isleap y)) days3 11"
  have "?ip ! 0 = 0" "?ip ! Suc 11 = year_length y" by (simp_all add: mon_yday_def year_length_def)
  then have M: "?m \<le> 11" "?ip ! ?m \<le> days3" "days3 < ?ip ! Suc ?m"
    using mon_loop_correct [of ?ip days3 11] Y by auto
  have hms: "c_div rem2 3600 = rem2 div 3600" "c_mod rem2 3600 = rem2 mod 3600"
    "c_div (rem2 mod 3600) 60 = rem2 mod 3600 div 60" "c_mod (rem2 mod 3600) 60 = rem2 mod 3600 mod 60"
    using R by (simp_all add: c_div_nonneg c_mod_nonneg)
  define tp' where "tp' = tp\<lparr>tm_sec := rem2 mod 3600 mod 60, tm_min := rem2 mod 3600 div 60, tm_hour := rem2 div 3600,
    tm_mday := days3 - ?ip ! ?m + 1, tm_mon := int ?m, tm_year := y - 1900,
    tm_wday := (4 + days2) mod 7, tm_yday := days3\<rparr>"
  define wd where "wd = c_mod (4 + days2) 7"
  have W: "(if wd < 0 then wd + 7 else wd) = (4 + days2) mod 7" unfolding wd_def by (rule c_mod_floor) simp
  have "offtime t off tp = (tp', 1)"
    unfolding offtime_def day Let_def w 1 2 3 prod.case hms wy wd_def [symmetric] tp'_def W [symmetric]
    by (cases "wd < 0") simp_all
  moreover have dn: "day_number y ?m (days3 - ?ip ! ?m + 1) = days2"
    using Y M(1) by (simp add: day_number_code)
  have "valid_tm tp'"
    using M R dn by (auto simp: valid_tm_code tp'_def Let_def)
  moreover have "seconds tp' = t + off"
    using dn R(3) by (simp add: seconds_def tp'_def)
  moreover have "tm_isdst tp' = tm_isdst tp" "tm_year tp' = y - 1900" by (simp_all add: tp'_def)
  moreover have "- 106 \<le> y - 1900 - 70 \<and> y - 1900 - 70 \<le> 110" using yb by simp
  ultimately show ?thesis by metis
qed

lemma udiv_of_int:
  assumes "0 \<le> a" "a < 2 ^ 32" "0 < b" "b < 2 ^ 32"
  shows "(of_int a :: u32) div of_int b = of_int (a div b)"
  using assms by (simp add: word_div_def uint_word_of_int_eq take_bit_int_eq_self)

lemma udiv_numeral:
  "0 \<le> a \<Longrightarrow> a < 2 ^ 32 \<Longrightarrow> (of_int a :: u32) div 4 = of_int (a div 4)"
  "0 \<le> a \<Longrightarrow> a < 2 ^ 32 \<Longrightarrow> (of_int a :: u32) div 100 = of_int (a div 100)"
  "0 \<le> a \<Longrightarrow> a < 2 ^ 32 \<Longrightarrow> (of_int a :: u32) div 400 = of_int (a div 400)"
  using udiv_of_int [of a 4] udiv_of_int [of a 100] udiv_of_int [of a 400] by simp_all

text \<open>The shifted month and year of \<open>_mktime\<close>: February comes last, so the leap day ends the year.\<close>

lemma mktime_shifted:
  fixes y m :: int
  assumes y: "1 \<le> y" "y < 2 ^ 31" and m: "0 \<le> m" "m < 12"
  defines "k \<equiv> (if m \<le> 1 then m + 11 else m - 1)" and "y' \<equiv> (if m \<le> 1 then y - 1 else y)"
  shows "mktime (of_int y) (of_int (m + 1)) (of_int d) (of_int h) (of_int mi) (of_int s) =
    of_int (((((y' div 4 - y' div 100 + y' div 400 + 367 * k div 12 + d) + y' * 365 - 719499) * 24 + h) * 60 + mi) * 60 + s)"
proof -
  have mon: "(of_int (m + 1) - 2 :: u32) = of_int (m - 1)" by simp
  have cond: "0 \<ge> sint (of_int (m - 1) :: u32) \<longleftrightarrow> m \<le> 1"
    using sint_of_int32 [of "m - 1"] m by simp
  have shifted: "(if 0 \<ge> sint (of_int (m - 1) :: u32) then (of_int (m - 1) + 12, of_int y - 1) else (of_int (m - 1), of_int y)) =
    (of_int k :: u32, of_int y' :: u32)"
    unfolding cond by (simp add: k_def y'_def)
  have k: "0 \<le> 367 * k" "367 * k < 2 ^ 32" using m by (auto simp: k_def)
  have d12: "(367 * of_int k :: u32) div 12 = of_int (367 * k div 12)"
    using udiv_of_int [OF k, of 12] by simp
  have y': "0 \<le> y'" "y' < 2 ^ 32" using y by (auto simp: y'_def)
  show ?thesis
    unfolding mktime_def mon Let_def shifted prod.case d12 udiv_numeral [OF y'] by simp
qed

text \<open>The shifted formula counts the days of the calendar.\<close>

lemma month_days:
  fixes m :: nat
  assumes "m < 12"
  shows "367 * (if m \<le> 1 then int m + 11 else int m - 1) div 12 =
    mon_yday leap ! m + (if m \<le> 1 then 336 else if leap then - 30 else - 29)"
proof -
  have "m \<in> {0, 1, 2, 3, 4, 5, 6, 7, 8, 9, 10, 11}" using assms by (auto simp: less_Suc_eq numeral_eq_Suc)
  then show ?thesis by (elim insertE emptyE) (auto simp: mon_yday_def)
qed

lemma mktime_seconds:
  assumes y: "1 \<le> tm_year t + 1900" "tm_year t + 1900 < 2 ^ 31" and m: "0 \<le> tm_mon t" "tm_mon t < 12"
  shows "timegm t = of_int (seconds t)"
proof -
  define m where "m = nat (tm_mon t)"
  have m: "tm_mon t = int m" "m < 12" using m by (auto simp: m_def)
  let ?y = "tm_year t + 1900"
  let ?k = "if int m \<le> 1 then int m + 11 else int m - 1" and ?y' = "if int m \<le> 1 then ?y - 1 else ?y"
  note L = LEAPS_step [of ?y] LEAPS_floor [of ?y] LEAPS_floor [of "?y - 1"] LEAPS_floor [of 1969]
  note M = month_days [OF m(2), of "isleap ?y"]
  have "?y' div 4 - ?y' div 100 + ?y' div 400 + 367 * ?k div 12 + tm_mday t + ?y' * 365 - 719499 =
    day_number ?y m (tm_mday t)"
  proof (cases "m \<le> 1")
    case True
    then have k: "?k = int m + 11" and y': "?y' = ?y - 1" by simp_all
    show ?thesis unfolding k y' using M L(3,4) True by (simp add: day_number_code [OF m(2)] day_of_year_def)
  next
    case False
    then have k: "?k = int m - 1" and y': "?y' = ?y" by simp_all
    have "367 * (int m - 1) div 12 = mon_yday (isleap ?y) ! m + (if isleap ?y then - 30 else - 29)"
      using M False by simp
    moreover have "LEAPS_THRU_END_OF 1969 = 477" by (simp add: L(4))
    ultimately show ?thesis
      unfolding k y' L(2) [symmetric] L(1) day_number_code [OF m(2)] day_of_year_def by simp
  qed
  then show ?thesis
    using mktime_shifted [OF y, of "int m" "tm_mday t" "tm_hour t" "tm_min t" "tm_sec t"] m
    by (simp add: timegm_def seconds_def m_def [symmetric])
qed

subsection \<open>Uniqueness of the broken-down time\<close>

lemma day_of_year_next: "day_of_year (y + 1) = day_of_year y + year_length y"
  using LEAPS_step [of y] by (simp add: day_of_year_def year_length_def)

lemma day_of_year_mono: "y \<le> z \<Longrightarrow> day_of_year y \<le> day_of_year z"
  using LEAPS_mono [of "y - 1" "z - 1"] by (simp add: day_of_year_def)

lemma year_unique:
  assumes "day_of_year y + d = day_of_year z + e" "0 \<le> d" "d < year_length y" "0 \<le> e" "e < year_length z"
  shows "y = z"
proof (rule ccontr)
  assume "y \<noteq> z"
  then consider "y + 1 \<le> z" | "z + 1 \<le> y" by linarith
  then show False
    using day_of_year_mono [of "y + 1" z] day_of_year_mono [of "z + 1" y] day_of_year_next [of y] day_of_year_next [of z] assms
    by cases auto
qed

lemma mon_yday_sorted: "sorted (mon_yday leap)" "length (mon_yday leap) = 13" "mon_yday leap ! 0 = 0"
  "mon_yday leap ! 12 = (if leap then 366 else 365)"
  by (simp_all add: mon_yday_def)

lemma month_unique:
  assumes "m < 12" "k < 12" "mon_yday l ! m \<le> d" "d < mon_yday l ! Suc m" "mon_yday l ! k \<le> d" "d < mon_yday l ! Suc k"
  shows "m = k"
proof (rule ccontr)
  assume "m \<noteq> k"
  then consider "Suc m \<le> k" | "Suc k \<le> m" by linarith
  then show False
    using sorted_nth_mono [OF mon_yday_sorted(1), of "Suc m" k l] sorted_nth_mono [OF mon_yday_sorted(1), of "Suc k" m l]
      assms by cases (auto simp: mon_yday_sorted(2))
qed

lemma hms_unique:
  assumes "((n * 24 + h) * 60 + mi) * 60 + s = ((n' * 24 + h') * 60 + mi') * 60 + (s' :: int)"
    "0 \<le> s" "s < 60" "0 \<le> s'" "s' < 60" "0 \<le> mi" "mi < 60" "0 \<le> mi'" "mi' < 60" "0 \<le> h" "h < 24" "0 \<le> h'" "h' < 24"
  shows "n = n' \<and> h = h' \<and> mi = mi' \<and> s = s'"
proof -
  have unique: "a = b \<and> u = v" if "a * k + u = b * k + v" "0 \<le> u" "u < k" "0 \<le> v" "v < k" for a b u v k :: int
  proof -
    have "0 < k" using that(2,3) by simp
    then have "(a * k + u) div k = a" "(b * k + v) div k = b" using that(2-5) by simp_all
    then have "a = b" using that(1) by metis
    then show ?thesis using that(1) by simp
  qed
  have "(n * 24 + h) * 60 + mi = (n' * 24 + h') * 60 + mi' \<and> s = s'" by (rule unique [of _ 60]) (use assms in auto)
  moreover from this have "n * 24 + h = n' * 24 + h' \<and> mi = mi'" by (intro unique [of _ 60]) (use assms in auto)
  moreover from this have "n = n' \<and> h = h'" by (intro unique [of _ 24]) (use assms in auto)
  ultimately show ?thesis by simp
qed

lemma valid_tm_day:
  assumes "valid_tm t"
  defines "y \<equiv> tm_year t + 1900" and "m \<equiv> nat (tm_mon t)"
  shows "m < 12" "mon_yday (isleap y) ! m \<le> tm_yday t" "tm_yday t < mon_yday (isleap y) ! Suc m"
    "0 \<le> tm_yday t" "tm_yday t < year_length y" "day_number y m (tm_mday t) = day_of_year y + tm_yday t"
proof -
  show m: "m < 12" using assms by (auto simp: valid_tm_code m_def)
  show 1: "mon_yday (isleap y) ! m \<le> tm_yday t" "tm_yday t < mon_yday (isleap y) ! Suc m"
    using assms by (auto simp: valid_tm_code Let_def)
  have "mon_yday (isleap y) ! 0 \<le> mon_yday (isleap y) ! m" "mon_yday (isleap y) ! Suc m \<le> mon_yday (isleap y) ! 12"
    using m by (auto intro!: sorted_nth_mono [OF mon_yday_sorted(1)] simp: mon_yday_sorted(2))
  then show "0 \<le> tm_yday t" "tm_yday t < year_length y" using 1 by (auto simp: mon_yday_sorted year_length_def)
  have "tm_yday t = mon_yday (isleap y) ! m + tm_mday t - 1"
    using assms by (auto simp: valid_tm_code Let_def)
  then show "day_number y m (tm_mday t) = day_of_year y + tm_yday t"
    by (simp add: day_number_code [OF m])
qed

lemma valid_tm_time:
  assumes "valid_tm t"
  shows "0 \<le> tm_sec t" "tm_sec t < 60" "0 \<le> tm_min t" "tm_min t < 60" "0 \<le> tm_hour t" "tm_hour t < 24"
    "0 \<le> tm_mon t" "tm_wday t = (4 + day_number (tm_year t + 1900) (nat (tm_mon t)) (tm_mday t)) mod 7"
  using assms by (simp_all add: valid_tm_def Let_def)

lemma seconds_unique:
  assumes a: "valid_tm a" and b: "valid_tm b" and eq: "seconds a = seconds b" and dst: "tm_isdst a = tm_isdst b"
  shows "a = b"
proof -
  note A = valid_tm_day [OF a] and B = valid_tm_day [OF b]
  note va = valid_tm_time [OF a] and vb = valid_tm_time [OF b]
  note h = hms_unique [OF eq [unfolded seconds_def] va(1,2) vb(1,2) va(3,4) vb(3,4) va(5,6) vb(5,6)]
  have y: "tm_year a + 1900 = tm_year b + 1900"
    using A(6) B(6) h by (intro year_unique [OF _ A(4,5) B(4,5)]) simp
  then have yd: "tm_yday a = tm_yday b" using h A(6) B(6) by simp
  have "nat (tm_mon a) = nat (tm_mon b)"
    using A(1-3) B(1-3) y yd by (intro month_unique [of _ _ "isleap (tm_year a + 1900)" "tm_yday a"]) auto
  then have m: "tm_mon a = tm_mon b" using va(7) vb(7) by simp
  then have d: "tm_mday a = tm_mday b" using h y by (simp add: day_number_def)
  have "tm_wday a = tm_wday b" using va(8) vb(8) m d y by simp
  then show ?thesis using h y yd m d dst by simp
qed

subsection \<open>Properties\<close>

lemma gmtime_spec:
  assumes "- (2 ^ 31) \<le> t" "t < 2 ^ 31"
  shows "valid_tm (gmtime t tp) \<and> seconds (gmtime t tp) = t \<and> tm_isdst (gmtime t tp) = tm_isdst tp \<and>
    1864 \<le> tm_year (gmtime t tp) + 1900 \<and> tm_year (gmtime t tp) + 1900 \<le> 2080"
proof -
  obtain tp' where "offtime t 0 tp = (tp', 1) \<and> valid_tm tp' \<and> seconds tp' = t + 0 \<and> tm_isdst tp' = tm_isdst tp
    \<and> - 106 \<le> tm_year tp' - 70 \<and> tm_year tp' - 70 \<le> 110"
    using offtime_fields [OF assms, of 0 tp] by auto
  then show ?thesis by (simp add: gmtime_def)
qed

text \<open>
  C30: \<open>__offtime\<close> succeeds for every 32-bit time and every offset below 2^30 seconds, and what it
  stores is a calendar date and time of day (every field in its range, month lengths and leap
  years respected, weekday and day of the year right) that lies exactly \<open>t + off\<close> seconds after
  the epoch.  The calendar is that of the specification above: the lengths of the months, the rule for leap
  years and the days of the years since 1970 added up, without the tables of the code.
\<close>

theorem offtime_correct:
  assumes "- (2 ^ 31) \<le> t" "t < 2 ^ 31" "- (2 ^ 30) \<le> off" "off < 2 ^ 30"
  shows "snd (offtime t off tp) = 1 \<and> valid_tm (fst (offtime t off tp)) \<and>
    seconds (fst (offtime t off tp)) = t + off \<and> tm_isdst (fst (offtime t off tp)) = tm_isdst tp"
  using offtime_fields [OF assms, of tp] by auto

theorem offtime_correct_witness:
  "snd (offtime (- 1) 3600 tm0) = 1 \<and> seconds (fst (offtime (- 1) 3600 tm0)) = 3599"
  using offtime_correct [of "- 1" 3600 tm0] by simp

text \<open>C26: \<open>timegm\<close> inverts \<open>gmtime\<close> on every 32-bit time, those before 1970 included.\<close>

theorem timegm_gmtime:
  assumes "- (2 ^ 31) \<le> t" "t < 2 ^ 31"
  shows "timegm (gmtime t tp) = of_int t"
proof -
  have g: "valid_tm (gmtime t tp)" "seconds (gmtime t tp) = t" "1864 \<le> tm_year (gmtime t tp) + 1900"
    "tm_year (gmtime t tp) + 1900 \<le> 2080"
    using gmtime_spec [OF assms, of tp] by auto
  then have "timegm (gmtime t tp) = of_int (seconds (gmtime t tp))"
    by (intro mktime_seconds) (auto simp: valid_tm_def)
  then show ?thesis using g(2) by simp
qed

theorem timegm_gmtime_witness: "timegm (gmtime (- 86401) tm0) = of_int (- 86401)"
  using timegm_gmtime [of "- 86401" tm0] by simp

text \<open>\<open>gmtime\<close> inverts \<open>timegm\<close> on every calendar date whose time fits in 32 bits.\<close>

theorem gmtime_timegm:
  assumes "valid_tm t" "- (2 ^ 31) \<le> seconds t" "seconds t < 2 ^ 31" "1 \<le> tm_year t + 1900" "tm_year t < 2000000"
  shows "gmtime (sint (timegm t)) t = t"
proof -
  have "timegm t = of_int (seconds t)" using assms by (intro mktime_seconds) (auto simp: valid_tm_def)
  then have "sint (timegm t) = seconds t" using sint_of_int32 [OF assms(2,3)] by simp
  then show ?thesis using gmtime_spec [OF assms(2,3), of t] assms(1) by (intro seconds_unique) auto
qed

theorem gmtime_timegm_witness:
  "gmtime (sint (timegm \<lparr>tm_sec = 30, tm_min = 0, tm_hour = 12, tm_mday = 29, tm_mon = 1, tm_year = 100, tm_wday = 2, tm_yday = 59, tm_isdst = 0\<rparr>))
     \<lparr>tm_sec = 30, tm_min = 0, tm_hour = 12, tm_mday = 29, tm_mon = 1, tm_year = 100, tm_wday = 2, tm_yday = 59, tm_isdst = 0\<rparr> =
   \<lparr>tm_sec = 30, tm_min = 0, tm_hour = 12, tm_mday = 29, tm_mon = 1, tm_year = 100, tm_wday = 2, tm_yday = 59, tm_isdst = 0\<rparr>"
  by (rule gmtime_timegm) code_simp+

text \<open>
  \<open>localtime_r\<close> multiplies the zone's raw offset, which Java counts in milliseconds east of UTC,
  by 60 and negates it: one hour east of UTC, the epoch becomes a moment of February 1963.
\<close>

theorem localtime_r_bias:
  "(let t = localtime_r 3600000 0 0 tm0 in tm_year t = 63 \<and> tm_mon t = 1 \<and> tm_hour t \<noteq> 1)"
  by code_simp

end
