(* ===== verification/CRun.thy ===== *)
theory CRun
  imports Jvm
begin

text \<open>
  The methods of java/CRunTime.java that translated code calls: reads and writes of parts of a word
  in \<open>CRunTime.memory\<close>, the unsigned multiplication and division.  An index outside the
  array is \<open>None\<close>, the \<open>ArrayIndexOutOfBoundsException\<close> of Java.
\<close>

unbundle bit_operations_syntax

subsection \<open>The memory array\<close>

definition in_array :: "u32 list \<Rightarrow> u32 \<Rightarrow> bool" where
  "in_array mem i \<longleftrightarrow> 0 \<le> sint i \<and> nat (sint i) < length mem"

definition array_get :: "u32 list \<Rightarrow> u32 \<Rightarrow> u32 option" where
  "array_get mem i = (if in_array mem i then Some (mem ! nat (sint i)) else None)"

definition array_set :: "u32 list \<Rightarrow> u32 \<Rightarrow> u32 \<Rightarrow> u32 list option" where
  "array_set mem i v = (if in_array mem i then Some (mem[nat (sint i) := v]) else None)"

text \<open>The shift counts \<open>(3 - (address & 3)) << 3\<close> and \<open>(2 - (address & 2)) << 3\<close>; Java takes a count modulo 32.\<close>

definition byte_shift :: "u32 \<Rightarrow> nat" where
  "byte_shift address = unat (push_bit 3 (3 - (address AND 3)) AND 31)"

definition short_shift :: "u32 \<Rightarrow> nat" where
  "short_shift address = unat (push_bit 3 (2 - (address AND 2)) AND 31)"

definition java_div4 :: "u32 \<Rightarrow> u32" where
  "java_div4 address = of_int (c_div (sint address) 4)"

definition memoryReadByteUnsigned :: "u32 list \<Rightarrow> u32 \<Rightarrow> u32 option" where
  "memoryReadByteUnsigned mem address =
     map_option (\<lambda>val. drop_bit (byte_shift address) val AND 0xff) (array_get mem (signed_drop_bit 2 address))"

definition memoryReadByte :: "u32 list \<Rightarrow> u32 \<Rightarrow> u32 option" where
  "memoryReadByte mem address =
     map_option (\<lambda>val. let out = drop_bit (byte_shift address) val AND 0xff
       in if out AND push_bit 7 1 \<noteq> 0 then out OR 0xffffff00 else out) (array_get mem (signed_drop_bit 2 address))"

definition memoryReadShortUnsigned :: "u32 list \<Rightarrow> u32 \<Rightarrow> u32 option" where
  "memoryReadShortUnsigned mem address =
     map_option (\<lambda>val. drop_bit (short_shift address) val AND 0xffff) (array_get mem (signed_drop_bit 2 address))"

definition memoryReadShort :: "u32 list \<Rightarrow> u32 \<Rightarrow> u32 option" where
  "memoryReadShort mem address =
     map_option (\<lambda>out. if out AND push_bit 15 1 \<noteq> 0 then out OR 0xffff0000 else out)
       (memoryReadShortUnsigned mem address)"

definition memoryWriteByte :: "u32 list \<Rightarrow> u32 \<Rightarrow> u32 \<Rightarrow> u32 list option" where
  "memoryWriteByte mem address v =
     Option.bind (array_get mem (java_div4 address)) (\<lambda>cur.
       array_set mem (java_div4 address)
         ((cur AND NOT (push_bit (byte_shift address) 0xff)) OR push_bit (byte_shift address) (v AND 0xff)))"

definition memoryWriteShort :: "u32 list \<Rightarrow> u32 \<Rightarrow> u32 \<Rightarrow> u32 list option" where
  "memoryWriteShort mem address v =
     Option.bind (array_get mem (java_div4 address)) (\<lambda>cur.
       array_set mem (java_div4 address)
         ((cur AND NOT (push_bit (short_shift address) 0xffff)) OR push_bit (short_shift address) (v AND 0xffff)))"

definition memoryReadWordLeft :: "u32 list \<Rightarrow> u32 \<Rightarrow> u32 option" where
  "memoryReadWordLeft mem address =
     Option.bind (memoryReadByteUnsigned mem (address + 3)) (\<lambda>b0.
     Option.bind (memoryReadByteUnsigned mem (address + 2)) (\<lambda>b1.
     Option.bind (memoryReadByteUnsigned mem (address + 1)) (\<lambda>b2.
     Option.bind (memoryReadByteUnsigned mem address) (\<lambda>b3.
       Some (b0 OR push_bit 8 b1 OR push_bit 16 b2 OR push_bit 24 b3)))))"

definition memoryWriteWordLeft :: "u32 list \<Rightarrow> u32 \<Rightarrow> u32 \<Rightarrow> u32 list option" where
  "memoryWriteWordLeft mem address rtVal =
     Option.bind (memoryWriteByte mem (address + 3) rtVal) (\<lambda>mem.
     Option.bind (memoryWriteByte mem (address + 2) (signed_drop_bit 8 rtVal)) (\<lambda>mem.
     Option.bind (memoryWriteByte mem (address + 1) (signed_drop_bit 16 rtVal)) (\<lambda>mem.
       memoryWriteByte mem address (signed_drop_bit 24 rtVal))))"

subsection \<open>Unsigned multiplication and division\<close>

definition multu :: "u32 \<Rightarrow> u32 \<Rightarrow> u64" where
  "multu rsVal rtVal = (scast rsVal AND 0xffffffff) * (scast rtVal AND 0xffffffff)"

definition divu :: "u32 \<Rightarrow> u32 \<Rightarrow> u64 option" where
  "divu rsVal rtVal =
     (if sint rsVal < 0 \<or> sint rtVal < 0
      then (let a = scast rsVal AND 0xffffffff :: u64; b = scast rtVal AND 0xffffffff :: u64
            in if b = 0 then None
               else Some (push_bit 32 (of_int (c_mod (sint a) (sint b))) OR of_int (c_div (sint a) (sint b))))
      else if rtVal = 0 then None
      else Some (push_bit 32 (of_int (c_mod (sint rsVal) (sint rtVal))) OR of_int (c_div (sint rsVal) (sint rtVal))))"

subsection \<open>The environment of translated code\<close>

definition read_call :: "(u32 list \<Rightarrow> u32 \<Rightarrow> u32 option) \<Rightarrow> jstate \<Rightarrow> jout" where
  "read_call f s = (case stk s of VI a # r \<Rightarrow>
     (case f (jmem s) a of Some v \<Rightarrow> Fall (s\<lparr>stk := VI v # r\<rparr>)
      | None \<Rightarrow> Throws ''ArrayIndexOutOfBoundsException'' s) | _ \<Rightarrow> Stuck)"

definition write_call :: "(u32 list \<Rightarrow> u32 \<Rightarrow> u32 \<Rightarrow> u32 list option) \<Rightarrow> jstate \<Rightarrow> jout" where
  "write_call f s = (case stk s of VI v # VI a # r \<Rightarrow>
     (case f (jmem s) a v of Some mem \<Rightarrow> Fall (s\<lparr>stk := r, jmem := mem\<rparr>)
      | None \<Rightarrow> Throws ''ArrayIndexOutOfBoundsException'' s) | _ \<Rightarrow> Stuck)"

definition arith_call :: "(u32 \<Rightarrow> u32 \<Rightarrow> u64 option) \<Rightarrow> jstate \<Rightarrow> jout" where
  "arith_call f s = (case stk s of VI b # VI a # r \<Rightarrow>
     (case f a b of Some v \<Rightarrow> Fall (s\<lparr>stk := VL v # r\<rparr>)
      | None \<Rightarrow> Throws ''ArithmeticException'' s) | _ \<Rightarrow> Stuck)"

definition cruntime :: "(string \<Rightarrow> string \<Rightarrow> jstate \<Rightarrow> jout) \<Rightarrow> jenv" where
  "cruntime calls m = (case m of
     CRunTime name d \<Rightarrow>
       if name = ''memoryReadByteUnsigned'' then read_call memoryReadByteUnsigned
       else if name = ''memoryReadByte'' then read_call memoryReadByte
       else if name = ''memoryReadShortUnsigned'' then read_call memoryReadShortUnsigned
       else if name = ''memoryReadShort'' then read_call memoryReadShort
       else if name = ''memoryReadWordLeft'' then read_call memoryReadWordLeft
       else if name = ''memoryWriteByte'' then write_call memoryWriteByte
       else if name = ''memoryWriteShort'' then write_call memoryWriteShort
       else if name = ''memoryWriteWordLeft'' then write_call memoryWriteWordLeft
       else if name = ''multu'' then arith_call (\<lambda>a b. Some (multu a b))
       else if name = ''divu'' then arith_call divu
       else (\<lambda>s. Stuck)
   | Method cl sig \<Rightarrow> calls cl sig)"

end
