(* ===== verification/MipsSem.thy ===== *)
theory MipsSem
  imports Prelude
begin

text \<open>
  The reference: what the MIPS I instructions do, decoded from the fields of the word as the
  architecture defines them and not by the translator's tables.  It covers the integer
  instructions between branches; the memory is big-endian and \<open>lim\<close> words long.  \<open>None\<close> is
  an exception (overflow of a trapping addition, an unaligned or unmapped address), a division by
  zero, whose result the architecture leaves open, or an instruction outside this set.
\<close>

unbundle bit_operations_syntax

record mips =
  regs :: "nat \<Rightarrow> u32"
  mmem :: mem

definition HI :: nat where "HI = 32"
definition LO :: nat where "LO = 33"

definition reg :: "mips \<Rightarrow> nat \<Rightarrow> u32" where
  "reg m r = (if r = 0 then 0 else regs m r)"

definition set_reg :: "nat \<Rightarrow> u32 \<Rightarrow> mips \<Rightarrow> mips" where
  "set_reg r v m = m\<lparr>regs := (regs m)(r := v)\<rparr>"

definition set_hi_lo :: "u32 \<Rightarrow> u32 \<Rightarrow> mips \<Rightarrow> mips" where
  "set_hi_lo h l m = set_reg LO l (set_reg HI h m)"

text \<open>Fields.\<close>

definition f_op :: "u32 \<Rightarrow> nat" where "f_op w = unat (drop_bit 26 w)"
definition f_rs :: "u32 \<Rightarrow> nat" where "f_rs w = unat (take_bit 5 (drop_bit 21 w))"
definition f_rt :: "u32 \<Rightarrow> nat" where "f_rt w = unat (take_bit 5 (drop_bit 16 w))"
definition f_rd :: "u32 \<Rightarrow> nat" where "f_rd w = unat (take_bit 5 (drop_bit 11 w))"
definition f_sa :: "u32 \<Rightarrow> nat" where "f_sa w = unat (take_bit 5 (drop_bit 6 w))"
definition f_funct :: "u32 \<Rightarrow> nat" where "f_funct w = unat (take_bit 6 w)"
definition f_simm :: "u32 \<Rightarrow> u32" where "f_simm w = signed_take_bit 15 w"
definition f_uimm :: "u32 \<Rightarrow> u32" where "f_uimm w = take_bit 16 w"

text \<open>Trapping addition and subtraction.\<close>

definition trapping :: "(int \<Rightarrow> int \<Rightarrow> int) \<Rightarrow> u32 \<Rightarrow> u32 \<Rightarrow> u32 option" where
  "trapping f a b =
     (let v = f (sint a) (sint b) in if - (2 ^ 31) \<le> v \<and> v < 2 ^ 31 then Some (of_int v) else None)"

definition bool32 :: "bool \<Rightarrow> u32" where
  "bool32 b = (if b then 1 else 0)"

text \<open>Loads and stores, big-endian.\<close>

definition mapped :: "nat \<Rightarrow> u32 \<Rightarrow> bool" where
  "mapped lim a \<longleftrightarrow> unat a < 4 * lim"

definition load16 :: "mem \<Rightarrow> u32 \<Rightarrow> u32" where
  "load16 m a = push_bit 8 (ucast (m a)) OR ucast (m (a + 1))"

definition special_step :: "nat \<Rightarrow> u32 \<Rightarrow> mips \<Rightarrow> mips option" where
  "special_step lim w m =
     (let s = reg m (f_rs w); t = reg m (f_rt w); set_rd = (\<lambda>v. Some (set_reg (f_rd w) v m)); f = f_funct w
      in if f = 0 then set_rd (push_bit (f_sa w) t)
         else if f = 2 then set_rd (drop_bit (f_sa w) t)
         else if f = 3 then set_rd (signed_drop_bit (f_sa w) t)
         else if f = 4 then set_rd (push_bit (unat (take_bit 5 s)) t)
         else if f = 6 then set_rd (drop_bit (unat (take_bit 5 s)) t)
         else if f = 7 then set_rd (signed_drop_bit (unat (take_bit 5 s)) t)
         else if f = 16 then set_rd (reg m HI)
         else if f = 17 then Some (set_reg HI s m)
         else if f = 18 then set_rd (reg m LO)
         else if f = 19 then Some (set_reg LO s m)
         else if f = 24 then Some (set_hi_lo (of_int (sint s * sint t div 2 ^ 32)) (of_int (sint s * sint t)) m)
         else if f = 25 then Some (set_hi_lo (of_int (uint s * uint t div 2 ^ 32)) (of_int (uint s * uint t)) m)
         else if f = 26 then
           (if t = 0 then None else Some (set_hi_lo (of_int (c_mod (sint s) (sint t))) (of_int (c_div (sint s) (sint t))) m))
         else if f = 27 then (if t = 0 then None else Some (set_hi_lo (s mod t) (s div t) m))
         else if f = 32 then Option.bind (trapping (+) s t) set_rd
         else if f = 33 then set_rd (s + t)
         else if f = 34 then Option.bind (trapping (-) s t) set_rd
         else if f = 35 then set_rd (s - t)
         else if f = 36 then set_rd (s AND t)
         else if f = 37 then set_rd (s OR t)
         else if f = 38 then set_rd (s XOR t)
         else if f = 39 then set_rd (NOT (s OR t))
         else if f = 42 then set_rd (bool32 (sint s < sint t))
         else if f = 43 then set_rd (bool32 (s < t))
         else None)"

definition mips_step :: "nat \<Rightarrow> u32 \<Rightarrow> mips \<Rightarrow> mips option" where
  "mips_step lim w m =
     (let s = reg m (f_rs w); t = reg m (f_rt w); set_rt = (\<lambda>v. Some (set_reg (f_rt w) v m));
          a = s + f_simm w; opc = f_op w
      in if opc = 0 then special_step lim w m
         else if opc = 8 then Option.bind (trapping (+) s (f_simm w)) set_rt
         else if opc = 9 then set_rt (s + f_simm w)
         else if opc = 10 then set_rt (bool32 (sint s < sint (f_simm w)))
         else if opc = 11 then set_rt (bool32 (s < f_simm w))
         else if opc = 12 then set_rt (s AND f_uimm w)
         else if opc = 13 then set_rt (s OR f_uimm w)
         else if opc = 14 then set_rt (s XOR f_uimm w)
         else if opc = 15 then set_rt (push_bit 16 (f_uimm w))
         else if \<not> mapped lim a then None
         else if opc = 32 then set_rt (signed_take_bit 7 (ucast (mmem m a)))
         else if opc = 33 then (if a AND 1 = 0 then set_rt (signed_take_bit 15 (load16 (mmem m) a)) else None)
         else if opc = 35 then (if a AND 3 = 0 then set_rt (load32 (mmem m) a) else None)
         else if opc = 36 then set_rt (ucast (mmem m a))
         else if opc = 37 then (if a AND 1 = 0 then set_rt (load16 (mmem m) a) else None)
         else if opc = 40 then Some (m\<lparr>mmem := (mmem m)(a := ucast t)\<rparr>)
         else if opc = 41 then (if a AND 1 = 0
           then Some (m\<lparr>mmem := (mmem m)(a := ucast (drop_bit 8 t), a + 1 := ucast t)\<rparr>) else None)
         else if opc = 43 then (if a AND 3 = 0 then Some (m\<lparr>mmem := store32 (mmem m) a t\<rparr>) else None)
         else None)"

end
