(* ===== verification/MemRel.thy ===== *)
theory MemRel
  imports Factory CRun MipsSem Builtins
begin

text \<open>
  The memory of the translated program, an array of big-endian words, and the byte memory of the
  reference: bits of words and bytes.
\<close>

unbundle bit_operations_syntax

subsection \<open>The relation\<close>

definition mem_rel :: "nat \<Rightarrow> mem \<Rightarrow> u32 list \<Rightarrow> bool" where
  "mem_rel lim mm js \<longleftrightarrow> length js = lim \<and> lim < 2 ^ 29 \<and> (\<forall>i<lim. js ! i = load32 mm (of_nat (4 * i)))"

lemma bit_load32:
  assumes "j < 32"
  shows "bit (load32 m a) j = bit (m (a + of_nat (3 - j div 8))) (j mod 8)"
proof -
  have e: "of_nat (3 - j div 8) = (if j < 8 then 3 else if j < 16 then 2 else if j < 24 then 1 else (0::u32))"
  proof -
    consider "j div 8 = 0" "j < 8" | "j div 8 = 1" "8 \<le> j" "j < 16" | "j div 8 = 2" "16 \<le> j" "j < 24" | "j div 8 = 3" "24 \<le> j"
      using assms by (cases "j < 8"; cases "j < 16"; cases "j < 24") (auto intro!: that simp: div_nat_eqI)
    then show ?thesis by cases auto
  qed
  have d: "j mod 8 = (if j < 8 then j else if j < 16 then j - 8 else if j < 24 then j - 16 else j - 24)"
    using assms by (auto simp: mod_if)
  show ?thesis unfolding e d using assms
    by (auto simp: load32_def bit_simps bit_u8_high)
qed

lemma load32_byte:
  "ucast (drop_bit 24 (load32 m a)) = m a" "ucast (drop_bit 16 (load32 m a)) = m (a + 1)"
  "ucast (drop_bit 8 (load32 m a)) = m (a + 2)" "ucast (load32 m a) = m (a + 3)"
  using bytes32_load32 [of m a] by (simp_all add: bytes32_def peek_4)


lemma unat_eq_word: "unat (a :: u32) = unat b \<Longrightarrow> a = b"
  by (simp add: word_unat_eq_iff)

lemma word_of_unat: "a = (of_nat (unat a) :: u32)"
  by (rule unat_eq_word) simp

lemma address_split:
  assumes "mapped lim a" "lim < 2 ^ 29"
  obtains i k where "i < lim" "k < 4" "a = of_nat (4 * i) + of_nat k" "drop_bit 2 a = of_nat i"
    "a AND 3 = of_nat k" "sint (drop_bit 2 a) = int i" "signed_drop_bit 2 a = drop_bit 2 a" "0 \<le> sint a"
proof -
  define i k where "i = unat a div 4" and "k = unat a mod 4"
  have u: "unat a = 4 * i + k" "k < 4" by (simp_all add: i_def k_def)
  have b: "unat a < 2 ^ 31" using assms by (simp add: mapped_def)
  have il: "i < lim" using assms(1) u by (simp add: mapped_def)
  have a: "a = of_nat (4 * i) + of_nat k" using u(1) word_of_unat [of a] by simp
  have ud: "unat (drop_bit 2 a) = i"
    by (simp only: unat_drop_bit_eq i_def) (simp add: drop_bit_eq_div)
  have d: "drop_bit 2 a = of_nat i"
    by (rule unat_eq_word) (use ud il assms(2) in \<open>simp add: unat_of_nat take_bit_nat_eq_self\<close>)
  have m: "a AND 3 = of_nat k"
  proof -
    have "a AND 3 = take_bit 2 a" by (simp add: take_bit_eq_mask mask_eq_exp_minus_1)
    also have "\<dots> = of_nat k"
      by (rule unat_eq_word) (use u in \<open>simp add: unsigned_take_bit_eq take_bit_nat_def k_def unat_of_nat\<close>)
    finally show ?thesis .
  qed
  have s: "sint (drop_bit 2 a) = int i" using ud il assms(2) by (simp add: sint32)
  have ps: "0 \<le> sint a" using b by (simp add: sint32)
  then have n: "\<not> bit a 31" using bit_last_iff [of a] by simp
  have sd: "signed_drop_bit 2 a = drop_bit 2 a"
    by (rule bit_word_eqI) (use n in \<open>auto simp: bit_simps bit_signed_drop_bit_iff dest: bit_imp_le_length\<close>)
  show ?thesis using that [OF il u(2) a d m s sd ps] by simp
qed


lemma nat4_cases: "(k::nat) < 4 \<Longrightarrow> k = 0 \<or> k = 1 \<or> k = 2 \<or> k = 3"
  by auto

lemma byte_shift_eq: "a AND 3 = of_nat k \<Longrightarrow> k < 4 \<Longrightarrow> byte_shift a = 24 - 8 * k"
  using nat4_cases [of k] by (auto simp: byte_shift_def)

lemma and2: "(a :: u32) AND 2 = (a AND 3) AND 2"
  by (rule bit_word_eqI) (auto simp: bit_simps)

lemma short_shift_eq: "a AND 3 = of_nat k \<Longrightarrow> k = 0 \<or> k = 2 \<Longrightarrow> short_shift a = 16 - 8 * k"
  by (auto simp: short_shift_def and2 [of a])

lemma and_mask: "(a :: u32) AND 0xff = take_bit 8 a" "(a :: u32) AND 0xffff = take_bit 16 a"
  "(a :: u32) AND 31 = take_bit 5 a" "(a :: u32) AND 63 = take_bit 6 a"
  by (simp_all add: take_bit_eq_mask mask_eq_exp_minus_1)

lemma range4: "(n::nat) < 32 \<Longrightarrow> (n < 8 \<Longrightarrow> P) \<Longrightarrow> (8 \<le> n \<Longrightarrow> n < 16 \<Longrightarrow> P) \<Longrightarrow> (16 \<le> n \<Longrightarrow> n < 24 \<Longrightarrow> P) \<Longrightarrow>
  (24 \<le> n \<Longrightarrow> P) \<Longrightarrow> P"
  by linarith

lemma disjE4: "A \<or> B \<or> C \<or> D \<Longrightarrow> (A \<Longrightarrow> P) \<Longrightarrow> (B \<Longrightarrow> P) \<Longrightarrow> (C \<Longrightarrow> P) \<Longrightarrow> (D \<Longrightarrow> P) \<Longrightarrow> P"
  by blast

lemma bit_u8_le: "8 \<le> n \<Longrightarrow> \<not> bit (x :: u8) n"
  using bit_imp_le_length [of x n] by auto

lemma load_byte:
  "k < 4 \<Longrightarrow> take_bit 8 (drop_bit (24 - 8 * k) (load32 m b)) = ucast (m (b + of_nat k))"
  using nat4_cases [of k]
  by (auto simp: load32_def intro!: bit_word_eqI) (auto simp: bit_simps bit_u8_high dest: bit_imp_le_length)

lemma load_short:
  "k = 0 \<or> k = 2 \<Longrightarrow> take_bit 16 (drop_bit (16 - 8 * k) (load32 m b)) = load16 m (b + of_nat k)"
  by (auto simp: load32_def load16_def add.assoc intro!: bit_word_eqI) (auto simp: bit_simps bit_u8_high dest: bit_imp_le_length)

lemma bit_ff: "bit (0xff :: u32) n \<longleftrightarrow> n < 8" "bit (0xffff :: u32) n \<longleftrightarrow> n < 16"
  using bit_mask_iff [of 8 n, where 'a = u32] bit_mask_iff [of 16 n, where 'a = u32]
  by (auto simp: mask_eq_exp_minus_1)

lemma store_byte_bits:
  assumes "k < 4" "\<And>n. bit M n \<longleftrightarrow> n < 8"
  shows "(load32 m b AND NOT (push_bit (24 - 8 * k) M)) OR push_bit (24 - 8 * k) (take_bit 8 v) =
    load32 (m(b + of_nat k := ucast v)) b"
proof (rule bit_word_eqI)
  fix n assume "n < LENGTH(32)"
  then have n: "n < 32" by simp
  define q r where "q = n div 8" and "r = n mod 8"
  have q: "n = 8 * q + r" "r < 8" "q < 4" using n by (auto simp: q_def r_def)
  have inj: "b + (of_nat (3 - q) :: u32) = b + of_nat k \<longleftrightarrow> 3 - q = k"
    using nat4_cases [OF assms(1)] nat4_cases [OF q(3)] by auto
  have f: "(m(b + of_nat k := ucast v)) (b + of_nat (3 - q)) = (if 3 - q = k then ucast v else m (b + of_nat (3 - q)))"
    using inj by (simp only: fun_upd_apply)
  have R: "bit (load32 (m(b + of_nat k := ucast v)) b) n =
      (if 3 - q = k then bit v r else bit (m (b + of_nat (3 - q))) r)"
    unfolding bit_load32 [OF n] q_def [symmetric] r_def [symmetric] f using q(2) by (simp add: bit_simps)
  have B: "bit (load32 m b) n = bit (m (b + of_nat (3 - q))) r"
    unfolding bit_load32 [OF n] q_def [symmetric] r_def [symmetric] ..
  show "bit ((load32 m b AND NOT (push_bit (24 - 8 * k) M)) OR push_bit (24 - 8 * k) (take_bit 8 v)) n =
    bit (load32 (m(b + of_nat k := ucast v)) b) n"
  proof (cases "3 - q = k")
    case True
    then have "24 - 8 * k \<le> n" "n - (24 - 8 * k) = r" using q assms(1) by auto
    then show ?thesis unfolding R using True q(2) n
      by (simp only: if_True bit_or_iff bit_and_iff bit_not_iff bit_push_bit_iff bit_take_bit_iff assms(2)) simp
  next
    case False
    then have "\<not> (24 - 8 * k \<le> n \<and> n - (24 - 8 * k) < 8)" using q assms(1) by arith
    then show ?thesis unfolding R using False n by (simp only: B if_False bit_or_iff bit_and_iff bit_not_iff bit_push_bit_iff bit_take_bit_iff assms(2)) auto
  qed
qed

lemma store_short_bits:
  assumes "k = 0 \<or> k = 2" "\<And>n. bit M n \<longleftrightarrow> n < 16"
  shows "(load32 m b AND NOT (push_bit (16 - 8 * k) M)) OR push_bit (16 - 8 * k) (take_bit 16 v) =
    load32 (m(b + of_nat k := ucast (drop_bit 8 v), b + of_nat k + 1 := ucast v)) b"
    (is "?L = load32 ?m b")
proof (rule bit_word_eqI)
  fix n assume "n < LENGTH(32)"
  then have n: "n < 32" by simp
  define q r where "q = n div 8" and "r = n mod 8"
  have q: "n = 8 * q + r" "r < 8" "q < 4" using n by (auto simp: q_def r_def)
  have f: "?m (b + of_nat (3 - q)) =
      (if 3 - q = k + 1 then ucast v else if 3 - q = k then ucast (drop_bit 8 v) else m (b + of_nat (3 - q)))"
    using assms(1) nat4_cases [OF q(3)] by (auto simp: add.assoc)
  have R: "bit (load32 ?m b) n =
      (if 3 - q = k + 1 then bit v r else if 3 - q = k then bit v (8 + r) else bit (m (b + of_nat (3 - q))) r)"
    unfolding bit_load32 [OF n] q_def [symmetric] r_def [symmetric] f using q(2) by (simp add: bit_simps)
  have B: "bit (load32 m b) n = bit (m (b + of_nat (3 - q))) r"
    unfolding bit_load32 [OF n] q_def [symmetric] r_def [symmetric] ..
  have L: "bit ?L n \<longleftrightarrow> (bit (load32 m b) n \<and> \<not> (16 - 8 * k \<le> n \<and> n - (16 - 8 * k) < 16)) \<or>
      (16 - 8 * k \<le> n \<and> n - (16 - 8 * k) < 16 \<and> bit v (n - (16 - 8 * k)))"
    unfolding bit_or_iff bit_and_iff bit_not_iff bit_push_bit_iff bit_take_bit_iff assms(2) using n by auto
  consider "3 - q = k + 1" | "3 - q = k" | "3 - q \<noteq> k + 1" "3 - q \<noteq> k" by blast
  then show "bit ?L n = bit (load32 ?m b) n"
  proof cases
    case 1
    then have "16 - 8 * k \<le> n" "n - (16 - 8 * k) = r" using q assms(1) by auto
    then show ?thesis unfolding L R using 1 q(2) by simp
  next
    case 2
    then have "16 - 8 * k \<le> n" "n - (16 - 8 * k) = 8 + r" using q assms(1) by auto
    then show ?thesis unfolding L R using 2 q(2) by simp
  next
    case 3
    then have "\<not> (16 - 8 * k \<le> n \<and> n - (16 - 8 * k) < 16)" using q assms(1) by arith
    then show ?thesis unfolding L R B using 3 by auto
  qed
qed

lemmas store_byte = store_byte_bits [of _ "0xff", OF _ bit_ff(1)]
lemmas store_short = store_short_bits [of _ "0xffff", OF _ bit_ff(2)]

end
