(* ===== verification/RunInsn.thy ===== *)
theory RunInsn
  imports MemRel
begin

text \<open>
  What compiled register instructions do to the local variables that hold the registers.
\<close>

unbundle bit_operations_syntax

subsection \<open>Running an emission\<close>

definition run :: "jenv \<Rightarrow> emission \<Rightarrow> jstate \<Rightarrow> jout" where
  "run E e s = (case e of Inl _ \<Rightarrow> Stuck | Inr (is, _) \<Rightarrow> exec E is s)"

lemma run_lines [simp]: "run E (lines is) s = exec E is s"
  by (simp add: run_def lines_def)

lemma run_Nil [simp]: "run E (Inr ([], b)) s = Fall s"
  by (simp add: run_def)

lemma run_andthen [simp]:
  "run E (andthen e f) s = (case run E e s of Fall s1 \<Rightarrow> run E f s1
     | out \<Rightarrow> (case f of Inl _ \<Rightarrow> Stuck | Inr _ \<Rightarrow> out))"
  by (cases "(e, f)" rule: andthen.cases) (auto simp: run_def exec_append split: jout.splits)

lemma run_emit_if [simp]: "run E (emit_if c e) s = (if c then run E e s else Fall s)"
  by (simp add: emit_if_def)

lemma run_if: "run E (if c then e else e') s = (if c then run E e s else run E e' s)"
  by simp

lemma run_optional_None [simp]: "run E (optional None) s = Fall s"
  by (simp add: optional_def)

lemma run_optional_Some [simp]: "run E (optional (Some e)) s = run E e s"
  by (auto simp: optional_def run_def split: sum.splits)

lemma run_pushconst [simp]: "run E (bc_pushconst v) s = Fall (s\<lparr>stk := VI (of_int v) # stk s\<rparr>)"
  by (auto simp: bc_pushconst_def push_def)

lemma run_pushconst_u [simp]: "run E (bc_pushconst_u v) s = Fall (s\<lparr>stk := VI v # stk s\<rparr>)"
  by (auto simp: bc_pushconst_u_def push_def)

lemma run_pushconst_l [simp]: "run E (bc_pushconst_l v) s = Fall (s\<lparr>stk := VL v # stk s\<rparr>)"
  by (auto simp: bc_pushconst_l_def push_def)

lemma stk_idle [simp]: "s\<lparr>stk := stk s\<rparr> = s" "s\<lparr>jmem := jmem s\<rparr> = s"
  by simp_all

subsection \<open>Registers in local variables\<close>

definition ok_alloc :: "regalloc \<Rightarrow> bool" where
  "ok_alloc ra \<longleftrightarrow> (\<forall>r. mips_to_static ra r = None) \<and> inj_on (regToLocal ra) {r. regIsAllocated ra r}"

definition reg_value :: "regalloc \<Rightarrow> jstate \<Rightarrow> MIPS_register \<Rightarrow> u32" where
  "reg_value ra s r = (if r = 0 then 0 else case locs s (regToLocal ra r) of VI v \<Rightarrow> v | _ \<Rightarrow> 0)"

definition readable :: "regalloc \<Rightarrow> jstate \<Rightarrow> MIPS_register \<Rightarrow> bool" where
  "readable ra s r \<longleftrightarrow> r \<le> 33 \<and> ok_alloc ra \<and>
     (r \<noteq> 0 \<longrightarrow> regIsAllocated ra r \<and> (\<exists>v. locs s (regToLocal ra r) = VI v))"

definition writable :: "regalloc \<Rightarrow> MIPS_register \<Rightarrow> bool" where
  "writable ra r \<longleftrightarrow> r \<le> 33 \<and> ok_alloc ra \<and> regIsAllocated ra r"

definition assign :: "regalloc \<Rightarrow> MIPS_register \<Rightarrow> u32 \<Rightarrow> jstate \<Rightarrow> jstate" where
  "assign ra r v s = s\<lparr>locs := (locs s)(regToLocal ra r := VI v)\<rparr>"

lemma reg_value_upd [simp]:
  "reg_value ra (s\<lparr>stk := x\<rparr>) r = reg_value ra s r" "readable ra (s\<lparr>stk := x\<rparr>) r = readable ra s r"
  "reg_value ra (s\<lparr>jmem := y\<rparr>) r = reg_value ra s r" "readable ra (s\<lparr>jmem := y\<rparr>) r = readable ra s r"
  by (simp_all add: reg_value_def readable_def)

lemma assign_fields [simp]: "stk (assign ra r v s) = stk s" "jmem (assign ra r v s) = jmem s"
  "(assign ra r v s)\<lparr>stk := x\<rparr> = assign ra r v (s\<lparr>stk := x\<rparr>)"
  by (simp_all add: assign_def)

lemma run_pushregister [simp]:
  "readable ra s r \<Longrightarrow> run E (bc_pushregister ra r) s = Fall (s\<lparr>stk := VI (reg_value ra s r) # stk s\<rparr>)"
  by (auto simp: readable_def bc_pushregister_def panic_if_def regToStatic_def ok_alloc_def reg_value_def push_def)

lemma run_popregister [simp]:
  "writable ra r \<Longrightarrow> stk s = VI v # st \<Longrightarrow> run E (bc_popregister ra r) s = Fall (assign ra r v (s\<lparr>stk := st\<rparr>))"
  by (auto simp: writable_def bc_popregister_def regToStatic_def ok_alloc_def assign_def)

lemma regToLocal_inj:
  "ok_alloc ra \<Longrightarrow> regIsAllocated ra r \<Longrightarrow> regIsAllocated ra q \<Longrightarrow> regToLocal ra r = regToLocal ra q \<longleftrightarrow> r = q"
  by (auto simp: ok_alloc_def inj_on_def)

lemma readable_assign:
  "readable ra s q \<Longrightarrow> writable ra r \<Longrightarrow> readable ra (assign ra r v s) q"
  by (auto simp: readable_def writable_def assign_def)

lemma reg_value_assign:
  "readable ra s q \<Longrightarrow> writable ra r \<Longrightarrow> r \<noteq> 0 \<Longrightarrow> reg_value ra (assign ra r v s) q = (if q = r then v else reg_value ra s q)"
  by (auto simp: readable_def writable_def assign_def reg_value_def regToLocal_inj)

subsection \<open>Instructions on registers\<close>

lemma compile_new [simp]:
  "compile c (new_Instruction k a opc rs rt rd e) = pass2 (class_of k) c (new_Instruction k a opc rs rt rd e) None None"
  by (simp add: new_Instruction_def)

lemma new_fields [simp]:
  "i_kind (new_Instruction k a opc rs rt rd e) = k" "i_rs (new_Instruction k a opc rs rt rd e) = rs"
  "i_rt (new_Instruction k a opc rs rt rd e) = rt" "i_rd (new_Instruction k a opc rs rt rd e) = rd"
  "i_extra (new_Instruction k a opc rs rt rd e) = e" "i_address (new_Instruction k a opc rs rt rd e) = a"
  "i_opcode (new_Instruction k a opc rs rt rd e) = opc"
  by (simp_all add: new_Instruction_def)

text \<open>The effect on two operands of an instruction without operands.\<close>

definition binary :: "jinsn \<Rightarrow> (u32 \<Rightarrow> u32 \<Rightarrow> u32) \<Rightarrow> bool" where
  "binary bc f \<longleftrightarrow> (\<forall>E a b st s. exec E [bc] (s\<lparr>stk := VI b # VI a # st\<rparr>) = Fall (s\<lparr>stk := VI (f a b) # st\<rparr>))"

lemma binary_ops:
  "binary Iadd (+)" "binary Isub (-)" "binary Iand (AND)" "binary Ior (OR)" "binary Ixor (XOR)"
  "binary Ishl (\<lambda>a b. push_bit (unat (b AND 31)) a)" "binary Ishr (\<lambda>a b. signed_drop_bit (unat (b AND 31)) a)"
  "binary Iushr (\<lambda>a b. drop_bit (unat (b AND 31)) a)" "binary Imul (*)"
  by (simp_all add: binary_def int2_def)

lemma run_Rfmt:
  assumes "binary bc f" "readable (c_alloc c) s rs" "readable (c_alloc c) s rt" "writable (c_alloc c) rd"
    "i_rs i = rs" "i_rt i = rt" "i_rd i = rd"
  shows "run E (Rfmt_pass2 bc c i) s =
    Fall (assign (c_alloc c) rd (f (reg_value (c_alloc c) s rs) (reg_value (c_alloc c) s rt)) s)"
  using assms by (simp add: Rfmt_pass2_def binary_def)

lemma set_result_value: "signed_drop_bit (Suc 0) (lcmp a b + 1) = bool32 (sint b < sint a)"
proof -
  have "signed_drop_bit 1 (0 :: u32) = 0" "signed_drop_bit 1 (1 :: u32) = 0" "signed_drop_bit 1 (2 :: u32) = 1"
    by code_simp+
  then show ?thesis by (auto simp: lcmp_def bool32_def dest: signed_word_eqI)
qed

lemma run_set_result [simp]:
  "stk s = VL b # VL a # st \<Longrightarrow> run E set_result s = Fall (s\<lparr>stk := VI (bool32 (sint b < sint a)) # st\<rparr>)"
  by (simp add: set_result_def long2_def int2_def set_result_value)

lemma sint_scast64 [simp]: "sint (scast (a :: u32) :: u64) = sint a"
  by (rule sint_up_scast) (simp add: is_up)

lemma scast_mask64: "(scast (a :: u32) :: u64) AND 0xFFFFFFFF = ucast a"
proof -
  have "(0xFFFFFFFF :: u64) = mask 32" by (simp add: mask_eq_exp_minus_1)
  then have "(scast a :: u64) AND 0xFFFFFFFF = take_bit 32 (scast a)" by (simp add: take_bit_eq_mask)
  also have "\<dots> = ucast a"
  proof (rule bit_word_eqI)
    fix n assume "n < LENGTH(64)"
    show "bit (take_bit 32 (scast a) :: u64) n = bit (ucast a :: u64) n"
    proof (cases "n < 32")
      case True
      then have "min 31 n = n" by simp
      then show ?thesis using True by (simp add: bit_simps)
    next
      case False
      then show ?thesis using bit_imp_le_length [of a n] by (auto simp: bit_simps)
    qed
  qed
  finally show ?thesis .
qed

lemma sint_ucast64 [simp]: "sint (ucast (a :: u32) :: u64) = uint a"
proof -
  have "uint (ucast a :: u64) = uint a" by (simp add: uint_up_ucast is_up)
  moreover have "uint a < 2 ^ 32" using unsigned_less [where 'a = int and 'b = 32, of a] by simp
  moreover have "0 \<le> uint a" by simp
  moreover have "- (2 ^ 63) \<le> uint a" by (rule order_trans [of _ 0]) simp_all
  ultimately have "signed_take_bit 63 (uint a) = uint a" by (intro signed_take_bit_int_eq_self) simp_all
  then show ?thesis by (simp add: sint_uint uint_up_ucast is_up)
qed

lemma run_Addu:
  "i = new_Instruction (Arith Addu) a opc rs rt rd e \<Longrightarrow> readable (c_alloc c) s rs \<Longrightarrow> readable (c_alloc c) s rt \<Longrightarrow>
   writable (c_alloc c) rd \<Longrightarrow> rd \<noteq> 0 \<Longrightarrow>
   run E (compile c i) s = Fall (assign (c_alloc c) rd (reg_value (c_alloc c) s rs + reg_value (c_alloc c) s rt) s)"
  by (auto simp: Addu_class_def run_Rfmt [OF binary_ops(1)] reg_value_def)

lemma run_Subu:
  "i = new_Instruction (Arith Subu) a opc rs rt rd e \<Longrightarrow> readable (c_alloc c) s rs \<Longrightarrow> readable (c_alloc c) s rt \<Longrightarrow>
   writable (c_alloc c) rd \<Longrightarrow>
   run E (compile c i) s = Fall (assign (c_alloc c) rd (reg_value (c_alloc c) s rs - reg_value (c_alloc c) s rt) s)"
  by (auto simp: Subu_class_def run_Rfmt [OF binary_ops(2)] reg_value_def [of _ _ 0] int1_def)

lemma run_Nor:
  "i = new_Instruction (Arith Nor) a opc rs rt rd e \<Longrightarrow> readable (c_alloc c) s rs \<Longrightarrow> readable (c_alloc c) s rt \<Longrightarrow>
   writable (c_alloc c) rd \<Longrightarrow>
   run E (compile c i) s = Fall (assign (c_alloc c) rd (NOT (reg_value (c_alloc c) s rs OR reg_value (c_alloc c) s rt)) s)"
  by (auto simp: Nor_class_def int2_def reg_value_def [of _ _ 0])

lemma run_ShiftInstruction:
  "i = new_Instruction (Arith (ShiftInstruction bc)) a opc rs rt rd e \<Longrightarrow> binary bc f \<Longrightarrow> readable (c_alloc c) s rt \<Longrightarrow>
   writable (c_alloc c) rd \<Longrightarrow> rd \<noteq> 0 \<Longrightarrow>
   run E (compile c i) s = Fall (assign (c_alloc c) rd (f (reg_value (c_alloc c) s rt) (of_int e)) s)"
  by (simp add: ShiftInstruction_class_def Rfmt_class_def binary_def)

lemma run_ShiftInstructionV:
  "i = new_Instruction (Arith (ShiftInstructionV bc)) a opc rs rt rd e \<Longrightarrow> binary bc f \<Longrightarrow>
   readable (c_alloc c) s rs \<Longrightarrow> readable (c_alloc c) s rt \<Longrightarrow> writable (c_alloc c) rd \<Longrightarrow>
   run E (compile c i) s = Fall (assign (c_alloc c) rd (f (reg_value (c_alloc c) s rt) (reg_value (c_alloc c) s rs)) s)"
  by (simp add: ShiftInstructionV_class_def Rfmt_class_def binary_def)

lemma run_Ifmt:
  "i = new_Instruction (Arith (Ifmt bc)) a opc rs rt rd e \<Longrightarrow> binary bc f \<Longrightarrow> readable (c_alloc c) s rs \<Longrightarrow>
   writable (c_alloc c) rt \<Longrightarrow>
   run E (compile c i) s = Fall (assign (c_alloc c) rt (f (reg_value (c_alloc c) s rs) (of_int e)) s)"
  by (simp add: Ifmt_class_def Ifmt_pass2_def binary_def)

lemma run_Addi:
  "i = new_Instruction (Arith Addi) a opc rs rt rd e \<Longrightarrow> readable (c_alloc c) s rs \<Longrightarrow>
   writable (c_alloc c) rt \<Longrightarrow> rt \<noteq> 0 \<Longrightarrow> signext_16 (of_int e) = e \<Longrightarrow>
   run E (compile c i) s = Fall (assign (c_alloc c) rt (reg_value (c_alloc c) s rs + of_int e) s)"
  by (auto simp: Addi_class_def Let_def Ifmt_pass2_def int2_def reg_value_def [of _ _ 0] bc_iinc_def readable_def assign_def)
     (auto simp: reg_value_def)

lemma run_Lui:
  "i = new_Instruction (Arith Lui) a opc rs rt rd e \<Longrightarrow> writable (c_alloc c) rt \<Longrightarrow>
   run E (compile c i) s = Fall (assign (c_alloc c) rt (push_bit 16 (of_int e AND 0xffff)) s)"
  by (simp add: Lui_class_def Let_def)

lemma run_Slt:
  "i = new_Instruction (Arith Slt) a opc rs rt rd e \<Longrightarrow> readable (c_alloc c) s rs \<Longrightarrow> readable (c_alloc c) s rt \<Longrightarrow>
   writable (c_alloc c) rd \<Longrightarrow>
   run E (compile c i) s = Fall (assign (c_alloc c) rd
     (bool32 (sint (reg_value (c_alloc c) s rs) < sint (reg_value (c_alloc c) s rt))) s)"
  by (simp add: Slt_class_def int1_def)


lemma run_Sltu:
  "i = new_Instruction (Arith Sltu) a opc rs rt rd e \<Longrightarrow> readable (c_alloc c) s rs \<Longrightarrow> readable (c_alloc c) s rt \<Longrightarrow>
   writable (c_alloc c) rd \<Longrightarrow>
   run E (compile c i) s = Fall (assign (c_alloc c) rd
     (bool32 (reg_value (c_alloc c) s rs < reg_value (c_alloc c) s rt)) s)"
  by (simp add: Sltu_class_def int1_def long2_def scast_mask64 word_less_def)

lemma run_Slti:
  "i = new_Instruction (Arith Slti) a opc rs rt rd e \<Longrightarrow> readable (c_alloc c) s rs \<Longrightarrow> writable (c_alloc c) rt \<Longrightarrow>
   run E (compile c i) s = Fall (assign (c_alloc c) rt
     (bool32 (sint (reg_value (c_alloc c) s rs) < sint (of_int e :: u32))) s)"
  by (simp add: Slti_class_def int1_def)

lemma run_Sltiu:
  "i = new_Instruction (Arith Sltiu) a opc rs rt rd e \<Longrightarrow> readable (c_alloc c) s rs \<Longrightarrow> writable (c_alloc c) rt \<Longrightarrow>
   run E (compile c i) s = Fall (assign (c_alloc c) rt
     (bool32 (reg_value (c_alloc c) s rs < of_int e)) s)"
  by (simp add: Sltiu_class_def int1_def long2_def scast_mask64 word_less_def)

text \<open>\<open>HI\<close> and \<open>LO\<close> from a 64-bit value.\<close>

definition assign_hi_lo :: "regalloc \<Rightarrow> u64 \<Rightarrow> jstate \<Rightarrow> jstate" where
  "assign_hi_lo ra v s = assign ra R_LO (ucast v) (assign ra R_HI (ucast (drop_bit 32 v)) s)"

lemma dup2_long [simp]: "dup2_form (VL v # st) = Some (VL v # VL v # st)"
  by (cases st) auto

lemma run_pop_hi_lo [simp]:
  "stk s = VL v # st \<Longrightarrow> writable (c_alloc c) R_HI \<Longrightarrow> writable (c_alloc c) R_LO \<Longrightarrow>
   run E (pop_hi_lo c) s = Fall (assign_hi_lo (c_alloc c) v (s\<lparr>stk := st\<rparr>))"
  by (simp add: pop_hi_lo_def reorder_def long_shift_def assign_hi_lo_def)

lemma compile_using:
  "compile c (set_using hi lo (new_Instruction k a opc rs rt rd e)) =
   pass2 (class_of k) c (set_using hi lo (new_Instruction k a opc rs rt rd e)) None None"
  by (simp add: new_Instruction_def)

lemma using_fields [simp]:
  "i_using_hi (set_using hi lo i) = hi" "i_using_lo (set_using hi lo i) = lo"
  "i_kind (set_using hi lo i) = i_kind i" "i_rs (set_using hi lo i) = i_rs i" "i_rt (set_using hi lo i) = i_rt i"
  "i_rd (set_using hi lo i) = i_rd i" "i_extra (set_using hi lo i) = i_extra i" "i_address (set_using hi lo i) = i_address i"
  "i_opcode (set_using hi lo i) = i_opcode i"
  by (cases i; simp)+

lemma ucast_of_int64: "(ucast (of_int k :: u64) :: u32) = of_int k"
  by (rule bit_word_eqI) (simp add: bit_simps bit_word_of_int_iff)

lemma ucast_high64: "(ucast (drop_bit 32 (of_int k :: u64)) :: u32) = of_int (k div 2 ^ 32)"
  unfolding drop_bit_eq_div [of 32 k, symmetric]
  by (rule bit_word_eqI) (simp add: bit_simps bit_word_of_int_iff)

lemma assign_hi_lo_int:
  "assign_hi_lo ra (of_int k) s = assign ra R_LO (of_int k) (assign ra R_HI (of_int (k div 2 ^ 32)) s)"
  by (simp only: assign_hi_lo_def ucast_of_int64 ucast_high64)

lemma assign_mult:
  "assign_hi_lo ra (scast a * scast b) s =
    assign ra R_LO (a * b) (assign ra R_HI (of_int (sint a * sint b div 4294967296)) s)"
  "assign_hi_lo ra (ucast a * ucast b) s =
    assign ra R_LO (a * b) (assign ra R_HI (of_int (uint a * uint b div 4294967296)) s)"
  using assign_hi_lo_int [of ra "sint a * sint b" s] assign_hi_lo_int [of ra "uint a * uint b" s] by simp_all

lemma run_Mult:
  assumes "i = set_using hi True (new_Instruction (Arith Mult) a opc rs rt rd e)"
    "readable (c_alloc c) s rs" "readable (c_alloc c) s rt" "writable (c_alloc c) R_LO" "hi \<Longrightarrow> writable (c_alloc c) R_HI"
  shows "run E (compile c i) s = Fall (
     let x = reg_value (c_alloc c) s rs; y = reg_value (c_alloc c) s rt
     in if hi then assign (c_alloc c) R_LO (x * y) (assign (c_alloc c) R_HI (of_int (sint x * sint y div 4294967296)) s)
        else assign (c_alloc c) R_LO (x * y) s)"
  using assms
  by (simp add: Mult_class_def compile_using Let_def int1_def int2_def long2_def assign_mult)

lemma run_multu:
  assumes "i = set_using hi lo (new_Instruction (Arith (MulDiv ''multu'')) a opc rs rt rd e)"
    "readable (c_alloc c) s rs" "readable (c_alloc c) s rt" "writable (c_alloc c) R_LO" "writable (c_alloc c) R_HI"
  shows "run (cruntime calls) (compile c i) s = Fall (
     let x = reg_value (c_alloc c) s rs; y = reg_value (c_alloc c) s rt
     in assign (c_alloc c) R_LO (x * y) (assign (c_alloc c) R_HI (of_int (uint x * uint y div 4294967296)) s))"
  using assms
  by (simp add: MulDiv_class_def compile_using Let_def cruntime_def arith_call_def multu_def scast_mask64 assign_mult)

lemma run_Div:
  assumes "i = set_using hi True (new_Instruction (Arith Div) a opc rs rt rd e)"
    "readable (c_alloc c) s rs" "readable (c_alloc c) s rt" "writable (c_alloc c) R_LO" "hi \<Longrightarrow> writable (c_alloc c) R_HI"
    "reg_value (c_alloc c) s rt \<noteq> 0"
  shows "run E (compile c i) s = Fall (
     let x = reg_value (c_alloc c) s rs; y = reg_value (c_alloc c) s rt
     in if hi then assign (c_alloc c) R_HI (of_int (c_mod (sint x) (sint y)))
                    (assign (c_alloc c) R_LO (of_int (c_div (sint x) (sint y))) s)
        else assign (c_alloc c) R_LO (of_int (c_div (sint x) (sint y))) s)"
  using assms
  by (simp add: Div_class_def compile_using Let_def divides_def reorder_def)


lemma uint_int_unat: "uint (v :: u32) = int (unat v)"
  by simp

lemma uint32_pos: "0 \<le> sint (v :: u32) \<Longrightarrow> uint v < 2147483648 \<and> sint v = uint v"
proof -
  assume a: "0 \<le> sint v"
  have "unat v < 2 ^ 31"
  proof (rule ccontr)
    assume "\<not> ?thesis"
    then have "sint v = int (unat v) - 4294967296" using sint32 [of v] by simp
    moreover have "unat v < 4294967296" using unsigned_less [where 'a = nat and 'b = 32, of v] by simp
    ultimately show False using a by linarith
  qed
  then have "unat v < 2147483648" by simp
  then have "sint v = int (unat v)" "int (unat v) < 2147483648" using sint32 [of v] by (simp, linarith)
  then show ?thesis using uint_int_unat [of v] by linarith
qed

lemma divu_value: "t \<noteq> 0 \<Longrightarrow> divu s t = Some (push_bit 32 (ucast (s mod t)) OR ucast (s div t))"
proof -
  assume t: "t \<noteq> 0"
  have p: "0 < uint t" using t by (simp add: word_less_def [symmetric, of 0, simplified] word_gt_0)
  have q: "(of_int (uint s mod uint t) :: u64) = ucast (s mod t)" "(of_int (uint s div uint t) :: u64) = ucast (s div t)"
    by (simp_all only: uint_mod [symmetric] uint_div [symmetric]) simp_all
  have n: "ucast t \<noteq> (0 :: u64)" using p by (auto simp: word_uint_eq_iff uint_up_ucast is_up)
  show ?thesis
  proof (cases "sint s < 0 \<or> sint t < 0")
    case True
    then show ?thesis using n p q by (simp add: divu_def Let_def scast_mask64 c_mod_nonneg c_div_nonneg)
  next
    case False
    then have "sint s = uint s" "sint t = uint t" using uint32_pos [of s] uint32_pos [of t] by simp_all
    then show ?thesis using False t p q by (simp add: divu_def c_mod_nonneg c_div_nonneg)
  qed
qed

lemma assign_divu:
  "assign_hi_lo ra (push_bit 32 (ucast r) OR ucast q) s = assign ra R_LO q (assign ra R_HI r s)"
proof -
  have "(ucast (push_bit 32 (ucast r) OR ucast q :: u64) :: u32) = q"
    by (rule bit_word_eqI) (auto simp: bit_simps)
  moreover have "(ucast (drop_bit 32 (push_bit 32 (ucast r) OR ucast q :: u64)) :: u32) = r"
    by (rule bit_word_eqI) (auto simp: bit_simps dest: bit_imp_le_length)
  ultimately show ?thesis by (simp add: assign_hi_lo_def)
qed

lemma run_divu:
  assumes "i = set_using hi lo (new_Instruction (Arith (MulDiv ''divu'')) a opc rs rt rd e)"
    "readable (c_alloc c) s rs" "readable (c_alloc c) s rt" "writable (c_alloc c) R_LO" "writable (c_alloc c) R_HI"
    "reg_value (c_alloc c) s rt \<noteq> 0"
  shows "run (cruntime calls) (compile c i) s = Fall (
     let x = reg_value (c_alloc c) s rs; y = reg_value (c_alloc c) s rt
     in assign (c_alloc c) R_LO (x div y) (assign (c_alloc c) R_HI (x mod y) s))"
  using assms
  by (simp add: MulDiv_class_def compile_using Let_def cruntime_def arith_call_def divu_value assign_divu)

lemma run_Mfxx:
  "i = new_Instruction (Arith (Mfxx src)) a opc rs rt rd e \<Longrightarrow> readable (c_alloc c) s src \<Longrightarrow> writable (c_alloc c) rd \<Longrightarrow>
   run E (compile c i) s = Fall (assign (c_alloc c) rd (reg_value (c_alloc c) s src) s)"
  by (simp add: Mfxx_class_def)

subsection \<open>Loads and stores\<close>

text \<open>The reference to the memory array is in the local variable of \<open>R_MEM\<close>.\<close>

definition memory_local :: "regalloc \<Rightarrow> jstate \<Rightarrow> bool" where
  "memory_local ra s \<longleftrightarrow> ok_alloc ra \<and> regIsAllocated ra R_MEM \<and> locs s (regToLocal ra R_MEM) = VMem"

lemma run_push_memory [simp]:
  "memory_local ra s \<Longrightarrow> run E (bc_pushregister ra R_MEM) s = Fall (s\<lparr>stk := VMem # stk s\<rparr>)"
  by (simp add: memory_local_def bc_pushregister_def panic_if_def regToStatic_def ok_alloc_def push_def)

lemma memory_local_upd [simp]:
  "memory_local ra (s\<lparr>stk := x\<rparr>) = memory_local ra s" "memory_local ra (s\<lparr>jmem := y\<rparr>) = memory_local ra s"
  by (simp_all add: memory_local_def)

text \<open>The index the code computes is the address shifted, when the base is no high address.\<close>

lemma push_index_value:
  assumes "0 \<le> sint v" "-32768 \<le> e" "e < 32768" "mapped lim (v + of_int e)" "lim < 2 ^ 29" "c_mod e 4 = 0"
  shows "drop_bit 2 v + of_int (c_div e 4) = drop_bit 2 (v + of_int e :: u32)"
proof -
  have e4: "e = 4 * c_div e 4" using assms(6) by (simp add: c_mod_def)
  define f where "f = c_div e 4"
  have e: "e = 4 * f" using e4 by (simp add: f_def)
  have f: "-8192 \<le> f" "f < 8192" using assms(2,3) e by simp_all
  have u: "uint v < 2147483648" "0 \<le> uint v" using uint32_pos [OF assms(1)] by simp_all
  have i: "uint (v + of_int e) = (uint v + e) mod 4294967296"
    by (simp only: uint_word_ariths uint_word_of_int) (simp add: mod_simps)
  have lim: "uint (v + of_int e) < 2147483648"
  proof -
    have "unat (v + of_int e) < 4 * lim" "lim < 536870912" using assms(4,5) by (simp_all add: mapped_def)
    then have "unat (v + of_int e) < 2147483648" by linarith
    then show ?thesis using uint_int_unat [of "v + of_int e"] by linarith
  qed
  have nn: "0 \<le> uint v + e"
  proof (rule ccontr)
    assume n: "\<not> ?thesis"
    have "(uint v + e) mod 4294967296 = uint v + e + 4294967296"
      by (rule int_mod_pos_eq [of _ _ "- 1"]) (use n assms(2) u in linarith)+
    then show False using i lim n assms(2) u by linarith
  qed
  then have i2: "uint (v + of_int e) = uint v + e"
    unfolding i by (intro mod_pos_pos_trivial) (use u assms(3) in linarith)+
  have d: "uint (drop_bit 2 w) = uint w div 4" for w :: u32
    by (simp add: unsigned_drop_bit_eq drop_bit_eq_div uint_div)
  have "uint (drop_bit 2 v + of_int f) = (uint v div 4 + f) mod 4294967296"
    by (simp only: uint_word_ariths d uint_word_of_int) (simp add: mod_simps)
  also have "\<dots> = uint v div 4 + f"
    by (rule mod_pos_pos_trivial) (use nn u f e in linarith)+
  also have "\<dots> = (uint v + e) div 4" using e by simp
  finally have "uint (drop_bit 2 v + of_int f) = uint (drop_bit 2 (v + of_int e))"
    by (simp only: d i2)
  then show ?thesis unfolding f_def [symmetric] by (simp add: word_uint_eq_iff)
qed

end
