(* ===== verification/RunMemory.thy ===== *)
theory RunMemory
  imports RunInsn
begin

text \<open>
  Loads and stores: the array of words that holds the memory follows the byte memory under every
  access, inline or by a call of \<open>CRunTime\<close>.
\<close>

unbundle bit_operations_syntax

subsection \<open>The array and the memory\<close>

lemma word_address_inj:
  assumes "i < 2 ^ 29" "j < 2 ^ 29" "k < 4" "l < 4"
  shows "(of_nat (4 * i) + of_nat k :: u32) = of_nat (4 * j) + of_nat l \<longleftrightarrow> i = j \<and> k = l"
proof -
  have "(of_nat (4 * i + k) :: u32) = of_nat (4 * j + l) \<longleftrightarrow> 4 * i + k = 4 * j + l"
    using assms by (simp only: word_of_nat_eq_iff) (simp add: take_bit_nat_eq_self)
  moreover have "4 * i + k = 4 * j + l \<longleftrightarrow> i = j \<and> k = l" using assms by presburger
  ultimately show ?thesis by simp
qed

lemma mem_rel_access:
  assumes "mem_rel lim m js" "mapped lim a"
  obtains i k where "i < lim" "k < 4" "a AND 3 = of_nat k" "a = of_nat (4 * i) + of_nat k"
    "nat (sint (drop_bit 2 a)) = i" "in_array js (drop_bit 2 a)"
    "array_get js (drop_bit 2 a) = Some (load32 m (of_nat (4 * i)))"
    "signed_drop_bit 2 a = drop_bit 2 a" "java_div4 a = drop_bit 2 a"
proof -
  have l: "lim < 2 ^ 29" "length js = lim" using assms(1) by (simp_all add: mem_rel_def)
  obtain i k where s: "i < lim" "k < 4" "a = of_nat (4 * i) + of_nat k" "drop_bit 2 a = of_nat i"
    "a AND 3 = of_nat k" "sint (drop_bit 2 a) = int i" "signed_drop_bit 2 a = drop_bit 2 a" "0 \<le> sint a"
    by (rule address_split [OF assms(2) l(1)])
  have n: "nat (sint (drop_bit 2 a)) = i" "in_array js (drop_bit 2 a)"
    using s(1,6) l by (simp_all add: in_array_def)
  have g: "array_get js (drop_bit 2 a) = Some (load32 m (of_nat (4 * i)))"
    using n s(1) assms(1) by (simp add: array_get_def mem_rel_def)
  have u: "sint a = int (unat a)" using uint32_pos [OF s(8)] uint_int_unat [of a] by linarith
  have d: "java_div4 a = drop_bit 2 a"
  proof -
    have "int (unat a) div 4 = int (unat (drop_bit 2 a))"
      by (simp only: unat_drop_bit_eq) (simp add: drop_bit_eq_div zdiv_int)
    then show ?thesis by (simp only: java_div4_def u c_div_nonneg of_nat_0_le_iff zero_le_numeral) simp
  qed
  show ?thesis by (rule that [OF s(1,2,5,3) n g s(7) d])
qed

lemma mem_rel_update:
  assumes "mem_rel lim m js" "i < lim" "w = load32 m' (of_nat (4 * i))"
    "\<And>j k. j < lim \<Longrightarrow> j \<noteq> i \<Longrightarrow> k < 4 \<Longrightarrow> m' (of_nat (4 * j) + of_nat k) = m (of_nat (4 * j) + of_nat k)"
  shows "mem_rel lim m' (js[i := w])"
proof -
  have "load32 m' (of_nat (4 * j)) = load32 m (of_nat (4 * j))" if "j < lim" "j \<noteq> i" for j
  proof (rule load32_cong)
    fix c :: u32 assume "in_block (of_nat (4 * j)) 4 c"
    then have c: "unat (c - of_nat (4 * j)) < 4" by (simp add: in_block_def)
    have "c = of_nat (4 * j) + of_nat (unat (c - of_nat (4 * j)))"
      by (simp only: word_of_unat [symmetric]) simp
    then show "m' c = m c" using assms(4) [OF that c] by metis
  qed
  then show ?thesis using assms(1-3) by (auto simp: mem_rel_def nth_list_update)
qed

lemma word_get:
  "mem_rel lim m js \<Longrightarrow> mapped lim a \<Longrightarrow> a AND 3 = 0 \<Longrightarrow> array_get js (drop_bit 2 a) = Some (load32 m a)"
  by (erule (1) mem_rel_access) (auto dest: nat4_cases)

lemma byte_get:
  assumes "mem_rel lim m js" "mapped lim a"
  shows "\<exists>w. array_get js (drop_bit 2 a) = Some w \<and> take_bit 8 (drop_bit (byte_shift a) w) = ucast (m a)"
  using assms by (rule mem_rel_access) (simp add: byte_shift_eq load_byte)

lemma half_aligned: "a AND 1 = 0 \<Longrightarrow> a AND 3 = of_nat k \<Longrightarrow> k < 4 \<Longrightarrow> k = 0 \<or> k = 2" for a :: u32
proof -
  assume a: "a AND 1 = 0" "a AND 3 = of_nat k" "k < 4"
  have "(a AND 3) AND 1 = a AND 1" by (rule bit_word_eqI) (auto simp: bit_simps)
  then have "(of_nat k :: u32) AND 1 = 0" using a by simp
  then show ?thesis using nat4_cases [OF a(3)] by auto
qed

lemma short_get:
  assumes "mem_rel lim m js" "mapped lim a" "a AND 1 = 0"
  shows "\<exists>w. array_get js (drop_bit 2 a) = Some w \<and> take_bit 16 (drop_bit (short_shift a) w) = load16 m a"
proof -
  obtain i k where s: "i < lim" "k < 4" "a AND 3 = of_nat k" "a = of_nat (4 * i) + of_nat k"
    "nat (sint (drop_bit 2 a)) = i" "in_array js (drop_bit 2 a)"
    "array_get js (drop_bit 2 a) = Some (load32 m (of_nat (4 * i)))"
    "signed_drop_bit 2 a = drop_bit 2 a" "java_div4 a = drop_bit 2 a"
    by (rule mem_rel_access [OF assms(1,2)])
  have k: "k = 0 \<or> k = 2" by (rule half_aligned [OF assms(3) s(3,2)])
  show ?thesis
    by (rule exI [of _ "load32 m (of_nat (4 * i))"]) (use s(4,7) load_short [OF k, of m "of_nat (4 * i)"] short_shift_eq [OF s(3) k] in simp)
qed

lemma word_set:
  assumes "mem_rel lim m js" "mapped lim a" "a AND 3 = 0"
  shows "\<exists>js'. array_set js (drop_bit 2 a) v = Some js' \<and> mem_rel lim (store32 m a v) js'"
proof -
  obtain i k where s: "i < lim" "k < 4" "a AND 3 = of_nat k" "a = of_nat (4 * i) + of_nat k"
    "nat (sint (drop_bit 2 a)) = i" "in_array js (drop_bit 2 a)"
    by (rule mem_rel_access [OF assms(1,2)])
  have l: "lim < 2 ^ 29" using assms(1) by (simp add: mem_rel_def)
  have k: "k = 0" using s(2,3) assms(3) nat4_cases [of k] by auto
  have a: "a = of_nat (4 * i)" using s(4) k by simp
  have "mem_rel lim (store32 m a v) (js[i := v])"
  proof (rule mem_rel_update [OF assms(1) s(1)])
    show "v = load32 (store32 m a v) (of_nat (4 * i))" by (simp only: a load32_store32_same)
  next
    fix j q :: nat assume j: "j < lim" "j \<noteq> i" "q < 4"
    have n: "of_nat (4 * j) + of_nat q \<noteq> a + of_nat p" if "p < 4" for p
      unfolding a using word_address_inj [of j i q p] that j s(1) l by auto
    show "store32 m a v (of_nat (4 * j) + of_nat q) = m (of_nat (4 * j) + of_nat q)"
    proof (rule store32_outside, rule notI)
      assume "in_block a 4 (of_nat (4 * j) + of_nat q)"
      then have c: "unat (of_nat (4 * j) + of_nat q - a) < 4" by (simp add: in_block_def)
      show False by (rule notE [OF n [OF c]]) (simp only: word_of_unat [symmetric] add_diff_eq add_diff_cancel_left')
    qed
  qed
  then show ?thesis using s(5,6) by (simp add: array_set_def)
qed

lemma byte_set:
  assumes "mem_rel lim m js" "mapped lim a" "array_get js (drop_bit 2 a) = Some w"
  shows "\<exists>js'. array_set js (drop_bit 2 a)
      ((w AND NOT (push_bit (byte_shift a) 0xff)) OR push_bit (byte_shift a) (v AND 0xff)) = Some js' \<and>
    mem_rel lim (m(a := ucast v)) js'"
proof -
  obtain i k where s: "i < lim" "k < 4" "a AND 3 = of_nat k" "a = of_nat (4 * i) + of_nat k"
    "nat (sint (drop_bit 2 a)) = i" "in_array js (drop_bit 2 a)"
    "array_get js (drop_bit 2 a) = Some (load32 m (of_nat (4 * i)))"
    by (rule mem_rel_access [OF assms(1,2)])
  have l: "lim < 2 ^ 29" using assms(1) by (simp add: mem_rel_def)
  have w: "w = load32 m (of_nat (4 * i))" using assms(3) s(7) by simp
  have "mem_rel lim (m(a := ucast v)) (js[i := (w AND NOT (push_bit (byte_shift a) 0xff)) OR push_bit (byte_shift a) (v AND 0xff)])"
  proof (rule mem_rel_update [OF assms(1) s(1)])
    show "(w AND NOT (push_bit (byte_shift a) 0xff)) OR push_bit (byte_shift a) (v AND 0xff) = load32 (m(a := ucast v)) (of_nat (4 * i))"
      using store_byte [OF s(2), of m "of_nat (4 * i)" v, folded s(4)] by (simp only: byte_shift_eq [OF s(3,2)] w and_mask(1))
  next
    fix j q :: nat assume j: "j < lim" "j \<noteq> i" "q < 4"
    have "of_nat (4 * j) + of_nat q \<noteq> a"
      unfolding s(4) using word_address_inj [of j i q k] s(1,2) j l by auto
    then show "(m(a := ucast v)) (of_nat (4 * j) + of_nat q) = m (of_nat (4 * j) + of_nat q)" by simp
  qed
  then show ?thesis using s(5,6) by (simp add: array_set_def)
qed

lemma short_set:
  assumes "mem_rel lim m js" "mapped lim a" "a AND 1 = 0" "array_get js (drop_bit 2 a) = Some w"
  shows "\<exists>js'. array_set js (drop_bit 2 a)
      ((w AND NOT (push_bit (short_shift a) 0xffff)) OR push_bit (short_shift a) (v AND 0xffff)) = Some js' \<and>
    mem_rel lim (m(a := ucast (drop_bit 8 v), a + 1 := ucast v)) js'"
proof -
  obtain i k where s: "i < lim" "k < 4" "a AND 3 = of_nat k" "a = of_nat (4 * i) + of_nat k"
    "nat (sint (drop_bit 2 a)) = i" "in_array js (drop_bit 2 a)"
    "array_get js (drop_bit 2 a) = Some (load32 m (of_nat (4 * i)))"
    by (rule mem_rel_access [OF assms(1,2)])
  have l: "lim < 2 ^ 29" using assms(1) by (simp add: mem_rel_def)
  have k: "k = 0 \<or> k = 2" by (rule half_aligned [OF assms(3) s(3,2)])
  have w: "w = load32 m (of_nat (4 * i))" using assms(4) s(7) by simp
  let ?m = "m(a := ucast (drop_bit 8 v), a + 1 := ucast v)"
  have "mem_rel lim ?m (js[i := (w AND NOT (push_bit (short_shift a) 0xffff)) OR push_bit (short_shift a) (v AND 0xffff)])"
  proof (rule mem_rel_update [OF assms(1) s(1)])
    show "(w AND NOT (push_bit (short_shift a) 0xffff)) OR push_bit (short_shift a) (v AND 0xffff) = load32 ?m (of_nat (4 * i))"
      using store_short [OF k, of m "of_nat (4 * i)" v, folded s(4)] by (simp only: short_shift_eq [OF s(3) k] w and_mask(2))
  next
    fix j q :: nat assume j: "j < lim" "j \<noteq> i" "q < 4"
    have "of_nat (4 * j) + of_nat q \<noteq> a"
      unfolding s(4) using word_address_inj [of j i q k] s(1,2) j l by auto
    moreover have "of_nat (4 * j) + of_nat q \<noteq> a + 1"
    proof -
      have "a + 1 = of_nat (4 * i) + of_nat (k + 1)" using s(4) by simp
      then show ?thesis using word_address_inj [of j i q "k + 1"] s(1) j l k by auto
    qed
    ultimately show "?m (of_nat (4 * j) + of_nat q) = m (of_nat (4 * j) + of_nat q)" by simp
  qed
  then show ?thesis using s(5,6) by (simp add: array_set_def)
qed

subsection \<open>Loads and stores\<close>

definition addressing :: "regalloc \<Rightarrow> nat \<Rightarrow> mem \<Rightarrow> jstate \<Rightarrow> MIPS_register \<Rightarrow> int \<Rightarrow> u32 \<Rightarrow> bool" where
  "addressing ra lim m s rs e a \<longleftrightarrow> readable ra s rs \<and> memory_local ra s \<and> mem_rel lim m (jmem s) \<and>
     reg_value ra s rs + of_int e = a \<and> mapped lim a \<and> 0 \<le> sint (reg_value ra s rs) \<and> -32768 \<le> e \<and> e < 32768"

lemma addressing_stk [simp]: "addressing ra lim m (s\<lparr>stk := x\<rparr>) rs e a = addressing ra lim m s rs e a"
  by (simp add: addressing_def)

lemma addressingD:
  "addressing ra lim m s rs e a \<Longrightarrow> readable ra s rs" "addressing ra lim m s rs e a \<Longrightarrow> memory_local ra s"
  "addressing ra lim m s rs e a \<Longrightarrow> mem_rel lim m (jmem s)" "addressing ra lim m s rs e a \<Longrightarrow> mapped lim a"
  "addressing ra lim m s rs e a \<Longrightarrow> reg_value ra s rs + of_int e = a"
  by (simp_all add: addressing_def)

lemma run_pushaddress [simp]:
  "addressing ra lim m s rs e a \<Longrightarrow> run E (bc_pushaddress ra rs e) s = Fall (s\<lparr>stk := VI a # stk s\<rparr>)"
  by (auto simp: addressing_def bc_pushaddress_def int2_def)

lemma run_pushindex [simp]:
  assumes "addressing ra lim m s rs e a"
  shows "run E (bc_pushindex ra rs e) s = Fall (s\<lparr>stk := VI (drop_bit 2 a) # stk s\<rparr>)"
proof -
  note as = assms [unfolded addressing_def]
  have l: "lim < 2 ^ 29" using as by (simp add: mem_rel_def)
  show ?thesis
  proof (cases "c_mod e 4 = 0")
    case True
    have "drop_bit 2 (reg_value ra s rs) + of_int (c_div e 4) = drop_bit 2 a"
      using push_index_value [of "reg_value ra s rs" e lim] as l True by simp
    then show ?thesis using as True by (auto simp: bc_pushindex_def Let_def int2_def c_div_def)
  next
    case False
    then have "e \<noteq> 0" by (auto simp: c_mod_def c_div_def)
    then show ?thesis using as False by (simp add: bc_pushindex_def Let_def int2_def)
  qed
qed

lemma run_Iaload:
  "stk s = VI i # VMem # r \<Longrightarrow> array_get (jmem s) i = Some v \<Longrightarrow> exec E [Iaload] s = Fall (s\<lparr>stk := VI v # r\<rparr>)"
  by (auto simp: load_array_def array_get_def in_array_def split: if_splits)

lemma run_Iastore:
  "stk s = VI v # VI i # VMem # r \<Longrightarrow> array_set (jmem s) i v = Some js \<Longrightarrow> exec E [Iastore] s = Fall (s\<lparr>stk := r, jmem := js\<rparr>)"
  by (auto simp: store_array_def array_set_def in_array_def split: if_splits)

lemma run_Lw:
  assumes "i = new_Instruction (Memory Lw) adr opc rs rt rd e" "addressing (c_alloc c) lim m s rs e a" "a AND 3 = 0"
    "writable (c_alloc c) rt" "rt \<noteq> R_RA"
  shows "run E (compile c i) s = Fall (assign (c_alloc c) rt (load32 m a) s)"
proof -
  have g: "array_get (jmem s) (drop_bit 2 a) = Some (load32 m a)"
    using assms(2,3) by (intro word_get [of lim m]) (simp_all add: addressing_def)
  note l = run_Iaload [where v = "load32 m a" and i = "drop_bit 2 a", simplified]
  show ?thesis using assms addressingD(2) [OF assms(2)] g
    by (simp add: Lw_class_def skips_ra_def l run_pushindex [where lim = lim and m = m and a = a])
qed

lemma run_Sw:
  assumes "i = new_Instruction (Memory Sw) adr opc rs rt rd e" "addressing (c_alloc c) lim m s rs e a" "a AND 3 = 0"
    "readable (c_alloc c) s rt" "rt \<noteq> R_RA" "\<not> traceStores (c_config c)"
  shows "\<exists>js. run E (compile c i) s = Fall (s\<lparr>jmem := js\<rparr>) \<and> mem_rel lim (store32 m a (reg_value (c_alloc c) s rt)) js"
proof -
  let ?v = "reg_value (c_alloc c) s rt"
  obtain js where js: "array_set (jmem s) (drop_bit 2 a) ?v = Some js" "mem_rel lim (store32 m a ?v) js"
    using word_set [of lim m "jmem s" a ?v] assms(2,3) by (auto simp: addressing_def)
  note l = run_Iastore [where v = ?v and i = "drop_bit 2 a", simplified]
  have "run E (compile c i) s = Fall (s\<lparr>jmem := js\<rparr>)" using assms addressingD(2) [OF assms(2)] js(1)
    by (simp add: Sw_class_def skips_ra_def l run_pushindex [where lim = lim and m = m and a = a])
  then show ?thesis using js(2) by blast
qed

lemma run_push_shift:
  assumes "addressing (c_alloc c) lim m s (i_rs i) (i_extra i) a"
  shows "run E (push_shift word_size c i) s = Fall (s\<lparr>stk := VI (push_bit 3 (of_int (b_v word_size) - (a AND of_int (b_v word_size)))) # stk s\<rparr>)"
  using assms addressingD(1,5) [OF assms] by (auto simp: push_shift_def int2_def)

lemma signed_byte: "signed_take_bit 7 (take_bit 8 v) = signed_take_bit 7 (v :: u32)"
  by (rule bit_word_eqI) (auto simp: bit_simps min_def)

lemma signed_short: "signed_take_bit 15 (take_bit 16 v) = signed_take_bit 15 (v :: u32)"
  by (rule bit_word_eqI) (auto simp: bit_simps min_def)

lemma signext_byte: "(let out = take_bit 8 v in if out AND push_bit 7 1 \<noteq> 0 then out OR 0xffffff00 else out) = signed_take_bit 7 (v :: u32)"
proof -
  have m: "bit (0xffffff00 :: u32) n \<longleftrightarrow> 8 \<le> n \<and> n < 32" for n
  proof -
    have "(0xffffff00 :: u32) = NOT 0xff" by simp
    then show ?thesis by (simp only: bit_not_iff bit_ff) (auto simp: possible_bit_def)
  qed
  have p: "(take_bit 8 v AND push_bit 7 1 \<noteq> 0) = bit v 7"
    by (simp only: bit_iff_and_push_bit_not_eq_0 [symmetric] bit_take_bit_iff) simp
  show ?thesis unfolding Let_def p
    by (rule bit_word_eqI, simp only: if_distrib [of "\<lambda>x. bit x _"] bit_or_iff m) (auto simp: bit_simps min_def not_less le_less)
qed

lemma signext_short: "(let out = take_bit 16 v in if out AND push_bit 15 1 \<noteq> 0 then out OR 0xffff0000 else out) = signed_take_bit 15 (v :: u32)"
proof -
  have m: "bit (0xffff0000 :: u32) n \<longleftrightarrow> 16 \<le> n \<and> n < 32" for n
  proof -
    have "(0xffff0000 :: u32) = NOT 0xffff" by simp
    then show ?thesis by (simp only: bit_not_iff bit_ff) (auto simp: possible_bit_def)
  qed
  have p: "(take_bit 16 v AND push_bit 15 1 \<noteq> 0) = bit v 15"
    by (simp only: bit_iff_and_push_bit_not_eq_0 [symmetric] bit_take_bit_iff) simp
  show ?thesis unfolding Let_def p
    by (rule bit_word_eqI, simp only: if_distrib [of "\<lambda>x. bit x _"] bit_or_iff m) (auto simp: bit_simps min_def not_less le_less)
qed

lemma memoryRead:
  assumes "mem_rel lim m js" "mapped lim a"
  shows "memoryReadByteUnsigned js a = Some (ucast (m a))"
    "memoryReadByte js a = Some (signed_take_bit 7 (ucast (m a)))"
    "a AND 1 = 0 \<Longrightarrow> memoryReadShortUnsigned js a = Some (load16 m a)"
    "a AND 1 = 0 \<Longrightarrow> memoryReadShort js a = Some (signed_take_bit 15 (load16 m a))"
proof -
  have s: "signed_drop_bit 2 a = drop_bit 2 a" by (rule mem_rel_access [OF assms])
  obtain w where w: "array_get js (drop_bit 2 a) = Some w" "take_bit 8 (drop_bit (byte_shift a) w) = ucast (m a)"
    using byte_get [OF assms] by blast
  show "memoryReadByteUnsigned js a = Some (ucast (m a))"
    using w by (simp add: memoryReadByteUnsigned_def s and_mask)
  show "memoryReadByte js a = Some (signed_take_bit 7 (ucast (m a)))"
    using w by (simp only: memoryReadByte_def s and_mask option.map signext_byte) (metis signed_byte w(2))
  assume al: "a AND 1 = 0"
  obtain v where v: "array_get js (drop_bit 2 a) = Some v" "take_bit 16 (drop_bit (short_shift a) v) = load16 m a"
    using short_get [OF assms al] by blast
  show u: "memoryReadShortUnsigned js a = Some (load16 m a)"
    using v by (simp add: memoryReadShortUnsigned_def s and_mask)
  have t: "take_bit 16 (load16 m a) = load16 m a" using v(2) by (metis take_bit_take_bit min.idem)
  show "memoryReadShort js a = Some (signed_take_bit 15 (load16 m a))"
    using signext_short [of "load16 m a"] by (simp only: memoryReadShort_def u option.map t Let_def)
qed

lemma memoryWriteByte_ok:
  assumes "mem_rel lim m js" "mapped lim a"
  shows "\<exists>js'. memoryWriteByte js a v = Some js' \<and> mem_rel lim (m(a := ucast v)) js'"
proof -
  have s: "java_div4 a = drop_bit 2 a" by (rule mem_rel_access [OF assms])
  obtain w where w: "array_get js (drop_bit 2 a) = Some w" using byte_get [OF assms] by blast
  show ?thesis using byte_set [OF assms w, of v] w by (simp add: memoryWriteByte_def s)
qed

lemma memoryWriteShort_ok:
  assumes "mem_rel lim m js" "mapped lim a" "a AND 1 = 0"
  shows "\<exists>js'. memoryWriteShort js a v = Some js' \<and> mem_rel lim (m(a := ucast (drop_bit 8 v), a + 1 := ucast v)) js'"
proof -
  have s: "java_div4 a = drop_bit 2 a" by (rule mem_rel_access [OF assms(1,2)])
  obtain w where w: "array_get js (drop_bit 2 a) = Some w" using byte_get [OF assms(1,2)] by blast
  show ?thesis using short_set [OF assms w, of v] w by (simp add: memoryWriteShort_def s)
qed

lemma partial_inline:
  assumes "c_method c adr = Some mt" "\<not> optimizePartialMemoryOps (c_config c)"
  obtains (inline) "optimizeInlines (c_config c)" "jm_bytecode_size mt \<le> 32768"
  | (no_inline) "\<not> optimizeInlines (c_config c)" | (large) "optimizeInlines (c_config c)" "jm_bytecode_size mt > 32768"
  by (meson not_less)

lemma run_PartialLoad:
  assumes "i_kind i = Memory k" "i_delayed i = None" "i_prefix i = None" "i_rs i = rs" "i_rt i = rt" "i_extra i = e"
    "addressing (c_alloc c) lim m s rs e a" "writable (c_alloc c) rt" "rt \<noteq> R_RA"
    "c_method c (i_address i) = Some mt" "\<not> optimizePartialMemoryOps (c_config c)"
    "word_size = 8 \<or> word_size = 16 \<and> a AND 1 = 0"
    "cruntime calls (CRunTime (''memoryRead'' @ bc) ''(I)I'') = read_call f" "f (jmem s) a = Some v"
    "\<And>w. array_get (jmem s) (drop_bit 2 a) = Some w \<Longrightarrow>
       v = (if word_size = 8 \<and> is_signed then signed_take_bit 7 (drop_bit (byte_shift a) w)
            else if word_size = 8 then drop_bit (byte_shift a) w AND 0xff
            else if is_signed then signed_take_bit 15 (drop_bit (short_shift a) w)
            else take_bit 16 (drop_bit (short_shift a) w))"
  shows "run (cruntime calls) (PartialLoad_pass2 word_size is_signed bc c i None) s = Fall (assign (c_alloc c) rt v s)"
proof -
  have call: "run (cruntime calls) (LoadXX_pass2 bc c i) s = Fall (assign (c_alloc c) rt v s)"
    using assms addressingD(1,5) [OF assms(7)]
    by (simp add: LoadXX_pass2_def read_call_def run_pushaddress [where lim = lim and m = m and a = a])
  have "mem_rel lim m (jmem s)" "mapped lim a" using assms(7) by (simp_all add: addressing_def)
  then obtain w where w: "array_get (jmem s) (drop_bit 2 a) = Some w" using byte_get by blast
  note l = run_Iaload [where v = w and i = "drop_bit 2 a", simplified]
  note ps = run_push_shift [where c = c and lim = lim and m = m and i = i and a = a]
  show ?thesis
  proof (rule partial_inline [OF assms(10,11)])
    assume c: "optimizeInlines (c_config c)" "jm_bytecode_size mt \<le> 32768"
    show ?thesis
      using assms(12) assms(4-11) addressingD(2) [OF assms(7)] w c assms(15) [OF w]
      by (elim disjE conjE; cases is_signed)
        (simp_all add: PartialLoad_pass2_def skips_ra_def l run_pushindex [where lim = lim and m = m and a = a] ps
           int1_def int2_def byte_shift_def short_shift_def b_v_def mask_val_def)
  qed (use call assms in \<open>simp_all add: PartialLoad_pass2_def\<close>)
qed

definition inlinable :: "jctx \<Rightarrow> u32 \<Rightarrow> bool" where
  "inlinable c adr \<longleftrightarrow> c_method c adr \<noteq> None \<and> \<not> optimizePartialMemoryOps (c_config c) \<and> \<not> traceStores (c_config c)"

lemma byte_value:
  "mem_rel lim m js \<Longrightarrow> mapped lim a \<Longrightarrow> array_get js (drop_bit 2 a) = Some w \<Longrightarrow>
   take_bit 8 (drop_bit (byte_shift a) w) = ucast (m a)"
  using byte_get [of lim m js a] by auto

lemma short_value:
  "mem_rel lim m js \<Longrightarrow> mapped lim a \<Longrightarrow> a AND 1 = 0 \<Longrightarrow> array_get js (drop_bit 2 a) = Some w \<Longrightarrow>
   take_bit 16 (drop_bit (short_shift a) w) = load16 m a"
  using short_get [of lim m js a] by auto

lemma run_bytes:
  assumes i: "i = new_Instruction (Memory k) adr opc rs rt rd e"
    and a: "addressing (c_alloc c) lim m s rs e a" and w: "writable (c_alloc c) rt" "rt \<noteq> R_RA" and c: "inlinable c adr"
  shows "k = Lbu \<Longrightarrow> run (cruntime calls) (compile c i) s = Fall (assign (c_alloc c) rt (ucast (m a)) s)"
    "k = Lb \<Longrightarrow> run (cruntime calls) (compile c i) s = Fall (assign (c_alloc c) rt (signed_take_bit 7 (ucast (m a))) s)"
    "k = Lhu \<Longrightarrow> a AND 1 = 0 \<Longrightarrow> run (cruntime calls) (compile c i) s = Fall (assign (c_alloc c) rt (load16 m a) s)"
    "k = Lh \<Longrightarrow> a AND 1 = 0 \<Longrightarrow>
      run (cruntime calls) (compile c i) s = Fall (assign (c_alloc c) rt (signed_take_bit 15 (load16 m a)) s)"
proof -
  obtain mt where mt: "c_method c adr = Some mt" "\<not> optimizePartialMemoryOps (c_config c)"
    using c by (auto simp: inlinable_def)
  have M: "mem_rel lim m (jmem s)" "mapped lim a" using a by (simp_all add: addressing_def)
  note b = byte_value [OF M] and h = short_value [OF M]
  have f: "i_kind i = Memory k" "i_delayed i = None" "i_prefix i = None" "i_rs i = rs" "i_rt i = rt" "i_extra i = e"
    "i_address i = adr" by (simp_all add: i) (simp_all add: new_Instruction_def)
  note L = run_PartialLoad [OF f(1-6) a w, unfolded f, OF mt]
  have u: "compile c i = pass2 (memory_class k) c i None None" by (simp add: i)
  show "run (cruntime calls) (compile c i) s = Fall (assign (c_alloc c) rt (ucast (m a)) s)" if "k = Lbu"
    unfolding u using that
    by (simp add: Lbu_class_def PartialLoad_class_def) (rule L [where f = memoryReadByteUnsigned], simp_all add: cruntime_def memoryRead [OF M] b and_mask)
  show "run (cruntime calls) (compile c i) s = Fall (assign (c_alloc c) rt (signed_take_bit 7 (ucast (m a))) s)" if "k = Lb"
    unfolding u using that
    by (simp add: Lb_class_def PartialLoad_class_def) (rule L [where f = memoryReadByte], simp_all add: cruntime_def memoryRead [OF M] b [symmetric] signed_byte)
  show "run (cruntime calls) (compile c i) s = Fall (assign (c_alloc c) rt (load16 m a) s)" if "k = Lhu" "a AND 1 = 0"
    unfolding u using that
    by (simp add: Lhu_class_def PartialLoad_class_def) (rule L [where f = memoryReadShortUnsigned], simp_all add: cruntime_def memoryRead [OF M] h that)
  show "run (cruntime calls) (compile c i) s = Fall (assign (c_alloc c) rt (signed_take_bit 15 (load16 m a)) s)"
    if "k = Lh" "a AND 1 = 0"
    unfolding u using that
    by (simp add: Lh_class_def PartialLoad_class_def) (rule L [where f = memoryReadShort], simp_all add: cruntime_def memoryRead [OF M] h [symmetric] signed_short that)
qed

lemma run_PartialStore:
  assumes "i_delayed i = None" "i_prefix i = None" "i_rs i = rs" "i_rt i = rt" "i_extra i = e"
    "addressing (c_alloc c) lim m s rs e a" "readable (c_alloc c) s rt" "rt \<noteq> R_RA"
    "inlinable c (i_address i)" "v = reg_value (c_alloc c) s rt"
    "word_size = 8 \<or> word_size = 16 \<and> a AND 1 = 0"
    "cruntime calls (CRunTime (''memoryWrite'' @ bc) ''(II)V'') = write_call f"
    "f (jmem s) a v = Some js"
    "\<And>w. array_get (jmem s) (drop_bit 2 a) = Some w \<Longrightarrow>
       array_set (jmem s) (drop_bit 2 a)
         (if word_size = 8 then (w AND NOT (push_bit (byte_shift a) 0xff)) OR push_bit (byte_shift a) (v AND 0xff)
          else (w AND NOT (push_bit (short_shift a) 0xffff)) OR push_bit (short_shift a) (v AND 0xffff)) = Some js"
  shows "run (cruntime calls) (PartialStore_pass2 word_size bc c i None) s = Fall (s\<lparr>jmem := js\<rparr>)"
proof -
  obtain mt where mt: "c_method c (i_address i) = Some mt" "\<not> optimizePartialMemoryOps (c_config c)" "\<not> traceStores (c_config c)"
    using assms(9) by (auto simp: inlinable_def)
  have call: "run (cruntime calls) (StoreXX_pass2 bc c i) s = Fall (s\<lparr>jmem := js\<rparr>)"
    using assms mt addressingD(1,5) [OF assms(6)]
    by (simp add: StoreXX_pass2_def write_call_def run_pushaddress [where lim = lim and m = m and a = a])
  have "mem_rel lim m (jmem s)" "mapped lim a" using assms(6) by (simp_all add: addressing_def)
  then obtain w where w: "array_get (jmem s) (drop_bit 2 a) = Some w" using byte_get by blast
  note l = run_Iaload [where v = w and i = "drop_bit 2 a", simplified]
  note st = run_Iastore [where js = js and i = "drop_bit 2 a", simplified]
  note ps = run_push_shift [where c = c and lim = lim and m = m and i = i and a = a]
  have n: "x XOR - 1 = NOT x" for x :: u32 by simp
  show ?thesis
  proof (rule partial_inline [OF mt(1,2)])
    assume c: "optimizeInlines (c_config c)" "jm_bytecode_size mt \<le> 32768"
    show ?thesis
      using assms(11) assms(1-10) addressingD(2) [OF assms(6)] w c mt assms(14) [OF w]
      by (elim disjE conjE)
        (simp_all add: PartialStore_pass2_def skips_ra_def l st run_pushindex [where lim = lim and m = m and a = a] ps
           reorder_def int1_def int2_def byte_shift_def short_shift_def b_v_def mask_val_def n)
  qed (use call mt in \<open>simp_all add: PartialStore_pass2_def\<close>)
qed

lemma run_store_bytes:
  assumes i: "i = new_Instruction (Memory k) adr opc rs rt rd e"
    and a: "addressing (c_alloc c) lim m s rs e a" and w: "readable (c_alloc c) s rt" "rt \<noteq> R_RA" and c: "inlinable c adr"
    and v: "v = reg_value (c_alloc c) s rt"
  shows "k = Sb \<Longrightarrow> \<exists>js. run (cruntime calls) (compile c i) s = Fall (s\<lparr>jmem := js\<rparr>) \<and> mem_rel lim (m(a := ucast v)) js"
    "k = Sh \<Longrightarrow> a AND 1 = 0 \<Longrightarrow> \<exists>js. run (cruntime calls) (compile c i) s = Fall (s\<lparr>jmem := js\<rparr>) \<and>
       mem_rel lim (m(a := ucast (drop_bit 8 v), a + 1 := ucast v)) js"
proof -
  have M: "mem_rel lim m (jmem s)" "mapped lim a" using a by (simp_all add: addressing_def)
  have f: "i_delayed i = None" "i_prefix i = None" "i_rs i = rs" "i_rt i = rt" "i_extra i = e" "i_address i = adr"
    by (simp_all add: i) (simp_all add: new_Instruction_def)
  note S = run_PartialStore [OF f(1-5) a w, unfolded f, OF c v]
  have u: "compile c i = pass2 (memory_class k) c i None None" by (simp add: i)
  have d: "java_div4 a = drop_bit 2 a" by (rule mem_rel_access [OF M])
  show "\<exists>js. run (cruntime calls) (compile c i) s = Fall (s\<lparr>jmem := js\<rparr>) \<and> mem_rel lim (m(a := ucast v)) js" if k: "k = Sb"
  proof -
    obtain js where js: "memoryWriteByte (jmem s) a v = Some js" "mem_rel lim (m(a := ucast v)) js"
      using memoryWriteByte_ok [OF M] by blast
    have "run (cruntime calls) (compile c i) s = Fall (s\<lparr>jmem := js\<rparr>)"
      unfolding u using k js(1)
      by (simp add: Sb_class_def PartialStore_class_def)
        (rule S [where f = memoryWriteByte], simp_all only: memoryWriteByte_def d bind.bind_lunit simp_thms if_True, simp_all add: cruntime_def)
    then show ?thesis using js(2) by blast
  qed
  show "\<exists>js. run (cruntime calls) (compile c i) s = Fall (s\<lparr>jmem := js\<rparr>) \<and>
       mem_rel lim (m(a := ucast (drop_bit 8 v), a + 1 := ucast v)) js" if k: "k = Sh" "a AND 1 = 0"
  proof -
    obtain js where js: "memoryWriteShort (jmem s) a v = Some js" "mem_rel lim (m(a := ucast (drop_bit 8 v), a + 1 := ucast v)) js"
      using memoryWriteShort_ok [OF M k(2)] by blast
    have "run (cruntime calls) (compile c i) s = Fall (s\<lparr>jmem := js\<rparr>)"
      unfolding u using k js(1)
      by (simp add: Sh_class_def PartialStore_class_def)
        (rule S [where f = memoryWriteShort], simp_all only: memoryWriteShort_def d bind.bind_lunit simp_thms if_True, simp_all add: cruntime_def)
    then show ?thesis using js(2) by blast
  qed
qed

end
