(* ===== verification/Decode.thy ===== *)
theory Decode
  imports RunMemory
begin

text \<open>
  The instruction factory agrees with the fields of the architecture: which object
  \<open>create\<close> makes of the words the reference semantics covers.
\<close>

unbundle bit_operations_syntax

subsection \<open>Decoding\<close>

lemma encoding_fields:
  "mips_encoding_get_rs w = f_rs w" "mips_encoding_get_rt w = f_rt w" "mips_encoding_get_rd w = f_rd w"
  by (simp_all add: mips_encoding_get_rs_def mips_encoding_get_rt_def mips_encoding_get_rd_def f_rs_def f_rt_def f_rd_def and_mask)

lemma take_6: "take_bit 6 (drop_bit 26 w) = drop_bit 26 (w :: u32)"
  by (rule bit_word_eqI) (auto simp: bit_simps dest: bit_imp_le_length)

lemma op_entry_f_op: "op_entry w = mips_op_entries ! f_op w"
  by (simp only: op_entry_def f_op_def and_mask take_6)

lemma funct: "unat (w AND 63) = f_funct w"
  by (simp only: f_funct_def and_mask)

lemma f_op_high: "drop_bit 26 w = drop_bit 2 (drop_bit 24 w)" "drop_bit 26 w = drop_bit 10 (drop_bit 16 (w :: u32))"
  by simp_all

lemma no_special_word:
  assumes "f_op w \<noteq> 63"
  shows "drop_bit 24 w \<noteq> 0xff" "drop_bit 16 w \<noteq> 0xfefe" "drop_bit 24 w \<noteq> 0xfd"
proof -
  have "drop_bit 26 w \<noteq> 63" using assms by (auto simp: f_op_def)
  moreover have "drop_bit 2 0xff = (63 :: u32)" "drop_bit 10 0xfefe = (63 :: u32)" "drop_bit 2 0xfd = (63 :: u32)" by code_simp+
  ultimately show "drop_bit 24 w \<noteq> 0xff" "drop_bit 16 w \<noteq> 0xfefe" "drop_bit 24 w \<noteq> 0xfd" by (metis f_op_high)+
qed

lemma bit_hi16: "bit (0xffff0000 :: u32) n \<longleftrightarrow> 16 \<le> n \<and> n < 32"
proof -
  have "(0xffff0000 :: u32) = NOT 0xffff" by simp
  then show ?thesis by (simp only: bit_not_iff bit_ff) (auto simp: possible_bit_def)
qed

lemma bit15: "(take_bit 16 w AND 0x8000 = (0x8000 :: u32)) = bit w 15"
proof -
  have e: "(0x8000 :: u32) = push_bit 15 1" by simp
  have m: "bit (0x8000 :: u32) n \<longleftrightarrow> n = 15" for n
    by (simp only: e bit_push_bit_iff bit_1_iff) (auto simp: possible_bit_def)
  show ?thesis
  proof
    assume "take_bit 16 w AND 0x8000 = (0x8000 :: u32)"
    then have "bit (take_bit 16 w AND 0x8000) 15" by (simp only: m)
    then show "bit w 15" by (simp only: bit_and_iff bit_take_bit_iff)
  next
    assume "bit w 15"
    then show "take_bit 16 w AND 0x8000 = (0x8000 :: u32)"
      by (intro bit_word_eqI) (auto simp only: bit_and_iff bit_take_bit_iff m)
  qed
qed

lemma simm_value: "(if take_bit 16 w AND 0x8000 = 0x8000 then (- 1 AND NOT 0xffff) OR take_bit 16 w else take_bit 16 w) = f_simm w"
proof -
  have m: "(- 1 AND NOT 0xffff) = (0xffff0000 :: u32)" by simp
  show ?thesis unfolding bit15 f_simm_def m
    by (rule bit_word_eqI, simp only: if_distrib [of "\<lambda>x. bit x _"] bit_or_iff bit_hi16)
      (auto simp: bit_simps min_def not_less le_less)
qed

lemma extra_value:
  "op_fmt (op_entry w) = IFMT \<Longrightarrow> \<not> mips_zero_extend_opcode (op_type (op_entry w)) \<Longrightarrow> insn_extra w = sint (f_simm w)"
  "op_fmt (op_entry w) = IFMT \<Longrightarrow> mips_zero_extend_opcode (op_type (op_entry w)) \<Longrightarrow> insn_extra w = sint (f_uimm w)"
  "op_fmt (op_entry w) = RFMT \<Longrightarrow> insn_extra w = int (f_sa w)"
proof -
  show "op_fmt (op_entry w) = IFMT \<Longrightarrow> \<not> mips_zero_extend_opcode (op_type (op_entry w)) \<Longrightarrow> insn_extra w = sint (f_simm w)"
    using simm_value [of w] by (auto simp: insn_extra_def Let_def and_mask split: if_splits)
  show "op_fmt (op_entry w) = IFMT \<Longrightarrow> mips_zero_extend_opcode (op_type (op_entry w)) \<Longrightarrow> insn_extra w = sint (f_uimm w)"
    by (simp add: insn_extra_def Let_def and_mask f_uimm_def)
  have "unat (take_bit 5 (drop_bit 6 w)) < 32" by (simp add: unsigned_take_bit_eq take_bit_nat_def)
  then have "sint (take_bit 5 (drop_bit 6 w)) = int (unat (take_bit 5 (drop_bit 6 w)))" by (simp add: sint32)
  then show "op_fmt (op_entry w) = RFMT \<Longrightarrow> insn_extra w = int (f_sa w)"
    by (simp add: insn_extra_def f_sa_def and_mask)
qed

lemma op_entries:

  "mips_op_entries ! 0 = \<lparr>op_type = SPECIAL, op_fmt = RFMT\<rparr>"
  "mips_op_entries ! 8 = \<lparr>op_type = OP_ADDI, op_fmt = IFMT\<rparr>"
  "mips_op_entries ! 9 = \<lparr>op_type = OP_ADDIU, op_fmt = IFMT\<rparr>"
  "mips_op_entries ! 10 = \<lparr>op_type = OP_SLTI, op_fmt = IFMT\<rparr>"
  "mips_op_entries ! 11 = \<lparr>op_type = OP_SLTIU, op_fmt = IFMT\<rparr>"
  "mips_op_entries ! 12 = \<lparr>op_type = OP_ANDI, op_fmt = IFMT\<rparr>"
  "mips_op_entries ! 13 = \<lparr>op_type = OP_ORI, op_fmt = IFMT\<rparr>"
  "mips_op_entries ! 14 = \<lparr>op_type = OP_XORI, op_fmt = IFMT\<rparr>"
  "mips_op_entries ! 15 = \<lparr>op_type = OP_LUI, op_fmt = IFMT\<rparr>"
  "mips_op_entries ! 32 = \<lparr>op_type = OP_LB, op_fmt = IFMT\<rparr>"
  "mips_op_entries ! 33 = \<lparr>op_type = OP_LH, op_fmt = IFMT\<rparr>"
  "mips_op_entries ! 35 = \<lparr>op_type = OP_LW, op_fmt = IFMT\<rparr>"
  "mips_op_entries ! 36 = \<lparr>op_type = OP_LBU, op_fmt = IFMT\<rparr>"
  "mips_op_entries ! 37 = \<lparr>op_type = OP_LHU, op_fmt = IFMT\<rparr>"
  "mips_op_entries ! 40 = \<lparr>op_type = OP_SB, op_fmt = IFMT\<rparr>"
  "mips_op_entries ! 41 = \<lparr>op_type = OP_SH, op_fmt = IFMT\<rparr>"
  "mips_op_entries ! 43 = \<lparr>op_type = OP_SW, op_fmt = IFMT\<rparr>"
  by code_simp+

lemma special_opcodes:
  "mips_special_table ! 0 = OP_SLL"
  "mips_special_table ! 2 = OP_SRL"
  "mips_special_table ! 3 = OP_SRA"
  "mips_special_table ! 4 = OP_SLLV"
  "mips_special_table ! 6 = OP_SRLV"
  "mips_special_table ! 7 = OP_SRAV"
  "mips_special_table ! 16 = OP_MFHI"
  "mips_special_table ! 18 = OP_MFLO"
  "mips_special_table ! 24 = OP_MULT"
  "mips_special_table ! 25 = OP_MULTU"
  "mips_special_table ! 26 = OP_DIV"
  "mips_special_table ! 27 = OP_DIVU"
  "mips_special_table ! 32 = OP_ADD"
  "mips_special_table ! 33 = OP_ADDU"
  "mips_special_table ! 34 = OP_SUB"
  "mips_special_table ! 35 = OP_SUBU"
  "mips_special_table ! 36 = OP_AND"
  "mips_special_table ! 37 = OP_OR"
  "mips_special_table ! 38 = OP_XOR"
  "mips_special_table ! 39 = OP_NOR"
  "mips_special_table ! 42 = OP_SLT"
  "mips_special_table ! 43 = OP_SLTU"
  by code_simp+


lemma insn_opcode_special: "f_op w = 0 \<Longrightarrow> insn_opcode w = mips_special_table ! f_funct w"
  by (simp add: insn_opcode_def op_entry_f_op op_entries funct)

lemma insn_opcode_direct:
  "op_type (mips_op_entries ! f_op w) \<notin> {SPECIAL, BCOND, COP1} \<Longrightarrow> insn_opcode w = op_type (mips_op_entries ! f_op w)"
  by (simp add: insn_opcode_def op_entry_f_op Let_def)

lemma create_simple:
  "f_op w \<noteq> 63 \<Longrightarrow> map_of (simple_cases w) (insn_opcode w) = Some (k, rs, rt, rd, e) \<Longrightarrow>
   create a w = Inr (new_Instruction k a (insn_opcode w) rs rt rd e)"
  by (simp add: create_def Let_def no_special_word)

lemma extra_special: "f_op w = 0 \<Longrightarrow> insn_extra w = int (f_sa w)"
  by (rule extra_value(3)) (simp add: op_entry_f_op op_entries)

lemma decode_special:
  assumes "f_op w = 0"
  shows
    "f_funct w = 0 \<Longrightarrow> create a w = Inr (new_Instruction (Arith (ShiftInstruction Ishl)) a OP_SLL (f_rs w) (f_rt w) (f_rd w) (int (f_sa w)))"
    "f_funct w = 2 \<Longrightarrow> create a w = Inr (new_Instruction (Arith (ShiftInstruction Iushr)) a OP_SRL (f_rs w) (f_rt w) (f_rd w) (int (f_sa w)))"
    "f_funct w = 3 \<Longrightarrow> create a w = Inr (new_Instruction (Arith (ShiftInstruction Ishr)) a OP_SRA (f_rs w) (f_rt w) (f_rd w) (int (f_sa w)))"
    "f_funct w = 4 \<Longrightarrow> create a w = Inr (new_Instruction (Arith (ShiftInstructionV Ishl)) a OP_SLLV (f_rs w) (f_rt w) (f_rd w) 0)"
    "f_funct w = 6 \<Longrightarrow> create a w = Inr (new_Instruction (Arith (ShiftInstructionV Iushr)) a OP_SRLV (f_rs w) (f_rt w) (f_rd w) 0)"
    "f_funct w = 7 \<Longrightarrow> create a w = Inr (new_Instruction (Arith (ShiftInstructionV Ishr)) a OP_SRAV (f_rs w) (f_rt w) (f_rd w) 0)"
    "f_funct w = 16 \<Longrightarrow> create a w = Inr (new_Instruction (Arith (Mfxx R_HI)) a OP_MFHI R_HI 0 (f_rd w) 0)"
    "f_funct w = 18 \<Longrightarrow> create a w = Inr (new_Instruction (Arith (Mfxx R_LO)) a OP_MFLO R_LO 0 (f_rd w) 0)"
    "f_funct w = 24 \<Longrightarrow> create a w = Inr (new_Instruction (Arith Mult) a OP_MULT (f_rs w) (f_rt w) 0 0)"
    "f_funct w = 25 \<Longrightarrow> create a w = Inr (new_Instruction (Arith (MulDiv ''multu'')) a OP_MULTU (f_rs w) (f_rt w) (f_rd w) (int (f_sa w)))"
    "f_funct w = 26 \<Longrightarrow> create a w = Inr (new_Instruction (Arith Div) a OP_DIV (f_rs w) (f_rt w) 0 0)"
    "f_funct w = 27 \<Longrightarrow> create a w = Inr (new_Instruction (Arith (MulDiv ''divu'')) a OP_DIVU (f_rs w) (f_rt w) (f_rd w) (int (f_sa w)))"
    "f_funct w = 32 \<Longrightarrow> create a w = Inr (new_Instruction (Arith (Rfmt Iadd)) a OP_ADD (f_rs w) (f_rt w) (f_rd w) 0)"
    "f_funct w = 33 \<Longrightarrow> create a w = Inr (new_Instruction (Arith Addu) a OP_ADDU (f_rs w) (f_rt w) (f_rd w) 0)"
    "f_funct w = 34 \<Longrightarrow> create a w = Inr (new_Instruction (Arith (Rfmt Isub)) a OP_SUB (f_rs w) (f_rt w) (f_rd w) 0)"
    "f_funct w = 35 \<Longrightarrow> create a w = Inr (new_Instruction (Arith Subu) a OP_SUBU (f_rs w) (f_rt w) (f_rd w) 0)"
    "f_funct w = 36 \<Longrightarrow> create a w = Inr (new_Instruction (Arith (Rfmt Iand)) a OP_AND (f_rs w) (f_rt w) (f_rd w) 0)"
    "f_funct w = 37 \<Longrightarrow> create a w = Inr (new_Instruction (Arith (Rfmt Ior)) a OP_OR (f_rs w) (f_rt w) (f_rd w) 0)"
    "f_funct w = 38 \<Longrightarrow> create a w = Inr (new_Instruction (Arith (Rfmt Ixor)) a OP_XOR (f_rs w) (f_rt w) (f_rd w) 0)"
    "f_funct w = 39 \<Longrightarrow> create a w = Inr (new_Instruction (Arith Nor) a OP_NOR (f_rs w) (f_rt w) (f_rd w) 0)"
    "f_funct w = 42 \<Longrightarrow> create a w = Inr (new_Instruction (Arith Slt) a OP_SLT (f_rs w) (f_rt w) (f_rd w) 0)"
    "f_funct w = 43 \<Longrightarrow> create a w = Inr (new_Instruction (Arith Sltu) a OP_SLTU (f_rs w) (f_rt w) (f_rd w) 0)"
  using insn_opcode_special [OF assms] assms
  by (subst create_simple, simp, simp add: special_opcodes simple_cases_def Let_def encoding_fields extra_special, simp add: special_opcodes)+

lemma decode_immediate:
  "f_op w = 8 \<Longrightarrow> create a w = Inr (new_Instruction (Arith Addi) a OP_ADDI (f_rs w) (f_rt w) (f_rd w) (sint (f_simm w)))"
  "f_op w = 9 \<Longrightarrow> create a w = Inr (new_Instruction (Arith Addi) a OP_ADDIU (f_rs w) (f_rt w) (f_rd w) (sint (f_simm w)))"
  "f_op w = 10 \<Longrightarrow> create a w = Inr (new_Instruction (Arith Slti) a OP_SLTI (f_rs w) (f_rt w) 0 (sint (f_simm w)))"
  "f_op w = 11 \<Longrightarrow> create a w = Inr (new_Instruction (Arith Sltiu) a OP_SLTIU (f_rs w) (f_rt w) 0 (sint (f_simm w)))"
  "f_op w = 12 \<Longrightarrow> create a w = Inr (new_Instruction (Arith (Ifmt Iand)) a OP_ANDI (f_rs w) (f_rt w) (f_rd w) (sint (f_uimm w)))"
  "f_op w = 13 \<Longrightarrow> create a w = Inr (new_Instruction (Arith (Ifmt Ior)) a OP_ORI (f_rs w) (f_rt w) (f_rd w) (sint (f_uimm w)))"
  "f_op w = 14 \<Longrightarrow> create a w = Inr (new_Instruction (Arith (Ifmt Ixor)) a OP_XORI (f_rs w) (f_rt w) (f_rd w) (sint (f_uimm w)))"
  "f_op w = 15 \<Longrightarrow> create a w = Inr (new_Instruction (Arith Lui) a OP_LUI 0 (f_rt w) 0 (sint (f_simm w)))"
  "f_op w = 32 \<Longrightarrow> create a w = Inr (new_Instruction (Memory Lb) a OP_LB (f_rs w) (f_rt w) 0 (sint (f_simm w)))"
  "f_op w = 33 \<Longrightarrow> create a w = Inr (new_Instruction (Memory Lh) a OP_LH (f_rs w) (f_rt w) 0 (sint (f_simm w)))"
  "f_op w = 35 \<Longrightarrow> create a w = Inr (new_Instruction (Memory Lw) a OP_LW (f_rs w) (f_rt w) 0 (sint (f_simm w)))"
  "f_op w = 36 \<Longrightarrow> create a w = Inr (new_Instruction (Memory Lbu) a OP_LBU (f_rs w) (f_rt w) 0 (sint (f_simm w)))"
  "f_op w = 37 \<Longrightarrow> create a w = Inr (new_Instruction (Memory Lhu) a OP_LHU (f_rs w) (f_rt w) 0 (sint (f_simm w)))"
  "f_op w = 40 \<Longrightarrow> create a w = Inr (new_Instruction (Memory Sb) a OP_SB (f_rs w) (f_rt w) 0 (sint (f_simm w)))"
  "f_op w = 41 \<Longrightarrow> create a w = Inr (new_Instruction (Memory Sh) a OP_SH (f_rs w) (f_rt w) 0 (sint (f_simm w)))"
  "f_op w = 43 \<Longrightarrow> create a w = Inr (new_Instruction (Memory Sw) a OP_SW (f_rs w) (f_rt w) 0 (sint (f_simm w)))"
  using insn_opcode_direct [of w] extra_value(1,2) [of w]
  by (subst create_simple, simp, simp add: op_entry_f_op op_entries mips_zero_extend_opcode_def simple_cases_def Let_def encoding_fields, simp add: op_entries)+

end
