(* ===== verification/Simulation.thy ===== *)
theory Simulation
  imports Decode
begin

text \<open>
  Compiled instructions simulate the reference semantics.  The relation says that the tracked
  registers are in their local variables and that the array is the memory.
\<close>

unbundle bit_operations_syntax

subsection \<open>The simulation relation\<close>

definition sim :: "nat \<Rightarrow> jctx \<Rightarrow> nat set \<Rightarrow> mips \<Rightarrow> jstate \<Rightarrow> bool" where
  "sim lim c V m s \<longleftrightarrow> memory_local (c_alloc c) s \<and> mem_rel lim (mmem m) (jmem s) \<and> V \<subseteq> {1..33} \<and>
     (\<forall>r\<in>V. regIsAllocated (c_alloc c) r \<and> locs s (regToLocal (c_alloc c) r) = VI (regs m r))"

lemma simD:
  assumes "sim lim c V m s"
  shows "memory_local (c_alloc c) s" "mem_rel lim (mmem m) (jmem s)" "ok_alloc (c_alloc c)"
    "r \<in> insert 0 V \<Longrightarrow> readable (c_alloc c) s r" "r \<in> insert 0 V \<Longrightarrow> reg_value (c_alloc c) s r = reg m r"
  using assms by (auto simp: sim_def memory_local_def readable_def reg_value_def reg_def)

definition target :: "jctx \<Rightarrow> nat \<Rightarrow> bool" where
  "target c r \<longleftrightarrow> 1 \<le> r \<and> r \<le> 33 \<and> regIsAllocated (c_alloc c) r"

lemma target_writable: "sim lim c V m s \<Longrightarrow> target c r \<Longrightarrow> writable (c_alloc c) r"
  by (auto dest: simD(3) simp: target_def writable_def)

lemma sim_assign:
  assumes "sim lim c V m s" "target c r"
  shows "sim lim c V (set_reg r v m) (assign (c_alloc c) r v s)"
proof -
  have ok: "ok_alloc (c_alloc c)" "regIsAllocated (c_alloc c) R_MEM" using simD(1,3) [OF assms(1)] by (auto simp: memory_local_def)
  have t: "regIsAllocated (c_alloc c) r" "r \<noteq> R_MEM" using assms(2) by (auto simp: target_def)
  have "locs (assign (c_alloc c) r v s) (regToLocal (c_alloc c) q) =
      (if q = r then VI v else locs s (regToLocal (c_alloc c) q))" if "regIsAllocated (c_alloc c) q" for q
    using regToLocal_inj [OF ok(1) that t(1)] by (simp add: assign_def)
  then show ?thesis using assms(1) ok t by (auto simp: sim_def memory_local_def set_reg_def)
qed

lemma sim_skip: "sim lim c V m s \<Longrightarrow> r \<notin> V \<Longrightarrow> sim lim c V (set_reg r v m) s"
  by (auto simp: sim_def set_reg_def)

lemma sim_store:
  "sim lim c V m s \<Longrightarrow> mem_rel lim mm js \<Longrightarrow> sim lim c V (m\<lparr>mmem := mm\<rparr>) (s\<lparr>jmem := js\<rparr>)"
  by (auto simp: sim_def)

lemma set_reg_fields [simp]: "mmem (set_reg r v m) = mmem m" "regs (set_reg r v m) = (regs m)(r := v)"
  by (simp_all add: set_reg_def)

lemma set_reg_commute: "r \<noteq> q \<Longrightarrow> set_reg r v (set_reg q u m) = set_reg q u (set_reg r v m)"
  by (simp add: set_reg_def fun_upd_twist)

definition simulates :: "nat \<Rightarrow> jctx \<Rightarrow> nat set \<Rightarrow> (string \<Rightarrow> string \<Rightarrow> jstate \<Rightarrow> jout) \<Rightarrow> insn \<Rightarrow> mips \<Rightarrow> jstate \<Rightarrow> bool" where
  "simulates lim c V calls i m' s \<longleftrightarrow> (\<exists>s'. run (cruntime calls) (compile c i) s = Fall s' \<and> sim lim c V m' s' \<and> stk s' = stk s)"

lemma simulates_assign:
  "sim lim c V m s \<Longrightarrow> target c r \<Longrightarrow> run (cruntime calls) (compile c i) s = Fall (assign (c_alloc c) r v s) \<Longrightarrow>
   simulates lim c V calls i (set_reg r v m) s"
  by (auto simp: simulates_def intro: sim_assign)

text \<open>What the instruction reads is tracked or is \<open>R_ZERO\<close>, and what it writes is allocated.\<close>

definition registers_ok :: "jctx \<Rightarrow> nat set \<Rightarrow> insn \<Rightarrow> bool" where
  "registers_ok c V i \<longleftrightarrow> set (sources (class_of (i_kind i)) c i) \<subseteq> V \<union> {R_ZERO, R_MEM} \<and>
     (\<forall>r\<in>set (destinations (class_of (i_kind i)) c i). target c r)"

lemma not_MEM: "f_rs w \<noteq> R_MEM" "f_rt w \<noteq> R_MEM" "f_rd w \<noteq> R_MEM"
proof -
  have "unat (take_bit 5 (x :: u32)) \<noteq> 85" for x
    using take_bit_nat_less_exp [of 5 "unat x"] by (simp add: unsigned_take_bit_eq)
  then show "f_rs w \<noteq> R_MEM" "f_rt w \<noteq> R_MEM" "f_rd w \<noteq> R_MEM" by (simp_all add: f_rs_def f_rt_def f_rd_def)
qed

lemma trapping_SomeD:
  "trapping (+) a b = Some v \<Longrightarrow> v = a + b" "trapping (-) a b = Some v \<Longrightarrow> v = a - b"
  by (auto simp: trapping_def Let_def split: if_splits)

lemma shift_amount: "unat (of_int (int (f_sa w)) AND 31 :: u32) = f_sa w" "unat (of_nat (f_sa w) AND 31 :: u32) = f_sa w"
proof -
  have "f_sa w < 32" by (simp add: f_sa_def unsigned_take_bit_eq take_bit_nat_def)
  then show "unat (of_int (int (f_sa w)) AND 31 :: u32) = f_sa w" "unat (of_nat (f_sa w) AND 31 :: u32) = f_sa w"
    by (simp_all add: and_mask unsigned_take_bit_eq unat_of_nat take_bit_nat_eq_self)
qed

subsection \<open>Instructions on registers\<close>

lemma run_Rfmt_insn:
  "i = new_Instruction (Arith (Rfmt bc)) a opc rs rt rd e \<Longrightarrow> binary bc f \<Longrightarrow> readable (c_alloc c) s rs \<Longrightarrow>
   readable (c_alloc c) s rt \<Longrightarrow> writable (c_alloc c) rd \<Longrightarrow>
   run E (compile c i) s =
    Fall (assign (c_alloc c) rd (f (reg_value (c_alloc c) s rs) (reg_value (c_alloc c) s rt)) s)"
  by (simp add: Rfmt_class_def run_Rfmt)

lemmas arith_class_defs = Rfmt_class_def Addu_class_def Subu_class_def Nor_class_def ShiftInstruction_class_def
  ShiftInstructionV_class_def Ifmt_class_def Addi_class_def Lui_class_def TwoRegisterSetInstruction_class_def
  Slt_class_def Sltu_class_def OneRegisterSetInstruction_class_def Slti_class_def Sltiu_class_def
  MulDiv_class_def Mult_class_def Div_class_def Mfxx_class_def instruction_class_def

lemma registers_three:
  "registers_ok c V (new_Instruction (Arith k) a opc rs rt rd e) \<Longrightarrow>
   k \<in> {Rfmt bc, Addu, Subu, Nor, ShiftInstructionV bc, Slt, Sltu} \<Longrightarrow> rs \<noteq> R_MEM \<Longrightarrow> rt \<noteq> R_MEM \<Longrightarrow>
   rs \<in> insert 0 V \<and> rt \<in> insert 0 V \<and> target c rd"
  by (auto simp: registers_ok_def arith_class_defs)

lemma simulates_three:
  assumes S: "sim lim c V m s" and R: "registers_ok c V i"
    and i: "i = new_Instruction (Arith k) a opc (f_rs w) (f_rt w) (f_rd w) 0"
    and k: "k \<in> {Rfmt bc, Addu, Subu, Nor, ShiftInstructionV bc, Slt, Sltu}"
    and run: "\<And>x y. readable (c_alloc c) s (f_rs w) \<Longrightarrow> readable (c_alloc c) s (f_rt w) \<Longrightarrow> writable (c_alloc c) (f_rd w) \<Longrightarrow>
      f_rd w \<noteq> 0 \<Longrightarrow> x = reg_value (c_alloc c) s (f_rs w) \<Longrightarrow> y = reg_value (c_alloc c) s (f_rt w) \<Longrightarrow>
      run (cruntime calls) (compile c i) s = Fall (assign (c_alloc c) (f_rd w) (f x y) s)"
    and v: "v = f (reg m (f_rs w)) (reg m (f_rt w))"
  shows "simulates lim c V calls i (set_reg (f_rd w) v m) s"
proof -
  have r: "f_rs w \<in> insert 0 V" "f_rt w \<in> insert 0 V" "target c (f_rd w)"
    using registers_three [OF R [unfolded i] k not_MEM(1,2)] by simp_all
  have "f_rd w \<noteq> 0" using r(3) by (simp add: target_def)
  then have "run (cruntime calls) (compile c i) s = Fall (assign (c_alloc c) (f_rd w) v s)"
    using run [OF simD(4) [OF S r(1)] simD(4) [OF S r(2)] target_writable [OF S r(3)] _ refl refl]
    by (simp add: v simD(5) [OF S r(1)] simD(5) [OF S r(2)])
  then show ?thesis using simulates_assign [OF S r(3)] by simp
qed

lemma compile1_arith:
  "compile1 c (new_Instruction (Arith k) a opc rs rt rd e) = Inr (i, marks, b) \<Longrightarrow>
   k \<noteq> Mult \<Longrightarrow> k \<noteq> Div \<Longrightarrow> (\<And>bc. k \<noteq> MulDiv bc) \<Longrightarrow> i = new_Instruction (Arith k) a opc rs rt rd e"
  by (cases k) (auto simp: new_Instruction_def arith_class_defs pass1_true_def Mtxx_class_def)

lemma simulates_binary:
  assumes S: "sim lim c V m s" and R: "registers_ok c V i"
    and D: "create a w = Inr i0" "compile1 c i0 = Inr (i, marks, b)" and op: "f_op w = 0"
    and P: "special_step lim w m = Some m'"
    and f: "f_funct w \<in> {4, 6, 7, 32, 33, 34, 35, 36, 37, 38, 39, 42, 43}"
  shows "simulates lim c V calls i m' s"
proof -
  note P = P [unfolded special_step_def Let_def]
  note d = D(1) decode_special [OF op, of a]
  note T = simulates_three [OF S R, where w = w]
  consider "f_funct w = 4" | "f_funct w = 6" | "f_funct w = 7" | "f_funct w = 32" | "f_funct w = 33" | "f_funct w = 34" | "f_funct w = 35"
    | "f_funct w = 36" | "f_funct w = 37" | "f_funct w = 38" | "f_funct w = 39" | "f_funct w = 42" | "f_funct w = 43"
    using f by auto
  then show ?thesis
  proof cases
    case 1
    have m: "m' = set_reg (f_rd w) ((\<lambda>x y. push_bit (unat (take_bit 5 x)) y) (reg m (f_rs w)) (reg m (f_rt w))) m"
      using P 1 by (auto simp: bind_eq_Some_conv dest: trapping_SomeD)
    have i: "i = new_Instruction (Arith (ShiftInstructionV Ishl)) a OP_SLLV (f_rs w) (f_rt w) (f_rd w) 0"
      using D(2) d 1 by (auto dest!: compile1_arith)
    show ?thesis unfolding m
      by (rule T [OF i, where f = "(\<lambda>x y. push_bit (unat (take_bit 5 x)) y)"]) (simp_all add: i run_ShiftInstructionV [OF refl binary_ops(6)] and_mask del: compile_new)
  next
    case 2
    have m: "m' = set_reg (f_rd w) ((\<lambda>x y. drop_bit (unat (take_bit 5 x)) y) (reg m (f_rs w)) (reg m (f_rt w))) m"
      using P 2 by (auto simp: bind_eq_Some_conv dest: trapping_SomeD)
    have i: "i = new_Instruction (Arith (ShiftInstructionV Iushr)) a OP_SRLV (f_rs w) (f_rt w) (f_rd w) 0"
      using D(2) d 2 by (auto dest!: compile1_arith)
    show ?thesis unfolding m
      by (rule T [OF i, where f = "(\<lambda>x y. drop_bit (unat (take_bit 5 x)) y)"]) (simp_all add: i run_ShiftInstructionV [OF refl binary_ops(8)] and_mask del: compile_new)
  next
    case 3
    have m: "m' = set_reg (f_rd w) ((\<lambda>x y. signed_drop_bit (unat (take_bit 5 x)) y) (reg m (f_rs w)) (reg m (f_rt w))) m"
      using P 3 by (auto simp: bind_eq_Some_conv dest: trapping_SomeD)
    have i: "i = new_Instruction (Arith (ShiftInstructionV Ishr)) a OP_SRAV (f_rs w) (f_rt w) (f_rd w) 0"
      using D(2) d 3 by (auto dest!: compile1_arith)
    show ?thesis unfolding m
      by (rule T [OF i, where f = "(\<lambda>x y. signed_drop_bit (unat (take_bit 5 x)) y)"]) (simp_all add: i run_ShiftInstructionV [OF refl binary_ops(7)] and_mask del: compile_new)
  next
    case 4
    have m: "m' = set_reg (f_rd w) ((+) (reg m (f_rs w)) (reg m (f_rt w))) m"
      using P 4 by (auto simp: bind_eq_Some_conv dest: trapping_SomeD)
    have i: "i = new_Instruction (Arith (Rfmt Iadd)) a OP_ADD (f_rs w) (f_rt w) (f_rd w) 0"
      using D(2) d 4 by (auto dest!: compile1_arith)
    show ?thesis unfolding m
      by (rule T [OF i, where f = "(+)"]) (simp_all add: i run_Rfmt_insn [OF refl binary_ops(1)] and_mask del: compile_new)
  next
    case 5
    have m: "m' = set_reg (f_rd w) ((+) (reg m (f_rs w)) (reg m (f_rt w))) m"
      using P 5 by (auto simp: bind_eq_Some_conv dest: trapping_SomeD)
    have i: "i = new_Instruction (Arith Addu) a OP_ADDU (f_rs w) (f_rt w) (f_rd w) 0"
      using D(2) d 5 by (auto dest!: compile1_arith)
    show ?thesis unfolding m
      by (rule T [OF i, where f = "(+)"]) (simp_all add: i run_Addu [OF refl] and_mask del: compile_new)
  next
    case 6
    have m: "m' = set_reg (f_rd w) ((-) (reg m (f_rs w)) (reg m (f_rt w))) m"
      using P 6 by (auto simp: bind_eq_Some_conv dest: trapping_SomeD)
    have i: "i = new_Instruction (Arith (Rfmt Isub)) a OP_SUB (f_rs w) (f_rt w) (f_rd w) 0"
      using D(2) d 6 by (auto dest!: compile1_arith)
    show ?thesis unfolding m
      by (rule T [OF i, where f = "(-)"]) (simp_all add: i run_Rfmt_insn [OF refl binary_ops(2)] and_mask del: compile_new)
  next
    case 7
    have m: "m' = set_reg (f_rd w) ((-) (reg m (f_rs w)) (reg m (f_rt w))) m"
      using P 7 by (auto simp: bind_eq_Some_conv dest: trapping_SomeD)
    have i: "i = new_Instruction (Arith Subu) a OP_SUBU (f_rs w) (f_rt w) (f_rd w) 0"
      using D(2) d 7 by (auto dest!: compile1_arith)
    show ?thesis unfolding m
      by (rule T [OF i, where f = "(-)"]) (simp_all add: i run_Subu [OF refl] and_mask del: compile_new)
  next
    case 8
    have m: "m' = set_reg (f_rd w) ((AND) (reg m (f_rs w)) (reg m (f_rt w))) m"
      using P 8 by (auto simp: bind_eq_Some_conv dest: trapping_SomeD)
    have i: "i = new_Instruction (Arith (Rfmt Iand)) a OP_AND (f_rs w) (f_rt w) (f_rd w) 0"
      using D(2) d 8 by (auto dest!: compile1_arith)
    show ?thesis unfolding m
      by (rule T [OF i, where f = "(AND)"]) (simp_all add: i run_Rfmt_insn [OF refl binary_ops(3)] and_mask del: compile_new)
  next
    case 9
    have m: "m' = set_reg (f_rd w) ((OR) (reg m (f_rs w)) (reg m (f_rt w))) m"
      using P 9 by (auto simp: bind_eq_Some_conv dest: trapping_SomeD)
    have i: "i = new_Instruction (Arith (Rfmt Ior)) a OP_OR (f_rs w) (f_rt w) (f_rd w) 0"
      using D(2) d 9 by (auto dest!: compile1_arith)
    show ?thesis unfolding m
      by (rule T [OF i, where f = "(OR)"]) (simp_all add: i run_Rfmt_insn [OF refl binary_ops(4)] and_mask del: compile_new)
  next
    case 10
    have m: "m' = set_reg (f_rd w) ((XOR) (reg m (f_rs w)) (reg m (f_rt w))) m"
      using P 10 by (auto simp: bind_eq_Some_conv dest: trapping_SomeD)
    have i: "i = new_Instruction (Arith (Rfmt Ixor)) a OP_XOR (f_rs w) (f_rt w) (f_rd w) 0"
      using D(2) d 10 by (auto dest!: compile1_arith)
    show ?thesis unfolding m
      by (rule T [OF i, where f = "(XOR)"]) (simp_all add: i run_Rfmt_insn [OF refl binary_ops(5)] and_mask del: compile_new)
  next
    case 11
    have m: "m' = set_reg (f_rd w) ((\<lambda>x y. NOT (x OR y)) (reg m (f_rs w)) (reg m (f_rt w))) m"
      using P 11 by (auto simp: bind_eq_Some_conv dest: trapping_SomeD)
    have i: "i = new_Instruction (Arith Nor) a OP_NOR (f_rs w) (f_rt w) (f_rd w) 0"
      using D(2) d 11 by (auto dest!: compile1_arith)
    show ?thesis unfolding m
      by (rule T [OF i, where f = "(\<lambda>x y. NOT (x OR y))"]) (simp_all add: i run_Nor [OF refl] and_mask del: compile_new)
  next
    case 12
    have m: "m' = set_reg (f_rd w) ((\<lambda>x y. bool32 (sint x < sint y)) (reg m (f_rs w)) (reg m (f_rt w))) m"
      using P 12 by (auto simp: bind_eq_Some_conv dest: trapping_SomeD)
    have i: "i = new_Instruction (Arith Slt) a OP_SLT (f_rs w) (f_rt w) (f_rd w) 0"
      using D(2) d 12 by (auto dest!: compile1_arith)
    show ?thesis unfolding m
      by (rule T [OF i, where f = "(\<lambda>x y. bool32 (sint x < sint y))"]) (simp_all add: i run_Slt [OF refl] and_mask del: compile_new)
  next
    case 13
    have m: "m' = set_reg (f_rd w) ((\<lambda>x y. bool32 (x < y)) (reg m (f_rs w)) (reg m (f_rt w))) m"
      using P 13 by (auto simp: bind_eq_Some_conv dest: trapping_SomeD)
    have i: "i = new_Instruction (Arith Sltu) a OP_SLTU (f_rs w) (f_rt w) (f_rd w) 0"
      using D(2) d 13 by (auto dest!: compile1_arith)
    show ?thesis unfolding m
      by (rule T [OF i, where f = "(\<lambda>x y. bool32 (x < y))"]) (simp_all add: i run_Sltu [OF refl] and_mask del: compile_new)
  qed
qed


lemma simulates_shift:
  assumes S: "sim lim c V m s" and R: "registers_ok c V i"
    and D: "create a w = Inr i0" "compile1 c i0 = Inr (i, marks, b)" and op: "f_op w = 0"
    and P: "special_step lim w m = Some m'" and f: "f_funct w \<in> {0, 2, 3}"
  shows "simulates lim c V calls i m' s"
proof -
  note P = P [unfolded special_step_def Let_def]
  note d = D(1) decode_special [OF op, of a]
  obtain bc opc g where k: "binary bc g" "i = new_Instruction (Arith (ShiftInstruction bc)) a opc (f_rs w) (f_rt w) (f_rd w) (int (f_sa w))"
    "m' = set_reg (f_rd w) (g (reg m (f_rt w)) (of_nat (f_sa w))) m"
  proof -
    consider "f_funct w = 0" | "f_funct w = 2" | "f_funct w = 3" using f by auto
    then show thesis
    proof cases
      case 1
      show ?thesis using that [OF binary_ops(6), of OP_SLL] D(2) d P 1 by (auto dest!: compile1_arith simp: shift_amount)
    next
      case 2
      show ?thesis using that [OF binary_ops(8), of OP_SRL] D(2) d P 2 by (auto dest!: compile1_arith simp: shift_amount)
    next
      case 3
      show ?thesis using that [OF binary_ops(7), of OP_SRA] D(2) d P 3 by (auto dest!: compile1_arith simp: shift_amount)
    qed
  qed
  have r: "f_rt w \<in> insert 0 V" "target c (f_rd w)"
    using R not_MEM(2) [of w] by (auto simp: k(2) registers_ok_def arith_class_defs)
  have "f_rd w \<noteq> 0" using r(2) by (simp add: target_def)
  then show ?thesis
    unfolding k(3) using run_ShiftInstruction [OF k(2,1) simD(4) [OF S r(1)] target_writable [OF S r(2)]] simD(5) [OF S r(1)]
    by (intro simulates_assign [OF S r(2)]) simp
qed

lemma compile1_muldiv:
  "compile1 c (new_Instruction (Arith k) a opc rs rt rd e) = Inr (i, marks, b) \<Longrightarrow> k = Mult \<or> k = Div \<or> k = MulDiv bc \<Longrightarrow>
   c_method c a = Some my \<Longrightarrow>
   i = set_using (jm_opcode_used my OP_MFHI \<or> jm_opcode_used my OP_MTHI) True (new_Instruction (Arith k) a opc rs rt rd e)"
  by (auto simp: new_Instruction_def arith_class_defs)

lemma simulates_hi_lo:
  assumes S: "sim lim c V m s" and t: "target c R_LO" "hi \<Longrightarrow> target c R_HI" "hi \<or> R_HI \<notin> V"
    and run: "run (cruntime calls) (compile c i) s =
      Fall (if hi then assign (c_alloc c) R_LO l (assign (c_alloc c) R_HI h s) else assign (c_alloc c) R_LO l s)"
  shows "simulates lim c V calls i (set_hi_lo h l m) s"
proof (cases hi)
  case True
  show ?thesis using sim_assign [OF sim_assign [OF S t(2) [OF True], of h] t(1), of l] run True
    by (simp add: simulates_def set_hi_lo_def HI_def LO_def)
next
  case False
  then have "R_HI \<notin> V" using t(3) by simp
  then have "sim lim c V (set_reg R_LO l (set_reg R_HI h m)) (assign (c_alloc c) R_LO l s)"
    by (rule sim_assign [OF sim_skip [OF S] t(1)])
  then show ?thesis using run False by (simp add: simulates_def set_hi_lo_def HI_def LO_def)
qed

lemma assign_commute:
  "ok_alloc ra \<Longrightarrow> regIsAllocated ra r \<Longrightarrow> regIsAllocated ra q \<Longrightarrow> r \<noteq> q \<Longrightarrow>
   assign ra r v (assign ra q u s) = assign ra q u (assign ra r v s)"
  by (simp add: assign_def regToLocal_inj fun_upd_twist)

lemma simulates_muldiv:
  assumes S: "sim lim c V m s" and R: "registers_ok c V i"
    and D: "create a w = Inr i0" "compile1 c i0 = Inr (i, marks, b)" and op: "f_op w = 0"
    and my: "c_method c a = Some my" "R_HI \<in> V \<Longrightarrow> jm_opcode_used my OP_MFHI \<or> jm_opcode_used my OP_MTHI"
    and P: "special_step lim w m = Some m'" and f: "f_funct w \<in> {24, 25, 26, 27}"
  shows "simulates lim c V calls i m' s"
proof -
  note P = P [unfolded special_step_def Let_def]
  note d = D(1) decode_special [OF op, of a]
  define hi where "hi \<longleftrightarrow> jm_opcode_used my OP_MFHI \<or> jm_opcode_used my OP_MTHI"
  have V: "hi \<or> R_HI \<notin> V" using my(2) by (auto simp: hi_def)
  obtain k opc rd e where i: "i = set_using hi True (new_Instruction (Arith k) a opc (f_rs w) (f_rt w) rd e)"
    and k: "f_funct w = 24 \<and> k = Mult \<or> f_funct w = 25 \<and> k = MulDiv ''multu'' \<or> f_funct w = 26 \<and> k = Div \<or>
      f_funct w = 27 \<and> k = MulDiv ''divu''"
  proof -
    consider "f_funct w = 24" | "f_funct w = 25" | "f_funct w = 26" | "f_funct w = 27" using f by auto
    then show thesis
    proof cases
      case 1
      show ?thesis using D(2) d 1 by (intro that [of Mult OP_MULT]) (auto dest!: compile1_muldiv [OF _ _ my(1)] simp: hi_def)
    next
      case 2
      show ?thesis using D(2) d 2 by (intro that [of "MulDiv ''multu''" OP_MULTU]) (auto dest!: compile1_muldiv [OF _ _ my(1)] simp: hi_def)
    next
      case 3
      show ?thesis using D(2) d 3 by (intro that [of Div OP_DIV]) (auto dest!: compile1_muldiv [OF _ _ my(1)] simp: hi_def)
    next
      case 4
      show ?thesis using D(2) d 4 by (intro that [of "MulDiv ''divu''" OP_DIVU]) (auto dest!: compile1_muldiv [OF _ _ my(1)] simp: hi_def)
    qed
  qed
  have r: "f_rs w \<in> insert 0 V" "f_rt w \<in> insert 0 V" "target c R_LO" "hi \<or> k = MulDiv bc \<Longrightarrow> target c R_HI" for bc
    using R k not_MEM(1,2) [of w] by (auto simp: i registers_ok_def arith_class_defs split: if_splits)
  note rd = simD(4) [OF S r(1)] simD(4) [OF S r(2)] target_writable [OF S r(3)]
  note rv = simD(5) [OF S r(1)] simD(5) [OF S r(2)]
  note wr = target_writable [OF S r(4)]
  have al: "regIsAllocated (c_alloc c) R_LO" "hi \<Longrightarrow> regIsAllocated (c_alloc c) R_HI" using r(3,4) by (auto simp: target_def)
  from k show ?thesis
  proof (elim disjE conjE)
    assume c: "f_funct w = 24" "k = Mult"
    show ?thesis using P c by (auto intro!: simulates_hi_lo [OF S r(3,4) V] simp: run_Mult [OF i [unfolded c] rd wr] rv Let_def)
  next
    assume c: "f_funct w = 25" "k = MulDiv ''multu''"
    have w: "writable (c_alloc c) R_HI" "target c R_HI" using wr [of "''multu''"] r(4) [of "''multu''"] by (simp_all add: c)
    show ?thesis using P c w(2)
      by (auto intro!: simulates_hi_lo [OF S r(3), where hi = True] simp: run_multu [OF i [unfolded c] rd w(1)] rv Let_def)
  next
    assume c: "f_funct w = 26" "k = Div"
    show ?thesis using P c
      by (auto intro!: simulates_hi_lo [OF S r(3,4) V] simp: run_Div [OF i [unfolded c] rd wr] rv Let_def
          assign_commute [OF simD(3) [OF S] al(2,1)] split: if_splits)
  next
    assume c: "f_funct w = 27" "k = MulDiv ''divu''"
    have w: "writable (c_alloc c) R_HI" "target c R_HI" using wr [of "''divu''"] r(4) [of "''divu''"] by (simp_all add: c)
    show ?thesis using P c w(2)
      by (auto intro!: simulates_hi_lo [OF S r(3), where hi = True] simp: run_divu [OF i [unfolded c] rd w(1)] rv Let_def
          split: if_splits)
  qed
qed


lemma simulates_mfxx:
  assumes S: "sim lim c V m s" and R: "registers_ok c V i"
    and D: "create a w = Inr i0" "compile1 c i0 = Inr (i, marks, b)" and op: "f_op w = 0"
    and P: "special_step lim w m = Some m'" and f: "f_funct w \<in> {16, 18}"
  shows "simulates lim c V calls i m' s"
proof -
  note P = P [unfolded special_step_def Let_def]
  note d = D(1) decode_special [OF op, of a]
  obtain src opc where k: "i = new_Instruction (Arith (Mfxx src)) a opc src R_ZERO (f_rd w) 0" "src = HI \<or> src = LO"
    "m' = set_reg (f_rd w) (reg m src) m"
    using f P D(2) d by (auto dest!: compile1_arith simp: HI_def LO_def)
  have r: "src \<in> insert 0 V" "target c (f_rd w)"
    using R k(2) by (auto simp: k(1) registers_ok_def arith_class_defs HI_def LO_def)
  show ?thesis
    unfolding k(3) using run_Mfxx [OF k(1) simD(4) [OF S r(1)] target_writable [OF S r(2)]] simD(5) [OF S r(1)]
    by (intro simulates_assign [OF S r(2)]) simp
qed

lemma simulates_special:
  assumes S: "sim lim c V m s" and R: "registers_ok c V i"
    and D: "create a w = Inr i0" "compile1 c i0 = Inr (i, marks, b)" and op: "f_op w = 0"
    and my: "c_method c a = Some my" "R_HI \<in> V \<Longrightarrow> jm_opcode_used my OP_MFHI \<or> jm_opcode_used my OP_MTHI"
    and P: "special_step lim w m = Some m'" and f: "f_funct w \<notin> {17, 19}"
  shows "simulates lim c V calls i m' s"
proof -
  have "f_funct w \<in> {0, 2, 3} \<or> f_funct w \<in> {4, 6, 7, 32, 33, 34, 35, 36, 37, 38, 39, 42, 43} \<or>
      f_funct w \<in> {16, 18} \<or> f_funct w \<in> {24, 25, 26, 27}"
    using P f by (simp add: special_step_def Let_def split: if_splits)
  then show ?thesis
    using simulates_shift [OF S R D op P] simulates_binary [OF S R D op P] simulates_mfxx [OF S R D op P]
      simulates_muldiv [OF S R D op my P] by blast
qed

subsection \<open>Instructions with an immediate\<close>

lemma simm_range: "-32768 \<le> sint (f_simm w)" "sint (f_simm w) < 32768"
proof -
  have "sint (f_simm w) = signed_take_bit 15 (sint w)"
    unfolding f_simm_def by (rule bit_eqI) (simp add: bit_simps min_def)
  then show "-32768 \<le> sint (f_simm w)" "sint (f_simm w) < 32768"
    using signed_take_bit_int_greater_eq_minus_exp [of 15 "sint w"] signed_take_bit_int_less_exp [of 15 "sint w"] by simp_all
qed

lemma signext_simm: "signext_16 (f_simm w) = sint (f_simm w)"
proof -
  have "(if bit (take_bit 16 (f_simm w)) 15 then take_bit 16 (f_simm w) OR 0xffff0000 else take_bit 16 (f_simm w)) = f_simm w"
    by (rule bit_word_eqI, simp only: if_distrib [of "\<lambda>x. bit x _"] bit_or_iff bit_hi16)
      (auto simp: bit_simps f_simm_def min_def not_less le_less)
  then show ?thesis by (simp add: signext_16_def Let_def)
qed

lemma simulates_immediate:
  assumes S: "sim lim c V m s" and R: "registers_ok c V i"
    and D: "create a w = Inr i0" "compile1 c i0 = Inr (i, marks, b)"
    and P: "mips_step lim w m = Some m'" and f: "f_op w \<in> {8, 9, 10, 11, 12, 13, 14, 15}"
  shows "simulates lim c V calls i m' s"
proof -
  note P = P [unfolded mips_step_def Let_def]
  note d = D(1) decode_immediate [of w a]
  consider "f_op w = 8" | "f_op w = 9" | "f_op w = 10" | "f_op w = 11" | "f_op w = 12" | "f_op w = 13" | "f_op w = 14" | "f_op w = 15"
    using f by auto
  then obtain k opc rs rd e where i: "i = new_Instruction (Arith k) a opc rs (f_rt w) rd e"
    and k: "k = Addi \<and> rs = f_rs w \<and> e = sint (f_simm w) \<and> m' = set_reg (f_rt w) (reg m (f_rs w) + f_simm w) m \<or>
      k = Slti \<and> rs = f_rs w \<and> e = sint (f_simm w) \<and> m' = set_reg (f_rt w) (bool32 (sint (reg m (f_rs w)) < sint (f_simm w))) m \<or>
      k = Sltiu \<and> rs = f_rs w \<and> e = sint (f_simm w) \<and> m' = set_reg (f_rt w) (bool32 (reg m (f_rs w) < f_simm w)) m \<or>
      k = Ifmt Iand \<and> rs = f_rs w \<and> e = sint (f_uimm w) \<and> m' = set_reg (f_rt w) (reg m (f_rs w) AND f_uimm w) m \<or>
      k = Ifmt Ior \<and> rs = f_rs w \<and> e = sint (f_uimm w) \<and> m' = set_reg (f_rt w) (reg m (f_rs w) OR f_uimm w) m \<or>
      k = Ifmt Ixor \<and> rs = f_rs w \<and> e = sint (f_uimm w) \<and> m' = set_reg (f_rt w) (reg m (f_rs w) XOR f_uimm w) m \<or>
      k = Lui \<and> rs = R_ZERO \<and> e = sint (f_simm w) \<and> m' = set_reg (f_rt w) (push_bit 16 (f_uimm w)) m"
  proof cases
    case 1
    show ?thesis using D(2) d P 1 by (intro that [of Addi OP_ADDI]) (auto dest!: compile1_arith simp: bind_eq_Some_conv dest: trapping_SomeD)
  next
    case 2
    show ?thesis using D(2) d P 2 by (intro that [of Addi OP_ADDIU]) (auto dest!: compile1_arith)
  next
    case 3
    show ?thesis using D(2) d P 3 by (intro that [of Slti OP_SLTI]) (auto dest!: compile1_arith)
  next
    case 4
    show ?thesis using D(2) d P 4 by (intro that [of Sltiu OP_SLTIU]) (auto dest!: compile1_arith)
  next
    case 5
    show ?thesis using D(2) d P 5 by (intro that [of "Ifmt Iand" OP_ANDI]) (auto dest!: compile1_arith)
  next
    case 6
    show ?thesis using D(2) d P 6 by (intro that [of "Ifmt Ior" OP_ORI]) (auto dest!: compile1_arith)
  next
    case 7
    show ?thesis using D(2) d P 7 by (intro that [of "Ifmt Ixor" OP_XORI]) (auto dest!: compile1_arith)
  next
    case 8
    show ?thesis using D(2) d P 8 by (intro that [of Lui OP_LUI]) (auto dest!: compile1_arith)
  qed
  have t: "target c (f_rt w)" using R k by (auto simp: i registers_ok_def arith_class_defs)
  have n: "f_rt w \<noteq> 0" using t by (simp add: target_def)
  have r: "rs \<in> insert 0 V" using R k not_MEM(1) [of w] by (auto simp: i registers_ok_def arith_class_defs)
  note rd = simD(4) [OF S r] and wr = target_writable [OF S t] and rv = simD(5) [OF S r]
  have u: "f_uimm w = take_bit 16 (f_simm w)"
  proof (rule bit_word_eqI)
    fix n :: nat
    consider "n < 15" | "n = 15" | "16 \<le> n" by linarith
    then show "bit (f_uimm w) n = bit (take_bit 16 (f_simm w)) n"
      by cases (simp_all add: f_uimm_def f_simm_def bit_simps min_def)
  qed
  have "\<exists>v. m' = set_reg (f_rt w) v m \<and> run (cruntime calls) (compile c i) s = Fall (assign (c_alloc c) (f_rt w) v s)"
    using k
    by (elim disjE conjE; use i rv rd wr n in \<open>force simp: run_Addi [OF refl] run_Slti [OF refl] run_Sltiu [OF refl]
      run_Ifmt [OF refl binary_ops(3)] run_Ifmt [OF refl binary_ops(4)] run_Ifmt [OF refl binary_ops(5)]
      run_Lui [OF refl] signext_simm u and_mask simp del: compile_new\<close>)
  then show ?thesis using simulates_assign [OF S t] by blast
qed

end
