(* ===== verification/Translate.thy ===== *)
theory Translate
  imports Simulation
begin

text \<open>
  The translation of one instruction, of a block and of a branch with its delay slot simulates the
  reference semantics.
\<close>

unbundle bit_operations_syntax

subsection \<open>Loads and stores\<close>

lemma compile1_memory:
  "compile1 c (new_Instruction (Memory k) a opc rs rt rd e) = Inr (i, marks, b) \<Longrightarrow>
   k \<in> {Lw, Lb, Lbu, Lh, Lhu, Sw, Sb, Sh} \<Longrightarrow> i = new_Instruction (Memory k) a opc rs rt rd e \<and> c_method c a \<noteq> None"
  by (auto simp: new_Instruction_def Lw_class_def Lb_class_def Lbu_class_def Lh_class_def Lhu_class_def Sw_class_def
      Sb_class_def Sh_class_def PartialLoad_class_def PartialStore_class_def LoadXX_class_def StoreXX_class_def
      MemoryXX_class_def split: option.splits)

lemma registers_memory:
  "registers_ok c V (new_Instruction (Memory k) a opc rs rt rd e) \<Longrightarrow> rs \<noteq> R_MEM \<Longrightarrow> rt \<noteq> R_MEM \<Longrightarrow>
   (k \<in> {Lw, Lb, Lbu, Lh, Lhu} \<longrightarrow> rs \<in> insert 0 V \<and> target c rt) \<and>
   (k \<in> {Sw, Sb, Sh} \<longrightarrow> rs \<in> insert 0 V \<and> rt \<in> insert 0 V)"
  by (auto simp: registers_ok_def Lw_class_def Lb_class_def Lbu_class_def Lh_class_def Lhu_class_def Sw_class_def
      Sb_class_def Sh_class_def PartialLoad_class_def PartialStore_class_def LoadXX_class_def StoreXX_class_def
      MemoryXX_class_def split: if_splits)

lemma simulates_load:
  assumes S: "sim lim c V m s" and i: "i = new_Instruction (Memory k) adr opc (f_rs w) (f_rt w) rd (sint (f_simm w))"
    and r: "f_rs w \<in> insert 0 V" "target c (f_rt w)" and c: "inlinable c adr"
    and a: "a = reg m (f_rs w) + f_simm w" "mapped lim a" "0 \<le> sint (reg m (f_rs w))" and rt: "f_rt w \<noteq> R_RA"
    and v: "k = Lw \<and> a AND 3 = 0 \<and> v = load32 (mmem m) a \<or> k = Lbu \<and> v = ucast (mmem m a) \<or>
      k = Lb \<and> v = signed_take_bit 7 (ucast (mmem m a)) \<or> k = Lhu \<and> a AND 1 = 0 \<and> v = load16 (mmem m) a \<or>
      k = Lh \<and> a AND 1 = 0 \<and> v = signed_take_bit 15 (load16 (mmem m) a)"
  shows "simulates lim c V calls i (set_reg (f_rt w) v m) s"
proof -
  have A: "addressing (c_alloc c) lim (mmem m) s (f_rs w) (sint (f_simm w)) a"
    using simD(1,2) [OF S] simD(4,5) [OF S r(1)] a simm_range [of w] by (simp add: addressing_def)
  note wr = target_writable [OF S r(2)]
  show ?thesis
    using v i run_Lw [OF _ A _ wr rt, of i adr opc rd] run_bytes [OF i A wr rt c] by (intro simulates_assign [OF S r(2)]) auto
qed

lemma simulates_store:
  assumes S: "sim lim c V m s" and i: "i = new_Instruction (Memory k) adr opc (f_rs w) (f_rt w) rd (sint (f_simm w))"
    and r: "f_rs w \<in> insert 0 V" "f_rt w \<in> insert 0 V" and c: "inlinable c adr"
    and a: "a = reg m (f_rs w) + f_simm w" "mapped lim a" "0 \<le> sint (reg m (f_rs w))" and rt: "f_rt w \<noteq> R_RA"
    and v: "k = Sw \<and> a AND 3 = 0 \<and> mm = store32 (mmem m) a (reg m (f_rt w)) \<or>
      k = Sb \<and> mm = (mmem m)(a := ucast (reg m (f_rt w))) \<or>
      k = Sh \<and> a AND 1 = 0 \<and> mm = (mmem m)(a := ucast (drop_bit 8 (reg m (f_rt w))), a + 1 := ucast (reg m (f_rt w)))"
  shows "simulates lim c V calls i (m\<lparr>mmem := mm\<rparr>) s"
proof -
  have A: "addressing (c_alloc c) lim (mmem m) s (f_rs w) (sint (f_simm w)) a"
    using simD(1,2) [OF S] simD(4,5) [OF S r(1)] a simm_range [of w] by (simp add: addressing_def)
  note rd = simD(4) [OF S r(2)] and rv = simD(5) [OF S r(2)]
  have tr: "\<not> traceStores (c_config c)" using c by (simp add: inlinable_def)
  have "\<exists>js. run (cruntime calls) (compile c i) s = Fall (s\<lparr>jmem := js\<rparr>) \<and> mem_rel lim mm js"
    using v i run_Sw [OF _ A _ rd rt tr, of i adr opc] run_store_bytes [OF i A rd rt c refl] by (auto simp: rv)
  then show ?thesis using sim_store [OF S] by (fastforce simp: simulates_def)
qed

lemma simulates_memory:
  assumes S: "sim lim c V m s" and R: "registers_ok c V i"
    and D: "create a w = Inr i0" "compile1 c i0 = Inr (i, marks, b)"
    and P: "mips_step lim w m = Some m'" and f: "32 \<le> f_op w"
    and c: "\<not> optimizePartialMemoryOps (c_config c)" "\<not> traceStores (c_config c)"
    and base: "0 \<le> sint (reg m (f_rs w))" and rt: "f_rt w \<noteq> R_RA"
  shows "simulates lim c V calls i m' s"
proof -
  note P = P [unfolded mips_step_def Let_def]
  note d = D(1) decode_immediate [of w a]
  let ?a = "reg m (f_rs w) + f_simm w"
  have ma: "mapped lim ?a" using P f by (auto split: if_splits)
  have ops: "f_op w \<in> {32, 33, 35, 36, 37, 40, 41, 43}" using P f by (auto split: if_splits)
  have "\<exists>k opc. i0 = new_Instruction (Memory k) a opc (f_rs w) (f_rt w) R_ZERO (sint (f_simm w)) \<and> k \<in> {Lw, Lb, Lbu, Lh, Lhu, Sw, Sb, Sh} \<and>
      (f_op w = 32 \<and> k = Lb \<or> f_op w = 33 \<and> k = Lh \<or> f_op w = 35 \<and> k = Lw \<or> f_op w = 36 \<and> k = Lbu \<or>
       f_op w = 37 \<and> k = Lhu \<or> f_op w = 40 \<and> k = Sb \<or> f_op w = 41 \<and> k = Sh \<or> f_op w = 43 \<and> k = Sw)"
  proof -
    consider "f_op w = 32" | "f_op w = 33" | "f_op w = 35" | "f_op w = 36" | "f_op w = 37" | "f_op w = 40" | "f_op w = 41" | "f_op w = 43"
      using ops by auto
    then show ?thesis
    proof cases
      case 1
      show ?thesis using d(1) decode_immediate(9) [OF 1, of a] 1 by (intro exI [of _ Lb] exI [of _ OP_LB]) simp
    next
      case 2
      show ?thesis using d(1) decode_immediate(10) [OF 2, of a] 2 by (intro exI [of _ Lh] exI [of _ OP_LH]) simp
    next
      case 3
      show ?thesis using d(1) decode_immediate(11) [OF 3, of a] 3 by (intro exI [of _ Lw] exI [of _ OP_LW]) simp
    next
      case 4
      show ?thesis using d(1) decode_immediate(12) [OF 4, of a] 4 by (intro exI [of _ Lbu] exI [of _ OP_LBU]) simp
    next
      case 5
      show ?thesis using d(1) decode_immediate(13) [OF 5, of a] 5 by (intro exI [of _ Lhu] exI [of _ OP_LHU]) simp
    next
      case 6
      show ?thesis using d(1) decode_immediate(14) [OF 6, of a] 6 by (intro exI [of _ Sb] exI [of _ OP_SB]) simp
    next
      case 7
      show ?thesis using d(1) decode_immediate(15) [OF 7, of a] 7 by (intro exI [of _ Sh] exI [of _ OP_SH]) simp
    next
      case 8
      show ?thesis using d(1) decode_immediate(16) [OF 8, of a] 8 by (intro exI [of _ Sw] exI [of _ OP_SW]) simp
    qed
  qed
  then obtain k opc where i0: "i0 = new_Instruction (Memory k) a opc (f_rs w) (f_rt w) R_ZERO (sint (f_simm w))"
    and k: "k \<in> {Lw, Lb, Lbu, Lh, Lhu, Sw, Sb, Sh}"
    and o: "f_op w = 32 \<and> k = Lb \<or> f_op w = 33 \<and> k = Lh \<or> f_op w = 35 \<and> k = Lw \<or> f_op w = 36 \<and> k = Lbu \<or>
       f_op w = 37 \<and> k = Lhu \<or> f_op w = 40 \<and> k = Sb \<or> f_op w = 41 \<and> k = Sh \<or> f_op w = 43 \<and> k = Sw" by blast
  have i: "i = new_Instruction (Memory k) a opc (f_rs w) (f_rt w) R_ZERO (sint (f_simm w))" "inlinable c a"
    using compile1_memory [OF D(2) [unfolded i0] k] c by (simp_all add: inlinable_def)
  have r: "(k \<in> {Lw, Lb, Lbu, Lh, Lhu} \<longrightarrow> f_rs w \<in> insert 0 V \<and> target c (f_rt w)) \<and>
   (k \<in> {Sw, Sb, Sh} \<longrightarrow> f_rs w \<in> insert 0 V \<and> f_rt w \<in> insert 0 V)"
    by (rule registers_memory [OF R [unfolded i(1)] not_MEM(1,2)])
  show ?thesis
  proof (cases "k \<in> {Sw, Sb, Sh}")
    case True
    then have "\<exists>mm. m' = m\<lparr>mmem := mm\<rparr> \<and> (k = Sw \<and> ?a AND 3 = 0 \<and> mm = store32 (mmem m) ?a (reg m (f_rt w)) \<or>
      k = Sb \<and> mm = (mmem m)(?a := ucast (reg m (f_rt w))) \<or>
      k = Sh \<and> ?a AND 1 = 0 \<and> mm = (mmem m)(?a := ucast (drop_bit 8 (reg m (f_rt w))), ?a + 1 := ucast (reg m (f_rt w))))"
      using o P by (auto split: if_splits)
    then show ?thesis using r True simulates_store [OF S i(1) _ _ i(2) refl ma base rt] by blast
  next
    case False
    then have "\<exists>v. m' = set_reg (f_rt w) v m \<and> (k = Lw \<and> ?a AND 3 = 0 \<and> v = load32 (mmem m) ?a \<or> k = Lbu \<and> v = ucast (mmem m ?a) \<or>
      k = Lb \<and> v = signed_take_bit 7 (ucast (mmem m ?a)) \<or> k = Lhu \<and> ?a AND 1 = 0 \<and> v = load16 (mmem m) ?a \<or>
      k = Lh \<and> ?a AND 1 = 0 \<and> v = signed_take_bit 15 (load16 (mmem m) ?a))"
      using o P by (auto split: if_splits)
    then show ?thesis using r False k simulates_load [OF S i(1) _ _ i(2) refl ma base rt] by blast
  qed
qed

subsection \<open>One instruction\<close>

text \<open>What the translator must know of the instruction at an address: it decodes, its registers are
  allocated, and the method it is in.\<close>

definition translated :: "jctx \<Rightarrow> nat set \<Rightarrow> u32 \<Rightarrow> u32 \<Rightarrow> insn \<Rightarrow> bool" where
  "translated c V a w i \<longleftrightarrow> (\<exists>i0 marks my.
     create a w = Inr i0 \<and> compile1 c i0 = Inr (i, marks, True) \<and> (w = 0 \<or> registers_ok c V i) \<and>
     c_method c a = Some my \<and> (R_HI \<in> V \<longrightarrow> jm_opcode_used my OP_MFHI \<or> jm_opcode_used my OP_MTHI) \<and>
     \<not> optimizePartialMemoryOps (c_config c) \<and> \<not> traceStores (c_config c) \<and>
     \<not> (f_op w = 0 \<and> f_funct w \<in> {17, 19}) \<and> \<not> (32 \<le> f_op w \<and> f_rt w = R_RA))"

text \<open>The base register of a load or store is no address of the upper half.\<close>

definition low_base :: "u32 \<Rightarrow> mips \<Rightarrow> bool" where
  "low_base w m \<longleftrightarrow> (32 \<le> f_op w \<longrightarrow> 0 \<le> sint (reg m (f_rs w)))"

lemma simulates_nop:
  assumes S: "sim lim c V m s" and D: "create a 0 = Inr i0" "compile1 c i0 = Inr (i, marks, b)" and P: "mips_step lim 0 m = Some m'"
  shows "simulates lim c V calls i m' s"
proof -
  have z: "f_op 0 = 0" "f_funct 0 = 0" "f_rs 0 = 0" "f_rt 0 = 0" "f_rd 0 = 0" "f_sa 0 = 0"
    by (simp_all add: f_op_def f_funct_def f_rs_def f_rt_def f_rd_def f_sa_def)
  have m: "m' = set_reg 0 0 m" using P by (simp add: mips_step_def special_step_def Let_def z reg_def)
  have "i = new_Instruction (Arith (ShiftInstruction Ishl)) a OP_SLL R_ZERO R_ZERO R_ZERO 0"
    using D decode_special(1) [of 0 a, OF z(1,2)] by (auto dest!: compile1_arith simp: z)
  moreover have "0 \<notin> V" using S by (auto simp: sim_def)
  ultimately show ?thesis using sim_skip [OF S, of 0 0] by (simp add: simulates_def m ShiftInstruction_class_def)
qed

lemma step_simulates:
  assumes S: "sim lim c V m s" and P: "mips_step lim w m = Some m'" and T: "translated c V a w i" and B: "low_base w m"
  shows "simulates lim c V calls i m' s"
proof -
  obtain i0 marks my where D: "create a w = Inr i0" "compile1 c i0 = Inr (i, marks, True)"
    and R: "w = 0 \<or> registers_ok c V i" and my: "c_method c a = Some my"
      "R_HI \<in> V \<longrightarrow> jm_opcode_used my OP_MFHI \<or> jm_opcode_used my OP_MTHI"
    and c: "\<not> optimizePartialMemoryOps (c_config c)" "\<not> traceStores (c_config c)"
    and n: "\<not> (f_op w = 0 \<and> f_funct w \<in> {17, 19})" "\<not> (32 \<le> f_op w \<and> f_rt w = R_RA)"
    using T by (auto simp: translated_def)
  show ?thesis
  proof (cases "w = 0")
    case True
    then show ?thesis using simulates_nop [OF S] D P by simp
  next
    case False
    then have R: "registers_ok c V i" using R by simp
    have "f_op w = 0 \<or> f_op w \<in> {8, 9, 10, 11, 12, 13, 14, 15} \<or> 32 \<le> f_op w"
      using P by (simp add: mips_step_def Let_def split: if_splits)
    then show ?thesis
    proof (elim disjE)
      assume op: "f_op w = 0"
      show ?thesis
      proof (rule simulates_special [OF S R D op my(1)])
        show "special_step lim w m = Some m'" using P op by (simp add: mips_step_def)
      qed (use my(2) n(1) op in auto)
    next
      assume "f_op w \<in> {8, 9, 10, 11, 12, 13, 14, 15}"
      then show ?thesis by (rule simulates_immediate [OF S R D P])
    next
      assume op: "32 \<le> f_op w"
      show ?thesis by (rule simulates_memory [OF S R D P op c]) (use B n(2) op in \<open>auto simp: low_base_def\<close>)
    qed
  qed
qed

subsection \<open>A block of instructions\<close>

primrec mips_block :: "nat \<Rightarrow> u32 list \<Rightarrow> mips \<Rightarrow> mips option" where
  "mips_block lim [] m = Some m"
| "mips_block lim (w # ws) m = (if low_base w m then Option.bind (mips_step lim w m) (mips_block lim ws) else None)"

fun translated_block :: "jctx \<Rightarrow> nat set \<Rightarrow> u32 \<Rightarrow> u32 list \<Rightarrow> insn list \<Rightarrow> bool" where
  "translated_block c V a [] is \<longleftrightarrow> is = []"
| "translated_block c V a (w # ws) [] \<longleftrightarrow> False"
| "translated_block c V a (w # ws) (i # is) \<longleftrightarrow> translated c V a w i \<and> translated_block c V (a + 4) ws is"

lemma run_seq_Cons: "run E (seq (e # es)) s = run E (andthen e (seq es)) s"
  by (cases es) (auto simp: run_def exec_append split: sum.splits jout.splits)

lemma block_simulates:
  assumes "sim lim c V m s" "mips_block lim ws m = Some m'" "translated_block c V a ws is"
  shows "\<exists>s'. run (cruntime calls) (seq (map (compile c) is)) s = Fall s' \<and> sim lim c V m' s' \<and> stk s' = stk s"
  using assms
proof (induction ws arbitrary: a "is" m s)
  case Nil
  then show ?case by simp
next
  case (Cons w ws)
  then obtain i js where i: "is = i # js" "translated c V a w i" "translated_block c V (a + 4) ws js"
    by (cases "is") auto
  obtain m1 where m1: "low_base w m" "mips_step lim w m = Some m1" "mips_block lim ws m1 = Some m'"
    using Cons.prems(2) by (auto simp: bind_eq_Some_conv split: if_splits)
  obtain s1 where s1: "run (cruntime calls) (compile c i) s = Fall s1" "sim lim c V m1 s1" "stk s1 = stk s"
    using step_simulates [OF Cons.prems(1) m1(2) i(2) m1(1)] by (auto simp: simulates_def)
  then show ?case using Cons.IH [OF s1(2) m1(3) i(3)] by (auto simp: i(1) run_seq_Cons simp del: seq.simps)
qed

subsection \<open>Branches and their delay slots\<close>

text \<open>The conditional branches of the architecture: the condition on the registers before the delay slot.\<close>

definition mips_branch :: "u32 \<Rightarrow> mips \<Rightarrow> bool option" where
  "mips_branch w m =
     (let s = reg m (f_rs w); t = reg m (f_rt w); opc = f_op w
      in if opc = 4 then Some (s = t)
         else if opc = 5 then Some (s \<noteq> t)
         else if opc = 6 then Some (sint s \<le> 0)
         else if opc = 7 then Some (0 < sint s)
         else if opc = 1 \<and> f_rt w = 0 then Some (sint s < 0)
         else if opc = 1 \<and> f_rt w = 1 then Some (0 \<le> sint s)
         else None)"

definition mips_target :: "u32 \<Rightarrow> u32 \<Rightarrow> u32" where
  "mips_target a w = a + 4 + push_bit 2 (f_simm w)"

lemma branch_entries:
  "mips_op_entries ! 1 = \<lparr>op_type = BCOND, op_fmt = IFMT\<rparr>" "mips_op_entries ! 4 = \<lparr>op_type = OP_BEQ, op_fmt = IFMT\<rparr>"
  "mips_op_entries ! 5 = \<lparr>op_type = OP_BNE, op_fmt = IFMT\<rparr>" "mips_op_entries ! 6 = \<lparr>op_type = OP_BLEZ, op_fmt = IFMT\<rparr>"
  "mips_op_entries ! 7 = \<lparr>op_type = OP_BGTZ, op_fmt = IFMT\<rparr>"
  by code_simp+

lemma branch_entry_1: "mips_op_entries ! Suc 0 = \<lparr>op_type = BCOND, op_fmt = IFMT\<rparr>"
  using branch_entries(1) by simp

lemma bcond_field: "w AND 0x1f0000 = push_bit 16 (of_nat (f_rt w) :: u32)"
proof -
  have e: "(0x1f0000 :: u32) = push_bit 16 0x1f" by simp
  have b: "bit (0x1f :: u32) n \<longleftrightarrow> n < 5" for n
    using bit_mask_iff [of 5 n, where 'a = u32] by (auto simp: mask_eq_exp_minus_1)
  have "(of_nat (f_rt w) :: u32) = take_bit 5 (drop_bit 16 w)" by (simp add: f_rt_def)
  then show ?thesis
    by (intro bit_word_eqI) (simp only: e bit_and_iff bit_push_bit_iff b bit_take_bit_iff bit_drop_bit_eq comp_def, auto)
qed

lemma decode_branch:
  "f_op w = 4 \<Longrightarrow> create a w = Inr (new_Instruction (Jumping (if f_rt w = 0 then OneRegisterConditionalJump Ifeq
     else TwoRegisterConditionalJump If_icmpeq)) a OP_BEQ (f_rs w) (f_rt w) R_ZERO (sint (f_simm w)))"
  "f_op w = 5 \<Longrightarrow> create a w = Inr (new_Instruction (Jumping (if f_rt w = 0 then OneRegisterConditionalJump Ifne
     else TwoRegisterConditionalJump If_icmpne)) a OP_BNE (f_rs w) (f_rt w) R_ZERO (sint (f_simm w)))"
  "f_op w = 6 \<Longrightarrow> create a w = Inr (new_Instruction (Jumping (OneRegisterConditionalJump Ifle)) a OP_BLEZ (f_rs w) R_ZERO R_ZERO (sint (f_simm w)))"
  "f_op w = 7 \<Longrightarrow> create a w = Inr (new_Instruction (Jumping (OneRegisterConditionalJump Ifgt)) a OP_BGTZ (f_rs w) R_ZERO R_ZERO (sint (f_simm w)))"
  using insn_opcode_direct [of w] extra_value(1) [of w]
  by (subst create_simple, simp, simp add: op_entry_f_op branch_entries mips_zero_extend_opcode_def simple_cases_def Let_def encoding_fields, simp add: branch_entries)+

lemma bcond_opcode:
  "f_op w = 1 \<Longrightarrow> f_rt w = 0 \<Longrightarrow> insn_opcode w = OP_BLTZ" "f_op w = 1 \<Longrightarrow> f_rt w = 1 \<Longrightarrow> insn_opcode w = OP_BGEZ"
  by (simp_all add: insn_opcode_def op_entry_f_op branch_entry_1 bcond_field Let_def)

lemma decode_bcond:
  "f_op w = 1 \<Longrightarrow> f_rt w = 0 \<Longrightarrow> create a w = Inr (new_Instruction (Jumping (OneRegisterConditionalJump Iflt)) a OP_BLTZ (f_rs w) R_ZERO R_ZERO (sint (f_simm w)))"
  "f_op w = 1 \<Longrightarrow> f_rt w = 1 \<Longrightarrow> create a w = Inr (new_Instruction (Jumping (OneRegisterConditionalJump Ifge)) a OP_BGEZ (f_rs w) R_ZERO R_ZERO (sint (f_simm w)))"
  using extra_value(1) [of w]
  by (subst create_simple, simp, simp add: bcond_opcode op_entry_f_op branch_entry_1 mips_zero_extend_opcode_def simple_cases_def Let_def encoding_fields, simp add: bcond_opcode)+

lemma sim_stk [simp]: "sim lim c V m (s\<lparr>stk := x\<rparr>) = sim lim c V m s"
  by (simp add: sim_def memory_local_def)

lemma compile_delayed:
  "compile c (setDelayed (Some d) (new_Instruction k a opc rs rt rd e)) =
   pass2 (class_of k) c (setDelayed (Some d) (new_Instruction k a opc rs rt rd e)) (Some (compile c d)) None"
  by (simp add: new_Instruction_def)

lemma delayed_fields [simp]:
  "i_rs (setDelayed d i) = i_rs i" "i_rt (setDelayed d i) = i_rt i" "i_extra (setDelayed d i) = i_extra i"
  "i_address (setDelayed d i) = i_address i" "i_kind (setDelayed d i) = i_kind i"
  by (cases i; simp)+

lemma run_branch:
  assumes S: "sim lim c V m s" and D: "\<And>x. simulates lim c V calls d m' (s\<lparr>stk := x\<rparr>)" and rs: "rs \<in> insert 0 V"
  shows "rt \<in> insert 0 V \<Longrightarrow> two_operands bc \<Longrightarrow>
      \<exists>s'. run (cruntime calls) (compile c (setDelayed (Some d) (new_Instruction (Jumping (TwoRegisterConditionalJump bc)) a opc rs rt rd e))) s =
        (if holds bc (reg m rs) (reg m rt) then Jump (L_addr (a + 4 + push_bit 2 (of_int e))) s' else Fall s') \<and>
        sim lim c V m' s' \<and> stk s' = stk s"
    "\<not> two_operands bc \<Longrightarrow>
      \<exists>s'. run (cruntime calls) (compile c (setDelayed (Some d) (new_Instruction (Jumping (OneRegisterConditionalJump bc)) a opc rs rt rd e))) s =
        (if holds bc (reg m rs) 0 then Jump (L_addr (a + 4 + push_bit 2 (of_int e))) s' else Fall s') \<and>
        sim lim c V m' s' \<and> stk s' = stk s"
proof -
  note r = simD(4,5) [OF S rs]
  show "\<exists>s'. run (cruntime calls) (compile c (setDelayed (Some d) (new_Instruction (Jumping (TwoRegisterConditionalJump bc)) a opc rs rt rd e))) s =
        (if holds bc (reg m rs) (reg m rt) then Jump (L_addr (a + 4 + push_bit 2 (of_int e))) s' else Fall s') \<and>
        sim lim c V m' s' \<and> stk s' = stk s" if rt: "rt \<in> insert 0 V" and bc: "two_operands bc"
  proof -
    note t = simD(4,5) [OF S rt]
    obtain s' where s': "run (cruntime calls) (compile c d) (s\<lparr>stk := VI (reg m rt) # VI (reg m rs) # stk s\<rparr>) = Fall s'"
      "sim lim c V m' s'" "stk s' = VI (reg m rt) # VI (reg m rs) # stk s"
      using D [of "VI (reg m rt) # VI (reg m rs) # stk s"] by (auto simp: simulates_def)
    then show ?thesis using r t bc
      by (intro exI [of _ "s'\<lparr>stk := stk s\<rparr>"])
        (simp add: compile_delayed TwoRegisterConditionalJump_class_def branch_def branch_target_def)
  qed
  show "\<exists>s'. run (cruntime calls) (compile c (setDelayed (Some d) (new_Instruction (Jumping (OneRegisterConditionalJump bc)) a opc rs rt rd e))) s =
        (if holds bc (reg m rs) 0 then Jump (L_addr (a + 4 + push_bit 2 (of_int e))) s' else Fall s') \<and>
        sim lim c V m' s' \<and> stk s' = stk s" if bc: "\<not> two_operands bc"
  proof -
    obtain s' where s': "run (cruntime calls) (compile c d) (s\<lparr>stk := VI (reg m rs) # stk s\<rparr>) = Fall s'"
      "sim lim c V m' s'" "stk s' = VI (reg m rs) # stk s"
      using D [of "VI (reg m rs) # stk s"] by (auto simp: simulates_def)
    then show ?thesis using r bc
      by (intro exI [of _ "s'\<lparr>stk := stk s\<rparr>"])
        (simp add: compile_delayed OneRegisterConditionalJump_class_def branch_def branch_target_def)
  qed
qed

lemma reg_0 [simp]: "reg m 0 = 0"
  by (simp add: reg_def)

lemma branch_simulates:
  assumes S: "sim lim c V m s" and B: "mips_branch w m = Some taken" and D: "create a w = Inr i"
    and R: "set (sources (class_of (i_kind i)) c i) \<subseteq> V \<union> {R_ZERO}"
    and d: "mips_step lim wd m = Some m'" "translated c V (a + 4) wd d" "low_base wd m"
  shows "\<exists>s'. run (cruntime calls) (compile c (setDelayed (Some d) i)) s =
      (if taken then Jump (L_addr (mips_target a w)) s' else Fall s') \<and> sim lim c V m' s' \<and> stk s' = stk s"
proof -
  have dl: "simulates lim c V calls d m' (s\<lparr>stk := x\<rparr>)" for x
    by (rule step_simulates [OF _ d]) (simp add: S)
  note one = run_branch(2) [OF S dl] and two = run_branch(1) [OF S dl]
  note B = B [unfolded mips_branch_def Let_def]
  have o: "f_op w = 4 \<or> f_op w = 5 \<or> f_op w = 6 \<or> f_op w = 7 \<or> f_op w = 1 \<and> f_rt w = 0 \<or> f_op w = 1 \<and> f_rt w = 1"
    using B by (auto split: if_splits)
  obtain k opc rt where i: "i = new_Instruction (Jumping k) a opc (f_rs w) rt R_ZERO (sint (f_simm w))"
    and k: "(\<exists>bc. k = TwoRegisterConditionalJump bc \<and> two_operands bc \<and> taken = holds bc (reg m (f_rs w)) (reg m rt)) \<or>
      (\<exists>bc. k = OneRegisterConditionalJump bc \<and> \<not> two_operands bc \<and> taken = holds bc (reg m (f_rs w)) 0)"
    using o
  proof (elim disjE conjE)
    assume o: "f_op w = 4" then show ?thesis using D decode_branch(1) [OF o, of a] B
      by (cases "f_rt w = 0") (auto intro: that)
  next
    assume o: "f_op w = 5" then show ?thesis using D decode_branch(2) [OF o, of a] B
      by (cases "f_rt w = 0") (auto intro: that)
  next
    assume o: "f_op w = 6" then show ?thesis using D decode_branch(3) [OF o, of a] B by (auto intro: that)
  next
    assume o: "f_op w = 7" then show ?thesis using D decode_branch(4) [OF o, of a] B by (auto intro: that)
  next
    assume o: "f_op w = 1" "f_rt w = 0" then show ?thesis using D decode_bcond(1) [OF o, of a] B by (auto intro: that)
  next
    assume o: "f_op w = 1" "f_rt w = 1" then show ?thesis using D decode_bcond(2) [OF o, of a] B by (auto intro: that)
  qed
  have rs: "f_rs w \<in> insert 0 V" and rt: "k = TwoRegisterConditionalJump bc \<Longrightarrow> rt \<in> insert 0 V" for bc
    using R k by (auto simp: i TwoRegisterConditionalJump_class_def OneRegisterConditionalJump_class_def BranchInstruction_class_def)
  have e: "a + 4 + push_bit 2 (of_int (sint (f_simm w))) = mips_target a w" by (simp add: mips_target_def)
  from k show ?thesis
  proof (elim disjE exE conjE)
    fix bc assume k: "k = TwoRegisterConditionalJump bc" "two_operands bc" "taken = holds bc (reg m (f_rs w)) (reg m rt)"
    show ?thesis using two [OF rs rt [OF k(1)] k(2), of a opc R_ZERO "sint (f_simm w)"] unfolding e i k(1,3) .
  next
    fix bc assume k: "k = OneRegisterConditionalJump bc" "\<not> two_operands bc" "taken = holds bc (reg m (f_rs w)) 0"
    show ?thesis using one [OF rs k(2), of a opc rt R_ZERO "sint (f_simm w)"] unfolding e i k(1,3) .
  qed
qed

end
