(* ===== verification/TranslateProps.thy ===== *)
theory TranslateProps
  imports Translate
begin

text \<open>
  The properties of the translation of instructions, at a sample context for the witnesses.
\<close>

unbundle bit_operations_syntax

subsection \<open>The properties\<close>

text \<open>A context to evaluate the translation in: every register has the local variable of its number.\<close>

definition sample_method :: jmeth where
  "sample_method = \<lparr>jm_address = 0x1000, jm_size = 0x100, jm_name = ''f'', jm_java_name = ''f(II)I'', jm_multiple = False,
     jm_bytecode_size = 100, jm_opcode_used = (\<lambda>opc. opc = OP_MFHI), jm_registers_to_pass = [R_A0, R_A1],
     jm_return_size = 1, jm_function_index = (\<lambda>_. 0), jm_return_locations = []\<rparr>"

definition sample_context :: jctx where
  "sample_context = \<lparr>c_alloc = \<lparr>mips_to_local = int, mips_to_static = (\<lambda>_. None), n_locals = 86\<rparr>,
     c_config = new_Config, c_path = [], c_method = (\<lambda>_. Some sample_method), c_class = (\<lambda>_. None), c_call_table = None,
     c_instruction = Some, c_builtin = (\<lambda>_ _. None), c_syscall = (\<lambda>_. None), c_catch = (\<lambda>_. None)\<rparr>"

definition sample_mips :: mips where
  "sample_mips = \<lparr>regs = (\<lambda>r. of_nat r), mmem = (\<lambda>_. 0)\<rparr>"

definition sample_state :: jstate where
  "sample_state = \<lparr>stk = [], locs = (\<lambda>n. if n = int R_MEM then VMem else VI (of_int n)), jmem = replicate 16 0, saved_v1 = 0\<rparr>"

lemma sample_sim: "sim 16 sample_context {2, 4, 5} sample_mips sample_state"
proof -
  have "load32 (\<lambda>_. 0) a = 0" for a by (simp add: load32_def)
  then show ?thesis
    by (simp add: sim_def sample_context_def sample_mips_def sample_state_def memory_local_def ok_alloc_def
        regIsAllocated_def regToLocal_def mem_rel_def inj_on_def)
qed

text \<open>\<open>addu $2, $4, $5\<close>\<close>

definition sample_word :: u32 where "sample_word = 0x00851021"

lemma sample_fields: "f_op sample_word = 0" "f_funct sample_word = 33" "f_rs sample_word = 4" "f_rt sample_word = 5" "f_rd sample_word = 2"
  by code_simp+

lemma sample_translated:
  "translated sample_context {2, 4, 5} a sample_word (new_Instruction (Arith Addu) a OP_ADDU 4 5 2 0)"
proof -
  have "create a sample_word = Inr (new_Instruction (Arith Addu) a OP_ADDU 4 5 2 0)"
    using decode_special(14) [of sample_word a] by (simp add: sample_fields)
  moreover have "compile1 sample_context (new_Instruction (Arith Addu) a OP_ADDU 4 5 2 0) =
      Inr (new_Instruction (Arith Addu) a OP_ADDU 4 5 2 0, [], True)"
    by (simp add: new_Instruction_def arith_class_defs pass1_true_def)
  ultimately show ?thesis
    by (simp add: translated_def sample_fields registers_ok_def arith_class_defs target_def sample_context_def
        sample_method_def regIsAllocated_def new_Config_def)
qed

lemma sample_step: "mips_step 16 sample_word sample_mips = Some (set_reg 2 9 sample_mips)"
  by (simp add: mips_step_def special_step_def Let_def sample_fields reg_def sample_mips_def)

text \<open>C2: an instruction of the reference set, decoded by the factory, passed through the first pass
  and compiled, does to the local variables and the memory array what the MIPS architecture says it does to
  the registers and the memory, falls through to the next instruction and leaves the operand stack as it was.
  The hypothesis \<open>translated\<close> leaves out the moves to \<open>HI\<close> and \<open>LO\<close>, which the factory decodes wrongly
  (\<open>mtlo_loses_value\<close> below), and the loads into and stores from \<open>$ra\<close>, which \<open>skips_ra\<close> drops in a method of one function;
  it asks that the registers read are tracked and those written allocated, that a method which tracks
  \<open>HI\<close> uses \<open>MFHI\<close> or \<open>MTHI\<close>, and that tracing of stores and the optimisation of partial memory operations are off.
  \<open>low_base\<close> asks that the base register of a load or store is below 2^31, since \<open>bc_pushindex\<close> shifts the base before
  it adds the offset.\<close>

theorem step_correct:
  assumes "mips_step lim w m = Some m'" "translated c V a w i" "low_base w m" "sim lim c V m s"
  shows "\<exists>s'. run (cruntime calls) (compile c i) s = Fall s' \<and> sim lim c V m' s' \<and> stk s' = stk s"
  using step_simulates [OF assms(4,1,2,3)] by (simp add: simulates_def)

lemma step_correct_witness:
  "\<exists>s'. run (cruntime (\<lambda>_ _ _. Stuck)) (compile sample_context (new_Instruction (Arith Addu) 0x1000 OP_ADDU 4 5 2 0)) sample_state = Fall s' \<and>
     sim 16 sample_context {2, 4, 5} (set_reg 2 9 sample_mips) s' \<and> stk s' = stk sample_state"
  by (rule step_correct [OF sample_step sample_translated _ sample_sim]) (simp add: low_base_def sample_fields)

text \<open>C3: the translation of a block of instructions, each compiled on its own and the lines written one
  after the other, does what the block does.\<close>

theorem block_correct:
  assumes "mips_block lim ws m = Some m'" "translated_block c V a ws is" "sim lim c V m s"
  shows "\<exists>s'. run (cruntime calls) (seq (map (compile c) is)) s = Fall s' \<and> sim lim c V m' s' \<and> stk s' = stk s"
  by (rule block_simulates [OF assms(3,1,2)])

lemma sample_block:
  "mips_block 16 [sample_word, sample_word] sample_mips = Some (set_reg 2 9 (set_reg 2 9 sample_mips))"
proof -
  have "mips_step 16 sample_word (set_reg 2 9 sample_mips) = Some (set_reg 2 9 (set_reg 2 9 sample_mips))"
    by (simp add: mips_step_def special_step_def Let_def sample_fields reg_def sample_mips_def)
  then show ?thesis by (simp add: sample_step low_base_def sample_fields)
qed

lemma block_correct_witness:
  "\<exists>s'. run (cruntime (\<lambda>_ _ _. Stuck)) (seq (map (compile sample_context)
       [new_Instruction (Arith Addu) 0x1000 OP_ADDU 4 5 2 0, new_Instruction (Arith Addu) 0x1004 OP_ADDU 4 5 2 0])) sample_state = Fall s' \<and>
     sim 16 sample_context {2, 4, 5} (set_reg 2 9 (set_reg 2 9 sample_mips)) s' \<and> stk s' = stk sample_state"
  by (rule block_correct [OF sample_block _ sample_sim, where a = "0x1000"])
    (use sample_translated [of "0x1000"] sample_translated [of "0x1004"] in simp)

text \<open>C4: a conditional branch decides on the registers as they are before the instruction in its delay slot
  runs, although that instruction runs first: the operands wait on the stack.  Taken, it jumps to the label of the
  architecture's target; either way the delay slot has had its effect.\<close>

theorem branch_correct:
  assumes "mips_branch w m = Some taken" "create a w = Inr i" "sim lim c V m s"
    "set (sources (class_of (i_kind i)) c i) \<subseteq> V \<union> {R_ZERO}"
    "mips_step lim wd m = Some m'" "translated c V (a + 4) wd d" "low_base wd m"
  shows "\<exists>s'. run (cruntime calls) (compile c (setDelayed (Some d) i)) s =
      (if taken then Jump (L_addr (mips_target a w)) s' else Fall s') \<and> sim lim c V m' s' \<and> stk s' = stk s"
  by (rule branch_simulates [OF assms(3,1,2,4-7)])

text \<open>\<open>bne $4, $5, 12\<close>\<close>

lemma sample_branch_fields:
  "f_op 0x14850003 = 5" "f_rs 0x14850003 = 4" "f_rt 0x14850003 = 5" "f_simm 0x14850003 = 3"
  by code_simp+

lemma branch_correct_witness:
  "\<exists>s'. run (cruntime (\<lambda>_ _ _. Stuck)) (compile sample_context (setDelayed
       (Some (new_Instruction (Arith Addu) 0x1004 OP_ADDU 4 5 2 0))
       (new_Instruction (Jumping (TwoRegisterConditionalJump If_icmpne)) 0x1000 OP_BNE 4 5 R_ZERO 3))) sample_state =
     (if True then Jump (L_addr (mips_target 0x1000 0x14850003)) s' else Fall s') \<and>
     sim 16 sample_context {2, 4, 5} (set_reg 2 9 sample_mips) s' \<and> stk s' = stk sample_state"
proof (rule branch_correct [OF _ _ sample_sim _ sample_step])
  show "mips_branch 0x14850003 sample_mips = Some True"
    by (simp add: mips_branch_def sample_branch_fields reg_def sample_mips_def)
  show "create 0x1000 0x14850003 = Inr (new_Instruction (Jumping (TwoRegisterConditionalJump If_icmpne)) 0x1000 OP_BNE 4 5 R_ZERO 3)"
    using decode_branch(2) [of "0x14850003" "0x1000"] by (simp add: sample_branch_fields)
  show "translated sample_context {2, 4, 5} (0x1000 + 4) sample_word (new_Instruction (Arith Addu) 0x1004 OP_ADDU 4 5 2 0)"
    using sample_translated [of "0x1004"] by simp
qed (simp_all add: TwoRegisterConditionalJump_class_def low_base_def sample_fields)

lemma decode_mtxx:
  assumes "f_op w = 0"
  shows "f_funct w = 17 \<Longrightarrow> create a w = Inr (new_Instruction (Arith (Mtxx R_HI)) a OP_MTHI (f_rd w) R_ZERO R_ZERO 0)"
    "f_funct w = 19 \<Longrightarrow> create a w = Inr (new_Instruction (Arith (Mtxx R_LO)) a OP_MTLO (f_rd w) R_ZERO R_ZERO 0)"
proof -
  have o: "mips_special_table ! 17 = OP_MTHI" "mips_special_table ! 19 = OP_MTLO" by code_simp+
  note I = insn_opcode_special [OF assms]
  show "f_funct w = 17 \<Longrightarrow> create a w = Inr (new_Instruction (Arith (Mtxx R_HI)) a OP_MTHI (f_rd w) R_ZERO R_ZERO 0)"
    "f_funct w = 19 \<Longrightarrow> create a w = Inr (new_Instruction (Arith (Mtxx R_LO)) a OP_MTLO (f_rd w) R_ZERO R_ZERO 0)"
    using I assms by (subst create_simple, simp, simp add: o simple_cases_def Let_def encoding_fields, simp add: o)+
qed

subsection \<open>Emissions that succeed\<close>

text \<open>An emission that neither panics nor returns false.\<close>

definition emits :: "emission \<Rightarrow> bool" where
  "emits e \<longleftrightarrow> (\<exists>ls. e = Inr (ls, True))"

lemma emits_lines [simp]: "emits (lines ls)"
  by (simp add: emits_def lines_def)

lemma emits_andthen [simp]: "emits e \<Longrightarrow> emits e' \<Longrightarrow> emits (andthen e e')"
  by (auto simp: emits_def)

lemma emits_seq: "\<forall>e\<in>set es. emits e \<Longrightarrow> emits (seq es)"
  by (induction es rule: seq.induct) (auto simp: emits_andthen, simp add: emits_def)

lemma emits_seq_simps [simp]:
  "emits (seq [])" "emits e \<Longrightarrow> emits (seq es) \<Longrightarrow> emits (seq (e # es))"
  by (simp add: emits_def, cases es) (simp_all add: emits_andthen)

lemma emits_if [simp]: "(c \<Longrightarrow> emits e) \<Longrightarrow> emits (emit_if c e)"
  by (simp add: emit_if_def)

lemma emits_optional [simp]: "emits (optional None)"
  by (simp add: optional_def)

lemma emits_push [simp]:
  "emits (bc_pushconst v)" "emits (bc_pushconst_u u)" "emits (bc_pushconst_l l)" "r \<le> N_REGS \<Longrightarrow> emits (bc_pushregister ra r)"
  "r \<noteq> R_MEM \<Longrightarrow> emits (bc_popregister ra r)" "emits (bc_iinc ra r e)"
  by (auto simp: bc_pushconst_def bc_pushconst_u_def bc_pushconst_l_def bc_pushregister_def panic_if_def bc_popregister_def
      bc_iinc_def split: option.splits)

lemma emits_pushaddress [simp]:
  "r \<le> N_REGS \<Longrightarrow> emits (bc_pushaddress ra r e)" "r \<le> N_REGS \<Longrightarrow> emits (bc_pushindex ra r e)"
  by (simp_all add: bc_pushaddress_def bc_pushindex_def Let_def)

lemma emits_arith:
  assumes "rs < 34" "rt < 34" "rd < 34" "k \<notin> {Mfxx r |r. r > N_REGS}" "k \<noteq> Mtxx R_MEM" "c_method c a = Some my"
  shows "\<exists>i. compile1 c (new_Instruction (Arith k) a opc rs rt rd e) = Inr (i, [], True) \<and> emits (compile c i)"
proof -
  have r: "rs \<noteq> R_MEM" "rt \<noteq> R_MEM" "rd \<noteq> R_MEM" "rs \<le> N_REGS" "rt \<le> N_REGS" "rd \<le> N_REGS" "R_HI \<noteq> R_MEM" "R_LO \<noteq> R_MEM"
    using assms(1-3) by simp_all
  show ?thesis
    using assms(4-6) r by (cases k) (auto simp: new_Instruction_def arith_class_defs pass1_true_def Mtxx_class_def
       Rfmt_pass2_def Ifmt_pass2_def set_result_def pop_hi_lo_def Let_def not_less)
qed

lemma emits_memory:
  assumes "rs < 32" "rt < 32" "k \<notin> {LWc1, SWc1}" "c_method c a = Some my"
  shows "\<exists>i. compile1 c (new_Instruction (Memory k) a opc rs rt rd e) = Inr (i, [], True) \<and> emits (compile c i)"
proof -
  have r: "rs \<noteq> R_MEM" "rt \<noteq> R_MEM" "rs \<le> N_REGS" "rt \<le> N_REGS" "R_MEM \<le> N_REGS"
    using assms(1-2) by simp_all
  show ?thesis
    using assms(3,4) r by (cases k) (auto simp: new_Instruction_def Lw_class_def Lb_class_def Lbu_class_def Lh_class_def Lhu_class_def Sw_class_def
      Sb_class_def Sh_class_def PartialLoad_class_def PartialStore_class_def LoadXX_class_def StoreXX_class_def
      MemoryXX_class_def LoadXX_pass2_def StoreXX_pass2_def PartialLoad_pass2_def PartialStore_pass2_def traceStore_def push_shift_def)
qed

lemma field_bounds: "f_rs w < 32" "f_rt w < 32" "f_rd w < 32"
proof -
  have "unat (take_bit 5 (x :: u32)) < 32" for x
    using take_bit_nat_less_exp [of 5 "unat x"] by (simp add: unsigned_take_bit_eq)
  then show "f_rs w < 32" "f_rt w < 32" "f_rd w < 32" by (simp_all add: f_rs_def f_rt_def f_rd_def)
qed

text \<open>C34: every word that the reference semantics executes, the moves to \<open>HI\<close> and \<open>LO\<close> included, is decoded by
  the factory, and in a method both passes over it succeed: neither panics, and both return true.\<close>

theorem supported_translates:
  assumes "mips_step lim w m = Some m'" "c_method c a = Some my"
  shows "\<exists>i0 i ls. create a w = Inr i0 \<and> compile1 c i0 = Inr (i, [], True) \<and> compile c i = Inr (ls, True)"
proof -
  have arith: "\<exists>i. compile1 c (new_Instruction (Arith k) a opc rs rt rd e) = Inr (i, [], True) \<and> emits (compile c i)"
    if "rs < 34" "rt < 34" "rd < 34" "k \<notin> {Mfxx r |r. r > N_REGS}" "k \<noteq> Mtxx R_MEM" for k opc rs rt rd e
    using emits_arith [OF that] assms(2) by blast
  have memory: "\<exists>i. compile1 c (new_Instruction (Memory k) a opc rs rt rd e) = Inr (i, [], True) \<and> emits (compile c i)"
    if "rs < 32" "rt < 32" "k \<notin> {LWc1, SWc1}" for k opc rs rt rd e
    using emits_memory [OF that] assms(2) by blast
  note fields = field_bounds [of w]
  have op: "f_op w = 0 \<or> f_op w \<in> {8, 9, 10, 11, 12, 13, 14, 15, 32, 33, 35, 36, 37, 40, 41, 43}"
    using assms(1) by (simp add: mips_step_def Let_def split: if_splits)
  then have "\<exists>i0 i. create a w = Inr i0 \<and> compile1 c i0 = Inr (i, [], True) \<and> emits (compile c i)"
  proof
    assume z: "f_op w = 0"
    then have "f_funct w \<in> {0, 2, 3, 4, 6, 7, 16, 17, 18, 19, 24, 25, 26, 27, 32, 33, 34, 35, 36, 37, 38, 39, 42, 43}"
      using assms(1) by (simp add: mips_step_def special_step_def Let_def split: if_splits)
    then show ?thesis
      by (elim insertE emptyE; use decode_special [OF z, of a] decode_mtxx [OF z, of a] arith fields in simp)
  next
    assume "f_op w \<in> {8, 9, 10, 11, 12, 13, 14, 15, 32, 33, 35, 36, 37, 40, 41, 43}"
    then show ?thesis by (elim insertE emptyE; use decode_immediate [of w a] arith memory fields in simp)
  qed
  then show ?thesis by (simp add: emits_def)
qed

lemma supported_translates_witness:
  "\<exists>i0 i ls. create 0x1000 sample_word = Inr i0 \<and> compile1 sample_context i0 = Inr (i, [], True) \<and>
     compile sample_context i = Inr (ls, True)"
  by (rule supported_translates [OF sample_step]) (simp add: sample_context_def)

subsection \<open>Unaligned words\<close>

definition mapped4 :: "nat \<Rightarrow> u32 \<Rightarrow> bool" where
  "mapped4 lim a \<longleftrightarrow> mapped lim a \<and> mapped lim (a + 1) \<and> mapped lim (a + 2) \<and> mapped lim (a + 3)"

lemma memoryReadWordLeft_load:
  "mem_rel lim m js \<Longrightarrow> mapped4 lim a \<Longrightarrow> memoryReadWordLeft js a = Some (load32 m a)"
  by (simp add: memoryReadWordLeft_def mapped4_def memoryRead(1) load32_def ac_simps)

lemma store32_bytes:
  "store32 m a v = m(a + 3 := ucast v, a + 2 := ucast (drop_bit 8 v), a + 1 := ucast (drop_bit 16 v), a := ucast (drop_bit 24 v))"
  by (simp add: store32_def bytes32_def) (auto simp: fun_eq_iff)

lemma ucast_signed_drop: "n \<le> 24 \<Longrightarrow> (ucast (signed_drop_bit n v) :: u8) = ucast (drop_bit n (v :: u32))"
  by (rule bit_word_eqI) (auto simp: bit_simps bit_signed_drop_bit_iff dest: bit_imp_le_length)

lemma memoryWriteWordLeft_store:
  assumes "mem_rel lim m js" "mapped4 lim a"
  shows "\<exists>js'. memoryWriteWordLeft js a v = Some js' \<and> mem_rel lim (store32 m a v) js'"
proof -
  note M = assms(2) [unfolded mapped4_def]
  obtain j3 where 3: "memoryWriteByte js (a + 3) v = Some j3" "mem_rel lim (m(a + 3 := ucast v)) j3"
    using memoryWriteByte_ok [OF assms(1)] M by blast
  obtain j2 where 2: "memoryWriteByte j3 (a + 2) (signed_drop_bit 8 v) = Some j2"
    "mem_rel lim (m(a + 3 := ucast v, a + 2 := ucast (signed_drop_bit 8 v))) j2"
    using memoryWriteByte_ok [OF 3(2)] M by blast
  obtain j1 where 1: "memoryWriteByte j2 (a + 1) (signed_drop_bit 16 v) = Some j1"
    "mem_rel lim (m(a + 3 := ucast v, a + 2 := ucast (signed_drop_bit 8 v), a + 1 := ucast (signed_drop_bit 16 v))) j1"
    using memoryWriteByte_ok [OF 2(2)] M by blast
  obtain j0 where 0: "memoryWriteByte j1 a (signed_drop_bit 24 v) = Some j0"
    "mem_rel lim (m(a + 3 := ucast v, a + 2 := ucast (signed_drop_bit 8 v), a + 1 := ucast (signed_drop_bit 16 v),
       a := ucast (signed_drop_bit 24 v))) j0"
    using memoryWriteByte_ok [OF 1(2)] M by blast
  show ?thesis using 0 1(1) 2(1) 3(1) by (simp add: memoryWriteWordLeft_def store32_bytes ucast_signed_drop)
qed

lemma run_pushaddress_value:
  "readable ra s r \<Longrightarrow> run E (bc_pushaddress ra r e) s = Fall (s\<lparr>stk := VI (reg_value ra s r + of_int e) # stk s\<rparr>)"
  by (auto simp: bc_pushaddress_def int2_def)

lemma word_left_entries:
  "mips_op_entries ! 34 = \<lparr>op_type = OP_LWL, op_fmt = IFMT\<rparr>" "mips_op_entries ! 38 = \<lparr>op_type = OP_LWR, op_fmt = IFMT\<rparr>"
  "mips_op_entries ! 42 = \<lparr>op_type = OP_SWL, op_fmt = IFMT\<rparr>" "mips_op_entries ! 46 = \<lparr>op_type = OP_SWR, op_fmt = IFMT\<rparr>"
  by code_simp+

lemma decode_word_left:
  "f_op w = 34 \<Longrightarrow> create a w = Inr (new_Instruction (Memory (LoadXX ''WordLeft'')) a OP_LWL (f_rs w) (f_rt w) R_ZERO (sint (f_simm w)))"
  "f_op w = 42 \<Longrightarrow> create a w = Inr (new_Instruction (Memory (StoreXX ''WordLeft'')) a OP_SWL (f_rs w) (f_rt w) R_ZERO (sint (f_simm w)))"
  using insn_opcode_direct [of w] extra_value(1) [of w]
  by (subst create_simple, simp, simp add: op_entry_f_op word_left_entries mips_zero_extend_opcode_def simple_cases_def Let_def encoding_fields, simp add: word_left_entries)+

lemma decode_word_right:
  "f_op w = 38 \<or> f_op w = 46 \<Longrightarrow> create a w = Inr (createNop a)"
proof -
  assume f: "f_op w = 38 \<or> f_op w = 46"
  then have n: "f_op w \<noteq> 63" by auto
  have o: "insn_opcode w = OP_LWR \<or> insn_opcode w = OP_SWR"
    using f insn_opcode_direct [of w] by (auto simp: word_left_entries)
  then have "map_of (simple_cases w) (insn_opcode w) = None"
    by (elim disjE; simp add: simple_cases_def Let_def)
  then show ?thesis using o by (auto simp: create_def Let_def no_special_word [OF n])
qed

text \<open>C35: the pair that loads an unaligned word, \<open>lwl\<close> at its first byte and the \<open>lwr\<close> that follows, is decoded
  to a \<open>LoadXX\<close> and a no-op; the first calls \<open>CRunTime.memoryReadWordLeft\<close>, which reads four bytes, and the pair loads the word
  at the address of \<open>lwl\<close> into its target and changes nothing else.  The fields of \<open>lwr\<close> are not looked at: compilers emit it
  for the last byte of the same word.\<close>

theorem lwl_lwr_correct:
  assumes "f_op w = 34" "f_op w' = 38" "create a w = Inr i" "create (a + 4) w' = Inr i'"
    "mem_rel lim m (jmem s)" "readable (c_alloc c) s (f_rs w)" "writable (c_alloc c) (f_rt w)"
    "b = reg_value (c_alloc c) s (f_rs w) + f_simm w" "mapped4 lim b"
  shows "run (cruntime calls) (seq [compile c i, compile c i']) s = Fall (assign (c_alloc c) (f_rt w) (load32 m b) s)"
proof -
  have i: "i = new_Instruction (Memory (LoadXX ''WordLeft'')) a OP_LWL (f_rs w) (f_rt w) R_ZERO (sint (f_simm w))"
    "i' = createNop (a + 4)"
    using assms(1-4) decode_word_left(1) [of w a] decode_word_right [of w' "a + 4"] by auto
  show ?thesis
    using assms(6,7,9) memoryReadWordLeft_load [OF assms(5), of b] unfolding i assms(8)
    by (auto simp: createNop_def Nop_class_def LoadXX_class_def LoadXX_pass2_def cruntime_def read_call_def run_pushaddress_value)
qed

text \<open>\<open>lwl $2, 1($4)\<close> with \<open>lwr $2, 4($4)\<close>, and the stores\<close>

lemma word_left_fields:
  "f_op 0x88820001 = 34" "f_rs 0x88820001 = 4" "f_rt 0x88820001 = 2" "f_simm 0x88820001 = 1" "f_op 0x98820004 = 38"
  "f_op 0xA8820001 = 42" "f_rs 0xA8820001 = 4" "f_rt 0xA8820001 = 2" "f_simm 0xA8820001 = 1" "f_op 0xB8820004 = 46"
  by code_simp+

lemma sample_registers:
  "r \<in> {2, 4, 5} \<Longrightarrow> readable (c_alloc sample_context) sample_state r"
  "r \<in> {2, 4, 5} \<Longrightarrow> reg_value (c_alloc sample_context) sample_state r = of_nat r"
  "writable (c_alloc sample_context) 2" "mem_rel 16 (mmem sample_mips) (jmem sample_state)"
  using simD [OF sample_sim] target_writable [OF sample_sim, of 2]
  by (auto simp: reg_def sample_mips_def target_def sample_context_def regIsAllocated_def)

lemma lwl_lwr_correct_witness:
  "run (cruntime (\<lambda>_ _ _. Stuck)) (seq [compile sample_context
      (new_Instruction (Memory (LoadXX ''WordLeft'')) 0x1000 OP_LWL 4 2 R_ZERO 1), compile sample_context (createNop 0x1004)]) sample_state =
    Fall (assign (c_alloc sample_context) 2 (load32 (mmem sample_mips) 5) sample_state)"
proof -
  have "create 0x1000 0x88820001 = Inr (new_Instruction (Memory (LoadXX ''WordLeft'')) 0x1000 OP_LWL 4 2 R_ZERO 1)"
    "create (0x1000 + 4) 0x98820004 = Inr (createNop 0x1004)"
    using decode_word_left(1) [of "0x88820001" "0x1000"] decode_word_right [of "0x98820004" "0x1004"] by (simp_all add: word_left_fields)
  from lwl_lwr_correct [OF word_left_fields(1,5) this sample_registers(4), where b = 5 and c = sample_context and calls = "\<lambda>_ _ _. Stuck"]
  show ?thesis using sample_registers by (simp add: word_left_fields mapped4_def mapped_def)
qed

text \<open>The same for \<open>swl\<close> and \<open>swr\<close>, which store an unaligned word.\<close>

theorem swl_swr_correct:
  assumes "f_op w = 42" "f_op w' = 46" "create a w = Inr i" "create (a + 4) w' = Inr i'"
    "mem_rel lim m (jmem s)" "readable (c_alloc c) s (f_rs w)" "readable (c_alloc c) s (f_rt w)" "\<not> traceStores (c_config c)"
    "b = reg_value (c_alloc c) s (f_rs w) + f_simm w" "mapped4 lim b"
  shows "\<exists>js. run (cruntime calls) (seq [compile c i, compile c i']) s = Fall (s\<lparr>jmem := js\<rparr>) \<and>
    mem_rel lim (store32 m b (reg_value (c_alloc c) s (f_rt w))) js"
proof -
  have i: "i = new_Instruction (Memory (StoreXX ''WordLeft'')) a OP_SWL (f_rs w) (f_rt w) R_ZERO (sint (f_simm w))"
    "i' = createNop (a + 4)"
    using assms(1-4) decode_word_left(2) [of w a] decode_word_right [of w' "a + 4"] by auto
  obtain js where "memoryWriteWordLeft (jmem s) b (reg_value (c_alloc c) s (f_rt w)) = Some js"
    "mem_rel lim (store32 m b (reg_value (c_alloc c) s (f_rt w))) js"
    using memoryWriteWordLeft_store [OF assms(5,10)] by blast
  then show ?thesis
    using assms(6-8) unfolding i assms(9)
    by (auto simp: createNop_def Nop_class_def StoreXX_class_def StoreXX_pass2_def cruntime_def write_call_def run_pushaddress_value)
qed

lemma swl_swr_correct_witness:
  "\<exists>js. run (cruntime (\<lambda>_ _ _. Stuck)) (seq [compile sample_context
      (new_Instruction (Memory (StoreXX ''WordLeft'')) 0x1000 OP_SWL 4 2 R_ZERO 1), compile sample_context (createNop 0x1004)]) sample_state =
    Fall (sample_state\<lparr>jmem := js\<rparr>) \<and> mem_rel 16 (store32 (mmem sample_mips) 5 2) js"
proof -
  have t: "\<not> traceStores (c_config sample_context)" by (simp add: sample_context_def new_Config_def)
  have "create 0x1000 0xA8820001 = Inr (new_Instruction (Memory (StoreXX ''WordLeft'')) 0x1000 OP_SWL 4 2 R_ZERO 1)"
    "create (0x1000 + 4) 0xB8820004 = Inr (createNop 0x1004)"
    using decode_word_left(2) [of "0xA8820001" "0x1000"] decode_word_right [of "0xB8820004" "0x1004"] by (simp_all add: word_left_fields)
  from swl_swr_correct [OF word_left_fields(6,10) this sample_registers(4), where b = 5 and c = sample_context and calls = "\<lambda>_ _ _. Stuck"]
  show ?thesis using sample_registers t by (simp add: word_left_fields mapped4_def mapped_def)
qed

text \<open>\<open>mtlo $rs\<close>, whose \<open>rd\<close> field is zero, is compiled to an assignment of \<open>R_ZERO\<close> to
  \<open>R_LO\<close>: the factory hands the constructor \<open>rd\<close> where the source register is meant, so the value of \<open>rs\<close> is lost.\<close>

theorem mtlo_loses_value:
  assumes "f_op w = 0" "f_funct w = 19" "f_rd w = 0" "create a w = Inr i" "ok_alloc (c_alloc c)" "regIsAllocated (c_alloc c) R_LO"
  shows "run E (compile c i) s = Fall (assign (c_alloc c) R_LO 0 s) \<and>
    mips_step lim w m = Some (set_reg LO (reg m (f_rs w)) m)"
proof
  have "i = new_Instruction (Arith (Mtxx R_LO)) a OP_MTLO R_ZERO R_ZERO R_ZERO 0"
    using decode_mtxx(2) [of w a] assms by auto
  moreover have "readable (c_alloc c) s 0" "reg_value (c_alloc c) s 0 = 0" "writable (c_alloc c) R_LO"
    using assms(5,6) by (simp_all add: readable_def reg_value_def writable_def)
  ultimately show "run E (compile c i) s = Fall (assign (c_alloc c) R_LO 0 s)"
    by (simp add: Mtxx_class_def)
  show "mips_step lim w m = Some (set_reg LO (reg m (f_rs w)) m)"
    using assms(1,2) by (simp add: mips_step_def special_step_def Let_def)
qed

text \<open>\<open>mtlo $4\<close>\<close>

lemma mtlo_fields: "f_op 0x00800013 = 0" "f_funct 0x00800013 = 19" "f_rd 0x00800013 = 0" "f_rs 0x00800013 = 4"
  by code_simp+

lemma mtlo_loses_value_witness:
  "run (cruntime (\<lambda>_ _ _. Stuck)) (compile sample_context (new_Instruction (Arith (Mtxx R_LO)) 0x1000 OP_MTLO R_ZERO R_ZERO R_ZERO 0)) sample_state =
     Fall (assign (c_alloc sample_context) R_LO 0 sample_state) \<and>
   mips_step 16 0x00800013 sample_mips = Some (set_reg LO (reg sample_mips 4) sample_mips)"
proof -
  have C: "create 0x1000 0x00800013 = Inr (new_Instruction (Arith (Mtxx R_LO)) 0x1000 OP_MTLO R_ZERO R_ZERO R_ZERO 0)"
    using decode_mtxx(2) [of "0x00800013" "0x1000"] by (simp add: mtlo_fields)
  have "regIsAllocated (c_alloc sample_context) R_LO" by (simp add: sample_context_def regIsAllocated_def)
  then show ?thesis
    using simD(3) [OF sample_sim] mtlo_loses_value [OF mtlo_fields(1,2,3) C, where m = sample_mips and lim = 16]
    by (simp add: mtlo_fields)
qed

end
