(* ===== verification/BuiltinProps.thy ===== *)
theory BuiltinProps
  imports TranslateProps
begin

text \<open>
  What the functions of libgcc that the translator compiles inline compute on 64-bit values in register pairs.
\<close>

unbundle bit_operations_syntax

subsection \<open>64-bit values in register pairs\<close>

definition pair64 :: "u32 \<Rightarrow> u32 \<Rightarrow> u64" where
  "pair64 hi lo = push_bit 32 (ucast hi) OR ucast lo"

lemma shift_scast: "push_bit 32 (scast (v :: u32) :: u64) = push_bit 32 (ucast v)"
proof (rule bit_word_eqI)
  fix n :: nat assume n: "n < LENGTH(64)"
  consider "n < 32" | "32 \<le> n" "n < 63" | "n = 63" using n by fastforce
  then show "bit (push_bit 32 (scast v :: u64)) n = bit (push_bit 32 (ucast v :: u64)) n"
    by cases (auto simp: bit_simps)
qed

lemma scast_nonneg: "0 \<le> sint (v :: u32) \<Longrightarrow> (scast v :: u64) = ucast v"
  by (simp add: scast_eq unsigned_word_eqI uint32_pos flip: word_of_int_uint)

lemma scast_absorbs: "sint (lo :: u32) < 0 \<Longrightarrow> (scast lo :: u64) OR push_bit 32 v = scast lo"
proof -
  assume "sint lo < 0"
  then have b: "bit lo 31" using bit_last_iff [of lo] by simp
  show ?thesis by (rule bit_word_eqI) (use b in \<open>auto simp: bit_simps min_def\<close>)
qed

definition pushed64 :: "u32 \<Rightarrow> u32 \<Rightarrow> u64" where
  "pushed64 hi lo = (if 0 \<le> sint lo then pair64 hi lo else scast lo)"

lemma long_shift_32 [simp]: "stk s = VI 32 # VL v # r \<Longrightarrow> long_shift f s = Fall (s\<lparr>stk := VL (f v 32) # r\<rparr>)"
  by (simp add: long_shift_def)

lemma run_push_64:
  "readable ra s r1 \<Longrightarrow> readable ra s r2 \<Longrightarrow>
   run E (push_64_bit_from_32_bit_regs ra r1 r2) s =
     Fall (s\<lparr>stk := VL (pushed64 (reg_value ra s r2) (reg_value ra s r1)) # stk s\<rparr>)"
  by (simp add: push_64_bit_from_32_bit_regs_def int1_def long2_def pushed64_def pair64_def shift_scast scast_nonneg
      scast_absorbs or.commute)

lemma run_split_result:
  "stk s = VL v # st \<Longrightarrow> writable ra R_V0 \<Longrightarrow> writable ra R_V1 \<Longrightarrow>
   run E (split_result ra) s = Fall (assign ra R_V1 (ucast v) (assign ra R_V0 (ucast (drop_bit 32 v)) (s\<lparr>stk := st\<rparr>)))"
  by (simp add: split_result_def reorder_def)

definition assign64 :: "regalloc \<Rightarrow> u64 \<Rightarrow> jstate \<Rightarrow> jstate" where
  "assign64 ra v s = assign ra R_V1 (ucast v) (assign ra R_V0 (ucast (drop_bit 32 v)) s)"

lemma run_div_builtin:
  assumes "\<And>r. r \<in> {R_A0, R_A1, R_A2, R_A3} \<Longrightarrow> readable ra s r" "writable ra R_V0" "writable ra R_V1"
    "d = pushed64 (reg_value ra s R_A2) (reg_value ra s R_A3)" "n = pushed64 (reg_value ra s R_A0) (reg_value ra s R_A1)" "d \<noteq> 0"
  shows "run E (b_emission DivBuiltin ra a) s = Fall (assign64 ra (of_int (c_div (sint n) (sint d))) s)"
    "run E (b_emission ModBuiltin ra a) s = Fall (assign64 ra (of_int (c_mod (sint n) (sint d))) s)"
  using assms by (simp_all add: DivBuiltin_def ModBuiltin_def MulDivBuiltinBase_def run_push_64 run_split_result
      divides_long_def assign64_def)

text \<open>The high word counts only when the sign bit of the low word is clear.\<close>

lemma pushed64_exact: "0 \<le> sint lo \<Longrightarrow> pushed64 hi lo = pair64 hi lo"
  by (simp add: pushed64_def)

lemma pushed64_covered: "sint lo < 0 \<Longrightarrow> pushed64 hi lo = scast lo"
  by (simp add: pushed64_def)

text \<open>C36: \<open>__divdi3\<close> and \<open>__moddi3\<close>, compiled inline, divide the 64-bit numbers in the register pairs, rounding
  towards zero, and leave the result in \<open>V0\<close> and \<open>V1\<close>, when the low words of both operands have a clear sign
  bit.\<close>

theorem div_builtin_correct:
  assumes "\<forall>r\<in>{R_A0, R_A1, R_A2, R_A3}. readable ra s r" "writable ra R_V0" "writable ra R_V1"
    "n = pair64 (reg_value ra s R_A0) (reg_value ra s R_A1)" "0 \<le> sint (reg_value ra s R_A1)"
    "d = pair64 (reg_value ra s R_A2) (reg_value ra s R_A3)" "0 \<le> sint (reg_value ra s R_A3)" "d \<noteq> 0"
  shows "run E (b_emission DivBuiltin ra a) s = Fall (assign64 ra (of_int (c_div (sint n) (sint d))) s) \<and>
    run E (b_emission ModBuiltin ra a) s = Fall (assign64 ra (of_int (c_mod (sint n) (sint d))) s)"
  using assms by (intro conjI run_div_builtin) (auto simp: pushed64_exact)

definition sample_pair :: "u32 \<Rightarrow> jstate" where
  "sample_pair lo = sample_state\<lparr>locs := (\<lambda>n. VI (if n = int R_A1 then lo else if n = int R_A2 then 0 else if n = int R_A3 then 3 else 1))\<rparr>"

lemma sample_pair:
  "\<forall>r\<in>{R_A0, R_A1, R_A2, R_A3}. readable (c_alloc sample_context) (sample_pair lo) r"
  "writable (c_alloc sample_context) R_V0" "writable (c_alloc sample_context) R_V1"
  "reg_value (c_alloc sample_context) (sample_pair lo) R_A0 = 1" "reg_value (c_alloc sample_context) (sample_pair lo) R_A1 = lo"
  "reg_value (c_alloc sample_context) (sample_pair lo) R_A2 = 0" "reg_value (c_alloc sample_context) (sample_pair lo) R_A3 = 3"
  by (simp_all add: sample_pair_def sample_context_def readable_def writable_def reg_value_def regToLocal_def
      regIsAllocated_def ok_alloc_def inj_on_def)

lemma pair64_zero [simp]: "pair64 0 lo = ucast lo"
  by (simp add: pair64_def)

lemma div_builtin_correct_witness:
  "\<exists>v w. run (cruntime (\<lambda>_ _ _. Stuck)) (b_emission DivBuiltin (c_alloc sample_context) 0) (sample_pair 7) =
       Fall (assign64 (c_alloc sample_context) v (sample_pair 7)) \<and>
     run (cruntime (\<lambda>_ _ _. Stuck)) (b_emission ModBuiltin (c_alloc sample_context) 0) (sample_pair 7) =
       Fall (assign64 (c_alloc sample_context) w (sample_pair 7))"
  using div_builtin_correct [where s = "sample_pair 7" and a = 0, OF sample_pair(1-3) refl _ refl] by (auto simp: sample_pair)

text \<open>C37: when the low word of the dividend has its sign bit set, the high word is lost: the sign extension of the
  low word covers it, and the result does not depend on \<open>A0\<close>.\<close>

theorem div_builtin_loses_high_word:
  assumes "\<forall>r\<in>{R_A0, R_A1, R_A2, R_A3}. readable ra s r" "writable ra R_V0" "writable ra R_V1"
    "sint (reg_value ra s R_A1) < 0"
    "d = pair64 (reg_value ra s R_A2) (reg_value ra s R_A3)" "0 \<le> sint (reg_value ra s R_A3)" "d \<noteq> 0"
  shows "run E (b_emission DivBuiltin ra a) s = Fall (assign64 ra (of_int (c_div (sint (reg_value ra s R_A1)) (sint d))) s)"
proof -
  have "run E (b_emission DivBuiltin ra a) s =
      Fall (assign64 ra (of_int (c_div (sint (scast (reg_value ra s R_A1) :: u64)) (sint d))) s)"
    using assms by (intro run_div_builtin(1)) (auto simp: pushed64_exact pushed64_covered)
  then show ?thesis by (simp add: sint_scast64)
qed

text \<open>\<open>0x1fffffffe / 3\<close> gives 0 and not \<open>0xaaaaaaaa\<close>\<close>

lemma div_builtin_loses_high_word_witness:
  "run (cruntime (\<lambda>_ _ _. Stuck)) (b_emission DivBuiltin (c_alloc sample_context) 0) (sample_pair (- 2)) =
     Fall (assign64 (c_alloc sample_context) 0 (sample_pair (- 2)))"
proof -
  have "c_div (- 2) 3 = 0" by code_simp
  then show ?thesis
    using div_builtin_loses_high_word [where s = "sample_pair (- 2)" and a = 0, OF sample_pair(1-3) _ refl]
    by (auto simp: sample_pair)
qed

end
