(* ===== verification/BlocksProps.thy ===== *)
theory BlocksProps
  imports Blocks
begin

text \<open>
  What holds of basic blocks and functions: blocks cut a function into ranges that end at its branches,
  the name of a function names its address, and a search among sorted jump table labels finds them.
\<close>

subsection \<open>Cutting a function into blocks\<close>

fun chain :: "nat \<Rightarrow> nat \<Rightarrow> (bb_type \<times> nat \<times> nat) list \<Rightarrow> bool" where
  "chain f e [] \<longleftrightarrow> f = e"
| "chain f e ((ty, a, b) # ts) \<longleftrightarrow> a = f \<and> a < b \<and> chain b e ts"

lemma split_blocks_chain: "first \<le> n \<Longrightarrow> chain first (n + length is) (split_blocks a is ty first n)"
proof (induction a "is" ty first n rule: split_blocks.induct)
  case (2 a i "is" ty first n)
  then show ?case by (cases "is") (simp_all add: Let_def)
qed auto

lemma chain_le: "chain f e ts \<Longrightarrow> f \<le> e"
  by (induction f e ts rule: chain.induct) auto

definition block_of :: "insn list \<Rightarrow> bb_type \<times> nat \<times> nat \<Rightarrow> insn list" where
  "block_of insns t = take (snd (snd t) - fst (snd t)) (drop (fst (snd t)) insns)"

lemma chain_blocks: "chain f e ts \<Longrightarrow> concat (map (block_of insns) ts) = take (e - f) (drop f insns)"
proof (induction f e ts rule: chain.induct)
  case (2 f e ty a b ts)
  then have "take (b - f) (drop f insns) @ take (e - b) (drop b insns) = take ((b - f) + (e - b)) (drop f insns)"
    by (simp only: take_add drop_drop) (simp add: add.commute)
  moreover have "(b - f) + (e - b) = e - f" using 2 chain_le [of b e ts] by simp
  ultimately show ?case using 2 by (simp add: block_of_def)
qed simp

lemma new_blocks_chain:
  "chain f e ts \<Longrightarrow> e \<le> length insns \<Longrightarrow> \<exists>bbs. new_blocks insns ts = Inr bbs \<and> map bb_insns bbs = map (block_of insns) ts \<and>
     (\<forall>b\<in>set bbs. bb_insns b \<noteq> [] \<and> bb_size b = 4 * length (bb_insns b) \<and> bb_address b = i_address (hd (bb_insns b)) \<and>
        bb_bc_size b = sum_list (map insn_bytecode_size (bb_insns b)))"
proof (induction f e ts rule: chain.induct)
  case (2 f e ty a b ts)
  then have b: "b \<le> length insns" "f < b" "a = f" using chain_le [of b e ts] by auto
  obtain bbs where "new_blocks insns ts = Inr bbs" "map bb_insns bbs = map (block_of insns) ts"
    "\<forall>b\<in>set bbs. bb_insns b \<noteq> [] \<and> bb_size b = 4 * length (bb_insns b) \<and> bb_address b = i_address (hd (bb_insns b)) \<and>
        bb_bc_size b = sum_list (map insn_bytecode_size (bb_insns b))"
    using 2 by auto
  moreover have "hd (take (b - f) (drop f insns)) = insns ! f" using b by (simp add: hd_drop_conv_nth)
  ultimately show ?case using b by (intro exI [of _ "\<lparr>bb_type = ty, bb_address = i_address (insns ! f), bb_size = (b - f) * 4,
      bb_insns = take (b - f) (drop f insns), bb_bc_size = sum_list (map insn_bytecode_size (take (b - f) (drop f insns))),
      bb_maxStackHeight = 0\<rparr> # bbs"]) (simp add: new_BasicBlock_def block_of_def Let_def)
qed simp

text \<open>Where a block ends.\<close>

definition ends_block :: "u32 \<Rightarrow> insn \<Rightarrow> bool" where
  "ends_block a i \<longleftrightarrow> (isBranch (insn_class_of i) \<or> i_branchTarget i) \<and> i_address i \<noteq> a"

text \<open>
  A branch is the last instruction of its block, or the last but one with its delay slot behind it.
\<close>

definition closed_by_branch :: "u32 \<Rightarrow> insn list \<Rightarrow> bool" where
  "closed_by_branch a is \<longleftrightarrow> (\<forall>n<length is. ends_block a (is ! n) \<longrightarrow> n + 2 \<ge> length is)"

lemma closed_short:
  assumes "\<forall>m. first \<le> m \<longrightarrow> m < n \<longrightarrow> \<not> ends_block a (insns ! m)" "k \<le> n + 2"
  shows "closed_by_branch a (block_of insns (x, first, k))"
  unfolding closed_by_branch_def
proof (intro allI impI)
  fix m assume m: "m < length (block_of insns (x, first, k))" "ends_block a (block_of insns (x, first, k) ! m)"
  then have "\<not> first + m < n" using assms(1) by (auto simp: block_of_def)
  then show "length (block_of insns (x, first, k)) \<le> m + 2" using assms(2) by (simp add: block_of_def)
qed

lemma split_blocks_closed:
  "drop n insns = is \<Longrightarrow> first \<le> n \<Longrightarrow> (\<forall>m. first \<le> m \<longrightarrow> m < n \<longrightarrow> \<not> ends_block a (insns ! m)) \<Longrightarrow>
   t \<in> set (split_blocks a is ty first n) \<Longrightarrow> closed_by_branch a (block_of insns t)"
proof (induction a "is" ty first n rule: split_blocks.induct)
  case (1 a ty first n)
  then show ?case by (auto intro: closed_short split: if_splits)
next
  case (2 a i "is" ty first n)
  have n: "insns ! n = i" "drop (Suc n) insns = is" "drop (Suc (Suc n)) insns = tl is"
    using 2(4) by (simp_all add: nth_via_drop drop_Suc flip: tl_drop)
  have old: "\<forall>m. first \<le> m \<longrightarrow> m < n \<longrightarrow> \<not> ends_block a (insns ! m)" by (rule 2(6))
  have short: "closed_by_branch a (block_of insns (x, first, k))" if "k \<le> n + 2" for x k
    by (rule closed_short [OF old that])
  let ?ty = "if isReturnJump (insn_class_of i) i then EPILOGUE else ty"
  consider (slot) "ends_block a i" "hasDelaySlot i \<and> is \<noteq> []" | (plain) "ends_block a i" "\<not> (hasDelaySlot i \<and> is \<noteq> [])"
    | (inside) "\<not> ends_block a i" by blast
  then show ?case
  proof cases
    case slot
    then have "t = (?ty, first, n + 2) \<or> t \<in> set (split_blocks a (tl is) NORMAL (n + 2) (n + 2))"
      using 2(7) by (simp add: ends_block_def Let_def)
    then show ?thesis using 2(1) [OF refl refl] slot n short [of "n + 2"] by (fastforce simp: ends_block_def)
  next
    case plain
    then have "t = (?ty, first, n + 1) \<or> t \<in> set (split_blocks a is NORMAL (n + 1) (n + 1))"
      using 2(7) by (auto simp: ends_block_def Let_def)
    then show ?thesis using 2(2) [OF refl refl] plain n short [of "n + 1"] by (fastforce simp: ends_block_def)
  next
    case inside
    then have "t \<in> set (split_blocks a is ?ty first (n + 1))" using 2(7) by (auto simp: ends_block_def Let_def)
    then show ?thesis using 2(3) [OF refl refl] inside n old 2(5) by (auto simp: ends_block_def less_Suc_eq)
  qed
qed

subsection \<open>Addresses that are compared by their difference\<close>

lemma sint_diff_small:
  assumes "a < 0x80000000" "b < 0x80000000"
  shows "sint (a - b :: u32) = uint a - uint b"
proof -
  have a: "uint a < 2147483648" "uint b < 2147483648" using assms by (simp_all add: word_less_def)
  have "sint (a - b) = signed_take_bit 31 (take_bit 32 (uint a - uint b))"
    by (simp add: sint_uint uint_word_ariths take_bit_eq_mod)
  also have "\<dots> = signed_take_bit 31 (uint a - uint b)" by (simp only: signed_take_bit_take_bit) simp
  also have "\<dots> = uint a - uint b"
  proof (rule signed_take_bit_int_eq_self)
    have "- 2147483648 \<le> uint a - uint b" "uint a - uint b < 2147483648"
      using a uint_ge_0 [of a] uint_ge_0 [of b] by linarith+
    then show "- (2 ^ 31) \<le> uint a - uint b" "uint a - uint b < 2 ^ 31" by simp_all
  qed
  finally show ?thesis .
qed

interpretation labels: comparator uint32_cmp "{a. a < 0x80000000}" uint
  by unfold_locales (simp add: uint32_cmp_def sint_diff_small)

interpretation label_search: interval_search uint32_cmp "{a. a < 0x80000000}" "{a. a < 0x80000000}" uint uint uint
  by unfold_locales (simp_all add: uint32_cmp_def sint_diff_small)

lemma sorted_in_order:
  assumes "sorted (map uint xs)" "set xs \<subseteq> {a. a < 0x80000000}"
  shows "label_search.in_order xs"
  using assms by (auto simp: label_search.in_order_def sorted_iff_nth_mono)

lemma hasJumptabLabel_sorted:
  assumes "set labels \<subseteq> {a. a < 0x80000000}" "addr < 0x80000000"
  shows "hasJumptabLabel (sortJumptabLabels labels) addr \<longleftrightarrow> addr \<in> set labels"
proof -
  have "label_search.in_order (qsort uint32_cmp labels)"
    using assms(1) by (intro sorted_in_order labels.qsort_sorted) simp_all
  from label_search.bsearch_finds [OF _ this, of addr] assms(2)
  consider i where "bsearch uint32_cmp addr (qsort uint32_cmp labels) = Some i" "i < length labels"
      "qsort uint32_cmp labels ! i = addr"
    | "bsearch uint32_cmp addr (qsort uint32_cmp labels) = None" "addr \<notin> set labels"
    by (auto simp: label_search.covers_def word_uint_eq_iff)
  then show ?thesis
  proof cases
    case 1
    then have "addr \<in> set (qsort uint32_cmp labels)" by (metis length_qsort nth_mem)
    then show ?thesis using 1 by (simp add: hasJumptabLabel_def sortJumptabLabels_def)
  qed (simp add: hasJumptabLabel_def sortJumptabLabels_def)
qed

lemma set_addJumptabLabel [simp]: "set (foldl addJumptabLabel labels xs) = set labels \<union> set xs"
  by (induction xs arbitrary: labels) (auto simp: addJumptabLabel_def)

subsection \<open>Names of functions\<close>

lemma digit_char_inj: "d < 16 \<Longrightarrow> e < 16 \<Longrightarrow> digit_char d = digit_char e \<longleftrightarrow> d = e"
  by (auto simp: digit_char_def)

lemma digits_less: "k < 16 \<Longrightarrow> digits 16 k = [digit_char k]"
  by (simp add: digits.simps)

lemma digits_step: "16 \<le> k \<Longrightarrow> digits 16 k = digits 16 (k div 16) @ [digit_char (k mod 16)]"
  by (subst digits.simps) simp

lemma digits_nonempty [simp]: "digits b k \<noteq> []"
  by (subst digits.simps) simp

lemma digits_inj: "digits 16 k = digits 16 m \<Longrightarrow> k = m"
proof (induction k arbitrary: m rule: less_induct)
  case (less k)
  consider "k < 16" "m < 16" | "k < 16" "16 \<le> m" | "16 \<le> k" "m < 16" | "16 \<le> k" "16 \<le> m" by linarith
  then show ?case
  proof cases
    case 4
    then have "k div 16 = m div 16" "k mod 16 = m mod 16"
      using less.prems less.IH [of "k div 16" "m div 16"] by (auto simp: digits_step digit_char_inj)
    then show ?thesis by (metis div_mult_mod_eq)
  qed (use less.prems in \<open>simp_all add: digits_less digits_step digit_char_inj digits_nonempty [THEN not_sym]\<close>)
qed

lemma digits_underscore: "CHR ''_'' \<notin> set (digits 16 k)"
proof (induction k rule: less_induct)
  case (less k)
  have "of_char (digit_char d) \<noteq> (95::nat)" if "d < 16" for d
    using that by (simp add: digit_char_def)
  moreover have "of_char (CHR ''_'') = (95::nat)" by simp
  ultimately have "CHR ''_'' \<noteq> digit_char d" if "d < 16" for d using that by metis
  then show ?case using less by (cases "k < 16") (simp_all add: digits_less digits_step)
qed

lemma hex_inj [simp]: "hex a = hex b \<longleftrightarrow> a = b"
  using digits_inj [of "unat a" "unat b"] by (auto simp: hex_def word_unat_eq_iff)

lemma split_last_eq:
  "x \<notin> set h \<Longrightarrow> x \<notin> set h' \<Longrightarrow> xs @ x # h = ys @ x # h' \<longleftrightarrow> xs = ys \<and> h = h'"
  by (auto simp: append_eq_append_conv2 Cons_eq_append_conv append_eq_Cons_conv)

definition cleaned :: "string \<Rightarrow> string" where
  "cleaned name = map (\<lambda>c. if c = CHR ''.'' then CHR ''_'' else c) name"

lemma function_name_eq: "function_name n a = function_name m b \<longleftrightarrow> cleaned n = cleaned m \<and> a = b"
  using split_last_eq [of "CHR ''_''" "hex a" "hex b" "cleaned n" "cleaned m"]
  by (simp add: function_name_def cleaned_def hex_def digits_underscore flip: hex_inj)

subsection \<open>The properties\<close>

text \<open>C5: the constructor of a function cuts its instructions into non-empty basic blocks, in order and without
  loss; each block has the address, the size and the byte code size of its instructions, and a branch or branch
  target (other than at the entry) is at the end of its block, with at most its delay slot behind it.\<close>

theorem function_blocks:
  assumes "new_Function name insns m n = Inr f"
  shows "concat (map bb_insns (fn_bbs f)) = take (n - m) (drop m insns) \<and> fn_size f = 4 * (n - m) \<and>
    (\<forall>b\<in>set (fn_bbs f). bb_insns b \<noteq> [] \<and> bb_address b = i_address (hd (bb_insns b)) \<and>
       bb_bc_size b = sum_list (map insn_bytecode_size (bb_insns b)) \<and> closed_by_branch (fn_address f) (bb_insns b))"
proof -
  let ?is = "take (n - m) (drop m insns)" let ?a = "i_address (insns ! m)"
  let ?ts = "split_blocks ?a ?is PROLOGUE 0 0"
  have c: "chain 0 (length ?is) ?ts" using split_blocks_chain [of 0 0 ?is ?a PROLOGUE] by simp
  obtain bbs where b: "new_blocks ?is ?ts = Inr bbs" "map bb_insns bbs = map (block_of ?is) ?ts"
    "\<forall>b\<in>set bbs. bb_insns b \<noteq> [] \<and> bb_size b = 4 * length (bb_insns b) \<and> bb_address b = i_address (hd (bb_insns b)) \<and>
        bb_bc_size b = sum_list (map insn_bytecode_size (bb_insns b))"
    using new_blocks_chain [OF c order_refl] by blast
  have f: "fn_bbs f = bbs" "fn_address f = ?a" "fn_size f = sum_list (map bb_size bbs)"
    using assms b(1) by (auto simp: new_Function_def Let_def split: if_splits sum.splits)
  have n: "n \<le> length insns" using assms by (auto simp: new_Function_def split: if_splits)
  have whole: "concat (map bb_insns bbs) = ?is" using chain_blocks [OF c, of ?is] by (simp only: b(2) drop_0 diff_zero take_all order_refl)
  have "sum_list (map bb_size bbs) = sum_list (map (\<lambda>b. 4 * length (bb_insns b)) bbs)"
    using b(3) by (intro arg_cong [where f = sum_list] map_cong) auto
  also have "\<dots> = 4 * length (concat (map bb_insns bbs))" by (simp add: length_concat sum_list_const_mult o_def)
  finally have "fn_size f = 4 * (n - m)" using f whole n by simp
  moreover have "closed_by_branch ?a (bb_insns b')" if "b' \<in> set bbs" for b'
  proof -
    have "bb_insns b' \<in> set (map (block_of ?is) ?ts)" using that by (simp add: b(2) [symmetric])
    then show ?thesis using split_blocks_closed [of 0 ?is ?is 0 ?a] by auto
  qed
  ultimately show ?thesis using whole f b(3) by simp
qed

definition sample_insns :: "insn list" where
  "sample_insns = [new_Instruction (Arith Addu) 0x1000 OP_ADDU 4 5 2 0, new_Instruction (Arith Subu) 0x1004 OP_SUBU 4 5 2 0,
     setDelayed (Some (createNop 0x100c)) (new_Instruction (Jumping Jr) 0x1008 OP_JR R_RA R_ZERO R_ZERO 0),
     createDelaySlotNop 0x100c]"

lemma function_blocks_witness:
  "\<exists>f. new_Function ''f.1'' sample_insns 0 4 = Inr f \<and> concat (map bb_insns (fn_bbs f)) = sample_insns \<and> fn_size f = 16"
proof -
  have "\<exists>f. new_Function ''f.1'' sample_insns 0 4 = Inr f"
    by (simp add: new_Function_def sample_insns_def Let_def new_Instruction_def opcodes_of_def hasDelaySlot_def
        markOpcodeUsed_def createDelaySlotNop_def createNop_def new_BasicBlock_def Jr_class_def BranchInstruction_class_def
        Addu_class_def Subu_class_def Rfmt_class_def Nop_class_def DelaySlotNop_class_def instruction_class_def)
  then obtain f where "new_Function ''f.1'' sample_insns 0 4 = Inr f" ..
  moreover from function_blocks [OF this] have "concat (map bb_insns (fn_bbs f)) = sample_insns \<and> fn_size f = 16"
    by (simp add: sample_insns_def)
  ultimately show ?thesis by blast
qed

text \<open>C23: after sorting, the binary search finds exactly the jump table labels that were added, for addresses below
  \<open>2 ^ 31\<close>, where the wrapping difference of two addresses has the sign of their order.\<close>

theorem jumptab_lookup:
  assumes "\<forall>a\<in>set added. a < 0x80000000" "addr < 0x80000000"
  shows "hasJumptabLabel (sortJumptabLabels (foldl addJumptabLabel [] added)) addr \<longleftrightarrow> addr \<in> set added"
  using hasJumptabLabel_sorted [of "foldl addJumptabLabel [] added" addr] assms by auto

lemma jumptab_lookup_witness:
  "hasJumptabLabel (sortJumptabLabels (foldl addJumptabLabel [] [0x1010, 0x1000, 0x1010])) 0x1000"
  using jumptab_lookup [of "[0x1010, 0x1000, 0x1010]" "0x1000"] by simp

text \<open>The name of a function in the byte code determines its address: names are unique in the program, also
  those of static functions with the same name and after dots have become underscores.\<close>

theorem function_name_unique: "function_name n a = function_name m b \<longleftrightarrow> cleaned n = cleaned m \<and> a = b"
  by (rule function_name_eq)

end
