(* ===== verification/MethodProps.thy ===== *)
theory MethodProps
  imports Method BuiltinProps BlocksProps
begin

text \<open>
  The calling convention: what a caller passes is where the callee's allocation puts it, the descriptor
  counts it, and the result comes back.
\<close>

unbundle bit_operations_syntax

subsection \<open>The registers to pass\<close>

lemma filter_takeWhile_step:
  "filter c (takeWhile (\<lambda>r. r \<noteq> 0) xs) =
     (case dropWhile (\<lambda>r. r \<noteq> 0 \<and> \<not> c r) xs of [] \<Rightarrow> []
      | r # ys \<Rightarrow> if r = 0 then [] else r # filter c (takeWhile (\<lambda>r. r \<noteq> 0) ys))" for xs :: "nat list"
  by (induction xs) auto

lemma drop_length_takeWhile: "drop (length (takeWhile P xs)) xs = dropWhile P xs"
  by (metis dropWhile_eq_drop)

lemma pass_loop_next:
  "pass_loop mt (getNextRegisterToPass mt it) =
     filter (clobbersReg mt) (takeWhile (\<lambda>r. r \<noteq> 0) (drop it (mt_possibleArguments mt)))"
proof (induction "Suc (length (mt_possibleArguments mt)) - it" arbitrary: it rule: less_induct)
  case less
  let ?args = "mt_possibleArguments mt"
  define xs where "xs = drop it ?args"
  define k where "k = it + length (takeWhile (\<lambda>r. r \<noteq> 0 \<and> \<not> clobbersReg mt r) xs)"
  have d: "dropWhile (\<lambda>r. r \<noteq> 0 \<and> \<not> clobbersReg mt r) xs = drop k ?args"
    by (simp add: xs_def k_def add.commute flip: drop_length_takeWhile)
  have g: "getNextRegisterToPass mt it = (if k < length ?args then ?args ! k else 0, k + 1)"
    by (simp add: getNextRegisterToPass_def Let_def k_def xs_def)
  note step = filter_takeWhile_step [of "clobbersReg mt" xs, unfolded d]
  show ?case
  proof (cases "k < length ?args \<and> ?args ! k \<noteq> 0")
    case True
    then have "drop k ?args = ?args ! k # drop (Suc k) ?args" by (simp add: Cons_nth_drop_Suc)
    moreover have "pass_loop mt (getNextRegisterToPass mt (k + 1)) =
        filter (clobbersReg mt) (takeWhile (\<lambda>r. r \<noteq> 0) (drop (k + 1) ?args))"
      using True by (intro less) (auto simp: k_def)
    ultimately show ?thesis using True unfolding xs_def [symmetric] step
      by (simp add: g pass_loop.simps del: neq0_conv bot_nat_0.not_eq_extremum)
  next
    case False
    then have "drop k ?args = [] \<or> drop k ?args = 0 # drop (Suc k) ?args"
      by (metis Cons_nth_drop_Suc drop_all linorder_not_less)
    then show ?thesis using False unfolding xs_def [symmetric] step by (auto simp: g pass_loop.simps)
  qed
qed

lemma registersToPass_filter: "registersToPass mt = filter (clobbersReg mt) (argument_list mt)"
  by (simp add: registersToPass_def getFirstRegisterToPass_def pass_loop_next argument_list_def)

lemma cut_arguments_prefix:
  "\<exists>zs. argument_registers = takeWhile (\<lambda>r. r \<noteq> 0) (cut_arguments n [R_SP, R_FNA, R_A0, R_A1, R_A2, R_A3, R_ZERO]) @ zs"
  by (simp add: cut_arguments_def Let_def argument_registers_def)

lemma registersToPass_upd [simp]:
  "registersToPass (mt\<lparr>mt_n_registersToPass := k\<rparr>) = registersToPass mt"
  "registersToPass (mt\<lparr>mt_returnSize := j\<rparr>) = registersToPass mt"
  by (simp_all add: registersToPass_filter clobbersReg_def [abs_def] argument_list_def)

lemma result_words_range: "result_words_used mt \<in> {0, 1, 2}"
  by (simp add: result_words_used_def)

lemma method_result_range: "method_result cfg sy mt \<in> {0, 1, 2}"
  using result_words_range [of mt] by (auto simp: method_result_def split: option.splits)

lemma mt_pass1_fields:
  assumes "mt_pass1 c elf_sym mt = Inr (mt', marks, ok)"
  shows "mt_possibleArguments mt' = method_arguments (c_config c) (elf_sym (mt_address mt)) (mt_possibleArguments mt)"
    "mt_n_registersToPass mt' = mt_n_registersToPass mt + length (registersToPass mt')"
    "mt_returnSize mt' \<in> {0, 1, 2}"
  using assms method_result_range [of "c_config c" "elf_sym (mt_address mt)"]
  by (auto simp: mt_pass1_def Let_def setReturnSize_def split: sum.splits if_splits)

lemma pass1_arguments:
  assumes "new_JavaMethod fns first stop = Inr mt" "mt_pass1 c elf_sym mt = Inr (mt', marks, ok)"
  shows "\<exists>zs. argument_registers = argument_list mt' @ zs" "mt_n_registersToPass mt' = length (registersToPass mt')"
proof -
  note F = mt_pass1_fields [OF assms(2)]
  have mt: "mt_possibleArguments mt = [R_SP, R_FNA, R_A0, R_A1, R_A2, R_A3, R_ZERO]" "mt_n_registersToPass mt = 0"
    using assms(1) by (auto simp: new_JavaMethod_def Let_def split: if_splits)
  have "\<exists>zs. argument_registers = takeWhile (\<lambda>r. r \<noteq> 0) (mt_possibleArguments mt) @ zs"
    by (simp add: mt argument_registers_def)
  then show "\<exists>zs. argument_registers = argument_list mt' @ zs"
    using cut_arguments_prefix by (auto simp: argument_list_def F(1) method_arguments_def mt(1) split: option.splits)
  show "mt_n_registersToPass mt' = length (registersToPass mt')" using F(2) mt(2) by simp
qed

lemma passed_locals:
  assumes "\<exists>zs. argument_registers = argument_list mt @ zs" "k < length (registersToPass mt)"
  shows "regToLocal (setAllocation (mt_registerUsage mt) ra) (registersToPass mt ! k) = int k"
proof -
  let ?U = "mt_registerUsage mt"
  obtain zs ys where a: "argument_registers = argument_list mt @ zs"
    and o: "allocation_order ?U = filter (\<lambda>r. ?U r > 0) argument_registers @ ys"
    using assms(1) allocation_order_props(3) [of ?U] by auto
  have "clobbersReg mt = (\<lambda>r. ?U r > 0)" by (rule ext) (simp add: clobbersReg_def)
  then have "allocation_order ?U = registersToPass mt @ filter (\<lambda>r. ?U r > 0) zs @ ys"
    by (simp add: o a registersToPass_filter)
  then show ?thesis using setAllocation_local [of k ?U ra] assms(2) by (simp add: nth_append)
qed

subsection \<open>The result\<close>

text \<open>What \<open>invokestatic\<close> makes of the end of the callee: the statics are shared, the result is pushed.\<close>

definition after_call :: "jout \<Rightarrow> jstate \<Rightarrow> jout" where
  "after_call callee s =
     (case callee of
        Returns v s' \<Rightarrow> Fall (s\<lparr>stk := (case v of Some x \<Rightarrow> [x] | None \<Rightarrow> []) @ stk s, jmem := jmem s', saved_v1 := saved_v1 s'\<rparr>)
      | Throws e s' \<Rightarrow> Throws e (s\<lparr>jmem := jmem s', saved_v1 := saved_v1 s'\<rparr>)
      | _ \<Rightarrow> Stuck)"

lemma run_return_sequence:
  assumes "readable (c_alloc c) s R_V0" "readable (c_alloc c) s R_V1" "n \<in> {0, 1, 2}"
  shows "run E (return_sequence c n) s =
    (let v0 = reg_value (c_alloc c) s R_V0; v1 = reg_value (c_alloc c) s R_V1
     in if n = 0 then Returns None s
        else if n = 1 then Returns (Some (VI v0)) (s\<lparr>stk := VI v0 # stk s\<rparr>)
        else if threadSafe (c_config c) then Returns (Some (VL (pushed64 v1 v0))) (s\<lparr>stk := VL (pushed64 v1 v0) # stk s\<rparr>)
        else Returns (Some (VI v0)) (s\<lparr>saved_v1 := v1, stk := VI v0 # stk s\<rparr>))"
  using assms
  by (auto simp: return_sequence_def Let_def int1_def long2_def pushed64_def pair64_def shift_scast scast_nonneg
      scast_absorbs or.commute reg_value_def readable_def)

lemma reg_value_assigned:
  "writable ra r \<Longrightarrow> r \<noteq> 0 \<Longrightarrow> reg_value ra (assign ra r v s) r = v"
  "writable ra r \<Longrightarrow> writable ra q \<Longrightarrow> q \<noteq> r \<Longrightarrow> reg_value ra (assign ra r v s) q = reg_value ra s q"
  by (auto simp: writable_def assign_def reg_value_def regToLocal_inj)

lemma ucast_pair64 [simp]: "ucast (pair64 hi lo) = lo" "ucast (drop_bit 32 (pair64 hi lo)) = hi"
proof -
  show "ucast (pair64 hi lo) = lo"
    by (rule bit_word_eqI) (auto simp: pair64_def bit_simps)
  show "ucast (drop_bit 32 (pair64 hi lo)) = hi"
    by (rule bit_word_eqI) (auto simp: pair64_def bit_simps dest: bit_imp_le_length)
qed

lemma ucast_scast_low [simp]: "ucast (scast (lo :: u32) :: u64) = lo"
  by (rule bit_word_eqI) (auto simp: bit_simps)

lemma ucast_scast_high: "sint (lo :: u32) < 0 \<Longrightarrow> ucast (drop_bit 32 (scast lo :: u64)) = (- 1 :: u32)"
proof -
  assume "sint lo < 0"
  then have "bit lo 31" using bit_last_iff [of lo] by simp
  then show ?thesis by (intro bit_word_eqI) (auto simp: bit_simps)
qed

lemma run_return_short:
  "run E (return_sequence c 0) s = Returns None s"
  "readable (c_alloc c) s R_V0 \<Longrightarrow> run E (return_sequence c 1) s =
     Returns (Some (VI (reg_value (c_alloc c) s R_V0))) (s\<lparr>stk := VI (reg_value (c_alloc c) s R_V0) # stk s\<rparr>)"
  by (auto simp: return_sequence_def Let_def reg_value_def readable_def)

lemma run_pop_result:
  "run E (pop_result c 0) s = Fall s"
  "writable (c_alloc c) R_V0 \<Longrightarrow> stk s = VI v # st \<Longrightarrow> run E (pop_result c (Suc 0)) s = Fall (assign (c_alloc c) R_V0 v (s\<lparr>stk := st\<rparr>))"
  "writable (c_alloc c) R_V0 \<Longrightarrow> writable (c_alloc c) R_V1 \<Longrightarrow> threadSafe (c_config c) \<Longrightarrow> stk s = VL w # st \<Longrightarrow> run E (pop_result c 2) s =
     Fall (assign (c_alloc c) R_V0 (ucast w) (assign (c_alloc c) R_V1 (ucast (drop_bit 32 w)) (s\<lparr>stk := st\<rparr>)))"
  "writable (c_alloc c) R_V0 \<Longrightarrow> writable (c_alloc c) R_V1 \<Longrightarrow> \<not> threadSafe (c_config c) \<Longrightarrow> stk s = VI v # st \<Longrightarrow> run E (pop_result c 2) s =
     Fall (assign (c_alloc c) R_V0 v (assign (c_alloc c) R_V1 (saved_v1 s) (s\<lparr>stk := st\<rparr>)))"
  by (simp_all add: pop_result_def reorder_def push_def)

lemma jmem_assign [simp]: "jmem (assign ra r v s) = jmem s" "stk (assign ra r v s) = stk s"
  by (simp_all add: assign_def)

subsection \<open>The properties\<close>

text \<open>C24: the calling convention.  The registers a caller pushes for a method are in the local variables from 0 on
  when the method is entered, in this order; the method's descriptor has one int for each, and its first pass
  leaves a result size of 0, 1 or 2 words.\<close>

theorem arguments_in_locals:
  assumes "new_JavaMethod fns first stop = Inr mt" "mt_pass1 c elf_sym mt = Inr (mt', marks, ok)"
  shows "(\<forall>k. k < length (registersToPass mt') \<longrightarrow>
       regToLocal (setAllocation (mt_registerUsage mt') ra) (registersToPass mt' ! k) = int k) \<and>
     (\<exists>result. getJavaMethodName cfg mt' =
        Inr (mt_name mt' @ ''('' @ replicate (length (registersToPass mt')) (CHR ''I'') @ '')'' @ [result])) \<and>
     mt_returnSize mt' \<in> {0, 1, 2}"
proof -
  note A = pass1_arguments [OF assms] and F = mt_pass1_fields [OF assms(2)]
  have "\<exists>result. getJavaMethodName cfg mt' =
      Inr (mt_name mt' @ ''('' @ replicate (length (registersToPass mt')) (CHR ''I'') @ '')'' @ [result])"
    using F(3) by (auto simp: getJavaMethodName_def returnSize_def A(2))
  then show ?thesis using passed_locals [OF A(1)] F(3) by blast
qed

definition sample_function :: func where
  "sample_function = \<lparr>fn_name = ''f_1000'', fn_realName = ''f'', fn_address = 0x1000, fn_size = 4,
     fn_bbs = [\<lparr>bb_type = NORMAL, bb_address = 0x1000, bb_size = 4,
       bb_insns = [new_Instruction (Arith Addu) 0x1000 OP_ADDU R_A0 R_A1 R_V0 0], bb_bc_size = 8, bb_maxStackHeight = 0\<rparr>],
     fn_registerIndirectJumps = False, fn_usedInsns = [OP_ADDU], fn_bc_size = 8, fn_maxStackHeight = 0,
     fn_registerDestinations = no_use, fn_registerSources = no_use, fn_start = False\<rparr>"

definition sample_java_method :: java_method where
  "sample_java_method = (case new_JavaMethod [sample_function] 0 0 of Inr mt \<Rightarrow> mt)"

lemma sample_pass1:
  "map_sum id (\<lambda>(mt, marks, ok). (registersToPass mt, ok)) (mt_pass1 sample_context (\<lambda>_. None) sample_java_method) = Inr ([R_A0, R_A1], True)"
proof -
  have "compile1 sample_context (new_Instruction (Arith Addu) 0x1000 OP_ADDU R_A0 R_A1 R_V0 0) =
      Inr (new_Instruction (Arith Addu) 0x1000 OP_ADDU R_A0 R_A1 R_V0 0, [], True)"
    by (simp add: new_Instruction_def Addu_class_def Rfmt_class_def instruction_class_def pass1_true_def)
  moreover have "optimizePruneStackStores (c_config sample_context) = False"
    "optimizeFunctionReturnArguments (c_config sample_context) = False" by (simp_all add: sample_context_def new_Config_def)
  ultimately show ?thesis
    by (simp add: sample_java_method_def new_JavaMethod_def sample_function_def mt_pass1_def pass1_function_def fn_pass1_def
        bb_pass1_def replace_tail_call_def Let_def prune_def pruned_def method_usage_def hasMultipleFunctions_def
        method_arguments_def method_result_def setReturnSize_def result_words_used_def clobbersReg_def
        registersToPass_filter argument_list_def bb_fillDestinations_def bb_fillSources_def with_parts_def
        fillDestinations_def fillSources_def addToRegisterUsage_def fn_fillDestinations_def fn_fillSources_def no_use_def
        Addu_class_def Rfmt_class_def instruction_class_def new_Instruction_def)
qed

lemma arguments_in_locals_witness:
  "\<exists>mt'. registersToPass mt' = [R_A0, R_A1] \<and> regToLocal (setAllocation (mt_registerUsage mt') (c_alloc sample_context)) R_A1 = 1"
proof -
  have n: "new_JavaMethod [sample_function] 0 0 = Inr sample_java_method"
    by (simp add: sample_java_method_def new_JavaMethod_def Let_def)
  obtain mt' marks where p: "mt_pass1 sample_context (\<lambda>_. None) sample_java_method = Inr (mt', marks, True)"
    and r: "registersToPass mt' = [R_A0, R_A1]"
    using sample_pass1 by (cases "mt_pass1 sample_context (\<lambda>_. None) sample_java_method") auto
  have "regToLocal (setAllocation (mt_registerUsage mt') (c_alloc sample_context)) (registersToPass mt' ! 1) = int 1"
    using arguments_in_locals [OF n p, of "c_alloc sample_context" new_Config] r
    by (metis One_nat_def Suc_eq_plus1 length_Cons less_Suc_eq list.size(3) plus_1_eq_Suc)
  then show ?thesis using r by (intro exI [of _ mt']) simp
qed

text \<open>C19: the result of a call of no, one or two words comes back: what the return sequence of the callee leaves and the
  caller takes from the stack (and, for the second word, from \<open>saved_v1\<close>) are the callee's \<open>V0\<close>, and \<open>V1\<close> for two words; the caller's
  other registers, the other values on its stack and the memory stay.  Callee and caller need local variables for those words only: a method has one word to
  return when it does not use \<open>V1\<close>.  Both are compiled thread safe or neither is; in thread safe code the two words
  travel in one \<open>long\<close>, and a result of two words comes back only if the sign bit of its \<open>V0\<close> is clear (otherwise \<open>V1\<close> is lost, as \<open>thread_safe_result_lost\<close>
  below shows).\<close>

theorem call_result:
  assumes "n \<in> {0, 1, 2}" "n \<ge> 1 \<longrightarrow> readable (c_alloc cc) s0 R_V0 \<and> writable (c_alloc c) R_V0"
    and "n = 2 \<longrightarrow> readable (c_alloc cc) s0 R_V1 \<and> writable (c_alloc c) R_V1" "threadSafe (c_config c) = threadSafe (c_config cc)"
    and "threadSafe (c_config cc) \<and> n = 2 \<longrightarrow> 0 \<le> sint (reg_value (c_alloc cc) s0 R_V0)"
  shows "\<exists>s1 s2. after_call (run E (return_sequence cc n) s0) s = Fall s1 \<and> run E (pop_result c (nat n)) s1 = Fall s2 \<and>
     stk s2 = stk s \<and> jmem s2 = jmem s0 \<and>
     (n \<ge> 1 \<longrightarrow> reg_value (c_alloc c) s2 R_V0 = reg_value (c_alloc cc) s0 R_V0) \<and>
     (n = 2 \<longrightarrow> reg_value (c_alloc c) s2 R_V1 = reg_value (c_alloc cc) s0 R_V1) \<and>
     (\<forall>r. writable (c_alloc c) r \<and> (n \<ge> 1 \<longrightarrow> r \<noteq> R_V0) \<and> (n = 2 \<longrightarrow> r \<noteq> R_V1) \<longrightarrow> reg_value (c_alloc c) s2 r = reg_value (c_alloc c) s r)"
proof -
  have same: "reg_value (c_alloc c) (t\<lparr>stk := x, jmem := y, saved_v1 := z\<rparr>) r = reg_value (c_alloc c) t r"
    "reg_value (c_alloc c) (t\<lparr>jmem := y, saved_v1 := z\<rparr>) r = reg_value (c_alloc c) t r" for t x y z r
    by (simp_all add: reg_value_def)
  consider "n = 0" | "n = 1" | "n = 2" using assms(1) by blast
  then show ?thesis
  proof cases
    case 1
    then show ?thesis by (simp add: run_return_short after_call_def run_pop_result same)
  next
    case 2
    then show ?thesis using assms(2) by (simp add: run_return_short after_call_def run_pop_result reg_value_assigned same)
  next
    case 3
    then show ?thesis using assms(2-5)
      by (simp add: run_return_sequence Let_def after_call_def run_pop_result reg_value_assigned pushed64_exact same)
  qed
qed

text \<open>A callee that does not use \<open>V1\<close>, which has no local variable.\<close>

definition one_word_context :: jctx where
  "one_word_context = sample_context\<lparr>c_alloc := (c_alloc sample_context)\<lparr>mips_to_local := int(R_V1 := - 1)\<rparr>\<rparr>"

lemma call_result_witness:
  "\<exists>s1 s2. after_call (run (cruntime (\<lambda>_ _ _. Stuck)) (return_sequence one_word_context 1) (sample_pair 7)) sample_state = Fall s1 \<and>
     run (cruntime (\<lambda>_ _ _. Stuck)) (pop_result sample_context 1) s1 = Fall s2 \<and> reg_value (c_alloc sample_context) s2 R_V0 = 1 \<and>
     \<not> regIsAllocated (c_alloc one_word_context) R_V1"
proof -
  have r: "readable (c_alloc one_word_context) (sample_pair 7) R_V0" "\<not> regIsAllocated (c_alloc one_word_context) R_V1"
    "reg_value (c_alloc one_word_context) (sample_pair 7) R_V0 = 1"
    by (simp_all add: one_word_context_def sample_pair_def sample_context_def readable_def reg_value_def regToLocal_def
      regIsAllocated_def ok_alloc_def inj_on_def)
  have "threadSafe (c_config sample_context) = threadSafe (c_config one_word_context)" by (simp add: one_word_context_def)
  then show ?thesis
    using call_result [where s = sample_state and n = 1 and s0 = "sample_pair 7" and cc = one_word_context and c = sample_context
        and E = "cruntime (\<lambda>_ _ _. Stuck)"] r sample_pair(2)
    by fastforce
qed

text \<open>In thread safe code a 64-bit result whose low word is negative loses its high word: the caller finds \<open>-1\<close> in
  \<open>V1\<close> whatever the callee left there.\<close>

theorem thread_safe_result_lost:
  assumes "readable (c_alloc cc) s0 R_V0" "readable (c_alloc cc) s0 R_V1" "sint (reg_value (c_alloc cc) s0 R_V0) < 0"
    and "writable (c_alloc c) R_V0" "writable (c_alloc c) R_V1" "threadSafe (c_config c)" "threadSafe (c_config cc)"
  shows "\<exists>s1 s2. after_call (run E (return_sequence cc 2) s0) s = Fall s1 \<and> run E (pop_result c 2) s1 = Fall s2 \<and>
     reg_value (c_alloc c) s2 R_V1 = - 1"
  using assms
  by (auto simp: run_return_sequence Let_def after_call_def run_pop_result reg_value_assigned pushed64_covered ucast_scast_high)

definition threaded_context :: jctx where
  "threaded_context = sample_context\<lparr>c_config := new_Config\<lparr>threadSafe := True\<rparr>\<rparr>"

lemma thread_safe_result_lost_witness:
  "\<exists>s1 s2. after_call (run (cruntime (\<lambda>_ _ _. Stuck)) (return_sequence threaded_context 2)
       (assign (c_alloc sample_context) R_V0 (- 5) (sample_pair 7))) sample_state = Fall s1 \<and>
     run (cruntime (\<lambda>_ _ _. Stuck)) (pop_result threaded_context 2) s1 = Fall s2 \<and> reg_value (c_alloc sample_context) s2 R_V1 = - 1"
proof -
  let ?s = "assign (c_alloc sample_context) R_V0 (- 5) (sample_pair 7)"
  have r: "readable (c_alloc threaded_context) ?s R_V0" "readable (c_alloc threaded_context) ?s R_V1"
    "reg_value (c_alloc threaded_context) ?s R_V0 = - 5" "c_alloc threaded_context = c_alloc sample_context"
    by (simp_all add: threaded_context_def sample_pair_def sample_context_def readable_def reg_value_def regToLocal_def
      regIsAllocated_def ok_alloc_def inj_on_def assign_def)
  have t: "threadSafe (c_config threaded_context)" by (simp add: threaded_context_def)
  show ?thesis
    using thread_safe_result_lost [where s = sample_state and E = "cruntime (\<lambda>_ _ _. Stuck)", OF r(1,2) _ _ _ t t] sample_pair(2,3) r(3,4)
    by simp
qed

end
