(* ===== verification/ProgramProps.thy ===== *)
theory ProgramProps
  imports MethodProps Controller
begin

text \<open>
  What holds of classes and of the passes over the program: methods are found by address when the
  methods with several functions come last, branches take their delay slots, the call table stays in
  the order of its addresses, and data sections keep their alignment.
\<close>

unbundle bit_operations_syntax

subsection \<open>The order of the methods in a class\<close>

lemma skip_multi_idem: "skip_multi ms l n = (l', n') \<Longrightarrow> skip_multi ms l' n' = (l', n')"
  by (induction ms l n rule: skip_multi.induct) (auto split: if_splits)

lemma order_loop_skip: "i < length ms \<Longrightarrow> skip_multi ms l n = (l', n') \<Longrightarrow> order_loop ms i l n = order_loop ms i l' n'"
  by (subst (1 2) order_loop.simps) (simp add: skip_multi_idem Let_def)

lemma order_loop_singles:
  "i \<le> l \<Longrightarrow> l < length ms \<Longrightarrow> \<forall>j\<le>l. \<not> hasMultipleFunctions (ms ! j) \<Longrightarrow> order_loop ms i l n = Inr (ms, n)"
proof (induction "l - i" arbitrary: i)
  case 0
  then have "skip_multi ms l n = (l, n)" by (cases l) simp_all
  then show ?case using 0 by (simp add: order_loop.simps [of ms i])
next
  case (Suc d)
  then have "skip_multi ms l n = (l, n)" by (cases l) simp_all
  moreover have "order_loop ms (i + 1) l n = Inr (ms, n)" using Suc by (intro Suc.hyps(1)) auto
  ultimately show ?case using Suc.prems Suc.hyps(2) by (simp add: order_loop.simps [of ms i])
qed

lemma skip_multi_suffix:
  "ss \<noteq> [] \<Longrightarrow> \<forall>m\<in>set ss. \<not> hasMultipleFunctions m \<Longrightarrow> k \<le> length mm \<Longrightarrow> \<forall>m\<in>set mm. hasMultipleFunctions m \<Longrightarrow>
   skip_multi (ss @ mm) (length ss + k - 1) n = (length ss - 1, n + k)"
proof (induction k arbitrary: n)
  case 0
  then have "ss ! (length ss - 1) \<in> set ss" by (simp add: nth_mem)
  then show ?case using 0 by (cases "length ss - 1") (auto simp: nth_append)
next
  case (Suc k)
  then have "(ss @ mm) ! (length ss + k) = mm ! k" "mm ! k \<in> set mm" by (simp_all add: nth_append)
  moreover have "length ss + k = Suc (length ss + k - 1)" using Suc.prems(1) by (cases ss) auto
  ultimately show ?case using Suc by (metis (no_types, lifting) Suc_eq_plus1 Suc_leD add.assoc add_Suc_right add_diff_cancel_left'
      diff_Suc_1 plus_1_eq_Suc skip_multi.simps(2))
qed

lemma order_loop_suffix:
  assumes "ss \<noteq> []" "\<forall>m\<in>set ss. \<not> hasMultipleFunctions m" "\<forall>m\<in>set mm. hasMultipleFunctions m"
  shows "order_loop (ss @ mm) 0 (length (ss @ mm) - 1) 0 = Inr (ss @ mm, length mm)"
proof -
  have "order_loop (ss @ mm) 0 (length (ss @ mm) - 1) 0 = order_loop (ss @ mm) 0 (length ss - 1) (length mm)"
    using skip_multi_suffix [OF assms(1,2) order.refl assms(3), of 0] assms(1) by (intro order_loop_skip) simp_all
  also have "\<dots> = Inr (ss @ mm, length mm)"
  proof (rule order_loop_singles)
    show "length ss - 1 < length (ss @ mm)" using assms(1) by (cases ss) simp_all
    show "\<forall>j\<le>length ss - 1. \<not> hasMultipleFunctions ((ss @ mm) ! j)"
    proof (intro allI impI)
      fix j assume "j \<le> length ss - 1"
      then have "j < length ss" using assms(1) by (cases ss) simp_all
      then show "\<not> hasMultipleFunctions ((ss @ mm) ! j)" using assms(2) by (simp add: nth_append)
    qed
  qed simp
  finally show ?thesis .
qed

subsection \<open>Methods by address\<close>

text \<open>A method of one function that ends below \<open>2 ^ 31\<close>.\<close>

definition one_function :: "java_method \<Rightarrow> bool" where
  "one_function m \<longleftrightarrow> (case mt_functions m of [f] \<Rightarrow> mt_address m = fn_address f \<and> mt_size m = fn_size f \<and>
     uint (fn_address f) + int (fn_size f) < 0x80000000 | _ \<Rightarrow> False)"

lemma one_functionE:
  assumes "one_function m"
  obtains f where "mt_functions m = [f]" "mt_address m = fn_address f" "mt_size m = fn_size f"
    "uint (fn_address f) + int (fn_size f) < 0x80000000"
  using assms by (auto simp: one_function_def split: list.splits)

definition method_hi :: "java_method \<Rightarrow> int" where
  "method_hi m = uint (mt_address m) + int (mt_size m)"

lemma method_end_hi: "one_function m \<Longrightarrow> uint (method_end m) = method_hi m"
proof (elim one_functionE)
  fix f assume f: "mt_address m = fn_address f" "mt_size m = fn_size f" "uint (fn_address f) + int (fn_size f) < 0x80000000"
  then have "int (fn_size f) < 4294967296" using uint_ge_0 [of "fn_address f"] by linarith
  then have "uint (of_nat (fn_size f) :: u32) = int (fn_size f)" by (simp add: uint_nat unat_of_nat take_bit_nat_eq_self)
  then show ?thesis using f by (simp add: method_end_def method_hi_def uint_plus_if')
qed

interpretation methods: comparator method_cmp "{m. one_function m}" "\<lambda>m. uint (mt_address m)"
proof unfold_locales
  fix a b assume "a \<in> {m. one_function m}" "b \<in> {m. one_function m}"
  then have "mt_address a < 0x80000000" "mt_address b < 0x80000000"
    by (auto elim!: one_functionE simp: word_less_def)
  then show "method_cmp a b \<le> 0 \<longleftrightarrow> uint (mt_address a) \<le> uint (mt_address b)"
    by (simp add: method_cmp_def sint_diff_small)
qed

interpretation method_search: interval_search method_search_cmp UNIV "{m. one_function m}" uint "\<lambda>m. uint (mt_address m)" method_hi
proof unfold_locales
  fix k :: u32 and m assume "m \<in> {m. one_function m}"
  then have e: "uint (method_end m) = method_hi m" "uint (mt_address m) \<le> method_hi m"
    by (auto simp: method_end_hi method_hi_def)
  then show "method_search_cmp k m < 0 \<longleftrightarrow> uint k < uint (mt_address m)"
    "0 < method_search_cmp k m \<longleftrightarrow> method_hi m < uint k" "uint (mt_address m) \<le> method_hi m"
    by (auto simp: method_search_cmp_def word_le_def word_less_def)
qed

lemma one_function_covers:
  assumes "one_function m"
  shows "getFunctionByAddress m addr \<noteq> None \<longleftrightarrow> method_search.covers m addr"
proof -
  obtain f where f: "mt_functions m = [f]" "mt_address m = fn_address f" "mt_size m = fn_size f"
    using assms by (rule one_functionE)
  have "uint (fn_address f + of_nat (fn_size f)) = method_hi m"
    using method_end_hi [OF assms] f by (simp add: method_end_def)
  then show ?thesis
    using f by (simp add: getFunctionByAddress_def in_function_def method_search.covers_def word_le_def)
qed

text \<open>The functions of a program do not overlap.\<close>

definition apart :: "java_method list \<Rightarrow> bool" where
  "apart ms \<longleftrightarrow> (\<forall>m\<in>set ms. \<forall>m'\<in>set ms. m = m' \<or> method_end m < mt_address m' \<or> method_end m' < mt_address m)"

lemma apart_in_order:
  assumes "\<forall>m\<in>set ms. one_function m" "apart ms"
  shows "method_search.in_order (qsort method_cmp ms)"
proof -
  let ?ys = "qsort method_cmp ms"
  have s: "sorted (map (\<lambda>m. uint (mt_address m)) ?ys)" using assms(1) by (intro methods.qsort_sorted) auto
  have "uint (mt_address (?ys ! i)) \<le> uint (mt_address (?ys ! j)) \<and> method_hi (?ys ! i) \<le> method_hi (?ys ! j)"
    if ij: "i < j" "j < length ?ys" for i j
  proof -
    have m: "?ys ! i \<in> set ms" "?ys ! j \<in> set ms" using ij nth_mem [of _ ?ys] by (auto simp del: length_qsort)
    have le: "uint (mt_address (?ys ! i)) \<le> uint (mt_address (?ys ! j))"
      using sorted_nth_mono [OF s, of i j] ij by simp
    have "?ys ! i = ?ys ! j \<or> method_hi (?ys ! i) < uint (mt_address (?ys ! j)) \<or> method_hi (?ys ! j) < uint (mt_address (?ys ! i))"
      using assms m by (auto simp: apart_def word_less_def method_end_hi)
    then show ?thesis using le by (auto simp: method_hi_def)
  qed
  then show ?thesis using assms(1) by (auto simp: method_search.in_order_def)
qed

lemma find_index: "map_option (\<lambda>i. xs ! i) (find (\<lambda>i. P (xs ! i)) [a..<length xs]) = find P (drop a xs)"
proof (induction "length xs - a" arbitrary: a)
  case (Suc d)
  then have "[a..<length xs] = a # [Suc a..<length xs]" "drop a xs = xs ! a # drop (Suc a) xs"
    by (simp_all add: upt_conv_Cons Cons_nth_drop_Suc)
  moreover have "map_option (\<lambda>i. xs ! i) (find (\<lambda>i. P (xs ! i)) [Suc a..<length xs]) = find P (drop (Suc a) xs)"
    using Suc.hyps by (intro Suc.hyps(1)) simp
  ultimately show ?case by (simp only: find.simps) simp
qed simp

lemma find_append: "find P (xs @ ys) = (case find P xs of Some x \<Rightarrow> Some x | None \<Rightarrow> find P ys)"
  by (induction xs) simp_all

lemma find_unique: "x \<in> set xs \<Longrightarrow> P x \<Longrightarrow> \<forall>y\<in>set xs. P y \<longrightarrow> y = x \<Longrightarrow> find P xs = Some x"
  by (metis find_None_iff find_Some_iff nth_mem option.exhaust)

subsubsection \<open>Sample methods\<close>

definition plain_function :: "string \<Rightarrow> u32 \<Rightarrow> nat \<Rightarrow> func" where
  "plain_function name a n = \<lparr>fn_name = name, fn_realName = name, fn_address = a, fn_size = n, fn_bbs = [],
     fn_registerIndirectJumps = False, fn_usedInsns = [], fn_bc_size = 0, fn_maxStackHeight = 0,
     fn_registerDestinations = no_use, fn_registerSources = no_use, fn_start = False\<rparr>"

definition plain_method :: "func list \<Rightarrow> java_method" where
  "plain_method fs = (case new_JavaMethod fs 0 (length fs - 1) of Inr mt \<Rightarrow> mt)"

definition method_f :: java_method where "method_f = plain_method [plain_function ''f'' 0x1000 16]"
definition method_gh :: java_method where "method_gh = plain_method [plain_function ''g'' 0x2000 16, plain_function ''h'' 0x3000 8]"
definition method_k :: java_method where "method_k = plain_method [plain_function ''k'' 0x4000 8]"

lemmas method_defs = method_f_def method_gh_def method_k_def plain_method_def new_JavaMethod_def plain_function_def Let_def highest_address_def

text \<open>C6: In a class whose methods with one function come first and do not overlap, and whose methods with
  several functions come last, the binary search and the search behind it find the first method that
  has a function at the address, and nothing when there is none.\<close>

lemma class_lookup:
  assumes "new_JavaClass name ms first stop = Inr cl" "take (stop - first + 1) (drop first ms) = ss @ mm" "ss \<noteq> []"
    and ss: "\<forall>m\<in>set ss. one_function m" "apart ss" and mm: "\<forall>m\<in>set mm. hasMultipleFunctions m"
  shows "cl_getMethodByAddress cl addr = find (\<lambda>m. getFunctionByAddress m addr \<noteq> None) (ss @ mm)"
proof -
  have "\<forall>m\<in>set ss. \<not> hasMultipleFunctions m" using ss by (auto simp: hasMultipleFunctions_def elim!: one_functionE)
  then have cl: "cl_methods cl = qsort method_cmp ss @ mm" "cl_n_multiFunctionMethods cl = length mm" "\<not> cl_call_table cl"
    using assms(1) [unfolded new_JavaClass_def assms(2) Let_def] order_loop_suffix [OF assms(3) _ mm]
    by (auto split: if_splits)
  then have sm: "single_methods cl = qsort method_cmp ss" by (simp add: single_methods_def)
  consider i where "bsearch method_search_cmp addr (qsort method_cmp ss) = Some i" "i < length ss"
      "method_search.covers (qsort method_cmp ss ! i) addr"
    | "bsearch method_search_cmp addr (qsort method_cmp ss) = None" "\<forall>m\<in>set ss. \<not> method_search.covers m addr"
    using method_search.bsearch_finds [OF UNIV_I apart_in_order [OF ss], of addr] by auto
  then show ?thesis
  proof cases
    case (1 i)
    let ?m = "qsort method_cmp ss ! i"
    have m: "?m \<in> set ss" using 1(2) nth_mem [of i "qsort method_cmp ss"] by simp
    have "m = ?m" if "m \<in> set ss" "method_search.covers m addr" for m
    proof (rule ccontr)
      assume "m \<noteq> ?m"
      then have "method_hi m < uint (mt_address ?m) \<or> method_hi ?m < uint (mt_address m)"
        using ss m that(1) by (auto simp: apart_def word_less_def method_end_hi)
      then show False using that(2) 1(3) by (auto simp: method_search.covers_def)
    qed
    moreover have "getFunctionByAddress x addr \<noteq> None \<longleftrightarrow> method_search.covers x addr" if "x \<in> set ss" for x
      using one_function_covers ss(1) that by blast
    ultimately have "find (\<lambda>m. getFunctionByAddress m addr \<noteq> None) ss = Some ?m"
      using m 1(3) by (intro find_unique) blast+
    then have "find (\<lambda>m. getFunctionByAddress m addr \<noteq> None) (ss @ mm) = Some ?m"
      by (simp add: find_append)
    then show ?thesis using 1 cl sm by (simp add: cl_getMethodByAddress_def cl_getMethodIndex_def nth_append)
  next
    case 2
    then have "find (\<lambda>m. getFunctionByAddress m addr \<noteq> None) ss = None"
      using ss(1) one_function_covers by (fastforce simp: find_None_iff)
    then have "find (\<lambda>m. getFunctionByAddress m addr \<noteq> None) (ss @ mm) = find (\<lambda>m. getFunctionByAddress m addr \<noteq> None) mm"
      by (simp add: find_append)
    then show ?thesis
      using 2 cl sm find_index [of "qsort method_cmp ss @ mm" "\<lambda>m. getFunctionByAddress m addr \<noteq> None" "length ss"]
      by (simp add: cl_getMethodByAddress_def cl_getMethodIndex_def find_multi_def)
  qed
qed

lemma class_lookup_witness: "\<exists>cl. new_JavaClass ''Cibyl'' [method_f, method_gh] 0 1 = Inr cl \<and> cl_getMethodByAddress cl 0x2004 = Some method_gh"
proof -
  have m: "\<forall>m\<in>set [method_f]. one_function m" "\<forall>m\<in>set [method_gh]. hasMultipleFunctions m" "apart [method_f]"
    by (simp_all add: method_defs one_function_def hasMultipleFunctions_def apart_def)
  have o: "order_loop [method_f, method_gh] 0 (Suc 0) 0 = Inr ([method_f, method_gh], 1)"
    using order_loop_suffix [of "[method_f]" "[method_gh]"] m by (simp add: hasMultipleFunctions_def one_function_def split: list.splits)
  then obtain cl where cl: "new_JavaClass ''Cibyl'' [method_f, method_gh] 0 1 = Inr cl" by (simp add: new_JavaClass_def Let_def)
  have "cl_getMethodByAddress cl 0x2004 = find (\<lambda>m. getFunctionByAddress m 0x2004 \<noteq> None) ([method_f] @ [method_gh])"
    using m by (intro class_lookup [OF cl]) simp_all
  also have "\<dots> = Some method_gh" by (simp add: method_defs getFunctionByAddress_def in_function_def)
  finally show ?thesis using cl by blast
qed


subsection \<open>A class whose methods are in the wrong order\<close>

lemma bsearch_loop_None: "\<forall>x\<in>set xs. cmp k x \<noteq> 0 \<Longrightarrow> u \<le> length xs \<Longrightarrow> bsearch_loop cmp k xs l u = None"
proof (induction cmp k xs l u rule: bsearch_loop.induct)
  case (1 cmp k xs l u)
  then have "l < u \<Longrightarrow> cmp k (xs ! ((l + u) div 2)) \<noteq> 0" by (auto simp: nth_mem)
  then show ?case using 1 by (subst bsearch_loop.simps) (auto simp: Let_def)
qed

lemma order_loop_sandwich:
  "\<not> hasMultipleFunctions s \<Longrightarrow> hasMultipleFunctions m \<Longrightarrow> \<not> hasMultipleFunctions s' \<Longrightarrow> order_loop [s, m, s'] 0 2 0 = Inr ([s, m, s'], 1)"
  by (simp add: order_loop.simps [of _ "Suc (Suc 0)"] order_loop.simps [of _ "Suc 0"] order_loop.simps [of _ 0]
      order_loop.simps [of _ "Suc (Suc (Suc 0))"] swap_at_def numeral_2_eq_2 numeral_3_eq_3 Let_def)

text \<open>When a method with several functions stands between two with one, the constructor swaps it to the
  end and back: it counts the last method as the one with several functions, and the functions of the
  other that lie below the address of its last function are not found.\<close>

lemma class_order_wrong:
  assumes "\<not> hasMultipleFunctions s" "hasMultipleFunctions m" "\<not> hasMultipleFunctions s'"
    and cl: "new_JavaClass name [s, m, s'] 0 2 = Inr cl"
    and f: "f \<in> set (mt_functions m)" "in_function (fn_address f) f" "fn_address f < mt_address m"
    and "method_end s < fn_address f" "getFunctionByAddress s' (fn_address f) = None"
  shows "getFunctionByAddress m (fn_address f) \<noteq> None \<and> cl_getMethodByAddress cl (fn_address f) = None"
proof
  show "getFunctionByAddress m (fn_address f) \<noteq> None"
    using f(1,2) by (auto simp: getFunctionByAddress_def find_None_iff)
  have c: "cl_methods cl = qsort method_cmp [s, m] @ [s']" "cl_n_multiFunctionMethods cl = 1" "\<not> cl_call_table cl"
    using cl order_loop_sandwich [OF assms(1-3)] by (auto simp: new_JavaClass_def numeral_3_eq_3 numeral_2_eq_2)
  have "method_search_cmp (fn_address f) x \<noteq> 0" if "x \<in> {s, m}" for x
    using that f(3) assms(8) by (auto simp: method_search_cmp_def)
  then have "bsearch method_search_cmp (fn_address f) (single_methods cl) = None"
    by (simp add: bsearch_def bsearch_loop_None single_methods_def c)
  moreover have "find_multi cl (fn_address f) = None"
    using assms(9) by (simp add: find_multi_def c nth_append)
  ultimately show "cl_getMethodByAddress cl (fn_address f) = None"
    by (simp add: cl_getMethodByAddress_def cl_getMethodIndex_def)
qed

lemma class_order_wrong_witness:
  "\<exists>cl. new_JavaClass ''Cibyl'' [method_f, method_gh, method_k] 0 2 = Inr cl \<and> getFunctionByAddress method_gh 0x2000 \<noteq> None \<and> cl_getMethodByAddress cl 0x2000 = None"
proof -
  have m: "\<not> hasMultipleFunctions method_f" "hasMultipleFunctions method_gh" "\<not> hasMultipleFunctions method_k"
    by (simp_all add: method_defs hasMultipleFunctions_def)
  obtain cl where cl: "new_JavaClass ''Cibyl'' [method_f, method_gh, method_k] 0 2 = Inr cl"
    using order_loop_sandwich [OF m] by (simp add: new_JavaClass_def Let_def numeral_2_eq_2 numeral_3_eq_3)
  have "getFunctionByAddress method_gh (fn_address (plain_function ''g'' 0x2000 16)) \<noteq> None \<and>
      cl_getMethodByAddress cl (fn_address (plain_function ''g'' 0x2000 16)) = None"
    by (rule class_order_wrong [OF m cl]) (simp_all add: method_defs in_function_def method_end_def getFunctionByAddress_def)
  then show ?thesis using cl by (simp add: plain_function_def)
qed

subsection \<open>Pairing branches with their delay slots\<close>

text \<open>What the loop over the text section computes: a branch takes the instruction behind it into its delay slot.\<close>

fun pair_slots :: "insn list \<Rightarrow> insn list" where
  "pair_slots [] = []"
| "pair_slots [i] = [i]"
| "pair_slots (i # d # is) =
     (if hasDelaySlot i then setDelayed (Some d) i # createDelaySlotNop (i_address d) # pair_slots is
      else i # pair_slots (d # is))"

lemma createDelaySlotNop_no_slot [simp]: "\<not> hasDelaySlot (createDelaySlotNop a)"
  by (simp add: createDelaySlotNop_def hasDelaySlot_def new_Instruction_def DelaySlotNop_class_def Nop_class_def instruction_class_def)

lemma attach_pairs: "l = [] \<or> \<not> hasDelaySlot (hd l) \<Longrightarrow> rev (foldl attach l is) = rev l @ pair_slots is"
proof (induction "is" arbitrary: l rule: pair_slots.induct)
  case (2 i)
  then show ?case by (cases l) simp_all
next
  case (3 i d "is")
  then have a: "attach l i = i # l" by (cases l) simp_all
  show ?case
  proof (cases "hasDelaySlot i")
    case True
    then show ?thesis using 3(1) [of "createDelaySlotNop (i_address d) # setDelayed (Some d) i # l"] a by simp
  next
    case False
    then show ?thesis using 3(2) [of "i # l"] a by simp
  qed
qed simp

primrec decoded :: "u32 \<Rightarrow> u32 list \<Rightarrow> string + insn list" where
  "decoded a [] = Inr []"
| "decoded a (w # ws) = (case create a w of Inl msg \<Rightarrow> Inl msg | Inr i \<Rightarrow> map_sum id (\<lambda>is. i # is) (decoded (a + 4) ws))"

lemma decode_text_attach: "decode_text a ws ds = map_sum id (\<lambda>is. rev (foldl attach ds is)) (decoded a ws)"
proof (induction ws arbitrary: a ds)
  case (Cons w ws)
  then show ?case by (cases "create a w"; cases "decoded (a + 4) ws") simp_all
qed simp

text \<open>C22: The loop over the text section decodes every word, and every branch holds the instruction behind it
  in its delay slot, where a no-op at the same address takes its place.\<close>

lemma delay_slots: "pass0_instructions e = map_sum id pair_slots (decoded (e_entry e) (e_text e))"
  by (cases "decoded (e_entry e) (e_text e)") (simp_all add: pass0_instructions_def decode_text_attach attach_pairs)

subsection \<open>The call table\<close>

definition increasing :: "func list \<Rightarrow> bool" where
  "increasing fs \<longleftrightarrow> sorted_wrt (<) (map fn_address fs)"

lemma increasing_nil: "increasing []"
  by (simp add: increasing_def)

lemma set_insert_by_address [simp]: "set (insert_by_address f fs) = insert f (set fs)"
  by (induction f fs rule: insert_by_address.induct) auto

lemma insert_by_address_increasing:
  "increasing fs \<Longrightarrow> fn_address f \<notin> fn_address ` set fs \<Longrightarrow> increasing (insert_by_address f fs)"
proof (induction f fs rule: insert_by_address.induct)
  case (2 f g gs)
  then show ?case by (auto simp: increasing_def)
qed (simp add: increasing_def)

lemma ct_addFunction_increasing [simp]: "increasing t \<Longrightarrow> increasing (ct_addFunction f t)"
  unfolding ct_addFunction_def list_ex_iff by (auto intro!: insert_by_address_increasing)

lemma ct_addFunction_addresses: "fn_address ` set (ct_addFunction f t) = insert (fn_address f) (fn_address ` set t)"
proof -
  have "fn_address f \<in> fn_address ` set t" if "\<exists>g\<in>set t. fn_address g = fn_address f" using that by (metis image_eqI)
  then show ?thesis unfolding ct_addFunction_def list_ex_iff by auto
qed

lemma map_sum_Inr: "map_sum id f x = Inr y \<longleftrightarrow> (\<exists>z. x = Inr z \<and> y = f z)"
  by (cases x) auto

lemma foldl_increasing: "increasing t \<Longrightarrow> increasing (foldl (\<lambda>t f. ct_addFunction f t) t fs)"
  by (induction fs arbitrary: t) simp_all

lemma fold_right_invariant:
  "fold_right f xs st = Inr st' \<Longrightarrow> P st \<Longrightarrow> (\<And>x st st'. f x st = Inr st' \<Longrightarrow> P st \<Longrightarrow> P st') \<Longrightarrow> P st'"
  by (induction xs arbitrary: st) (auto split: sum.splits)

lemma table_with_increasing: "table_with mt a t = Inr t' \<Longrightarrow> increasing t \<Longrightarrow> increasing t'"
  by (auto simp: table_with_def split: option.splits if_splits)

lemma label_classes_increasing: "label_classes a cls t l = Inr (cls', t', l') \<Longrightarrow> increasing t \<Longrightarrow> increasing t'"
  by (induction a cls t l arbitrary: cls' rule: label_classes.induct)
    (auto simp: map_sum_Inr split: option.splits sum.splits dest: table_with_increasing)

lemma lookupDataAddresses_increasing:
  "lookupDataAddresses e vs st = Inr st' \<Longrightarrow> increasing (ct_table st) \<Longrightarrow> increasing (ct_table st')"
  by (induction vs arbitrary: st)
    (auto simp: lookup_word_def Let_def map_sum_Inr split: sum.splits if_splits dest: label_classes_increasing)

lemma lookupRelocations_increasing:
  assumes "lookupRelocations e cl st = Inr st'" "increasing (ct_table st)"
  shows "increasing (ct_table st')"
proof -
  obtain st1 where st1: "fold_right lookup_reloc (e_relocs e) st = Inr st1"
      "fold_right (\<lambda>(hi, lo). add_hilo e hi lo) (concat (map (hilo_pairs e) (reloc_limits e cl st1))) st1 = Inr st'"
    using assms(1) by (auto simp: lookupRelocations_def split: sum.splits)
  have "increasing (ct_table st1)"
    by (rule fold_right_invariant [where P = "\<lambda>st. increasing (ct_table st)", OF st1(1) assms(2)])
      (auto simp: lookup_reloc_def Let_def map_sum_Inr split: option.splits if_splits dest: table_with_increasing)
  then show ?thesis
    by (rule fold_right_invariant [where P = "\<lambda>st. increasing (ct_table st)", OF st1(2)])
      (auto simp: add_hilo_def Let_def split: option.splits if_splits sum.splits)
qed

lemma find_catches_table: "find_catches e st = Inr st' \<Longrightarrow> ct_table st' = ct_table st"
  unfolding find_catches_def
  by (erule fold_right_invariant [where P = "\<lambda>st'. ct_table st' = ct_table st"])
    (auto simp: try_catch_def pushTryStack_def popTryStack_def panic_if_def Let_def map_sum_Inr split: option.splits if_splits sum.splits list.splits)

lemma pass1_class_increasing:
  "pass1_class e k (st, marks, ok) = Inr (st', marks', ok') \<Longrightarrow> increasing (ct_table st) \<Longrightarrow> increasing (ct_table st')"
  by (auto simp: pass1_class_def map_sum_Inr split: sum.splits if_splits dest!: lookupRelocations_increasing)

subsubsection \<open>A sample program\<close>

definition sample_elf :: elf where
  "sample_elf = \<lparr>e_entry = 0x1000, e_text = [0xfefe0004, 0xfefe0004], e_functions = [\<lparr>ef_name = ''start'', ef_addr = 0x1000, ef_size = 8, ef_local = False, ef_referenced = True\<rparr>],
     e_relocs = [], e_data = [([0, 0, 0x10, 0], 4), ([5], 8)], e_args = (\<lambda>_. None), e_exported = None,
     e_exceptions = (\<lambda>_. None), e_syscalls = (\<lambda>_. None)\<rparr>"

lemma create_argument: "create a 0xfefe0004 = Inr (new_Instruction SyscallRegisterArgument a CIBYL_REGISTER_ARGUMENT R_ZERO R_ZERO R_ZERO 4)"
  by (simp add: create_def)

abbreviation i_arg :: "u32 \<Rightarrow> insn" where
  "i_arg a \<equiv> new_Instruction SyscallRegisterArgument a CIBYL_REGISTER_ARGUMENT R_ZERO R_ZERO R_ZERO 4"

lemma sample_instructions: "pass0_instructions sample_elf = Inr [i_arg 0x1000, i_arg 0x1004]"
  by (simp add: delay_slots sample_elf_def create_argument hasDelaySlot_def SyscallRegisterArgument_class_def instruction_class_def new_Instruction_def)

lemmas load_defs = make_functions_def new_Controller_def new_Config_def sample_elf_def is_pruned_def make_function_def
  new_StartFunction_def new_Function_def Let_def opcodes_of_def hasDelaySlot_def SyscallRegisterArgument_class_def
  instruction_class_def new_Instruction_def isReturnJump_def hasPrefix_def markOpcodeUsed_def new_BasicBlock_def
  make_methods_def coloc_lookup_def new_JavaMethod_def insn_bytecode_size_def allocateClasses_def allocate_from.simps
  new_JavaClass_def order_loop.simps hasMultipleFunctions_def qsort_def function_name_def

lemma context_config: "c_config (context_of e st) = ct_config st"
  by (simp add: context_of_def Let_def)

lemma sample_pass0: "\<exists>st. pass0 sample_elf (new_Controller new_Config) = Inr st \<and> map fn_address (ct_table st) = [0x1000] \<and>
    (\<exists>st'. controller_pass1 sample_elf st = Inr (st', True))"
  apply (simp add: pass0_def sample_instructions)
  apply (simp add: load_defs controller_pass1_def ct_addFunction_def)
  apply (simp add: lookup_word_def Let_def word_size cl_getMethodByAddress_def cl_getMethodIndex_def single_methods_def bsearch_def bsearch_loop.simps
   method_search_cmp_def call_table_class_def highest_address_def method_end_def table_with_def getFunctionByAddress_def in_function_def ct_addFunction_def label_method_def
   addJumptabLabel_def)
  apply (simp add: find_catches_def program_insns_def method_insns_def try_catch_def is_try_def)
  apply (simp add: pass1_class_def lookupRelocations_def reloc_limits_def hilo_pairs_def new_HiloRelocLimit_def isValid_def cl_pass1_def upt_conv_Cons)
  apply (simp add: map_sum_Inr mt_pass1_def pass1_function_def fn_pass1_def start_pass1_def context_config  bb_pass1_def replace_tail_call_def Let_def prune_def pruned_def method_usage_def hasMultipleFunctions_def
        method_arguments_def method_result_def setReturnSize_def result_words_used_def clobbersReg_def pass1_true_def
        registersToPass_filter argument_list_def bb_fillDestinations_def bb_fillSources_def with_parts_def
        fillDestinations_def fillSources_def addToRegisterUsage_def fn_fillDestinations_def fn_fillSources_def no_use_def
        SyscallRegisterArgument_class_def instruction_class_def)
  apply (simp add: pass1_class_def lookupRelocations_def reloc_limits_def)
  apply blast
  done

text \<open>C21: After the first two passes the functions of the call table stand in strictly increasing order of
  their addresses, whatever data, relocations and instructions put them there, so that no case of the
  switch that is generated from it occurs twice.\<close>

lemma call_table_increasing:
  assumes "pass0 e st = Inr st0" "controller_pass1 e st0 = Inr (st1, ok)"
  shows "increasing (ct_table st1)"
proof -
  have "increasing (ct_table st0)"
    using assms(1) foldl_increasing [OF increasing_nil]
    by (auto simp: pass0_def Let_def map_sum_Inr increasing_nil split: sum.splits if_splits)
  moreover obtain st2 st3 st4 marks where st: "lookupDataAddresses e (concat (map (\<lambda>sec. be_words (fst sec)) (e_data e))) st0 = Inr st2"
      "find_catches e st2 = Inr st3" "fold_right (pass1_class e) [0..<length (ct_classes st3)] (st3, [], True) = Inr (st4, marks, ok)"
      "ct_table st1 = ct_table st4"
    using assms(2) by (auto simp: controller_pass1_def map_sum_Inr split: sum.splits)
  ultimately have "increasing (ct_table st3)"
    using lookupDataAddresses_increasing find_catches_table by metis
  then have "case (st4, marks, ok) of (st, _) \<Rightarrow> increasing (ct_table st)"
    by (intro fold_right_invariant [where P = "\<lambda>acc. case acc of (st, _) \<Rightarrow> increasing (ct_table st)", OF st(3)])
      (auto dest: pass1_class_increasing)
  then show ?thesis using st(4) by simp
qed

lemma call_table_increasing_witness:
  "\<exists>st st'. pass0 sample_elf (new_Controller new_Config) = Inr st \<and> map fn_address (ct_table st) = [0x1000] \<and>
     controller_pass1 sample_elf st = Inr (st', True) \<and> increasing (ct_table st')"
proof -
  obtain st st' where "pass0 sample_elf (new_Controller new_Config) = Inr st" "map fn_address (ct_table st) = [0x1000]"
      "controller_pass1 sample_elf st = Inr (st', True)"
    using sample_pass0 by auto
  then show ?thesis using call_table_increasing [of sample_elf "new_Controller new_Config" st st' True] by auto
qed

subsection \<open>The data sections\<close>

lemma uint_and_mask: "uint (a AND mask k) = uint a mod 2 ^ k"
  by (simp only: take_bit_eq_mask [symmetric] unsigned_take_bit_eq take_bit_eq_mod [of k "uint a"])

lemma section_pad_bounds:
  assumes "k < 32"
  shows "section_pad addr (2 ^ k) < 2 ^ k" "2 ^ k dvd uint addr + int (section_pad addr (2 ^ k))"
proof -
  let ?m = "of_nat (2 ^ k) - 1 :: u32"
  have m: "?m = mask k" by (simp add: mask_eq_exp_minus_1)
  have a: "uint (addr AND ?m) = uint addr mod 2 ^ k"
    unfolding m by (rule uint_and_mask)
  have "uint (- addr) mod 2 ^ k = (- uint addr) mod 2 ^ k"
  proof -
    have "(2::int) ^ k dvd 2 ^ 32" using assms by (intro le_imp_power_dvd) simp
    then show ?thesis by (simp add: uint_word_ariths mod_mod_cancel)
  qed
  then have n: "uint (- addr AND ?m) = (- uint addr) mod 2 ^ k"
    unfolding m uint_and_mask by simp
  have p: "int (section_pad addr (2 ^ k)) = (- uint addr) mod 2 ^ k"
  proof (cases "addr AND ?m = 0")
    case True
    then have "uint addr mod 2 ^ k = 0" using a by simp
    then have "(- uint addr) mod 2 ^ k = 0" by (simp add: mod_eq_0_iff_dvd)
    then show ?thesis using True by (simp add: section_pad_def Let_def)
  next
    case False
    then show ?thesis using n by (simp add: section_pad_def Let_def uint_nat [symmetric] del: uint_nat)
  qed
  have "int (section_pad addr (2 ^ k)) < 2 ^ k" unfolding p by simp
  then show "section_pad addr (2 ^ k) < 2 ^ k" by (metis of_nat_less_iff of_nat_numeral of_nat_power)
  show "2 ^ k dvd uint addr + int (section_pad addr (2 ^ k))"
    unfolding p by (simp add: dvd_eq_mod_eq_0 mod_add_right_eq)
qed

definition power_of_2 :: "nat \<Rightarrow> bool" where
  "power_of_2 n \<longleftrightarrow> list_ex (\<lambda>k. n = 2 ^ k) [0..<32]"

lemma section_pad_less: "power_of_2 a \<Longrightarrow> section_pad addr a < a"
  using section_pad_bounds(1) by (auto simp: power_of_2_def list_ex_iff)

lemma section_pad_aligned:
  assumes "power_of_2 a" "uint addr = int n"
  shows "a dvd n + section_pad addr a"
proof -
  obtain k where k: "a = 2 ^ k" "k < 32" using assms(1) by (auto simp: power_of_2_def list_ex_iff)
  have "int (2 ^ k) dvd int (n + section_pad addr (2 ^ k))"
    using section_pad_bounds(2) [OF k(2), of addr] assms(2) by simp
  then show "a dvd n + section_pad addr a" unfolding k(1) int_dvd_int_iff .
qed

abbreviation write_sections :: "u32 \<times> u8 list \<Rightarrow> (u8 list \<times> nat) list \<Rightarrow> u32 \<times> u8 list" where
  "write_sections \<equiv> foldl (\<lambda>st (bytes, alignment). addAlignedSection st bytes alignment)"

lemma write_sections_prefix: "\<exists>post. snd (write_sections st secs) = snd st @ post"
proof (induction secs arbitrary: st)
  case (Cons sec secs)
  have "\<exists>p. snd (addAlignedSection st (fst sec) (snd sec)) = snd st @ p"
    by (auto simp: addAlignedSection_def Let_def split: prod.splits)
  then show ?case using Cons [of "addAlignedSection st (fst sec) (snd sec)"] by (auto simp: case_prod_beta)
qed simp

lemma write_sections_layout:
  "\<lbrakk>\<forall>sec\<in>set secs. power_of_2 (snd sec); uint addr = int (length out); length (snd (write_sections (addr, out) secs)) < 2 ^ 32; j < length secs\<rbrakk> \<Longrightarrow>
   \<exists>pre post. snd (write_sections (addr, out) secs) = pre @ fst (secs ! j) @ post \<and> snd (secs ! j) dvd length pre"
proof (induction secs arbitrary: addr out j)
  case (Cons sec secs)
  obtain bytes a where sec: "sec = (bytes, a)" by (cases sec)
  let ?pad = "section_pad addr a"
  let ?addr = "addr + of_nat ?pad + of_nat (length bytes)" and ?out = "out @ replicate ?pad 0 @ bytes"
  have s: "write_sections (addr, out) (sec # secs) = write_sections (?addr, ?out) secs"
    by (simp add: sec addAlignedSection_def Let_def)
  obtain post where post: "snd (write_sections (?addr, ?out) secs) = ?out @ post"
    using write_sections_prefix [of "(?addr, ?out)" secs] by auto
  then have len: "length ?out < 2 ^ 32" using Cons.prems(3) s by simp
  have "addr = of_nat (length out)" using Cons.prems(2) by (metis of_int_of_nat_eq word_of_int_uint)
  then have "?addr = of_nat (length ?out)" by simp
  then have addr: "uint ?addr = int (length ?out)"
    using len by (simp only: uint_nat unat_of_nat) (simp add: take_bit_nat_eq_self)
  show ?case
  proof (cases j)
    case 0
    have "a dvd length out + ?pad" using section_pad_aligned Cons.prems(1,2) sec by simp
    then show ?thesis using 0 sec s post by (intro exI [of _ "out @ replicate ?pad 0"] exI [of _ post]) simp
  next
    case (Suc i)
    then show ?thesis using Cons.IH [OF _ addr, of i] Cons.prems s by simp
  qed
qed simp

lemma write_sections_length:
  "\<forall>sec\<in>set secs. power_of_2 (snd sec) \<Longrightarrow>
   length (snd (write_sections (addr, out) secs)) \<le> length out + sum_list (map (\<lambda>(bytes, a). length bytes + a) secs)"
proof (induction secs arbitrary: addr out)
  case (Cons sec secs)
  obtain bytes a where sec: "sec = (bytes, a)" by (cases sec)
  let ?addr = "addr + of_nat (section_pad addr a) + of_nat (length bytes)" and ?out = "out @ replicate (section_pad addr a) 0 @ bytes"
  have "length (snd (write_sections (?addr, ?out) secs)) \<le> length ?out + sum_list (map (\<lambda>(bytes, a). length bytes + a) secs)"
    using Cons.prems by (intro Cons.IH) simp
  moreover have "section_pad addr a < a" using Cons.prems sec by (simp add: section_pad_less)
  ultimately show ?case by (simp add: sec addAlignedSection_def Let_def)
qed simp

text \<open>The file as it should be: each section at the first multiple of its alignment that is not below the end of the one before,
  with zeros in between.\<close>

primrec placed :: "nat \<Rightarrow> (u8 list \<times> nat) list \<Rightarrow> u8 list" where
  "placed n [] = []"
| "placed n (sec # secs) =
     (let start = snd sec * ((n + snd sec - 1) div snd sec)
      in replicate (start - n) 0 @ fst sec @ placed (start + length (fst sec)) secs)"

lemma section_pad_least:
  assumes "power_of_2 a" "uint addr = int n"
  shows "a * ((n + a - 1) div a) = n + section_pad addr a"
proof -
  let ?p = "section_pad addr a"
  have p: "?p < a" by (rule section_pad_less [OF assms(1)])
  obtain q where q: "n + ?p = a * q" using section_pad_aligned [OF assms] by (auto simp: dvd_def)
  then have "q * a \<le> n + a - 1" "n + a - 1 < Suc q * a" using p by (simp_all add: mult.commute)
  then have "(n + a - 1) div a = q" by (intro div_nat_eqI) (simp_all add: mult.commute)
  then show ?thesis using q by simp
qed

lemma write_sections_placed:
  "\<lbrakk>\<forall>sec\<in>set secs. power_of_2 (snd sec); uint addr = int (length out);
     length out + sum_list (map (\<lambda>(bytes, a). length bytes + a) secs) < 2 ^ 32\<rbrakk> \<Longrightarrow>
   snd (write_sections (addr, out) secs) = out @ placed (length out) secs"
proof (induction secs arbitrary: addr out)
  case (Cons sec secs)
  obtain bytes a where sec: "sec = (bytes, a)" by (cases sec)
  let ?pad = "section_pad addr a"
  let ?addr = "addr + of_nat ?pad + of_nat (length bytes)" and ?out = "out @ replicate ?pad 0 @ bytes"
  have s: "write_sections (addr, out) (sec # secs) = write_sections (?addr, ?out) secs"
    by (simp add: sec addAlignedSection_def Let_def)
  have pad: "?pad < a" using Cons.prems(1) sec by (simp add: section_pad_less)
  then have sum: "length ?out + sum_list (map (\<lambda>(bytes, a). length bytes + a) secs) < 2 ^ 32"
    using Cons.prems(3) sec by simp
  have "addr = of_nat (length out)" using Cons.prems(2) by (metis of_int_of_nat_eq word_of_int_uint)
  then have "?addr = of_nat (length ?out)" by simp
  then have addr: "uint ?addr = int (length ?out)"
    using sum by (simp only: uint_nat unat_of_nat) (simp add: take_bit_nat_eq_self)
  have "a * ((length out + a - 1) div a) = length out + ?pad"
    by (rule section_pad_least) (use Cons.prems(1,2) sec in simp_all)
  then have "out @ placed (length out) (sec # secs) = ?out @ placed (length ?out) secs"
    by (simp add: sec Let_def add.assoc)
  moreover have "snd (write_sections (?addr, ?out) secs) = ?out @ placed (length ?out) secs"
    using Cons.prems(1) by (intro Cons.IH [OF _ addr sum]) simp
  ultimately show ?case unfolding s by simp
qed simp

text \<open>C20: the data file holds the sections in their order and unchanged, each at the first multiple of its alignment behind the
  one before, so that less than its alignment is filled up in front of it, with zeros.  It stays below \<open>2 ^ 32\<close>
  when the sections with their alignments do.\<close>

lemma data_layout:
  assumes "\<forall>sec\<in>set (e_data e). power_of_2 (snd sec)" "sum_list (map (\<lambda>(bytes, a). length bytes + a) (e_data e)) < 2 ^ 32"
  shows "data_file e = placed 0 (e_data e) \<and> length (data_file e) < 2 ^ 32 \<and>
    (\<forall>j<length (e_data e). \<exists>pre post. data_file e = pre @ fst (e_data e ! j) @ post \<and> snd (e_data e ! j) dvd length pre)"
proof -
  have "length (data_file e) < 2 ^ 32"
    using write_sections_length [OF assms(1), of 0 "[]"] assms(2) by (simp add: data_file_def)
  then show ?thesis
    using write_sections_layout [OF assms(1), of 0 "[]"] write_sections_placed [OF assms(1), of 0 "[]"] assms(2) by (simp add: data_file_def)
qed

lemma data_layout_witness: "data_file sample_elf = [0, 0, 0x10, 0, 0, 0, 0, 0, 5]"
proof -
  have e: "e_data sample_elf = [([0, 0, 0x10, 0], 4), ([5], 8)]" by (simp add: sample_elf_def)
  have "\<forall>sec\<in>set (e_data sample_elf). power_of_2 (snd sec)"
    by (simp add: e power_of_2_def upt_rec_numeral upt_conv_Cons)
  then have "data_file sample_elf = placed 0 (e_data sample_elf)" using data_layout [of sample_elf] by (simp add: e)
  moreover have "placed 0 [([0, 0, 0x10, 0], 4), ([5], 8)] = [0, 0, 0x10, 0, 0, 0, 0, 0, 5]" by code_simp
  ultimately show ?thesis by (simp only: e)
qed

end
