(* ===== verification/MethodRun.thy ===== *)
theory MethodRun
  imports MethodProps
begin

text \<open>
  Running the code of a whole method, with its labels, and where the code of the instructions of a
  function stands in it.  A piece of code runs inside the method as it runs on its own.
\<close>

unbundle bit_operations_syntax

subsection \<open>Running the code of a method\<close>

definition label_pos :: "jinsn list \<Rightarrow> jlabel \<Rightarrow> nat option" where
  "label_pos code l = find (\<lambda>k. code ! k = Label l) [0..<length code]"

inductive jmove :: "jenv \<Rightarrow> jinsn list \<Rightarrow> nat \<times> jstate \<Rightarrow> nat \<times> jstate \<Rightarrow> bool" for E code where
  Next: "k < length code \<Longrightarrow> step E (code ! k) s = Fall s' \<Longrightarrow> jmove E code (k, s) (Suc k, s')"
| Jumps: "k < length code \<Longrightarrow> step E (code ! k) s = Jump l s' \<Longrightarrow> label_pos code l = Some k' \<Longrightarrow> jmove E code (k, s) (k', s')"

code_pred jmove .

inductive_cases jmoveE: "jmove E code (k, s) c"

abbreviation jmoves :: "jenv \<Rightarrow> jinsn list \<Rightarrow> nat \<times> jstate \<Rightarrow> nat \<times> jstate \<Rightarrow> bool" where
  "jmoves E code \<equiv> (jmove E code)\<^sup>*\<^sup>*"

definition returns :: "jenv \<Rightarrow> jinsn list \<Rightarrow> nat \<times> jstate \<Rightarrow> jval option \<Rightarrow> jstate \<Rightarrow> bool" where
  "returns E code cf v s \<longleftrightarrow>
     (\<exists>k s'. jmoves E code cf (k, s') \<and> k < length code \<and> step E (code ! k) s' = Returns v s)"

lemma returns_moves: "jmoves E code cf cf' \<Longrightarrow> returns E code cf' v s \<Longrightarrow> returns E code cf v s"
  by (auto simp: returns_def intro: rtranclp_trans)

lemma drop_ConsD: "drop k xs = x # ys \<Longrightarrow> k < length xs \<and> xs ! k = x \<and> drop (Suc k) xs = ys"
  by (metis drop_Suc drop_all list.distinct(1) list.sel(3) not_le nth_via_drop tl_drop)

text \<open>A piece of the code runs as it does on its own.\<close>

lemma exec_moves:
  "drop pc code = blk @ rest \<Longrightarrow> exec E blk s = Fall s' \<Longrightarrow> jmoves E code (pc, s) (pc + length blk, s')"
proof (induction blk arbitrary: pc s)
  case (Cons i blk)
  then obtain s1 where s1: "step E i s = Fall s1" "exec E blk s1 = Fall s'" by (auto split: jout.splits)
  have pc: "pc < length code" "code ! pc = i" "drop (Suc pc) code = blk @ rest"
    using drop_ConsD [of pc code i "blk @ rest"] Cons.prems(1) by simp_all
  have "jmove E code (pc, s) (Suc pc, s1)" using pc s1 by (auto intro: jmove.Next)
  moreover have "jmoves E code (Suc pc, s1) (Suc pc + length blk, s')" by (rule Cons.IH [OF pc(3) s1(2)])
  ultimately show ?case by simp
qed simp

lemma exec_jumps:
  "drop pc code = blk @ rest \<Longrightarrow> exec E blk s = Jump l s' \<Longrightarrow> label_pos code l = Some k \<Longrightarrow> jmoves E code (pc, s) (k, s')"
proof (induction blk arbitrary: pc s)
  case (Cons i blk)
  have pc: "pc < length code" "code ! pc = i" "drop (Suc pc) code = blk @ rest"
    using drop_ConsD [of pc code i "blk @ rest"] Cons.prems(1) by simp_all
  show ?case
  proof (cases "step E i s")
    case (Fall s1)
    then have "jmoves E code (Suc pc, s1) (k, s')" using Cons pc by auto
    moreover have "jmove E code (pc, s) (Suc pc, s1)" using pc Fall by (auto intro: jmove.Next)
    ultimately show ?thesis by simp
  next
    case (Jump l1 s1)
    then have "l1 = l" "s1 = s'" using Cons.prems(2) by auto
    then show ?thesis using pc Jump Cons.prems(3) by (blast intro: jmove.Jumps r_into_rtranclp)
  qed (use Cons.prems in auto)
qed simp

lemma exec_returns:
  "drop pc code = blk @ rest \<Longrightarrow> exec E blk s = Returns v s' \<Longrightarrow> returns E code (pc, s) v s'"
proof (induction blk arbitrary: pc s)
  case (Cons i blk)
  have pc: "pc < length code" "code ! pc = i" "drop (Suc pc) code = blk @ rest"
    using drop_ConsD [of pc code i "blk @ rest"] Cons.prems(1) by simp_all
  show ?case
  proof (cases "step E i s")
    case (Fall s1)
    then have "returns E code (Suc pc, s1) v s'" using Cons pc by auto
    moreover have "jmove E code (pc, s) (Suc pc, s1)" using pc Fall by (auto intro: jmove.Next)
    ultimately show ?thesis by (blast intro: returns_moves r_into_rtranclp)
  next
    case (Returns v1 s1)
    then show ?thesis using pc Cons.prems(2) by (auto simp: returns_def)
  qed (use Cons.prems in auto)
qed simp

text \<open>The assembler refuses a label that is defined twice.\<close>

fun labels_of :: "jinsn list \<Rightarrow> jlabel list" where
  "labels_of (Label l # is) = l # labels_of is"
| "labels_of (_ # is) = labels_of is"
| "labels_of [] = []"

lemma labels_of_append [simp]: "labels_of (xs @ ys) = labels_of xs @ labels_of ys"
  by (induction xs rule: labels_of.induct) simp_all

lemma labels_of_mem: "Label l \<in> set code \<Longrightarrow> l \<in> set (labels_of code)"
  by (induction code rule: labels_of.induct) auto

lemma label_pos_unique:
  assumes "distinct (labels_of code)" "drop k code = Label l # rest"
  shows "label_pos code l = Some k"
proof -
  have k: "k < length code" "code ! k = Label l"
    using drop_ConsD [OF assms(2)] by simp_all
  have "code ! j \<noteq> Label l" if "j < k" for j
  proof
    assume "code ! j = Label l"
    then have "Label l \<in> set (take k code)" using that k by (auto simp: in_set_conv_nth intro!: exI [of _ j])
    then have "l \<in> set (labels_of (take k code))" by (rule labels_of_mem)
    moreover have "labels_of code = labels_of (take k code) @ l # labels_of rest"
      by (metis append_take_drop_id labels_of.simps(1) labels_of_append assms(2))
    ultimately show False using assms(1) by simp
  qed
  then show ?thesis using k by (auto simp: label_pos_def find_Some_iff)
qed

subsection \<open>Requests one after the other\<close>

definition code_of :: "emission \<Rightarrow> jinsn list" where
  "code_of e = (case e of Inr (is, _) \<Rightarrow> is | Inl _ \<Rightarrow> [])"

definition succeeds :: "emission \<Rightarrow> bool" where
  "succeeds e \<longleftrightarrow> (\<exists>is. e = Inr (is, True))"

lemma and_all_simps: "and_all [] = Inr ([], True)"
  "and_all (e # es) = (case e of Inl msg \<Rightarrow> Inl msg
     | Inr (is, ok) \<Rightarrow> map_sum id (\<lambda>(is', ok'). (is @ is', ok \<and> ok')) (and_all es))"
   apply (simp add: and_all_def lines_def)
  apply (cases e; simp add: and_all_def)
  done

lemma and_all_True:
  "and_all es = Inr (code, True) \<longleftrightarrow> (\<forall>e\<in>set es. succeeds e) \<and> code = concat (map code_of es)"
proof (induction es arbitrary: code)
  case (Cons e es)
  show ?case
  proof (cases "\<exists>is. e = Inr (is, True)")
    case True
    then obtain "is" where e: "e = Inr (is, True)" ..
    have "and_all (e # es) = Inr (code, True) \<longleftrightarrow> (\<exists>c. and_all es = Inr (c, True) \<and> code = is @ c)"
      by (cases "and_all es") (auto simp: e and_all_simps)
    then show ?thesis using Cons.IH by (auto simp: e succeeds_def code_of_def)
  next
    case False
    then have "and_all (e # es) \<noteq> Inr (code, True)"
      by (cases "and_all es") (auto simp: and_all_simps split: sum.splits)
    then show ?thesis using False by (auto simp: succeeds_def)
  qed
qed (auto simp: and_all_simps)

lemma code_of_lines [simp]: "code_of (lines is) = is" "succeeds (lines is)" "code_of (Inr (is, b)) = is" "succeeds (Inr (is, b)) = b"
  by (simp_all add: code_of_def lines_def succeeds_def)

lemma code_of_ignoring [simp]: "code_of (ignoring e) = code_of e" "succeeds (ignoring e) \<longleftrightarrow> (\<exists>r. e = Inr r)"
  by (cases e; auto simp: ignoring_def code_of_def succeeds_def)+

lemma code_of_emit_if [simp]: "code_of (emit_if b e) = (if b then code_of e else [])"
  "succeeds (emit_if b e) \<longleftrightarrow> (b \<longrightarrow> succeeds e)"
  by (simp_all add: emit_if_def)

lemma run_code: "succeeds e \<Longrightarrow> run E e s = exec E (code_of e) s"
  by (auto simp: succeeds_def run_def code_of_def)

lemma run_not_stuck: "run E e s \<noteq> Stuck \<Longrightarrow> \<exists>r. e = Inr r"
  by (auto simp: run_def split: sum.splits)

lemma run_code_Inr: "e = Inr r \<Longrightarrow> run E e s = exec E (code_of e) s"
  by (cases r) (auto simp: run_def code_of_def)

subsection \<open>Lines without effect\<close>

fun idle :: "jinsn \<Rightarrow> bool" where
  "idle (Comment _) = True"
| "idle (Label _) = True"
| "idle (Generic _) = True"
| "idle _ = False"

lemma exec_idle: "\<forall>i\<in>set is. idle i \<Longrightarrow> exec E (is @ js) s = exec E js s"
proof (induction "is")
  case (Cons i "is")
  then show ?case by (cases i) auto
qed simp

subsection \<open>The emission of one instruction\<close>

text \<open>Tracing is off and the delay slot has no label of its own.\<close>

definition quiet :: "jctx \<Rightarrow> u32 list \<Rightarrow> insn \<Rightarrow> bool" where
  "quiet c labels i \<longleftrightarrow> traceRange (c_config c) = (0, 0) \<and>
     (case i_delayed i of None \<Rightarrow> True | Some d \<Rightarrow> \<not> hasJumptabLabel labels (i_address d))"

definition labelled :: "u32 list \<Rightarrow> emit_state \<Rightarrow> insn \<Rightarrow> bool" where
  "labelled labels es i \<longleftrightarrow> (i_branchTarget i \<or> i_address i \<in> set (es_targets es) \<or> hasJumptabLabel labels (i_address i)) \<and>
     \<not> isDelaySlotNop (insn_class_of i)"

lemma seq_two: "seq [Inr (is, b), Inr (js, b')] = Inr (is @ js, b')"
  by simp

lemma comment_code:
  assumes "traceRange (c_config c) = (0, 0)" "commentInstruction c i = Inr r"
  shows "\<forall>j\<in>set (code_of (commentInstruction c i)). idle j"
  using assms by (auto simp: commentInstruction_def emit_if_def lines_def Let_def code_of_def split: sum.splits if_splits)

lemma emit_insn_code:
  assumes "succeeds (emit_insn c labels es i)" "quiet c labels i"
  shows "\<exists>cm. (\<forall>j\<in>set cm. idle j) \<and> succeeds (compile c i) \<and>
    code_of (emit_insn c labels es i) = (if labelled labels es i then [Label (L_addr (i_address i))] else []) @ cm @ code_of (compile c i)"
proof -
  let ?lb = "if labelled labels es i then [Label (L_addr (i_address i))] else []"
  let ?cm = "code_of (emit_if (\<not> isNop (insn_class_of i)) (ignoring (commentInstruction c i)))"
  have e: "emit_insn c labels es i = and_all [lines ?lb, emit_if (\<not> isNop (insn_class_of i)) (ignoring (commentInstruction c i)),
      compile c i, ignoring (emit_delayed_label c labels i)]"
    by (simp add: emit_insn_def labelled_def)
  obtain code where code: "emit_insn c labels es i = Inr (code, True)" using assms(1) by (auto simp: succeeds_def)
  note A = code [unfolded e and_all_True]
  have "code_of (emit_delayed_label c labels i) = []"
    using assms(2) by (auto simp: emit_delayed_label_def quiet_def emit_if_def code_of_def lines_def split: option.splits)
  moreover have "\<forall>j\<in>set ?cm. idle j"
    using A assms(2) comment_code [of c i] by (auto simp: quiet_def)
  ultimately show ?thesis using A by (intro exI [of _ ?cm]) (auto simp: code)
qed

subsection \<open>The layout of a function\<close>

primrec laid_out :: "jctx \<Rightarrow> u32 list \<Rightarrow> emit_state \<Rightarrow> insn list \<Rightarrow> jinsn list \<Rightarrow> bool" where
  "laid_out c labels es [] code \<longleftrightarrow> (\<forall>j\<in>set code. idle j)"
| "laid_out c labels es (i # is) code \<longleftrightarrow>
     (\<exists>cm rest. (\<forall>j\<in>set cm. idle j) \<and> succeeds (emit_insn c labels es i) \<and>
        code = cm @ code_of (emit_insn c labels es i) @ rest \<and> laid_out c labels es is rest)"

lemma laid_out_ConsI:
  "\<forall>j\<in>set cm. idle j \<Longrightarrow> succeeds (emit_insn c labels es i) \<Longrightarrow> laid_out c labels es is rest \<Longrightarrow>
   laid_out c labels es (i # is) (cm @ code_of (emit_insn c labels es i) @ rest)"
  by auto

lemma laid_out_ConsE:
  assumes "laid_out c labels es (i # is) code"
  obtains cm rest where "\<forall>j\<in>set cm. idle j" "succeeds (emit_insn c labels es i)"
    "code = cm @ code_of (emit_insn c labels es i) @ rest" "laid_out c labels es is rest"
  using assms by auto

declare laid_out.simps(2) [simp del]

lemma laid_out_idle: "\<forall>j\<in>set cm. idle j \<Longrightarrow> laid_out c labels es is code \<Longrightarrow> laid_out c labels es is (cm @ code)"
proof (cases "is")
  case (Cons i js)
  assume cm: "\<forall>j\<in>set cm. idle j" and l: "laid_out c labels es is code"
  obtain cm' rest where "\<forall>j\<in>set cm'. idle j" "succeeds (emit_insn c labels es i)"
      "code = cm' @ code_of (emit_insn c labels es i) @ rest" "laid_out c labels es js rest"
    using l unfolding Cons by (rule laid_out_ConsE)
  then show ?thesis using cm laid_out_ConsI [of "cm @ cm'" c labels es i js rest] by (auto simp: Cons)
qed auto

lemma laid_out_append:
  "laid_out c labels es is code \<Longrightarrow> laid_out c labels es js code' \<Longrightarrow> laid_out c labels es (is @ js) (code @ code')"
proof (induction "is" arbitrary: code)
  case (Cons i "is")
  obtain cm rest where "\<forall>j\<in>set cm. idle j" "succeeds (emit_insn c labels es i)"
      "code = cm @ code_of (emit_insn c labels es i) @ rest" "laid_out c labels es is rest"
    using Cons.prems(1) by (rule laid_out_ConsE)
  then show ?case using Cons.IH [of rest] Cons.prems(2) laid_out_ConsI [of cm c labels es i "is @ js" "rest @ code'"] by simp
qed (simp add: laid_out_idle)

lemma laid_out_drop:
  "laid_out c labels es is code \<Longrightarrow> k \<le> length is \<Longrightarrow> \<exists>pre post. code = pre @ post \<and> laid_out c labels es (drop k is) post"
proof (induction "is" arbitrary: code k)
  case Nil
  then show ?case by auto
next
  case (Cons i "is")
  show ?case
  proof (cases k)
    case 0
    then show ?thesis using Cons.prems(1) by (intro exI [of _ "[]"] exI [of _ code]) simp
  next
    case (Suc k')
    obtain cm rest where c: "code = (cm @ code_of (emit_insn c labels es i)) @ rest" "laid_out c labels es is rest"
      using Cons.prems(1) by (auto elim: laid_out_ConsE)
    then obtain pre post where "rest = pre @ post" "laid_out c labels es (drop k' is) post"
      using Cons.IH [of rest k'] Cons.prems(2) Suc by auto
    then show ?thesis using c Suc by (intro exI [of _ "(cm @ code_of (emit_insn c labels es i)) @ pre"] exI [of _ post]) simp
  qed
qed

text \<open>Instructions that do not change what the second pass collects: all but calls.\<close>

definition effectless :: "insn \<Rightarrow> bool" where
  "effectless i \<longleftrightarrow> i_kind i \<notin> {Jumping Jal, Jumping Jalr, Jumping JalReturn}"

lemma insn_effect_none: "effectless i \<Longrightarrow> insn_effect c i es = es"
  by (auto simp: insn_effect_def effectless_def split: insn_kind.splits)

lemma emit_insns_map:
  "\<forall>i\<in>set is. effectless i \<Longrightarrow>
   emit_insns c m labels is es = (map (emit_insn (with_returns c m (es_returns es)) labels es) is, es)"
  by (induction "is") (simp_all add: insn_effect_none Let_def)

lemma laid_out_map:
  "\<forall>i\<in>set is. succeeds (emit_insn c labels es i) \<Longrightarrow> laid_out c labels es is (concat (map (\<lambda>i. code_of (emit_insn c labels es i)) is))"
proof (induction "is")
  case (Cons i "is")
  then show ?case using laid_out_ConsI [of "[]" c labels es i "is"] by simp
qed simp

lemma bb_pass2_layout:
  assumes "bb_pass2 c m labels b es = (Inr (code, True), es')" "\<forall>i\<in>set (bb_insns b). effectless i"
  shows "es' = es" "laid_out (with_returns c m (es_returns es)) labels es (bb_insns b) code"
proof -
  let ?C = "with_returns c m (es_returns es)"
  have e: "and_all (lines [Comment ''--- basic block ---''] # map (emit_insn ?C labels es) (bb_insns b)) = Inr (code, True)" "es' = es"
    using assms(1) by (auto simp: bb_pass2_def emit_insns_map [OF assms(2)])
  then have "\<forall>i\<in>set (bb_insns b). succeeds (emit_insn ?C labels es i)"
      "code = Comment ''--- basic block ---'' # concat (map (\<lambda>i. code_of (emit_insn ?C labels es i)) (bb_insns b))"
    by (auto simp: and_all_True comp_def)
  then show "laid_out ?C labels es (bb_insns b) code"
    using laid_out_idle [of "[Comment ''--- basic block ---'']", OF _ laid_out_map] by simp
  show "es' = es" by (rule e(2))
qed

lemma pass2_blocks_layout:
  "pass2_blocks c m labels bs es = (Inr (code, True), es') \<Longrightarrow> \<forall>i\<in>set (concat (map bb_insns bs)). effectless i \<Longrightarrow>
   es' = es \<and> laid_out (with_returns c m (es_returns es)) labels es (concat (map bb_insns bs)) code"
proof (induction bs arbitrary: code es es')
  case (Cons b bs)
  obtain e es1 where b: "bb_pass2 c m labels b es = (e, es1)" by fastforce
  obtain "is" where i: "e = Inr (is, True)"
    using Cons.prems(1) b by (auto split: sum.splits if_splits prod.splits)
  note B = bb_pass2_layout [OF b [unfolded i]]
  have es1: "es1 = es" using B(1) Cons.prems(2) by simp
  obtain rest es2 where r: "pass2_blocks c m labels bs es = (rest, es2)" by fastforce
  have a: "and_all [Inr (is, True), rest] = Inr (code, True)" "es' = es2"
    using Cons.prems(1) b i r es1 by auto
  then obtain code' where code': "rest = Inr (code', True)" "code = is @ code'"
    by (auto simp: and_all_True succeeds_def code_of_def)
  then have "es2 = es \<and> laid_out (with_returns c m (es_returns es)) labels es (concat (map bb_insns bs)) code'"
    using Cons.IH [of es code' es2] r Cons.prems(2) by simp
  then show ?case using B(2) Cons.prems(2) code' a(2) by (auto intro!: laid_out_append)
qed (auto simp: lines_def)

subsection \<open>Positions in the code\<close>

text \<open>The rest of the code from \<open>pc\<close> on is that of the instructions from \<open>k\<close> on and of the end of the method.\<close>

definition here :: "jctx \<Rightarrow> u32 list \<Rightarrow> emit_state \<Rightarrow> insn list \<Rightarrow> jinsn list \<Rightarrow> jinsn list \<Rightarrow> nat \<Rightarrow> nat \<Rightarrow> bool" where
  "here c labels es is code tail k pc \<longleftrightarrow> (\<exists>fc. drop pc code = fc @ tail \<and> laid_out c labels es (drop k is) fc)"

lemma drop_append_eq: "drop n xs = ys @ zs \<Longrightarrow> drop (n + length ys) xs = zs"
  by (metis add.commute append_eq_conv_conj drop_drop)

lemma here_split:
  assumes "here c labels es is code tail k pc" "k < length is" "quiet c labels (is ! k)"
  obtains cm rest where "\<forall>j\<in>set cm. idle j" "succeeds (compile c (is ! k))"
    "drop pc code = cm @ code_of (compile c (is ! k)) @ rest" "here c labels es is code tail (Suc k) (pc + length cm + length (code_of (compile c (is ! k))))"
    "labelled labels es (is ! k) \<Longrightarrow> Label (L_addr (i_address (is ! k))) \<in> set cm"
proof -
  let ?i = "is ! k"
  obtain fc where fc: "drop pc code = fc @ tail" "laid_out c labels es (drop k is) fc" using assms(1) by (auto simp: here_def)
  have "drop k is = ?i # drop (Suc k) is" using assms(2) by (simp add: Cons_nth_drop_Suc)
  then obtain cm rest where r: "\<forall>j\<in>set cm. idle j" "succeeds (emit_insn c labels es ?i)"
      "fc = cm @ code_of (emit_insn c labels es ?i) @ rest" "laid_out c labels es (drop (Suc k) is) rest"
    using fc(2) by (auto elim: laid_out_ConsE)
  obtain cm' where e: "\<forall>j\<in>set cm'. idle j" "succeeds (compile c ?i)"
      "code_of (emit_insn c labels es ?i) = (if labelled labels es ?i then [Label (L_addr (i_address ?i))] else []) @ cm' @ code_of (compile c ?i)"
    using emit_insn_code [OF r(2) assms(3)] by auto
  let ?cm = "cm @ (if labelled labels es ?i then [Label (L_addr (i_address ?i))] else []) @ cm'"
  have d: "drop pc code = ?cm @ code_of (compile c ?i) @ rest @ tail" by (simp add: fc(1) r(3) e(3))
  have "here c labels es is code tail (Suc k) (pc + length ?cm + length (code_of (compile c ?i)))"
    unfolding here_def using r(4) drop_append_eq [OF d] drop_append_eq [of _ code "code_of (compile c ?i)" "rest @ tail"]
    by (intro exI [of _ rest]) simp
  moreover have "\<forall>j\<in>set ?cm. idle j" using e(1) r(1) by auto
  ultimately show ?thesis using d e(2) by (intro that [of ?cm "rest @ tail"]) auto
qed

text \<open>What the compiled instruction does moves the code on.\<close>

lemma here_falls:
  assumes "here c labels es is code tail k pc" "k < length is" "quiet c labels (is ! k)" "run E (compile c (is ! k)) s = Fall s'"
  shows "\<exists>pc'. jmoves E code (pc, s) (pc', s') \<and> here c labels es is code tail (Suc k) pc'"
proof -
  obtain cm rest where h: "\<forall>j\<in>set cm. idle j" "succeeds (compile c (is ! k))"
    "drop pc code = cm @ code_of (compile c (is ! k)) @ rest" "here c labels es is code tail (Suc k) (pc + length cm + length (code_of (compile c (is ! k))))"
    using here_split [OF assms(1-3)] by metis
  have "exec E (cm @ code_of (compile c (is ! k))) s = Fall s'"
    using assms(4) h(1,2) by (simp add: exec_idle run_code)
  from exec_moves [OF _ this, of pc code rest] show ?thesis using h(3,4) by (auto simp: add.assoc)
qed

lemma here_jumps:
  assumes "here c labels es is code tail k pc" "k < length is" "quiet c labels (is ! k)" "run E (compile c (is ! k)) s = Jump l s'" "label_pos code l = Some pc'"
  shows "jmoves E code (pc, s) (pc', s')"
proof -
  obtain cm rest where h: "\<forall>j\<in>set cm. idle j" "succeeds (compile c (is ! k))"
    "drop pc code = cm @ code_of (compile c (is ! k)) @ rest"
    using here_split [OF assms(1-3)] by metis
  have "exec E (cm @ code_of (compile c (is ! k))) s = Jump l s'"
    using assms(4) h(1,2) by (simp add: exec_idle run_code)
  from exec_jumps [OF _ this, of pc code rest] show ?thesis using h(3) assms(5) by simp
qed

lemma here_label:
  assumes "distinct (labels_of code)" "here c labels es is code tail 0 start"
    and k: "k < length is" "quiet c labels (is ! k)" "labelled labels es (is ! k)"
  shows "\<exists>pc. label_pos code (L_addr (i_address (is ! k))) = Some pc \<and> here c labels es is code tail k pc"
proof -
  obtain fc where fc: "drop start code = fc @ tail" "laid_out c labels es is fc" using assms(2) by (auto simp: here_def)
  then obtain pre post where p: "fc = pre @ post" "laid_out c labels es (drop k is) post"
    using laid_out_drop [of c labels es "is" fc k] k(1) by auto
  have "drop (start + length pre) code = post @ tail" using fc(1) p(1) by (intro drop_append_eq) simp
  moreover obtain cm rest where r: "\<forall>j\<in>set cm. idle j" "succeeds (emit_insn c labels es (is ! k))"
      "post = cm @ code_of (emit_insn c labels es (is ! k)) @ rest" "laid_out c labels es (drop (Suc k) is) rest"
    using p(2) k(1) by (auto simp flip: Cons_nth_drop_Suc elim: laid_out_ConsE)
  moreover obtain x where "code_of (emit_insn c labels es (is ! k)) = Label (L_addr (i_address (is ! k))) # x"
    using emit_insn_code [OF r(2) k(2)] k(3) by auto
  ultimately have d: "drop (start + length pre + length cm) code = code_of (emit_insn c labels es (is ! k)) @ rest @ tail"
      "code_of (emit_insn c labels es (is ! k)) = Label (L_addr (i_address (is ! k))) # x"
    by (auto intro: drop_append_eq)
  have "laid_out c labels es (drop k is) (code_of (emit_insn c labels es (is ! k)) @ rest)"
    using r(2,4) k(1) laid_out_ConsI [of "[]" c labels es "is ! k" "drop (Suc k) is" rest] by (simp add: Cons_nth_drop_Suc)
  then have "here c labels es is code tail k (start + length pre + length cm)"
    unfolding here_def using d(1) by (intro exI [of _ "code_of (emit_insn c labels es (is ! k)) @ rest"]) simp
  moreover have "label_pos code (L_addr (i_address (is ! k))) = Some (start + length pre + length cm)"
    using label_pos_unique [OF assms(1)] d by simp
  ultimately show ?thesis by blast
qed

subsection \<open>Branch targets compile as other instructions\<close>

lemma setBranchTarget_fields [simp]:
  "i_kind (setBranchTarget i) = i_kind i" "i_address (setBranchTarget i) = i_address i" "i_opcode (setBranchTarget i) = i_opcode i"
  "i_rs (setBranchTarget i) = i_rs i" "i_rt (setBranchTarget i) = i_rt i" "i_rd (setBranchTarget i) = i_rd i"
  "i_extra (setBranchTarget i) = i_extra i" "i_delayed (setBranchTarget i) = i_delayed i" "i_prefix (setBranchTarget i) = i_prefix i"
  "i_using_hi (setBranchTarget i) = i_using_hi i" "i_using_lo (setBranchTarget i) = i_using_lo i"
  by (cases i; simp)+

lemma target_helpers [simp]:
  "branch_target (setBranchTarget i) = branch_target i" "jump_target (setBranchTarget i) = jump_target i"
  "skips_ra c (setBranchTarget i) = skips_ra c i"
  by (simp_all add: branch_target_def jump_target_def skips_ra_def)

lemma memory_setBranchTarget [simp]:
  "push_shift n c (setBranchTarget i) = push_shift n c i" "traceStore bc c (setBranchTarget i) = traceStore bc c i"
  "LoadXX_pass2 bc c (setBranchTarget i) = LoadXX_pass2 bc c i" "StoreXX_pass2 bc c (setBranchTarget i) = StoreXX_pass2 bc c i"
  by (simp_all add: push_shift_def traceStore_def LoadXX_pass2_def StoreXX_pass2_def cong: if_cong)

lemma partial_setBranchTarget [simp]:
  "PartialLoad_pass2 n g bc c (setBranchTarget i) p = PartialLoad_pass2 n g bc c i p"
  "PartialStore_pass2 n bc c (setBranchTarget i) p = PartialStore_pass2 n bc c i p"
  by (cases "c_method c (i_address i)"; simp add: PartialLoad_pass2_def PartialStore_pass2_def Let_def cong: if_cong)+

lemma pass2_setBranchTarget:
  assumes "\<And>b. k \<noteq> Fpu b" "k \<notin> {Jumping Jal, Jumping Jalr, Jumping JalReturn, SyscallInsn, SyscallRegisterArgument, CatchInsn}"
  shows "pass2 (class_of k) c (setBranchTarget i) d p = pass2 (class_of k) c i d p"
proof (cases k)
  case (Arith x)
  then show ?thesis
    by (cases x) (simp_all add: arith_class_defs Rfmt_pass2_def Ifmt_pass2_def Mtxx_class_def Let_def cong: if_cong)
next
  case (Memory x)
  then show ?thesis
    by (cases x) (simp_all add: MemoryXX_class_def LoadXX_class_def StoreXX_class_def LoadXXSigned_class_def
        Lw_class_def Sw_class_def Lbu_class_def Lb_class_def Lhu_class_def Lh_class_def Sb_class_def Sh_class_def
        PartialLoad_class_def PartialStore_class_def LWc1_class_def SWc1_class_def instruction_class_def Let_def cong: if_cong)
next
  case (Jumping x)
  then show ?thesis using assms(2)
    by (cases x) (simp_all add: Jump_class_def Jr_class_def TwoRegisterConditionalJump_class_def OneRegisterConditionalJump_class_def)
qed (use assms in \<open>auto simp: Nop_class_def DelaySlotNop_class_def\<close>)

lemma compile_setBranchTarget:
  assumes "\<And>b. i_kind i \<noteq> Fpu b" "i_kind i \<notin> {Jumping Jal, Jumping Jalr, Jumping JalReturn, SyscallInsn, SyscallRegisterArgument, CatchInsn}"
  shows "compile c (setBranchTarget i) = compile c i"
  using assms by (cases i) (use pass2_setBranchTarget [of "i_kind i" c i] in simp)

end
