(* ===== verification/MethodSim.thy ===== *)
theory MethodSim
  imports MethodRun
begin

text \<open>
  A function of the reference semantics with its branches and delay slots, and the compiled method that
  simulates it from the call to the return.
\<close>

unbundle bit_operations_syntax

subsection \<open>Jumps of the reference\<close>

definition mips_goto :: "u32 \<Rightarrow> u32 \<Rightarrow> u32" where
  "mips_goto a w = ((a + 4) AND 0xf0000000) OR push_bit 2 (w AND 0x03ffffff)"

definition is_return :: "u32 \<Rightarrow> bool" where
  "is_return w \<longleftrightarrow> f_op w = 0 \<and> f_funct w = 8 \<and> f_rs w = 31"

text \<open>\<open>None\<close>: no transfer of control.  \<open>Some None\<close>: a branch that is not taken.\<close>

definition mips_control :: "u32 \<Rightarrow> u32 \<Rightarrow> mips \<Rightarrow> u32 option option" where
  "mips_control a w m =
     (if f_op w = 2 then Some (Some (mips_goto a w))
      else map_option (\<lambda>taken. if taken then Some (mips_target a w) else None) (mips_branch w m))"

definition mips_targets :: "u32 \<Rightarrow> u32 \<Rightarrow> u32 list" where
  "mips_targets a w = (if f_op w = 2 then [mips_goto a w] else if f_op w \<in> {1, 4, 5, 6, 7} then [mips_target a w] else [])"

definition is_control :: "u32 \<Rightarrow> bool" where
  "is_control w \<longleftrightarrow> f_op w \<in> {1, 2, 4, 5, 6, 7} \<or> is_return w"

lemma control_cases:
  "mips_control a w m = Some t \<Longrightarrow> is_control w" "mips_step lim w m = Some m' \<Longrightarrow> \<not> is_control w"
  by (auto simp: mips_control_def is_control_def is_return_def mips_branch_def mips_step_def special_step_def Let_def split: if_splits)

lemma control_target: "mips_control a w m = Some (Some t) \<Longrightarrow> t \<in> set (mips_targets a w)"
  by (auto simp: mips_control_def mips_targets_def mips_branch_def Let_def split: if_splits)

lemma decode_jumps:
  "is_return w \<Longrightarrow> create a w = Inr (new_Instruction (Jumping Jr) a OP_JR R_RA R_ZERO R_ZERO 0)"
  "f_op w = 2 \<Longrightarrow> create a w = Inr (new_Instruction (Jumping Jump_insn) a OP_J R_ZERO R_ZERO R_ZERO (sint (w AND 0x03ffffff)))"
proof -
  assume r: "is_return w"
  have t: "mips_special_table ! 8 = OP_JR" by code_simp
  show "create a w = Inr (new_Instruction (Jumping Jr) a OP_JR R_RA R_ZERO R_ZERO 0)"
    using r insn_opcode_special [of w] unfolding is_return_def
    by (subst create_simple, simp, simp add: t simple_cases_def Let_def encoding_fields extra_special, simp add: t)
next
  assume j: "f_op w = 2"
  have t: "mips_op_entries ! 2 = \<lparr>op_type = OP_J, op_fmt = JFMT\<rparr>" by code_simp
  then have "insn_extra w = sint (w AND 0x03ffffff)" using j by (simp add: insn_extra_def op_entry_f_op)
  then show "create a w = Inr (new_Instruction (Jumping Jump_insn) a OP_J R_ZERO R_ZERO R_ZERO (sint (w AND 0x03ffffff)))"
    using j insn_opcode_direct [of w]
    by (subst create_simple, simp, simp add: t op_entry_f_op simple_cases_def Let_def encoding_fields, simp add: t)
qed

subsection \<open>A function of the reference\<close>

text \<open>
  The words of a function stand at \<open>a\<close>, \<open>a + 4\<close>, ...  A state is the index of the next word, which is
  no delay slot, with registers and memory.  A transfer of control runs its delay slot first.
\<close>

inductive mips_move :: "nat \<Rightarrow> u32 \<Rightarrow> u32 list \<Rightarrow> nat \<times> mips \<Rightarrow> nat \<times> mips \<Rightarrow> bool" for lim a ws where
  Step: "k < length ws \<Longrightarrow> low_base (ws ! k) m \<Longrightarrow> mips_step lim (ws ! k) m = Some m' \<Longrightarrow> mips_move lim a ws (k, m) (Suc k, m')"
| Untaken: "Suc k < length ws \<Longrightarrow> mips_control (a + 4 * of_nat k) (ws ! k) m = Some None \<Longrightarrow>
    low_base (ws ! Suc k) m \<Longrightarrow> mips_step lim (ws ! Suc k) m = Some m' \<Longrightarrow> mips_move lim a ws (k, m) (Suc (Suc k), m')"
| Taken: "Suc k < length ws \<Longrightarrow> mips_control (a + 4 * of_nat k) (ws ! k) m = Some (Some t) \<Longrightarrow>
    low_base (ws ! Suc k) m \<Longrightarrow> mips_step lim (ws ! Suc k) m = Some m' \<Longrightarrow>
    j < length ws \<Longrightarrow> t = a + 4 * of_nat j \<Longrightarrow> mips_move lim a ws (k, m) (j, m')"

inductive_cases mips_moveE: "mips_move lim a ws (k, m) (k', m')"

lemma mips_move_cases [consumes 1, case_names Step Untaken Taken]:
  assumes "mips_move lim a ws (k, m) (k', m')"
  obtains "k' = Suc k" "k < length ws" "low_base (ws ! k) m" "mips_step lim (ws ! k) m = Some m'"
  | "k' = Suc (Suc k)" "Suc k < length ws" "mips_control (a + 4 * of_nat k) (ws ! k) m = Some None"
      "low_base (ws ! Suc k) m" "mips_step lim (ws ! Suc k) m = Some m'"
  | t where "Suc k < length ws" "mips_control (a + 4 * of_nat k) (ws ! k) m = Some (Some t)"
      "low_base (ws ! Suc k) m" "mips_step lim (ws ! Suc k) m = Some m'" "k' < length ws" "t = a + 4 * of_nat k'"
  using assms by (elim mips_moveE) blast+

text \<open>The function runs from its first word to a \<open>jr $31\<close> and through its delay slot.\<close>

definition mips_returns :: "nat \<Rightarrow> u32 \<Rightarrow> u32 list \<Rightarrow> mips \<Rightarrow> mips \<Rightarrow> bool" where
  "mips_returns lim a ws m0 m' \<longleftrightarrow>
     (\<exists>k m. (mips_move lim a ws)\<^sup>*\<^sup>* (0, m0) (k, m) \<and> Suc k < length ws \<and> is_return (ws ! k) \<and>
        low_base (ws ! Suc k) m \<and> mips_step lim (ws ! Suc k) m = Some m')"

subsection \<open>Functions that the translation covers\<close>

definition core_kind :: "insn_kind \<Rightarrow> bool" where
  "core_kind k \<longleftrightarrow> (case k of Arith _ \<Rightarrow> True | Memory _ \<Rightarrow> True | Jumping j \<Rightarrow> j \<notin> {Jal, Jalr, JalReturn} | Nop \<Rightarrow> True
     | DelaySlotNop \<Rightarrow> True | _ \<Rightarrow> False)"

lemma core_compile: "core_kind (i_kind i) \<Longrightarrow> compile c (setBranchTarget i) = compile c i"
  by (rule compile_setBranchTarget) (auto simp: core_kind_def split: insn_kind.splits)

lemma core_effectless: "core_kind (i_kind i) \<Longrightarrow> effectless i"
  by (auto simp: core_kind_def effectless_def split: insn_kind.splits)

definition slot_nop :: "insn \<Rightarrow> bool" where
  "slot_nop i \<longleftrightarrow> i_kind i = DelaySlotNop"

lemma slot_nop_class: "slot_nop i \<Longrightarrow> \<not> labelled labels es i" "slot_nop i \<Longrightarrow> compile c i = lines []"
  by (cases i; simp add: slot_nop_def hasDelaySlot_def labelled_def DelaySlotNop_class_def Nop_class_def instruction_class_def)+

text \<open>An instruction outside delay slots is what the first pass makes of the word, and perhaps a branch target.\<close>

definition unit_ok :: "jctx \<Rightarrow> nat set \<Rightarrow> u32 \<Rightarrow> u32 \<Rightarrow> u32 \<Rightarrow> insn \<Rightarrow> bool" where
  "unit_ok c V ad w wd i \<longleftrightarrow> i_address i = ad \<and>
     (if is_control w
      then \<exists>i0 d. create ad w = Inr i0 \<and> (i = setDelayed (Some d) i0 \<or> i = setBranchTarget (setDelayed (Some d) i0)) \<and>
        translated c V (ad + 4) wd d \<and>
        (if f_op w = 2 then c_instruction c (jump_target i0) = Some (mips_goto ad w)
         else is_return w \<or> set (sources (class_of (i_kind i0)) c i0) \<subseteq> V \<union> {R_ZERO})
      else \<exists>j. translated c V ad w j \<and> (i = j \<or> i = setBranchTarget j))"

definition function_ok :: "jctx \<Rightarrow> nat set \<Rightarrow> u32 list \<Rightarrow> emit_state \<Rightarrow> u32 \<Rightarrow> u32 list \<Rightarrow> insn list \<Rightarrow> bool" where
  "function_ok c V labels es a ws is \<longleftrightarrow> length ws = length is \<and>
     (\<forall>k<length is. quiet c labels (is ! k) \<and> core_kind (i_kind (is ! k)) \<and>
        (slot_nop (is ! k) \<longleftrightarrow> k > 0 \<and> is_control (ws ! (k - 1)) \<and> \<not> slot_nop (is ! (k - 1))) \<and>
        (\<not> slot_nop (is ! k) \<longrightarrow> unit_ok c V (a + 4 * of_nat k) (ws ! k) (ws ! Suc k) (is ! k)) \<and>
        (\<forall>j<length is. a + 4 * of_nat j \<in> set (mips_targets (a + 4 * of_nat k) (ws ! k)) \<longrightarrow> labelled labels es (is ! j)))"

lemma function_okD:
  assumes "function_ok c V labels es a ws is" "k < length is"
  shows "quiet c labels (is ! k)" "core_kind (i_kind (is ! k))"
    "slot_nop (is ! k) \<longleftrightarrow> k > 0 \<and> is_control (ws ! (k - 1)) \<and> \<not> slot_nop (is ! (k - 1))"
    "\<not> slot_nop (is ! k) \<Longrightarrow> unit_ok c V (a + 4 * of_nat k) (ws ! k) (ws ! Suc k) (is ! k)"
    "j < length is \<Longrightarrow> a + 4 * of_nat j \<in> set (mips_targets (a + 4 * of_nat k) (ws ! k)) \<Longrightarrow> labelled labels es (is ! j)"
  using assms unfolding function_ok_def by blast+

lemma function_ok_length: "function_ok c V labels es a ws is \<Longrightarrow> length ws = length is"
  unfolding function_ok_def by blast

subsection \<open>One step of the function\<close>

lemma control_simulates:
  assumes S: "sim lim c V m s" and C: "mips_control a w m = Some t" and D: "create a w = Inr i0"
    and d: "mips_step lim wd m = Some m'" "translated c V (a + 4) wd d" "low_base wd m"
    and R: "if f_op w = 2 then c_instruction c (jump_target i0) = Some (mips_goto a w)
         else is_return w \<or> set (sources (class_of (i_kind i0)) c i0) \<subseteq> V \<union> {R_ZERO}"
  shows "\<exists>s'. run (cruntime calls) (compile c (setDelayed (Some d) i0)) s =
      (case t of Some x \<Rightarrow> Jump (L_addr x) s' | None \<Rightarrow> Fall s') \<and> sim lim c V m' s' \<and> stk s' = stk s"
proof (cases "f_op w = 2")
  case True
  obtain s' where s': "run (cruntime calls) (compile c d) s = Fall s'" "sim lim c V m' s'" "stk s' = stk s"
    using step_simulates [OF S d] by (auto simp: simulates_def)
  have "i0 = new_Instruction (Jumping Jump_insn) a OP_J R_ZERO R_ZERO R_ZERO (sint (w AND 0x03ffffff))"
    using decode_jumps(2) [OF True, of a] D by simp
  moreover have "t = Some (mips_goto a w)" using C True by (simp add: mips_control_def)
  moreover have "c_instruction c (jump_target i0) = Some (mips_goto a w)"
    using R True by simp
  ultimately show ?thesis using s'
    by (intro exI [of _ s']) (simp add: compile_delayed Jump_class_def jump_target_def)
next
  case False
  then obtain taken where B: "mips_branch w m = Some taken" "t = (if taken then Some (mips_target a w) else None)"
    using C by (auto simp: mips_control_def)
  moreover have "\<not> is_return w" using B(1) by (auto simp: is_return_def mips_branch_def Let_def)
  ultimately show ?thesis using branch_simulates [OF S B(1) D _ d] R False by auto
qed

lemma return_simulates:
  assumes S: "sim lim c V m s" and D: "is_return w" "create a w = Inr i0"
    and d: "mips_step lim wd m = Some m'" "translated c V (a + 4) wd d" "low_base wd m"
  shows "\<exists>s'. run (cruntime calls) (compile c (setDelayed (Some d) i0)) s = Jump function_return s' \<and> sim lim c V m' s' \<and> stk s' = stk s"
proof -
  obtain s' where s': "run (cruntime calls) (compile c d) s = Fall s'" "sim lim c V m' s'" "stk s' = stk s"
    using step_simulates [OF S d] by (auto simp: simulates_def)
  moreover have "i0 = new_Instruction (Jumping Jr) a OP_JR R_RA R_ZERO R_ZERO 0" using decode_jumps(1) [OF D(1), of a] D(2) by simp
  ultimately show ?thesis by (intro exI [of _ s']) (simp add: compile_delayed Jr_class_def function_return_def)
qed

definition reaches :: "nat \<Rightarrow> jctx \<Rightarrow> nat set \<Rightarrow> u32 list \<Rightarrow> emit_state \<Rightarrow> insn list \<Rightarrow> jinsn list \<Rightarrow> jinsn list \<Rightarrow> jenv \<Rightarrow>
    nat \<times> jstate \<Rightarrow> nat \<times> mips \<Rightarrow> bool" where
  "reaches lim c V labels es is code tail E cf km \<longleftrightarrow>
     (fst km < length is \<longrightarrow> \<not> slot_nop (is ! fst km) \<and>
        (\<exists>pc s. jmoves E code cf (pc, s) \<and> here c labels es is code tail (fst km) pc \<and> sim lim c V (snd km) s \<and> stk s = stk (snd cf)))"

lemma reaches_trans:
  assumes "jmoves E code cf (pc, s)" "jmoves E code (pc, s) (pc', s')" "here c labels es is code tail k pc'" "sim lim c V m s'"
    "stk s' = stk (snd cf)" "k < length is \<Longrightarrow> \<not> slot_nop (is ! k)"
  shows "reaches lim c V labels es is code tail E cf (k, m)"
  using assms by (auto simp: reaches_def intro: rtranclp_trans)

lemma move_simulates:
  assumes F: "function_ok c V labels es a ws is" and code: "distinct (labels_of code)" "here c labels es is code tail 0 start"
    and R: "reaches lim c V labels es is code tail (cruntime calls) cf (k, m)" and M: "mips_move lim a ws (k, m) (k', m')"
  shows "reaches lim c V labels es is code tail (cruntime calls) cf (k', m')"
proof (cases "k < length is")
  case False
  moreover have "length ws = length is" using F by (rule function_ok_length)
  ultimately have "\<not> k' < length is" using M by (elim mips_moveE) auto
  then show ?thesis by (simp add: reaches_def)
next
  case True
  let ?E = "cruntime calls"
  obtain pc s where r: "\<not> slot_nop (is ! k)" "jmoves ?E code cf (pc, s)" "here c labels es is code tail k pc" "sim lim c V m s" "stk s = stk (snd cf)"
    using R True by (auto simp: reaches_def)
  have f: "quiet c labels (is ! k)" "core_kind (i_kind (is ! k))" "unit_ok c V (a + 4 * of_nat k) (ws ! k) (ws ! Suc k) (is ! k)"
    by (fact function_okD(1,2) [OF F True], fact function_okD(2) [OF F True], rule function_okD(4) [OF F True r(1)])
  note len = function_ok_length [OF F]
  have slot: "slot_nop (is ! Suc j) \<longleftrightarrow> is_control (ws ! j) \<and> \<not> slot_nop (is ! j)" "quiet c labels (is ! Suc j)" if "Suc j < length is" for j
    using function_okD(3) [OF F that] by simp (rule function_okD(1) [OF F that])
  from M show ?thesis
  proof (cases rule: mips_move_cases)
    case Step
    then have n: "\<not> is_control (ws ! k)" using control_cases(2) by blast
    then obtain j where j: "translated c V (a + 4 * of_nat k) (ws ! k) j" "is ! k = j \<or> is ! k = setBranchTarget j"
      using f(3) by (auto simp: unit_ok_def)
    have "compile c (is ! k) = compile c j" using j(2) f(2) core_compile by auto
    then obtain s' where s': "run ?E (compile c (is ! k)) s = Fall s'" "sim lim c V m' s'" "stk s' = stk s"
      using step_simulates [OF r(4) _ j(1)] Step by (auto simp: simulates_def)
    obtain pc' where "jmoves ?E code (pc, s) (pc', s')" "here c labels es is code tail (Suc k) pc'"
      using here_falls [OF r(3) True f(1) s'(1)] by blast
    then show ?thesis using r(2,5) s'(2,3) Step(1) slot(1) [of k] n
      by (auto intro: reaches_trans)
  next
    case Untaken
    then have n: "is_control (ws ! k)" using control_cases(1) by blast
    then obtain i0 d where i: "create (a + 4 * of_nat k) (ws ! k) = Inr i0" "translated c V (a + 4 * of_nat k + 4) (ws ! Suc k) d"
      "is ! k = setDelayed (Some d) i0 \<or> is ! k = setBranchTarget (setDelayed (Some d) i0)"
      "if f_op (ws ! k) = 2 then c_instruction c (jump_target i0) = Some (mips_goto (a + 4 * of_nat k) (ws ! k))
         else is_return (ws ! k) \<or> set (sources (class_of (i_kind i0)) c i0) \<subseteq> V \<union> {R_ZERO}"
      using f(3) by (auto simp: unit_ok_def)
    have e: "compile c (is ! k) = compile c (setDelayed (Some d) i0)" using i(3) f(2) core_compile by auto
    obtain s' where s': "run ?E (compile c (is ! k)) s = Fall s'" "sim lim c V m' s'" "stk s' = stk s"
      using control_simulates [OF r(4) Untaken(3) i(1) Untaken(5) i(2) Untaken(4) i(4)] unfolding e by auto
    obtain pc' where pc': "jmoves ?E code (pc, s) (pc', s')" "here c labels es is code tail (Suc k) pc'"
      using here_falls [OF r(3) True f(1) s'(1)] by blast
    show ?thesis
    proof (cases "Suc k < length is")
      case True
      have sl: "slot_nop (is ! Suc k)" using slot(1) [OF True] n r(1) by simp
      then have "run ?E (compile c (is ! Suc k)) s' = Fall s'" by (simp add: slot_nop_class)
      then obtain pc2 where "jmoves ?E code (pc', s') (pc2, s')" "here c labels es is code tail (Suc (Suc k)) pc2"
        using here_falls [OF pc'(2) True slot(2) [OF True]] by blast
      then show ?thesis using r(2,5) s'(2,3) pc'(1) Untaken(1) slot(1) [of "Suc k"] sl
        by (auto intro: reaches_trans rtranclp_trans)
    qed (use Untaken(1) in \<open>auto simp: reaches_def\<close>)
  next
    case (Taken t)
    then have n: "is_control (ws ! k)" using control_cases(1) by blast
    then obtain i0 d where i: "create (a + 4 * of_nat k) (ws ! k) = Inr i0" "translated c V (a + 4 * of_nat k + 4) (ws ! Suc k) d"
      "is ! k = setDelayed (Some d) i0 \<or> is ! k = setBranchTarget (setDelayed (Some d) i0)"
      "if f_op (ws ! k) = 2 then c_instruction c (jump_target i0) = Some (mips_goto (a + 4 * of_nat k) (ws ! k))
         else is_return (ws ! k) \<or> set (sources (class_of (i_kind i0)) c i0) \<subseteq> V \<union> {R_ZERO}"
      using f(3) by (auto simp: unit_ok_def)
    have e: "compile c (is ! k) = compile c (setDelayed (Some d) i0)" using i(3) f(2) core_compile by auto
    obtain s' where s': "run ?E (compile c (is ! k)) s = Jump (L_addr t) s'" "sim lim c V m' s'" "stk s' = stk s"
      using control_simulates [OF r(4) Taken(2) i(1) Taken(4) i(2) Taken(3) i(4)] unfolding e by auto
    show ?thesis
    proof (cases "k' < length is")
      case k': True
      have lb: "labelled labels es (is ! k')"
        using function_okD(5) [OF F True k'] control_target [OF Taken(2)] Taken(6) by simp
      then have ns: "\<not> slot_nop (is ! k')" using slot_nop_class by blast
      moreover have "i_address (is ! k') = t" using function_okD(4) [OF F k' ns] Taken(6) by (simp add: unit_ok_def)
      moreover obtain pc' where "label_pos code (L_addr (i_address (is ! k'))) = Some pc'" "here c labels es is code tail k' pc'"
        using here_label [OF code k' function_okD(1) [OF F k'] lb] by blast
      ultimately show ?thesis using here_jumps [OF r(3) True f(1) s'(1)] r(2,5) s'(2,3)
        by (auto intro: reaches_trans)
    qed (simp add: reaches_def)
  qed
qed

subsection \<open>The start of a method\<close>

lemma setAllocation_allocated: "regIsAllocated (setAllocation U ra) r \<longleftrightarrow> r \<in> used U"
proof
  show "r \<in> used U" if "regIsAllocated (setAllocation U ra) r"
    using that setAllocation_unused [of r U ra] by (auto simp: regIsAllocated_def regToLocal_def)
next
  assume "r \<in> used U"
  then obtain i where "i < length (allocation_order U)" "allocation_order U ! i = r"
    using allocation_order_props(1) [of U] by (metis in_set_conv_nth)
  then have "regToLocal (setAllocation U ra) r = int i" using setAllocation_local by blast
  then show "regIsAllocated (setAllocation U ra) r" by (simp add: regIsAllocated_def regToLocal_def)
qed

lemma setAllocation_ok:
  assumes "mips_to_static ra = (\<lambda>_. None)"
  shows "ok_alloc (setAllocation U ra)"
proof -
  have "inj_on (regToLocal (setAllocation U ra)) (used U)"
  proof (rule inj_onI)
    fix q r assume qr: "q \<in> used U" "r \<in> used U" and e: "regToLocal (setAllocation U ra) q = regToLocal (setAllocation U ra) r"
    obtain i j where "i < length (allocation_order U)" "allocation_order U ! i = q" "j < length (allocation_order U)" "allocation_order U ! j = r"
      using qr allocation_order_props(1) [of U] by (metis in_set_conv_nth)
    then show "q = r" using e setAllocation_local [of i U ra] setAllocation_local [of j U ra] by auto
  qed
  moreover have "mips_to_static (setAllocation U ra) r = None" for r using assms by (simp add: setAllocation_def Let_def)
  ultimately show ?thesis by (simp add: ok_alloc_def setAllocation_allocated)
qed

text \<open>The value a register starts with.\<close>

definition cleared :: "regalloc \<Rightarrow> java_method \<Rightarrow> MIPS_register list \<Rightarrow> jstate \<Rightarrow> jstate \<Rightarrow> bool" where
  "cleared ra mt rs s s' \<longleftrightarrow> stk s' = stk s \<and> jmem s' = jmem s \<and>
     (\<forall>r\<in>used (mt_registerUsage mt). locs s' (regToLocal ra r) =
        (if r \<in> set rs \<and> \<not> registerIsArgument mt r then if r = R_MEM then VMem else VI 0 else locs s (regToLocal ra r)))"

lemma run_zero_register:
  assumes "\<not> hasMultipleFunctions mt" "zero_register c mt r = Inr x" "c_alloc c = setAllocation (mt_registerUsage mt) ra"
    "mips_to_static ra = (\<lambda>_. None)" "r < N_REGS"
  shows "\<exists>s'. run E (zero_register c mt r) s = Fall s' \<and> cleared (c_alloc c) mt [r] s s'"
proof (cases "registerIsArgument mt r \<or> mt_registerUsage mt r \<le> 0")
  case True
  moreover have "zero_register c mt r = lines [] \<or> zero_register c mt r = panic ''a single-function method uses R_FNA''"
    using True by (auto simp: zero_register_def panic_if_def emit_if_def)
  ultimately have "run E (zero_register c mt r) s = Fall s" using assms(2) by (auto simp: panic_def)
  then show ?thesis using True by (auto simp: cleared_def used_def)
next
  case False
  let ?v = "if r = R_MEM then VMem else VI 0"
  let ?s = "s\<lparr>locs := (locs s)(regToLocal (c_alloc c) r := ?v)\<rparr>"
  have ok: "ok_alloc (c_alloc c)" using assms(3,4) setAllocation_ok by simp
  have u: "r \<in> used (mt_registerUsage mt)" using False assms(5) by (simp add: used_def)
  have al: "regIsAllocated (c_alloc c) r" using u by (simp add: assms(3) setAllocation_allocated)
  have "run E (zero_register c mt r) s = Fall ?s"
    using assms(1,2) False ok al
    by (auto simp: zero_register_def panic_if_def panic_def emit_if_def bc_popregister_def bc_astore_def regIsStatic_def regToStatic_def ok_alloc_def push_def
        split: if_splits)
  moreover have "cleared (c_alloc c) mt [r] s ?s"
    using False al ok by (auto simp: cleared_def regToLocal_inj assms(3) setAllocation_allocated)
  ultimately show ?thesis by blast
qed

lemma cleared_trans: "cleared ra mt [r] s s1 \<Longrightarrow> cleared ra mt rs s1 s2 \<Longrightarrow> cleared ra mt (r # rs) s s2"
  by (auto simp: cleared_def)

lemma seq_Inr: "seq es = Inr r \<Longrightarrow> e \<in> set es \<Longrightarrow> \<exists>x. e = Inr x"
  proof (induction es arbitrary: r rule: seq.induct)
  case (3 e f es)
  then show ?case by (cases e; cases "seq (f # es)") auto
qed auto

lemma run_zero_registers:
  assumes "\<not> hasMultipleFunctions mt" "c_alloc c = setAllocation (mt_registerUsage mt) ra" "mips_to_static ra = (\<lambda>_. None)"
    "\<forall>r\<in>set rs. r < N_REGS \<and> (\<exists>x. zero_register c mt r = Inr x)"
  shows "\<exists>s'. run E (seq (map (zero_register c mt) rs)) s = Fall s' \<and> cleared (c_alloc c) mt rs s s'"
  using assms(4)
proof (induction rs arbitrary: s)
  case Nil
  then show ?case by (simp add: cleared_def)
next
  case (Cons r rs)
  obtain s1 where s1: "run E (zero_register c mt r) s = Fall s1" "cleared (c_alloc c) mt [r] s s1"
    using run_zero_register [OF assms(1) _ assms(2,3), of r] Cons.prems by (metis list.set_intros(1))
  moreover obtain s2 where "run E (seq (map (zero_register c mt) rs)) s1 = Fall s2" "cleared (c_alloc c) mt rs s1 s2"
    using Cons.IH [of s1] Cons.prems by auto
  ultimately have "run E (seq (zero_register c mt r # map (zero_register c mt) rs)) s = Fall s2" "cleared (c_alloc c) mt (r # rs) s s2"
    using cleared_trans by (simp_all add: run_seq_Cons)
  then show ?case by auto
qed

subsection \<open>The method\<close>

definition compiled_context :: "jctx \<Rightarrow> java_method \<Rightarrow> jctx" where
  "compiled_context c0 mt = with_returns (c0\<lparr>c_alloc := setAllocation (mt_registerUsage mt) (c_alloc c0)\<rparr>) (mt_address mt) (mt_returnLocations mt)"

definition instructions_of :: "func \<Rightarrow> insn list" where
  "instructions_of f = concat (map bb_insns (fn_bbs f))"

lemma with_returns_fields [simp]: "c_alloc (with_returns c m l) = c_alloc c" "c_config (with_returns c m l) = c_config c"
  by (simp_all add: with_returns_def)

lemma compiled_context_fields: "c_config (compiled_context c0 mt) = c_config c0"
  "c_alloc (compiled_context c0 mt) = setAllocation (mt_registerUsage mt) (c_alloc c0)"
  by (simp_all add: compiled_context_def)

lemma return_sequence_context: "return_sequence (with_returns c m l) n = return_sequence c n"
  by (simp add: return_sequence_def)

lemma zero_register_context: "zero_register (with_returns c m l) mt = zero_register c mt"
  by (simp add: zero_register_def fun_eq_iff)

lemma header_idle: "succeeds (method_header c mt name)" "\<forall>i\<in>set (code_of (method_header c mt name)). idle i"
  by (auto simp: method_header_def)

text \<open>The code of a method with one function: the registers are cleared, the function, the return sequence.\<close>

lemma method_layout:
  assumes P: "mt_pass2 c0 labels mt targets = (Inr (code, True), es)" and f: "mt_functions mt = [f]" and n: "returnSize mt = Inr n"
    and C: "C = compiled_context c0 mt" "\<not> optimizePartialMemoryOps (c_config c0)" "\<forall>i\<in>set (instructions_of f). effectless i"
  shows "es = \<lparr>es_returns = mt_returnLocations mt, es_targets = targets, es_handlers = mt_exceptionHandlers mt\<rparr>"
    "\<exists>pre zs bg fc mid rs post. code = (pre @ zs @ bg) @ fc @ mid @ Label function_return # rs @ post \<and>
      (\<forall>i\<in>set (pre @ bg). idle i) \<and> zero_registers C mt = Inr (zs, True) \<and> laid_out C labels es (instructions_of f) fc \<and>
      (\<exists>b. return_sequence C n = Inr (rs, b))"
proof -
  define c where "c = c0\<lparr>c_alloc := setAllocation (mt_registerUsage mt) (c_alloc c0)\<rparr>"
  define es0 where "es0 = \<lparr>es_returns = mt_returnLocations mt, es_targets = targets, es_handlers = mt_exceptionHandlers mt\<rparr>"
  have Cc: "C = with_returns c (mt_address mt) (es_returns es0)" by (simp add: C(1) compiled_context_def c_def es0_def)
  have cc: "c_config c = c_config c0" by (simp add: c_def)
  have s: "\<not> hasMultipleFunctions mt" by (simp add: hasMultipleFunctions_def f)
  obtain e es1 where fe: "fn_pass2 c (mt_address mt) labels f es0 = (e, es1)" by fastforce
  have F: "pass2_functions c mt labels (mt_functions mt) es0 = ([lines [], e], es1)"
    by (simp add: f fe s)
  obtain name where name: "getJavaMethodName (c_config c) mt = Inr name"
    using n by (simp add: getJavaMethodName_def)
  let ?tail = "emit_if (mt_registerIndirectJumps mt) (lines [Goto function_return, Label (Lbl ''__CIBYL_local_jumptab''),
      Lookupswitch (mt_jumptabLabels mt) function_return]) #
    lines [Label (Lbl ''__CIBYL_exception_handlers'')] # map (handler_pass2 c) (es_handlers es1)"
  have p: "and_all ([method_header c mt name, zero_registers c mt, lines [], lines [Label (Lbl ''__CIBYL_javamethod_begin'')], lines [], lines [], e] @
      ?tail @ [lines [Label function_return], lines [], ignoring (return_sequence c n), lines [Generic (''.end method ; '' @ name @ nl)]]) = Inr (code, True)"
    "es = es1"
    using P F n name s C(2) by (auto simp: mt_pass2_def c_def [symmetric] es0_def [symmetric] emit_if_def cc split del: if_split)
  note A = p(1) [unfolded and_all_True]
  obtain fc where fc: "e = Inr (fc, True)" using A by (auto simp: succeeds_def)
  have L: "es1 = es0" "laid_out C labels es0 (instructions_of f) fc"
    using pass2_blocks_layout [of c "mt_address mt" labels "fn_bbs f" es0 fc es1] fe fc C(3) Cc
    by (simp_all add: fn_pass2_def instructions_of_def)
  then show "es = \<lparr>es_returns = mt_returnLocations mt, es_targets = targets, es_handlers = mt_exceptionHandlers mt\<rparr>"
    using p(2) es0_def by simp
  obtain zs where zs: "zero_registers c mt = Inr (zs, True)" using A by (auto simp: succeeds_def)
  then have zs': "zero_registers C mt = Inr (zs, True)" by (simp add: Cc zero_registers_def zero_register_context)
  obtain rs b where rs: "return_sequence c n = Inr (rs, b)" using A by auto
  then have rs': "return_sequence C n = Inr (rs, b)" by (simp add: Cc return_sequence_context)
  have "code = (code_of (method_header c mt name) @ zs @ [Label (Lbl ''__CIBYL_javamethod_begin'')]) @ fc @ concat (map code_of ?tail) @
      Label function_return # rs @ [Generic (''.end method ; '' @ name @ nl)]"
    using A zs rs fc by simp
  moreover have "\<forall>i\<in>set (code_of (method_header c mt name) @ [Label (Lbl ''__CIBYL_javamethod_begin'')]). idle i"
    using header_idle(2) by auto
  ultimately show "\<exists>pre zs bg fc mid rs post. code = (pre @ zs @ bg) @ fc @ mid @ Label function_return # rs @ post \<and>
      (\<forall>i\<in>set (pre @ bg). idle i) \<and> zero_registers C mt = Inr (zs, True) \<and> laid_out C labels es (instructions_of f) fc \<and>
      (\<exists>b. return_sequence C n = Inr (rs, b))"
    using L p(2) zs' rs' by metis
qed

subsection \<open>A call of the method\<close>

text \<open>
  On entry the tracked registers that are arguments are in their locals; those that the method clears are 0.
  The result registers are tracked.
\<close>

definition entered :: "nat \<Rightarrow> jctx \<Rightarrow> java_method \<Rightarrow> nat set \<Rightarrow> mips \<Rightarrow> jstate \<Rightarrow> bool" where
  "entered lim c mt V m s \<longleftrightarrow> mem_rel lim (mmem m) (jmem s) \<and>
     (\<forall>r\<in>V. if registerIsArgument mt r then locs s (regToLocal (c_alloc c) r) = VI (regs m r) else regs m r = 0)"

definition tracked :: "java_method \<Rightarrow> int \<Rightarrow> nat set \<Rightarrow> bool" where
  "tracked mt n V \<longleftrightarrow> V \<subseteq> {1..33} \<and> insert R_MEM V \<subseteq> used (mt_registerUsage mt) \<and> \<not> registerIsArgument mt R_MEM \<and>
     n \<in> {0, 1, 2} \<and> (n \<ge> 1 \<longrightarrow> R_V0 \<in> V) \<and> (n = 2 \<longrightarrow> R_V1 \<in> V)"

lemma cleared_sim:
  assumes "entered lim c mt V m s" "tracked mt n V" "cleared (c_alloc c) mt [0..<N_REGS] s s'"
    "c_alloc c = setAllocation (mt_registerUsage mt) ra" "mips_to_static ra = (\<lambda>_. None)"
  shows "sim lim c V m s'"
proof -
  have u: "r \<in> used (mt_registerUsage mt)" if "r \<in> insert R_MEM V" for r using that assms(2) by (auto simp: tracked_def)
  then have l: "locs s' (regToLocal (c_alloc c) r) =
      (if \<not> registerIsArgument mt r then if r = R_MEM then VMem else VI 0 else locs s (regToLocal (c_alloc c) r))" if "r \<in> insert R_MEM V" for r
    using assms(3) that by (auto simp: cleared_def used_def)
  have "memory_local (c_alloc c) s'"
    using l [of R_MEM] u [of R_MEM] assms(2) setAllocation_ok [OF assms(5)] by (simp add: memory_local_def assms(4) setAllocation_allocated tracked_def)
  moreover have "V \<subseteq> {1..33}" using assms(2) by (simp add: tracked_def)
  moreover have "locs s' (regToLocal (c_alloc c) r) = VI (regs m r)" if "r \<in> V" for r
  proof -
    have "r \<noteq> R_MEM" using that \<open>V \<subseteq> {1..33}\<close> by auto
    then show ?thesis using l [of r] that assms(1) by (auto simp: entered_def split: if_splits)
  qed
  ultimately show ?thesis
    using assms(1,3) u by (simp add: sim_def entered_def cleared_def assms(4) setAllocation_allocated)
qed

lemma moves_simulate:
  assumes "function_ok c V labels es a ws is" "distinct (labels_of code)" "here c labels es is code tail 0 start"
    and "(mips_move lim a ws)\<^sup>*\<^sup>* km km'" "reaches lim c V labels es is code tail (cruntime calls) cf km"
  shows "reaches lim c V labels es is code tail (cruntime calls) cf km'"
  using assms(4,5)
proof (induction rule: rtranclp_induct)
  case (step x y)
  then show ?case using move_simulates [OF assms(1-3), of lim calls cf "fst x" "snd x" "fst y" "snd y"] by simp
qed simp

text \<open>The return sequence when the simulation holds.\<close>

lemma saved_v1_upd [simp]:
  "readable ra (s\<lparr>saved_v1 := x\<rparr>) r = readable ra s r" "reg_value ra (s\<lparr>saved_v1 := x\<rparr>) r = reg_value ra s r"
  by (simp_all add: readable_def reg_value_def)

definition returned :: "int \<Rightarrow> mips \<Rightarrow> jval option \<Rightarrow> jstate \<Rightarrow> bool" where
  "returned n m v s \<longleftrightarrow> v = (if n = 0 then None else Some (VI (regs m R_V0))) \<and> (n = 2 \<longrightarrow> saved_v1 s = regs m R_V1)"

lemma return_sequence_sim:
  assumes "sim lim c V m s" "tracked mt n V" "\<not> threadSafe (c_config c)"
  shows "\<exists>s' v. run E (return_sequence c n) s = Returns v s' \<and> mem_rel lim (mmem m) (jmem s') \<and> returned n m v s'"
proof -
  note S = simD(4,5) [OF assms(1)]
  have v: "n \<ge> 1 \<Longrightarrow> readable (c_alloc c) s R_V0 \<and> reg_value (c_alloc c) s R_V0 = regs m R_V0"
    "n = 2 \<Longrightarrow> readable (c_alloc c) s R_V1 \<and> reg_value (c_alloc c) s R_V1 = regs m R_V1" "n \<in> {0, 1, 2}"
    using assms(2) S by (auto simp: tracked_def reg_def)
  then show ?thesis using assms(1,3) by (auto simp: return_sequence_def Let_def returned_def sim_def)
qed

text \<open>The code from its first line to that of the first instruction.\<close>

lemma method_starts:
  assumes P: "mt_pass2 c0 labels mt targets = (Inr (code, True), es)" and f: "mt_functions mt = [f]" "returnSize mt = Inr n"
    and c0: "\<not> optimizePartialMemoryOps (c_config c0)" "mips_to_static (c_alloc c0) = (\<lambda>_. None)"
    and el: "\<forall>i\<in>set (instructions_of f). effectless i" and C: "C = compiled_context c0 mt"
    and S: "entered lim C mt V m0 s0" "tracked mt n V"
  shows "\<exists>tail start finish rs b post s1. here C labels es (instructions_of f) code tail 0 start \<and>
    jmoves E code (0, s0) (start, s1) \<and> sim lim C V m0 s1 \<and> stk s1 = stk s0 \<and>
    drop finish code = Label function_return # rs @ post \<and> return_sequence C n = Inr (rs, b)"
proof -
  obtain pre zs bg fc mid rs post b where code: "code = (pre @ zs @ bg) @ fc @ mid @ Label function_return # rs @ post"
      "\<forall>i\<in>set (pre @ bg). idle i" "zero_registers C mt = Inr (zs, True)" "laid_out C labels es (instructions_of f) fc" "return_sequence C n = Inr (rs, b)"
    using method_layout(2) [OF P f C c0(1) el] by blast
  let ?tail = "mid @ Label function_return # rs @ post" and ?start = "length (pre @ zs @ bg)"
  have al: "c_alloc C = setAllocation (mt_registerUsage mt) (c_alloc c0)" by (simp add: C compiled_context_fields)
  have z: "\<exists>b. seq (map (zero_register C mt) [0..<N_REGS]) = Inr (zs, b)"
    using code(3) by (cases "seq (map (zero_register C mt) [0..<N_REGS])") (auto simp: zero_registers_def ignoring_def)
  then have zr: "\<forall>r\<in>set [0..<N_REGS]. r < N_REGS \<and> (\<exists>x. zero_register C mt r = Inr x)"
    using seq_Inr [of "map (zero_register C mt) [0..<N_REGS]"] by fastforce
  have single: "\<not> hasMultipleFunctions mt" by (simp add: hasMultipleFunctions_def f)
  obtain s1 where s1: "run E (seq (map (zero_register C mt) [0..<N_REGS])) s0 = Fall s1" "cleared (c_alloc C) mt [0..<N_REGS] s0 s1"
    using run_zero_registers [OF single al c0(2) zr] by blast
  have "exec E zs s0 = Fall s1" using s1(1) z by (auto simp: run_def)
  then have "exec E (pre @ zs @ bg) s0 = Fall s1"
    using code(2) exec_idle [of bg E "[]" s1] exec_idle [of pre E "[]" s0] by (simp add: exec_append)
  then have "jmoves E code (0, s0) (?start, s1)"
    using exec_moves [of 0 code "pre @ zs @ bg" "fc @ ?tail"] code(1) by simp
  moreover have "sim lim C V m0 s1" by (rule cleared_sim [OF S s1(2) al c0(2)])
  moreover have "stk s1 = stk s0" using s1(2) by (simp add: cleared_def)
  moreover have "here C labels es (instructions_of f) code ?tail 0 ?start" using code(1,4) by (auto simp: here_def)
  moreover have "drop (?start + length fc + length mid) code = Label function_return # rs @ post" by (simp add: code(1))
  ultimately show ?thesis using code(5) by blast
qed

text \<open>The return instruction with its delay slot.\<close>

lemma return_reached:
  assumes F: "function_ok c V labels es a ws is" and k: "k < length is" "is_return (ws ! k)" "low_base (ws ! Suc k) m" "mips_step lim (ws ! Suc k) m = Some m'"
    and R: "reaches lim c V labels es is code tail (cruntime calls) cf (k, m)" and l: "label_pos code function_return = Some finish"
  shows "\<exists>s. jmoves (cruntime calls) code cf (finish, s) \<and> sim lim c V m' s"
proof -
  let ?E = "cruntime calls"
  obtain pc s where r: "\<not> slot_nop (is ! k)" "jmoves ?E code cf (pc, s)" "here c labels es is code tail k pc" "sim lim c V m s"
    using R k(1) by (auto simp: reaches_def)
  have ctl: "is_control (ws ! k)" using k(2) by (simp add: is_control_def)
  obtain i0 d where i: "create (a + 4 * of_nat k) (ws ! k) = Inr i0" "translated c V (a + 4 * of_nat k + 4) (ws ! Suc k) d"
      "is ! k = setDelayed (Some d) i0 \<or> is ! k = setBranchTarget (setDelayed (Some d) i0)"
    using function_okD(4) [OF F k(1) r(1)] ctl by (auto simp: unit_ok_def)
  have "compile c (is ! k) = compile c (setDelayed (Some d) i0)" using i(3) function_okD(2) [OF F k(1)] core_compile by auto
  then obtain s2 where s2: "run ?E (compile c (is ! k)) s = Jump function_return s2" "sim lim c V m' s2"
    using return_simulates [OF r(4) k(2) i(1) k(4) i(2) k(3)] by auto
  then show ?thesis using here_jumps [OF r(3) k(1) function_okD(1) [OF F k(1)] s2(1) l] r(2) by (auto intro: rtranclp_trans)
qed

text \<open>C1: a method with one function, which calls nothing, returns what the function returns.\<close>

theorem method_correct:
  assumes P: "mt_pass2 c0 labels mt targets = (Inr (code, True), es)" and f: "mt_functions mt = [f]" "returnSize mt = Inr n"
    and c0: "\<not> optimizePartialMemoryOps (c_config c0)" "mips_to_static (c_alloc c0) = (\<lambda>_. None)" "\<not> threadSafe (c_config c0)"
    and F: "function_ok (compiled_context c0 mt) V labels es a ws (instructions_of f)" and D: "distinct (labels_of code)"
    and S: "entered lim (compiled_context c0 mt) mt V m0 s0" "tracked mt n V" and R: "mips_returns lim a ws m0 m'"
  shows "\<exists>v s'. returns (cruntime calls) code (0, s0) v s' \<and> mem_rel lim (mmem m') (jmem s') \<and> returned n m' v s'"
proof -
  let ?C = "compiled_context c0 mt" and ?is = "instructions_of f" and ?E = "cruntime calls"
  have el: "\<forall>i\<in>set ?is. effectless i"
    using function_okD(2) [OF F] core_effectless by (auto simp: in_set_conv_nth)
  obtain tail start finish rs b post s1 where h: "here ?C labels es ?is code tail 0 start" and m1: "jmoves ?E code (0, s0) (start, s1)"
      "sim lim ?C V m0 s1" "stk s1 = stk s0" and e: "drop finish code = Label function_return # rs @ post" "return_sequence ?C n = Inr (rs, b)"
    using method_starts [OF P f c0(1,2) el refl S] by blast
  have "reaches lim ?C V labels es ?is code tail ?E (0, s0) (0, m0)"
    using m1 h function_okD(3) [OF F, of 0] by (auto simp: reaches_def)
  moreover obtain k m where k: "(mips_move lim a ws)\<^sup>*\<^sup>* (0, m0) (k, m)" "Suc k < length ws" "is_return (ws ! k)"
      "low_base (ws ! Suc k) m" "mips_step lim (ws ! Suc k) m = Some m'"
    using R by (auto simp: mips_returns_def)
  ultimately have "reaches lim ?C V labels es ?is code tail ?E (0, s0) (k, m)"
    using moves_simulate [OF F D h] by blast
  moreover have "k < length ?is" using k(2) function_ok_length [OF F] by simp
  ultimately obtain s2 where s2: "jmoves ?E code (0, s0) (finish, s2)" "sim lim ?C V m' s2"
    using return_reached [OF F _ k(3-5) _ label_pos_unique [OF D e(1)]] by blast
  obtain s3 v where s3: "run ?E (return_sequence ?C n) s2 = Returns v s3" "mem_rel lim (mmem m') (jmem s3)" "returned n m' v s3"
    using return_sequence_sim [OF s2(2) S(2), of ?E] c0(3) by (auto simp: compiled_context_fields)
  have "exec ?E (Label function_return # rs) s2 = Returns v s3" using s3(1) e(2) by (simp add: run_def)
  then have "returns ?E code (finish, s2) v s3" using exec_returns [of finish code "Label function_return # rs" post] e(1) by simp
  then show ?thesis using s3(2,3) returns_moves [OF s2(1)] by blast
qed

subsection \<open>A sample method\<close>

text \<open>Requests that succeed and define no label.\<close>

definition clean :: "emission \<Rightarrow> bool" where
  "clean e \<longleftrightarrow> (\<exists>is b. e = Inr (is, b) \<and> labels_of is = [])"

lemma clean_simps [simp]:
  "clean (lines is) \<longleftrightarrow> labels_of is = []" "clean (Inr (is, b)) \<longleftrightarrow> labels_of is = []"
  "clean (emit_if b e) \<longleftrightarrow> (b \<longrightarrow> clean e)" "clean (panic_if b msg e) \<longleftrightarrow> \<not> b \<and> clean e"
  by (auto simp: clean_def lines_def emit_if_def panic_if_def panic_def)

lemma clean_ignoring [simp]: "clean (ignoring e) \<longleftrightarrow> clean e"
  by (cases e) (auto simp: clean_def ignoring_def)

lemma clean_andthen [intro]: "clean e \<Longrightarrow> clean e' \<Longrightarrow> clean (andthen e e')"
  by (auto simp: clean_def)

lemma clean_seq: "\<forall>e\<in>set es. clean e \<Longrightarrow> clean (seq es)"
  by (induction es rule: seq.induct) (auto intro: clean_andthen)

lemma clean_Inr: "clean e \<Longrightarrow> \<exists>r. e = Inr r" "clean e \<Longrightarrow> labels_of (code_of e) = []"
  by (auto simp: clean_def)

lemma clean_emit [simp]: "clean (bc_pushconst v)" "ok_alloc ra \<Longrightarrow> r \<le> N_REGS \<Longrightarrow> clean (bc_pushregister ra r)"
  "ok_alloc ra \<Longrightarrow> clean (bc_popregister ra r)"
  by (auto simp: bc_pushconst_def bc_pushregister_def bc_popregister_def bc_astore_def ok_alloc_def regToStatic_def regIsStatic_def)

lemma labels_of_Generic [simp]: "labels_of (map (\<lambda>i. Generic (f i)) xs) = []"
  by (induction xs) simp_all

lemma clean_zero_registers:
  "ok_alloc (c_alloc c) \<Longrightarrow> mt_registerUsage mt R_FNA \<le> 0 \<Longrightarrow> clean (zero_registers c mt)"
  by (auto simp: zero_registers_def zero_register_def intro!: clean_seq clean_andthen)

lemma clean_return_sequence: "ok_alloc (c_alloc c) \<Longrightarrow> clean (return_sequence c n)"
  by (auto simp: return_sequence_def Let_def intro!: clean_andthen)

text \<open>\<open>jr $31\<close> with \<open>addu $2, $4, $5\<close> in its delay slot.\<close>

definition adder_words :: "u32 list" where "adder_words = [0x03e00008, sample_word]"

definition adder_jump :: insn where
  "adder_jump = setDelayed (Some (new_Instruction (Arith Addu) 0x1004 OP_ADDU 4 5 2 0)) (new_Instruction (Jumping Jr) 0x1000 OP_JR R_RA R_ZERO R_ZERO 0)"

definition adder :: func where
  "adder = sample_function\<lparr>fn_bbs := [\<lparr>bb_type = NORMAL, bb_address = 0x1000, bb_size = 8,
     bb_insns = [adder_jump, createDelaySlotNop 0x1004], bb_bc_size = 8, bb_maxStackHeight = 2\<rparr>]\<rparr>"

definition adder_method :: java_method where
  "adder_method = sample_java_method\<lparr>mt_functions := [adder], mt_registerUsage := (\<lambda>r. if r \<in> {R_V0, R_A0, R_A1, R_MEM} then 1 else 0),
     mt_returnSize := 1, mt_n_registersToPass := 2\<rparr>"

lemma hex_sample: "hex 0x1000 = ''1000''" by code_simp

lemma hex8_sample: "hex8 0x1000 = ''00001000''" by code_simp

lemma adder_texts: "length (instruction_text adder_jump) \<le> 20"
  "length (instruction_text (new_Instruction (Arith Addu) 0x1004 OP_ADDU 4 5 2 0)) \<le> 20"
  by code_simp+

lemma adder_fields [simp]: "i_kind adder_jump = Jumping Jr" "i_address adder_jump = 0x1000" "\<not> i_branchTarget adder_jump"
  "i_delayed adder_jump = Some (new_Instruction (Arith Addu) 0x1004 OP_ADDU 4 5 2 0)" "hasDelaySlot adder_jump"
  by (simp_all add: adder_jump_def new_Instruction_def hasDelaySlot_def Jr_class_def BranchInstruction_class_def)

lemma adder_comment: "traceRange (c_config c) = (0, 0) \<Longrightarrow> clean (commentInstruction c adder_jump)"
  using adder_texts
  by (auto simp: commentInstruction_def comment_buffer_def instruction_to_string_def hex_sample hex8_sample Let_def intro!: clean_andthen)

lemma adder_compile:
  assumes "ok_alloc (c_alloc c)"
  shows "clean (compile c adder_jump)" "succeeds (compile c adder_jump)"
proof -
  have d: "clean (compile c (new_Instruction (Arith Addu) 0x1004 OP_ADDU 4 5 2 0))"
    using assms by (auto simp: new_Instruction_def Addu_class_def Rfmt_class_def Rfmt_pass2_def intro!: clean_andthen)
  have e: "compile c adder_jump = andthen (ignoring (compile c (new_Instruction (Arith Addu) 0x1004 OP_ADDU 4 5 2 0))) (lines [Goto (Lbl ''__CIBYL_function_return'')])"
    by (simp add: adder_jump_def compile_delayed Jr_class_def optional_def ignoring_def)
  show "clean (compile c adder_jump)" using d by (auto simp: e)
  show "succeeds (compile c adder_jump)" using d by (auto simp: e clean_def succeeds_def lines_def ignoring_def)
qed

text \<open>The requests of the method: all succeed, and the labels are those of the method itself.\<close>

lemma clean_and_all: "\<forall>e\<in>set es. clean e \<Longrightarrow> clean (and_all es)"
proof (induction es)
  case (Cons e es)
  then show ?case by (cases "and_all es") (auto simp: clean_def and_all_simps)
qed (simp add: and_all_simps)

lemma and_all_succeeds: "succeeds (and_all es) \<longleftrightarrow> (\<forall>e\<in>set es. succeeds e)"
  unfolding succeeds_def [of "and_all es"] and_all_True by blast

lemma no_jumptab [simp]: "\<not> hasJumptabLabel [] a"
  by (simp add: hasJumptabLabel_def bsearch_def bsearch_loop.simps)

lemma adder_insns:
  assumes "ok_alloc (c_alloc c)" "traceRange (c_config c) = (0, 0)" "es_targets es = []"
  shows "succeeds (emit_insn c [] es adder_jump)" "clean (emit_insn c [] es adder_jump)"
    "succeeds (emit_insn c [] es (createDelaySlotNop a))" "clean (emit_insn c [] es (createDelaySlotNop a))"
proof -
  let ?l = "\<lambda>i. [lines [], emit_if (\<not> isNop (insn_class_of i)) (ignoring (commentInstruction c i)), compile c i, ignoring (emit_delayed_label c [] i)]"
  have j: "emit_insn c [] es adder_jump = and_all (?l adder_jump)"
    by (simp add: emit_insn_def assms(3))
  show "clean (emit_insn c [] es adder_jump)"
    unfolding j by (rule clean_and_all) (use adder_comment [OF assms(2)] adder_compile [OF assms(1)] in \<open>simp add: emit_delayed_label_def\<close>)
  show "succeeds (emit_insn c [] es adder_jump)"
    unfolding j and_all_succeeds
    using clean_Inr(1) [OF adder_comment [OF assms(2)]] adder_compile [OF assms(1)] by (auto simp: emit_delayed_label_def emit_if_def [of False] lines_def)
  have n: "emit_insn c [] es (createDelaySlotNop a) = and_all (?l (createDelaySlotNop a))"
    by (simp add: emit_insn_def createDelaySlotNop_def new_Instruction_def DelaySlotNop_class_def)
  have p: "clean (compile c (createDelaySlotNop a))" "succeeds (compile c (createDelaySlotNop a))" "isNop (insn_class_of (createDelaySlotNop a))"
      "emit_delayed_label c [] (createDelaySlotNop a) = lines []"
    by (simp_all add: createDelaySlotNop_def new_Instruction_def DelaySlotNop_class_def Nop_class_def emit_delayed_label_def
        hasDelaySlot_def emit_if_def instruction_class_def)
  show "clean (emit_insn c [] es (createDelaySlotNop a))" unfolding n by (rule clean_and_all) (use p in simp)
  show "succeeds (emit_insn c [] es (createDelaySlotNop a))" unfolding n and_all_succeeds using p by (auto simp: lines_def)
qed

text \<open>The second pass of the sample.\<close>

lemma adder_pass2:
  assumes "ok_alloc (c_alloc c)" "traceRange (c_config c) = (0, 0)" "es_targets es = []"
  shows "\<exists>e. fn_pass2 c m [] adder es = (e, es) \<and> succeeds e \<and> clean e"
proof -
  let ?C = "with_returns c m (es_returns es)" and ?is = "[adder_jump, createDelaySlotNop 0x1004]"
  have "ok_alloc (c_alloc ?C)" "traceRange (c_config ?C) = (0, 0)" using assms by simp_all
  note A = adder_insns [OF this assms(3)]
  have "\<forall>i\<in>set ?is. effectless i"
    by (simp add: effectless_def createDelaySlotNop_def new_Instruction_def)
  note M = emit_insns_map [OF this]
  define e where "e = and_all (lines [Comment ''--- basic block ---''] # map (emit_insn ?C [] es) ?is)"
  have e: "succeeds e" "clean e" unfolding e_def and_all_succeeds using A by (auto intro!: clean_and_all)
  then obtain "is" where i: "e = Inr (is, True)" by (auto simp: succeeds_def)
  have "fn_pass2 c m [] adder es = (and_all [Inr (is, True), lines []], es)"
    unfolding fn_pass2_def adder_def using i by (simp add: bb_pass2_def M e_def del: emit_insns.simps)
  moreover have "succeeds (and_all [Inr (is, True), lines []])" "clean (and_all [Inr (is, True), lines []])"
    unfolding and_all_succeeds using e(2) i by (auto intro!: clean_and_all)
  ultimately show ?thesis by blast
qed

lemma adder_method_fields [simp]: "mt_functions adder_method = [adder]" "mt_exceptionHandlers adder_method = []"
  "\<not> mt_registerIndirectJumps adder_method" "returnSize adder_method = Inr 1" "\<not> hasMultipleFunctions adder_method"
  "argument_list adder_method = argument_registers"
  by (simp_all add: adder_method_def sample_java_method_def new_JavaMethod_def sample_function_def returnSize_def
      hasMultipleFunctions_def Let_def argument_list_def argument_registers_def)

lemma adder_usage: "mt_registerUsage adder_method = (\<lambda>r. if r \<in> {R_V0, R_A0, R_A1, R_MEM} then 1 else 0)"
  by (simp add: adder_method_def)

lemma adder_translates:
  "\<exists>code. mt_pass2 sample_context [] adder_method [] =
     (Inr (code, True), \<lparr>es_returns = mt_returnLocations adder_method, es_targets = [], es_handlers = []\<rparr>) \<and> distinct (labels_of code)"
proof -
  define c where "c = sample_context\<lparr>c_alloc := setAllocation (mt_registerUsage adder_method) (c_alloc sample_context)\<rparr>"
  define es0 where "es0 = \<lparr>es_returns = mt_returnLocations adder_method, es_targets = [], es_handlers = []\<rparr>"
  have c: "ok_alloc (c_alloc c)" "traceRange (c_config c) = (0, 0)" "\<not> optimizePartialMemoryOps (c_config c)"
    by (simp_all add: c_def sample_context_def setAllocation_ok new_Config_def)
  obtain e where e: "fn_pass2 c (mt_address adder_method) [] adder es0 = (e, es0)" "succeeds e" "clean e"
    using adder_pass2 [OF c(1,2), of es0] by (auto simp: es0_def)
  have h: "es_handlers es0 = []" by (simp add: es0_def)
  obtain name where name: "getJavaMethodName (c_config c) adder_method = Inr name" by (simp add: getJavaMethodName_def)
  let ?l = "[method_header c adder_method name, zero_registers c adder_method, lines [], lines [Label (Lbl ''__CIBYL_javamethod_begin'')], lines [],
    lines [], e, lines [], lines [Label (Lbl ''__CIBYL_exception_handlers'')], lines [Label function_return], lines [],
    ignoring (return_sequence c 1), lines [Generic (''.end method ; '' @ name @ nl)]]"
  have "mt_pass2 sample_context [] adder_method [] = (and_all ?l, es0)"
    using e(1) name c(3) h by (simp add: mt_pass2_def c_def [symmetric] es0_def [symmetric] emit_if_def)
  moreover have z: "clean (zero_registers c adder_method)" "clean (return_sequence c 1)"
    using c(1) clean_zero_registers clean_return_sequence by (auto simp: adder_usage)
  have "succeeds (zero_registers c adder_method)"
    using z(1) clean_Inr(1) unfolding zero_registers_def clean_ignoring code_of_ignoring by blast
  then have "succeeds (and_all ?l)"
    unfolding and_all_succeeds using clean_Inr(1) [OF z(2)] e(2) header_idle(1) by auto
  then obtain code where code: "and_all ?l = Inr (code, True)" by (auto simp: succeeds_def)
  moreover have "code = concat (map code_of ?l)" using code unfolding and_all_True by blast
  then have "labels_of code = [Lbl ''__CIBYL_javamethod_begin'', Lbl ''__CIBYL_exception_handlers'', function_return]"
    using clean_Inr(2) [OF z(1)] clean_Inr(2) [OF z(2)] clean_Inr(2) [OF e(3)] by (simp add: method_header_def)
  ultimately show ?thesis by (simp add: function_return_def es0_def)
qed

abbreviation adder_context :: jctx where
  "adder_context \<equiv> compiled_context sample_context adder_method"

lemma adder_used: "used (mt_registerUsage adder_method) = {R_V0, R_A0, R_A1, R_MEM}"
  by (auto simp: used_def adder_usage split: if_splits)

lemma adder_allocated: "regIsAllocated (c_alloc adder_context) r \<longleftrightarrow> r \<in> {R_V0, R_A0, R_A1, R_MEM}"
  by (simp add: compiled_context_fields setAllocation_allocated adder_used)

lemma adder_decode: "create a sample_word = Inr (new_Instruction (Arith Addu) a OP_ADDU 4 5 2 0)"
  using decode_special(14) [of sample_word a] by (simp add: sample_fields)

lemma adder_translated: "translated adder_context {2, 4, 5} a sample_word (new_Instruction (Arith Addu) a OP_ADDU 4 5 2 0)"
proof -
  have "compile1 adder_context (new_Instruction (Arith Addu) a OP_ADDU 4 5 2 0) = Inr (new_Instruction (Arith Addu) a OP_ADDU 4 5 2 0, [], True)"
    by (simp add: new_Instruction_def arith_class_defs pass1_true_def)
  moreover have "registers_ok adder_context {2, 4, 5} (new_Instruction (Arith Addu) a OP_ADDU 4 5 2 0)"
    by (simp add: registers_ok_def arith_class_defs target_def adder_allocated)
  moreover have "\<exists>my. c_method adder_context a = Some my"
    by (simp add: compiled_context_def with_returns_def sample_context_def)
  moreover have "\<not> optimizePartialMemoryOps (c_config adder_context) \<and> \<not> traceStores (c_config adder_context)"
    by (simp add: compiled_context_fields sample_context_def new_Config_def)
  ultimately show ?thesis using adder_decode by (auto simp: translated_def sample_fields)
qed

lemma jr_fields: "is_return 0x03e00008" "is_control 0x03e00008" "\<not> is_control sample_word" "f_op 0x03e00008 = 0"
  by code_simp+

lemma adder_ok: "function_ok adder_context {2, 4, 5} [] \<lparr>es_returns = rl, es_targets = [], es_handlers = []\<rparr> 0x1000 adder_words (instructions_of adder)"
proof -
  have "quiet adder_context [] adder_jump" "quiet adder_context [] (createDelaySlotNop 0x1004)"
    by (simp_all add: quiet_def compiled_context_fields sample_context_def new_Config_def createDelaySlotNop_def new_Instruction_def)
  moreover have "slot_nop (createDelaySlotNop 0x1004)" "\<not> slot_nop adder_jump" "core_kind (i_kind adder_jump)" "core_kind (i_kind (createDelaySlotNop 0x1004))"
    by (simp_all add: slot_nop_def createDelaySlotNop_def new_Instruction_def core_kind_def)
  moreover have "unit_ok adder_context {2, 4, 5} 0x1000 0x03e00008 sample_word adder_jump"
    using decode_jumps(1) [OF jr_fields(1), of "0x1000"] adder_translated [of "0x1004"] by (auto simp: unit_ok_def jr_fields adder_jump_def)
  ultimately show ?thesis
    by (auto simp: function_ok_def instructions_of_def adder_def adder_words_def less_Suc_eq jr_fields mips_targets_def sample_fields)
qed

definition adder_mips :: mips where
  "adder_mips = \<lparr>regs = (\<lambda>r. if r = 4 then 3 else if r = 5 then 4 else 0), mmem = (\<lambda>_. 0)\<rparr>"

definition adder_state :: jstate where
  "adder_state = \<lparr>stk = [], locs = (\<lambda>n. VI (if n = 0 then 3 else 4)), jmem = replicate 16 0, saved_v1 = 0\<rparr>"

lemma adder_returns: "mips_returns 16 0x1000 adder_words adder_mips (set_reg 2 7 adder_mips)"
  unfolding mips_returns_def
  by (rule exI [of _ 0], rule exI [of _ adder_mips])
    (simp add: adder_words_def jr_fields low_base_def sample_fields mips_step_def special_step_def Let_def reg_def adder_mips_def)

lemma adder_locals: "regToLocal (c_alloc adder_context) R_A0 = 0" "regToLocal (c_alloc adder_context) R_A1 = 1"
proof -
  have p: "registersToPass adder_method = [R_A0, R_A1]"
    by (simp add: registersToPass_filter argument_registers_def clobbersReg_def adder_usage)
  have "\<exists>zs. argument_registers = argument_list adder_method @ zs" by simp
  note L = passed_locals [OF this]
  show "regToLocal (c_alloc adder_context) R_A0 = 0" "regToLocal (c_alloc adder_context) R_A1 = 1"
    using L [where k = 0] L [where k = 1] by (simp_all add: p compiled_context_fields)
qed

lemma adder_entered: "entered 16 adder_context adder_method {2, 4, 5} adder_mips adder_state"
proof -
  have "load32 (\<lambda>_. 0) a = 0" for a by (simp add: load32_def)
  then show ?thesis
    using adder_locals by (simp add: entered_def adder_mips_def adder_state_def mem_rel_def registerIsArgument_def argument_registers_def)
qed

lemma method_correct_witness:
  "\<exists>code v s'. returns (cruntime (\<lambda>_ _ _. Stuck)) code (0, adder_state) v s' \<and> v = Some (VI 7)"
proof -
  obtain code where c: "mt_pass2 sample_context [] adder_method [] =
      (Inr (code, True), \<lparr>es_returns = mt_returnLocations adder_method, es_targets = [], es_handlers = []\<rparr>)" "distinct (labels_of code)"
    using adder_translates by blast
  have t: "tracked adder_method 1 {2, 4, 5}"
    by (simp add: tracked_def adder_used registerIsArgument_def argument_registers_def)
  have k: "\<not> optimizePartialMemoryOps (c_config sample_context)" "mips_to_static (c_alloc sample_context) = (\<lambda>_. None)" "\<not> threadSafe (c_config sample_context)"
    by (simp_all add: sample_context_def new_Config_def)
  show ?thesis
    using method_correct [OF c(1) adder_method_fields(1,4) k adder_ok c(2) adder_entered t adder_returns]
    by (fastforce simp: returned_def)
qed

end
