(* ===== verification/Spec2Isabelle.thy ===== *)
theory Spec2Isabelle
  imports ScanfProps SyscallProps CTime ProgramProps MethodSim
begin

text \<open>
  Cibyl compiles C programs to Java byte code in two stages: GCC compiles them for a 32-bit big-endian
  MIPS, and the translator \<open>cibyl-mips2java\<close> (src/tools/translator) turns the MIPS program into Jasmin
  assembly, which becomes Java classes.  The memory of the program is one Java array of words,
  \<open>CRunTime.memory\<close>.  A C library (src/libs/src, src/syscalls/ansi/include) is compiled along with the
  program.  This development models the core of both, the translator and the C library, and proves what
  makes them correct.

  \<^bold>\<open>The parts of the program and the theories that model them.\<close>  A definition has the name of the C or C++
  function it models; a name that belongs to HOL gets a suffix.

  \<^bold>\<open>Machine.\<close>  \<open>Prelude\<close> has the integers of the target (\<open>u8\<close>, \<open>u32\<close>, \<open>u64\<close>, words that wrap), the
  byte memory (\<open>mem\<close>, a function on 32-bit addresses), blocks of bytes (\<open>peek\<close>, \<open>poke\<close>), big-endian words
  (\<open>load32\<close>, \<open>store32\<close>), NUL-terminated strings (\<open>cstr\<close>), and the division of C.

  \<^bold>\<open>C library.\<close>
  \<^item> \<open>CString\<close>: libc/string.c.  \<open>CStdlib\<close>: ctype.h, libc/ansi.c and the number parsing of libc/stdlib.c.
    A function that writes memory returns the new memory; a loop that looks for a terminator is a
    \<open>partial_function (option)\<close> and \<open>None\<close> means that it does not return.
  \<^item> \<open>Smalloc\<close>: the allocator libc/smalloc.c.  Its state is the record \<open>smalloc\<close>: the memory, in which the
    nodes of the free and of the allocated list live, the heads of the lists and the counters.
    \<open>SmallocLists\<close> and \<open>SmallocInv\<close> hold the invariant \<open>heap_ok\<close> and its proof, \<open>Allocator\<close> the contract
    with its clients as a locale, interpreted in \<open>SmallocInv\<close>, and \<open>HeapClients\<close> proves \<open>realloc\<close>,
    \<open>calloc\<close> and \<open>strdup\<close> from the contract.
  \<^item> \<open>CTime\<close>: the calendar of libc/time.c.
  \<^item> \<open>CPrintf\<close>: libc/vsnprintf.c and the printers to memory of libc/printf.c; the record \<open>vs\<close> holds the
    variables of \<open>vsnprintf\<close> that change from character to character.  \<open>PrintfText\<close> is
    what printf(3) prescribes (\<open>printf_text\<close>), written without the code's digits, signs and padding; where the code
    departs from it, it has no text.  \<open>CPrintfProps\<close> proves that the code writes that text, in two steps: it
    writes \<open>formatted\<close>, the output of its conversions as lists, and these are the text.
  \<^item> \<open>FileOps\<close>: libcrt0/fileops.c, the registered file systems and the operations on files and
    directories, and the printers to files of libc/printf.c.  An operation takes the record \<open>world\<close>, in which
    the heap, the registered tables and the \<open>FILE\<close> structures are, to a result and the next world, or throws;
    a file system is a record of functions, \<open>fops\<close>.  \<open>MemoryFiles\<close>: libcrt0/memory-filesystem.c, the file system
    over a block of the heap, and the start-up code of libcrt0/helpers.c.  \<open>Registry\<close> relates the tables to
    lists, \<open>FileSystem\<close> is the contract of a file system as a locale, \<open>FileProps\<close> interprets it by memory
    files, and \<open>MemoryFileProps\<close> states what a program sees.
  \<^item> \<open>Scanf\<close>: libc/scanf_ska.c; the record \<open>scanf_struct\<close> is the state of a scan.  \<open>ScanfProps\<close> proves that a text
    made by a format is taken apart by it.

  \<^bold>\<open>Translator.\<close>
  \<^item> \<open>Mips\<close>: the tables of mips.hh and mips.cc.  \<open>RegAlloc\<close>: registerallocator.cc, which maps the MIPS
    registers of a method to Java locals.  \<open>Jvm\<close>: the Jasmin lines the translator writes, their text, and
    what a Java machine does with them.  \<open>Emit\<close>: emit.cc, one definition per request.
  \<^item> \<open>Insn\<close>: the class \<open>Instruction\<close> as a record of its virtual methods.  \<open>InsnArith\<close>, \<open>InsnMemory\<close>,
    \<open>InsnJump\<close>, \<open>InsnFpu\<close>: the derived classes of instructions/*.cc.  \<open>Factory\<close>: the decoder
    \<open>InstructionFactory\<close>.  \<open>Builtins\<close>: the functions compiled inline.
  \<^item> \<open>Search\<close> and \<open>Blocks\<close>: jump table labels, basic blocks, functions (codeblock.cc, basicblock.cc,
    function.cc).  \<open>Method\<close>: javamethod.cc.  \<open>Classes\<close>: javaclass.cc, functioncolocation.cc,
    calltablemethod.cc.  \<open>Controller\<close>: controller.cc, the three passes over a program.  The ELF file is the
    record \<open>elf\<close>, a parameter.
  \<^item> \<open>Syscalls\<close>: the databases of syscalls (\<open>readSyscallDatabase\<close> and \<open>getSyscall\<close> of controller.cc, and the Python
    program that generates them) and syscall-wrappers.cc, which writes the Java class of the wrappers as text.
    Files are strings of bytes, looked up by parameters.

  A panic of the translator is \<open>Inl\<close> with its message; a null pointer dereferenced is \<open>Inl\<close> as well, so
  that a theorem which says \<open>Inr\<close> says that neither happens.

  \<^bold>\<open>Semantics.\<close>  \<open>MipsSem\<close> gives the meaning of MIPS instruction words from the architecture, independent
  of the translator's tables.  \<open>Jvm\<close> runs Jasmin lines on an operand stack, locals and the memory array.
  \<open>CRun\<close> models the methods of java/CRunTime.java that translated code calls.

  \<^bold>\<open>What the lemmas show.\<close>
  \<^item> \<open>MemRel\<close>, \<open>RunInsn\<close>, \<open>RunMemory\<close>, \<open>Decode\<close>, \<open>Simulation\<close>, \<open>Translate\<close>: the word array and the byte
    memory correspond; each instruction of the reference, decoded by the factory and compiled, does to the
    locals what MIPS does to the registers; so do blocks, and branches with their delay slots.
    \<open>TranslateProps\<close> states it.
  \<^item> \<open>MethodRun\<close>, \<open>MethodSim\<close>: a method as it is written, labels, branches and return sequence included,
    simulates a function of the reference semantics from its call to its return.
  \<^item> \<open>MethodProps\<close>: arguments and results travel by the calling convention.  \<open>BlocksProps\<close>: functions are
    cut into blocks, every instruction once.  \<open>ProgramProps\<close>: methods are found by address, delay slots are
    paired, the call table is ordered, data sections are aligned.  \<open>BuiltinProps\<close>: 64-bit division inline.
    \<open>SyscallProps\<close>: syscall databases are read back as generated, and every syscall in use has a wrapper with the
    signature of its calls.
  \<^item> In the C library: strings, blocks and tokens against lists; the heap invariant through \<open>malloc\<close> and
    \<open>free\<close>, and what clients may rely on; the calendar against the day count, both ways,
    with days counted from the lengths of years and months and not from the tables of time.c; formatted output
    against its reference, and back through \<open>atoi\<close>; registered file systems against a list; a memory file
    against a list of bytes and a position, and where files depart from the C standard.

  \<^bold>\<open>Interfaces.\<close>  The locale \<open>allocator\<close> is interpreted by the allocator; the locale of comparison functions
  in \<open>Search\<close> by the comparisons of codeblock.cc and javaclass.cc; the locale \<open>file_system\<close>, a device that
  reads and writes a list of bytes and leaves the client's memory alone, by memory files.

  \<^bold>\<open>Bounds.\<close>  All machine integers have the width of the target; addresses wrap.  The numbers of the calendar
  are integers where they cannot leave 32 bits.  Label and method addresses are searched by a signed
  difference, so that lookups are proved for addresses less than \<open>2 ^ 31\<close> apart.  The stack of open
  \<open>try\<close> blocks has 32 entries, as in the code.  The reference for formats takes widths, precisions and
  strings up to \<open>2 ^ 29\<close>.  Loops are total functions by a measure where they count, and
  \<open>partial_function (option)\<close> otherwise, with the theorems stating that a result exists.  A straight run of
  Jasmin lines is a function on the list of lines, a run with jumps the closure of a step relation, and
  theorems give the existence of a run to the return.

  \<^bold>\<open>Not modelled.\<close>  elf.cc and mips-dwarf.c read the ELF file through libelf and libdw, and what they deliver
  is a parameter; the headers of elfutils are third-party code.  utils.cc is file reading and checked
  allocation.  In the library, libgcc and libm are single calls of Java methods; the
  file systems of libmidp, libjava, libj2se and libjsr075 are glue to Java streams; \<open>%f\<close> of
  \<open>vsnprintf\<close> is compiled only with floating point support; the panics of helpers.c, which print and throw,
  are errors of the operation that calls them.  The Java code besides the methods above, the
  tests and the examples are left out.
\<close>

end
